(* ===== verification/Prelude.thy ===== *)
theory Prelude
  imports Main "HOL-Library.Word" "HOL-Library.Monad_Syntax"
begin

text \<open>
  What every theory of the development shares: the identifier types of the camera
  pipeline, the status codes of the Android base library that the code returns
  (\<open>utils/Errors.h\<close>; \<open>MERROR\<close> is a signed integer, success is 0 and every failure is
  negative), the collections of rewrite rules, and a few facts about lists.

  A member function of the code that faults on some input (a null pointer, an index past
  the end of a vector, a key that \<open>KeyedVector::editValueFor\<close> does not find and aborts
  on) or that never returns is a function into an \<open>option\<close> type here: \<open>None\<close> stands
  for the call that does not return.
\<close>

type_synonym MERROR = int
type_synonym UserId_T = int
type_synonym NodeId_T = int
type_synonym StreamId_T = int
type_synonym MUINT32 = "32 word"

abbreviation (input) OK :: int where "OK \<equiv> 0"
abbreviation (input) NAME_NOT_FOUND :: int where "NAME_NOT_FOUND \<equiv> - 2"
abbreviation (input) NO_MEMORY :: int where "NO_MEMORY \<equiv> - 12"
abbreviation (input) ALREADY_EXISTS :: int where "ALREADY_EXISTS \<equiv> - 17"
abbreviation (input) NO_INIT :: int where "NO_INIT \<equiv> - 19"
abbreviation (input) DEAD_OBJECT :: int where "DEAD_OBJECT \<equiv> - 32"
abbreviation (input) BAD_VALUE :: int where "BAD_VALUE \<equiv> - 22"
abbreviation (input) INVALID_OPERATION :: int where "INVALID_OPERATION \<equiv> - 38"
abbreviation (input) TIMED_OUT :: int where "TIMED_OUT \<equiv> - 110"
abbreviation (input) UNKNOWN_ERROR :: int where "UNKNOWN_ERROR \<equiv> - 2147483648"

text \<open>\<open>inv_intros\<close> collects the preservation lemmas of the invariants.\<close>

named_theorems inv_intros
named_theorems kv_simps

lemma option_bind_eq_Some [simp]:
  "(Option.bind m f = Some y) = (\<exists>x. m = Some x \<and> f x = Some y)"
  by (cases m) auto

lemma Some_eq_option_bind [simp]:
  "(Some y = Option.bind m f) = (\<exists>x. m = Some x \<and> f x = Some y)"
  by (cases m) auto

lemma map_fst_map_snd_update:
  "map fst (map (\<lambda>(k', v). (k', g k' v)) m) = map fst m"
  by (induction m) auto

lemma sorted_wrt_less_distinct: "sorted_wrt (<) (xs :: 'a :: linorder list) \<Longrightarrow> distinct xs"
  by (simp add: strict_sorted_iff)

text \<open>Paths and cycles of a finite relation.\<close>

lemma rtrancl_step_iff: "(i, c) \<in> E\<^sup>* \<longleftrightarrow> c = i \<or> (\<exists>b. (i, b) \<in> E \<and> (b, c) \<in> E\<^sup>*)"
  by (metis converse_rtrancl_into_rtrancl converse_rtranclE rtrancl.rtrancl_refl)

lemma on_cycle_step: "(c, c) \<in> E\<^sup>+ \<Longrightarrow> \<exists>b. (c, b) \<in> E \<and> (b, c) \<in> E\<^sup>* \<and> (b, b) \<in> E\<^sup>+"
proof -
  assume "(c, c) \<in> E\<^sup>+"
  then obtain b where b: "(c, b) \<in> E" "(b, c) \<in> E\<^sup>*" by (meson tranclD)
  then have "(b, b) \<in> E\<^sup>+" by (meson rtrancl_into_trancl1)
  with b show ?thesis by blast
qed

lemma no_cycle_wf:
  assumes "finite E" and nc: "\<And>x c. x \<in> S \<Longrightarrow> (x, c) \<in> E\<^sup>* \<Longrightarrow> (c, c) \<notin> E\<^sup>+"
  shows "wf ({(a, b) \<in> E. \<exists>x \<in> S. (x, a) \<in> E\<^sup>*}\<inverse>)"
proof (rule finite_acyclic_wf_converse)
  let ?R = "{(a, b) \<in> E. \<exists>x \<in> S. (x, a) \<in> E\<^sup>*}"
  have sub: "?R \<subseteq> E" by auto
  then show "finite ?R" using assms(1) by (rule finite_subset)
  show "acyclic ?R"
    unfolding acyclic_def
  proof (intro allI notI)
    fix a assume c: "(a, a) \<in> ?R\<^sup>+"
    then obtain b where "(a, b) \<in> ?R" by (meson tranclD)
    then obtain x where "x \<in> S" "(x, a) \<in> E\<^sup>*" by blast
    with nc trancl_mono [OF c sub] show False by blast
  qed
qed

end
