(* ===== verification/Containers.thy ===== *)
theory Containers
  imports Prelude
begin

text \<open>
  The containers of the Android base library (\<open>libutils\<close>, the platform's own container
  library) as far as the pipeline uses them.

  \<open>android::KeyedVector\<close> and \<open>DefaultKeyedVector\<close> keep their entries sorted by key with
  no key twice; \<open>add\<close> of a present key replaces the value; the index of a key is its
  position in that order. \<open>kvec\<close> is the association list in that order.
  \<open>android::SortedVector\<close> is the sorted list without duplicates; \<open>insort_insert\<close> and
  \<open>remove1\<close> of the HOL library are its \<open>add\<close> and \<open>remove\<close>.
  \<open>android::BitSet32\<close> numbers its bits from the most significant one:
  \<open>markBit n\<close> sets \<open>0x80000000 >> n\<close>, \<open>count\<close> is the number of set bits. A shift by 32 or
  more is undefined in C++: the bit of such a position is left open here, and the code that takes a
  position from a container checks nothing, so that its model faults there.

  The locale \<open>keyed_vector\<close> states the contract the pipeline relies on; the last part
  interprets it on \<open>kvec\<close>.
\<close>

section \<open>KeyedVector\<close>

type_synonym ('k, 'v) kvec = "('k \<times> 'v) list"

fun kv_add :: "'k::linorder \<Rightarrow> 'v \<Rightarrow> ('k, 'v) kvec \<Rightarrow> ('k, 'v) kvec" where
  "kv_add k v [] = [(k, v)]"
| "kv_add k v ((a, w) # m) =
     (if k < a then (k, v) # (a, w) # m
      else if k = a then (k, v) # m
      else (a, w) # kv_add k v m)"

definition kv_remove :: "'k \<Rightarrow> ('k, 'v) kvec \<Rightarrow> ('k, 'v) kvec" where
  "kv_remove k m = filter (\<lambda>p. fst p \<noteq> k) m"

definition kv_edit :: "'k \<Rightarrow> ('v \<Rightarrow> 'v) \<Rightarrow> ('k, 'v) kvec \<Rightarrow> ('k, 'v) kvec" where
  "kv_edit k f m = map (\<lambda>(k', v). (k', if k' = k then f v else v)) m"

fun kv_index :: "('k, 'v) kvec \<Rightarrow> 'k \<Rightarrow> nat option" where
  "kv_index [] k = None"
| "kv_index ((a, w) # m) k = (if a = k then Some 0 else map_option Suc (kv_index m k))"

definition kv_keys :: "('k, 'v) kvec \<Rightarrow> 'k list" where
  "kv_keys m = map fst m"

definition kv_wf :: "('k::linorder, 'v) kvec \<Rightarrow> bool" where
  "kv_wf m \<longleftrightarrow> sorted_wrt (<) (kv_keys m)"

lemma kv_keys_simps [simp]:
  "kv_keys [] = []" "kv_keys ((k, v) # m) = k # kv_keys m" "length (kv_keys m) = length m"
  by (simp_all add: kv_keys_def)

lemma kv_keys_Nil_iff [simp]: "kv_keys m = [] \<longleftrightarrow> m = []" "[] = kv_keys m \<longleftrightarrow> m = []"
  by (auto simp: kv_keys_def)

lemma kv_keys_nth: "i < length m \<Longrightarrow> kv_keys m ! i = fst (m ! i)"
  by (simp add: kv_keys_def)

lemma kv_wf_Nil [simp]: "kv_wf []"
  by (simp add: kv_wf_def)

lemma kv_wf_Cons: "kv_wf ((k, v) # m) \<longleftrightarrow> (\<forall>k' \<in> set (kv_keys m). k < k') \<and> kv_wf m"
  by (auto simp: kv_wf_def)

lemma kv_wf_distinct: "kv_wf m \<Longrightarrow> distinct (kv_keys m)"
  by (simp add: kv_wf_def sorted_wrt_less_distinct)

lemma kv_get_add [simp]: "map_of (kv_add k v m) = (map_of m)(k \<mapsto> v)"
  by (induction k v m rule: kv_add.induct) auto

lemma set_keys_kv_add [simp]: "set (kv_keys (kv_add k v m)) = insert k (set (kv_keys m))"
  by (induction k v m rule: kv_add.induct) auto

lemma kv_wf_add [inv_intros]: "kv_wf m \<Longrightarrow> kv_wf (kv_add k v m)"
proof (induction k v m rule: kv_add.induct)
  case (2 k v a w m)
  then show ?case
    using set_keys_kv_add [of k v m] by (auto simp: kv_wf_Cons simp del: set_keys_kv_add)
qed (simp add: kv_wf_Cons)

lemma kv_get_remove [simp]: "map_of (kv_remove k m) = (map_of m)(k := None)"
  by (induction m) (auto simp: kv_remove_def)

lemma keys_kv_remove [simp]: "kv_keys (kv_remove k m) = filter (\<lambda>a. a \<noteq> k) (kv_keys m)"
  by (induction m) (auto simp: kv_remove_def)

lemma kv_wf_remove [inv_intros]: "kv_wf m \<Longrightarrow> kv_wf (kv_remove k m)"
  by (simp add: kv_wf_def sorted_wrt_filter)

lemma kv_get_edit [simp]: "map_of (kv_edit k f m) = (map_of m)(k := map_option f (map_of m k))"
  by (induction m) (auto simp: kv_edit_def)

lemma keys_kv_edit [simp]: "kv_keys (kv_edit k f m) = kv_keys m"
  by (induction m) (auto simp: kv_edit_def)

lemma length_kv_edit [simp]: "length (kv_edit k f m) = length m"
  by (simp add: kv_edit_def)

lemma kv_wf_edit [inv_intros]: "kv_wf m \<Longrightarrow> kv_wf (kv_edit k f m)"
  by (simp add: kv_wf_def)

lemma kv_index_None [simp]: "kv_index m k = None \<longleftrightarrow> map_of m k = None"
  by (induction m k rule: kv_index.induct) auto

lemma kv_index_Some:
  "kv_index m k = Some i \<Longrightarrow> i < length m \<and> fst (m ! i) = k \<and> map_of m k = Some (snd (m ! i))"
  by (induction m k arbitrary: i rule: kv_index.induct) (auto split: if_splits)

lemma kv_index_nth:
  "distinct (kv_keys m) \<Longrightarrow> i < length m \<Longrightarrow> kv_index m (fst (m ! i)) = Some i"
proof (induction m arbitrary: i)
  case (Cons p m)
  obtain a w where p: "p = (a, w)" by (cases p)
  show ?case
  proof (cases i)
    case 0
    then show ?thesis by (simp add: p)
  next
    case (Suc j)
    then have "fst (m ! j) \<in> set (kv_keys m)"
      using Cons.prems(2) by (simp add: kv_keys_def)
    then have "a \<noteq> fst (m ! j)" using Cons.prems(1) p by auto
    then show ?thesis using Cons Suc p by simp
  qed
qed simp

lemma kv_index_inj:
  "kv_index m k = Some i \<Longrightarrow> kv_index m k' = Some i \<Longrightarrow> k = k'"
  by (metis kv_index_Some)

lemma kv_index_cong: "kv_keys m = kv_keys m' \<Longrightarrow> kv_index m k = kv_index m' k"
proof (induction m arbitrary: m')
  case (Cons p m)
  then obtain p' n where "m' = p' # n" by (cases p; cases m') auto
  with Cons.prems Cons.IH [of n] show ?case by (cases p; cases p') auto
qed simp

lemma kv_get_in_keys: "map_of m k = Some v \<Longrightarrow> k \<in> set (kv_keys m)"
  by (metis domI dom_map_of_conv_image_fst set_map kv_keys_def)

lemma kv_keys_get: "k \<in> set (kv_keys m) \<Longrightarrow> \<exists>v. map_of m k = Some v"
  by (metis map_of_eq_None_iff not_Some_eq set_map kv_keys_def)

lemma kv_get_None: "map_of m k = None \<longleftrightarrow> k \<notin> set (kv_keys m)"
  by (simp add: kv_keys_def map_of_eq_None_iff)

lemma kv_dom: "dom (map_of m) = set (kv_keys m)"
  by (simp add: dom_map_of_conv_image_fst kv_keys_def)

section \<open>SortedVector\<close>

abbreviation sv_wf :: "'a::linorder list \<Rightarrow> bool" where
  "sv_wf xs \<equiv> sorted_wrt (<) xs"

lemma sv_wf_add [inv_intros]: "sv_wf xs \<Longrightarrow> sv_wf (insort_insert x xs)"
  by (simp add: strict_sorted_iff sorted_insort_insert distinct_insort_insert)

lemma sv_wf_remove [inv_intros]: "sv_wf xs \<Longrightarrow> sv_wf (remove1 x xs)"
  by (simp add: strict_sorted_iff sorted_remove1)

lemma sv_set_add [simp]: "set (insort_insert x xs) = insert x (set xs)"
  by (simp add: set_insort_insert)

lemma sv_set_remove: "sv_wf xs \<Longrightarrow> set (remove1 x xs) = set xs - {x}"
  by (simp add: sorted_wrt_less_distinct)

section \<open>BitSet32\<close>

unbundle bit_operations_syntax

definition bs_bit :: "nat \<Rightarrow> MUINT32" where
  "bs_bit n = (if n < 32 then drop_bit n 0x80000000 else undefined)"

definition bs_markBit :: "nat \<Rightarrow> MUINT32 \<Rightarrow> MUINT32" where
  "bs_markBit n b = b OR bs_bit n"

definition bs_hasBit :: "nat \<Rightarrow> MUINT32 \<Rightarrow> bool" where
  "bs_hasBit n b \<longleftrightarrow> b AND bs_bit n \<noteq> 0"

definition bs_count :: "MUINT32 \<Rightarrow> nat" where
  "bs_count b = length (filter (\<lambda>n. bs_hasBit n b) [0..<32])"

lemma word32_eq_iff: "(a :: MUINT32) = b \<longleftrightarrow> (\<forall>n<32. bit a n = bit b n)"
  by (auto intro: bit_word_eqI)

lemma bit_msb32: "bit (0x80000000 :: MUINT32) j \<longleftrightarrow> j = 31"
proof -
  have "(0x80000000 :: MUINT32) = push_bit 31 1" by simp
  then have "bit (0x80000000 :: MUINT32) j = bit (push_bit 31 1 :: MUINT32) j" by (rule arg_cong)
  also have "\<dots> \<longleftrightarrow> j = 31" unfolding bit_push_bit_iff by (auto simp: bit_1_iff)
  finally show ?thesis .
qed

lemma bit_bs_bit: "n < 32 \<Longrightarrow> bit (bs_bit n) i \<longleftrightarrow> i = 31 - n"
  by (simp add: bs_bit_def) (unfold bit_drop_bit_eq comp_def bit_msb32, arith)

lemma bs_hasBit_bit: "n < 32 \<Longrightarrow> bs_hasBit n b \<longleftrightarrow> bit b (31 - n)"
proof -
  assume n: "n < 32"
  have "b AND bs_bit n = 0 \<longleftrightarrow> \<not> bit b (31 - n)"
    unfolding word32_eq_iff using n diff_less_Suc [of 31 n]
    by (auto simp: bit_and_iff bit_bs_bit)
  then show ?thesis by (simp add: bs_hasBit_def)
qed

lemma bs_hasBit_markBit [simp]:
  "n < 32 \<Longrightarrow> m < 32 \<Longrightarrow> bs_hasBit n (bs_markBit m b) \<longleftrightarrow> n = m \<or> bs_hasBit n b"
  by (auto simp: bs_hasBit_bit bs_markBit_def bit_or_iff bit_bs_bit)

lemma bs_hasBit_0 [simp]: "\<not> bs_hasBit n 0"
  by (simp add: bs_hasBit_def)

lemma bs_hasBit_or [simp]: "bs_hasBit n (a OR b) \<longleftrightarrow> bs_hasBit n a \<or> bs_hasBit n b"
proof -
  have "(a OR b) AND bs_bit n = 0 \<longleftrightarrow> a AND bs_bit n = 0 \<and> b AND bs_bit n = 0"
    by (auto simp: word32_eq_iff bit_and_iff bit_or_iff)
  then show ?thesis by (simp add: bs_hasBit_def)
qed

text \<open>
  A bit set that only marks indices of a container of \<open>n\<close> elements counts to \<open>n\<close>
  exactly when every index is marked.
\<close>

lemma bs_count_full:
  assumes "n \<le> 32" and "\<And>i. i < 32 \<Longrightarrow> bs_hasBit i b \<Longrightarrow> i < n"
  shows "bs_count b = n \<longleftrightarrow> (\<forall>i<n. bs_hasBit i b)"
proof -
  let ?S = "{i. i < 32 \<and> bs_hasBit i b}"
  have c: "bs_count b = card ?S"
    unfolding bs_count_def by (subst distinct_card [symmetric]) (auto intro: arg_cong [where f = card])
  have sub: "?S \<subseteq> {..<n}" using assms(2) by auto
  show ?thesis
  proof
    assume "bs_count b = n"
    with c sub have "?S = {..<n}" by (intro card_subset_eq) auto
    then show "\<forall>i<n. bs_hasBit i b" by blast
  next
    assume "\<forall>i<n. bs_hasBit i b"
    with assms(1) sub have "?S = {..<n}" by auto
    with c show "bs_count b = n" by simp
  qed
qed

section \<open>The contract of a keyed vector, and its interpretation\<close>

locale keyed_vector =
  fixes add :: "'k::linorder \<Rightarrow> 'v \<Rightarrow> 'm \<Rightarrow> 'm"
    and remove :: "'k \<Rightarrow> 'm \<Rightarrow> 'm"
    and edit :: "'k \<Rightarrow> ('v \<Rightarrow> 'v) \<Rightarrow> 'm \<Rightarrow> 'm"
    and valueFor :: "'m \<Rightarrow> 'k \<Rightarrow> 'v option"
    and inv :: "'m \<Rightarrow> bool"
  assumes get_add: "valueFor (add k v m) = (valueFor m)(k \<mapsto> v)"
    and get_remove: "valueFor (remove k m) = (valueFor m)(k := None)"
    and get_edit: "valueFor (edit k f m) = (valueFor m)(k := map_option f (valueFor m k))"
    and inv_add: "inv m \<Longrightarrow> inv (add k v m)"
    and inv_remove: "inv m \<Longrightarrow> inv (remove k m)"
    and inv_edit: "inv m \<Longrightarrow> inv (edit k f m)"
begin

lemma edit_list_get:
  "valueFor (fold (\<lambda>k. edit k f) ks m) k' =
     (if k' \<in> set ks then map_option (f ^^ count_list ks k') (valueFor m k') else valueFor m k')"
proof (induction ks arbitrary: m)
  case (Cons k ks)
  have "(f ^^ n) \<circ> f = f ^^ Suc n" for n
    by (simp add: funpow_swap1 fun_eq_iff)
  with Cons show ?case
    by (auto simp: get_edit option.map_comp count_notin)
qed simp

lemma inv_edit_list: "inv m \<Longrightarrow> inv (fold (\<lambda>k. edit k f) ks m)"
  by (induction ks arbitrary: m) (auto intro: inv_edit)

end

interpretation kv: keyed_vector kv_add kv_remove kv_edit map_of kv_wf
  by unfold_locales (auto intro: inv_intros)

end
