(* ===== verification/Adjacency.thy ===== *)
theory Adjacency
  imports Containers
begin

text \<open>
  Two classes of the pipeline keep a directed graph in the same way: a keyed vector of
  nodes, each with the sorted vector of the ids it has edges from and the sorted vector of
  the ids it has edges to (\<open>PipelineDAGImp::NodeWithAdj_T\<close>, \<open>UsersManager::MyUserGraph::
  UserNode\<close>). Every edge is recorded twice, and both classes edit both records by the same
  three patterns (add an edge, remove an edge, remove a node).

  The locale \<open>adj_node\<close> is that interface: the two adjacency fields of a node and their
  update functions. Its lemmas say, once for both classes, how the patterns change the
  edge relation and that they keep the representation consistent (\<open>adj_wf\<close>).
\<close>

definition edge_rel :: "('n \<Rightarrow> int list) \<Rightarrow> (int, 'n) kvec \<Rightarrow> (int \<times> int) set" where
  "edge_rel adj m = {(a, b). \<exists>n. map_of m a = Some n \<and> b \<in> set (adj n)}"

definition adj_wf :: "('n \<Rightarrow> int list) \<Rightarrow> ('n \<Rightarrow> int list) \<Rightarrow> (int, 'n) kvec \<Rightarrow> bool" where
  "adj_wf inA outA m \<longleftrightarrow>
     kv_wf m \<and>
     edge_rel inA m = (edge_rel outA m)\<inverse> \<and>
     (\<forall>k n. map_of m k = Some n \<longrightarrow> sv_wf (inA n) \<and> sv_wf (outA n))"

text \<open>
  \<open>editValueFor\<close> in a loop over ids; it aborts on an id that is not a key.
\<close>

fun kv_edit_all :: "('n \<Rightarrow> 'n) \<Rightarrow> int list \<Rightarrow> (int, 'n) kvec \<Rightarrow> (int, 'n) kvec option" where
  "kv_edit_all f [] m = Some m"
| "kv_edit_all f (k # ks) m =
     (if k \<in> set (kv_keys m) then kv_edit_all f ks (kv_edit k f m) else None)"

lemma kv_edit_all_Some:
  "set ks \<subseteq> set (kv_keys m) \<Longrightarrow> kv_edit_all f ks m = Some (fold (\<lambda>k. kv_edit k f) ks m)"
  by (induction ks arbitrary: m) auto

lemma kv_keys_fold_edit [simp]: "kv_keys (fold (\<lambda>k. kv_edit k f) ks m) = kv_keys m"
  by (induction ks arbitrary: m) auto

lemma edge_relI: "map_of m a = Some n \<Longrightarrow> b \<in> set (adj n) \<Longrightarrow> (a, b) \<in> edge_rel adj m"
  by (auto simp: edge_rel_def)

lemma edge_rel_iff: "map_of m a = Some n \<Longrightarrow> (a, b) \<in> edge_rel adj m \<longleftrightarrow> b \<in> set (adj n)"
  by (simp add: edge_rel_def)

lemma edge_rel_src: "(a, b) \<in> edge_rel adj m \<Longrightarrow> a \<in> set (kv_keys m)"
  unfolding edge_rel_def using kv_get_in_keys by fastforce

lemma adj_wf_kv [dest]: "adj_wf inA outA m \<Longrightarrow> kv_wf m"
  by (simp add: adj_wf_def)

lemma adj_wf_edge_keys:
  assumes "adj_wf inA outA m" and "(a, b) \<in> edge_rel outA m"
  shows "a \<in> set (kv_keys m)" and "b \<in> set (kv_keys m)"
proof -
  show "a \<in> set (kv_keys m)" using assms(2) by (rule edge_rel_src)
  have "(b, a) \<in> edge_rel inA m" using assms by (auto simp: adj_wf_def)
  then show "b \<in> set (kv_keys m)" by (rule edge_rel_src)
qed

lemma adj_wf_out_keys:
  "adj_wf inA outA m \<Longrightarrow> map_of m a = Some n \<Longrightarrow> set (outA n) \<subseteq> set (kv_keys m)"
  using adj_wf_edge_keys(2) edge_relI by (metis subsetI)

lemma adj_wf_in_keys:
  assumes "adj_wf inA outA m" and "map_of m a = Some n"
  shows "set (inA n) \<subseteq> set (kv_keys m)"
proof
  fix b assume "b \<in> set (inA n)"
  with assms(2) have "(a, b) \<in> edge_rel inA m" by (rule edge_relI)
  with assms(1) have "(b, a) \<in> edge_rel outA m" by (simp add: adj_wf_def)
  then show "b \<in> set (kv_keys m)" by (rule edge_rel_src)
qed

lemma adj_wf_finite: "adj_wf inA outA m \<Longrightarrow> finite (edge_rel outA m)"
proof (rule finite_subset)
  assume "adj_wf inA outA m"
  then show "edge_rel outA m \<subseteq> set (kv_keys m) \<times> set (kv_keys m)"
    using adj_wf_edge_keys by fastforce
qed simp

lemma edge_rel_add_isolated:
  "k \<notin> set (kv_keys m) \<Longrightarrow> adj n = [] \<Longrightarrow> edge_rel adj (kv_add k n m) = edge_rel adj m"
  by (auto simp: edge_rel_def dest: kv_get_in_keys split: if_splits)

lemma adj_wf_add_isolated:
  assumes "adj_wf inA outA m" "k \<notin> set (kv_keys m)" "inA n = []" "outA n = []"
  shows "adj_wf inA outA (kv_add k n m)"
  using assms edge_rel_add_isolated [of k m inA n] edge_rel_add_isolated [of k m outA n]
  by (auto simp: adj_wf_def kv_wf_add)

lemma adj_wf_Nil [simp]: "adj_wf inA outA []"
  by (auto simp: adj_wf_def edge_rel_def)

locale adj_node =
  fixes inA outA :: "'n \<Rightarrow> int list"
    and updIn updOut :: "(int list \<Rightarrow> int list) \<Rightarrow> 'n \<Rightarrow> 'n"
  assumes in_updIn [simp]: "inA (updIn f n) = f (inA n)"
    and out_updIn [simp]: "outA (updIn f n) = outA n"
    and in_updOut [simp]: "inA (updOut f n) = inA n"
    and out_updOut [simp]: "outA (updOut f n) = f (outA n)"
begin

text \<open>Adding an edge: the target id enters the source's out-set, and the reverse.\<close>

lemma edge_rel_add_edge:
  assumes "s \<in> set (kv_keys m)" and "d \<in> set (kv_keys m)"
  shows "edge_rel outA (kv_edit d (updIn (insort_insert s)) (kv_edit s (updOut (insort_insert d)) m))
           = insert (s, d) (edge_rel outA m)"
    and "edge_rel inA (kv_edit d (updIn (insort_insert s)) (kv_edit s (updOut (insort_insert d)) m))
           = insert (d, s) (edge_rel inA m)"
proof -
  obtain ns nd where ns: "map_of m s = Some ns" and nd: "map_of m d = Some nd"
    using assms kv_keys_get by metis
  then show "edge_rel outA (kv_edit d (updIn (insort_insert s)) (kv_edit s (updOut (insort_insert d)) m))
           = insert (s, d) (edge_rel outA m)"
    and "edge_rel inA (kv_edit d (updIn (insort_insert s)) (kv_edit s (updOut (insort_insert d)) m))
           = insert (d, s) (edge_rel inA m)"
    by (auto simp: edge_rel_def split: if_splits)
qed

lemma adj_wf_add_edge:
  assumes "adj_wf inA outA m" and "s \<in> set (kv_keys m)" and "d \<in> set (kv_keys m)"
  shows "adj_wf inA outA (kv_edit d (updIn (insort_insert s)) (kv_edit s (updOut (insort_insert d)) m))"
    (is "adj_wf _ _ ?m")
  unfolding adj_wf_def
proof (intro conjI allI impI)
  show "kv_wf ?m" using assms(1) by (auto intro: kv_wf_edit)
  show "edge_rel inA ?m = (edge_rel outA ?m)\<inverse>"
    using assms edge_rel_add_edge [OF assms(2,3)] by (auto simp: adj_wf_def)
next
  fix k n assume "map_of ?m k = Some n"
  then show "sv_wf (inA n)" "sv_wf (outA n)"
    using assms(1) unfolding adj_wf_def by (auto intro!: sv_wf_add split: if_splits)
qed

text \<open>Removing an edge.\<close>

lemma edge_rel_remove_edge:
  assumes "adj_wf inA outA m"
  shows "edge_rel outA (kv_edit d (updIn (remove1 s)) (kv_edit s (updOut (remove1 d)) m))
           = edge_rel outA m - {(s, d)}"
    and "edge_rel inA (kv_edit d (updIn (remove1 s)) (kv_edit s (updOut (remove1 d)) m))
           = edge_rel inA m - {(d, s)}"
proof -
  have "sv_wf (inA n)" "sv_wf (outA n)" if "map_of m k = Some n" for k n
    using assms that by (auto simp: adj_wf_def)
  then show "edge_rel outA (kv_edit d (updIn (remove1 s)) (kv_edit s (updOut (remove1 d)) m))
           = edge_rel outA m - {(s, d)}"
    and "edge_rel inA (kv_edit d (updIn (remove1 s)) (kv_edit s (updOut (remove1 d)) m))
           = edge_rel inA m - {(d, s)}"
    unfolding edge_rel_def by (auto simp: sv_set_remove split: if_splits)
qed

lemma adj_wf_remove_edge:
  assumes "adj_wf inA outA m"
  shows "adj_wf inA outA (kv_edit d (updIn (remove1 s)) (kv_edit s (updOut (remove1 d)) m))"
    (is "adj_wf _ _ ?m")
  unfolding adj_wf_def
proof (intro conjI allI impI)
  show "kv_wf ?m" using assms by (auto intro: kv_wf_edit)
  show "edge_rel inA ?m = (edge_rel outA ?m)\<inverse>"
    using assms edge_rel_remove_edge [OF assms, of d s] by (auto simp: adj_wf_def)
next
  fix k n assume "map_of ?m k = Some n"
  then show "sv_wf (inA n)" "sv_wf (outA n)"
    using assms unfolding adj_wf_def by (auto intro!: sv_wf_remove split: if_splits)
qed

text \<open>The two loops of removing a node.\<close>

lemma edge_rel_fold_remove_out:
  assumes "\<And>k n. map_of m k = Some n \<Longrightarrow> sv_wf (outA n)"
  shows "edge_rel outA (fold (\<lambda>i. kv_edit i (updOut (remove1 x))) ks m)
           = edge_rel outA m - (set ks \<times> {x})"
    and "edge_rel inA (fold (\<lambda>i. kv_edit i (updOut (remove1 x))) ks m) = edge_rel inA m"
    and "map_of (fold (\<lambda>i. kv_edit i (updOut (remove1 x))) ks m) k' = Some n' \<Longrightarrow> sv_wf (outA n')"
proof -
  have "edge_rel outA (fold (\<lambda>i. kv_edit i (updOut (remove1 x))) ks m)
           = edge_rel outA m - (set ks \<times> {x})
      \<and> edge_rel inA (fold (\<lambda>i. kv_edit i (updOut (remove1 x))) ks m) = edge_rel inA m
      \<and> (\<forall>k' n'. map_of (fold (\<lambda>i. kv_edit i (updOut (remove1 x))) ks m) k' = Some n' \<longrightarrow> sv_wf (outA n'))"
    using assms
  proof (induction ks arbitrary: m)
    case (Cons y ks)
    let ?m = "kv_edit y (updOut (remove1 x)) m"
    have wf: "sv_wf (outA n)" if "map_of ?m k = Some n" for k n
      using that by (auto intro!: sv_wf_remove intro: Cons.prems split: if_splits)
    have "edge_rel outA ?m = edge_rel outA m - {(y, x)}"
      using Cons.prems by (auto simp: edge_rel_def sv_set_remove split: if_splits)
    moreover have "edge_rel inA ?m = edge_rel inA m"
      by (auto simp: edge_rel_def split: if_splits)
    ultimately show ?case using Cons.IH [of ?m] wf by auto
  qed auto
  then show "edge_rel outA (fold (\<lambda>i. kv_edit i (updOut (remove1 x))) ks m)
           = edge_rel outA m - (set ks \<times> {x})"
    and "edge_rel inA (fold (\<lambda>i. kv_edit i (updOut (remove1 x))) ks m) = edge_rel inA m"
    and "map_of (fold (\<lambda>i. kv_edit i (updOut (remove1 x))) ks m) k' = Some n' \<Longrightarrow> sv_wf (outA n')"
    by auto
qed

end

text \<open>The same interface with the two directions exchanged.\<close>

sublocale adj_node \<subseteq> rev: adj_node outA inA updOut updIn
  by unfold_locales simp_all

context adj_node
begin

lemma remove_node_edges:
  assumes wf: "adj_wf inA outA m" and n: "map_of m x = Some n"
  defines "m1 \<equiv> fold (\<lambda>i. kv_edit i (updOut (remove1 x))) (inA n) m"
  assumes n1: "map_of m1 x = Some n1"
  defines "m2 \<equiv> fold (\<lambda>i. kv_edit i (updIn (remove1 x))) (outA n1) m1"
  shows "adj_wf inA outA (kv_remove x m2)"
    and "edge_rel outA (kv_remove x m2) = {(a, b) \<in> edge_rel outA m. a \<noteq> x \<and> b \<noteq> x}"
proof -
  have sorted: "sv_wf (inA n')" "sv_wf (outA n')" if "map_of m k = Some n'" for k n'
    using wf that by (auto simp: adj_wf_def)
  have mir: "edge_rel inA m = (edge_rel outA m)\<inverse>" using wf by (simp add: adj_wf_def)
  have in_n: "set (inA n) = {a. (a, x) \<in> edge_rel outA m}"
    using edge_rel_iff [OF n, of _ inA] mir by blast
  have o1: "edge_rel outA m1 = edge_rel outA m - (set (inA n) \<times> {x})"
    and i1: "edge_rel inA m1 = edge_rel inA m"
    unfolding m1_def using edge_rel_fold_remove_out [where m = m and x = x and ks = "inA n"] sorted by auto
  have so1: "sv_wf (outA n')" if "map_of m1 k = Some n'" for k n'
    using edge_rel_fold_remove_out(3) sorted(2) that unfolding m1_def by blast
  have si1: "sv_wf (inA n')" if "map_of m1 k = Some n'" for k n'
  proof -
    have "\<exists>n0. map_of m0 k = Some n0 \<and> inA n' = inA n0"
      if "map_of (fold (\<lambda>i. kv_edit i (updOut (remove1 x))) ks m0) k = Some n'" for ks m0
      using that by (induction ks arbitrary: m0) (fastforce split: if_splits)+
    with that sorted(1) show ?thesis unfolding m1_def by metis
  qed
  have out_n1: "set (outA n1) = {b. (x, b) \<in> edge_rel outA m1}"
    using edge_rel_iff [OF n1, of _ outA] by blast
  have i2: "edge_rel inA m2 = edge_rel inA m1 - (set (outA n1) \<times> {x})"
    and o2: "edge_rel outA m2 = edge_rel outA m1"
    unfolding m2_def using rev.edge_rel_fold_remove_out [where m = m1 and x = x and ks = "outA n1"] si1 by auto
  have si2: "sv_wf (inA n')" if "map_of m2 k = Some n'" for k n'
    using rev.edge_rel_fold_remove_out(3) si1 that unfolding m2_def by blast
  have so2: "sv_wf (outA n')" if "map_of m2 k = Some n'" for k n'
  proof -
    have "\<exists>n0. map_of m0 k = Some n0 \<and> outA n' = outA n0"
      if "map_of (fold (\<lambda>i. kv_edit i (updIn (remove1 x))) ks m0) k = Some n'" for ks m0
      using that by (induction ks arbitrary: m0) (fastforce split: if_splits)+
    with that so1 show ?thesis unfolding m2_def by metis
  qed
  have kr: "edge_rel adj (kv_remove x m') = {(a, b) \<in> edge_rel adj m'. a \<noteq> x}" for adj and m' :: "(int, 'n) kvec"
    by (auto simp: edge_rel_def split: if_splits)
  show out: "edge_rel outA (kv_remove x m2) = {(a, b) \<in> edge_rel outA m. a \<noteq> x \<and> b \<noteq> x}"
    unfolding kr o2 o1 in_n by auto
  have inn: "edge_rel inA (kv_remove x m2) = (edge_rel outA (kv_remove x m2))\<inverse>"
    unfolding out unfolding kr i2 i1 out_n1 o1 in_n mir by auto
  have wf1: "kv_wf m1" unfolding m1_def using kv.inv_edit_list wf by blast
  have wf2: "kv_wf m2" unfolding m2_def by (rule kv.inv_edit_list [OF wf1])
  show "adj_wf inA outA (kv_remove x m2)"
    unfolding adj_wf_def using inn wf2 si2 so2 by (auto simp: kv_wf_remove split: if_splits)
qed

end

end
