(* ===== verification/PipelineDAG.thy ===== *)
theory PipelineDAG
  imports Adjacency
begin

text \<open>
  The pipeline's directed acyclic graph, \<open>mtkcam/pipeline/pipeline/PipelineDAGImp.cpp\<close>:
  which node of the camera pipeline feeds which. The record \<open>PipelineDAG\<close> has the
  members of \<open>PipelineDAGImp\<close>; every operation takes the graph and returns it with the
  result. The part on \<open>evaluateToposort\<close> proves the sort correct: it succeeds on
  exactly the acyclic graphs and returns every node once, sources first.
\<close>

section \<open>Data\<close>

record NodeObj =
  obj_id :: int
  obj_val :: int

record NodeWithAdj =
  mNode :: NodeObj
  mInAdj :: "int list"
  mOutAdj :: "int list"

type_synonym nodes = "(int, NodeWithAdj) kvec"

record PipelineDAG =
  mRootId :: int
  mNodesVec :: nodes
  mToposort :: "NodeObj list"

abbreviation (input) BAD_ID :: int where "BAD_ID \<equiv> - 1"

definition NodeObj_T :: NodeObj where
  "NodeObj_T = \<lparr>obj_id = - 1, obj_val = - 1\<rparr>"

abbreviation dag_edges :: "PipelineDAG \<Rightarrow> (int \<times> int) set" where
  "dag_edges d \<equiv> edge_rel mOutAdj (mNodesVec d)"

abbreviation dag_ids :: "PipelineDAG \<Rightarrow> int list" where
  "dag_ids d \<equiv> kv_keys (mNodesVec d)"

section \<open>Operations\<close>

definition dag_create :: PipelineDAG where
  "dag_create = \<lparr>mRootId = BAD_ID, mNodesVec = [], mToposort = []\<rparr>"

definition clone :: "PipelineDAG \<Rightarrow> PipelineDAG" where
  "clone d = dag_create\<lparr>mRootId := mRootId d, mNodesVec := mNodesVec d\<rparr>"

text \<open>\<open>addNode\<close> replaces the entry of a present id (\<open>KeyedVector::add\<close>).\<close>

definition addNode :: "PipelineDAG \<Rightarrow> int \<Rightarrow> int \<Rightarrow> MERROR \<times> PipelineDAG" where
  "addNode d i val =
     (let tmpNode = \<lparr>obj_id = i, obj_val = val\<rparr>
      in (OK, d\<lparr>mNodesVec := kv_add i \<lparr>mNode = tmpNode, mInAdj = [], mOutAdj = []\<rparr> (mNodesVec d)\<rparr>))"

definition removeNode :: "PipelineDAG \<Rightarrow> int \<Rightarrow> (MERROR \<times> PipelineDAG) option" where
  "removeNode d i =
     (case map_of (mNodesVec d) i of
        None \<Rightarrow> Some (NAME_NOT_FOUND, d)
      | Some n \<Rightarrow> do {
          m1 \<leftarrow> kv_edit_all (mOutAdj_update (remove1 i)) (mInAdj n) (mNodesVec d);
          n1 \<leftarrow> map_of m1 i;
          m2 \<leftarrow> kv_edit_all (mInAdj_update (remove1 i)) (mOutAdj n1) m1;
          Some (OK, d\<lparr>mRootId := (if i = mRootId d then BAD_ID else mRootId d),
                      mNodesVec := kv_remove i m2\<rparr>)
        })"

definition addEdge :: "PipelineDAG \<Rightarrow> int \<Rightarrow> int \<Rightarrow> MERROR \<times> PipelineDAG" where
  "addEdge d id_src id_dst =
     (case (map_of (mNodesVec d) id_src, map_of (mNodesVec d) id_dst) of
        (Some src, Some dst) \<Rightarrow>
          if id_dst \<notin> set (mOutAdj src) \<or> id_src \<notin> set (mInAdj dst)
          then (OK, d\<lparr>mNodesVec :=
                  kv_edit id_dst (mInAdj_update (insort_insert id_src))
                    (kv_edit id_src (mOutAdj_update (insort_insert id_dst)) (mNodesVec d))\<rparr>)
          else (OK, d)
      | _ \<Rightarrow> (NAME_NOT_FOUND, d))"

definition removeEdge :: "PipelineDAG \<Rightarrow> int \<Rightarrow> int \<Rightarrow> MERROR \<times> PipelineDAG" where
  "removeEdge d id_src id_dst =
     (case (map_of (mNodesVec d) id_src, map_of (mNodesVec d) id_dst) of
        (Some src, Some dst) \<Rightarrow>
          if id_dst \<notin> set (mOutAdj src) \<or> id_src \<notin> set (mInAdj dst)
          then (NAME_NOT_FOUND, d)
          else (OK, d\<lparr>mNodesVec :=
                  kv_edit id_dst (mInAdj_update (remove1 id_src))
                    (kv_edit id_src (mOutAdj_update (remove1 id_dst)) (mNodesVec d))\<rparr>)
      | _ \<Rightarrow> (NAME_NOT_FOUND, d))"

definition setRootNode :: "PipelineDAG \<Rightarrow> int \<Rightarrow> MERROR \<times> PipelineDAG" where
  "setRootNode d i =
     (if i \<in> set (dag_ids d) then (OK, d\<lparr>mRootId := i\<rparr>) else (NAME_NOT_FOUND, d))"

definition setNodeValue :: "PipelineDAG \<Rightarrow> int \<Rightarrow> int \<Rightarrow> MERROR \<times> PipelineDAG" where
  "setNodeValue d i val =
     (if i \<in> set (dag_ids d)
      then (OK, d\<lparr>mNodesVec := kv_edit i (mNode_update (obj_val_update (\<lambda>_. val))) (mNodesVec d)\<rparr>)
      else (NAME_NOT_FOUND, d))"

fun removeNodes :: "int list \<Rightarrow> PipelineDAG \<Rightarrow> PipelineDAG option" where
  "removeNodes [] d = Some d"
| "removeNodes (i # is) d = do { (e, d') \<leftarrow> removeNode d i; removeNodes is d' }"

text \<open>
  \<open>clone(ids)\<close>: the outer \<open>option\<close> is the fault of the model's convention, the inner
  one the \<open>NULL\<close> the code returns. The capacity it first asks for is the number of the nodes less
  that of the ids, which wraps around when there are more ids than nodes: a vector of that size
  cannot be had, and what the code does from there on is left open, a fault.
\<close>

definition clone_ids :: "PipelineDAG \<Rightarrow> int list \<Rightarrow> PipelineDAG option option" where
  "clone_ids d ids =
     (let vDirty = filter (\<lambda>i. i \<notin> set ids) (dag_ids d)
      in if length (mNodesVec d) < length ids then None
         else if mRootId d \<in> set vDirty then Some None
         else if length (mNodesVec d) \<noteq> length vDirty + length ids then Some None
         else do { ndag \<leftarrow> removeNodes vDirty (clone d); Some (Some ndag) })"

section \<open>Attributes\<close>

definition getRootNode :: "PipelineDAG \<Rightarrow> NodeObj" where
  "getRootNode d =
     (if mRootId d = BAD_ID then NodeObj_T
      else (case map_of (mNodesVec d) (mRootId d) of None \<Rightarrow> NodeObj_T | Some n \<Rightarrow> mNode n))"

definition getEdges :: "PipelineDAG \<Rightarrow> (int \<times> int) list" where
  "getEdges d =
     concat (map (\<lambda>(k, n). map (\<lambda>b. (obj_id (mNode n), b)) (mOutAdj n)) (mNodesVec d))"

definition getNode :: "PipelineDAG \<Rightarrow> int \<Rightarrow> NodeObj" where
  "getNode d i = (case map_of (mNodesVec d) i of None \<Rightarrow> NodeObj_T | Some n \<Rightarrow> mNode n)"

definition getNumOfNodes :: "PipelineDAG \<Rightarrow> nat" where
  "getNumOfNodes d = length (mNodesVec d)"

fun nodes_for :: "nodes \<Rightarrow> int list \<Rightarrow> NodeObj list option" where
  "nodes_for m [] = Some []"
| "nodes_for m (i # is) = do { n \<leftarrow> map_of m i; ns \<leftarrow> nodes_for m is; Some (mNode n # ns) }"

definition getInAdjacentNodes :: "PipelineDAG \<Rightarrow> int \<Rightarrow> (MERROR \<times> NodeObj list) option" where
  "getInAdjacentNodes d i =
     (case map_of (mNodesVec d) i of
        None \<Rightarrow> Some (NAME_NOT_FOUND, [])
      | Some tmp \<Rightarrow> do { result \<leftarrow> nodes_for (mNodesVec d) (mInAdj tmp); Some (OK, result) })"

definition getOutAdjacentNodes :: "PipelineDAG \<Rightarrow> int \<Rightarrow> (MERROR \<times> NodeObj list) option" where
  "getOutAdjacentNodes d i =
     (case map_of (mNodesVec d) i of
        None \<Rightarrow> Some (NAME_NOT_FOUND, [])
      | Some tmp \<Rightarrow> do { result \<leftarrow> nodes_for (mNodesVec d) (mOutAdj tmp); Some (OK, result) })"

section \<open>Topological sort\<close>

datatype visit_mark = NOT_VISIT | VISITED | SORTED

type_synonym visit = "(int, visit_mark) kvec"

text \<open>
  \<open>topo_run\<close> is the local \<open>DFS::run\<close> of \<open>evaluateToposort\<close> and \<open>topo_adj\<close> its loop over
  the out-adjacent ids; both thread the marks and the list that grows at its front.
\<close>

definition unvisited :: "visit \<Rightarrow> nat" where
  "unvisited v = length (filter (\<lambda>p. snd p = NOT_VISIT) v)"

function topo_run :: "nodes \<Rightarrow> int \<Rightarrow> visit \<Rightarrow> NodeObj list \<Rightarrow> (MERROR \<times> visit \<times> NodeObj list) option"
  and topo_adj :: "nodes \<Rightarrow> int list \<Rightarrow> visit \<Rightarrow> NodeObj list \<Rightarrow> (MERROR \<times> visit \<times> NodeObj list) option"
  where
  "topo_run dag i v rToposort =
     (case map_of v i of
        None \<Rightarrow> Some (NO_INIT, v, rToposort)
      | Some SORTED \<Rightarrow> Some (OK, v, rToposort)
      | Some VISITED \<Rightarrow> Some (UNKNOWN_ERROR, v, rToposort)
      | Some NOT_VISIT \<Rightarrow>
          (case map_of dag i of
             None \<Rightarrow> None
           | Some n \<Rightarrow>
               (case topo_adj dag (mOutAdj n) (kv_edit i (\<lambda>_. VISITED) v) rToposort of
                  None \<Rightarrow> None
                | Some (e, v', ts) \<Rightarrow>
                    if e = OK then Some (OK, kv_edit i (\<lambda>_. SORTED) v', mNode n # ts)
                    else Some (UNKNOWN_ERROR, v', ts))))"
| "topo_adj dag [] v rToposort = Some (OK, v, rToposort)"
| "topo_adj dag (x # xs) v rToposort =
     (case topo_run dag x v rToposort of
        None \<Rightarrow> None
      | Some (e, v', ts) \<Rightarrow>
          if e = OK then topo_adj dag xs v' ts else Some (UNKNOWN_ERROR, v', ts))"
  by pat_completeness auto

lemma unvisited_Cons [simp]:
  "unvisited [] = 0"
  "unvisited ((k, c) # v) = (if c = NOT_VISIT then Suc (unvisited v) else unvisited v)"
  by (simp_all add: unvisited_def)

lemma kv_edit_Cons: "kv_edit i f ((k, w) # m) = (k, if k = i then f w else w) # kv_edit i f m"
  by (simp add: kv_edit_def)

lemma unvisited_edit_le: "c \<noteq> NOT_VISIT \<Longrightarrow> unvisited (kv_edit i (\<lambda>_. c) v) \<le> unvisited v"
proof (induction v)
  case (Cons p v)
  then show ?case by (cases p) (auto simp: kv_edit_Cons)
qed (simp add: kv_edit_def)

lemma unvisited_edit_less:
  "map_of v i = Some NOT_VISIT \<Longrightarrow> c \<noteq> NOT_VISIT \<Longrightarrow>
   unvisited (kv_edit i (\<lambda>_. c) v) < unvisited v"
proof (induction v)
  case (Cons p v)
  then show ?case
    using unvisited_edit_le [of c i v] by (cases p) (auto simp: kv_edit_Cons split: if_splits)
qed simp

lemma topo_unvisited:
  "topo_run_topo_adj_dom (Inl (dag, i, v, ts)) \<Longrightarrow>
   topo_run dag i v ts = Some (e, v', ts') \<Longrightarrow> unvisited v' \<le> unvisited v"
  "topo_run_topo_adj_dom (Inr (dag, xs, v, ts)) \<Longrightarrow>
   topo_adj dag xs v ts = Some (e, v', ts') \<Longrightarrow> unvisited v' \<le> unvisited v"
proof (induction arbitrary: e v' ts' and e v' ts' rule: topo_run_topo_adj.pinduct)
  case (1 dag i v ts)
  show ?case
  proof (cases "map_of v i = Some NOT_VISIT")
    case True
    then obtain n e1 v1 t1 where n: "map_of dag i = Some n"
      and a: "topo_adj dag (mOutAdj n) (kv_edit i (\<lambda>_. VISITED) v) ts = Some (e1, v1, t1)"
      and v': "v' = v1 \<or> v' = kv_edit i (\<lambda>_. SORTED) v1"
      using "1.prems" "1.hyps" by (auto simp: topo_run.psimps split: option.splits if_splits)
    have "unvisited v1 \<le> unvisited (kv_edit i (\<lambda>_. VISITED) v)"
      using "1.IH" [OF True _ n] a by simp
    also have "\<dots> \<le> unvisited v" by (simp add: unvisited_edit_le)
    finally show ?thesis using v' unvisited_edit_le [of SORTED i v1] by auto
  next
    case False
    then show ?thesis
      using "1.prems" "1.hyps" by (auto simp: topo_run.psimps split: option.splits visit_mark.splits)
  qed
next
  case (3 dag x xs v ts)
  then show ?case
    by (auto simp: topo_adj.psimps split: option.splits if_splits) (meson order_trans)+
qed (simp add: topo_adj.psimps)

termination topo_run
proof (relation "measures [case_sum (\<lambda>(dag, i, v, ts). unvisited v) (\<lambda>(dag, xs, v, ts). unvisited v),
                           case_sum (\<lambda>_. 0) (\<lambda>(dag, xs, v, ts). Suc (length xs))]", goal_cases)
  case (4 dag x xs v ts p e q v' ts')
  then show ?case using topo_unvisited(1) [of dag x v ts e v' ts'] by auto
qed (auto intro: unvisited_edit_less)

declare topo_run.simps [simp del]

fun topo_outer :: "nodes \<Rightarrow> int list \<Rightarrow> visit \<Rightarrow> NodeObj list \<Rightarrow> (MERROR \<times> NodeObj list) option" where
  "topo_outer dag [] v rToposort = Some (OK, rToposort)"
| "topo_outer dag (i # is) v rToposort =
     (if map_of v i = Some NOT_VISIT then
        (case topo_run dag i v rToposort of
           None \<Rightarrow> None
         | Some (e, v', ts) \<Rightarrow>
             if e = OK then topo_outer dag is v' ts else Some (UNKNOWN_ERROR, []))
      else topo_outer dag is v rToposort)"

definition evaluateToposort :: "nodes \<Rightarrow> (MERROR \<times> NodeObj list) option" where
  "evaluateToposort dag =
     topo_outer dag (kv_keys dag) (map (\<lambda>(k, _). (k, NOT_VISIT)) dag) []"

definition getToposort :: "PipelineDAG \<Rightarrow> (NodeObj list \<times> PipelineDAG) option" where
  "getToposort d =
     (if mToposort d = [] then
        do { (e, ts) \<leftarrow> evaluateToposort (mNodesVec d); Some (ts, d\<lparr>mToposort := ts\<rparr>) }
      else Some (mToposort d, d))"

definition getTopological :: "PipelineDAG \<Rightarrow> (MERROR \<times> NodeObj list) option" where
  "getTopological d =
     do { (e, ts) \<leftarrow> evaluateToposort (mNodesVec d); Some (if e = OK then OK else - 1, ts) }"

section \<open>Nodes not reachable from the root\<close>

text \<open>
  \<open>checkListDFS\<close> sets the flag of a node and calls itself for every out-adjacent id; it has
  no check for a node it has been at before. \<open>checkListDFS m ids cl\<close> is the loop over the
  ids, one call per element; \<open>None\<close> is the recursion that does not end.
\<close>

partial_function (option) checkListDFS ::
    "nodes \<Rightarrow> int list \<Rightarrow> bool list \<Rightarrow> (MERROR \<times> bool list) option" where
  "checkListDFS m ids checkList =
     (case ids of
        [] \<Rightarrow> Some (OK, checkList)
      | i # rest \<Rightarrow>
          (case kv_index m i of
             None \<Rightarrow> Some (- 1, checkList)
           | Some idx \<Rightarrow>
               Option.bind (checkListDFS m (mOutAdj (snd (m ! idx))) (checkList[idx := True]))
                 (\<lambda>(e, cl). if e < 0 then Some (- 1, cl) else checkListDFS m rest cl)))"

definition getOrphanNodes ::
    "PipelineDAG \<Rightarrow> int list \<Rightarrow> int list \<Rightarrow> (MERROR \<times> int list \<times> int list) option" where
  "getOrphanNodes d orphanNodes connectedNodes =
     (let m = mNodesVec d in
      do {
        (e, checkList) \<leftarrow> checkListDFS m [mRootId d] (replicate (length m) False);
        if e < 0 then Some (- 1, [], connectedNodes)
        else Some (OK,
          fold insort_insert (map fst (filter (\<lambda>(k, c). \<not> c) (zip (dag_ids d) checkList))) orphanNodes,
          fold insort_insert (map fst (filter (\<lambda>(k, c). c) (zip (dag_ids d) checkList))) connectedNodes)
      })"

text \<open>
  \<open>findPathBFS\<close>. The queue is an \<open>android::Vector\<close> that is filled at index 0 and read
  and popped at its end. \<open>bfs_scan\<close> is the loop over the in-adjacent ids of its last
  element, \<open>bfs_path\<close> the \<open>do while\<close> loop that copies a path into the new graph,
  \<open>bfs_loop\<close> the \<open>while\<close> loop. The new graph is another object than this one.
\<close>

fun bfs_scan :: "int list \<Rightarrow> int list \<Rightarrow> (int, int) kvec \<Rightarrow> int list \<Rightarrow> int option \<times> (int, int) kvec \<times> int list" where
  "bfs_scan checkList [] parent queue = (None, parent, queue)"
| "bfs_scan checkList (p # ps) parent queue =
     (if p \<in> set checkList then (Some p, parent, queue)
      else bfs_scan checkList ps (kv_add p (last queue) parent) (p # queue))"

partial_function (option) bfs_path ::
    "nodes \<Rightarrow> int \<Rightarrow> (int, int) kvec \<Rightarrow> int \<Rightarrow> int \<Rightarrow> int list \<Rightarrow> PipelineDAG \<Rightarrow> (MERROR \<times> int list \<times> PipelineDAG) option" where
  "bfs_path m id0 parent src dst checkList newDAG =
     do {
       n \<leftarrow> map_of m dst;
       let newDAG1 = snd (addNode newDAG (obj_id (mNode n)) (obj_val (mNode n)));
       let newDAG2 = snd (addEdge newDAG1 src dst);
       let checkList1 = insort_insert dst checkList;
       dst1 \<leftarrow> (if dst \<noteq> id0 then map_of parent dst else Some dst);
       if dst \<noteq> id0 then bfs_path m id0 parent dst dst1 checkList1 newDAG2
       else Some (OK, checkList1, newDAG2)
     }"

partial_function (option) bfs_loop ::
    "nodes \<Rightarrow> int \<Rightarrow> (int, int) kvec \<Rightarrow> int list \<Rightarrow> int list \<Rightarrow> PipelineDAG \<Rightarrow> (MERROR \<times> int list \<times> PipelineDAG) option" where
  "bfs_loop m id0 parent queue checkList newDAG =
     (if queue = [] then Some (- 1, checkList, newDAG)
      else do {
        n \<leftarrow> map_of m (last queue);
        (case bfs_scan checkList (mInAdj n) parent queue of
           (Some src, parent1, queue1) \<Rightarrow>
             bfs_path m id0 parent1 src (last queue1) checkList newDAG
         | (None, parent1, queue1) \<Rightarrow>
             bfs_loop m id0 parent1 (butlast queue1) checkList newDAG)
      })"

definition findPathBFS ::
    "PipelineDAG \<Rightarrow> int \<Rightarrow> int list \<Rightarrow> PipelineDAG \<Rightarrow> (MERROR \<times> int list \<times> PipelineDAG) option" where
  "findPathBFS d id0 checkList newDAG = bfs_loop (mNodesVec d) id0 [] [id0] checkList newDAG"

fun values_for :: "nodes \<Rightarrow> int list \<Rightarrow> NodeWithAdj list option" where
  "values_for m [] = Some []"
| "values_for m (i # is) = do { n \<leftarrow> map_of m i; ns \<leftarrow> values_for m is; Some (n # ns) }"

fun paths_for :: "PipelineDAG \<Rightarrow> NodeWithAdj list \<Rightarrow> int list \<Rightarrow> PipelineDAG \<Rightarrow> (MERROR \<times> int list \<times> PipelineDAG) option" where
  "paths_for d [] checkList newDAG = Some (OK, checkList, newDAG)"
| "paths_for d (n # ns) checkList newDAG =
     do {
       (e, checkList1, newDAG1) \<leftarrow> findPathBFS d (obj_id (mNode n)) checkList newDAG;
       if e < 0 then Some (- 1, checkList1, newDAG1) else paths_for d ns checkList1 newDAG1
     }"

text \<open>\<open>Vector::sort\<close> is a stable insertion sort; \<open>adjCompare\<close> orders by in-degree.\<close>

definition getNodesAndPathsForNewDAG ::
    "PipelineDAG \<Rightarrow> int list \<Rightarrow> int list \<Rightarrow> PipelineDAG \<Rightarrow> (MERROR \<times> int list \<times> PipelineDAG) option" where
  "getNodesAndPathsForNewDAG d orphanNodes checkList newDAG =
     do {
       ns \<leftarrow> values_for (mNodesVec d) orphanNodes;
       paths_for d (sort_key (\<lambda>n. length (mInAdj n)) ns) checkList newDAG
     }"

section \<open>Correctness of the topological sort\<close>

definition dag_wf :: "nodes \<Rightarrow> bool" where
  "dag_wf m \<longleftrightarrow>
     adj_wf mInAdj mOutAdj m \<and> (\<forall>k n. map_of m k = Some n \<longrightarrow> obj_id (mNode n) = k)"

text \<open>Every successor of an element of the list stands behind it in the list.\<close>

fun succs_behind :: "(int \<times> int) set \<Rightarrow> int list \<Rightarrow> bool" where
  "succs_behind E [] = True"
| "succs_behind E (x # xs) = (E `` {x} \<subseteq> set xs \<and> succs_behind E xs)"

lemma succs_behind_nth:
  "succs_behind E xs \<Longrightarrow> distinct xs \<Longrightarrow> i < length xs \<Longrightarrow> (xs ! i, y) \<in> E \<Longrightarrow>
   \<exists>j. i < j \<and> j < length xs \<and> xs ! j = y"
proof (induction xs arbitrary: i)
  case (Cons x xs)
  show ?case
  proof (cases i)
    case 0
    with Cons.prems have "y \<in> set xs" by auto
    then obtain j where "j < length xs" "xs ! j = y" by (auto simp: in_set_conv_nth)
    with 0 show ?thesis by (intro exI [of _ "Suc j"]) simp
  next
    case (Suc k)
    with Cons obtain j where "k < j" "j < length xs" "xs ! j = y" by auto
    with Suc show ?thesis by (intro exI [of _ "Suc j"]) simp
  qed
qed simp

lemma succs_behind_acyclic:
  assumes "succs_behind E xs" and "distinct xs" and "Domain E \<subseteq> set xs"
  shows "acyclic E"
proof -
  have step: "\<exists>j>i. j < length xs \<and> xs ! j = y" if "(a, y) \<in> E\<^sup>+" "i < length xs" "xs ! i = a" for a y i
    using that
  proof (induction arbitrary: rule: trancl_induct)
    case (base y)
    then show ?case using succs_behind_nth [OF assms(1,2)] by blast
  next
    case (step y z)
    then obtain j where "i < j" "j < length xs" "xs ! j = y" by blast
    with succs_behind_nth [OF assms(1,2)] step.hyps(2) show ?case by (meson less_trans)
  qed
  have "(a, a) \<notin> E\<^sup>+" for a
  proof
    assume c: "(a, a) \<in> E\<^sup>+"
    then have "a \<in> set xs" using assms(3) by (meson DomainI in_mono tranclD)
    then obtain i where i: "i < length xs" "xs ! i = a" by (auto simp: in_set_conv_nth)
    with step [OF c] obtain j where "i < j" "j < length xs" "xs ! j = a" by blast
    with i assms(2) show False by (metis nth_eq_iff_index_eq less_irrefl)
  qed
  then show ?thesis by (simp add: acyclic_def)
qed

definition black :: "visit \<Rightarrow> int set" where "black v = {k. map_of v k = Some SORTED}"
definition gray :: "visit \<Rightarrow> int set" where "gray v = {k. map_of v k = Some VISITED}"

definition topo_inv :: "nodes \<Rightarrow> visit \<Rightarrow> NodeObj list \<Rightarrow> bool" where
  "topo_inv m v ts \<longleftrightarrow>
     kv_keys v = kv_keys m \<and>
     distinct (map obj_id ts) \<and>
     obj_id ` set ts = black v \<and>
     succs_behind (edge_rel mOutAdj m) (map obj_id ts) \<and>
     (\<forall>n \<in> set ts. \<exists>k na. map_of m k = Some na \<and> mNode na = n)"

text \<open>
  What one run of the search does: it finishes the node and leaves the path of nodes in
  progress as it was, or it reports failure and the graph has a cycle.
\<close>

definition topo_post ::
    "nodes \<Rightarrow> visit \<Rightarrow> int set \<Rightarrow> (MERROR \<times> visit \<times> NodeObj list) option \<Rightarrow> bool" where
  "topo_post m v xs r \<longleftrightarrow>
     (\<exists>e v' ts'. r = Some (e, v', ts') \<and>
        (if e = OK then topo_inv m v' ts' \<and> gray v' = gray v \<and> black v \<union> xs \<subseteq> black v'
         else \<not> acyclic (edge_rel mOutAdj m)))"

lemma topo_post_extend:
  assumes "topo_post m v' xs r" and "gray v' = gray v" and "insert x (black v) \<subseteq> black v'"
  shows "topo_post m v (insert x xs) r"
proof -
  obtain e w us where "r = Some (e, w, us)"
    and "if e = OK then topo_inv m w us \<and> gray w = gray v' \<and> black v' \<union> xs \<subseteq> black w
         else \<not> acyclic (edge_rel mOutAdj m)"
    using assms(1) by (auto simp: topo_post_def)
  with assms(2,3) show ?thesis unfolding topo_post_def by (cases "e = OK") auto
qed

lemma topo_inv_gray:
  assumes "topo_inv m v ts" and "map_of v i = Some NOT_VISIT"
  shows "topo_inv m (kv_edit i (\<lambda>_. VISITED) v) ts"
    and "gray (kv_edit i (\<lambda>_. VISITED) v) = insert i (gray v)"
    and "black (kv_edit i (\<lambda>_. VISITED) v) = black v"
proof -
  show b: "black (kv_edit i (\<lambda>_. VISITED) v) = black v" using assms(2) by (auto simp: black_def)
  show "gray (kv_edit i (\<lambda>_. VISITED) v) = insert i (gray v)"
    using assms(2) by (auto simp: gray_def)
  show "topo_inv m (kv_edit i (\<lambda>_. VISITED) v) ts" using assms(1) by (simp add: topo_inv_def b)
qed

lemma topo_inv_black:
  assumes wf: "dag_wf m" and inv: "topo_inv m v ts" and i: "i \<in> gray v"
    and n: "map_of m i = Some n" and out: "set (mOutAdj n) \<subseteq> black v"
  shows "topo_inv m (kv_edit i (\<lambda>_. SORTED) v) (mNode n # ts)"
    and "gray (kv_edit i (\<lambda>_. SORTED) v) = gray v - {i}"
    and "black (kv_edit i (\<lambda>_. SORTED) v) = insert i (black v)"
proof -
  show b: "black (kv_edit i (\<lambda>_. SORTED) v) = insert i (black v)"
    using i by (auto simp: black_def gray_def)
  show "gray (kv_edit i (\<lambda>_. SORTED) v) = gray v - {i}" by (auto simp: gray_def)
  have id: "obj_id (mNode n) = i" using wf n by (simp add: dag_wf_def)
  have "i \<notin> black v" using i by (simp add: gray_def black_def)
  moreover have "edge_rel mOutAdj m `` {i} = set (mOutAdj n)" using n by (auto simp: edge_rel_def)
  ultimately show "topo_inv m (kv_edit i (\<lambda>_. SORTED) v) (mNode n # ts)"
    using inv out n b id unfolding topo_inv_def by auto
qed

lemma topo_run_post:
  "dag_wf m \<Longrightarrow> topo_inv m v ts \<Longrightarrow> i \<in> set (kv_keys m) \<Longrightarrow>
   (\<forall>g \<in> gray v. (g, i) \<in> (edge_rel mOutAdj m)\<^sup>+) \<Longrightarrow>
   topo_post m v {i} (topo_run m i v ts)"
  "dag_wf m \<Longrightarrow> topo_inv m v ts \<Longrightarrow> set xs \<subseteq> set (kv_keys m) \<Longrightarrow>
   (\<forall>x \<in> set xs. \<forall>g \<in> gray v. (g, x) \<in> (edge_rel mOutAdj m)\<^sup>+) \<Longrightarrow>
   topo_post m v (set xs) (topo_adj m xs v ts)"
proof (induction m i v ts and m xs v ts rule: topo_run_topo_adj.induct)
  case (1 m i v ts)
  let ?E = "edge_rel mOutAdj m"
  have "i \<in> set (kv_keys v)" using "1.prems"(2,3) by (simp add: topo_inv_def)
  then obtain c where c: "map_of v i = Some c" using kv_keys_get by metis
  obtain n where n: "map_of m i = Some n" using "1.prems"(3) kv_keys_get by metis
  show ?case
  proof (cases c)
    case NOT_VISIT
    let ?v = "kv_edit i (\<lambda>_. VISITED) v"
    note g = topo_inv_gray [OF "1.prems"(2) c [unfolded NOT_VISIT]]
    have "adj_wf mInAdj mOutAdj m" using "1.prems"(1) by (simp add: dag_wf_def)
    then have out: "set (mOutAdj n) \<subseteq> set (kv_keys m)" using n by (rule adj_wf_out_keys)
    have ix: "(i, x) \<in> ?E" if "x \<in> set (mOutAdj n)" for x using n that by (rule edge_relI)
    have path: "\<forall>x \<in> set (mOutAdj n). \<forall>h \<in> gray ?v. (h, x) \<in> ?E\<^sup>+"
      using "1.prems"(4) ix unfolding g(2) by (auto intro: trancl_into_trancl)
    have "topo_post m ?v (set (mOutAdj n)) (topo_adj m (mOutAdj n) ?v ts)"
      using "1.IH" [OF c NOT_VISIT n "1.prems"(1) g(1) out path] .
    then obtain e v' ts' where r: "topo_adj m (mOutAdj n) ?v ts = Some (e, v', ts')"
      and post: "if e = OK then topo_inv m v' ts' \<and> gray v' = gray ?v \<and> black ?v \<union> set (mOutAdj n) \<subseteq> black v'
         else \<not> acyclic ?E"
      by (auto simp: topo_post_def)
    show ?thesis
    proof (cases "e = OK")
      case True
      with post have inv: "topo_inv m v' ts'" and gr: "gray v' = insert i (gray v)"
        and bl: "black v \<union> set (mOutAdj n) \<subseteq> black v'" using g by auto
      have "i \<notin> gray v" using c NOT_VISIT by (simp add: gray_def)
      moreover have "i \<in> gray v'" using gr by simp
      ultimately have
        "topo_inv m (kv_edit i (\<lambda>_. SORTED) v') (mNode n # ts') \<and>
         gray (kv_edit i (\<lambda>_. SORTED) v') = gray v \<and>
         black v \<union> {i} \<subseteq> black (kv_edit i (\<lambda>_. SORTED) v')"
        using topo_inv_black [OF "1.prems"(1) inv _ n] bl gr by auto
      then show ?thesis
        by (simp add: topo_post_def topo_run.simps [of m i] c NOT_VISIT n r True)
    next
      case False
      with post show ?thesis
        by (simp add: topo_post_def topo_run.simps [of m i] c NOT_VISIT n r)
    qed
  next
    case VISITED
    then have "i \<in> gray v" using c by (simp add: gray_def)
    then have "(i, i) \<in> ?E\<^sup>+" using "1.prems"(4) by blast
    then show ?thesis
      using c VISITED by (auto simp: topo_post_def topo_run.simps [of m i] acyclic_def)
  next
    case SORTED
    then show ?thesis
      using c "1.prems"(2) by (auto simp: topo_post_def topo_run.simps [of m i] black_def)
  qed
next
  case (3 m x xs v ts)
  have "topo_post m v {x} (topo_run m x v ts)" using "3.IH"(1) "3.prems" by simp
  then obtain e v' ts' where r: "topo_run m x v ts = Some (e, v', ts')"
    and post: "if e = OK then topo_inv m v' ts' \<and> gray v' = gray v \<and> black v \<union> {x} \<subseteq> black v'
         else \<not> acyclic (edge_rel mOutAdj m)"
    by (auto simp: topo_post_def)
  show ?case
  proof (cases "e = OK")
    case True
    with post "3.prems" have "topo_post m v' (set xs) (topo_adj m xs v' ts')"
      by (intro "3.IH"(2) [OF r refl refl True]) auto
    then have "topo_post m v (insert x (set xs)) (topo_adj m xs v' ts')"
      using True post by (intro topo_post_extend [of m v']) auto
    with True show ?thesis by (simp add: r)
  next
    case False
    with post show ?thesis by (simp add: topo_post_def r)
  qed
qed (auto simp: topo_post_def)

lemma topo_outer_post:
  assumes "dag_wf m"
  shows "topo_inv m v ts \<Longrightarrow> gray v = {} \<Longrightarrow> set is \<subseteq> set (kv_keys m) \<Longrightarrow>
    \<exists>e ts'. topo_outer m is v ts = Some (e, ts') \<and>
      (if e = OK then \<exists>v'. topo_inv m v' ts' \<and> black v \<union> set is \<subseteq> black v'
       else e = UNKNOWN_ERROR \<and> ts' = [] \<and> \<not> acyclic (edge_rel mOutAdj m))"
proof (induction "is" arbitrary: v ts)
  case (Cons i "is")
  show ?case
  proof (cases "map_of v i = Some NOT_VISIT")
    case True
    have "topo_post m v {i} (topo_run m i v ts)"
      using Cons.prems by (intro topo_run_post(1) [OF assms]) auto
    then obtain e v' ts' where r: "topo_run m i v ts = Some (e, v', ts')"
      and post: "if e = OK then topo_inv m v' ts' \<and> gray v' = gray v \<and> black v \<union> {i} \<subseteq> black v'
         else \<not> acyclic (edge_rel mOutAdj m)"
      by (auto simp: topo_post_def)
    show ?thesis
    proof (cases "e = OK")
      case True
      with post Cons.prems have
        "\<exists>e ts''. topo_outer m is v' ts' = Some (e, ts'') \<and>
          (if e = OK then \<exists>v''. topo_inv m v'' ts'' \<and> black v' \<union> set is \<subseteq> black v''
           else e = UNKNOWN_ERROR \<and> ts'' = [] \<and> \<not> acyclic (edge_rel mOutAdj m))"
        by (intro Cons.IH) auto
      with \<open>map_of v i = Some NOT_VISIT\<close> r True post show ?thesis by (fastforce split: if_splits)
    qed (use \<open>map_of v i = Some NOT_VISIT\<close> r post in auto)
  next
    case False
    have "i \<in> set (kv_keys v)" using Cons.prems by (simp add: topo_inv_def)
    then obtain c where "map_of v i = Some c" using kv_keys_get by metis
    with False Cons.prems(2) have "i \<in> black v"
      by (cases c) (auto simp: black_def gray_def)
    moreover have "\<exists>e ts'. topo_outer m is v ts = Some (e, ts') \<and>
      (if e = OK then \<exists>v'. topo_inv m v' ts' \<and> black v \<union> set is \<subseteq> black v'
       else e = UNKNOWN_ERROR \<and> ts' = [] \<and> \<not> acyclic (edge_rel mOutAdj m))"
      using Cons.prems by (intro Cons.IH) auto
    ultimately show ?thesis using False by (fastforce split: if_splits)
  qed
qed auto


text \<open>The whole sort, on a well-formed graph.\<close>

lemma evaluateToposort_post:
  assumes "dag_wf m"
  obtains e ts where "evaluateToposort m = Some (e, ts)"
    and "e = OK \<longleftrightarrow> acyclic (edge_rel mOutAdj m)"
    and "e = OK \<Longrightarrow> distinct (map obj_id ts) \<and> obj_id ` set ts = set (kv_keys m) \<and>
           succs_behind (edge_rel mOutAdj m) (map obj_id ts) \<and>
           (\<forall>n \<in> set ts. \<exists>k na. map_of m k = Some na \<and> mNode na = n)"
    and "e \<noteq> OK \<Longrightarrow> e = UNKNOWN_ERROR \<and> ts = []"
proof -
  let ?E = "edge_rel mOutAdj m"
  let ?v = "map (\<lambda>(k, _). (k, NOT_VISIT)) m"
  have get: "map_of ?v k = map_option (\<lambda>_. NOT_VISIT) (map_of m k)" for k
    by (induction m) auto
  have keys: "kv_keys ?v = kv_keys m" by (simp add: kv_keys_def comp_def case_prod_unfold)
  have "topo_inv m ?v []" "gray ?v = {}"
    by (auto simp: topo_inv_def keys black_def gray_def get)
  from topo_outer_post [OF assms this order_refl] obtain e ts where
    r: "evaluateToposort m = Some (e, ts)" and
    post: "if e = OK then \<exists>v'. topo_inv m v' ts \<and> black ?v \<union> set (kv_keys m) \<subseteq> black v'
           else e = UNKNOWN_ERROR \<and> ts = [] \<and> \<not> acyclic ?E"
    by (auto simp: evaluateToposort_def)
  have ok: "distinct (map obj_id ts) \<and> obj_id ` set ts = set (kv_keys m) \<and>
      succs_behind ?E (map obj_id ts) \<and> (\<forall>n \<in> set ts. \<exists>k na. map_of m k = Some na \<and> mNode na = n)"
    if "e = OK"
  proof -
    from post that obtain v' where v': "topo_inv m v' ts" "set (kv_keys m) \<subseteq> black v'" by auto
    have "black v' \<subseteq> set (kv_keys v')" by (auto simp: black_def dest: kv_get_in_keys)
    with v' show ?thesis unfolding topo_inv_def by auto
  qed
  have "acyclic ?E" if "e = OK"
  proof (rule succs_behind_acyclic)
    show "succs_behind ?E (map obj_id ts)" "distinct (map obj_id ts)" using ok that by auto
    have "set (map obj_id ts) = set (kv_keys m)" using ok that by simp
    then show "Domain ?E \<subseteq> set (map obj_id ts)" using edge_rel_src by (metis DomainE subsetI)
  qed
  with post have iff: "e = OK \<longleftrightarrow> acyclic ?E" by (auto split: if_splits)
  have err: "e = UNKNOWN_ERROR \<and> ts = []" if "e \<noteq> OK" using post that by simp
  show ?thesis by (rule that [OF r iff ok err])
qed

section \<open>The operations keep the graph well-formed\<close>

interpretation dag: adj_node mInAdj mOutAdj mInAdj_update mOutAdj_update
  by unfold_locales simp_all

lemma dag_wf_adj: "dag_wf m \<Longrightarrow> adj_wf mInAdj mOutAdj m"
  by (simp add: dag_wf_def)

lemma dag_wf_id: "dag_wf m \<Longrightarrow> map_of m k = Some n \<Longrightarrow> obj_id (mNode n) = k"
  by (simp add: dag_wf_def)

text \<open>Edits of the adjacency fields leave the node objects alone.\<close>

lemma fold_edit_mNode:
  assumes "\<And>n. mNode (f n) = mNode n"
    and "map_of (fold (\<lambda>i. kv_edit i f) ks m) k = Some n'"
  shows "\<exists>n. map_of m k = Some n \<and> mNode n' = mNode n"
  using assms(2) by (induction ks arbitrary: m) (fastforce simp: assms(1) split: if_splits)+

lemma dag_wf_Nil [simp]: "dag_wf []"
  by (simp add: dag_wf_def)

lemma dag_wf_addNode:
  "dag_wf (mNodesVec d) \<Longrightarrow> i \<notin> set (dag_ids d) \<Longrightarrow> dag_wf (mNodesVec (snd (addNode d i val)))"
  by (auto simp: dag_wf_def addNode_def intro!: adj_wf_add_isolated split: if_splits)

lemma dag_edges_addNode:
  "i \<notin> set (dag_ids d) \<Longrightarrow> dag_edges (snd (addNode d i val)) = dag_edges d"
  by (simp add: addNode_def edge_rel_add_isolated)

lemma addEdge_missing:
  "s \<notin> set (dag_ids d) \<or> t \<notin> set (dag_ids d) \<Longrightarrow> addEdge d s t = (NAME_NOT_FOUND, d)"
  by (auto simp: addEdge_def kv_get_None [symmetric] split: option.splits)

lemma addEdge_present:
  assumes wf: "dag_wf (mNodesVec d)" and s: "s \<in> set (dag_ids d)" and t: "t \<in> set (dag_ids d)"
  shows "fst (addEdge d s t) = OK"
    and "dag_wf (mNodesVec (snd (addEdge d s t)))"
    and "dag_edges (snd (addEdge d s t)) = insert (s, t) (dag_edges d)"
    and "dag_ids (snd (addEdge d s t)) = dag_ids d"
proof -
  obtain ns nt where ns: "map_of (mNodesVec d) s = Some ns" and nt: "map_of (mNodesVec d) t = Some nt"
    using s t kv_keys_get by metis
  show "fst (addEdge d s t) = OK" "dag_ids (snd (addEdge d s t)) = dag_ids d"
    by (simp_all add: addEdge_def ns nt)
  show "dag_wf (mNodesVec (snd (addEdge d s t)))"
    using dag.adj_wf_add_edge [OF dag_wf_adj [OF wf] s t] wf
    by (auto simp: addEdge_def ns nt dag_wf_def split: if_splits)
  show "dag_edges (snd (addEdge d s t)) = insert (s, t) (dag_edges d)"
  proof (cases "t \<notin> set (mOutAdj ns) \<or> s \<notin> set (mInAdj nt)")
    case True
    then show ?thesis using dag.edge_rel_add_edge(1) [OF s t] by (simp add: addEdge_def ns nt)
  next
    case False
    then have "(s, t) \<in> dag_edges d" using ns by (auto simp: edge_rel_def)
    then show ?thesis using False by (auto simp: addEdge_def ns nt)
  qed
qed

lemma removeEdge_post:
  assumes wf: "dag_wf (mNodesVec d)"
  shows "dag_wf (mNodesVec (snd (removeEdge d s t)))"
    and "dag_edges (snd (removeEdge d s t)) = dag_edges d - {(s, t)}"
    and "dag_ids (snd (removeEdge d s t)) = dag_ids d"
    and "fst (removeEdge d s t) = (if (s, t) \<in> dag_edges d then OK else NAME_NOT_FOUND)"
proof -
  note rm = dag.adj_wf_remove_edge [OF dag_wf_adj [OF wf], of t s]
    dag.edge_rel_remove_edge(1) [OF dag_wf_adj [OF wf], of t s]
  have keys: "s \<in> set (dag_ids d)" "t \<in> set (dag_ids d)" if "(s, t) \<in> dag_edges d"
    using adj_wf_edge_keys [OF dag_wf_adj [OF wf] that] .
  show "dag_ids (snd (removeEdge d s t)) = dag_ids d"
    by (auto simp: removeEdge_def split: option.splits)
  show "dag_wf (mNodesVec (snd (removeEdge d s t)))"
    using rm(1) wf by (auto simp: removeEdge_def dag_wf_def split: option.splits if_splits)
  show "dag_edges (snd (removeEdge d s t)) = dag_edges d - {(s, t)}"
    and "fst (removeEdge d s t) = (if (s, t) \<in> dag_edges d then OK else NAME_NOT_FOUND)"
  proof -
    show "dag_edges (snd (removeEdge d s t)) = dag_edges d - {(s, t)}"
    proof (cases "(s, t) \<in> dag_edges d")
      case True
      then obtain ns nt where ns: "map_of (mNodesVec d) s = Some ns"
        and nt: "map_of (mNodesVec d) t = Some nt" using keys kv_keys_get by metis
      have "(t, s) \<in> edge_rel mInAdj (mNodesVec d)"
        using True dag_wf_adj [OF wf] by (simp add: adj_wf_def)
      then have "s \<in> set (mInAdj nt)" "t \<in> set (mOutAdj ns)"
        using True edge_rel_iff [OF ns, of t mOutAdj] edge_rel_iff [OF nt, of s mInAdj] by auto
      then show ?thesis using rm(2) by (simp add: removeEdge_def ns nt)
    next
      case False
      then have "snd (removeEdge d s t) = d"
        by (auto simp: removeEdge_def edge_rel_def split: option.splits)
      with False show ?thesis by simp
    qed
    show "fst (removeEdge d s t) = (if (s, t) \<in> dag_edges d then OK else NAME_NOT_FOUND)"
    proof (cases "(s, t) \<in> dag_edges d")
      case True
      then obtain ns nt where ns: "map_of (mNodesVec d) s = Some ns"
        and nt: "map_of (mNodesVec d) t = Some nt" using keys kv_keys_get by metis
      have "(t, s) \<in> edge_rel mInAdj (mNodesVec d)"
        using True dag_wf_adj [OF wf] by (simp add: adj_wf_def)
      then have "s \<in> set (mInAdj nt)" "t \<in> set (mOutAdj ns)"
        using True edge_rel_iff [OF ns, of t mOutAdj] edge_rel_iff [OF nt, of s mInAdj] by auto
      then show ?thesis using True by (simp add: removeEdge_def ns nt)
    next
      case False
      then show ?thesis by (auto simp: removeEdge_def edge_rel_def split: option.splits)
    qed
  qed
qed

lemma removeNode_post:
  assumes wf: "dag_wf (mNodesVec d)" and i: "i \<in> set (dag_ids d)"
  obtains d' where "removeNode d i = Some (OK, d')"
    and "dag_wf (mNodesVec d')"
    and "dag_ids d' = filter (\<lambda>k. k \<noteq> i) (dag_ids d)"
    and "dag_edges d' = {(a, b) \<in> dag_edges d. a \<noteq> i \<and> b \<noteq> i}"
    and "mRootId d' = (if i = mRootId d then BAD_ID else mRootId d)"
proof -
  let ?m = "mNodesVec d"
  obtain n where n: "map_of ?m i = Some n" using i kv_keys_get by metis
  let ?m1 = "fold (\<lambda>k. kv_edit k (mOutAdj_update (remove1 i))) (mInAdj n) ?m"
  have "i \<in> set (kv_keys ?m1)" using i by simp
  then obtain n1 where n1: "map_of ?m1 i = Some n1" using kv_keys_get by metis
  let ?m2 = "fold (\<lambda>k. kv_edit k (mInAdj_update (remove1 i))) (mOutAdj n1) ?m1"
  note rm = dag.remove_node_edges [OF dag_wf_adj [OF wf] n n1]
  have e1: "kv_edit_all (mOutAdj_update (remove1 i)) (mInAdj n) ?m = Some ?m1"
    using adj_wf_in_keys [OF dag_wf_adj [OF wf] n] by (rule kv_edit_all_Some)
  have out_n1: "set (mOutAdj n1) \<subseteq> set (mOutAdj n)"
  proof -
    have "(i, b) \<in> dag_edges d" if "b \<in> set (mOutAdj n1)" for b
      using dag.edge_rel_fold_remove_out(1) [of ?m i "mInAdj n"] edge_rel_iff [OF n1, of b mOutAdj] that
        dag_wf_adj [OF wf] by (auto simp: adj_wf_def)
    then show ?thesis using edge_rel_iff [OF n, of _ mOutAdj] by blast
  qed
  have e2: "kv_edit_all (mInAdj_update (remove1 i)) (mOutAdj n1) ?m1 = Some ?m2"
    using out_n1 adj_wf_out_keys [OF dag_wf_adj [OF wf] n] by (intro kv_edit_all_Some) auto
  have "obj_id (mNode n') = k" if k: "map_of (kv_remove i ?m2) k = Some n'" for k n'
  proof -
    have "map_of ?m2 k = Some n'" using k by (auto split: if_splits)
    from fold_edit_mNode [OF _ this] obtain na where na: "map_of ?m1 k = Some na" "mNode n' = mNode na" by auto
    from fold_edit_mNode [OF _ na(1)] obtain nb where "map_of ?m k = Some nb" "mNode na = mNode nb" by auto
    with na(2) dag_wf_id [OF wf] show ?thesis by metis
  qed
  then have "dag_wf (kv_remove i ?m2)" using rm(1) by (simp add: dag_wf_def)
  moreover have "removeNode d i = Some (OK, d\<lparr>mRootId := (if i = mRootId d then BAD_ID else mRootId d),
      mNodesVec := kv_remove i ?m2\<rparr>)"
    by (simp add: removeNode_def n e1 n1 e2)
  ultimately show ?thesis using rm(2) that by simp
qed

text \<open>Cloning a subset: the unlisted nodes are removed one after the other.\<close>

lemma removeNodes_post:
  assumes "dag_wf (mNodesVec d)" and "set is \<subseteq> set (dag_ids d)" and "distinct is"
  obtains d' where "removeNodes is d = Some d'" and "dag_wf (mNodesVec d')"
    and "dag_ids d' = filter (\<lambda>k. k \<notin> set is) (dag_ids d)"
    and "dag_edges d' = {(a, b) \<in> dag_edges d. a \<notin> set is \<and> b \<notin> set is}"
    and "mRootId d' = (if mRootId d \<in> set is then BAD_ID else mRootId d)"
proof -
  have "\<exists>d'. removeNodes is d = Some d' \<and> dag_wf (mNodesVec d') \<and>
      dag_ids d' = filter (\<lambda>k. k \<notin> set is) (dag_ids d) \<and>
      dag_edges d' = {(a, b) \<in> dag_edges d. a \<notin> set is \<and> b \<notin> set is} \<and>
      mRootId d' = (if mRootId d \<in> set is then BAD_ID else mRootId d)"
    using assms
  proof (induction "is" arbitrary: d)
    case (Cons i "is")
    then have "i \<in> set (dag_ids d)" by simp
    from removeNode_post [OF Cons.prems(1) this] obtain d1 where
      d1: "removeNode d i = Some (OK, d1)" "dag_wf (mNodesVec d1)"
        "dag_ids d1 = filter (\<lambda>k. k \<noteq> i) (dag_ids d)"
        "dag_edges d1 = {(a, b) \<in> dag_edges d. a \<noteq> i \<and> b \<noteq> i}"
        "mRootId d1 = (if i = mRootId d then BAD_ID else mRootId d)" .
    have "set is \<subseteq> set (dag_ids d1)" using Cons.prems d1(3) by auto
    from Cons.IH [OF d1(2) this] Cons.prems obtain d' where
      d': "removeNodes is d1 = Some d'" "dag_wf (mNodesVec d')"
        "dag_ids d' = filter (\<lambda>k. k \<notin> set is) (dag_ids d1)"
        "dag_edges d' = {(a, b) \<in> dag_edges d1. a \<notin> set is \<and> b \<notin> set is}"
        "mRootId d' = (if mRootId d1 \<in> set is then BAD_ID else mRootId d1)"
      by auto
    have "dag_ids d' = filter (\<lambda>k. k \<notin> set (i # is)) (dag_ids d)"
      by (simp add: d'(3) d1(3) conj_commute)
    moreover have "dag_edges d' = {(a, b) \<in> dag_edges d. a \<notin> set (i # is) \<and> b \<notin> set (i # is)}"
      unfolding d'(4) d1(4) by auto
    moreover have "mRootId d' = (if mRootId d \<in> set (i # is) then BAD_ID else mRootId d)"
      using d'(5) d1(5) by auto
    ultimately show ?case using d1(1) d'(1,2) by (intro exI [of _ d']) simp
  qed simp
  then show ?thesis using that by blast
qed

lemma setNodeValue_wf:
  "dag_wf (mNodesVec d) \<Longrightarrow> dag_wf (mNodesVec (snd (setNodeValue d i val)))"
  "dag_edges (snd (setNodeValue d i val)) = dag_edges d"
  "dag_ids (snd (setNodeValue d i val)) = dag_ids d"
proof -
  let ?f = "mNode_update (obj_val_update (\<lambda>_. val))"
  have e: "edge_rel mOutAdj (kv_edit i ?f m) = edge_rel mOutAdj m"
    and e': "edge_rel mInAdj (kv_edit i ?f m) = edge_rel mInAdj m" for m
    by (auto simp: edge_rel_def split: if_splits)
  show "dag_edges (snd (setNodeValue d i val)) = dag_edges d"
    "dag_ids (snd (setNodeValue d i val)) = dag_ids d"
    by (simp_all add: setNodeValue_def e)
  show "dag_wf (mNodesVec (snd (setNodeValue d i val)))" if "dag_wf (mNodesVec d)"
    using that by (auto simp: setNodeValue_def dag_wf_def adj_wf_def e e' kv_wf_edit split: if_splits)
qed

text \<open>
  The graphs a client can build: it starts from \<open>create\<close> and calls the operations, adding
  nodes with unused ids.
\<close>

inductive dag_reach :: "PipelineDAG \<Rightarrow> bool" where
  create: "dag_reach dag_create"
| addNode: "dag_reach d \<Longrightarrow> i \<notin> set (dag_ids d) \<Longrightarrow> dag_reach (snd (addNode d i val))"
| removeNode: "dag_reach d \<Longrightarrow> removeNode d i = Some (e, d') \<Longrightarrow> dag_reach d'"
| addEdge: "dag_reach d \<Longrightarrow> dag_reach (snd (addEdge d s t))"
| removeEdge: "dag_reach d \<Longrightarrow> dag_reach (snd (removeEdge d s t))"
| setRootNode: "dag_reach d \<Longrightarrow> dag_reach (snd (setRootNode d i))"
| setNodeValue: "dag_reach d \<Longrightarrow> dag_reach (snd (setNodeValue d i val))"
| getToposort: "dag_reach d \<Longrightarrow> getToposort d = Some (ts, d') \<Longrightarrow> dag_reach d'"
| clone: "dag_reach d \<Longrightarrow> dag_reach (clone d)"
| clone_ids: "dag_reach d \<Longrightarrow> clone_ids d ids = Some (Some d') \<Longrightarrow> dag_reach d'"

definition dag_inv :: "PipelineDAG \<Rightarrow> bool" where
  "dag_inv d \<longleftrightarrow> dag_wf (mNodesVec d) \<and> (mRootId d = BAD_ID \<or> mRootId d \<in> set (dag_ids d))"

lemma dag_inv_wf: "dag_inv d \<Longrightarrow> dag_wf (mNodesVec d)"
  by (simp add: dag_inv_def)

lemma dag_inv_addEdge: "dag_inv d \<Longrightarrow> dag_inv (snd (addEdge d s t))"
proof (cases "s \<in> set (dag_ids d) \<and> t \<in> set (dag_ids d)")
  case True
  moreover assume "dag_inv d"
  moreover have "mRootId (snd (addEdge d s t)) = mRootId d"
    by (auto simp: addEdge_def split: option.splits)
  ultimately show ?thesis using addEdge_present [of d s t] by (simp add: dag_inv_def)
qed (simp add: addEdge_missing)

lemma dag_inv_removeNode:
  assumes "dag_inv d" and "removeNode d i = Some (e, d')" shows "dag_inv d'"
proof (cases "i \<in> set (dag_ids d)")
  case True
  then obtain d1 where "removeNode d i = Some (OK, d1)" "dag_wf (mNodesVec d1)"
    "dag_ids d1 = filter (\<lambda>k. k \<noteq> i) (dag_ids d)"
    "mRootId d1 = (if i = mRootId d then BAD_ID else mRootId d)"
    using removeNode_post [OF dag_inv_wf [OF assms(1)]] by metis
  with assms show ?thesis by (auto simp: dag_inv_def)
next
  case False
  with assms show ?thesis by (auto simp: removeNode_def kv_get_None [symmetric])
qed

lemma dag_inv_clone_ids:
  assumes "dag_inv d" and "clone_ids d ids = Some (Some d')" shows "dag_inv d'"
proof -
  let ?v = "filter (\<lambda>i. i \<notin> set ids) (dag_ids d)"
  have r: "removeNodes ?v (clone d) = Some d'" and root: "mRootId d \<notin> set ?v"
    using assms(2) by (auto simp: clone_ids_def Let_def split: if_splits)
  have wf: "dag_wf (mNodesVec (clone d))" using assms(1) by (simp add: clone_def dag_inv_def)
  have "kv_wf (mNodesVec d)" using assms(1) by (auto simp: dag_inv_def dag_wf_def)
  then have dist: "distinct ?v" by (simp add: kv_wf_distinct)
  have sub: "set ?v \<subseteq> set (dag_ids (clone d))" by (auto simp: clone_def)
  from removeNodes_post [OF wf sub dist] obtain d'' where "removeNodes ?v (clone d) = Some d''"
    "dag_wf (mNodesVec d'')"
    "dag_ids d'' = filter (\<lambda>k. k \<notin> set ?v) (dag_ids (clone d))"
    "dag_edges d'' = {(a, b) \<in> dag_edges (clone d). a \<notin> set ?v \<and> b \<notin> set ?v}"
    "mRootId d'' = (if mRootId (clone d) \<in> set ?v then BAD_ID else mRootId (clone d))" .
  with r root assms(1) show ?thesis by (auto simp: dag_inv_def clone_def)
qed

lemma dag_reach_inv: "dag_reach d \<Longrightarrow> dag_inv d"
proof (induction rule: dag_reach.induct)
  case (addNode d i val)
  then show ?case using dag_wf_addNode [of d i val] by (auto simp: dag_inv_def addNode_def)
next
  case (removeEdge d s t)
  moreover have "mRootId (snd (removeEdge d s t)) = mRootId d"
    by (auto simp: removeEdge_def split: option.splits)
  ultimately show ?case using removeEdge_post [of d s t] by (simp add: dag_inv_def)
next
  case (setNodeValue d i val)
  moreover have "mRootId (snd (setNodeValue d i val)) = mRootId d" by (simp add: setNodeValue_def)
  ultimately show ?case using setNodeValue_wf [of d i val] by (simp add: dag_inv_def)
next
  case (getToposort d ts d')
  then show ?case by (auto simp: dag_inv_def getToposort_def split: if_splits)
next
  case (addEdge d s t)
  then show ?case by (simp add: dag_inv_addEdge)
next
  case (removeNode d i e d')
  from removeNode.IH removeNode.hyps(2) show ?case by (rule dag_inv_removeNode)
next
  case (clone_ids d ids d')
  from clone_ids.IH clone_ids.hyps(2) show ?case by (rule dag_inv_clone_ids)
qed (simp_all add: dag_create_def dag_inv_def setRootNode_def clone_def)

lemma dag_reach_wf: "dag_reach d \<Longrightarrow> dag_wf (mNodesVec d)"
  by (rule dag_inv_wf [OF dag_reach_inv])

section \<open>Nodes reachable from the root\<close>

text \<open>What \<open>checkListDFS\<close> has done when it returns.\<close>

definition dfs_post :: "nodes \<Rightarrow> int list \<Rightarrow> bool list \<Rightarrow> MERROR \<times> bool list \<Rightarrow> bool" where
  "dfs_post m ids cl y \<longleftrightarrow>
     length cl = length m \<longrightarrow>
     length (snd y) = length m \<and> (fst y = OK \<or> fst y = - 1) \<and>
     (fst y = OK \<longrightarrow>
        (\<forall>x \<in> set ids. \<forall>c. (x, c) \<in> (edge_rel mOutAdj m)\<^sup>* \<longrightarrow> (c, c) \<notin> (edge_rel mOutAdj m)\<^sup>+) \<and>
        (\<forall>j < length m. snd y ! j \<longleftrightarrow>
           cl ! j \<or> (\<exists>x \<in> set ids. (x, fst (m ! j)) \<in> (edge_rel mOutAdj m)\<^sup>*)))"

lemma dfs_post_Cons:
  assumes idx: "kv_index m i = Some idx" and wf: "distinct (kv_keys m)"
    and a: "dfs_post m (mOutAdj (snd (m ! idx))) (cl[idx := True]) (e, cl1)"
    and b: "if e < 0 then y = (- 1, cl1) else dfs_post m rest cl1 y"
  shows "dfs_post m (i # rest) cl y"
  unfolding dfs_post_def
proof (intro impI)
  let ?E = "edge_rel mOutAdj m"
  have succ: "(i, b) \<in> ?E \<longleftrightarrow> b \<in> set (mOutAdj (snd (m ! idx)))" for b
    using kv_index_Some [OF idx] by (auto simp: edge_rel_def)
  have key: "idx < length m" "fst (m ! idx) = i" using kv_index_Some [OF idx] by auto
  have nth: "fst (m ! j) = i \<longleftrightarrow> j = idx" if "j < length m" for j
    using kv_index_nth [OF wf that] idx by (auto simp: key)
  assume len: "length cl = length m"
  with a have len1: "length cl1 = length m" and e: "e = OK \<or> e = - 1"
    by (auto simp: dfs_post_def)
  show "length (snd y) = length m \<and> (fst y = OK \<or> fst y = - 1) \<and>
     (fst y = OK \<longrightarrow>
        (\<forall>x \<in> set (i # rest). \<forall>c. (x, c) \<in> ?E\<^sup>* \<longrightarrow> (c, c) \<notin> ?E\<^sup>+) \<and>
        (\<forall>j < length m. snd y ! j \<longleftrightarrow> cl ! j \<or> (\<exists>x \<in> set (i # rest). (x, fst (m ! j)) \<in> ?E\<^sup>*)))"
  proof (cases "e < 0")
    case True
    with b len1 show ?thesis by simp
  next
    case False
    with e have e: "e = OK" by simp
    from a len e have nc: "(c, c) \<notin> ?E\<^sup>+" if "(i, x) \<in> ?E" "(x, c) \<in> ?E\<^sup>*" for x c
      using that by (auto simp: dfs_post_def succ)
    have nci: "(c, c) \<notin> ?E\<^sup>+" if "(i, c) \<in> ?E\<^sup>*" for c
      using that nc on_cycle_step [of i ?E] rtrancl_step_iff [of i c ?E] by metis
    have m1: "cl1 ! j \<longleftrightarrow> cl ! j \<or> (i, fst (m ! j)) \<in> ?E\<^sup>*" if "j < length m" for j
    proof -
      have "cl1 ! j \<longleftrightarrow> cl[idx := True] ! j \<or> (\<exists>x. (i, x) \<in> ?E \<and> (x, fst (m ! j)) \<in> ?E\<^sup>*)"
        using a len e that by (auto simp: dfs_post_def succ)
      moreover have "cl[idx := True] ! j \<longleftrightarrow> cl ! j \<or> fst (m ! j) = i"
        using that len nth [OF that] key by (auto simp: nth_list_update)
      ultimately show ?thesis using rtrancl_step_iff [of i "fst (m ! j)" ?E] by blast
    qed
    from b False len1 nci m1 show ?thesis by (auto simp: dfs_post_def)
  qed
qed

lemma checkListDFS_post:
  assumes "checkListDFS m ids cl = Some y"
  shows "distinct (kv_keys m) \<longrightarrow> dfs_post m ids cl y"
proof (rule checkListDFS.raw_induct [OF _ assms])
  fix f m ids cl y
  assume IH: "\<And>m ids cl y. f m ids cl = Some y \<Longrightarrow> distinct (kv_keys m) \<longrightarrow> dfs_post m ids cl y"
    and eq: "(case ids of [] \<Rightarrow> Some (OK, cl)
      | i # rest \<Rightarrow>
          (case kv_index m i of None \<Rightarrow> Some (- 1, cl)
           | Some idx \<Rightarrow> Option.bind (f m (mOutAdj (snd (m ! idx))) (cl[idx := True]))
                 (\<lambda>(e, cl). if e < 0 then Some (- 1, cl) else f m rest cl))) = Some y"
  show "distinct (kv_keys m) \<longrightarrow> dfs_post m ids cl y"
  proof (cases ids)
    case Nil
    with eq show ?thesis by (auto simp: dfs_post_def)
  next
    case (Cons i rest)
    show ?thesis
    proof (cases "kv_index m i")
      case None
      with eq Cons show ?thesis by (auto simp: dfs_post_def)
    next
      case (Some idx)
      from eq obtain e cl1 where r: "f m (mOutAdj (snd (m ! idx))) (cl[idx := True]) = Some (e, cl1)"
        and rest: "(if e < 0 then Some (- 1, cl1) else f m rest cl1) = Some y"
        unfolding Cons list.case Some option.case option_bind_eq_Some by auto
      show ?thesis unfolding Cons
        using dfs_post_Cons [OF Some] IH [OF r] IH [of m rest cl1 y] rest
        by (cases y) (auto split: if_splits)
    qed
  qed
qed

text \<open>
  The search ends when no cycle can be reached: the successor relation, restricted to what
  is reachable, is then well-founded.
\<close>

lemma checkListDFS_loop:
  assumes "distinct (kv_keys m)"
  shows "(\<And>i cl. i \<in> set xs \<Longrightarrow> length cl = length m \<Longrightarrow>
        \<exists>idx cl'. kv_index m i = Some idx \<and>
          checkListDFS m (mOutAdj (snd (m ! idx))) (cl[idx := True]) = Some (OK, cl')) \<Longrightarrow>
      length cl = length m \<Longrightarrow> \<exists>cl'. checkListDFS m xs cl = Some (OK, cl')"
proof (induction xs arbitrary: cl)
  case Nil
  then show ?case by (simp add: checkListDFS.simps)
next
  case (Cons i xs)
  from Cons.prems(1) [of i cl] Cons.prems(2) obtain idx cl1 where i: "kv_index m i = Some idx"
    and r: "checkListDFS m (mOutAdj (snd (m ! idx))) (cl[idx := True]) = Some (OK, cl1)" by auto
  have "length cl1 = length m"
    using checkListDFS_post [OF r] assms Cons.prems(2) by (simp add: dfs_post_def)
  with Cons obtain cl' where "checkListDFS m xs cl1 = Some (OK, cl')" by fastforce
  with i r show ?case by (simp add: checkListDFS.simps [of m "i # xs"])
qed

lemma checkListDFS_node:
  assumes adj: "adj_wf mInAdj mOutAdj m" and ids: "S \<subseteq> set (kv_keys m)"
    and wf: "wf ({(a, b) \<in> edge_rel mOutAdj m. \<exists>x \<in> S. (x, a) \<in> (edge_rel mOutAdj m)\<^sup>*}\<inverse>)"
    and "\<exists>x \<in> S. (x, i) \<in> (edge_rel mOutAdj m)\<^sup>*" and "length cl = length m"
  shows "\<exists>idx cl'. kv_index m i = Some idx \<and>
      checkListDFS m (mOutAdj (snd (m ! idx))) (cl[idx := True]) = Some (OK, cl')"
  using wf assms(4,5)
proof (induction i arbitrary: cl rule: wf_induct_rule)
  case (less i)
  let ?E = "edge_rel mOutAdj m"
  have "a \<in> set (kv_keys m)" if "(x, a) \<in> ?E\<^sup>*" "x \<in> S" for x a
    using that by (induction rule: rtrancl_induct) (use ids adj_wf_edge_keys(2) [OF adj] in auto)
  with less.prems obtain x idx where x: "x \<in> S" "(x, i) \<in> ?E\<^sup>*" and idx: "kv_index m i = Some idx"
    by (metis kv_index_None kv_get_None not_Some_eq)
  let ?out = "mOutAdj (snd (m ! idx))"
  have succ: "(i, b) \<in> ?E" if "b \<in> set ?out" for b
    using kv_index_Some [OF idx] that by (auto simp: edge_rel_def)
  have "distinct (kv_keys m)" using adj by (auto intro: kv_wf_distinct)
  then have "\<exists>cl'. checkListDFS m ?out (cl[idx := True]) = Some (OK, cl')"
  proof (rule checkListDFS_loop)
    fix b cl assume b: "b \<in> set ?out" and l: "length (cl :: bool list) = length m"
    have "(b, i) \<in> {(a, b) \<in> ?E. \<exists>x \<in> S. (x, a) \<in> ?E\<^sup>*}\<inverse>" using succ [OF b] x by auto
    moreover have "\<exists>x \<in> S. (x, b) \<in> ?E\<^sup>*"
      using x succ [OF b] by (meson rtrancl.rtrancl_into_rtrancl)
    ultimately show "\<exists>idx cl'. kv_index m b = Some idx \<and>
        checkListDFS m (mOutAdj (snd (m ! idx))) (cl[idx := True]) = Some (OK, cl')"
      using less.IH l by blast
  qed (simp add: less.prems)
  with idx show ?case by blast
qed

lemma checkListDFS_returns:
  assumes wf: "dag_wf m" and ids: "set ids \<subseteq> set (kv_keys m)"
    and nc: "\<And>x c. x \<in> set ids \<Longrightarrow> (x, c) \<in> (edge_rel mOutAdj m)\<^sup>* \<Longrightarrow> (c, c) \<notin> (edge_rel mOutAdj m)\<^sup>+"
    and len: "length cl = length m"
  shows "\<exists>cl'. checkListDFS m ids cl = Some (OK, cl')"
proof (rule checkListDFS_loop [OF _ _ len])
  have adj: "adj_wf mInAdj mOutAdj m" using wf by (simp add: dag_wf_def)
  then show "distinct (kv_keys m)" by (auto intro: kv_wf_distinct)
  have "wf ({(a, b) \<in> edge_rel mOutAdj m. \<exists>x \<in> set ids. (x, a) \<in> (edge_rel mOutAdj m)\<^sup>*}\<inverse>)"
    using adj_wf_finite [OF adj] nc by (rule no_cycle_wf)
  from checkListDFS_node [OF adj ids this]
  show "\<exists>idx cl'. kv_index m i = Some idx \<and>
      checkListDFS m (mOutAdj (snd (m ! idx))) (cl[idx := True]) = Some (OK, cl')"
    if "i \<in> set ids" "length cl = length m" for i cl
    using that by blast
qed


lemma flags_filter:
  assumes "length cl = length xs" and "\<And>j. j < length xs \<Longrightarrow> cl ! j \<longleftrightarrow> P (xs ! j)"
  shows "map fst (filter (\<lambda>(k, c). c) (zip xs cl)) = filter P xs"
    and "map fst (filter (\<lambda>(k, c). \<not> c) (zip xs cl)) = filter (\<lambda>k. \<not> P k) xs"
proof -
  have "cl = map P xs" using assms by (intro nth_equalityI) auto
  then have z: "zip xs cl = map (\<lambda>k. (k, P k)) xs" by (simp add: zip_map2 zip_same_conv_map)
  show "map fst (filter (\<lambda>(k, c). c) (zip xs cl)) = filter P xs"
    and "map fst (filter (\<lambda>(k, c). \<not> c) (zip xs cl)) = filter (\<lambda>k. \<not> P k) xs"
    unfolding z by (induction xs) auto
qed

lemma set_fold_insort_insert [simp]: "set (fold insort_insert xs ys) = set xs \<union> set ys"
  by (induction xs arbitrary: ys) auto

lemma getOrphanNodes_post:
  assumes wf: "dag_wf (mNodesVec d)" and "checkListDFS (mNodesVec d) [mRootId d]
      (replicate (length (mNodesVec d)) False) = Some (OK, cl)"
  shows "\<exists>os cs. getOrphanNodes d os0 cs0 = Some (OK, os, cs) \<and>
     set os = set os0 \<union> {k \<in> set (dag_ids d). (mRootId d, k) \<notin> (dag_edges d)\<^sup>*} \<and>
     set cs = set cs0 \<union> {k \<in> set (dag_ids d). (mRootId d, k) \<in> (dag_edges d)\<^sup>*}"
proof -
  let ?P = "\<lambda>k. (mRootId d, k) \<in> (dag_edges d)\<^sup>*"
  have "distinct (dag_ids d)" using wf by (auto simp: dag_wf_def intro: kv_wf_distinct)
  with checkListDFS_post [OF assms(2)] have "length cl = length (dag_ids d)"
    and "\<And>j. j < length (dag_ids d) \<Longrightarrow> cl ! j \<longleftrightarrow> ?P (dag_ids d ! j)"
    by (auto simp: dfs_post_def kv_keys_nth)
  note z = flags_filter [of cl "dag_ids d" ?P, OF this]
  have "getOrphanNodes d os0 cs0 = Some (OK, fold insort_insert (filter (\<lambda>k. \<not> ?P k) (dag_ids d)) os0,
      fold insort_insert (filter ?P (dag_ids d)) cs0)"
    unfolding getOrphanNodes_def assms(2) Let_def by (simp, simp only: z)
  then show ?thesis by auto
qed

lemma checkListDFS_known:
  assumes "checkListDFS m ids cl = Some y" and "adj_wf mInAdj mOutAdj m" and "set ids \<subseteq> set (kv_keys m)"
  shows "fst y = OK"
proof -
  have "adj_wf mInAdj mOutAdj m \<longrightarrow> set ids \<subseteq> set (kv_keys m) \<longrightarrow> fst y = OK"
  proof (rule checkListDFS.raw_induct [OF _ assms(1)])
    fix f m ids cl y
    assume IH: "\<And>m ids cl y. f m ids cl = Some y \<Longrightarrow>
        adj_wf mInAdj mOutAdj m \<longrightarrow> set ids \<subseteq> set (kv_keys m) \<longrightarrow> fst y = OK"
      and eq: "(case ids of [] \<Rightarrow> Some (OK, cl)
        | i # rest \<Rightarrow>
            (case kv_index m i of None \<Rightarrow> Some (- 1, cl)
             | Some idx \<Rightarrow> Option.bind (f m (mOutAdj (snd (m ! idx))) (cl[idx := True]))
                   (\<lambda>(e, cl). if e < 0 then Some (- 1, cl) else f m rest cl))) = Some y"
    show "adj_wf mInAdj mOutAdj m \<longrightarrow> set ids \<subseteq> set (kv_keys m) \<longrightarrow> fst y = OK"
    proof (intro impI)
      assume adj: "adj_wf mInAdj mOutAdj m" and ids: "set ids \<subseteq> set (kv_keys m)"
      show "fst y = OK"
      proof (cases ids)
        case Nil
        with eq show ?thesis by auto
      next
        case (Cons i rest)
        with ids obtain idx where idx: "kv_index m i = Some idx"
          by (metis kv_index_None kv_get_None not_Some_eq list.set_intros(1) subsetD)
        from eq obtain e cl1 where r: "f m (mOutAdj (snd (m ! idx))) (cl[idx := True]) = Some (e, cl1)"
          and rest: "(if e < 0 then Some (- 1, cl1) else f m rest cl1) = Some y"
          unfolding Cons list.case idx option.case option_bind_eq_Some by auto
        have "e = OK" 
          using IH [OF r] adj kv_index_Some [OF idx] adj_wf_out_keys [OF adj, of i "snd (m ! idx)"] by simp
        with rest IH [of m rest cl1 y] adj ids Cons show ?thesis by simp
      qed
    qed
  qed
  with assms show ?thesis by blast
qed

lemma subset_count:
  assumes "distinct xs" and "distinct ys"
  shows "length xs = length (filter (\<lambda>x. x \<notin> set ys) xs) + length ys \<longleftrightarrow> set ys \<subseteq> set xs"
proof -
  have len: "length xs = length (filter (\<lambda>x. x \<notin> set ys) xs) + length (filter (\<lambda>x. x \<in> set ys) xs)"
    using sum_length_filter_compl [of "\<lambda>x. x \<in> set ys" xs] by simp
  have c: "length (filter (\<lambda>x. x \<in> set ys) xs) = card (set xs \<inter> set ys)"
    using distinct_card [of "filter (\<lambda>x. x \<in> set ys) xs"] assms(1)
    by (simp add: Int_def conj_commute)
  have "card (set xs \<inter> set ys) = card (set ys) \<longleftrightarrow> set ys \<subseteq> set xs"
    by (metis Int_absorb1 Int_lower2 List.finite_set card_subset_eq inf_commute le_iff_inf)
  with len c distinct_card [OF assms(2)] show ?thesis by simp
qed

section \<open>Properties\<close>

text \<open>A graph the witnesses use: 1 to 2 to 3, 1 to 3, and 4 to 3, root 1.\<close>

definition ex_dag :: PipelineDAG where
  "ex_dag =
     (let add = \<lambda>i d. snd (addNode d i (i * 10)); edge = \<lambda>a b d. snd (addEdge d a b)
      in snd (setRootNode (edge 4 3 (edge 1 3 (edge 2 3 (edge 1 2 (add 4 (add 3 (add 2 (add 1 dag_create)))))))) 1))"

lemma ex_dag_simp: "ex_dag = \<lparr>mRootId = 1,
    mNodesVec = [(1, \<lparr>mNode = \<lparr>obj_id = 1, obj_val = 10\<rparr>, mInAdj = [], mOutAdj = [2, 3]\<rparr>),
                 (2, \<lparr>mNode = \<lparr>obj_id = 2, obj_val = 20\<rparr>, mInAdj = [1], mOutAdj = [3]\<rparr>),
                 (3, \<lparr>mNode = \<lparr>obj_id = 3, obj_val = 30\<rparr>, mInAdj = [1, 2, 4], mOutAdj = []\<rparr>),
                 (4, \<lparr>mNode = \<lparr>obj_id = 4, obj_val = 40\<rparr>, mInAdj = [], mOutAdj = [3]\<rparr>)],
    mToposort = []\<rparr>"
  by code_simp

lemma ex_dag_reach: "dag_reach ex_dag"
  unfolding ex_dag_def Let_def
  by (intro dag_reach.setRootNode dag_reach.addEdge dag_reach.addNode dag_reach.create)
    (simp_all add: dag_create_def addNode_def)

definition ex_cycle :: PipelineDAG where
  "ex_cycle = snd (addEdge ex_dag 3 1)"

lemma ex_dag_edges: "dag_edges ex_dag = {(1, 2), (1, 3), (2, 3), (4, 3)}"
  unfolding ex_dag_simp edge_rel_def by (auto split: if_splits)

lemma ex_dag_acyclic: "acyclic (dag_edges ex_dag)"
  by (rule acyclicI_order [where f = "\<lambda>x. if x = 4 then 0 else - x"]) (auto simp: ex_dag_edges)

lemma ex_cycle_reach: "dag_reach ex_cycle"
  unfolding ex_cycle_def by (intro dag_reach.addEdge ex_dag_reach)

lemma ex_cycle_edges: "dag_edges ex_cycle = insert (3, 1) (dag_edges ex_dag)"
  unfolding ex_cycle_def by (rule addEdge_present(3)) (use dag_reach_wf [OF ex_dag_reach] in \<open>simp_all add: ex_dag_simp\<close>)

lemma ex_cycle_cyclic: "(1, 1) \<in> (dag_edges ex_cycle)\<^sup>+"
  unfolding ex_cycle_edges ex_dag_edges
  by (rule trancl_into_trancl [of _ 3]) auto

lemma evaluateToposort_total:
  assumes "dag_wf m"
  shows "\<exists>e ts. evaluateToposort m = Some (e, ts) \<and> (e = OK \<longleftrightarrow> acyclic (edge_rel mOutAdj m)) \<and>
    (e = OK \<longrightarrow> distinct (map obj_id ts) \<and> obj_id ` set ts = set (kv_keys m) \<and>
           succs_behind (edge_rel mOutAdj m) (map obj_id ts) \<and>
           (\<forall>n \<in> set ts. \<exists>k na. map_of m k = Some na \<and> mNode na = n)) \<and>
    (e \<noteq> OK \<longrightarrow> e = UNKNOWN_ERROR \<and> ts = [])"
proof (rule evaluateToposort_post [OF assms], goal_cases)
  case (1 e ts)
  then show ?case by (intro exI [of _ e] exI [of _ ts]) simp
qed

lemma toposort_nodes:
  assumes wf: "dag_wf m" and ids: "obj_id ` set ts = set (kv_keys m)"
    and src: "\<forall>n \<in> set ts. \<exists>k na. map_of m k = Some na \<and> mNode na = n"
  shows "set ts = mNode ` snd ` set m"
proof
  show "set ts \<subseteq> mNode ` snd ` set m"
  proof
    fix t assume "t \<in> set ts"
    with src obtain k na where "map_of m k = Some na" "mNode na = t" by blast
    then show "t \<in> mNode ` snd ` set m" by (force dest: map_of_SomeD)
  qed
  have "mNode n \<in> set ts" if "(k, n) \<in> set m" for k n
  proof -
    have "kv_wf m" using wf by (auto simp: dag_wf_def)
    then have "distinct (map fst m)" by (auto simp: kv_keys_def dest: kv_wf_distinct)
    with that have n: "map_of m k = Some n" by simp
    then have "obj_id (mNode n) \<in> obj_id ` set ts"
      using ids dag_wf_id [OF wf n] kv_get_in_keys [OF n] by simp
    then obtain t where t: "t \<in> set ts" "obj_id t = obj_id (mNode n)" by auto
    with src obtain k' na where na: "map_of m k' = Some na" "mNode na = t" by blast
    with t n dag_wf_id [OF wf na(1)] dag_wf_id [OF wf n] have "na = n" by simp
    with na(2) have "mNode n = t" by simp
    with t(1) show ?thesis by simp
  qed
  then show "mNode ` snd ` set m \<subseteq> set ts" by auto
qed

text \<open>C4: on every graph a client can build that has no cycle, the topological sort
  succeeds and lists each node once, every node before the nodes it has an edge to.\<close>

theorem getTopological_acyclic:
  assumes "dag_reach d" and "acyclic (dag_edges d)"
  shows "\<exists>ts. getTopological d = Some (OK, ts) \<and> distinct (map obj_id ts) \<and>
     obj_id ` set ts = set (dag_ids d) \<and> set ts = mNode ` snd ` set (mNodesVec d) \<and>
     (\<forall>i j. i < length ts \<and> j < length ts \<and> (obj_id (ts ! i), obj_id (ts ! j)) \<in> dag_edges d \<longrightarrow> i < j)"
proof -
  have wf: "dag_wf (mNodesVec d)" using assms(1) by (rule dag_reach_wf)
  from evaluateToposort_total [OF this] assms(2) obtain ts where
    r: "evaluateToposort (mNodesVec d) = Some (OK, ts)"
    and dist: "distinct (map obj_id ts)" and ids: "obj_id ` set ts = set (dag_ids d)"
    and behind: "succs_behind (dag_edges d) (map obj_id ts)"
    and src: "\<forall>n \<in> set ts. \<exists>k na. map_of (mNodesVec d) k = Some na \<and> mNode na = n"
    by blast
  have "i < j" if "i < length ts" "j < length ts" "(obj_id (ts ! i), obj_id (ts ! j)) \<in> dag_edges d" for i j
  proof -
    have "i < length (map obj_id ts)" "(map obj_id ts ! i, obj_id (ts ! j)) \<in> dag_edges d"
      using that by simp_all
    from succs_behind_nth [OF behind dist this] obtain l where
      l: "i < l" "l < length ts" "obj_id (ts ! l) = obj_id (ts ! j)" by auto
    with nth_eq_iff_index_eq [OF dist, of l j] that(2) show ?thesis by simp
  qed
  then show ?thesis
    using toposort_nodes [OF wf ids src] dist ids
    unfolding getTopological_def r by (intro exI [of _ ts]) simp
qed

theorem getTopological_acyclic_witness:
  "\<exists>ts. getTopological ex_dag = Some (OK, ts) \<and> obj_id ` set ts = {1, 2, 3, 4}"
  using getTopological_acyclic [OF ex_dag_reach ex_dag_acyclic]
proof (elim exE conjE, goal_cases)
  case (1 ts)
  have "set (dag_ids ex_dag) = {1, 2, 3, 4}" by (simp add: ex_dag_simp)
  with 1(1,3) show ?case by (intro exI [of _ ts]) simp
qed

text \<open>C21: on every graph a client can build that has a cycle, the topological sort returns
  the failure code with an empty list, and the cached sort is empty too.\<close>

theorem getTopological_cyclic:
  assumes "dag_reach d" and "\<not> acyclic (dag_edges d)"
  shows "getTopological d = Some (- 1, []) \<and>
     (mToposort d = [] \<longrightarrow> (\<exists>d'. getToposort d = Some ([], d')))"
proof -
  from evaluateToposort_total [OF dag_reach_wf [OF assms(1)]] obtain e ts where
    "evaluateToposort (mNodesVec d) = Some (e, ts)" "e = OK \<longleftrightarrow> acyclic (dag_edges d)"
    "e \<noteq> OK \<longrightarrow> ts = []" by auto
  with assms(2) have "e \<noteq> OK" "evaluateToposort (mNodesVec d) = Some (e, [])" by simp_all
  then show ?thesis by (auto simp: getTopological_def getToposort_def)
qed

theorem getTopological_cyclic_witness: "getTopological ex_cycle = Some (- 1, [])"
  using getTopological_cyclic [OF ex_cycle_reach] ex_cycle_cyclic by (auto simp: acyclic_def)

text \<open>C14: every graph built by the operations in which a node is only added under an id that is not in
  the graph has its nodes sorted by id, adjacency lists that agree in both directions and name
  nodes of the graph, and a root that is none or a node. Adding a node again under its id keeps the
  others' lists and clears its own, so that they no longer agree.\<close>

theorem dag_reach_invariant:
  assumes "dag_reach d"
  shows "sorted_wrt (<) (dag_ids d) \<and>
     (\<forall>a b na nb. map_of (mNodesVec d) a = Some na \<and> map_of (mNodesVec d) b = Some nb \<longrightarrow>
        (b \<in> set (mOutAdj na) \<longleftrightarrow> a \<in> set (mInAdj nb))) \<and>
     (\<forall>a na. map_of (mNodesVec d) a = Some na \<longrightarrow>
        obj_id (mNode na) = a \<and> set (mOutAdj na) \<union> set (mInAdj na) \<subseteq> set (dag_ids d)) \<and>
     (mRootId d = BAD_ID \<or> mRootId d \<in> set (dag_ids d))"
proof -
  have inv: "dag_inv d" using assms by (rule dag_reach_inv)
  then have adj: "adj_wf mInAdj mOutAdj (mNodesVec d)" by (simp add: dag_inv_def dag_wf_def)
  have "b \<in> set (mOutAdj na) \<longleftrightarrow> a \<in> set (mInAdj nb)"
    if "map_of (mNodesVec d) a = Some na" "map_of (mNodesVec d) b = Some nb" for a b na nb
    using adj edge_rel_iff [OF that(1), of b mOutAdj] edge_rel_iff [OF that(2), of a mInAdj]
    by (auto simp: adj_wf_def)
  with inv adj adj_wf_out_keys [OF adj] adj_wf_in_keys [OF adj] show ?thesis
    by (auto simp: dag_inv_def dag_wf_def adj_wf_def kv_wf_def)
qed

theorem dag_reach_invariant_witness:
  "sorted_wrt (<) (dag_ids ex_cycle) \<and> (mRootId ex_cycle = BAD_ID \<or> mRootId ex_cycle \<in> set (dag_ids ex_cycle))"
  using dag_reach_invariant [OF ex_cycle_reach] by blast


text \<open>C20: cloning a subset of the nodes of a graph gives the induced subgraph with the same root. When
  the root or an id of the set is missing it gives nothing, unless there are more ids than nodes:
  then the size of the vector for the other nodes wraps around, which is a fault. The graph is one
  built without adding a node twice.\<close>

theorem clone_ids_induced:
  assumes "dag_reach d" and "sorted_wrt (<) ids"
  shows "if length (dag_ids d) < length ids then clone_ids d ids = None
     else if set ids \<subseteq> set (dag_ids d) \<and> (mRootId d \<in> set (dag_ids d) \<longrightarrow> mRootId d \<in> set ids)
     then \<exists>d'. clone_ids d ids = Some (Some d') \<and> set (dag_ids d') = set ids \<and> mRootId d' = mRootId d \<and>
            dag_edges d' = {(a, b) \<in> dag_edges d. a \<in> set ids \<and> b \<in> set ids} \<and> dag_reach d'
     else clone_ids d ids = Some None"
proof -
  let ?v = "filter (\<lambda>i. i \<notin> set ids) (dag_ids d)"
  have inv: "dag_inv d" using assms(1) by (rule dag_reach_inv)
  have wf: "dag_wf (mNodesVec (clone d))" using inv by (simp add: clone_def dag_inv_def)
  have ids: "distinct ids" using assms(2) by (rule sorted_wrt_less_distinct)
  have dist: "distinct (dag_ids d)" using inv by (auto simp: dag_inv_def dag_wf_def intro: kv_wf_distinct)
  have sub: "set ?v \<subseteq> set (dag_ids (clone d))" by (auto simp: clone_def)
  have cnt: "length (mNodesVec d) = length ?v + length ids \<longleftrightarrow> set ids \<subseteq> set (dag_ids d)"
    by (rule subset_count [OF dist ids, simplified])
  from removeNodes_post [OF wf sub distinct_filter [OF dist]] obtain d' where
    d': "removeNodes ?v (clone d) = Some d'" "dag_wf (mNodesVec d')"
    "dag_ids d' = filter (\<lambda>k. k \<notin> set ?v) (dag_ids (clone d))"
    "dag_edges d' = {(a, b) \<in> dag_edges (clone d). a \<notin> set ?v \<and> b \<notin> set ?v}"
    "mRootId d' = (if mRootId (clone d) \<in> set ?v then BAD_ID else mRootId (clone d))" .
  have len: "length (dag_ids d) = length (mNodesVec d)" by (simp add: kv_keys_def)
  show ?thesis
  proof (cases "length (mNodesVec d) < length ids"; cases "set ids \<subseteq> set (dag_ids d) \<and> mRootId d \<notin> set ?v")
    assume "length (mNodesVec d) < length ids"
    then show ?thesis "?thesis" using len by (simp_all add: clone_ids_def Let_def)
  next
    assume small: "\<not> length (mNodesVec d) < length ids" and True: "set ids \<subseteq> set (dag_ids d) \<and> mRootId d \<notin> set ?v"
    have c: "clone_ids d ids = Some (Some d')" using True d'(1) cnt small by (auto simp: clone_ids_def Let_def)
    have keys: "a \<in> set (dag_ids d)" "b \<in> set (dag_ids d)" if "(a, b) \<in> dag_edges d" for a b
      using adj_wf_edge_keys [OF dag_wf_adj] inv that by (auto simp: dag_inv_def)
    have "set (dag_ids d') = set ids" using True d'(3) by (auto simp: clone_def)
    moreover have "mRootId d' = mRootId d" using True d'(5) by (auto simp: clone_def)
    moreover have "dag_edges d' = {(a, b) \<in> dag_edges d. a \<in> set ids \<and> b \<in> set ids}"
      using d'(4) keys by (auto simp: clone_def)
    ultimately show ?thesis
      using True c small len dag_reach.clone_ids [OF assms(1) c] by auto
  next
    assume small: "\<not> length (mNodesVec d) < length ids" and False: "\<not> (set ids \<subseteq> set (dag_ids d) \<and> mRootId d \<notin> set ?v)"
    then have "clone_ids d ids = Some None" using cnt by (auto simp: clone_ids_def Let_def)
    with False small len show ?thesis by auto
  qed
qed

theorem clone_ids_induced_witness:
  "(\<exists>d'. clone_ids ex_dag [1, 3] = Some (Some d') \<and> dag_edges d' = {(1, 3)} \<and> mRootId d' = 1) \<and>
   clone_ids ex_dag [1, 3, 9] = Some None \<and> clone_ids ex_dag [1, 2, 3, 4, 9] = None"
proof -
  have e: "set (dag_ids ex_dag) = {1, 2, 3, 4}" "length (dag_ids ex_dag) = 4" "mRootId ex_dag = 1" by (simp_all add: ex_dag_simp)
  moreover have "{(a, b) \<in> dag_edges ex_dag. a \<in> set [1, 3] \<and> b \<in> set [1, 3 :: int]} = {(1, 3)}"
    unfolding ex_dag_edges by auto
  ultimately have "\<exists>d'. clone_ids ex_dag [1, 3] = Some (Some d') \<and> dag_edges d' = {(1, 3)} \<and> mRootId d' = 1"
    using clone_ids_induced [OF ex_dag_reach, of "[1, 3]"] by auto
  moreover have "clone_ids ex_dag [1, 3, 9] = Some None"
    using clone_ids_induced [OF ex_dag_reach, of "[1, 3, 9]"] e by simp
  moreover have "clone_ids ex_dag [1, 2, 3, 4, 9] = None"
    using clone_ids_induced [OF ex_dag_reach, of "[1, 2, 3, 4, 9]"] e by simp
  ultimately show ?thesis by blast
qed

text \<open>C39: when no cycle can be reached from the root, \<open>getOrphanNodes\<close> splits the node ids
  into those the root reaches and those it does not.\<close>

theorem getOrphanNodes_split:
  assumes "dag_reach d" and "mRootId d \<in> set (dag_ids d)"
    and "\<forall>c. (mRootId d, c) \<in> (dag_edges d)\<^sup>* \<longrightarrow> (c, c) \<notin> (dag_edges d)\<^sup>+"
  shows "\<exists>os cs. getOrphanNodes d [] [] = Some (OK, os, cs) \<and>
     set os = {k \<in> set (dag_ids d). (mRootId d, k) \<notin> (dag_edges d)\<^sup>*} \<and>
     set cs = {k \<in> set (dag_ids d). (mRootId d, k) \<in> (dag_edges d)\<^sup>*}"
proof -
  have wf: "dag_wf (mNodesVec d)" using assms(1) by (rule dag_reach_wf)
  have "\<exists>cl. checkListDFS (mNodesVec d) [mRootId d] (replicate (length (mNodesVec d)) False) = Some (OK, cl)"
    by (rule checkListDFS_returns [OF wf]) (use assms in auto)
  then obtain cl where "checkListDFS (mNodesVec d) [mRootId d] (replicate (length (mNodesVec d)) False) = Some (OK, cl)" ..
  from getOrphanNodes_post [OF wf this, of "[]" "[]"] show ?thesis by simp
qed

theorem getOrphanNodes_split_witness:
  "\<exists>os cs. getOrphanNodes ex_dag [] [] = Some (OK, os, cs) \<and> set os = {4} \<and> set cs = {1, 2, 3}"
proof -
  have root: "mRootId ex_dag = 1" "set (dag_ids ex_dag) = {1, 2, 3, 4}" by (simp_all add: ex_dag_simp)
  have reach: "(1, k) \<in> (dag_edges ex_dag)\<^sup>* \<longleftrightarrow> k = 1 \<or> k = 2 \<or> k = 3" for k
  proof
    show "(1, k) \<in> (dag_edges ex_dag)\<^sup>* \<Longrightarrow> k = 1 \<or> k = 2 \<or> k = 3"
      by (induction rule: rtrancl_induct) (auto simp: ex_dag_edges)
  qed (auto simp: ex_dag_edges)
  have "\<forall>c. (c, c) \<notin> (dag_edges ex_dag)\<^sup>+" using ex_dag_acyclic by (simp add: acyclic_def)
  with getOrphanNodes_split [OF ex_dag_reach] root reach have
    "\<exists>os cs. getOrphanNodes ex_dag [] [] = Some (OK, os, cs) \<and>
       set os = {k \<in> {1, 2, 3, 4}. \<not> (k = 1 \<or> k = 2 \<or> k = 3)} \<and>
       set cs = {k \<in> {1, 2, 3, 4}. k = 1 \<or> k = 2 \<or> k = 3}"
    by simp
  moreover have "{k \<in> {1, 2, 3, 4}. \<not> (k = 1 \<or> k = 2 \<or> k = 3)} = {4 :: int}" by auto
  moreover have "{k \<in> {1, 2, 3, 4}. k = 1 \<or> k = 2 \<or> k = 3} = {1, 2, 3 :: int}" by auto
  ultimately show ?thesis by metis
qed

text \<open>When a cycle can be reached from the root, the recursion of \<open>checkListDFS\<close> does
  not end: no operation of the graph rejects an edge that closes a cycle, and the search
  has no check for a node it has visited.\<close>

theorem getOrphanNodes_diverges:
  assumes "dag_reach d" and "mRootId d \<in> set (dag_ids d)"
    and "(mRootId d, c) \<in> (dag_edges d)\<^sup>*" and "(c, c) \<in> (dag_edges d)\<^sup>+"
  shows "getOrphanNodes d os cs = None"
proof -
  have adj: "adj_wf mInAdj mOutAdj (mNodesVec d)" by (rule dag_wf_adj [OF dag_reach_wf [OF assms(1)]])
  have "checkListDFS (mNodesVec d) [mRootId d] (replicate (length (mNodesVec d)) False) = None"
    using checkListDFS_known [OF _ adj] checkListDFS_post [of "mNodesVec d" "[mRootId d]"] assms(2-4)
      kv_wf_distinct [OF adj_wf_kv [OF adj]]
    by (cases "checkListDFS (mNodesVec d) [mRootId d] (replicate (length (mNodesVec d)) False)")
      (fastforce simp: dfs_post_def)+
  then show ?thesis by (simp add: getOrphanNodes_def)
qed

theorem getOrphanNodes_diverges_witness: "getOrphanNodes ex_cycle [] [] = None"
proof (rule getOrphanNodes_diverges [OF ex_cycle_reach])
  have "mRootId ex_cycle = 1" "1 \<in> set (dag_ids ex_cycle)"
    by (simp_all add: ex_cycle_def ex_dag_simp addEdge_def)
  then show "mRootId ex_cycle \<in> set (dag_ids ex_cycle)" "(mRootId ex_cycle, 1) \<in> (dag_edges ex_cycle)\<^sup>*" by simp_all
qed (rule ex_cycle_cyclic)

text \<open>Once the cached sort has been computed, adding a node does not change it:
  \<open>getToposort\<close> then returns a sort in which the new node is missing.\<close>

theorem getToposort_stale:
  assumes "dag_reach d" and "acyclic (dag_edges d)" and "mToposort d = []"
    and "mNodesVec d \<noteq> []" and "i \<notin> set (dag_ids d)"
  shows "\<exists>ts d1. getToposort d = Some (ts, d1) \<and> obj_id ` set ts = set (dag_ids d) \<and>
     (\<exists>d2. addNode d1 i val = (OK, d2) \<and> i \<in> set (dag_ids d2) \<and>
        getToposort d2 = Some (ts, d2) \<and> i \<notin> obj_id ` set ts)"
proof -
  from evaluateToposort_total [OF dag_reach_wf [OF assms(1)]] assms(2) obtain ts where
    r: "evaluateToposort (mNodesVec d) = Some (OK, ts)" and ids: "obj_id ` set ts = set (dag_ids d)"
    by blast
  from ids assms(4) have "ts \<noteq> []" by auto
  with r ids assms(3,5) show ?thesis
    by (intro exI [of _ ts] exI [of _ "d\<lparr>mToposort := ts\<rparr>"]) (auto simp: getToposort_def addNode_def)
qed

theorem getToposort_stale_witness:
  "\<exists>ts d1 d2. getToposort ex_dag = Some (ts, d1) \<and> addNode d1 9 0 = (OK, d2) \<and>
     getToposort d2 = Some (ts, d2) \<and> 9 \<notin> obj_id ` set ts"
proof -
  have "mToposort ex_dag = []" "mNodesVec ex_dag \<noteq> []" "9 \<notin> set (dag_ids ex_dag)"
    by (simp_all add: ex_dag_simp)
  from getToposort_stale [OF ex_dag_reach ex_dag_acyclic this, of 0] show ?thesis by auto
qed

text \<open>Adding a node under the id of a present node clears the adjacency of that node
  only, so an edge of it stays recorded at its other end.\<close>

theorem addNode_present_breaks_mirror:
  assumes "dag_reach d" and "(a, b) \<in> dag_edges d" and "a \<noteq> b"
  shows "\<exists>d' nb. addNode d a val = (OK, d') \<and> (a, b) \<notin> dag_edges d' \<and>
     map_of (mNodesVec d') b = Some nb \<and> a \<in> set (mInAdj nb)"
proof -
  have adj: "adj_wf mInAdj mOutAdj (mNodesVec d)" by (rule dag_wf_adj [OF dag_reach_wf [OF assms(1)]])
  then have "(b, a) \<in> edge_rel mInAdj (mNodesVec d)" using assms(2) by (simp add: adj_wf_def)
  then obtain nb where "map_of (mNodesVec d) b = Some nb" "a \<in> set (mInAdj nb)"
    by (auto simp: edge_rel_def)
  with assms(3) show ?thesis by (auto simp: addNode_def edge_rel_def)
qed

theorem addNode_present_breaks_mirror_witness:
  "\<exists>d' nb. addNode ex_dag 1 10 = (OK, d') \<and> (1, 2) \<notin> dag_edges d' \<and>
     map_of (mNodesVec d') 2 = Some nb \<and> 1 \<in> set (mInAdj nb)"
  using addNode_present_breaks_mirror [OF ex_dag_reach, of 1 2 10] by (simp add: ex_dag_edges)

text \<open>\<open>getNodesAndPathsForNewDAG\<close> reports success on the chain 0 to 2 to 1 with the
  orphans 1 and 2, but the edge from 2 to 1 it copied first is gone: the path of 1 was
  copied over 2, and 2 was then added a second time.\<close>

definition ex_chain :: PipelineDAG where
  "ex_chain = \<lparr>mRootId = 0,
     mNodesVec = [(0, \<lparr>mNode = \<lparr>obj_id = 0, obj_val = 0\<rparr>, mInAdj = [], mOutAdj = [2]\<rparr>),
                  (1, \<lparr>mNode = \<lparr>obj_id = 1, obj_val = 0\<rparr>, mInAdj = [2], mOutAdj = []\<rparr>),
                  (2, \<lparr>mNode = \<lparr>obj_id = 2, obj_val = 0\<rparr>, mInAdj = [0], mOutAdj = [1]\<rparr>)],
     mToposort = []\<rparr>"

theorem getNodesAndPaths_loses_edge:
  "\<exists>cl d'. getNodesAndPathsForNewDAG ex_chain [1, 2] [0] (snd (addNode dag_create 0 0)) = Some (OK, cl, d') \<and>
     dag_ids d' = [0, 1, 2] \<and> getEdges d' = [(0, 2)]"
  by (simp add: getNodesAndPathsForNewDAG_def ex_chain_def findPathBFS_def bfs_loop.simps bfs_path.simps
      addNode_def addEdge_def dag_create_def kv_edit_def getEdges_def insort_insert_key_def)

end
