(* ===== verification/Sync.thy ===== *)
theory Sync
  imports Prelude
begin

text \<open>
  The fence and timeline objects of \<open>mtkcam/utils/std/Sync.cpp\<close>: thin objects around a
  descriptor of the kernel's sync framework, where -1 is the descriptor of no fence.

  The kernel is a parameter (\<open>sync_kernel\<close>): its calls thread a kernel state, and a
  failing call returns -1 and leaves an error number. What the users of fences rely on is
  stated by \<open>sync_laws\<close>: \<open>dup\<close> gives a descriptor of the same fence and \<open>sync_merge\<close> one of a
  fence that signals when both have, or the call fails and gives -1. The meaning of a
  descriptor is the set of events its fence waits for; a count of the calls that have failed so far
  says when the results are exact. Closing descriptors (the destructors)
  and fence names are not modelled.
\<close>

section \<open>The kernel\<close>

record 'k sync_kernel =
  k_dup :: "int \<Rightarrow> 'k \<Rightarrow> int \<times> 'k"
  k_merge :: "int \<Rightarrow> int \<Rightarrow> 'k \<Rightarrow> int \<times> 'k"
  k_wait :: "int \<Rightarrow> int \<Rightarrow> 'k \<Rightarrow> int \<times> 'k"
  k_errno :: "'k \<Rightarrow> int"
  k_fence_info :: "int \<Rightarrow> 'k \<Rightarrow> (int \<times> 64 word list) option"
  k_timeline_create :: "'k \<Rightarrow> int \<times> 'k"
  k_timeline_inc :: "int \<Rightarrow> nat \<Rightarrow> 'k \<Rightarrow> int \<times> 'k"
  k_fence_create :: "int \<Rightarrow> string \<Rightarrow> nat \<Rightarrow> 'k \<Rightarrow> int \<times> 'k"

abbreviation (input) ETIME :: int where "ETIME \<equiv> 62"
abbreviation (input) TIMEOUT_NEVER :: int where "TIMEOUT_NEVER \<equiv> - 1"
abbreviation (input) INT64_MAX :: int where "INT64_MAX \<equiv> 9223372036854775807"

section \<open>Fences\<close>

record FenceImp =
  mFenceFd :: int

type_synonym IFence = FenceImp

definition fence_create :: "int \<Rightarrow> IFence" where
  "fence_create fenceFd = \<lparr>mFenceFd = fenceFd\<rparr>"

definition NO_FENCE :: IFence where
  "NO_FENCE = fence_create (- 1)"

definition isValid :: "IFence \<Rightarrow> bool" where
  "isValid f \<longleftrightarrow> mFenceFd f \<noteq> - 1"

definition getFd :: "IFence \<Rightarrow> int" where
  "getFd f = mFenceFd f"

definition fence_merge :: "'k sync_kernel \<Rightarrow> IFence \<Rightarrow> IFence \<Rightarrow> 'k \<Rightarrow> IFence \<times> 'k" where
  "fence_merge K f1 f2 k =
     (if \<not> isValid f1 \<and> \<not> isValid f2 then (NO_FENCE, k)
      else
        let (result, k') =
              (if isValid f1 \<and> isValid f2 then k_merge K (getFd f1) (getFd f2) k
               else if isValid f1 then k_merge K (getFd f1) (getFd f1) k
               else k_merge K (getFd f2) (getFd f2) k)
        in if result = - 1 then (NO_FENCE, k') else (fence_create result, k'))"

definition fence_dup :: "'k sync_kernel \<Rightarrow> IFence \<Rightarrow> 'k \<Rightarrow> int \<times> 'k" where
  "fence_dup K f k = k_dup K (mFenceFd f) k"

definition fence_wait :: "'k sync_kernel \<Rightarrow> IFence \<Rightarrow> int \<Rightarrow> 'k \<Rightarrow> MERROR \<times> 'k" where
  "fence_wait K f timeoutMs k =
     (if mFenceFd f = - 1 then (OK, k)
      else let (err, k') = k_wait K (mFenceFd f) timeoutMs k
           in (if err < 0 then - k_errno K k' else OK, k'))"

definition fence_waitForever :: "'k sync_kernel \<Rightarrow> IFence \<Rightarrow> 'k \<Rightarrow> MERROR \<times> 'k" where
  "fence_waitForever K f k =
     (if mFenceFd f = - 1 then (OK, k)
      else let (err, k1) = k_wait K (mFenceFd f) 3000 k;
               (err, k2) = (if err < 0 \<and> k_errno K k1 = ETIME
                            then k_wait K (mFenceFd f) TIMEOUT_NEVER k1 else (err, k1))
           in (if err < 0 then - k_errno K k2 else OK, k2))"

text \<open>The latest of the time stamps of the fence's points.\<close>

definition fence_getSignalTime :: "'k sync_kernel \<Rightarrow> IFence \<Rightarrow> 'k \<Rightarrow> int" where
  "fence_getSignalTime K f k =
     (if mFenceFd f = - 1 then - 1
      else case k_fence_info K (mFenceFd f) k of
        None \<Rightarrow> - 1
      | Some (status, pts) \<Rightarrow>
          if status \<noteq> 1 then INT64_MAX
          else sint (fold (\<lambda>p timestamp. if p > timestamp then p else timestamp) pts 0))"

section \<open>Timelines\<close>

record TimelineImp =
  mTimelineFd :: int
  mTimelineName :: string

definition timeline_create :: "'k sync_kernel \<Rightarrow> string \<Rightarrow> 'k \<Rightarrow> TimelineImp option \<times> 'k" where
  "timeline_create K name k =
     (let (timelineFd, k') = k_timeline_create K k
      in if timelineFd < 0 then (None, k')
         else (Some \<lparr>mTimelineFd = timelineFd, mTimelineName = name\<rparr>, k'))"

definition timeline_inc :: "'k sync_kernel \<Rightarrow> TimelineImp \<Rightarrow> nat \<Rightarrow> 'k \<Rightarrow> MERROR \<times> 'k" where
  "timeline_inc K t count k =
     (let (err, k') = k_timeline_inc K (mTimelineFd t) count k
      in if err < 0 then (- 1, k') else (OK, k'))"

text \<open>\<open>None\<close> is the null name.\<close>

definition timeline_createFence ::
    "'k sync_kernel \<Rightarrow> TimelineImp \<Rightarrow> string option \<Rightarrow> nat \<Rightarrow> 'k \<Rightarrow> int \<times> 'k" where
  "timeline_createFence K t szFenceName value k =
     (case szFenceName of
        None \<Rightarrow> (- 1, k)
      | Some name \<Rightarrow>
          let (fd, k') = k_fence_create K (mTimelineFd t) name value k
          in if fd < 0 then (- 1, k') else (fd, k'))"

section \<open>What the kernel promises\<close>

text \<open>
  \<open>sem k fd\<close> is the set of events the fence of descriptor \<open>fd\<close> waits for, \<open>None\<close> when
  \<open>fd\<close> is not open.
\<close>

type_synonym ('k, 'e) fence_sem = "'k \<Rightarrow> int \<Rightarrow> 'e set option"

definition sem_extends :: "('k, 'e) fence_sem \<Rightarrow> 'k \<Rightarrow> 'k \<Rightarrow> bool" where
  "sem_extends sem k k' \<longleftrightarrow> (\<forall>fd S. sem k fd = Some S \<longrightarrow> sem k' fd = Some S)"

text \<open>\<open>fails k\<close> counts the calls on open descriptors that have failed.\<close>

definition opens :: "('k, 'e) fence_sem \<Rightarrow> ('k \<Rightarrow> nat) \<Rightarrow> 'e set \<Rightarrow> 'k \<Rightarrow> int \<times> 'k \<Rightarrow> bool" where
  "opens sem fails S k r \<longleftrightarrow> sem_extends sem k (snd r) \<and>
     (sem (snd r) (fst r) = Some S \<and> fails (snd r) = fails k \<or> fst r = - 1 \<and> fails k < fails (snd r))"

definition sync_laws :: "'k sync_kernel \<Rightarrow> ('k, 'e) fence_sem \<Rightarrow> ('k \<Rightarrow> nat) \<Rightarrow> bool" where
  "sync_laws K sem fails \<longleftrightarrow>
     (\<forall>k fd S. sem k fd = Some S \<longrightarrow> 0 \<le> fd) \<and>
     (\<forall>k fd S. sem k fd = Some S \<longrightarrow> opens sem fails S k (k_dup K fd k)) \<and>
     (\<forall>k fd. sem k fd = None \<longrightarrow> k_dup K fd k = (- 1, k)) \<and>
     (\<forall>k a b S T. sem k a = Some S \<and> sem k b = Some T \<longrightarrow> opens sem fails (S \<union> T) k (k_merge K a b k))"

text \<open>
  What the calls from \<open>k\<close> to \<open>k'\<close> leave of the events \<open>X\<close>: none is added, and none is lost unless a call failed.
\<close>

definition keeps_events :: "('k \<Rightarrow> nat) \<Rightarrow> 'k \<Rightarrow> 'k \<Rightarrow> 'e set \<Rightarrow> 'e set \<Rightarrow> bool" where
  "keeps_events fails k k' X D \<longleftrightarrow> D \<subseteq> X \<and> fails k \<le> fails k' \<and> (fails k' = fails k \<longrightarrow> D = X)"

lemma keeps_events_refl [simp]: "keeps_events fails k k X X"
  by (simp add: keeps_events_def)

lemma keeps_events_trans:
  "keeps_events fails k k1 X D \<Longrightarrow> keeps_events fails k1 k2 (D \<union> Y) E \<Longrightarrow> keeps_events fails k k2 (X \<union> Y) E"
  unfolding keeps_events_def by (intro conjI impI) (blast, simp, simp)

text \<open>A fence object is sound when it is no fence or its descriptor is open.\<close>

definition fence_ok :: "('k, 'e) fence_sem \<Rightarrow> 'k \<Rightarrow> int \<Rightarrow> bool" where
  "fence_ok sem k fd \<longleftrightarrow> fd = - 1 \<or> sem k fd \<noteq> None"

definition fence_deps :: "('k, 'e) fence_sem \<Rightarrow> 'k \<Rightarrow> int \<Rightarrow> 'e set" where
  "fence_deps sem k fd = (case sem k fd of None \<Rightarrow> {} | Some S \<Rightarrow> S)"

lemma sem_extends_refl [simp]: "sem_extends sem k k"
  by (simp add: sem_extends_def)

lemma sem_extends_trans: "sem_extends sem a b \<Longrightarrow> sem_extends sem b c \<Longrightarrow> sem_extends sem a c"
  by (simp add: sem_extends_def)

lemma sync_laws_elims:
  assumes "sync_laws K sem fails"
  shows "sem k fd = Some S \<Longrightarrow> 0 \<le> fd"
    and "sem k fd = Some S \<Longrightarrow> opens sem fails S k (k_dup K fd k)"
    and "sem k fd = None \<Longrightarrow> k_dup K fd k = (- 1, k)"
    and "sem k a = Some S \<Longrightarrow> sem k b = Some T \<Longrightarrow> opens sem fails (S \<union> T) k (k_merge K a b k)"
  using assms unfolding sync_laws_def by blast+

lemma sem_invalid: "sync_laws K sem fails \<Longrightarrow> sem k (- 1) = None"
  using sync_laws_elims(1) [of K sem fails k "- 1"] by (cases "sem k (- 1)") simp_all

lemma fence_deps_invalid: "sync_laws K sem fails \<Longrightarrow> fence_deps sem k (- 1) = {}"
  by (simp add: fence_deps_def sem_invalid)

text \<open>A call that opens a descriptor of \<open>S\<close> or fails: the result as a fence.\<close>

lemma opens_post:
  assumes "sync_laws K sem fails" "opens sem fails S k (fd, k')"
  shows "fence_ok sem k' fd \<and> keeps_events fails k k' S (fence_deps sem k' fd) \<and> sem_extends sem k k'"
  using assms(2) fence_deps_invalid [OF assms(1), of k']
  by (auto simp: opens_def keeps_events_def fence_ok_def fence_deps_def)

lemma fence_ok_invalid [simp]: "fence_ok sem k (- 1)"
  by (simp add: fence_ok_def)

lemma fence_ok_extends: "fence_ok sem k fd \<Longrightarrow> sem_extends sem k k' \<Longrightarrow> fence_ok sem k' fd"
  by (auto simp: fence_ok_def sem_extends_def)

lemma fence_deps_extends:
  assumes "sync_laws K sem fails" and "fence_ok sem k fd" and "sem_extends sem k k'"
  shows "fence_deps sem k' fd = fence_deps sem k fd"
proof (cases "fd = - 1")
  case False
  with assms show ?thesis by (auto simp: fence_ok_def fence_deps_def sem_extends_def)
qed (simp add: fence_deps_invalid [OF assms(1)])

lemma fence_dup_post:
  assumes laws: "sync_laws K sem fails" and f: "fence_ok sem k (mFenceFd f)"
    and r: "fence_dup K f k = (fd, k')"
  shows "fence_ok sem k' fd" and "keeps_events fails k k' (fence_deps sem k (mFenceFd f)) (fence_deps sem k' fd)"
    and "sem_extends sem k k'"
proof -
  have "fence_ok sem k' fd \<and> keeps_events fails k k' (fence_deps sem k (mFenceFd f)) (fence_deps sem k' fd) \<and> sem_extends sem k k'"
  proof (cases "sem k (mFenceFd f)")
    case None
    then have "k_dup K (mFenceFd f) k = (- 1, k)" by (rule sync_laws_elims(3) [OF laws])
    moreover have "mFenceFd f = - 1" using f None by (simp add: fence_ok_def)
    ultimately have "fd = - 1" "k' = k" "mFenceFd f = - 1" using r by (simp_all add: fence_dup_def)
    then show ?thesis by simp
  next
    case (Some S)
    then have "opens sem fails S k (fd, k')" using sync_laws_elims(2) [OF laws Some] r by (simp add: fence_dup_def)
    from opens_post [OF laws this] Some show ?thesis by (simp add: fence_deps_def)
  qed
  then show "fence_ok sem k' fd" and "keeps_events fails k k' (fence_deps sem k (mFenceFd f)) (fence_deps sem k' fd)"
    and "sem_extends sem k k'" by auto
qed

lemma fence_merge_post:
  assumes laws: "sync_laws K sem fails" and f1: "fence_ok sem k (mFenceFd f1)" and f2: "fence_ok sem k (mFenceFd f2)"
    and r: "fence_merge K f1 f2 k = (f, k')"
  shows "fence_ok sem k' (mFenceFd f)"
    and "keeps_events fails k k' (fence_deps sem k (mFenceFd f1) \<union> fence_deps sem k (mFenceFd f2)) (fence_deps sem k' (mFenceFd f))"
    and "sem_extends sem k k'"
proof -
  have merge: "fence_ok sem k' (mFenceFd f) \<and>
      keeps_events fails k k' (fence_deps sem k a \<union> fence_deps sem k b) (fence_deps sem k' (mFenceFd f)) \<and> sem_extends sem k k'"
    if ab: "fence_ok sem k a" "fence_ok sem k b" "a \<noteq> - 1" "b \<noteq> - 1"
      and m: "(if fst (k_merge K a b k) = - 1 then (NO_FENCE, snd (k_merge K a b k))
               else (fence_create (fst (k_merge K a b k)), snd (k_merge K a b k))) = (f, k')" for a b
  proof -
    obtain S T where ST: "sem k a = Some S" "sem k b = Some T" using ab by (auto simp: fence_ok_def)
    have "mFenceFd f = fst (k_merge K a b k)" "k' = snd (k_merge K a b k)"
      using m by (auto simp: fence_create_def NO_FENCE_def split: if_splits)
    then have "opens sem fails (S \<union> T) k (mFenceFd f, k')" using sync_laws_elims(4) [OF laws ST] by simp
    from opens_post [OF laws this] ST show ?thesis by (simp add: fence_deps_def)
  qed
  have "fence_ok sem k' (mFenceFd f) \<and> sem_extends sem k k' \<and>
    keeps_events fails k k' (fence_deps sem k (mFenceFd f1) \<union> fence_deps sem k (mFenceFd f2)) (fence_deps sem k' (mFenceFd f))"
  proof (cases "isValid f1"; cases "isValid f2")
    assume "isValid f1" "isValid f2"
    then show ?thesis using r merge [OF f1 f2]
      by (simp add: fence_merge_def isValid_def getFd_def case_prod_unfold Let_def)
  next
    assume "isValid f1" "\<not> isValid f2"
    then show ?thesis using r merge [OF f1 f1] fence_deps_invalid [OF laws]
      by (simp add: fence_merge_def isValid_def getFd_def case_prod_unfold Let_def)
  next
    assume "\<not> isValid f1" "isValid f2"
    then show ?thesis using r merge [OF f2 f2] fence_deps_invalid [OF laws]
      by (simp add: fence_merge_def isValid_def getFd_def case_prod_unfold Let_def)
  next
    assume "\<not> isValid f1" "\<not> isValid f2"
    then show ?thesis using r fence_deps_invalid [OF laws]
      by (auto simp: fence_merge_def isValid_def NO_FENCE_def fence_create_def)
  qed
  then show "fence_ok sem k' (mFenceFd f)"
    and "keeps_events fails k k' (fence_deps sem k (mFenceFd f1) \<union> fence_deps sem k (mFenceFd f2)) (fence_deps sem k' (mFenceFd f))"
    and "sem_extends sem k k'" by auto
qed

lemmas fence_posts = fence_dup_post fence_merge_post

section \<open>A kernel that keeps the laws\<close>

text \<open>Its state is the list of the event sets of the descriptors handed out so far; no call on them fails.\<close>

type_synonym mk = "nat set list"

definition mk_sem :: "(mk, nat) fence_sem" where
  "mk_sem k fd = (if 0 \<le> fd \<and> fd < int (length k) then Some (k ! nat fd) else None)"

definition mk_open :: "nat set option \<Rightarrow> mk \<Rightarrow> int \<times> mk" where
  "mk_open s k = (case s of None \<Rightarrow> (- 1, k) | Some S \<Rightarrow> (int (length k), k @ [S]))"

definition mk_kernel :: "mk sync_kernel" where
  "mk_kernel =
    \<lparr>k_dup = (\<lambda>fd k. mk_open (mk_sem k fd) k),
     k_merge = (\<lambda>a b k. mk_open (do { S \<leftarrow> mk_sem k a; T \<leftarrow> mk_sem k b; Some (S \<union> T) }) k),
     k_wait = (\<lambda>fd t k. (if mk_sem k fd = Some {} then 0 else - 1, k)),
     k_errno = (\<lambda>k. ETIME),
     k_fence_info = (\<lambda>fd k. map_option (\<lambda>S. (if S = {} then 1 else 0, [])) (mk_sem k fd)),
     k_timeline_create = (\<lambda>k. mk_open (Some {}) k),
     k_timeline_inc = (\<lambda>fd n k. (0, k)),
     k_fence_create = (\<lambda>fd s n k. mk_open (Some {n}) k)\<rparr>"

definition mk_fails :: "mk \<Rightarrow> nat" where
  "mk_fails k = 0"

lemma mk_laws: "sync_laws mk_kernel mk_sem mk_fails"
proof -
  have "opens mk_sem mk_fails S k (mk_open (Some S) k)" for S k
    by (auto simp: opens_def mk_open_def mk_sem_def mk_fails_def sem_extends_def nth_append)
  then show ?thesis
    by (auto simp: sync_laws_def mk_kernel_def mk_open_def mk_sem_def split: if_splits)
qed

section \<open>Properties\<close>

text \<open>Merging two fences gives a fence that waits for nothing but the events of both, and for exactly
  those when no call failed, when one of them, both or none is a real fence; and no open
  descriptor changes meaning.\<close>

theorem fence_merge_deps:
  assumes "sync_laws K sem fails" and "fence_ok sem k (getFd f1)" and "fence_ok sem k (getFd f2)"
  shows "let (f, k') = fence_merge K f1 f2 k in
     fence_ok sem k' (getFd f) \<and> sem_extends sem k k' \<and>
     keeps_events fails k k' (fence_deps sem k (getFd f1) \<union> fence_deps sem k (getFd f2)) (fence_deps sem k' (getFd f))"
proof -
  obtain f k' where r: "fence_merge K f1 f2 k = (f, k')" by fastforce
  then show ?thesis
    using fence_merge_post [OF assms(1) _ _ r] assms(2,3) by (simp add: getFd_def)
qed

theorem fence_merge_deps_witness:
  "let (f, k') = fence_merge mk_kernel (fence_create 0) (fence_create 1) [{1}, {2}]
   in fence_deps mk_sem k' (getFd f) = {1, 2}"
proof -
  have "fence_ok mk_sem [{1}, {2}] (getFd (fence_create 0))"
    and "fence_ok mk_sem [{1}, {2}] (getFd (fence_create 1))"
    by (simp_all add: fence_ok_def mk_sem_def getFd_def fence_create_def)
  note m = fence_merge_deps [OF mk_laws this]
  have "fence_deps mk_sem [{1}, {2}] (getFd (fence_create 0)) = {1}"
    "fence_deps mk_sem [{1}, {2}] (getFd (fence_create 1)) = {2}"
    by (simp_all add: fence_deps_def mk_sem_def getFd_def fence_create_def)
  with m show ?thesis by (auto simp: Let_def case_prod_unfold keeps_events_def mk_fails_def)
qed

text \<open>\<open>waitForever\<close> reports success exactly when the first wait succeeds, or when it
  times out and the wait without a limit succeeds; the time-out of the first wait is never
  its result when waiting without a limit does not time out.\<close>

theorem fence_waitForever_result:
  assumes "isValid f" and "\<And>k. fst (k_wait K (getFd f) TIMEOUT_NEVER k) < 0 \<Longrightarrow>
      k_errno K (snd (k_wait K (getFd f) TIMEOUT_NEVER k)) \<noteq> ETIME"
    and "\<And>k. 0 < k_errno K k"
  shows "let (e1, k1) = k_wait K (getFd f) 3000 k; (e2, k2) = k_wait K (getFd f) TIMEOUT_NEVER k1;
             (r, k') = fence_waitForever K f k
         in (r = OK \<longleftrightarrow> 0 \<le> e1 \<or> k_errno K k1 = ETIME \<and> 0 \<le> e2) \<and> r \<noteq> - ETIME"
proof -
  obtain e1 k1 where w1: "k_wait K (mFenceFd f) 3000 k = (e1, k1)" by fastforce
  obtain e2 k2 where w2: "k_wait K (mFenceFd f) (- 1) k1 = (e2, k2)" by fastforce
  have "mFenceFd f \<noteq> - 1" using assms(1) by (simp add: isValid_def)
  moreover have "e2 < 0 \<Longrightarrow> k_errno K k2 \<noteq> ETIME" using assms(2) [of k1] by (simp add: getFd_def w2)
  moreover have "k_errno K k1 \<noteq> 0" "k_errno K k2 \<noteq> 0" using assms(3) [of k1] assms(3) [of k2] by simp_all
  ultimately show ?thesis
    unfolding fence_waitForever_def getFd_def w1 Let_def prod.case w2
    by (cases "e1 < 0"; cases "k_errno K k1 = ETIME") (simp_all add: w2)
qed

definition slow_kernel :: "mk sync_kernel" where
  "slow_kernel = mk_kernel\<lparr>k_wait := \<lambda>fd t k. (if t = 3000 then - 1 else 0, k)\<rparr>"

lemma slow_kernel_wait:
  "k_wait slow_kernel fd t k = (if t = 3000 then - 1 else 0, k)" "k_errno slow_kernel k = ETIME"
  by (simp_all add: slow_kernel_def mk_kernel_def)

theorem fence_waitForever_result_witness:
  "fst (fence_waitForever slow_kernel (fence_create 0) [{1}]) = OK"
proof -
  have "isValid (fence_create 0)" by (simp add: isValid_def fence_create_def)
  from fence_waitForever_result [OF this, of slow_kernel "[{1}]"] show ?thesis
    by (simp add: slow_kernel_wait case_prod_unfold Let_def)
qed

end
