(* ===== verification/UserGraph.thy ===== *)
theory UserGraph
  imports Adjacency Sync
begin

text \<open>
  The users of one subject (a stream buffer) and the graph of their order:
  \<open>UsersManager::MyUser\<close> and \<open>UsersManager::MyUserGraph\<close> of
  \<open>mtkcam/pipeline/utils/streambuf/UsersManagerImp.cpp\<close>.

  A \<open>MyUser\<close> object is shared by the graph that made it and the maps of the manager, so the
  objects live in a store (a list) and are named by their position in it. A graph is an
  adjacency structure over user ids (\<open>Adjacency\<close>); an edge from \<open>a\<close> to \<open>b\<close> makes \<open>b\<close> wait
  for \<open>a\<close>.
\<close>

section \<open>Data\<close>

text \<open>\<open>IUsersManager::Category\<close> and the bits of \<open>IUsersManager::UserStatus\<close>.\<close>

abbreviation (input) PRODUCER :: MUINT32 where "PRODUCER \<equiv> 0"
abbreviation (input) CONSUMER :: MUINT32 where "CONSUMER \<equiv> 1"
abbreviation (input) NONE :: MUINT32 where "NONE \<equiv> 2"

abbreviation (input) ACQUIRE :: MUINT32 where "ACQUIRE \<equiv> 1"
abbreviation (input) PRE_RELEASE :: MUINT32 where "PRE_RELEASE \<equiv> 2"
abbreviation (input) USED :: MUINT32 where "USED \<equiv> 4"
abbreviation (input) RELEASE :: MUINT32 where "RELEASE \<equiv> 8"
abbreviation (input) RELEASE_STILLUSE :: MUINT32 where "RELEASE_STILLUSE \<equiv> 16"

record User =
  usr_mUserId :: int
  usr_mAcquireFence :: int
  usr_mReleaseFence :: int
  usr_mUsage :: MUINT32
  usr_mCategory :: MUINT32

record MyUser =
  mUserId :: int
  mAcquireFence :: "IFence option"
  mReleaseFence :: "IFence option"
  mUsage :: MUINT32
  mCategory :: MUINT32
  mGroupIndex :: nat
  mUserStatus :: MUINT32

type_synonym users = "MyUser list"

definition MyUser_new :: "User \<Rightarrow> nat \<Rightarrow> MyUser" where
  "MyUser_new user groupIndex =
     \<lparr>mUserId = usr_mUserId user,
      mAcquireFence = Some (fence_create (usr_mAcquireFence user)),
      mReleaseFence = Some (fence_create (usr_mReleaseFence user)),
      mUsage = usr_mUsage user, mCategory = usr_mCategory user,
      mGroupIndex = groupIndex, mUserStatus = 0\<rparr>"

record UserNode =
  mMyUser :: nat
  mIn :: "int list"
  mOut :: "int list"

record MyUserGraph =
  mConsumerUsage :: MUINT32
  mGraphIndex :: nat
  mUserVector :: "(int, UserNode) kvec"

definition MyUserGraph_new :: "nat \<Rightarrow> MyUserGraph" where
  "MyUserGraph_new groupIndex = \<lparr>mConsumerUsage = 0, mGraphIndex = groupIndex, mUserVector = []\<rparr>"

section \<open>Operations of a graph\<close>

definition addUser :: "User \<Rightarrow> users \<times> MyUserGraph \<Rightarrow> MERROR \<times> users \<times> MyUserGraph" where
  "addUser usr = (\<lambda>(us, g).
     if usr_mUserId usr \<in> set (kv_keys (mUserVector g)) then (ALREADY_EXISTS, us, g)
     else (OK, us @ [MyUser_new usr (mGraphIndex g)],
           g\<lparr>mUserVector := kv_add (usr_mUserId usr) \<lparr>mMyUser = length us, mIn = [], mOut = []\<rparr> (mUserVector g)\<rparr>))"

definition removeUser :: "int \<Rightarrow> MyUserGraph \<Rightarrow> (MERROR \<times> MyUserGraph) option" where
  "removeUser i g =
     (case map_of (mUserVector g) i of
        None \<Rightarrow> Some (NAME_NOT_FOUND, g)
      | Some n \<Rightarrow> do {
          m1 \<leftarrow> kv_edit_all (mOut_update (remove1 i)) (mIn n) (mUserVector g);
          n1 \<leftarrow> map_of m1 i;
          m2 \<leftarrow> kv_edit_all (mIn_update (remove1 i)) (mOut n1) m1;
          Some (OK, g\<lparr>mUserVector := kv_remove i m2\<rparr>)
        })"

definition graph_addEdge :: "int \<Rightarrow> int \<Rightarrow> MyUserGraph \<Rightarrow> MERROR \<times> MyUserGraph" where
  "graph_addEdge id_src id_dst g =
     (case (map_of (mUserVector g) id_src, map_of (mUserVector g) id_dst) of
        (Some src, Some dst) \<Rightarrow>
          if id_dst \<notin> set (mOut src) \<and> id_src \<notin> set (mIn dst)
          then (OK, g\<lparr>mUserVector :=
                  kv_edit id_dst (mIn_update (insort_insert id_src))
                    (kv_edit id_src (mOut_update (insort_insert id_dst)) (mUserVector g))\<rparr>)
          else (ALREADY_EXISTS, g)
      | _ \<Rightarrow> (NAME_NOT_FOUND, g))"

definition graph_removeEdge :: "int \<Rightarrow> int \<Rightarrow> MyUserGraph \<Rightarrow> MERROR \<times> MyUserGraph" where
  "graph_removeEdge id_src id_dst g =
     (case (map_of (mUserVector g) id_src, map_of (mUserVector g) id_dst) of
        (Some src, Some dst) \<Rightarrow>
          if id_dst \<notin> set (mOut src) \<or> id_src \<notin> set (mIn dst)
          then (NAME_NOT_FOUND, g)
          else (OK, g\<lparr>mUserVector :=
                  kv_edit id_dst (mIn_update (remove1 id_src))
                    (kv_edit id_src (mOut_update (remove1 id_dst)) (mUserVector g))\<rparr>)
      | _ \<Rightarrow> (NAME_NOT_FOUND, g))"

definition graph_size :: "MyUserGraph \<Rightarrow> nat" where
  "graph_size g = length (mUserVector g)"

definition nodeAt :: "MyUserGraph \<Rightarrow> nat \<Rightarrow> UserNode option" where
  "nodeAt g index = (if index < length (mUserVector g) then Some (snd (mUserVector g ! index)) else None)"

definition userAt :: "MyUserGraph \<Rightarrow> nat \<Rightarrow> nat option" where
  "userAt g index = map_option mMyUser (nodeAt g index)"

definition indegree :: "MyUserGraph \<Rightarrow> nat \<Rightarrow> nat option" where
  "indegree g index = map_option (\<lambda>n. length (mIn n)) (nodeAt g index)"

definition outdegree :: "MyUserGraph \<Rightarrow> nat \<Rightarrow> nat option" where
  "outdegree g index = map_option (\<lambda>n. length (mOut n)) (nodeAt g index)"

definition user_get :: "users \<Rightarrow> nat \<Rightarrow> MyUser option" where
  "user_get us a = (if a < length us then Some (us ! a) else None)"

definition graph_setAcquireFence :: "nat \<Rightarrow> int \<Rightarrow> users \<times> MyUserGraph \<Rightarrow> (MERROR \<times> users) option" where
  "graph_setAcquireFence index fence = (\<lambda>(us, g). do {
     a \<leftarrow> userAt g index;
     u \<leftarrow> user_get us a;
     AF \<leftarrow> mAcquireFence u;
     if 0 \<le> getFd AF then Some (ALREADY_EXISTS, us)
     else Some (OK, us[a := u\<lparr>mAcquireFence := Some (fence_create fence)\<rparr>])
   })"

definition graph_getCategory :: "nat \<Rightarrow> users \<times> MyUserGraph \<Rightarrow> MUINT32 option" where
  "graph_getCategory index = (\<lambda>(us, g). do {
     a \<leftarrow> userAt g index;
     u \<leftarrow> user_get us a;
     Some (mCategory u)
   })"

fun nodes_of :: "MyUserGraph \<Rightarrow> int list \<Rightarrow> nat list option" where
  "nodes_of g [] = Some []"
| "nodes_of g (i # is) = do { n \<leftarrow> map_of (mUserVector g) i; as \<leftarrow> nodes_of g is; Some (mMyUser n # as) }"

definition getInUsers :: "MyUserGraph \<Rightarrow> int \<Rightarrow> (MERROR \<times> nat list) option" where
  "getInUsers g userId = do {
     usr \<leftarrow> map_of (mUserVector g) userId;
     result \<leftarrow> nodes_of g (mIn usr);
     Some (OK, result)
   }"

text \<open>
  \<open>DFS\<close> appends the users before a user, then the user. \<open>DFS g ids result\<close> is the loop over
  the in-adjacent ids with one call per element; there is no visited mark.
\<close>

partial_function (option) DFS :: "MyUserGraph \<Rightarrow> int list \<Rightarrow> nat list \<Rightarrow> (MERROR \<times> nat list) option" where
  "DFS g ids result =
     (case ids of
        [] \<Rightarrow> Some (OK, result)
      | userId # rest \<Rightarrow>
          (case map_of (mUserVector g) userId of
             None \<Rightarrow> None
           | Some n \<Rightarrow>
               Option.bind (DFS g (mIn n) result)
                 (\<lambda>(e, r). if e < 0 then Some (UNKNOWN_ERROR, r) else DFS g rest (r @ [mMyUser n]))))"

definition getPriorUsers :: "MyUserGraph \<Rightarrow> int \<Rightarrow> (MERROR \<times> nat list) option" where
  "getPriorUsers g userId = do {
     (e, result) \<leftarrow> DFS g [userId] [];
     Some (if e < 0 then UNKNOWN_ERROR else OK, result)
   }"

section \<open>The graph stays well-formed\<close>

text \<open>The same three edit patterns as in the graph of nodes, through the same locale.\<close>

interpretation ug: adj_node mIn mOut mIn_update mOut_update
  by unfold_locales simp_all

abbreviation ug_wf :: "MyUserGraph \<Rightarrow> bool" where
  "ug_wf g \<equiv> adj_wf mIn mOut (mUserVector g)"

abbreviation ug_ids :: "MyUserGraph \<Rightarrow> int list" where
  "ug_ids g \<equiv> kv_keys (mUserVector g)"

text \<open>\<open>before g\<close> relates a user to the users it directly waits for.\<close>

abbreviation before :: "MyUserGraph \<Rightarrow> (int \<times> int) set" where
  "before g \<equiv> edge_rel mIn (mUserVector g)"

abbreviation node_user :: "MyUserGraph \<Rightarrow> int \<Rightarrow> nat" where
  "node_user g i \<equiv> mMyUser (the (map_of (mUserVector g) i))"

lemma ug_wf_new [simp]: "ug_wf (MyUserGraph_new i)"
  by (simp add: MyUserGraph_new_def)

lemma addUser_post:
  assumes "ug_wf g" and "addUser usr (us, g) = (e, us', g')"
  shows "ug_wf g'" and "before g' = before g" and "mGraphIndex g' = mGraphIndex g"
    and "mConsumerUsage g' = mConsumerUsage g"
    and "e = (if usr_mUserId usr \<in> set (ug_ids g) then ALREADY_EXISTS else OK)"
    and "us' = (if usr_mUserId usr \<in> set (ug_ids g) then us else us @ [MyUser_new usr (mGraphIndex g)])"
    and "map_of (mUserVector g') = (if usr_mUserId usr \<in> set (ug_ids g) then map_of (mUserVector g)
           else (map_of (mUserVector g))(usr_mUserId usr \<mapsto> \<lparr>mMyUser = length us, mIn = [], mOut = []\<rparr>))"
  using assms adj_wf_add_isolated [of mIn mOut "mUserVector g" "usr_mUserId usr"]
    edge_rel_add_isolated [of "usr_mUserId usr" "mUserVector g" mIn]
  by (auto simp: addUser_def split: if_splits)

lemma graph_addEdge_post:
  assumes wf: "ug_wf g" and e: "graph_addEdge s d g = (e, g')"
  shows "ug_wf g'"
    and "before g' = (if e = OK then insert (d, s) (before g) else before g)"
    and "e = OK \<longleftrightarrow> s \<in> set (ug_ids g) \<and> d \<in> set (ug_ids g) \<and> (d, s) \<notin> before g"
    and "e \<noteq> OK \<Longrightarrow> g' = g"
    and "ug_ids g' = ug_ids g" and "mGraphIndex g' = mGraphIndex g"
    and "map_option mMyUser \<circ> map_of (mUserVector g') = map_option mMyUser \<circ> map_of (mUserVector g)"
proof -
  have mir: "(d, s) \<in> before g \<longleftrightarrow> (s, d) \<in> edge_rel mOut (mUserVector g)"
    using wf by (auto simp: adj_wf_def)
  have cases: "e = OK \<and> s \<in> set (ug_ids g) \<and> d \<in> set (ug_ids g) \<and> (d, s) \<notin> before g \<and>
      g' = g\<lparr>mUserVector := kv_edit d (mIn_update (insort_insert s)) (kv_edit s (mOut_update (insort_insert d)) (mUserVector g))\<rparr>
    \<or> e \<noteq> OK \<and> g' = g \<and> \<not> (s \<in> set (ug_ids g) \<and> d \<in> set (ug_ids g) \<and> (d, s) \<notin> before g)"
  proof (cases "s \<in> set (ug_ids g) \<and> d \<in> set (ug_ids g)")
    case True
    then obtain ns nd where n: "map_of (mUserVector g) s = Some ns" "map_of (mUserVector g) d = Some nd"
      using kv_keys_get by metis
    with e mir True edge_rel_iff [OF n(2), of s mIn] edge_rel_iff [OF n(1), of d mOut] show ?thesis
      by (auto simp: graph_addEdge_def split: if_splits)
  next
    case False
    then have "graph_addEdge s d g = (NAME_NOT_FOUND, g)"
      by (auto simp: graph_addEdge_def kv_get_None [symmetric] split: option.splits)
    with False e show ?thesis by auto
  qed
  then show "e = OK \<longleftrightarrow> s \<in> set (ug_ids g) \<and> d \<in> set (ug_ids g) \<and> (d, s) \<notin> before g"
    and "e \<noteq> OK \<Longrightarrow> g' = g" and "ug_ids g' = ug_ids g" and "mGraphIndex g' = mGraphIndex g"
    by auto
  show "map_option mMyUser \<circ> map_of (mUserVector g') = map_option mMyUser \<circ> map_of (mUserVector g)"
    using cases by (auto simp: fun_eq_iff option.map_comp comp_def)
  show "ug_wf g'" using cases ug.adj_wf_add_edge [OF wf, of s d] wf by auto
  show "before g' = (if e = OK then insert (d, s) (before g) else before g)"
    using cases ug.edge_rel_add_edge(2) [of s "mUserVector g" d] by auto
qed

lemma graph_removeEdge_post:
  assumes wf: "ug_wf g" and e: "graph_removeEdge s d g = (e, g')"
  shows "ug_wf g'" and "ug_ids g' = ug_ids g" and "mGraphIndex g' = mGraphIndex g"
    and "map_option mMyUser \<circ> map_of (mUserVector g') = map_option mMyUser \<circ> map_of (mUserVector g)"
proof -
  have "g' = g \<or> g' = g\<lparr>mUserVector := kv_edit d (mIn_update (remove1 s)) (kv_edit s (mOut_update (remove1 d)) (mUserVector g))\<rparr>"
    using e by (auto simp: graph_removeEdge_def split: option.splits if_splits)
  then show "ug_wf g'" and "ug_ids g' = ug_ids g" and "mGraphIndex g' = mGraphIndex g"
    and "map_option mMyUser \<circ> map_of (mUserVector g') = map_option mMyUser \<circ> map_of (mUserVector g)"
    using ug.adj_wf_remove_edge [OF wf, of d s] wf by (auto simp: fun_eq_iff option.map_comp comp_def)
qed

lemma fold_edit_mMyUser:
  assumes "\<And>n. mMyUser (f n) = mMyUser n"
  shows "map_option mMyUser (map_of (fold (\<lambda>i. kv_edit i f) ks m) k) = map_option mMyUser (map_of m k)"
  by (induction ks arbitrary: m) (auto simp: assms option.map_comp comp_def)

lemma removeUser_post:
  assumes wf: "ug_wf g"
  obtains e g' where "removeUser i g = Some (e, g')" and "ug_wf g'" and "mGraphIndex g' = mGraphIndex g"
    and "\<And>k. map_option mMyUser (map_of (mUserVector g') k) =
           (if k = i then None else map_option mMyUser (map_of (mUserVector g) k))"
proof (cases "map_of (mUserVector g) i")
  case None
  then show ?thesis using that [of "NAME_NOT_FOUND" g] wf by (simp add: removeUser_def)
next
  case (Some n)
  let ?m = "mUserVector g"
  let ?m1 = "fold (\<lambda>k. kv_edit k (mOut_update (remove1 i))) (mIn n) ?m"
  have "i \<in> set (kv_keys ?m1)" using Some by (simp add: kv_get_in_keys)
  then obtain n1 where n1: "map_of ?m1 i = Some n1" using kv_keys_get by metis
  let ?m2 = "fold (\<lambda>k. kv_edit k (mIn_update (remove1 i))) (mOut n1) ?m1"
  have e1: "kv_edit_all (mOut_update (remove1 i)) (mIn n) ?m = Some ?m1"
    using adj_wf_in_keys [OF wf Some] by (rule kv_edit_all_Some)
  have sv: "\<And>k n. map_of ?m k = Some n \<Longrightarrow> sv_wf (mOut n)" using wf by (simp add: adj_wf_def)
  have "b \<in> set (ug_ids g)" if "b \<in> set (mOut n1)" for b
  proof -
    have "(i, b) \<in> edge_rel mOut ?m1" using n1 that by (rule edge_relI)
    then have "(i, b) \<in> edge_rel mOut ?m"
      using ug.edge_rel_fold_remove_out(1) [of ?m i "mIn n", OF sv] by simp
    then show ?thesis using adj_wf_edge_keys(2) [OF wf] by simp
  qed
  then have e2: "kv_edit_all (mIn_update (remove1 i)) (mOut n1) ?m1 = Some ?m2"
    by (intro kv_edit_all_Some) auto
  have r: "removeUser i g = Some (OK, g\<lparr>mUserVector := kv_remove i ?m2\<rparr>)"
    by (simp add: removeUser_def Some e1 n1 e2)
  have wf': "ug_wf (g\<lparr>mUserVector := kv_remove i ?m2\<rparr>)"
    using ug.remove_node_edges(1) [OF wf Some n1] by simp
  have "map_option mMyUser (map_of (kv_remove i ?m2) k) =
      (if k = i then None else map_option mMyUser (map_of ?m k))" for k
    by (simp add: fold_edit_mMyUser)
  then show ?thesis using that [OF r wf'] by simp
qed


section \<open>The users before a user\<close>

text \<open>What \<open>DFS\<close> has done when it returns.\<close>

definition dfs_done :: "MyUserGraph \<Rightarrow> int list \<Rightarrow> nat list \<Rightarrow> MERROR \<times> nat list \<Rightarrow> bool" where
  "dfs_done g ids r y \<longleftrightarrow>
     fst y = OK \<and>
     (\<exists>L. snd y = r @ L \<and> set L = node_user g ` {b. \<exists>x \<in> set ids. (x, b) \<in> (before g)\<^sup>*}) \<and>
     (\<forall>x \<in> set ids. \<forall>c. (x, c) \<in> (before g)\<^sup>* \<longrightarrow> (c, c) \<notin> (before g)\<^sup>+)"

lemma dfs_done_Cons:
  assumes n: "map_of (mUserVector g) i = Some n"
    and a: "dfs_done g (mIn n) r (e, r1)" and b: "dfs_done g rest (r1 @ [mMyUser n]) y"
  shows "dfs_done g (i # rest) r y"
proof -
  let ?B = "before g"
  have succ: "(i, b) \<in> ?B \<longleftrightarrow> b \<in> set (mIn n)" for b using n by (simp add: edge_rel_iff)
  from a obtain L1 where L1: "r1 = r @ L1" "set L1 = node_user g ` {b. \<exists>x \<in> set (mIn n). (x, b) \<in> ?B\<^sup>*}"
    by (auto simp: dfs_done_def)
  from b obtain L2 where L2: "snd y = r1 @ [mMyUser n] @ L2"
    "set L2 = node_user g ` {b. \<exists>x \<in> set rest. (x, b) \<in> ?B\<^sup>*}" "fst y = OK"
    by (auto simp: dfs_done_def)
  have nc: "(c, c) \<notin> ?B\<^sup>+" if "(i, x) \<in> ?B" "(x, c) \<in> ?B\<^sup>*" for x c
    using a that by (auto simp: dfs_done_def succ)
  have nci: "(c, c) \<notin> ?B\<^sup>+" if "(i, c) \<in> ?B\<^sup>*" for c
    using that nc on_cycle_step [of i ?B] rtrancl_step_iff [of i c ?B] by metis
  have "{b. (i, b) \<in> ?B\<^sup>*} = insert i {b. \<exists>x \<in> set (mIn n). (x, b) \<in> ?B\<^sup>*}"
    using rtrancl_step_iff [of i _ ?B] succ by blast
  then have "set (L1 @ [mMyUser n]) = node_user g ` {b. (i, b) \<in> ?B\<^sup>*}"
    using L1(2) n by simp
  then have "set (L1 @ [mMyUser n] @ L2) = node_user g ` {b. \<exists>x \<in> set (i # rest). (x, b) \<in> ?B\<^sup>*}"
    using L2(2) by auto
  moreover have "snd y = r @ (L1 @ [mMyUser n] @ L2)" using L1(1) L2(1) by simp
  ultimately show ?thesis
    using L2(3) b nci unfolding dfs_done_def by auto
qed

lemma DFS_done:
  assumes "DFS g ids r = Some y"
  shows "dfs_done g ids r y"
proof (rule DFS.raw_induct [OF _ assms])
  fix f g ids r y
  assume IH: "\<And>g ids r y. f g ids r = Some y \<Longrightarrow> dfs_done g ids r y"
    and eq: "(case ids of [] \<Rightarrow> Some (OK, r)
      | userId # rest \<Rightarrow>
          (case map_of (mUserVector g) userId of None \<Rightarrow> None
           | Some n \<Rightarrow> Option.bind (f g (mIn n) r)
                 (\<lambda>(e, r). if e < 0 then Some (UNKNOWN_ERROR, r) else f g rest (r @ [mMyUser n])))) = Some y"
  show "dfs_done g ids r y"
  proof (cases ids)
    case Nil
    with eq show ?thesis by (auto simp: dfs_done_def)
  next
    case (Cons i rest)
    with eq obtain n where n: "map_of (mUserVector g) i = Some n" by (auto split: option.splits)
    from eq obtain e r1 where r: "f g (mIn n) r = Some (e, r1)"
      and rest: "(if e < 0 then Some (UNKNOWN_ERROR, r1) else f g rest (r1 @ [mMyUser n])) = Some y"
      unfolding Cons list.case n option.case option_bind_eq_Some by auto
    have "e = OK" using IH [OF r] by (simp add: dfs_done_def)
    with rest have "f g rest (r1 @ [mMyUser n]) = Some y" by simp
    from dfs_done_Cons [OF n IH [OF r] IH [OF this]] show ?thesis unfolding Cons .
  qed
qed

lemma DFS_loop:
  "(\<And>i r. i \<in> set ids \<Longrightarrow> \<exists>n r'. map_of (mUserVector g) i = Some n \<and> DFS g (mIn n) r = Some (OK, r')) \<Longrightarrow>
   \<exists>r'. DFS g ids r = Some (OK, r')"
proof (induction ids arbitrary: r)
  case Nil
  then show ?case by (simp add: DFS.simps)
next
  case (Cons i rest)
  from Cons.prems [of i r] obtain n r1 where i: "map_of (mUserVector g) i = Some n"
    and r: "DFS g (mIn n) r = Some (OK, r1)" by auto
  from Cons.IH [of "r1 @ [mMyUser n]"] Cons.prems obtain r2 where "DFS g rest (r1 @ [mMyUser n]) = Some (OK, r2)"
    by auto
  with i r show ?case by (simp add: DFS.simps [of g "i # rest"])
qed

lemma before_reach_keys:
  assumes "ug_wf g" and "(x, a) \<in> (before g)\<^sup>*" and "x \<in> set (ug_ids g)"
  shows "a \<in> set (ug_ids g)"
  using assms(2,3)
proof (induction rule: rtrancl_induct)
  case (step a b)
  have "edge_rel mIn (mUserVector g) = (edge_rel mOut (mUserVector g))\<inverse>"
    using assms(1) by (simp add: adj_wf_def)
  with step.hyps(2) have "(b, a) \<in> edge_rel mOut (mUserVector g)" by auto
  then show ?case by (rule edge_rel_src)
qed simp

lemma before_finite: "ug_wf g \<Longrightarrow> finite (before g)"
  using adj_wf_finite [of mIn mOut "mUserVector g"] by (auto simp: adj_wf_def)

lemma DFS_returns:
  assumes wf: "ug_wf g" and u: "u \<in> set (ug_ids g)"
    and nc: "\<And>c. (u, c) \<in> (before g)\<^sup>* \<Longrightarrow> (c, c) \<notin> (before g)\<^sup>+"
  shows "\<exists>r'. DFS g [u] r = Some (OK, r')"
proof (rule DFS_loop)
  let ?B = "before g"
  have "wf ({(a, b) \<in> ?B. \<exists>x \<in> {u}. (x, a) \<in> ?B\<^sup>*}\<inverse>)"
    by (rule no_cycle_wf [OF before_finite [OF wf]]) (use nc in auto)
  then have all: "(u, i) \<in> ?B\<^sup>* \<Longrightarrow> \<exists>n r'. map_of (mUserVector g) i = Some n \<and> DFS g (mIn n) r = Some (OK, r')" for i r
  proof (induction i arbitrary: r rule: wf_induct_rule)
    case (less i)
    obtain n where n: "map_of (mUserVector g) i = Some n"
      using before_reach_keys [OF wf less.prems u] kv_keys_get by metis
    have "\<exists>r'. DFS g (mIn n) r = Some (OK, r')"
    proof (rule DFS_loop)
      fix b r assume "b \<in> set (mIn n)"
      then have b: "(i, b) \<in> ?B" using n by (simp add: edge_rel_iff)
      with less.prems have "(b, i) \<in> {(a, b) \<in> ?B. \<exists>x \<in> {u}. (x, a) \<in> ?B\<^sup>*}\<inverse>" by auto
      moreover have "(u, b) \<in> ?B\<^sup>*" using less.prems b by (rule rtrancl.rtrancl_into_rtrancl)
      ultimately show "\<exists>n r'. map_of (mUserVector g) b = Some n \<and> DFS g (mIn n) r = Some (OK, r')"
        by (rule less.IH)
    qed
    with n show ?case by blast
  qed
  fix i r assume "i \<in> set [u]"
  then show "\<exists>n r'. map_of (mUserVector g) i = Some n \<and> DFS g (mIn n) r = Some (OK, r')"
    using all by simp
qed

text \<open>
  The list of prior users: all users the given one waits for, directly or not, then the
  user itself.
\<close>

lemma getPriorUsers_acyclic:
  assumes "ug_wf g" and u: "u \<in> set (ug_ids g)"
    and "\<And>c. (u, c) \<in> (before g)\<^sup>* \<Longrightarrow> (c, c) \<notin> (before g)\<^sup>+"
  obtains L where "getPriorUsers g u = Some (OK, L @ [node_user g u])"
    and "set L = node_user g ` {b. (u, b) \<in> (before g)\<^sup>+}"
proof -
  obtain n where n: "map_of (mUserVector g) u = Some n" using u kv_keys_get by metis
  obtain y where y: "DFS g [u] [] = Some (OK, y)" using DFS_returns [OF assms] by blast
  then obtain e r where r: "DFS g (mIn n) [] = Some (e, r)"
    and y': "(if e < 0 then Some (UNKNOWN_ERROR, r) else DFS g [] (r @ [mMyUser n])) = Some (OK, y)"
    by (auto simp: DFS.simps [of g "[u]"] n)
  from DFS_done [OF r] have e: "e = OK" and L: "set r = node_user g ` {b. \<exists>x \<in> set (mIn n). (x, b) \<in> (before g)\<^sup>*}"
    by (auto simp: dfs_done_def)
  with y' have "y = r @ [mMyUser n]" by (simp add: DFS.simps)
  then have p: "getPriorUsers g u = Some (OK, r @ [node_user g u])" by (simp add: getPriorUsers_def y n)
  have "{b. \<exists>x \<in> set (mIn n). (x, b) \<in> (before g)\<^sup>*} = {b. (u, b) \<in> (before g)\<^sup>+}"
  proof -
    have "(u, x) \<in> before g \<longleftrightarrow> x \<in> set (mIn n)" for x using n by (rule edge_rel_iff)
    then show ?thesis by (auto dest!: tranclD intro: rtrancl_into_trancl2)
  qed
  with p L that show ?thesis by simp
qed

lemma getPriorUsers_cyclic:
  assumes "(u, c) \<in> (before g)\<^sup>*" and "(c, c) \<in> (before g)\<^sup>+"
  shows "getPriorUsers g u = None"
proof -
  have "DFS g [u] [] = None"
    using DFS_done [of g "[u]" "[]"] assms by (cases "DFS g [u] []") (auto simp: dfs_done_def)
  then show ?thesis by (simp add: getPriorUsers_def)
qed

end
