(* ===== verification/UsersManager.thy ===== *)
theory UsersManager
  imports UserGraph
begin

text \<open>
  \<open>UsersManager\<close> of \<open>mtkcam/pipeline/utils/streambuf/UsersManagerImp.cpp\<close>: which users of
  a subject have acquired, used and released it, and the fences between them.

  The life of a manager has two phases. While \<open>mUserInit\<close> is unset, graphs are created,
  filled and enqueued: their producers and consumers go to two maps, each with four bit
  sets that are indexed by the position of a user in its map. After \<open>finishUserSetup\<close> the
  status of users is marked, in the user and in the bit set of its map.

  The manager owns its graphs; a graph a client keeps over \<open>reset\<close> no longer belongs to
  the manager and is left out.
\<close>

section \<open>State\<close>

record MyUserMap =
  mUserMap :: "(int, nat) kvec"
  mBitSetUsed :: MUINT32
  mBitSetReleased :: MUINT32
  mBitSetPreReleased :: MUINT32
  mBitSetReleasedStillUse :: MUINT32

definition MyUserMap_empty :: MyUserMap where
  "MyUserMap_empty = \<lparr>mUserMap = [], mBitSetUsed = 0, mBitSetReleased = 0, mBitSetPreReleased = 0,
     mBitSetReleasedStillUse = 0\<rparr>"

record UsersManager =
  mSubject :: int
  mSubjectName :: string
  mUsers :: users
  mUserInit :: bool
  mUserGroupGraph :: "MyUserGraph list"
  mProducerMap :: MyUserMap
  mConsumerMap :: MyUserMap

definition UsersManager_new :: "int \<Rightarrow> string \<Rightarrow> UsersManager" where
  "UsersManager_new subject name = \<lparr>mSubject = subject, mSubjectName = name, mUsers = [],
     mUserInit = False, mUserGroupGraph = [], mProducerMap = MyUserMap_empty, mConsumerMap = MyUserMap_empty\<rparr>"

definition getSubject :: "UsersManager \<Rightarrow> int" where
  "getSubject um = mSubject um"

definition getSubjectName :: "UsersManager \<Rightarrow> string" where
  "getSubjectName um = mSubjectName um"

section \<open>Setting up the users\<close>

definition um_reset :: "UsersManager \<Rightarrow> UsersManager" where
  "um_reset um = um\<lparr>mUserInit := False, mUserGroupGraph := [], mProducerMap := MyUserMap_empty,
     mConsumerMap := MyUserMap_empty\<rparr>"

text \<open>\<open>None\<close> is the null pointer.\<close>

definition queryUser :: "UsersManager \<Rightarrow> int \<Rightarrow> nat option" where
  "queryUser um userId =
     (let pUser = (case map_of (mUserMap (mProducerMap um)) userId of
                     Some a \<Rightarrow> Some a
                   | None \<Rightarrow> map_of (mUserMap (mConsumerMap um)) userId)
      in case pUser of
           None \<Rightarrow> None
         | Some a \<Rightarrow> if length (mUserGroupGraph um) \<le> mGroupIndex (mUsers um ! a) then None else Some a)"

definition enque_node :: "nat \<Rightarrow> UserNode \<Rightarrow> UsersManager \<Rightarrow> UsersManager" where
  "enque_node groupIndex n um =
     (let a = mMyUser n; u = mUsers um ! a in
      if mCategory u = PRODUCER
      then um\<lparr>mProducerMap := mUserMap_update (kv_add (mUserId u) a) (mProducerMap um)\<rparr>
      else if mCategory u = CONSUMER
      then um\<lparr>mConsumerMap := mUserMap_update (kv_add (mUserId u) a) (mConsumerMap um),
              mUserGroupGraph := (mUserGroupGraph um)[groupIndex :=
                mConsumerUsage_update (\<lambda>x. x OR mUsage u) (mUserGroupGraph um ! groupIndex)]\<rparr>
      else um)"

definition enqueUserGraph_locked :: "nat \<Rightarrow> UsersManager \<Rightarrow> (int \<times> UsersManager) option" where
  "enqueUserGraph_locked groupIndex um =
     (if groupIndex < length (mUserGroupGraph um)
      then Some (int groupIndex,
        fold (\<lambda>(k, n). enque_node groupIndex n) (mUserVector (mUserGroupGraph um ! groupIndex)) um)
      else None)"

definition queryUserGraph :: "UsersManager \<Rightarrow> nat option \<Rightarrow> MyUserGraph option" where
  "queryUserGraph um pUserGraph =
     (case pUserGraph of
        None \<Rightarrow> None
      | Some groupIndex \<Rightarrow>
          if length (mUserGroupGraph um) \<le> groupIndex then None else Some (mUserGroupGraph um ! groupIndex))"

definition createGraph :: "UsersManager \<Rightarrow> nat option \<times> UsersManager" where
  "createGraph um =
     (if mUserInit um then (None, um)
      else let groupIndex = length (mUserGroupGraph um)
           in (Some groupIndex, um\<lparr>mUserGroupGraph := mUserGroupGraph um @ [MyUserGraph_new groupIndex]\<rparr>))"

definition enqueUserGraph :: "nat \<Rightarrow> UsersManager \<Rightarrow> (int \<times> UsersManager) option" where
  "enqueUserGraph groupIndex um =
     (if mUserInit um then Some (ALREADY_EXISTS, um) else enqueUserGraph_locked groupIndex um)"

definition finishUserSetup :: "UsersManager \<Rightarrow> MERROR \<times> UsersManager" where
  "finishUserSetup um = (OK, um\<lparr>mUserInit := True\<rparr>)"

section \<open>The status of users\<close>

text \<open>
  The position of the user in its map is the bit that is marked: a user that is not in the map or whose
  position has no bit among the 32 is a fault, \<open>None\<close>.
\<close>

definition mark_at :: "int \<Rightarrow> MyUserMap \<Rightarrow> (nat \<Rightarrow> MyUserMap) \<Rightarrow> MyUserMap option" where
  "mark_at userId m mark =
     (case kv_index (mUserMap m) userId of None \<Rightarrow> None | Some i \<Rightarrow> if i < 32 then Some (mark i) else None)"

definition mark_index :: "int \<Rightarrow> MUINT32 \<Rightarrow> MyUserMap \<Rightarrow> MyUserMap option" where
  "mark_index userId bitmask m =
     (if bitmask = USED then mark_at userId m (\<lambda>i. mBitSetUsed_update (bs_markBit i) m)
      else if bitmask = RELEASE then mark_at userId m (\<lambda>i. mBitSetReleased_update (bs_markBit i) m)
      else if bitmask = PRE_RELEASE then mark_at userId m (\<lambda>i. mBitSetPreReleased_update (bs_markBit i) m)
      else if bitmask = RELEASE_STILLUSE then mark_at userId m (\<lambda>i. mBitSetReleasedStillUse_update (bs_markBit i) m)
      else Some m)"

text \<open>
  The part of the loop body after the two \<open>continue\<close>s; the flag is \<open>False\<close> for the return
  with a wrong category.
\<close>

definition mark_one :: "int \<Rightarrow> nat \<Rightarrow> MUINT32 \<Rightarrow> UsersManager \<Rightarrow> (bool \<times> UsersManager) option" where
  "mark_one userId a bitmask um =
     (let um1 = um\<lparr>mUsers := (mUsers um)[a := mUserStatus_update (\<lambda>s. s OR bitmask) (mUsers um ! a)]\<rparr> in
      if mCategory (mUsers um ! a) = PRODUCER
      then map_option (\<lambda>m. (True, um1\<lparr>mProducerMap := m\<rparr>)) (mark_index userId bitmask (mProducerMap um1))
      else if mCategory (mUsers um ! a) = CONSUMER
      then map_option (\<lambda>m. (True, um1\<lparr>mConsumerMap := m\<rparr>)) (mark_index userId bitmask (mConsumerMap um1))
      else Some (False, um1))"

text \<open>
  The loop over the bits: \<open>bitmask\<close> is shifted once per round, so it takes the values
  \<open>2 ^ n\<close> for the \<open>n\<close> of the list \<open>[0..<32]\<close>; at the latest then \<open>mask\<close> is empty.
\<close>

fun mark_loop :: "int \<Rightarrow> nat \<Rightarrow> nat list \<Rightarrow> MUINT32 \<Rightarrow> UsersManager \<Rightarrow> (bool \<times> UsersManager) option" where
  "mark_loop userId a [] msk um = Some (True, um)"
| "mark_loop userId a (n # ns) msk um =
     (if msk = 0 then Some (True, um)
      else
        let bitmask = push_bit n 1 in
        if bitmask \<noteq> bitmask AND msk then mark_loop userId a ns msk um
        else
          let msk' = msk AND NOT bitmask in
          if bitmask = bitmask AND mUserStatus (mUsers um ! a) then mark_loop userId a ns msk' um
          else
            (case mark_one userId a bitmask um of
               None \<Rightarrow> None
             | Some (ok, um1) \<Rightarrow> if ok then mark_loop userId a ns msk' um1 else Some (False, um1)))"

definition markUserStatus :: "int \<Rightarrow> MUINT32 \<Rightarrow> UsersManager \<Rightarrow> (MUINT32 \<times> UsersManager) option" where
  "markUserStatus userId statusMask um =
     (if \<not> mUserInit um then Some (0, um)
      else case queryUser um userId of
        None \<Rightarrow> Some (0, um)
      | Some a \<Rightarrow> do {
          (ok, um1) \<leftarrow> mark_loop userId a [0..<32] statusMask um;
          Some (if ok then mUserStatus (mUsers um1 ! a) else 0, um1)
        })"

definition getUserStatus :: "UsersManager \<Rightarrow> int \<Rightarrow> MUINT32" where
  "getUserStatus um userId =
     (if \<not> mUserInit um then 0
      else case queryUser um userId of None \<Rightarrow> 0 | Some a \<Rightarrow> mUserStatus (mUsers um ! a))"

definition getUserCategory :: "UsersManager \<Rightarrow> int \<Rightarrow> MUINT32" where
  "getUserCategory um userId =
     (if \<not> mUserInit um then NONE
      else case queryUser um userId of None \<Rightarrow> NONE | Some a \<Rightarrow> mCategory (mUsers um ! a))"

definition setUserReleaseFence :: "int \<Rightarrow> int \<Rightarrow> UsersManager \<Rightarrow> MERROR \<times> UsersManager" where
  "setUserReleaseFence userId releaseFence um =
     (if \<not> mUserInit um then (NO_INIT, um)
      else case queryUser um userId of
        None \<Rightarrow> (NAME_NOT_FOUND, um)
      | Some a \<Rightarrow>
          if (case mReleaseFence (mUsers um ! a) of
                None \<Rightarrow> False | Some RF \<Rightarrow> isValid RF \<and> getFd RF = releaseFence)
          then (ALREADY_EXISTS, um)
          else (OK, um\<lparr>mUsers := (mUsers um)[a :=
                 (mUsers um ! a)\<lparr>mReleaseFence := Some (fence_create releaseFence)\<rparr>]\<rparr>))"

definition queryGroupUsage :: "UsersManager \<Rightarrow> int \<Rightarrow> MUINT32" where
  "queryGroupUsage um userId =
     (if \<not> mUserInit um then 0
      else case queryUser um userId of
        None \<Rightarrow> 0
      | Some a \<Rightarrow>
          let u = mUsers um ! a in
          if mCategory u = PRODUCER then mUsage u
          else if mCategory u = CONSUMER then mConsumerUsage (mUserGroupGraph um ! mGroupIndex u)
          else 0)"

definition getNumberOfProducers :: "UsersManager \<Rightarrow> nat" where
  "getNumberOfProducers um = (if \<not> mUserInit um then 0 else length (mUserMap (mProducerMap um)))"

definition getNumberOfConsumers :: "UsersManager \<Rightarrow> nat" where
  "getNumberOfConsumers um = (if \<not> mUserInit um then 0 else length (mUserMap (mConsumerMap um)))"

section \<open>Fences\<close>

text \<open>
  The loop over the prior users: the release fences of the others are merged in the order of
  the list; at the user itself its acquire fence is added and the result duplicated.
\<close>

definition add_fence :: "'k sync_kernel \<Rightarrow> IFence option \<Rightarrow> IFence \<Rightarrow> 'k \<Rightarrow> IFence option \<times> 'k" where
  "add_fence K fence RF k =
     (case fence of
        None \<Rightarrow> let (fd, k') = fence_dup K RF k in (Some (fence_create fd), k')
      | Some f \<Rightarrow> let (f', k') = fence_merge K f RF k in (Some f', k'))"

fun acquire_loop ::
    "'k sync_kernel \<Rightarrow> users \<Rightarrow> int \<Rightarrow> nat list \<Rightarrow> IFence option \<Rightarrow> 'k \<Rightarrow> int \<times> 'k" where
  "acquire_loop K us userId [] fence k = (- 1, k)"
| "acquire_loop K us userId (a # as) fence k =
     (let myUser = us ! a in
      if userId = mUserId myUser then
        (case mAcquireFence myUser of
           Some AF \<Rightarrow>
             (case fence of
                None \<Rightarrow> fence_dup K AF k
              | Some f \<Rightarrow> let (AF_priorRFs, k') = fence_merge K f AF k in fence_dup K AF_priorRFs k')
         | None \<Rightarrow>
             (case fence of None \<Rightarrow> (- 1, k) | Some f \<Rightarrow> fence_dup K f k))
      else
        (case mReleaseFence myUser of
           None \<Rightarrow> acquire_loop K us userId as fence k
         | Some RF \<Rightarrow>
             let (fence', k') = add_fence K fence RF k
             in acquire_loop K us userId as fence' k'))"

definition createAcquireFence ::
    "'k sync_kernel \<Rightarrow> UsersManager \<Rightarrow> int \<Rightarrow> 'k \<Rightarrow> (int \<times> 'k) option" where
  "createAcquireFence K um userId k =
     (if \<not> mUserInit um then Some (- 1, k)
      else case queryUser um userId of
        None \<Rightarrow> Some (- 1, k)
      | Some a \<Rightarrow>
          if mGroupIndex (mUsers um ! a) = 0 then do {
            (e, result) \<leftarrow> getPriorUsers (mUserGroupGraph um ! 0) userId;
            Some (if e < 0 then (UNKNOWN_ERROR, k)
                  else acquire_loop K (mUsers um) userId result None k)
          }
          else Some (- 1, k))"

definition createReleaseFence ::
    "'k sync_kernel \<Rightarrow> UsersManager \<Rightarrow> int \<Rightarrow> 'k \<Rightarrow> int \<times> 'k" where
  "createReleaseFence K um userId k =
     (if \<not> mUserInit um then (- 1, k)
      else case queryUser um userId of
        None \<Rightarrow> (- 1, k)
      | Some a \<Rightarrow> (case mReleaseFence (mUsers um ! a) of None \<Rightarrow> (- 1, k) | Some RF \<Rightarrow> fence_dup K RF k))"

text \<open>All users of all graphs, in the order of the graphs and of the ids in a graph.\<close>

definition all_graph_users :: "UsersManager \<Rightarrow> MyUser list" where
  "all_graph_users um =
     concat (map (\<lambda>g. map (\<lambda>(k, n). mUsers um ! mMyUser n) (mUserVector g)) (mUserGroupGraph um))"

fun first_acquire :: "'k sync_kernel \<Rightarrow> MyUser list \<Rightarrow> 'k \<Rightarrow> int \<times> 'k" where
  "first_acquire K [] k = (- 1, k)"
| "first_acquire K (u # us) k =
     (case mAcquireFence u of
        None \<Rightarrow> first_acquire K us k
      | Some AF \<Rightarrow> if getFd AF = - 1 then first_acquire K us k else fence_dup K AF k)"

definition createAcquireFence_all :: "'k sync_kernel \<Rightarrow> UsersManager \<Rightarrow> 'k \<Rightarrow> int \<times> 'k" where
  "createAcquireFence_all K um k =
     (if \<not> mUserInit um then (- 1, k) else first_acquire K (all_graph_users um) k)"

fun merge_release :: "'k sync_kernel \<Rightarrow> MyUser list \<Rightarrow> IFence option \<Rightarrow> 'k \<Rightarrow> int \<times> 'k" where
  "merge_release K [] fence k = (case fence of None \<Rightarrow> (- 1, k) | Some f \<Rightarrow> fence_dup K f k)"
| "merge_release K (u # us) fence k =
     (case mReleaseFence u of
        None \<Rightarrow> merge_release K us fence k
      | Some RF \<Rightarrow> let (fence', k') = add_fence K fence RF k in merge_release K us fence' k')"

definition createReleaseFence_all :: "'k sync_kernel \<Rightarrow> UsersManager \<Rightarrow> 'k \<Rightarrow> int \<times> 'k" where
  "createReleaseFence_all K um k =
     (if \<not> mUserInit um then (- 1, k) else merge_release K (all_graph_users um) None k)"

section \<open>Who has released\<close>

definition has :: "MUINT32 \<Rightarrow> MUINT32 \<Rightarrow> bool" where
  "has status flag \<longleftrightarrow> status AND flag \<noteq> 0"

definition haveAllUsersReleasedOrPreReleased :: "UsersManager \<Rightarrow> int \<Rightarrow> MERROR option" where
  "haveAllUsersReleasedOrPreReleased um userId =
     (if \<not> mUserInit um then Some NO_INIT
      else case queryUser um userId of
        None \<Rightarrow> Some NAME_NOT_FOUND
      | Some a \<Rightarrow>
          if mGroupIndex (mUsers um ! a) = 0 then do {
            (err, result) \<leftarrow> getPriorUsers (mUserGroupGraph um ! 0) userId;
            Some (if err \<noteq> OK then err
                  else if (\<forall>b \<in> set result. let u = mUsers um ! b in
                         userId = mUserId u \<or> NONE = mCategory u \<or>
                         has (mUserStatus u) RELEASE \<or> has (mUserStatus u) RELEASE_STILLUSE \<or>
                         has (mUserStatus u) PRE_RELEASE)
                  then OK else NO_INIT)
          }
          else Some UNKNOWN_ERROR)"

definition haveAllUsersReleasedLocked :: "UsersManager \<Rightarrow> MERROR" where
  "haveAllUsersReleasedLocked um =
     (if \<not> mUserInit um then NO_INIT
      else if length (mUserMap (mConsumerMap um)) = bs_count (mBitSetReleased (mConsumerMap um)) \<and>
              length (mUserMap (mProducerMap um)) = bs_count (mBitSetReleased (mProducerMap um))
      then OK else UNKNOWN_ERROR)"

definition haveAllUsersReleased :: "UsersManager \<Rightarrow> MERROR" where
  "haveAllUsersReleased um = haveAllUsersReleasedLocked um"

definition haveAllUsersReleasedOrPreReleasedLocked :: "UsersManager \<Rightarrow> MERROR" where
  "haveAllUsersReleasedOrPreReleasedLocked um =
     (if \<not> mUserInit um then NO_INIT
      else if bs_count (mBitSetReleased (mConsumerMap um) OR mBitSetPreReleased (mConsumerMap um))
                \<noteq> length (mUserMap (mConsumerMap um)) then UNKNOWN_ERROR
      else if bs_count (mBitSetReleased (mProducerMap um) OR mBitSetPreReleased (mProducerMap um))
                \<noteq> length (mUserMap (mProducerMap um)) then UNKNOWN_ERROR
      else OK)"

definition getAllUsersStatus :: "UsersManager \<Rightarrow> MUINT32" where
  "getAllUsersStatus um =
     (if haveAllUsersReleasedLocked um = OK then RELEASE
      else if haveAllUsersReleasedOrPreReleasedLocked um = OK then PRE_RELEASE
      else 0)"

definition haveAllProducerUsersReleased :: "UsersManager \<Rightarrow> MERROR" where
  "haveAllProducerUsersReleased um =
     (if \<not> mUserInit um then NO_INIT
      else if length (mUserMap (mProducerMap um)) = bs_count (mBitSetReleased (mProducerMap um))
      then OK else UNKNOWN_ERROR)"

definition haveAllProducerUsersUsed :: "UsersManager \<Rightarrow> MERROR" where
  "haveAllProducerUsersUsed um =
     (if \<not> mUserInit um then NO_INIT
      else if length (mUserMap (mProducerMap um)) = bs_count (mBitSetUsed (mProducerMap um))
      then OK else UNKNOWN_ERROR)"

section \<open>The calls of a client on a graph of the manager\<close>

definition on_graph :: "nat \<Rightarrow> (users \<times> MyUserGraph \<Rightarrow> users \<times> MyUserGraph) \<Rightarrow> UsersManager \<Rightarrow> UsersManager" where
  "on_graph i f um =
     (let (us, g) = f (mUsers um, mUserGroupGraph um ! i)
      in um\<lparr>mUsers := us, mUserGroupGraph := (mUserGroupGraph um)[i := g]\<rparr>)"

text \<open>
  The managers a client can get: any operation in any order, with one restriction, that no
  user is taken out of its graph once it is in a map.
\<close>

inductive um_reach :: "UsersManager \<Rightarrow> bool" where
  new: "um_reach (UsersManager_new subject name)"
| createGraph: "um_reach um \<Longrightarrow> um_reach (snd (createGraph um))"
| addUser: "um_reach um \<Longrightarrow> i < length (mUserGroupGraph um) \<Longrightarrow>
    um_reach (on_graph i (\<lambda>s. snd (addUser usr s)) um)"
| addEdge: "um_reach um \<Longrightarrow> i < length (mUserGroupGraph um) \<Longrightarrow>
    um_reach (on_graph i (\<lambda>(us, g). (us, snd (graph_addEdge s d g))) um)"
| removeEdge: "um_reach um \<Longrightarrow> i < length (mUserGroupGraph um) \<Longrightarrow>
    um_reach (on_graph i (\<lambda>(us, g). (us, snd (graph_removeEdge s d g))) um)"
| removeUser: "um_reach um \<Longrightarrow> i < length (mUserGroupGraph um) \<Longrightarrow>
    removeUser u (mUserGroupGraph um ! i) = Some (e, g') \<Longrightarrow>
    map_of (mUserMap (mProducerMap um)) u = None \<Longrightarrow> map_of (mUserMap (mConsumerMap um)) u = None \<Longrightarrow>
    um_reach (on_graph i (\<lambda>(us, g). (us, g')) um)"
| setAcquireFence: "um_reach um \<Longrightarrow> i < length (mUserGroupGraph um) \<Longrightarrow>
    graph_setAcquireFence j fd (mUsers um, mUserGroupGraph um ! i) = Some (e, us') \<Longrightarrow>
    um_reach (um\<lparr>mUsers := us'\<rparr>)"
| enqueUserGraph: "um_reach um \<Longrightarrow> enqueUserGraph i um = Some (r, um') \<Longrightarrow> um_reach um'"
| finishUserSetup: "um_reach um \<Longrightarrow> um_reach (snd (finishUserSetup um))"
| markUserStatus: "um_reach um \<Longrightarrow> markUserStatus u msk um = Some (r, um') \<Longrightarrow> um_reach um'"
| setUserReleaseFence: "um_reach um \<Longrightarrow> um_reach (snd (setUserReleaseFence u fd um))"
| reset: "um_reach um \<Longrightarrow> um_reach (um_reset um)"

end
