(* ===== verification/UsersInv.thy ===== *)
theory UsersInv
  imports UsersManager
begin

text \<open>
  The invariant of \<open>UsersManager\<close>: the graphs are consistent, an entry of a map is a user of
  that category in one of the graphs, and the bit sets of a map say what the status words
  of its users say. The last is a refinement: the bit sets are a cache of the status words,
  indexed by the position in the map (\<open>bit_ok\<close>).
\<close>

section \<open>The parts of the invariant\<close>

type_synonym uvec = "nat \<times> (int, UserNode) kvec"

definition um_vecs :: "UsersManager \<Rightarrow> uvec list" where
  "um_vecs um = map (\<lambda>g. (mGraphIndex g, mUserVector g)) (mUserGroupGraph um)"

definition vec_ok :: "users \<Rightarrow> nat \<Rightarrow> uvec \<Rightarrow> bool" where
  "vec_ok us i gv \<longleftrightarrow>
     fst gv = i \<and> adj_wf mIn mOut (snd gv) \<and>
     (\<forall>k n. map_of (snd gv) k = Some n \<longrightarrow>
        mMyUser n < length us \<and> mUserId (us ! mMyUser n) = k \<and> mGroupIndex (us ! mMyUser n) = i)"

definition map_ok :: "users \<Rightarrow> uvec list \<Rightarrow> MUINT32 \<Rightarrow> (int, nat) kvec \<Rightarrow> bool" where
  "map_ok us vs cat m \<longleftrightarrow>
     kv_wf m \<and>
     (\<forall>k a. map_of m k = Some a \<longrightarrow>
        mCategory (us ! a) = cat \<and>
        (\<exists>i n. i < length vs \<and> map_of (snd (vs ! i)) k = Some n \<and> mMyUser n = a))"

definition bit_ok :: "users \<Rightarrow> (int, nat) kvec \<Rightarrow> MUINT32 \<Rightarrow> (MUINT32 \<Rightarrow> bool) \<Rightarrow> bool" where
  "bit_ok us m b P \<longleftrightarrow>
     (\<forall>i < 32. bs_hasBit i b \<longleftrightarrow> i < length m \<and> P (mUserStatus (us ! snd (m ! i))))"

definition bits_ok :: "users \<Rightarrow> MyUserMap \<Rightarrow> bool" where
  "bits_ok us m \<longleftrightarrow>
     bit_ok us (mUserMap m) (mBitSetPreReleased m) (\<lambda>s. bit s 1) \<and>
     bit_ok us (mUserMap m) (mBitSetUsed m) (\<lambda>s. bit s 2) \<and>
     bit_ok us (mUserMap m) (mBitSetReleased m) (\<lambda>s. bit s 3) \<and>
     bit_ok us (mUserMap m) (mBitSetReleasedStillUse m) (\<lambda>s. bit s 4)"

definition bits_zero :: "MyUserMap \<Rightarrow> bool" where
  "bits_zero m \<longleftrightarrow> mBitSetPreReleased m = 0 \<and> mBitSetUsed m = 0 \<and> mBitSetReleased m = 0 \<and>
     mBitSetReleasedStillUse m = 0"

definition um_core :: "users \<Rightarrow> uvec list \<Rightarrow> bool \<Rightarrow> MyUserMap \<Rightarrow> MyUserMap \<Rightarrow> bool" where
  "um_core us vs init p c \<longleftrightarrow>
     (\<forall>i < length vs. vec_ok us i (vs ! i)) \<and>
     map_ok us vs PRODUCER (mUserMap p) \<and> map_ok us vs CONSUMER (mUserMap c) \<and>
     bits_ok us p \<and> bits_ok us c \<and>
     (\<not> init \<longrightarrow> bits_zero p \<and> bits_zero c \<and>
        (\<forall>i < length vs. \<forall>k n. map_of (snd (vs ! i)) k = Some n \<longrightarrow> mUserStatus (us ! mMyUser n) = 0))"

definition um_inv :: "UsersManager \<Rightarrow> bool" where
  "um_inv um \<longleftrightarrow> um_core (mUsers um) (um_vecs um) (mUserInit um) (mProducerMap um) (mConsumerMap um)"

lemma length_um_vecs [simp]: "length (um_vecs um) = length (mUserGroupGraph um)"
  by (simp add: um_vecs_def)

lemma nth_um_vecs [simp]:
  "i < length (mUserGroupGraph um) \<Longrightarrow>
   um_vecs um ! i = (mGraphIndex (mUserGroupGraph um ! i), mUserVector (mUserGroupGraph um ! i))"
  by (simp add: um_vecs_def)

lemma map_ok_user:
  assumes "um_core us vs init p c" and "map_ok us vs cat m" and "map_of m k = Some a"
  shows "a < length us" and "mUserId (us ! a) = k" and "mCategory (us ! a) = cat"
    and "mGroupIndex (us ! a) < length vs"
    and "\<exists>n. map_of (snd (vs ! mGroupIndex (us ! a))) k = Some n \<and> mMyUser n = a"
proof -
  from assms(2,3) obtain i n where i: "i < length vs" "map_of (snd (vs ! i)) k = Some n" "mMyUser n = a"
    and cat: "mCategory (us ! a) = cat" unfolding map_ok_def by blast
  from assms(1) i(1) have v: "vec_ok us i (vs ! i)" by (simp add: um_core_def)
  show "a < length us" "mUserId (us ! a) = k" using v i(2,3) by (auto simp: vec_ok_def)
  have "mGroupIndex (us ! a) = i" using v i(2,3) by (auto simp: vec_ok_def)
  with i cat show "mCategory (us ! a) = cat" "mGroupIndex (us ! a) < length vs"
    "\<exists>n. map_of (snd (vs ! mGroupIndex (us ! a))) k = Some n \<and> mMyUser n = a" by auto
qed

lemma map_ok_nth:
  assumes "um_core us vs init p c" and "map_ok us vs cat m" and "i < length m"
  shows "snd (m ! i) < length us" and "mUserId (us ! snd (m ! i)) = fst (m ! i)"
    and "mCategory (us ! snd (m ! i)) = cat"
proof -
  have "distinct (kv_keys m)" using assms(2) by (auto simp: map_ok_def intro: kv_wf_distinct)
  then have "map_of m (fst (m ! i)) = Some (snd (m ! i))"
    using assms(3) by (simp add: kv_keys_def)
  from map_ok_user(1,2,3) [OF assms(1,2) this] show "snd (m ! i) < length us"
    and "mUserId (us ! snd (m ! i)) = fst (m ! i)" and "mCategory (us ! snd (m ! i)) = cat" .
qed

section \<open>Operations that leave the maps alone\<close>

lemma um_core_users:
  assumes core: "um_core us vs init p c" and len: "length us' = length us"
    and same: "\<And>a. a < length us \<Longrightarrow> mUserId (us' ! a) = mUserId (us ! a) \<and>
      mCategory (us' ! a) = mCategory (us ! a) \<and> mGroupIndex (us' ! a) = mGroupIndex (us ! a) \<and>
      mUserStatus (us' ! a) = mUserStatus (us ! a)"
  shows "um_core us' vs init p c"
proof -
  have vec: "vec_ok us' i (vs ! i)" if "i < length vs" for i
    using core that same len by (auto simp: um_core_def vec_ok_def)
  have m: "map_ok us' vs cat m" if "map_ok us vs cat m" for cat m
    using that same map_ok_user(1) [OF core that] unfolding map_ok_def by metis
  have b: "bit_ok us' m bs P" if "bit_ok us m bs P" "map_ok us vs cat m" for m bs P cat
    using that same map_ok_nth(1) [OF core that(2)] by (auto simp: bit_ok_def)
  have p: "map_ok us vs PRODUCER (mUserMap p)" and c: "map_ok us vs CONSUMER (mUserMap c)"
    and bits: "bits_ok us p" "bits_ok us c" using core by (auto simp: um_core_def)
  have "bits_ok us' p" "bits_ok us' c" using bits b [OF _ p] b [OF _ c] by (auto simp: bits_ok_def)
  moreover have "mUserStatus (us' ! mMyUser n) = mUserStatus (us ! mMyUser n)"
    if "i < length vs" "map_of (snd (vs ! i)) k = Some n" for i k n
    using core that same by (auto simp: um_core_def vec_ok_def)
  ultimately show ?thesis using core vec m p c unfolding um_core_def by auto
qed

lemma vec_ok_append: "vec_ok us i v \<Longrightarrow> vec_ok (us @ new) i v"
  unfolding vec_ok_def by (auto simp: nth_append intro: trans_less_add1)

text \<open>An edit of one graph, with users appended to the store.\<close>

lemma um_core_graph:
  assumes core: "um_core us vs init p c" and i: "i < length vs" and v: "vec_ok (us @ new) i v"
    and new: "\<And>u. u \<in> set new \<Longrightarrow> mUserStatus u = 0"
    and keep: "\<And>k n. map_of (snd (vs ! i)) k = Some n \<Longrightarrow>
      k \<in> set (kv_keys (mUserMap p)) \<union> set (kv_keys (mUserMap c)) \<Longrightarrow>
      \<exists>n'. map_of (snd v) k = Some n' \<and> mMyUser n' = mMyUser n"
    and src: "\<And>k n'. map_of (snd v) k = Some n' \<Longrightarrow>
      (\<exists>n. map_of (snd (vs ! i)) k = Some n \<and> mMyUser n' = mMyUser n) \<or> length us \<le> mMyUser n'"
  shows "um_core (us @ new) (vs[i := v]) init p c"
proof -
  have vec: "vec_ok (us @ new) j (vs[i := v] ! j)" if "j < length vs" for j
  proof (cases "j = i")
    case False
    from core that have "vec_ok us j (vs ! j)" by (simp add: um_core_def)
    with False show ?thesis by (simp add: vec_ok_append)
  qed (use v i in simp)
  have m: "map_ok (us @ new) (vs[i := v]) cat m"
    if ok: "map_ok us vs cat m" and sub: "set (kv_keys m) \<subseteq> set (kv_keys (mUserMap p)) \<union> set (kv_keys (mUserMap c))"
    for cat m
    unfolding map_ok_def
  proof (intro conjI allI impI)
    fix k a assume k: "map_of m k = Some a"
    note u = map_ok_user [OF core ok k]
    show "mCategory ((us @ new) ! a) = cat" using u(1,3) by (simp add: nth_append)
    from u(5) obtain n where n: "map_of (snd (vs ! mGroupIndex (us ! a))) k = Some n" "mMyUser n = a" by blast
    have kk: "k \<in> set (kv_keys (mUserMap p)) \<union> set (kv_keys (mUserMap c))"
      using sub kv_get_in_keys [OF k] by blast
    show "\<exists>j n. j < length (vs[i := v]) \<and> map_of (snd (vs[i := v] ! j)) k = Some n \<and> mMyUser n = a"
    proof (cases "mGroupIndex (us ! a) = i")
      case True
      with keep [OF _ kk] n obtain n' where "map_of (snd v) k = Some n'" "mMyUser n' = a" by auto
      with i show ?thesis by (intro exI [of _ i]) auto
    next
      case False
      with u(4) n show ?thesis by (intro exI [of _ "mGroupIndex (us ! a)"]) auto
    qed
  qed (use ok in \<open>simp add: map_ok_def\<close>)
  have b: "bit_ok (us @ new) m bs P" if "bit_ok us m bs P" "map_ok us vs cat m" for m bs P cat
    using that map_ok_nth(1) [OF core that(2)] by (auto simp: bit_ok_def nth_append)
  have p: "map_ok us vs PRODUCER (mUserMap p)" and c: "map_ok us vs CONSUMER (mUserMap c)"
    and bits: "bits_ok us p" "bits_ok us c" using core by (auto simp: um_core_def)
  have bits': "bits_ok (us @ new) p" "bits_ok (us @ new) c"
    using bits b [OF _ p] b [OF _ c] by (auto simp: bits_ok_def)
  have st: "mUserStatus ((us @ new) ! mMyUser n) = 0"
    if "\<not> init" "j < length vs" "map_of (snd (vs[i := v] ! j)) k = Some n" for j k n
  proof -
    have l: "mMyUser n < length (us @ new)" using vec [OF that(2)] that(3) by (auto simp: vec_ok_def)
    have "length us \<le> mMyUser n \<or>
        (\<exists>j' n0. j' < length vs \<and> map_of (snd (vs ! j')) k = Some n0 \<and> mMyUser n0 = mMyUser n)"
    proof (cases "j = i")
      case True
      with that(3) i have "map_of (snd v) k = Some n" by simp
      from src [OF this] i show ?thesis by auto
    next
      case False
      with that(2,3) show ?thesis by auto
    qed
    then consider "length us \<le> mMyUser n"
      | j' n0 where "j' < length vs" "map_of (snd (vs ! j')) k = Some n0" "mMyUser n0 = mMyUser n" by blast
    then show ?thesis
    proof cases
      case 1
      with l have "(us @ new) ! mMyUser n \<in> set new" by (simp add: nth_append)
      then show ?thesis by (rule new)
    next
      case 2
      then have "mUserStatus (us ! mMyUser n) = 0" "mMyUser n < length us"
        using core that(1) unfolding um_core_def vec_ok_def by metis+
      then show ?thesis by (simp add: nth_append)
    qed
  qed
  show ?thesis
    using core vec m [OF p] m [OF c] bits' st unfolding um_core_def by auto
qed

lemma um_vecs_update [simp]:
  "um_vecs (um\<lparr>mUserGroupGraph := (mUserGroupGraph um)[i := g]\<rparr>) = (um_vecs um)[i := (mGraphIndex g, mUserVector g)]"
  "um_vecs (um\<lparr>mUsers := us\<rparr>) = um_vecs um"
  "um_vecs (um\<lparr>mUserInit := b\<rparr>) = um_vecs um"
  "um_vecs (um\<lparr>mProducerMap := m\<rparr>) = um_vecs um"
  "um_vecs (um\<lparr>mConsumerMap := m\<rparr>) = um_vecs um"
  by (simp_all add: um_vecs_def map_update)

lemma um_inv_graph:
  assumes inv: "um_inv um" and i: "i < length (mUserGroupGraph um)"
    and f: "f (mUsers um, mUserGroupGraph um ! i) = (mUsers um @ new, g')"
    and v: "vec_ok (mUsers um @ new) i (mGraphIndex g', mUserVector g')"
    and new: "\<And>u. u \<in> set new \<Longrightarrow> mUserStatus u = 0"
    and keep: "\<And>k n. map_of (mUserVector (mUserGroupGraph um ! i)) k = Some n \<Longrightarrow>
      k \<in> set (kv_keys (mUserMap (mProducerMap um))) \<union> set (kv_keys (mUserMap (mConsumerMap um))) \<Longrightarrow>
      \<exists>n'. map_of (mUserVector g') k = Some n' \<and> mMyUser n' = mMyUser n"
    and src: "\<And>k n'. map_of (mUserVector g') k = Some n' \<Longrightarrow>
      (\<exists>n. map_of (mUserVector (mUserGroupGraph um ! i)) k = Some n \<and> mMyUser n' = mMyUser n) \<or>
      length (mUsers um) \<le> mMyUser n'"
  shows "um_inv (on_graph i f um)"
proof -
  have "um_core (mUsers um @ new) ((um_vecs um)[i := (mGraphIndex g', mUserVector g')]) (mUserInit um)
      (mProducerMap um) (mConsumerMap um)"
    by (rule um_core_graph [OF inv [unfolded um_inv_def]]) (use i v new keep src in auto)
  then show ?thesis by (simp add: um_inv_def on_graph_def f um_vecs_def map_update)
qed

lemma um_inv_vec: "um_inv um \<Longrightarrow> i < length (mUserGroupGraph um) \<Longrightarrow>
  vec_ok (mUsers um) i (mGraphIndex (mUserGroupGraph um ! i), mUserVector (mUserGroupGraph um ! i))"
  by (auto simp: um_inv_def um_core_def)


section \<open>Enqueuing a graph\<close>

lemma bits_ok_zero:
  assumes core: "um_core us vs False p c" and m: "map_ok us vs cat (mUserMap m)" and z: "bits_zero m"
  shows "bits_ok us m"
proof -
  have "mUserStatus (us ! snd (mUserMap m ! i)) = 0" if "i < length (mUserMap m)" for i
  proof -
    have "distinct (kv_keys (mUserMap m))" using m by (auto simp: map_ok_def intro: kv_wf_distinct)
    then have "map_of (mUserMap m) (fst (mUserMap m ! i)) = Some (snd (mUserMap m ! i))"
      using that by (simp add: kv_keys_def)
    with m obtain j n where "j < length vs" "map_of (snd (vs ! j)) (fst (mUserMap m ! i)) = Some n"
      "mMyUser n = snd (mUserMap m ! i)" unfolding map_ok_def by blast
    with core show ?thesis unfolding um_core_def by metis
  qed
  with z show ?thesis by (auto simp: bits_ok_def bit_ok_def bits_zero_def)
qed

lemma map_ok_add:
  assumes "map_ok us vs cat m" and "i < length vs" and "map_of (snd (vs ! i)) k = Some n"
    and "mCategory (us ! mMyUser n) = cat"
  shows "map_ok us vs cat (kv_add k (mMyUser n) m)"
  using assms unfolding map_ok_def by (auto simp: kv_wf_add)

lemma um_inv_enque_node:
  assumes inv: "um_inv um" and init: "\<not> mUserInit um" and i: "i < length (mUserGroupGraph um)"
    and n: "map_of (mUserVector (mUserGroupGraph um ! i)) k = Some n"
  shows "um_inv (enque_node i n um)" and "\<not> mUserInit (enque_node i n um)"
    and "um_vecs (enque_node i n um) = um_vecs um"
proof -
  let ?a = "mMyUser n" let ?u = "mUsers um ! ?a"
  have core: "um_core (mUsers um) (um_vecs um) False (mProducerMap um) (mConsumerMap um)"
    using inv init by (simp add: um_inv_def)
  have id: "mUserId ?u = k" using um_inv_vec [OF inv i] n by (simp add: vec_ok_def)
  have n': "map_of (snd (um_vecs um ! i)) k = Some n" using n i by simp
  have i': "i < length (um_vecs um)" using i by simp
  have vecs: "um_vecs (enque_node i n um) = um_vecs um"
  proof -
    let ?g = "mConsumerUsage_update (\<lambda>x. x OR mUsage ?u) (mUserGroupGraph um ! i)"
    have "(um_vecs um)[i := (mGraphIndex ?g, mUserVector ?g)] = um_vecs um"
      using nth_um_vecs [OF i] list_update_id [of "um_vecs um" i] by simp
    then show ?thesis by (simp add: enque_node_def Let_def um_vecs_def map_update)
  qed
  then show "um_vecs (enque_node i n um) = um_vecs um" .
  show "\<not> mUserInit (enque_node i n um)" using init by (simp add: enque_node_def Let_def)
  have p: "map_ok (mUsers um) (um_vecs um) PRODUCER (mUserMap (mProducerMap um))"
    and c: "map_ok (mUsers um) (um_vecs um) CONSUMER (mUserMap (mConsumerMap um))"
    and z: "bits_zero (mProducerMap um)" "bits_zero (mConsumerMap um)"
    using core by (simp_all add: um_core_def)
  have "um_core (mUsers um) (um_vecs um) False (mUserMap_update (kv_add k ?a) (mProducerMap um)) (mConsumerMap um)"
    if "mCategory ?u = PRODUCER"
  proof -
    have m: "map_ok (mUsers um) (um_vecs um) PRODUCER (mUserMap (mUserMap_update (kv_add k ?a) (mProducerMap um)))"
      using map_ok_add [OF p i' n' that] by simp
    have z': "bits_zero (mUserMap_update (kv_add k ?a) (mProducerMap um))" using z by (simp add: bits_zero_def)
    show ?thesis using core m z' bits_ok_zero [OF core m z'] by (simp add: um_core_def)
  qed
  moreover have "um_core (mUsers um) (um_vecs um) False (mProducerMap um) (mUserMap_update (kv_add k ?a) (mConsumerMap um))"
    if "mCategory ?u = CONSUMER"
  proof -
    have m: "map_ok (mUsers um) (um_vecs um) CONSUMER (mUserMap (mUserMap_update (kv_add k ?a) (mConsumerMap um)))"
      using map_ok_add [OF c i' n' that] by simp
    have z': "bits_zero (mUserMap_update (kv_add k ?a) (mConsumerMap um))" using z by (simp add: bits_zero_def)
    show ?thesis using core m z' bits_ok_zero [OF core m z'] by (simp add: um_core_def)
  qed
  ultimately show "um_inv (enque_node i n um)"
    using inv init unfolding um_inv_def vecs by (simp add: enque_node_def Let_def id)
qed

lemma um_inv_enque_nodes:
  assumes "um_inv um" and "\<not> mUserInit um" and "i < length (mUserGroupGraph um)"
    and "\<And>k n. (k, n) \<in> set ns \<Longrightarrow> map_of (mUserVector (mUserGroupGraph um ! i)) k = Some n"
  shows "um_inv (fold (\<lambda>(k, n). enque_node i n) ns um)"
  using assms
proof (induction ns arbitrary: um)
  case (Cons x ns)
  obtain k n where x: "x = (k, n)" by (cases x)
  let ?um = "enque_node i n um"
  have n: "map_of (mUserVector (mUserGroupGraph um ! i)) k = Some n" using Cons.prems(4) x by simp
  note one = um_inv_enque_node [OF Cons.prems(1,2,3) n]
  have len: "i < length (mUserGroupGraph ?um)"
    using Cons.prems(3) arg_cong [OF one(3), of length] by simp
  have "mUserVector (mUserGroupGraph ?um ! i) = mUserVector (mUserGroupGraph um ! i)"
    using arg_cong [OF one(3), of "\<lambda>vs. snd (vs ! i)"] Cons.prems(3) len by simp
  with Cons.prems(4) have src: "\<And>k n. (k, n) \<in> set ns \<Longrightarrow> map_of (mUserVector (mUserGroupGraph ?um ! i)) k = Some n"
    by simp
  have "um_inv (fold (\<lambda>(k, n). enque_node i n) ns ?um)" by (rule Cons.IH [OF one(1,2) len src])
  then show ?case by (simp add: x)
qed simp

lemma um_inv_enque:
  assumes inv: "um_inv um" and e: "enqueUserGraph i um = Some (r, um')"
  shows "um_inv um'"
proof (cases "mUserInit um")
  case True
  with e inv show ?thesis by (simp add: enqueUserGraph_def)
next
  case False
  with e have i: "i < length (mUserGroupGraph um)"
    and um': "um' = fold (\<lambda>(k, n). enque_node i n) (mUserVector (mUserGroupGraph um ! i)) um"
    by (auto simp: enqueUserGraph_def enqueUserGraph_locked_def split: if_splits)
  have "kv_wf (mUserVector (mUserGroupGraph um ! i))"
    using um_inv_vec [OF inv i] by (auto simp: vec_ok_def)
  then have "distinct (map fst (mUserVector (mUserGroupGraph um ! i)))"
    by (auto simp: kv_keys_def dest: kv_wf_distinct)
  then show ?thesis unfolding um' by (intro um_inv_enque_nodes [OF inv False i]) simp
qed

section \<open>Marking\<close>

lemma bit_exp32: "n < 32 \<Longrightarrow> bit (2 ^ n :: MUINT32) i \<longleftrightarrow> i = n"
  by (auto simp: bit_exp_iff)

lemma push_bit_inj: "n < 32 \<Longrightarrow> m < 32 \<Longrightarrow> push_bit n (1 :: MUINT32) = push_bit m 1 \<longleftrightarrow> n = m"
  using bit_exp32 [of n n] bit_exp32 [of m n] by auto

lemma and_push_bit: "n < 32 \<Longrightarrow> push_bit n 1 = push_bit n 1 AND (w :: MUINT32) \<longleftrightarrow> bit w n"
  unfolding word32_eq_iff by (auto simp: bit_and_iff bit_exp32)

lemma bit_or_push_bit: "n < 32 \<Longrightarrow> bit ((s :: MUINT32) OR push_bit n 1) j \<longleftrightarrow> j = n \<or> bit s j"
  by (auto simp: bit_or_iff bit_exp32)

lemma mark_index_eq:
  assumes "n < 32"
  shows "mark_index k (push_bit n 1) m =
    (if n = 2 then mark_at k m (\<lambda>i. mBitSetUsed_update (bs_markBit i) m)
     else if n = 3 then mark_at k m (\<lambda>i. mBitSetReleased_update (bs_markBit i) m)
     else if n = 1 then mark_at k m (\<lambda>i. mBitSetPreReleased_update (bs_markBit i) m)
     else if n = 4 then mark_at k m (\<lambda>i. mBitSetReleasedStillUse_update (bs_markBit i) m)
     else Some m)"
proof -
  have "push_bit 2 1 = (4 :: MUINT32)" "push_bit 3 1 = (8 :: MUINT32)" "push_bit 1 1 = (2 :: MUINT32)"
    "push_bit 4 1 = (16 :: MUINT32)" by simp_all
  with push_bit_inj [OF assms, of 2] push_bit_inj [OF assms, of 3] push_bit_inj [OF assms, of 1]
    push_bit_inj [OF assms, of 4]
  show ?thesis unfolding mark_index_def by simp
qed

text \<open>Every position of the maps has a bit.\<close>

definition um_fits :: "UsersManager \<Rightarrow> bool" where
  "um_fits um \<longleftrightarrow> length (mUserMap (mProducerMap um)) \<le> 32 \<and> length (mUserMap (mConsumerMap um)) \<le> 32"

definition mark_status :: "nat \<Rightarrow> nat \<Rightarrow> users \<Rightarrow> users" where
  "mark_status a n us = us[a := mUserStatus_update (\<lambda>s. s OR push_bit n 1) (us ! a)]"

lemma mark_status_nth:
  "mark_status a n us ! x =
     (if x = a \<and> a < length us then mUserStatus_update (\<lambda>s. s OR push_bit n 1) (us ! a) else us ! x)"
  unfolding mark_status_def 
  by (cases "a < length us") (simp_all add: nth_list_update linorder_not_less list_update_beyond)

lemma mark_status_same:
  "length (mark_status a n us) = length us"
  "mUserId (mark_status a n us ! x) = mUserId (us ! x)"
  "mCategory (mark_status a n us ! x) = mCategory (us ! x)"
  "mGroupIndex (mark_status a n us ! x) = mGroupIndex (us ! x)"
  "mUsage (mark_status a n us ! x) = mUsage (us ! x)"
  "mAcquireFence (mark_status a n us ! x) = mAcquireFence (us ! x)"
  "mReleaseFence (mark_status a n us ! x) = mReleaseFence (us ! x)"
  "x \<noteq> a \<Longrightarrow> mark_status a n us ! x = us ! x"
  by (simp_all add: mark_status_nth) (simp add: mark_status_def)

lemma mark_status_bit:
  assumes "n < 32" and "a < length us"
  shows "bit (mUserStatus (mark_status a n us ! x)) j \<longleftrightarrow> x = a \<and> j = n \<or> bit (mUserStatus (us ! x)) j"
  using assms bit_or_push_bit [OF assms(1), of "mUserStatus (us ! a)" j]
  by (cases "x = a") (simp_all add: mark_status_def del: push_bit_of_1)

lemma bit_ok_mark:
  assumes b: "bit_ok us m bs (\<lambda>s. bit s n)" and idx: "idx < length m" and a: "snd (m ! idx) = a"
    and inj: "\<And>j. j < length m \<Longrightarrow> snd (m ! j) = a \<Longrightarrow> j = idx" and n: "n < 32" and al: "a < length us"
    and i32: "idx < 32"
  shows "bit_ok (mark_status a n us) m (bs_markBit idx bs) (\<lambda>s. bit s n)"
  unfolding bit_ok_def
proof (intro allI impI)
  fix j :: nat assume j: "j < 32"
  have h: "bs_hasBit j (bs_markBit idx bs) \<longleftrightarrow> j = idx \<or> bs_hasBit j bs"
    using j i32 by auto
  have s: "bit (mUserStatus (mark_status a n us ! snd (m ! j))) n \<longleftrightarrow> snd (m ! j) = a \<or> bit (mUserStatus (us ! snd (m ! j))) n"
    using mark_status_bit [OF n al] by blast
  have bj: "bs_hasBit j bs \<longleftrightarrow> j < length m \<and> bit (mUserStatus (us ! snd (m ! j))) n"
    using b j by (simp add: bit_ok_def)
  show "bs_hasBit j (bs_markBit idx bs) \<longleftrightarrow> j < length m \<and> bit (mUserStatus (mark_status a n us ! snd (m ! j))) n"
    unfolding h s bj using inj [of j] idx a by blast
qed

lemma bit_ok_other:
  assumes "bit_ok us m bs (\<lambda>s. bit s j)" and "j \<noteq> n \<or> (\<forall>i < length m. snd (m ! i) \<noteq> a)" and "n < 32"
    and "a < length us"
  shows "bit_ok (mark_status a n us) m bs (\<lambda>s. bit s j)"
proof -
  have "bit (mUserStatus (mark_status a n us ! snd (m ! i))) j \<longleftrightarrow> bit (mUserStatus (us ! snd (m ! i))) j"
    if "i < length m" for i
    unfolding mark_status_bit [OF assms(3,4)] using assms(2) that by blast
  with assms(1) show ?thesis unfolding bit_ok_def by (simp cong: conj_cong)
qed

text \<open>
  One marked bit. \<open>m\<close> is the map of the user, \<open>m2\<close> the other one.
\<close>

lemma bits_ok_mark:
  assumes core: "um_core us vs init p c" and m: "map_ok us vs cat (mUserMap m)" and b: "bits_ok us m"
    and k: "map_of (mUserMap m) k = Some a" and n: "n < 32"
  shows "(\<exists>m'. mark_index k (push_bit n 1) m = Some m' \<and> mUserMap m' = mUserMap m \<and>
    bits_ok (mark_status a n us) m') \<or> mark_index k (push_bit n 1) m = None \<and> 32 < length (mUserMap m)"
proof -
  from k obtain idx where i: "kv_index (mUserMap m) k = Some idx"
    by (metis kv_index_None not_Some_eq option.distinct(1))
  note idx = kv_index_Some [OF i]
  have a: "snd (mUserMap m ! idx) = a" using idx k by simp
  have al: "a < length us" by (rule map_ok_user(1) [OF core m k])
  have inj: "j = idx" if "j < length (mUserMap m)" "snd (mUserMap m ! j) = a" for j
  proof -
    have "fst (mUserMap m ! j) = fst (mUserMap m ! idx)"
      using map_ok_nth(2) [OF core m that(1)] map_ok_nth(2) [OF core m conjunct1 [OF idx]] that(2) a by simp
    moreover have "distinct (kv_keys (mUserMap m))" using m by (auto simp: map_ok_def intro: kv_wf_distinct)
    ultimately show ?thesis
      using kv_index_nth [of "mUserMap m" j] kv_index_nth [of "mUserMap m" idx] that(1) idx by simp
  qed
  have r: "bit_ok (mark_status a n us) (mUserMap m) (if n = j then bs_markBit idx B else B) (\<lambda>s. bit s j)"
    if "bit_ok us (mUserMap m) B (\<lambda>s. bit s j)" "n = j \<Longrightarrow> idx < 32" for B j
  proof (cases "n = j")
    case True
    have "bit_ok us (mUserMap m) B (\<lambda>s. bit s n)" unfolding True by (rule that(1))
    from bit_ok_mark [OF this conjunct1 [OF idx] a inj n al that(2) [OF True]] show ?thesis unfolding if_P [OF True] unfolding True .
  next
    case False
    then show ?thesis using bit_ok_other [OF that(1) _ n al] by simp
  qed
  from b have b1: "bit_ok us (mUserMap m) (mBitSetPreReleased m) (\<lambda>s. bit s 1)"
    and b2: "bit_ok us (mUserMap m) (mBitSetUsed m) (\<lambda>s. bit s 2)"
    and b3: "bit_ok us (mUserMap m) (mBitSetReleased m) (\<lambda>s. bit s 3)"
    and b4: "bit_ok us (mUserMap m) (mBitSetReleasedStillUse m) (\<lambda>s. bit s 4)"
    by (simp_all add: bits_ok_def)
  let ?m = "m\<lparr>mBitSetPreReleased := (if n = 1 then bs_markBit idx (mBitSetPreReleased m) else mBitSetPreReleased m),
      mBitSetUsed := (if n = 2 then bs_markBit idx (mBitSetUsed m) else mBitSetUsed m),
      mBitSetReleased := (if n = 3 then bs_markBit idx (mBitSetReleased m) else mBitSetReleased m),
      mBitSetReleasedStillUse := (if n = 4 then bs_markBit idx (mBitSetReleasedStillUse m) else mBitSetReleasedStillUse m)\<rparr>"
  show ?thesis
  proof (cases "idx < 32 \<or> n \<notin> {1, 2, 3, 4}")
    case True
    have "mark_index k (push_bit n 1) m = Some ?m" unfolding mark_index_eq [OF n] mark_at_def i using True by auto
    moreover have "bits_ok (mark_status a n us) ?m"
      using r [OF b1] r [OF b2] r [OF b3] r [OF b4] True unfolding bits_ok_def by (intro conjI) auto
    ultimately show ?thesis by (intro disjI1 exI [of _ ?m]) simp
  next
    case False
    then have "mark_index k (push_bit n 1) m = None" unfolding mark_index_eq [OF n] mark_at_def i by auto
    with False idx show ?thesis by simp
  qed
qed

lemma bits_ok_mark_other:
  assumes core: "um_core us vs init p c" and m: "map_ok us vs cat (mUserMap m)" and b: "bits_ok us m"
    and cat: "mCategory (us ! a) \<noteq> cat" and n: "n < 32" and al: "a < length us"
  shows "bits_ok (mark_status a n us) m"
proof -
  have "\<forall>i < length (mUserMap m). snd (mUserMap m ! i) \<noteq> a" using map_ok_nth(3) [OF core m] cat by metis
  note other = bit_ok_other [OF _ disjI2 [OF this] n al]
  show ?thesis using b unfolding bits_ok_def by (intro conjI other) simp_all
qed

lemma um_core_status:
  assumes core: "um_core us vs True p c" and p: "mUserMap p' = mUserMap p" and c: "mUserMap c' = mUserMap c"
    and b: "bits_ok (mark_status a n us) p'" "bits_ok (mark_status a n us) c'"
  shows "um_core (mark_status a n us) vs True p' c'"
proof -
  let ?us = "mark_status a n us"
  note same = mark_status_same
  have "vec_ok ?us i (vs ! i)" if "i < length vs" for i
    using core that same by (auto simp: um_core_def vec_ok_def)
  moreover have "map_ok ?us vs cat m" if "map_ok us vs cat m" for cat m
    using that same unfolding map_ok_def by simp
  ultimately show ?thesis using core b p c unfolding um_core_def by simp
qed

definition um_user :: "UsersManager \<Rightarrow> int \<Rightarrow> nat \<Rightarrow> bool" where
  "um_user um k a \<longleftrightarrow>
     map_of (mUserMap (mProducerMap um)) k = Some a \<or>
     map_of (mUserMap (mProducerMap um)) k = None \<and> map_of (mUserMap (mConsumerMap um)) k = Some a"

lemma um_inv_mark_one:
  assumes inv: "um_inv um" and init: "mUserInit um" and k: "um_user um k a" and n: "n < 32"
  shows "(\<exists>um'. mark_one k a (push_bit n 1) um = Some (True, um') \<and> um_inv um' \<and> mUserInit um' \<and> um_user um' k a \<and>
    mUsers um' = mark_status a n (mUsers um) \<and>
    mUserGroupGraph um' = mUserGroupGraph um \<and>
    mUserMap (mProducerMap um') = mUserMap (mProducerMap um) \<and> mUserMap (mConsumerMap um') = mUserMap (mConsumerMap um)) \<or>
    mark_one k a (push_bit n 1) um = None \<and> \<not> um_fits um"
proof -
  let ?us = "mark_status a n (mUsers um)"
  have core: "um_core (mUsers um) (um_vecs um) True (mProducerMap um) (mConsumerMap um)"
    using inv init by (simp add: um_inv_def)
  then have p: "map_ok (mUsers um) (um_vecs um) PRODUCER (mUserMap (mProducerMap um))"
    and c: "map_ok (mUsers um) (um_vecs um) CONSUMER (mUserMap (mConsumerMap um))"
    and b: "bits_ok (mUsers um) (mProducerMap um)" "bits_ok (mUsers um) (mConsumerMap um)"
    by (simp_all add: um_core_def)
  from k consider "map_of (mUserMap (mProducerMap um)) k = Some a" | "map_of (mUserMap (mConsumerMap um)) k = Some a"
    by (auto simp: um_user_def)
  then show ?thesis
  proof cases
    case 1
    have cat: "mCategory (mUsers um ! a) = PRODUCER" by (rule map_ok_user(3) [OF core p 1])
    from bits_ok_mark [OF core p b(1) 1 n] consider (marked) m' where "mark_index k (push_bit n 1) (mProducerMap um) = Some m'"
      "mUserMap m' = mUserMap (mProducerMap um)" "bits_ok ?us m'"
      | (fault) "mark_index k (push_bit n 1) (mProducerMap um) = None" "\<not> um_fits um" by (auto simp: um_fits_def)
    then show ?thesis
    proof cases
      case m': (marked m')
      have "bits_ok ?us (mConsumerMap um)"
        by (rule bits_ok_mark_other [OF core c b(2) _ n map_ok_user(1) [OF core p 1]]) (simp add: cat)
      from um_core_status [OF core m'(2) refl m'(3) this] m' cat init k show ?thesis
        by (intro disjI1) (simp add: mark_one_def um_inv_def um_user_def um_vecs_def mark_status_def del: push_bit_of_1)
    next
      case fault
      then show ?thesis using cat by (simp add: mark_one_def del: push_bit_of_1)
    qed
  next
    case 2
    have cat: "mCategory (mUsers um ! a) = CONSUMER" by (rule map_ok_user(3) [OF core c 2])
    from bits_ok_mark [OF core c b(2) 2 n] consider (marked) m' where "mark_index k (push_bit n 1) (mConsumerMap um) = Some m'"
      "mUserMap m' = mUserMap (mConsumerMap um)" "bits_ok ?us m'"
      | (fault) "mark_index k (push_bit n 1) (mConsumerMap um) = None" "\<not> um_fits um" by (auto simp: um_fits_def)
    then show ?thesis
    proof cases
      case m': (marked m')
      have "bits_ok ?us (mProducerMap um)"
        by (rule bits_ok_mark_other [OF core p b(1) _ n map_ok_user(1) [OF core c 2]]) (simp add: cat)
      from um_core_status [OF core refl m'(2) this m'(3)] m' cat init k show ?thesis
        by (intro disjI1) (simp add: mark_one_def um_inv_def um_user_def um_vecs_def mark_status_def del: push_bit_of_1)
    next
      case fault
      then show ?thesis using cat by (simp add: mark_one_def del: push_bit_of_1)
    qed
  qed
qed


text \<open>The whole loop: only the status of the user changes, by the bits of the mask.\<close>

definition marks_only :: "nat \<Rightarrow> UsersManager \<Rightarrow> UsersManager \<Rightarrow> bool" where
  "marks_only a um um' \<longleftrightarrow>
     mUserInit um' = mUserInit um \<and> mUserGroupGraph um' = mUserGroupGraph um \<and>
     mUserMap (mProducerMap um') = mUserMap (mProducerMap um) \<and>
     mUserMap (mConsumerMap um') = mUserMap (mConsumerMap um) \<and>
     length (mUsers um') = length (mUsers um) \<and>
     (\<forall>x. x \<noteq> a \<longrightarrow> mUsers um' ! x = mUsers um ! x) \<and>
     (\<forall>x. mUserId (mUsers um' ! x) = mUserId (mUsers um ! x) \<and>
          mCategory (mUsers um' ! x) = mCategory (mUsers um ! x) \<and>
          mGroupIndex (mUsers um' ! x) = mGroupIndex (mUsers um ! x) \<and>
          mUsage (mUsers um' ! x) = mUsage (mUsers um ! x) \<and>
          mAcquireFence (mUsers um' ! x) = mAcquireFence (mUsers um ! x) \<and>
          mReleaseFence (mUsers um' ! x) = mReleaseFence (mUsers um ! x))"

lemma marks_only_refl: "marks_only a um um"
  by (simp add: marks_only_def)

lemma marks_only_fits: "marks_only a um um' \<Longrightarrow> um_fits um' = um_fits um"
  by (simp add: marks_only_def um_fits_def)

lemma marks_only_trans: "marks_only a x y \<Longrightarrow> marks_only a y z \<Longrightarrow> marks_only a x z"
  by (simp add: marks_only_def)

definition mark_done :: "int \<Rightarrow> nat \<Rightarrow> (nat \<Rightarrow> bool) \<Rightarrow> UsersManager \<Rightarrow> UsersManager \<Rightarrow> bool" where
  "mark_done k a B um um' \<longleftrightarrow>
     um_inv um' \<and> mUserInit um' \<and> um_user um' k a \<and> marks_only a um um' \<and>
     (\<forall>j. bit (mUserStatus (mUsers um' ! a)) j \<longleftrightarrow> bit (mUserStatus (mUsers um ! a)) j \<or> B j)"

lemma um_user_length: "um_inv um \<Longrightarrow> um_user um k a \<Longrightarrow> a < length (mUsers um)"
  unfolding um_inv_def um_user_def using map_ok_user(1) um_core_def by metis

lemma mark_one_done:
  assumes inv: "um_inv um" and init: "mUserInit um" and k: "um_user um k a" and n: "n < 32"
  shows "(\<exists>um'. mark_one k a (push_bit n 1) um = Some (True, um') \<and> mark_done k a (\<lambda>j. j = n) um um') \<or>
    mark_one k a (push_bit n 1) um = None \<and> \<not> um_fits um"
proof (cases "mark_one k a (push_bit n 1) um = None \<and> \<not> um_fits um")
  case False
  with um_inv_mark_one [OF assms] obtain um' where
    e: "mark_one k a (push_bit n 1) um = Some (True, um')" and inv': "um_inv um'" "mUserInit um'" "um_user um' k a"
    and us: "mUsers um' = mark_status a n (mUsers um)" and g: "mUserGroupGraph um' = mUserGroupGraph um"
    and m: "mUserMap (mProducerMap um') = mUserMap (mProducerMap um)"
      "mUserMap (mConsumerMap um') = mUserMap (mConsumerMap um)" by blast
  have "marks_only a um um'"
    unfolding marks_only_def us using inv' init g m by (simp add: mark_status_same)
  moreover have "bit (mUserStatus (mUsers um' ! a)) j \<longleftrightarrow> bit (mUserStatus (mUsers um ! a)) j \<or> j = n" for j
    unfolding us mark_status_bit [OF n um_user_length [OF inv k]] by blast
  ultimately show ?thesis using e inv' by (auto simp: mark_done_def)
qed simp

lemma mark_done_trans:
  assumes "mark_done k a P um um1" and "mark_done k a Q um1 um2" and "\<And>j. R j \<longleftrightarrow> P j \<or> Q j"
  shows "mark_done k a R um um2"
  using assms marks_only_trans [of a um um1 um2] unfolding mark_done_def by blast

lemma mark_loop_done:
  assumes "um_inv um" and "mUserInit um" and "um_user um k a" and "set ns \<subseteq> {..<32}" and "distinct ns"
  shows "(\<exists>um'. mark_loop k a ns msk um = Some (True, um') \<and>
    mark_done k a (\<lambda>j. j \<in> set ns \<and> bit msk j) um um') \<or> mark_loop k a ns msk um = None \<and> \<not> um_fits um"
  using assms
proof (induction ns arbitrary: um msk)
  case Nil
  then show ?case by (simp add: mark_done_def marks_only_refl)
next
  case (Cons n ns)
  let ?w = "push_bit n 1 :: MUINT32"
  have n: "n < 32" "n \<notin> set ns" and ns: "set ns \<subseteq> {..<32}" "distinct ns" using Cons.prems(4,5) by auto
  have rest: "(\<exists>um'. mark_loop k a ns w um1 = Some (True, um') \<and>
      mark_done k a (\<lambda>j. j \<in> set ns \<and> bit w j) um1 um') \<or> mark_loop k a ns w um1 = None \<and> \<not> um_fits um1"
    if "um_inv um1" "mUserInit um1" "um_user um1 k a" for w um1
    by (rule Cons.IH [OF that ns])
  have clear: "bit (msk AND NOT ?w) j \<longleftrightarrow> bit msk j" if "j \<in> set ns" for j
  proof -
    have "j \<noteq> n" "j < 32" using that n(2) ns(1) by auto
    then show ?thesis using n(1) by (simp add: bit_and_iff bit_not_iff bit_exp32)
  qed
  show ?case
  proof (cases "msk = 0")
    case True
    then show ?thesis using Cons.prems by (simp add: mark_done_def marks_only_refl)
  next
    case nz: False
    show ?thesis
    proof (cases "bit msk n")
      case False
      then have skip: "mark_loop k a (n # ns) msk um = mark_loop k a ns msk um"
        using nz and_push_bit [OF n(1), of msk] by (simp add: Let_def)
      have "(\<lambda>j. j \<in> set (n # ns) \<and> bit msk j) = (\<lambda>j. j \<in> set ns \<and> bit msk j)" using False by auto
      then show ?thesis unfolding skip using rest [OF Cons.prems(1-3), of msk] by simp
    next
      case m: True
      show ?thesis
      proof (cases "bit (mUserStatus (mUsers um ! a)) n")
        case True
        then have skip: "mark_loop k a (n # ns) msk um = mark_loop k a ns (msk AND NOT ?w) um"
          using nz m and_push_bit [OF n(1), of msk] and_push_bit [OF n(1), of "mUserStatus (mUsers um ! a)"]
          by (simp add: Let_def)
        have "mark_done k a (\<lambda>j. j \<in> set (n # ns) \<and> bit msk j) um um'"
          if "mark_done k a (\<lambda>j. j \<in> set ns \<and> bit (msk AND NOT ?w) j) um um'" for um'
          using that clear True m unfolding mark_done_def by auto
        then show ?thesis unfolding skip using rest [OF Cons.prems(1-3), of "msk AND NOT ?w"] by blast
      next
        case False
        have skip: "mark_loop k a (n # ns) msk um = (case mark_one k a ?w um of None \<Rightarrow> None
            | Some (ok, um1) \<Rightarrow> if ok then mark_loop k a ns (msk AND NOT ?w) um1 else Some (False, um1))"
          using nz m False and_push_bit [OF n(1), of msk] and_push_bit [OF n(1), of "mUserStatus (mUsers um ! a)"]
          by (simp add: Let_def del: push_bit_of_1)
        from mark_one_done [OF Cons.prems(1-3) n(1)] show ?thesis
        proof (elim disjE exE conjE)
          fix um1 assume o: "mark_one k a ?w um = Some (True, um1)" and d1: "mark_done k a (\<lambda>j. j = n) um um1"
          have f: "um_fits um1 = um_fits um" using d1 marks_only_fits by (auto simp: mark_done_def)
          have "mark_done k a (\<lambda>j. j \<in> set (n # ns) \<and> bit msk j) um um'"
            if "mark_done k a (\<lambda>j. j \<in> set ns \<and> bit (msk AND NOT ?w) j) um1 um'" for um'
            by (rule mark_done_trans [OF d1 that]) (use clear m in auto)
          moreover have "um_inv um1" "mUserInit um1" "um_user um1 k a" using d1 by (simp_all add: mark_done_def)
          ultimately show ?thesis using rest [of um1 "msk AND NOT ?w"] f unfolding skip o by auto
        next
          assume "mark_one k a ?w um = None" "\<not> um_fits um"
          then show ?thesis unfolding skip by simp
        qed
      qed
    qed
  qed
qed

lemma queryUser_Some:
  assumes "um_inv um"
  shows "queryUser um k = Some a \<longleftrightarrow> um_user um k a"
proof -
  have core: "um_core (mUsers um) (um_vecs um) (mUserInit um) (mProducerMap um) (mConsumerMap um)"
    using assms by (simp add: um_inv_def)
  then have "map_ok (mUsers um) (um_vecs um) PRODUCER (mUserMap (mProducerMap um))"
    and "map_ok (mUsers um) (um_vecs um) CONSUMER (mUserMap (mConsumerMap um))" by (simp_all add: um_core_def)
  note g = map_ok_user(4) [OF core this(1)] map_ok_user(4) [OF core this(2)]
  show ?thesis
  proof (cases "map_of (mUserMap (mProducerMap um)) k")
    case None
    then show ?thesis using g(2) [of k]
      by (cases "map_of (mUserMap (mConsumerMap um)) k") (auto simp: queryUser_def um_user_def)
  next
    case (Some b)
    then show ?thesis using g(1) [of k] by (auto simp: queryUser_def um_user_def)
  qed
qed

lemma queryUser_None:
  assumes "um_inv um"
  shows "queryUser um k = None \<longleftrightarrow>
    k \<notin> set (kv_keys (mUserMap (mProducerMap um))) \<union> set (kv_keys (mUserMap (mConsumerMap um)))"
proof -
  have "queryUser um k = None \<longleftrightarrow> (\<forall>a. \<not> um_user um k a)"
    using queryUser_Some [OF assms, of k] by (cases "queryUser um k") auto
  then show ?thesis unfolding um_user_def by (auto simp: kv_get_None [symmetric])
qed

lemma markUserStatus_cases:
  assumes "um_inv um" and "mUserInit um" and "queryUser um k = Some a"
  shows "(\<exists>um'. markUserStatus k msk um = Some (mUserStatus (mUsers um ! a) OR msk, um') \<and> um_inv um' \<and>
    marks_only a um um' \<and> mUserStatus (mUsers um' ! a) = mUserStatus (mUsers um ! a) OR msk) \<or>
    markUserStatus k msk um = None \<and> \<not> um_fits um"
proof -
  have u: "um_user um k a" using assms(1,3) by (simp add: queryUser_Some)
  have "set [0..<32] \<subseteq> {..<32 :: nat}" by auto
  from mark_loop_done [OF assms(1,2) u this distinct_upt, of msk] show ?thesis
  proof (elim disjE exE conjE)
    fix um' assume r: "mark_loop k a [0..<32] msk um = Some (True, um')"
      and d: "mark_done k a (\<lambda>j. j \<in> set [0..<32] \<and> bit msk j) um um'"
    have "mUserStatus (mUsers um' ! a) = mUserStatus (mUsers um ! a) OR msk"
      unfolding word32_eq_iff using d by (auto simp: mark_done_def bit_or_iff)
    with r d assms(2,3) show ?thesis
      by (intro disjI1 exI [of _ um']) (simp add: markUserStatus_def mark_done_def del: upt_rec_numeral)
  next
    assume "mark_loop k a [0..<32] msk um = None" "\<not> um_fits um"
    then show ?thesis using assms(2,3) by (simp add: markUserStatus_def del: upt_rec_numeral)
  qed
qed

text \<open>With a bit for every position a mark never faults.\<close>

lemma markUserStatus_done:
  assumes "um_inv um" and "mUserInit um" and "queryUser um k = Some a" and "um_fits um"
  shows "\<exists>um'. markUserStatus k msk um = Some (mUserStatus (mUsers um ! a) OR msk, um') \<and> um_inv um' \<and>
    marks_only a um um' \<and> mUserStatus (mUsers um' ! a) = mUserStatus (mUsers um ! a) OR msk"
  using markUserStatus_cases [OF assms(1-3), of msk] assms(4) by blast


section \<open>Every reachable manager keeps the invariant\<close>

lemma um_inv_new: "um_inv (UsersManager_new subject name)"
  by (simp add: um_inv_def um_vecs_def UsersManager_new_def um_core_def map_ok_def bits_ok_def bit_ok_def
      bits_zero_def MyUserMap_empty_def)

lemma um_inv_reset: "um_inv (um_reset um)"
  by (simp add: um_inv_def um_vecs_def um_reset_def um_core_def map_ok_def bits_ok_def bit_ok_def
      bits_zero_def MyUserMap_empty_def)

lemma um_inv_same_users:
  assumes "um_inv um" and "length us' = length (mUsers um)"
    and "\<And>a. a < length (mUsers um) \<Longrightarrow> mUserId (us' ! a) = mUserId (mUsers um ! a) \<and>
      mCategory (us' ! a) = mCategory (mUsers um ! a) \<and> mGroupIndex (us' ! a) = mGroupIndex (mUsers um ! a) \<and>
      mUserStatus (us' ! a) = mUserStatus (mUsers um ! a)"
  shows "um_inv (um\<lparr>mUsers := us'\<rparr>)"
  using um_core_users [OF _ assms(2,3)] assms(1) by (simp add: um_inv_def)

lemma um_inv_createGraph:
  assumes "um_inv um" shows "um_inv (snd (createGraph um))"
proof (cases "mUserInit um")
  case False
  let ?g = "MyUserGraph_new (length (mUserGroupGraph um))"
  have core: "um_core (mUsers um) (um_vecs um) False (mProducerMap um) (mConsumerMap um)"
    using assms False by (simp add: um_inv_def)
  let ?vs = "um_vecs um @ [(length (mUserGroupGraph um), [])]"
  have m: "map_ok (mUsers um) ?vs cat m" if "map_ok (mUsers um) (um_vecs um) cat m" for cat m
    unfolding map_ok_def
  proof (intro conjI allI impI)
    fix k a assume "map_of m k = Some a"
    with that obtain i n where "i < length (um_vecs um)" "map_of (snd (um_vecs um ! i)) k = Some n" "mMyUser n = a"
      unfolding map_ok_def by blast
    then show "\<exists>i n. i < length ?vs \<and> map_of (snd (?vs ! i)) k = Some n \<and> mMyUser n = a"
      by (intro exI [of _ i] exI [of _ n]) (simp add: nth_append)
  qed (use that in \<open>auto simp: map_ok_def\<close>)
  have "vec_ok (mUsers um) i (?vs ! i)" if "i < length ?vs" for i
    using core that by (auto simp: um_core_def nth_append less_Suc_eq vec_ok_def)
  moreover have "mUserStatus (mUsers um ! mMyUser n) = 0" if "i < length ?vs" "map_of (snd (?vs ! i)) k = Some n" for i k n
    using core that by (auto simp: um_core_def nth_append less_Suc_eq)
  ultimately have "um_core (mUsers um) ?vs False (mProducerMap um) (mConsumerMap um)"
    using core m unfolding um_core_def by auto
  then show ?thesis using False by (simp add: um_inv_def createGraph_def Let_def um_vecs_def MyUserGraph_new_def)
qed (use assms in \<open>simp add: createGraph_def\<close>)

lemma vec_ok_user_eq:
  assumes "vec_ok us i (gi, v)" and "gi' = gi" and "adj_wf mIn mOut v'"
    and "map_option mMyUser \<circ> map_of v' = map_option mMyUser \<circ> map_of v"
  shows "vec_ok us i (gi', v')"
proof -
  have "\<exists>n0. map_of v k = Some n0 \<and> mMyUser n0 = mMyUser n" if "map_of v' k = Some n" for k n
    using fun_cong [OF assms(4), of k] that by (cases "map_of v k") auto
  with assms show ?thesis unfolding vec_ok_def by fastforce
qed

lemma um_inv_same_graph:
  assumes inv: "um_inv um" and i: "i < length (mUserGroupGraph um)"
    and g: "f (mUsers um, mUserGroupGraph um ! i) = (mUsers um, g')"
    and gi: "mGraphIndex g' = mGraphIndex (mUserGroupGraph um ! i)" and wf: "ug_wf g'"
    and same: "map_option mMyUser \<circ> map_of (mUserVector g') = map_option mMyUser \<circ> map_of (mUserVector (mUserGroupGraph um ! i))"
  shows "um_inv (on_graph i f um)"
proof (rule um_inv_graph [OF inv i, of _ "[]" g'])
  show "vec_ok (mUsers um @ []) i (mGraphIndex g', mUserVector g')"
    using vec_ok_user_eq [OF um_inv_vec [OF inv i] gi wf same] by simp
  fix k n assume "map_of (mUserVector (mUserGroupGraph um ! i)) k = Some n"
  with fun_cong [OF same, of k] show "\<exists>n'. map_of (mUserVector g') k = Some n' \<and> mMyUser n' = mMyUser n"
    by auto
next
  fix k n assume "map_of (mUserVector g') k = Some n"
  with fun_cong [OF same, of k]
  have "\<exists>n0. map_of (mUserVector (mUserGroupGraph um ! i)) k = Some n0 \<and> mMyUser n = mMyUser n0"
    by (cases "map_of (mUserVector (mUserGroupGraph um ! i)) k") auto
  then show "(\<exists>n0. map_of (mUserVector (mUserGroupGraph um ! i)) k = Some n0 \<and> mMyUser n = mMyUser n0) \<or>
      length (mUsers um) \<le> mMyUser n" ..
qed (use g in simp_all)

lemma um_inv_addUser:
  assumes inv: "um_inv um" and i: "i < length (mUserGroupGraph um)"
  shows "um_inv (on_graph i (\<lambda>s. snd (addUser usr s)) um)"
proof -
  let ?g = "mUserGroupGraph um ! i" let ?us = "mUsers um"
  have v: "vec_ok ?us i (mGraphIndex ?g, mUserVector ?g)" by (rule um_inv_vec [OF inv i])
  then have wf: "ug_wf ?g" and gi: "mGraphIndex ?g = i" by (simp_all add: vec_ok_def)
  show ?thesis
  proof (cases "usr_mUserId usr \<in> set (ug_ids ?g)")
    case True
    then show ?thesis using v wf
      by (intro um_inv_same_graph [OF inv i, of _ ?g]) (simp_all add: addUser_def)
  next
    case False
    let ?n = "\<lparr>mMyUser = length ?us, mIn = [], mOut = []\<rparr>"
    let ?g' = "?g\<lparr>mUserVector := kv_add (usr_mUserId usr) ?n (mUserVector ?g)\<rparr>"
    let ?new = "[MyUser_new usr (mGraphIndex ?g)]"
    have a: "addUser usr (?us, ?g) = (OK, ?us @ ?new, ?g')" using False by (simp add: addUser_def)
    show ?thesis
    proof (rule um_inv_graph [OF inv i, of _ ?new ?g'])
      have old: "mMyUser n < length ?us" if "map_of (mUserVector ?g) k = Some n" for k n
        using v that by (simp add: vec_ok_def)
      show "vec_ok (?us @ ?new) i (mGraphIndex ?g', mUserVector ?g')"
        using v addUser_post(1) [OF wf a] old gi
        by (auto simp: vec_ok_def nth_append MyUser_new_def less_SucI)
      fix k n assume "map_of (mUserVector ?g) k = Some n"
      then show "\<exists>n'. map_of (mUserVector ?g') k = Some n' \<and> mMyUser n' = mMyUser n"
        using False kv_get_in_keys by fastforce
    qed (auto simp: a MyUser_new_def split: if_splits)
  qed
qed

lemma um_inv_removeUser:
  assumes inv: "um_inv um" and i: "i < length (mUserGroupGraph um)"
    and r: "removeUser u (mUserGroupGraph um ! i) = Some (e, g')"
    and out: "map_of (mUserMap (mProducerMap um)) u = None" "map_of (mUserMap (mConsumerMap um)) u = None"
  shows "um_inv (on_graph i (\<lambda>(us, g). (us, g')) um)"
proof -
  let ?g = "mUserGroupGraph um ! i"
  have v: "vec_ok (mUsers um) i (mGraphIndex ?g, mUserVector ?g)" by (rule um_inv_vec [OF inv i])
  then have "ug_wf ?g" by (simp add: vec_ok_def)
  then have "ug_wf g' \<and> mGraphIndex g' = mGraphIndex ?g \<and>
      (\<forall>k. map_option mMyUser (map_of (mUserVector g') k) =
         (if k = u then None else map_option mMyUser (map_of (mUserVector ?g) k)))"
    by (rule removeUser_post [of ?g u]) (use r in simp)
  then have g1: "ug_wf g'" "mGraphIndex g' = mGraphIndex ?g"
    "\<And>k. map_option mMyUser (map_of (mUserVector g') k) =
       (if k = u then None else map_option mMyUser (map_of (mUserVector ?g) k))" by auto
  have src: "k \<noteq> u \<and> (\<exists>n0. map_of (mUserVector ?g) k = Some n0 \<and> mMyUser n = mMyUser n0)"
    if "map_of (mUserVector g') k = Some n" for k n
    using g1(3) [of k] that by (cases "k = u"; cases "map_of (mUserVector ?g) k") auto
  show ?thesis
  proof (rule um_inv_graph [OF inv i, of _ "[]" g'])
    show "vec_ok (mUsers um @ []) i (mGraphIndex g', mUserVector g')"
      unfolding vec_ok_def
    proof (intro conjI allI impI)
      fix k n assume "map_of (snd (mGraphIndex g', mUserVector g')) k = Some n"
      with src obtain n0 where "map_of (mUserVector ?g) k = Some n0" "mMyUser n = mMyUser n0" by auto
      with v show "mMyUser n < length (mUsers um @ [])" "mUserId ((mUsers um @ []) ! mMyUser n) = k"
        "mGroupIndex ((mUsers um @ []) ! mMyUser n) = i" by (simp_all add: vec_ok_def)
    qed (use v g1(1,2) in \<open>simp_all add: vec_ok_def\<close>)
    fix k n assume k: "map_of (mUserVector ?g) k = Some n"
      "k \<in> set (kv_keys (mUserMap (mProducerMap um))) \<union> set (kv_keys (mUserMap (mConsumerMap um)))"
    then have "k \<noteq> u" using out by (auto simp: kv_get_None)
    with g1(3) [of k] k(1) show "\<exists>n'. map_of (mUserVector g') k = Some n' \<and> mMyUser n' = mMyUser n" by auto
  qed (use src in auto)
qed

lemma um_inv_setAcquireFence:
  assumes "um_inv um" and "graph_setAcquireFence j fd (mUsers um, mUserGroupGraph um ! i) = Some (e, us')"
  shows "um_inv (um\<lparr>mUsers := us'\<rparr>)"
proof -
  have "us' = mUsers um \<or> (\<exists>a. a < length (mUsers um) \<and>
      us' = (mUsers um)[a := (mUsers um ! a)\<lparr>mAcquireFence := Some (fence_create fd)\<rparr>])"
    using assms(2) by (auto simp: graph_setAcquireFence_def user_get_def split: if_splits)
  then show ?thesis
    by (elim disjE exE conjE; intro um_inv_same_users [OF assms(1)]) (auto simp: nth_list_update)
qed

lemma um_inv_setUserReleaseFence:
  assumes "um_inv um" shows "um_inv (snd (setUserReleaseFence u fd um))"
proof -
  have "snd (setUserReleaseFence u fd um) = um \<or>
      (\<exists>a. snd (setUserReleaseFence u fd um) =
        um\<lparr>mUsers := (mUsers um)[a := (mUsers um ! a)\<lparr>mReleaseFence := Some (fence_create fd)\<rparr>]\<rparr>)"
    by (auto simp: setUserReleaseFence_def split: option.splits)
  moreover have "um_inv (um\<lparr>mUsers := (mUsers um)[a := (mUsers um ! a)\<lparr>mReleaseFence := Some (fence_create fd)\<rparr>]\<rparr>)" for a
    by (rule um_inv_same_users [OF assms]; cases "a < length (mUsers um)")
      (simp_all add: nth_list_update list_update_beyond linorder_not_less)
  ultimately show ?thesis using assms by auto
qed

lemma um_inv_mark:
  assumes "um_inv um" and "markUserStatus u msk um = Some (r, um')" shows "um_inv um'"
proof (cases "mUserInit um \<and> queryUser um u \<noteq> None")
  case True
  then obtain a where "queryUser um u = Some a" by auto
  with markUserStatus_cases [OF assms(1) _ this, of msk] True assms(2) show ?thesis by auto
next
  case False
  then have "markUserStatus u msk um = Some (0, um)" by (auto simp: markUserStatus_def)
  with assms show ?thesis by simp
qed

lemma um_reach_inv: "um_reach um \<Longrightarrow> um_inv um"
proof (induction rule: um_reach.induct)
  case (addEdge um i s d)
  let ?g = "mUserGroupGraph um ! i"
  have wf: "ug_wf ?g" using um_inv_vec [OF addEdge.IH addEdge.hyps(2)] by (simp add: vec_ok_def)
  note p = graph_addEdge_post [OF wf, of s d "fst (graph_addEdge s d ?g)" "snd (graph_addEdge s d ?g)"]
  show ?case by (rule um_inv_same_graph [OF addEdge.IH addEdge.hyps(2) _ p(6) p(1) p(7)]) simp_all
next
  case (removeEdge um i s d)
  let ?g = "mUserGroupGraph um ! i"
  have wf: "ug_wf ?g" using um_inv_vec [OF removeEdge.IH removeEdge.hyps(2)] by (simp add: vec_ok_def)
  note p = graph_removeEdge_post [OF wf, of s d "fst (graph_removeEdge s d ?g)" "snd (graph_removeEdge s d ?g)"]
  show ?case by (rule um_inv_same_graph [OF removeEdge.IH removeEdge.hyps(2) _ p(3) p(1) p(4)]) simp_all
next
  case (finishUserSetup um)
  then show ?case by (simp add: um_inv_def finishUserSetup_def um_core_def)
next
  case (enqueUserGraph um i r um')
  from um_inv_enque [OF enqueUserGraph.IH enqueUserGraph.hyps(2)] show ?case .
next
  case (markUserStatus um u msk r um')
  from um_inv_mark [OF markUserStatus.IH markUserStatus.hyps(2)] show ?case .
next
  case (setAcquireFence um i j fd e us')
  from um_inv_setAcquireFence [OF setAcquireFence.IH setAcquireFence.hyps(3)] show ?case .
next
  case (removeUser um i u e g')
  show ?case by (rule um_inv_removeUser [OF removeUser.IH removeUser.hyps(2-5)])
next
  case (addUser um i usr)
  show ?case by (rule um_inv_addUser [OF addUser.IH addUser.hyps(2)])
qed (simp_all only: um_inv_new um_inv_reset um_inv_createGraph um_inv_setUserReleaseFence)

end
