(* ===== verification/UsersProps.thy ===== *)
theory UsersProps
  imports UsersInv
begin

text \<open>
  What the manager promises its clients, for every reachable manager: the queries over the
  bit sets agree with the status of every enqueued user, marking is the bitwise or, a user
  may start when every user before it has released or pre-released, and the acquire fence
  of a user waits for the release fences of all users before it, unless a call of the
  kernel fails.
\<close>

section \<open>The bit sets as a cache of the status words\<close>

definition enqueued :: "MyUserMap \<Rightarrow> nat set" where
  "enqueued m = set (map snd (mUserMap m))"

lemma enqueued_map: "kv_wf (mUserMap m) \<Longrightarrow> a \<in> enqueued m \<longleftrightarrow> (\<exists>k. map_of (mUserMap m) k = Some a)"
proof -
  assume "kv_wf (mUserMap m)"
  then have "distinct (map fst (mUserMap m))" by (auto simp: kv_keys_def dest: kv_wf_distinct)
  then show ?thesis by (force simp: enqueued_def)
qed

lemma has_bit: "has s RELEASE \<longleftrightarrow> bit s 3" "has s PRE_RELEASE \<longleftrightarrow> bit s 1" "has s USED \<longleftrightarrow> bit s 2"
  "has s RELEASE_STILLUSE \<longleftrightarrow> bit s 4"
proof -
  have h: "s AND 2 ^ n \<noteq> 0 \<longleftrightarrow> bit s n" if "n < 32" for n
    unfolding word32_eq_iff using that by (auto simp: bit_and_iff bit_exp32)
  show "has s RELEASE \<longleftrightarrow> bit s 3" "has s PRE_RELEASE \<longleftrightarrow> bit s 1" "has s USED \<longleftrightarrow> bit s 2"
    "has s RELEASE_STILLUSE \<longleftrightarrow> bit s 4"
    using h [of 3] h [of 1] h [of 2] h [of 4] by (simp_all add: has_def)
qed

lemma bit_ok_or:
  "bit_ok us m a P \<Longrightarrow> bit_ok us m b Q \<Longrightarrow> bit_ok us m (a OR b) (\<lambda>s. P s \<or> Q s)"
  by (auto simp: bit_ok_def)

lemma bit_ok_count:
  assumes "bit_ok us (mUserMap m) b P" and "length (mUserMap m) \<le> 32"
  shows "bs_count b = length (mUserMap m) \<longleftrightarrow> (\<forall>a \<in> enqueued m. P (mUserStatus (us ! a)))"
proof -
  have "bs_count b = length (mUserMap m) \<longleftrightarrow> (\<forall>i < length (mUserMap m). bs_hasBit i b)"
    by (rule bs_count_full [OF assms(2)]) (use assms(1) in \<open>auto simp: bit_ok_def\<close>)
  also have "\<dots> \<longleftrightarrow> (\<forall>i < length (mUserMap m). P (mUserStatus (us ! snd (mUserMap m ! i))))"
    using assms by (auto simp: bit_ok_def)
  also have "\<dots> \<longleftrightarrow> (\<forall>a \<in> enqueued m. P (mUserStatus (us ! a)))"
    unfolding enqueued_def all_set_conv_all_nth by simp
  finally show ?thesis .
qed

lemma um_inv_bits:
  assumes "um_inv um"
  shows "bits_ok (mUsers um) (mProducerMap um)" and "bits_ok (mUsers um) (mConsumerMap um)"
  using assms by (simp_all add: um_inv_def um_core_def)

lemma marked_status_other:
  assumes inv: "um_inv um" and u: "queryUser um u = Some a" and k: "queryUser um k = Some b" and "k \<noteq> u"
  shows "b \<noteq> a"
proof -
  have core: "um_core (mUsers um) (um_vecs um) (mUserInit um) (mProducerMap um) (mConsumerMap um)"
    using inv by (simp add: um_inv_def)
  then have m: "map_ok (mUsers um) (um_vecs um) PRODUCER (mUserMap (mProducerMap um))"
    "map_ok (mUsers um) (um_vecs um) CONSUMER (mUserMap (mConsumerMap um))" by (simp_all add: um_core_def)
  note id = map_ok_user(2) [OF core m(1)] map_ok_user(2) [OF core m(2)]
  have "mUserId (mUsers um ! x) = y" if "um_user um y x" for x y
    using that id by (auto simp: um_user_def)
  with u k assms(4) show ?thesis unfolding queryUser_Some [OF inv] by metis
qed

lemma queryUser_marks:
  assumes "marks_only a um um'" shows "queryUser um' k = queryUser um k"
proof -
  have "mUserGroupGraph um' = mUserGroupGraph um" "mUserMap (mProducerMap um') = mUserMap (mProducerMap um)"
    "mUserMap (mConsumerMap um') = mUserMap (mConsumerMap um)"
    "\<And>x. mGroupIndex (mUsers um' ! x) = mGroupIndex (mUsers um ! x)"
    using assms by (simp_all add: marks_only_def)
  then show ?thesis by (simp add: queryUser_def cong: option.case_cong)
qed

text \<open>What the queries see of a call that marks a user.\<close>

lemma markUserStatus_queries:
  assumes inv: "um_inv um" and "mUserInit um" and "queryUser um u \<noteq> None" and fits: "um_fits um"
  shows "\<exists>um'. markUserStatus u statusMask um = Some (getUserStatus um u OR statusMask, um') \<and>
     um_inv um' \<and> mUserInit um' \<and> um_fits um' \<and> (\<forall>k. queryUser um' k = queryUser um k) \<and>
     mUserMap (mProducerMap um') = mUserMap (mProducerMap um) \<and>
     mUserMap (mConsumerMap um') = mUserMap (mConsumerMap um) \<and>
     (\<forall>k. getUserStatus um' k = (if k = u then getUserStatus um u OR statusMask else getUserStatus um k)) \<and>
     (\<forall>k. getUserCategory um' k = getUserCategory um k)"
proof -
  from assms(3) obtain a where a: "queryUser um u = Some a" by auto
  from markUserStatus_done [OF inv assms(2) a fits, of statusMask] obtain um' where
    r: "markUserStatus u statusMask um = Some (mUserStatus (mUsers um ! a) OR statusMask, um')"
    and inv': "um_inv um'" and m: "marks_only a um um'" and s: "mUserStatus (mUsers um' ! a) = mUserStatus (mUsers um ! a) OR statusMask"
    by blast
  have q: "queryUser um' k = queryUser um k" for k by (rule queryUser_marks [OF m])
  have init: "mUserInit um'" using m assms(2) by (simp add: marks_only_def)
  have st: "getUserStatus um u = mUserStatus (mUsers um ! a)" using a assms(2) by (simp add: getUserStatus_def)
  have "getUserStatus um' k = (if k = u then getUserStatus um u OR statusMask else getUserStatus um k)" for k
  proof (cases "queryUser um k")
    case None
    with a show ?thesis using init by (auto simp: getUserStatus_def q)
  next
    case (Some b)
    show ?thesis
    proof (cases "k = u")
      case True
      with a s st init show ?thesis by (simp add: getUserStatus_def q)
    next
      case False
      have "b \<noteq> a" by (rule marked_status_other [OF inv a Some False])
      with m have "mUsers um' ! b = mUsers um ! b" by (simp add: marks_only_def)
      with False Some init assms(2) show ?thesis by (simp add: getUserStatus_def q)
    qed
  qed
  moreover have "getUserCategory um' k = getUserCategory um k" for k
    using m init assms(2) by (simp add: getUserCategory_def q marks_only_def cong: option.case_cong)
  moreover have "mUserMap (mProducerMap um') = mUserMap (mProducerMap um)"
    "mUserMap (mConsumerMap um') = mUserMap (mConsumerMap um)" using m by (simp_all add: marks_only_def)
  moreover have "um_fits um'" using marks_only_fits [OF m] fits by simp
  ultimately show ?thesis using r st q init inv' by auto
qed

section \<open>The contract of a manager\<close>

text \<open>
  What a frame relies on: a mark is recorded for its user and for nobody else, and all users
  have released only when each of them has.
\<close>

locale users_contract =
  fixes mark :: "UserId_T \<Rightarrow> MUINT32 \<Rightarrow> 'um \<Rightarrow> (MUINT32 \<times> 'um) option"
    and status :: "'um \<Rightarrow> UserId_T \<Rightarrow> MUINT32"
    and member :: "'um \<Rightarrow> UserId_T \<Rightarrow> bool"
    and all_released :: "'um \<Rightarrow> bool"
    and good :: "'um \<Rightarrow> bool"
  assumes mark_records: "good um \<Longrightarrow> member um u \<Longrightarrow>
      \<exists>um'. mark u msk um = Some (status um u OR msk, um') \<and> good um' \<and> (\<forall>k. member um' k = member um k) \<and>
        (\<forall>k. status um' k = (if k = u then status um u OR msk else status um k))"
    and all_released_each: "good um \<Longrightarrow> all_released um \<Longrightarrow> member um u \<Longrightarrow> status um u AND RELEASE \<noteq> 0"
begin

lemma not_all_released: "good um \<Longrightarrow> member um u \<Longrightarrow> status um u AND RELEASE = 0 \<Longrightarrow> \<not> all_released um"
  using all_released_each by blast

lemma mark_released:
  assumes "good um" and "member um u" and "msk AND RELEASE \<noteq> 0"
  obtains r um' where "mark u msk um = Some (r, um')" and "good um'" and "\<And>k. member um' k = member um k"
    and "status um' u AND RELEASE \<noteq> 0" and "\<And>k. k \<noteq> u \<Longrightarrow> status um' k = status um k"
proof -
  from mark_records [OF assms(1,2), of msk] obtain um' where
    um': "mark u msk um = Some (status um u OR msk, um')" "good um'" "\<forall>k. member um' k = member um k"
    "\<forall>k. status um' k = (if k = u then status um u OR msk else status um k)" by blast
  have "(status um u OR msk) AND RELEASE \<noteq> 0"
    using assms(3) by (simp add: bit.conj_disj_distrib2 or_eq_0_iff)
  with um' show ?thesis by (intro that [of "status um u OR msk" um']) simp_all
qed

end

definition um_good :: "UsersManager \<Rightarrow> bool" where
  "um_good um \<longleftrightarrow> um_inv um \<and> mUserInit um \<and> um_fits um"

lemma released_count:
  assumes "um_inv um" and "length (mUserMap (mProducerMap um)) \<le> 32" and "length (mUserMap (mConsumerMap um)) \<le> 32"
  shows "length (mUserMap (mProducerMap um)) = bs_count (mBitSetReleased (mProducerMap um)) \<longleftrightarrow>
      (\<forall>a \<in> enqueued (mProducerMap um). has (mUserStatus (mUsers um ! a)) RELEASE)"
    and "length (mUserMap (mConsumerMap um)) = bs_count (mBitSetReleased (mConsumerMap um)) \<longleftrightarrow>
      (\<forall>a \<in> enqueued (mConsumerMap um). has (mUserStatus (mUsers um ! a)) RELEASE)"
    and "length (mUserMap (mProducerMap um)) = bs_count (mBitSetUsed (mProducerMap um)) \<longleftrightarrow>
      (\<forall>a \<in> enqueued (mProducerMap um). has (mUserStatus (mUsers um ! a)) USED)"
proof -
  note bits = um_inv_bits [OF assms(1), unfolded bits_ok_def]
  show "length (mUserMap (mProducerMap um)) = bs_count (mBitSetReleased (mProducerMap um)) \<longleftrightarrow>
      (\<forall>a \<in> enqueued (mProducerMap um). has (mUserStatus (mUsers um ! a)) RELEASE)"
    unfolding has_bit using bit_ok_count [OF _ assms(2)] bits(1) by metis
  show "length (mUserMap (mConsumerMap um)) = bs_count (mBitSetReleased (mConsumerMap um)) \<longleftrightarrow>
      (\<forall>a \<in> enqueued (mConsumerMap um). has (mUserStatus (mUsers um ! a)) RELEASE)"
    unfolding has_bit using bit_ok_count [OF _ assms(3)] bits(2) by metis
  show "length (mUserMap (mProducerMap um)) = bs_count (mBitSetUsed (mProducerMap um)) \<longleftrightarrow>
      (\<forall>a \<in> enqueued (mProducerMap um). has (mUserStatus (mUsers um ! a)) USED)"
    unfolding has_bit using bit_ok_count [OF _ assms(2)] bits(1) by metis
qed

lemma queryUser_enqueued: "queryUser um k = Some a \<Longrightarrow> a \<in> enqueued (mProducerMap um) \<union> enqueued (mConsumerMap um)"
  unfolding queryUser_def enqueued_def Let_def
  by (auto split: option.splits if_splits dest!: map_of_SomeD intro: image_eqI [where x = "(k, a)"])

lemma haveAllUsersReleased_member:
  assumes "um_good um" and "haveAllUsersReleased um = OK" and "queryUser um k \<noteq> None"
  shows "getUserStatus um k AND RELEASE \<noteq> 0"
proof -
  from assms(1) have g: "um_inv um" "mUserInit um" "length (mUserMap (mProducerMap um)) \<le> 32"
    "length (mUserMap (mConsumerMap um)) \<le> 32" by (simp_all add: um_good_def um_fits_def)
  from assms(3) obtain a where a: "queryUser um k = Some a" by auto
  have "\<forall>a \<in> enqueued (mProducerMap um) \<union> enqueued (mConsumerMap um). has (mUserStatus (mUsers um ! a)) RELEASE"
    using assms(2) g(2) unfolding haveAllUsersReleased_def haveAllUsersReleasedLocked_def
      released_count(1,2) [OF g(1,3,4)] ball_Un by (simp split: if_splits)
  with queryUser_enqueued [OF a] have "has (mUserStatus (mUsers um ! a)) RELEASE" by blast
  with a g(2) show ?thesis by (simp add: getUserStatus_def has_def)
qed

interpretation uc: users_contract markUserStatus getUserStatus "\<lambda>um u. queryUser um u \<noteq> None"
    "\<lambda>um. haveAllUsersReleased um = OK" um_good
proof
  fix um u msk
  assume "um_good um" and q: "queryUser um u \<noteq> None"
  then have g: "um_inv um" "mUserInit um" "um_fits um" by (simp_all add: um_good_def)
  from markUserStatus_queries [OF g(1,2) q g(3), of msk] \<open>um_good um\<close>
  show "\<exists>um'. markUserStatus u msk um = Some (getUserStatus um u OR msk, um') \<and> um_good um' \<and>
      (\<forall>k. (queryUser um' k \<noteq> None) = (queryUser um k \<noteq> None)) \<and>
      (\<forall>k. getUserStatus um' k = (if k = u then getUserStatus um u OR msk else getUserStatus um k))"
    unfolding um_good_def by auto
next
  fix um u
  assume "um_good um" and "haveAllUsersReleased um = OK" and "queryUser um u \<noteq> None"
  then show "getUserStatus um u AND RELEASE \<noteq> 0" by (rule haveAllUsersReleased_member)
qed

section \<open>A manager for the witnesses\<close>

text \<open>
  Users 1 (producer), 2 and 3 (consumers) with 2 after 1 and 3 after 1 and 2. The release
  fences are the descriptors 0, 1 and 2, the acquire fence of 1 is none.
\<close>

definition ex_user :: "int \<Rightarrow> MUINT32 \<Rightarrow> int \<Rightarrow> int \<Rightarrow> User" where
  "ex_user i c af rf = \<lparr>usr_mUserId = i, usr_mAcquireFence = af, usr_mReleaseFence = rf, usr_mUsage = 1,
     usr_mCategory = c\<rparr>"

definition ex_graph :: UsersManager where
  "ex_graph =
     (let add = \<lambda>u. on_graph 0 (\<lambda>s. snd (addUser u s));
          edge = \<lambda>a b. on_graph 0 (\<lambda>(us, g). (us, snd (graph_addEdge a b g)))
      in edge 2 3 (edge 1 3 (edge 1 2
           (add (ex_user 3 CONSUMER (- 1) 2) (add (ex_user 2 CONSUMER (- 1) 1) (add (ex_user 1 PRODUCER (- 1) 0)
              (snd (createGraph (UsersManager_new 7 ''buf'')))))))))"

definition ex_um :: UsersManager where
  "ex_um = snd (finishUserSetup (snd (the (enqueUserGraph 0 ex_graph))))"

definition ex_um_rel1 :: UsersManager where
  "ex_um_rel1 = snd (the (markUserStatus 1 RELEASE ex_um))"

lemma ex_graph_reach: "um_reach ex_graph"
  unfolding ex_graph_def Let_def
  by (intro um_reach.addEdge um_reach.addUser um_reach.createGraph um_reach.new) code_simp+

lemma ex_um_reach: "um_reach ex_um"
proof -
  have "enqueUserGraph 0 ex_graph = Some (0, snd (the (enqueUserGraph 0 ex_graph)))" by code_simp
  then show ?thesis unfolding ex_um_def
    by (rule um_reach.finishUserSetup [OF um_reach.enqueUserGraph [OF ex_graph_reach]])
qed

lemma ex_um_facts: "mUserInit ex_um" "length (mUserMap (mProducerMap ex_um)) = 1"
  "length (mUserMap (mConsumerMap ex_um)) = 2" "enqueued (mProducerMap ex_um) = {0}"
  "enqueued (mConsumerMap ex_um) = {1, 2}"
  by code_simp+


lemma ex_um_rel1_mark: "markUserStatus 1 RELEASE ex_um = Some (RELEASE, ex_um_rel1)"
  unfolding ex_um_rel1_def by code_simp

lemma ex_um_rel1_reach: "um_reach ex_um_rel1"
  by (rule um_reach.markUserStatus [OF ex_um_reach ex_um_rel1_mark])

section \<open>Properties\<close>

text \<open>C13: in every manager that calls lead to in which no user is taken out of its graph once it is in
  a map, an entry of the producer map is a producer of that id in the graph it belongs to, an
  entry of the consumer map a consumer, and a position below 32 has its released, pre-released, used
  or released-in-use bit set exactly when it is the position of a user with that status. The mark
  of a user whose position is 32 or more is a fault and leads to no manager.\<close>

theorem um_reach_consistent:
  assumes "um_reach um" and mc: "(m, cat) \<in> {(mProducerMap um, PRODUCER), (mConsumerMap um, CONSUMER)}"
  shows "sorted_wrt (<) (kv_keys (mUserMap m)) \<and>
     (\<forall>k a. map_of (mUserMap m) k = Some a \<longrightarrow>
        mUserId (mUsers um ! a) = k \<and> mCategory (mUsers um ! a) = cat \<and>
        mGroupIndex (mUsers um ! a) < length (mUserGroupGraph um) \<and>
        map_option mMyUser (map_of (mUserVector (mUserGroupGraph um ! mGroupIndex (mUsers um ! a))) k) = Some a) \<and>
     (\<forall>i < 32. bs_hasBit i (mBitSetReleased m) \<longleftrightarrow>
        i < length (mUserMap m) \<and> has (mUserStatus (mUsers um ! snd (mUserMap m ! i))) RELEASE) \<and>
     (\<forall>i < 32. bs_hasBit i (mBitSetPreReleased m) \<longleftrightarrow>
        i < length (mUserMap m) \<and> has (mUserStatus (mUsers um ! snd (mUserMap m ! i))) PRE_RELEASE) \<and>
     (\<forall>i < 32. bs_hasBit i (mBitSetUsed m) \<longleftrightarrow>
        i < length (mUserMap m) \<and> has (mUserStatus (mUsers um ! snd (mUserMap m ! i))) USED) \<and>
     (\<forall>i < 32. bs_hasBit i (mBitSetReleasedStillUse m) \<longleftrightarrow>
        i < length (mUserMap m) \<and> has (mUserStatus (mUsers um ! snd (mUserMap m ! i))) RELEASE_STILLUSE)"
proof -
  have inv: "um_inv um" using assms(1) by (rule um_reach_inv)
  then have core: "um_core (mUsers um) (um_vecs um) (mUserInit um) (mProducerMap um) (mConsumerMap um)"
    by (simp add: um_inv_def)
  have ok: "map_ok (mUsers um) (um_vecs um) cat (mUserMap m)" and b: "bits_ok (mUsers um) m"
    using core mc by (auto simp: um_core_def)
  have "map_option mMyUser (map_of (mUserVector (mUserGroupGraph um ! mGroupIndex (mUsers um ! a))) k) = Some a"
    if "map_of (mUserMap m) k = Some a" for k a
    using map_ok_user(4,5) [OF core ok that] by auto
  with b ok map_ok_user(2,3,4) [OF core ok] show ?thesis
    unfolding bits_ok_def bit_ok_def has_bit by (simp add: map_ok_def kv_wf_def)
qed

theorem um_reach_consistent_witness:
  "bs_hasBit 0 (mBitSetReleased (mProducerMap ex_um_rel1)) \<longleftrightarrow>
     has (mUserStatus (mUsers ex_um_rel1 ! snd (mUserMap (mProducerMap ex_um_rel1) ! 0))) RELEASE"
proof -
  have l: "0 < length (mUserMap (mProducerMap ex_um_rel1))" by code_simp
  have "(mProducerMap ex_um_rel1, PRODUCER) \<in>
      {(mProducerMap ex_um_rel1, PRODUCER), (mConsumerMap ex_um_rel1, CONSUMER)}" by simp
  from um_reach_consistent [OF ex_um_rel1_reach this, THEN conjunct2, THEN conjunct2, THEN conjunct1, rule_format, of 0]
  show ?thesis using l by simp
qed

text \<open>Marking an enqueued user of an initialised manager with at most 32 producers and 32 consumers
  returns and stores the bitwise or of its status and the mask, and no other user's status or
  category changes.\<close>

theorem markUserStatus_or:
  assumes "um_reach um" and "mUserInit um" and "queryUser um u \<noteq> None"
    and "length (mUserMap (mProducerMap um)) \<le> 32" and "length (mUserMap (mConsumerMap um)) \<le> 32"
  shows "\<exists>um'. markUserStatus u statusMask um = Some (getUserStatus um u OR statusMask, um') \<and>
     (\<forall>k. getUserStatus um' k = (if k = u then getUserStatus um u OR statusMask else getUserStatus um k)) \<and>
     (\<forall>k. getUserCategory um' k = getUserCategory um k)"
proof -
  have "um_fits um" using assms(4,5) by (simp add: um_fits_def)
  from markUserStatus_queries [OF um_reach_inv [OF assms(1)] assms(2,3) this, of statusMask] show ?thesis by blast
qed

theorem markUserStatus_or_witness:
  "\<exists>um'. markUserStatus 2 (USED OR RELEASE) ex_um = Some (USED OR RELEASE, um') \<and> getUserStatus um' 1 = 0"
proof -
  have q: "queryUser ex_um 2 \<noteq> None" "getUserStatus ex_um 2 = 0" "getUserStatus ex_um 1 = 0" by code_simp+
  have l: "length (mUserMap (mProducerMap ex_um)) \<le> 32" "length (mUserMap (mConsumerMap ex_um)) \<le> 32"
    using ex_um_facts by simp_all
  from markUserStatus_or [OF ex_um_reach ex_um_facts(1) q(1) l, of "USED OR RELEASE"] q(2,3) show ?thesis by auto
qed

text \<open>C36: for at most 32 producers and 32 consumers the queries over the bit sets agree with
  the status of every enqueued user.\<close>

theorem haveAllUsersReleased_iff:
  assumes "um_reach um" and "mUserInit um"
    and "length (mUserMap (mProducerMap um)) \<le> 32" and "length (mUserMap (mConsumerMap um)) \<le> 32"
  shows "haveAllUsersReleased um =
       (if \<forall>a \<in> enqueued (mProducerMap um) \<union> enqueued (mConsumerMap um). has (mUserStatus (mUsers um ! a)) RELEASE
        then OK else UNKNOWN_ERROR) \<and>
     haveAllProducerUsersReleased um =
       (if \<forall>a \<in> enqueued (mProducerMap um). has (mUserStatus (mUsers um ! a)) RELEASE then OK else UNKNOWN_ERROR) \<and>
     haveAllProducerUsersUsed um =
       (if \<forall>a \<in> enqueued (mProducerMap um). has (mUserStatus (mUsers um ! a)) USED then OK else UNKNOWN_ERROR)"
proof -
  have inv: "um_inv um" using assms(1) by (rule um_reach_inv)
  show ?thesis
    unfolding haveAllUsersReleased_def haveAllUsersReleasedLocked_def haveAllProducerUsersReleased_def
      haveAllProducerUsersUsed_def released_count [OF inv assms(3,4)] ball_Un using assms(2) by simp
qed

theorem haveAllUsersReleased_iff_witness:
  "haveAllUsersReleased ex_um_rel1 = UNKNOWN_ERROR \<and> haveAllProducerUsersReleased ex_um_rel1 = OK"
proof -
  have f: "mUserInit ex_um_rel1" "length (mUserMap (mProducerMap ex_um_rel1)) \<le> 32"
    "length (mUserMap (mConsumerMap ex_um_rel1)) \<le> 32" by code_simp+
  have "\<forall>a \<in> enqueued (mProducerMap ex_um_rel1). has (mUserStatus (mUsers ex_um_rel1 ! a)) RELEASE"
    "\<not> (\<forall>a \<in> enqueued (mProducerMap ex_um_rel1) \<union> enqueued (mConsumerMap ex_um_rel1).
        has (mUserStatus (mUsers ex_um_rel1 ! a)) RELEASE)" by code_simp+
  with haveAllUsersReleased_iff [OF ex_um_rel1_reach f] show ?thesis by simp
qed

text \<open>C37: for at most 32 producers and 32 consumers \<open>getAllUsersStatus\<close> is RELEASE when all enqueued users have released, otherwise
  PRE_RELEASE when all have released or pre-released, otherwise 0.\<close>

theorem getAllUsersStatus_spec:
  assumes "um_reach um" and "mUserInit um"
    and "length (mUserMap (mProducerMap um)) \<le> 32" and "length (mUserMap (mConsumerMap um)) \<le> 32"
  shows "getAllUsersStatus um =
     (let us = enqueued (mProducerMap um) \<union> enqueued (mConsumerMap um); st = \<lambda>a. mUserStatus (mUsers um ! a) in
      if \<forall>a \<in> us. has (st a) RELEASE then RELEASE
      else if \<forall>a \<in> us. has (st a) RELEASE \<or> has (st a) PRE_RELEASE then PRE_RELEASE
      else 0)"
proof -
  have inv: "um_inv um" using assms(1) by (rule um_reach_inv)
  note bits = um_inv_bits [OF inv, unfolded bits_ok_def]
  have rel: "bs_count (mBitSetReleased m) = length (mUserMap m) \<longleftrightarrow>
      (\<forall>a \<in> enqueued m. has (mUserStatus (mUsers um ! a)) RELEASE)"
    and pre: "bs_count (mBitSetReleased m OR mBitSetPreReleased m) = length (mUserMap m) \<longleftrightarrow>
      (\<forall>a \<in> enqueued m. has (mUserStatus (mUsers um ! a)) RELEASE \<or> has (mUserStatus (mUsers um ! a)) PRE_RELEASE)"
    if "m = mProducerMap um \<or> m = mConsumerMap um" for m
  proof -
    have len: "length (mUserMap m) \<le> 32" using that assms(3,4) by auto
    have b: "bit_ok (mUsers um) (mUserMap m) (mBitSetReleased m) (\<lambda>s. bit s 3)"
      "bit_ok (mUsers um) (mUserMap m) (mBitSetPreReleased m) (\<lambda>s. bit s 1)" using that bits by auto
    show "bs_count (mBitSetReleased m) = length (mUserMap m) \<longleftrightarrow>
      (\<forall>a \<in> enqueued m. has (mUserStatus (mUsers um ! a)) RELEASE)"
      unfolding has_bit by (rule bit_ok_count [OF b(1) len])
    show "bs_count (mBitSetReleased m OR mBitSetPreReleased m) = length (mUserMap m) \<longleftrightarrow>
      (\<forall>a \<in> enqueued m. has (mUserStatus (mUsers um ! a)) RELEASE \<or> has (mUserStatus (mUsers um ! a)) PRE_RELEASE)"
      unfolding has_bit by (rule bit_ok_count [OF bit_ok_or [OF b] len])
  qed
  have r1: "haveAllUsersReleasedLocked um = OK \<longleftrightarrow>
      (\<forall>a \<in> enqueued (mProducerMap um) \<union> enqueued (mConsumerMap um). has (mUserStatus (mUsers um ! a)) RELEASE)"
    unfolding haveAllUsersReleasedLocked_def ball_Un eq_commute [of "length (mUserMap (mConsumerMap um))"]
      eq_commute [of "length (mUserMap (mProducerMap um))"]
    using rel assms(2) by (simp add: conj_commute)
  have r2: "haveAllUsersReleasedOrPreReleasedLocked um = OK \<longleftrightarrow>
      (\<forall>a \<in> enqueued (mProducerMap um) \<union> enqueued (mConsumerMap um).
         has (mUserStatus (mUsers um ! a)) RELEASE \<or> has (mUserStatus (mUsers um ! a)) PRE_RELEASE)"
    unfolding haveAllUsersReleasedOrPreReleasedLocked_def ball_Un using pre assms(2) by simp
  show ?thesis unfolding getAllUsersStatus_def r1 r2 Let_def ..
qed

theorem getAllUsersStatus_spec_witness: "getAllUsersStatus ex_um_rel1 = 0"
proof -
  have f: "mUserInit ex_um_rel1" "length (mUserMap (mProducerMap ex_um_rel1)) \<le> 32"
    "length (mUserMap (mConsumerMap ex_um_rel1)) \<le> 32" by code_simp+
  have "\<not> (\<forall>a \<in> enqueued (mProducerMap ex_um_rel1) \<union> enqueued (mConsumerMap ex_um_rel1).
        has (mUserStatus (mUsers ex_um_rel1 ! a)) RELEASE \<or> has (mUserStatus (mUsers ex_um_rel1 ! a)) PRE_RELEASE)"
    "\<not> (\<forall>a \<in> enqueued (mProducerMap ex_um_rel1) \<union> enqueued (mConsumerMap ex_um_rel1).
        has (mUserStatus (mUsers ex_um_rel1 ! a)) RELEASE)" by code_simp+
  with getAllUsersStatus_spec [OF ex_um_rel1_reach f] show ?thesis by (simp add: Let_def)
qed


section \<open>The users before a user\<close>

text \<open>A user found by the manager stands in its graph under its own address.\<close>

lemma queryUser_node:
  assumes "um_inv um" and "queryUser um u = Some a"
  shows "mUserId (mUsers um ! a) = u" and "mGroupIndex (mUsers um ! a) < length (mUserGroupGraph um)"
    and "u \<in> set (ug_ids (mUserGroupGraph um ! mGroupIndex (mUsers um ! a)))"
    and "node_user (mUserGroupGraph um ! mGroupIndex (mUsers um ! a)) u = a"
proof -
  have core: "um_core (mUsers um) (um_vecs um) (mUserInit um) (mProducerMap um) (mConsumerMap um)"
    using assms(1) by (simp add: um_inv_def)
  then have m: "map_ok (mUsers um) (um_vecs um) PRODUCER (mUserMap (mProducerMap um))"
    "map_ok (mUsers um) (um_vecs um) CONSUMER (mUserMap (mConsumerMap um))" by (simp_all add: um_core_def)
  have "um_user um u a" using assms by (simp add: queryUser_Some)
  then have "map_of (mUserMap (mProducerMap um)) u = Some a \<or> map_of (mUserMap (mConsumerMap um)) u = Some a"
    unfolding um_user_def by blast
  then have f: "mUserId (mUsers um ! a) = u \<and> mGroupIndex (mUsers um ! a) < length (um_vecs um) \<and>
      (\<exists>n. map_of (snd (um_vecs um ! mGroupIndex (mUsers um ! a))) u = Some n \<and> mMyUser n = a)"
    by (rule disjE; intro conjI) (erule map_ok_user(2,4,5) [OF core m(1)] map_ok_user(2,4,5) [OF core m(2)])+
  then show "mUserId (mUsers um ! a) = u" and g: "mGroupIndex (mUsers um ! a) < length (mUserGroupGraph um)" by simp_all
  from f g obtain n where "map_of (mUserVector (mUserGroupGraph um ! mGroupIndex (mUsers um ! a))) u = Some n" "mMyUser n = a"
    by auto
  then show "u \<in> set (ug_ids (mUserGroupGraph um ! mGroupIndex (mUsers um ! a)))"
    and "node_user (mUserGroupGraph um ! mGroupIndex (mUsers um ! a)) u = a" by (auto dest: kv_get_in_keys)
qed

lemma node_user_id:
  assumes "um_inv um" and "i < length (mUserGroupGraph um)" and "b \<in> set (ug_ids (mUserGroupGraph um ! i))"
  shows "mUserId (mUsers um ! node_user (mUserGroupGraph um ! i) b) = b"
    and "node_user (mUserGroupGraph um ! i) b < length (mUsers um)"
proof -
  obtain n where "map_of (mUserVector (mUserGroupGraph um ! i)) b = Some n" using assms(3) kv_keys_get by metis
  with um_inv_vec [OF assms(1,2)] show "mUserId (mUsers um ! node_user (mUserGroupGraph um ! i) b) = b"
    and "node_user (mUserGroupGraph um ! i) b < length (mUsers um)" by (simp_all add: vec_ok_def)
qed

text \<open>The prior users of a user of the first graph, in the store.\<close>

lemma prior_users:
  assumes inv: "um_inv um" and q: "queryUser um u = Some a" and g0: "mGroupIndex (mUsers um ! a) = 0"
    and acyc: "acyclic (before (mUserGroupGraph um ! 0))"
  obtains L where "getPriorUsers (mUserGroupGraph um ! 0) u = Some (OK, L @ [a])"
    and "set L = node_user (mUserGroupGraph um ! 0) ` {b. (u, b) \<in> (before (mUserGroupGraph um ! 0))\<^sup>+}"
    and "\<forall>x \<in> set L. mUserId (mUsers um ! x) \<noteq> u \<and> x < length (mUsers um)"
proof -
  let ?g = "mUserGroupGraph um ! 0"
  note n = queryUser_node [OF inv q, unfolded g0]
  have wf: "ug_wf ?g" using um_inv_vec [OF inv n(2)] by (simp add: vec_ok_def)
  have nc: "(c, c) \<notin> (before ?g)\<^sup>+" for c using acyc by (simp add: acyclic_def)
  from getPriorUsers_acyclic [OF wf n(3)] nc obtain L where
    L: "getPriorUsers ?g u = Some (OK, L @ [node_user ?g u])" "set L = node_user ?g ` {b. (u, b) \<in> (before ?g)\<^sup>+}"
    by blast
  have "mUserId (mUsers um ! x) \<noteq> u \<and> x < length (mUsers um)" if "x \<in> set L" for x
  proof -
    from that L(2) obtain b where b: "(u, b) \<in> (before ?g)\<^sup>+" "x = node_user ?g b" by auto
    have "b \<in> set (ug_ids ?g)" using before_reach_keys [OF wf _ n(3)] b(1) by (simp add: trancl_into_rtrancl)
    from node_user_id [OF inv n(2) this] b nc show ?thesis by auto
  qed
  with L n(4) that show ?thesis by simp
qed

text \<open>Who may go on, for any manager that has the invariant.\<close>

lemma ready_iff:
  assumes "um_inv um" and "mUserInit um" and "queryUser um u = Some a"
    and "mGroupIndex (mUsers um ! a) = 0" and "acyclic (before (mUserGroupGraph um ! 0))"
  shows "haveAllUsersReleasedOrPreReleased um u =
     Some (if \<forall>b. (u, b) \<in> (before (mUserGroupGraph um ! 0))\<^sup>+ \<longrightarrow>
                (let v = mUsers um ! node_user (mUserGroupGraph um ! 0) b in
                   mCategory v = NONE \<or> has (mUserStatus v) RELEASE \<or> has (mUserStatus v) RELEASE_STILLUSE \<or>
                   has (mUserStatus v) PRE_RELEASE)
           then OK else NO_INIT)"
proof -
  let ?g = "mUserGroupGraph um ! 0"
  note inv = assms(1)
  from prior_users [OF inv assms(3-5)] obtain L where
    L: "getPriorUsers ?g u = Some (OK, L @ [a])" "set L = node_user ?g ` {b. (u, b) \<in> (before ?g)\<^sup>+}"
    "\<forall>x \<in> set L. mUserId (mUsers um ! x) \<noteq> u \<and> x < length (mUsers um)" .
  let ?P = "\<lambda>v. mCategory v = NONE \<or> has (mUserStatus v) RELEASE \<or> has (mUserStatus v) RELEASE_STILLUSE \<or>
    has (mUserStatus v) PRE_RELEASE"
  have "(\<forall>b \<in> set (L @ [a]). let v = mUsers um ! b in u = mUserId v \<or> NONE = mCategory v \<or>
      has (mUserStatus v) RELEASE \<or> has (mUserStatus v) RELEASE_STILLUSE \<or> has (mUserStatus v) PRE_RELEASE) \<longleftrightarrow>
    (\<forall>x \<in> set L. ?P (mUsers um ! x))"
  proof -
    have "u \<noteq> mUserId (mUsers um ! x)" "NONE = mCategory (mUsers um ! x) \<longleftrightarrow> mCategory (mUsers um ! x) = NONE"
      if "x \<in> set L" for x using L(3) that by auto
    then show ?thesis using queryUser_node(1) [OF inv assms(3)] by (simp add: Let_def)
  qed
  also have "\<dots> \<longleftrightarrow> (\<forall>b. (u, b) \<in> (before ?g)\<^sup>+ \<longrightarrow> ?P (mUsers um ! node_user ?g b))"
    unfolding L(2) by blast
  finally show ?thesis
    unfolding haveAllUsersReleasedOrPreReleased_def using assms(2-4) L(1) by (simp add: Let_def)
qed

text \<open>C11: a user of the first graph of an initialised manager is told that it may go on
  exactly when every user it waits for, directly or not, is no participant or has released,
  released in use or pre-released; the first graph must not have a cycle.\<close>

theorem haveAllUsersReleasedOrPreReleased_iff:
  assumes "um_reach um" and "mUserInit um" and "queryUser um u = Some a"
    and "mGroupIndex (mUsers um ! a) = 0" and "acyclic (before (mUserGroupGraph um ! 0))"
  shows "haveAllUsersReleasedOrPreReleased um u =
     Some (if \<forall>b. (u, b) \<in> (before (mUserGroupGraph um ! 0))\<^sup>+ \<longrightarrow>
                (let v = mUsers um ! node_user (mUserGroupGraph um ! 0) b in
                   mCategory v = NONE \<or> has (mUserStatus v) RELEASE \<or> has (mUserStatus v) RELEASE_STILLUSE \<or>
                   has (mUserStatus v) PRE_RELEASE)
           then OK else NO_INIT)"
  by (rule ready_iff [OF um_reach_inv [OF assms(1)] assms(2-5)])

lemma ex_rel1_facts: "mUserInit ex_um_rel1" "queryUser ex_um_rel1 2 = Some 1" "queryUser ex_um_rel1 3 = Some 2"
  "mGroupIndex (mUsers ex_um_rel1 ! 1) = 0" "mGroupIndex (mUsers ex_um_rel1 ! 2) = 0"
  by code_simp+

lemma ex_rel1_before: "before (mUserGroupGraph ex_um_rel1 ! 0) = {(2, 1), (3, 1), (3, 2)}"
proof -
  have "mUserVector (mUserGroupGraph ex_um_rel1 ! 0) =
      [(1, \<lparr>mMyUser = 0, mIn = [], mOut = [2, 3]\<rparr>), (2, \<lparr>mMyUser = 1, mIn = [1], mOut = [3]\<rparr>),
       (3, \<lparr>mMyUser = 2, mIn = [1, 2], mOut = []\<rparr>)]" by code_simp
  then show ?thesis by (auto simp: edge_rel_def split: if_splits)
qed

lemma ex_rel1_acyclic: "acyclic (before (mUserGroupGraph ex_um_rel1 ! 0))"
  by (rule acyclicI_order [where f = "\<lambda>x. x"]) (auto simp: ex_rel1_before)

lemma ex_rel1_trancl: "(before (mUserGroupGraph ex_um_rel1 ! 0))\<^sup>+ = {(2, 1), (3, 1), (3, 2)}"
  unfolding ex_rel1_before by (rule trancl_id) (auto simp: trans_def)

lemma ex_rel1_nodes: "node_user (mUserGroupGraph ex_um_rel1 ! 0) 1 = 0" "node_user (mUserGroupGraph ex_um_rel1 ! 0) 2 = 1"
  by code_simp+

theorem haveAllUsersReleasedOrPreReleased_iff_witness:
  "haveAllUsersReleasedOrPreReleased ex_um_rel1 2 = Some OK"
proof -
  have "has (mUserStatus (mUsers ex_um_rel1 ! 0)) RELEASE" by code_simp
  then show ?thesis
    unfolding haveAllUsersReleasedOrPreReleased_iff [OF ex_um_rel1_reach ex_rel1_facts(1,2,4) ex_rel1_acyclic]
      ex_rel1_trancl by (auto simp: Let_def ex_rel1_nodes)
qed

text \<open>A user of any other graph than the first is never told that it may go on, and its
  acquire fence is -1, although the interface documents a bad fence as the absence of a
  need to wait.\<close>

theorem other_groups_never_ready:
  assumes "mUserInit um" and "queryUser um u = Some a" and "mGroupIndex (mUsers um ! a) \<noteq> 0"
  shows "haveAllUsersReleasedOrPreReleased um u = Some UNKNOWN_ERROR \<and> createAcquireFence K um u k = Some (- 1, k)"
  using assms by (simp add: haveAllUsersReleasedOrPreReleased_def createAcquireFence_def)

definition ex_um2 :: UsersManager where
  "ex_um2 =
     (let um = on_graph 1 (\<lambda>s. snd (addUser (ex_user 5 CONSUMER (- 1) (- 1)) s)) (snd (createGraph ex_graph))
      in snd (finishUserSetup (snd (the (enqueUserGraph 1 um)))))"

theorem other_groups_never_ready_witness:
  "haveAllUsersReleasedOrPreReleased ex_um2 5 = Some UNKNOWN_ERROR"
proof -
  have "mUserInit ex_um2" "queryUser ex_um2 5 = Some 3" "mGroupIndex (mUsers ex_um2 ! 3) \<noteq> 0" by code_simp+
  from other_groups_never_ready [OF this, of mk_kernel "[]"] show ?thesis by simp
qed

text \<open>C25: with a cycle before it, a user of the first graph gets no answer: the recursion of
  \<open>DFS\<close> does not end, for the readiness query and for the acquire fence. Nothing in
  \<open>addEdge\<close> rejects an edge that closes a cycle.\<close>

theorem user_cycle_diverges:
  assumes "mUserInit um" and "queryUser um u = Some a" and "mGroupIndex (mUsers um ! a) = 0"
    and "(u, c) \<in> (before (mUserGroupGraph um ! 0))\<^sup>*" and "(c, c) \<in> (before (mUserGroupGraph um ! 0))\<^sup>+"
  shows "haveAllUsersReleasedOrPreReleased um u = None \<and> createAcquireFence K um u k = None"
  using assms getPriorUsers_cyclic [OF assms(4,5)]
  by (simp add: haveAllUsersReleasedOrPreReleased_def createAcquireFence_def)

definition ex_um_cycle :: UsersManager where
  "ex_um_cycle = on_graph 0 (\<lambda>(us, g). (us, snd (graph_addEdge 3 1 g))) ex_um"

theorem user_cycle_diverges_witness:
  "um_reach ex_um_cycle \<and> haveAllUsersReleasedOrPreReleased ex_um_cycle 1 = None"
proof -
  have f: "mUserInit ex_um_cycle" "queryUser ex_um_cycle 1 = Some 0" "mGroupIndex (mUsers ex_um_cycle ! 0) = 0" by code_simp+
  have "mUserVector (mUserGroupGraph ex_um_cycle ! 0) =
      [(1, \<lparr>mMyUser = 0, mIn = [3], mOut = [2, 3]\<rparr>), (2, \<lparr>mMyUser = 1, mIn = [1], mOut = [3]\<rparr>),
       (3, \<lparr>mMyUser = 2, mIn = [1, 2], mOut = [1]\<rparr>)]" by code_simp
  then have e: "(1, 3) \<in> before (mUserGroupGraph ex_um_cycle ! 0)" "(3, 1) \<in> before (mUserGroupGraph ex_um_cycle ! 0)"
    by (simp_all add: edge_rel_def)
  have "(1, 1) \<in> (before (mUserGroupGraph ex_um_cycle ! 0))\<^sup>+" using e by (meson trancl.intros)
  from user_cycle_diverges [OF f rtrancl.rtrancl_refl this, of mk_kernel "[]"]
  have "haveAllUsersReleasedOrPreReleased ex_um_cycle 1 = None" by simp
  moreover have "um_reach ex_um_cycle" unfolding ex_um_cycle_def
    by (rule um_reach.addEdge [OF ex_um_reach]) code_simp
  ultimately show ?thesis by simp
qed


section \<open>Fences\<close>

definition opt_deps :: "('k, 'e) fence_sem \<Rightarrow> 'k \<Rightarrow> IFence option \<Rightarrow> 'e set" where
  "opt_deps sem k f = (case f of None \<Rightarrow> {} | Some f \<Rightarrow> fence_deps sem k (getFd f))"

definition opt_ok :: "('k, 'e) fence_sem \<Rightarrow> 'k \<Rightarrow> IFence option \<Rightarrow> bool" where
  "opt_ok sem k f \<longleftrightarrow> (case f of None \<Rightarrow> True | Some f \<Rightarrow> fence_ok sem k (getFd f))"

lemma opt_simps [simp]:
  "opt_deps sem k None = {}" "opt_deps sem k (Some f) = fence_deps sem k (getFd f)"
  "opt_ok sem k None" "opt_ok sem k (Some f) \<longleftrightarrow> fence_ok sem k (getFd f)"
  by (simp_all add: opt_deps_def opt_ok_def)

lemma opt_extends:
  assumes "sync_laws K sem fails" and "opt_ok sem k f" and "sem_extends sem k k'"
  shows "opt_ok sem k' f" and "opt_deps sem k' f = opt_deps sem k f"
proof -
  show "opt_ok sem k' f" using assms(2,3) by (cases f) (simp_all add: fence_ok_extends)
  show "opt_deps sem k' f = opt_deps sem k f"
    using assms(2) fence_deps_extends [OF assms(1) _ assms(3)] by (cases f) simp_all
qed

text \<open>Every acquire and release fence of the store is none or an open descriptor.\<close>

definition fences_ok :: "('k, 'e) fence_sem \<Rightarrow> 'k \<Rightarrow> MyUser list \<Rightarrow> bool" where
  "fences_ok sem k us \<longleftrightarrow> (\<forall>u \<in> set us. opt_ok sem k (mAcquireFence u) \<and> opt_ok sem k (mReleaseFence u))"

lemma add_fence_post:
  assumes laws: "sync_laws K sem fails" and f: "opt_ok sem k fence" and RF: "fence_ok sem k (getFd RF)"
    and r: "add_fence K fence RF k = (fence', k')"
  shows "opt_ok sem k' fence' \<and> keeps_events fails k k' (opt_deps sem k fence \<union> fence_deps sem k (getFd RF)) (opt_deps sem k' fence') \<and>
    sem_extends sem k k'"
proof (cases fence)
  case None
  obtain fd k1 where d: "fence_dup K RF k = (fd, k1)" by fastforce
  from r None d have "fence' = Some (fence_create fd)" "k' = k1" by (simp_all add: add_fence_def)
  with fence_dup_post [OF laws RF [unfolded getFd_def] d] None show ?thesis by (simp add: getFd_def fence_create_def)
next
  case (Some g)
  obtain f' k1 where m: "fence_merge K g RF k = (f', k1)" by fastforce
  from r Some m have "fence' = Some f'" "k' = k1" by (simp_all add: add_fence_def)
  with fence_merge_post [OF laws _ RF [unfolded getFd_def] m] f Some show ?thesis by (simp add: getFd_def)
qed

text \<open>The end of the loop: the acquire fence joins, and the result is duplicated.\<close>

lemma acquire_last_post:
  assumes laws: "sync_laws K sem fails" and f: "opt_ok sem k fence" and AF: "opt_ok sem k (mAcquireFence (us ! a))"
    and id: "mUserId (us ! a) = u" and r: "acquire_loop K us u [a] fence k = (fd, k')"
  shows "fence_ok sem k' fd \<and> keeps_events fails k k' (opt_deps sem k fence \<union> opt_deps sem k (mAcquireFence (us ! a))) (fence_deps sem k' fd) \<and>
    sem_extends sem k k'"
proof (cases "mAcquireFence (us ! a)"; cases fence)
  assume "mAcquireFence (us ! a) = None" "fence = None"
  with r id have "fd = - 1" "k' = k" by simp_all
  then show ?thesis using \<open>mAcquireFence (us ! a) = None\<close> \<open>fence = None\<close> fence_deps_invalid [OF laws] by simp
next
  fix g assume c: "mAcquireFence (us ! a) = None" "fence = Some g"
  with r id have d: "fence_dup K g k = (fd, k')" by simp
  from fence_dup_post [OF laws _ d] f c show ?thesis by (simp add: getFd_def)
next
  fix A assume c: "mAcquireFence (us ! a) = Some A" "fence = None"
  with r id have d: "fence_dup K A k = (fd, k')" by simp
  from fence_dup_post [OF laws _ d] AF c show ?thesis by (simp add: getFd_def)
next
  fix A g assume c: "mAcquireFence (us ! a) = Some A" "fence = Some g"
  obtain m k1 where m: "fence_merge K g A k = (m, k1)" by fastforce
  with r id c have d: "fence_dup K m k1 = (fd, k')" by simp
  from fence_merge_post [OF laws _ _ m] f AF c have p: "fence_ok sem k1 (mFenceFd m)"
    "keeps_events fails k k1 (fence_deps sem k (mFenceFd g) \<union> fence_deps sem k (mFenceFd A)) (fence_deps sem k1 (mFenceFd m))"
    "sem_extends sem k k1"
    by (simp_all add: getFd_def)
  note q = fence_dup_post [OF laws p(1) d]
  have "keeps_events fails k k' (fence_deps sem k (mFenceFd g) \<union> fence_deps sem k (mFenceFd A)) (fence_deps sem k' fd)"
    using keeps_events_trans [OF p(2), of k' "{}"] q(2) by simp
  with q(1,3) p(3) c show ?thesis by (auto simp: getFd_def intro: sem_extends_trans)
qed

lemma fences_ok_extends: "fences_ok sem k us \<Longrightarrow> sync_laws K sem fails \<Longrightarrow> sem_extends sem k k' \<Longrightarrow> fences_ok sem k' us"
  by (simp add: fences_ok_def opt_extends(1) [of K sem fails k])

lemma acquire_loop_post:
  assumes laws: "sync_laws K sem fails" and id: "mUserId (us ! a) = u" and a: "a < length us"
  shows "opt_ok sem k fence \<Longrightarrow> fences_ok sem k us \<Longrightarrow>
    (\<forall>x \<in> set L. mUserId (us ! x) \<noteq> u \<and> x < length us) \<Longrightarrow>
    acquire_loop K us u (L @ [a]) fence k = (fd, k') \<Longrightarrow>
    fence_ok sem k' fd \<and> sem_extends sem k k' \<and>
    keeps_events fails k k' (opt_deps sem k fence \<union> (\<Union>x \<in> set L. opt_deps sem k (mReleaseFence (us ! x))) \<union>
      opt_deps sem k (mAcquireFence (us ! a))) (fence_deps sem k' fd)"
proof (induction L arbitrary: fence k)
  case Nil
  have "opt_ok sem k (mAcquireFence (us ! a))" using Nil.prems(2) a by (simp add: fences_ok_def)
  from acquire_last_post [OF laws Nil.prems(1) this id] Nil.prems(4) show ?case by simp
next
  case (Cons x L)
  have x: "mUserId (us ! x) \<noteq> u" "us ! x \<in> set us" using Cons.prems(3) by auto
  then have RF: "opt_ok sem k (mReleaseFence (us ! x))" using Cons.prems(2) by (simp add: fences_ok_def)
  show ?case
  proof (cases "mReleaseFence (us ! x)")
    case None
    with Cons.prems(4) x have "acquire_loop K us u (L @ [a]) fence k = (fd, k')" by auto
    with Cons.IH [OF Cons.prems(1,2)] Cons.prems(3) None show ?thesis by simp
  next
    case (Some R)
    obtain f1 k1 where f1: "add_fence K fence R k = (f1, k1)" by fastforce
    with Cons.prems(4) x Some have l: "acquire_loop K us u (L @ [a]) f1 k1 = (fd, k')" by auto
    from add_fence_post [OF laws Cons.prems(1) _ f1] RF Some have p: "opt_ok sem k1 f1"
      "keeps_events fails k k1 (opt_deps sem k fence \<union> fence_deps sem k (getFd R)) (opt_deps sem k1 f1)"
      and e: "sem_extends sem k k1" by auto
    have ok1: "fences_ok sem k1 us" using Cons.prems(2) laws e by (rule fences_ok_extends)
    have same: "opt_deps sem k1 (mReleaseFence (us ! y)) = opt_deps sem k (mReleaseFence (us ! y))"
      "opt_deps sem k1 (mAcquireFence (us ! y)) = opt_deps sem k (mAcquireFence (us ! y))" if "y < length us" for y
      using Cons.prems(2) that by (auto simp: fences_ok_def intro!: opt_extends(2) [OF laws _ e])
    define Y where "Y = (\<Union>x \<in> set L. opt_deps sem k (mReleaseFence (us ! x))) \<union> opt_deps sem k (mAcquireFence (us ! a))"
    have "(\<Union>x \<in> set L. opt_deps sem k1 (mReleaseFence (us ! x))) = (\<Union>x \<in> set L. opt_deps sem k (mReleaseFence (us ! x)))"
      using same(1) Cons.prems(3) by auto
    with Cons.IH [OF p(1) ok1 _ l] Cons.prems(3) have h:
      "fence_ok sem k' fd \<and> sem_extends sem k1 k' \<and> keeps_events fails k1 k' (opt_deps sem k1 f1 \<union> Y) (fence_deps sem k' fd)"
      using same(2) [OF a] by (simp add: Y_def Un_assoc)
    have "keeps_events fails k k' ((opt_deps sem k fence \<union> fence_deps sem k (getFd R)) \<union> Y) (fence_deps sem k' fd)"
      using keeps_events_trans [OF p(2)] h by blast
    moreover have "(opt_deps sem k fence \<union> fence_deps sem k (getFd R)) \<union> Y = opt_deps sem k fence \<union>
        (\<Union>z \<in> set (x # L). opt_deps sem k (mReleaseFence (us ! z))) \<union> opt_deps sem k (mAcquireFence (us ! a))"
      using Some by (simp add: Y_def Un_ac)
    ultimately show ?thesis using h sem_extends_trans [OF e] by metis
  qed
qed

text \<open>C12: under the laws of the kernel's fences the acquire fence of a user of the first
  graph waits for nothing but its own acquire fence and the release fences of the users it
  waits for, directly or not; it waits for all of them unless a call of the kernel has failed, and
  no open descriptor changes its meaning.\<close>

theorem createAcquireFence_deps:
  assumes "um_reach um" and "mUserInit um" and "queryUser um u = Some a"
    and "mGroupIndex (mUsers um ! a) = 0" and "acyclic (before (mUserGroupGraph um ! 0))"
    and "sync_laws K sem fails" and "fences_ok sem k (mUsers um)"
  defines "X \<equiv> opt_deps sem k (mAcquireFence (mUsers um ! a)) \<union>
       (\<Union>b \<in> {b. (u, b) \<in> (before (mUserGroupGraph um ! 0))\<^sup>+}.
          opt_deps sem k (mReleaseFence (mUsers um ! node_user (mUserGroupGraph um ! 0) b)))"
  shows "\<exists>fd k'. createAcquireFence K um u k = Some (fd, k') \<and> fence_ok sem k' fd \<and> sem_extends sem k k' \<and>
     fence_deps sem k' fd \<subseteq> X \<and> fails k \<le> fails k' \<and> (fails k' = fails k \<longrightarrow> fence_deps sem k' fd = X)"
proof -
  let ?g = "mUserGroupGraph um ! 0"
  have inv: "um_inv um" using assms(1) by (rule um_reach_inv)
  from prior_users [OF inv assms(3-5)] obtain L where
    L: "getPriorUsers ?g u = Some (OK, L @ [a])" "set L = node_user ?g ` {b. (u, b) \<in> (before ?g)\<^sup>+}"
    "\<forall>x \<in> set L. mUserId (mUsers um ! x) \<noteq> u \<and> x < length (mUsers um)" .
  have id: "mUserId (mUsers um ! a) = u" by (rule queryUser_node(1) [OF inv assms(3)])
  have al: "a < length (mUsers um)"
    using um_user_length [OF inv] assms(3) queryUser_Some [OF inv] by blast
  obtain fd k' where r: "acquire_loop K (mUsers um) u (L @ [a]) None k = (fd, k')" by fastforce
  have c: "createAcquireFence K um u k = Some (fd, k')"
    using assms(2-4) L(1) r by (simp add: createAcquireFence_def)
  from acquire_loop_post [OF assms(6) id al _ assms(7) L(3) r] have
    p: "fence_ok sem k' fd" "sem_extends sem k k'" and q: "keeps_events fails k k'
      ((\<Union>x \<in> set L. opt_deps sem k (mReleaseFence (mUsers um ! x))) \<union> opt_deps sem k (mAcquireFence (mUsers um ! a))) (fence_deps sem k' fd)"
    by simp_all
  have "(\<Union>x \<in> set L. opt_deps sem k (mReleaseFence (mUsers um ! x))) \<union> opt_deps sem k (mAcquireFence (mUsers um ! a)) = X"
    using L(2) by (simp add: X_def Un_commute)
  then show ?thesis using c p q by (intro exI [of _ fd] exI [of _ k']) (simp add: keeps_events_def)
qed

theorem createAcquireFence_deps_witness:
  "\<exists>fd k'. createAcquireFence mk_kernel ex_um_rel1 3 [{10}, {20}, {30}] = Some (fd, k') \<and>
     fence_deps mk_sem k' fd = {10, 20}"
proof -
  have u: "mUsers ex_um_rel1 = [(MyUser_new (ex_user 1 PRODUCER (- 1) 0) 0)\<lparr>mUserStatus := RELEASE\<rparr>,
      MyUser_new (ex_user 2 CONSUMER (- 1) 1) 0, MyUser_new (ex_user 3 CONSUMER (- 1) 2) 0]" by code_simp
  have ok: "fences_ok mk_sem [{10}, {20}, {30}] (mUsers ex_um_rel1)"
    unfolding u by (simp add: fences_ok_def MyUser_new_def ex_user_def fence_create_def getFd_def fence_ok_def mk_sem_def)
  have "{b. (3, b) \<in> (before (mUserGroupGraph ex_um_rel1 ! 0))\<^sup>+} = {1, 2}" unfolding ex_rel1_trancl by auto
  moreover have "opt_deps mk_sem [{10}, {20}, {30}] (mAcquireFence (mUsers ex_um_rel1 ! 2)) = {}"
    "opt_deps mk_sem [{10}, {20}, {30}] (mReleaseFence (mUsers ex_um_rel1 ! 0)) = {10}"
    "opt_deps mk_sem [{10}, {20}, {30}] (mReleaseFence (mUsers ex_um_rel1 ! 1)) = {20}"
    unfolding u by (simp_all add: MyUser_new_def ex_user_def fence_create_def getFd_def fence_deps_def mk_sem_def)
  ultimately have "opt_deps mk_sem [{10}, {20}, {30}] (mAcquireFence (mUsers ex_um_rel1 ! 2)) \<union>
       (\<Union>b \<in> {b. (3, b) \<in> (before (mUserGroupGraph ex_um_rel1 ! 0))\<^sup>+}.
          opt_deps mk_sem [{10}, {20}, {30}] (mReleaseFence (mUsers ex_um_rel1 ! node_user (mUserGroupGraph ex_um_rel1 ! 0) b)))
      = {10, 20}"
    by (simp add: ex_rel1_nodes insert_commute)
  with createAcquireFence_deps [OF ex_um_rel1_reach ex_rel1_facts(1,3,5) ex_rel1_acyclic mk_laws ok]
  show ?thesis by (auto simp: mk_fails_def)
qed


text \<open>The final release fence: the release fences of all users of all graphs.\<close>

lemma merge_release_post:
  assumes laws: "sync_laws K sem fails"
  shows "opt_ok sem k fence \<Longrightarrow> fences_ok sem k us \<Longrightarrow> merge_release K us fence k = (fd, k') \<Longrightarrow>
    fence_ok sem k' fd \<and> sem_extends sem k k' \<and>
    keeps_events fails k k' (opt_deps sem k fence \<union> (\<Union>u \<in> set us. opt_deps sem k (mReleaseFence u))) (fence_deps sem k' fd)"
proof (induction us arbitrary: fence k)
  case Nil
  show ?case
  proof (cases fence)
    case None
    with Nil.prems(3) have "fd = - 1" "k' = k" by simp_all
    then show ?thesis using fence_deps_invalid [OF laws] None by simp
  next
    case (Some f)
    with Nil.prems(3) have d: "fence_dup K f k = (fd, k')" by simp
    from fence_dup_post [OF laws _ d] Nil.prems(1) Some show ?thesis by (simp add: getFd_def)
  qed
next
  case (Cons u us)
  have ok: "fences_ok sem k us" and RF: "opt_ok sem k (mReleaseFence u)" using Cons.prems(2) by (simp_all add: fences_ok_def)
  show ?case
  proof (cases "mReleaseFence u")
    case None
    with Cons.IH [OF Cons.prems(1) ok] Cons.prems(3) show ?thesis by simp
  next
    case (Some R)
    obtain f1 k1 where f1: "add_fence K fence R k = (f1, k1)" by fastforce
    with Cons.prems(3) Some have l: "merge_release K us f1 k1 = (fd, k')" by simp
    from add_fence_post [OF laws Cons.prems(1) _ f1] RF Some have p: "opt_ok sem k1 f1"
      "keeps_events fails k k1 (opt_deps sem k fence \<union> fence_deps sem k (getFd R)) (opt_deps sem k1 f1)"
      and e: "sem_extends sem k k1" by auto
    have "opt_deps sem k1 (mReleaseFence v) = opt_deps sem k (mReleaseFence v)" if "v \<in> set us" for v
      using ok that by (auto simp: fences_ok_def intro!: opt_extends(2) [OF laws _ e])
    then have "(\<Union>v \<in> set us. opt_deps sem k1 (mReleaseFence v)) = (\<Union>v \<in> set us. opt_deps sem k (mReleaseFence v))" by simp
    with Cons.IH [OF p(1) fences_ok_extends [OF ok laws e] l] have h: "fence_ok sem k' fd \<and> sem_extends sem k1 k' \<and>
        keeps_events fails k1 k' (opt_deps sem k1 f1 \<union> (\<Union>v \<in> set us. opt_deps sem k (mReleaseFence v))) (fence_deps sem k' fd)"
      by simp
    have "keeps_events fails k k' ((opt_deps sem k fence \<union> fence_deps sem k (getFd R)) \<union>
        (\<Union>v \<in> set us. opt_deps sem k (mReleaseFence v))) (fence_deps sem k' fd)"
      using keeps_events_trans [OF p(2)] h by blast
    then show ?thesis using h sem_extends_trans [OF e] Some by (simp add: Un_assoc)
  qed
qed

text \<open>C38: the final release fence of an initialised manager waits for nothing but the release fences of
  the users of all its graphs, participants or not, and for all of those unless a call of the kernel failed.\<close>

theorem createReleaseFence_all_deps:
  assumes "mUserInit um" and "sync_laws K sem fails" and "fences_ok sem k (all_graph_users um)"
  defines "X \<equiv> \<Union>g \<in> set (mUserGroupGraph um). \<Union>(i, n) \<in> set (mUserVector g). opt_deps sem k (mReleaseFence (mUsers um ! mMyUser n))"
  shows "\<exists>fd k'. createReleaseFence_all K um k = (fd, k') \<and> fence_ok sem k' fd \<and> sem_extends sem k k' \<and>
     fence_deps sem k' fd \<subseteq> X \<and> fails k \<le> fails k' \<and> (fails k' = fails k \<longrightarrow> fence_deps sem k' fd = X)"
proof -
  obtain fd k' where r: "createReleaseFence_all K um k = (fd, k')" by fastforce
  then have m: "merge_release K (all_graph_users um) None k = (fd, k')"
    using assms(1) by (simp add: createReleaseFence_all_def)
  have "(\<Union>u \<in> set (all_graph_users um). opt_deps sem k (mReleaseFence u)) = X"
    unfolding all_graph_users_def X_def by force
  with merge_release_post [OF assms(2) _ assms(3) m] r show ?thesis by (simp add: keeps_events_def)
qed

theorem createReleaseFence_all_deps_witness:
  "\<exists>fd k'. createReleaseFence_all mk_kernel ex_um_rel1 [{10}, {20}, {30}] = (fd, k') \<and> fence_deps mk_sem k' fd = {10, 20, 30}"
proof -
  have a: "all_graph_users ex_um_rel1 = [(MyUser_new (ex_user 1 PRODUCER (- 1) 0) 0)\<lparr>mUserStatus := RELEASE\<rparr>,
      MyUser_new (ex_user 2 CONSUMER (- 1) 1) 0, MyUser_new (ex_user 3 CONSUMER (- 1) 2) 0]" by code_simp
  then have u: "mUsers ex_um_rel1 = all_graph_users ex_um_rel1" by code_simp
  have ok: "fences_ok mk_sem [{10}, {20}, {30}] (all_graph_users ex_um_rel1)"
    unfolding a by (simp add: fences_ok_def MyUser_new_def ex_user_def fence_create_def getFd_def fence_ok_def mk_sem_def)
  have g: "mUserGroupGraph ex_um_rel1 = [\<lparr>mConsumerUsage = 1, mGraphIndex = 0, mUserVector =
      [(1, \<lparr>mMyUser = 0, mIn = [], mOut = [2, 3]\<rparr>), (2, \<lparr>mMyUser = 1, mIn = [1], mOut = [3]\<rparr>),
       (3, \<lparr>mMyUser = 2, mIn = [1, 2], mOut = []\<rparr>)]\<rparr>]" by code_simp
  have "(\<Union>g \<in> set (mUserGroupGraph ex_um_rel1). \<Union>(i, n) \<in> set (mUserVector g).
       opt_deps mk_sem [{10}, {20}, {30}] (mReleaseFence (mUsers ex_um_rel1 ! mMyUser n))) = {10, 20, 30}"
    unfolding g u a
    by (simp add: MyUser_new_def ex_user_def fence_create_def getFd_def fence_deps_def mk_sem_def insert_commute)
  with createReleaseFence_all_deps [OF ex_rel1_facts(1) mk_laws ok] show ?thesis by (auto simp: mk_fails_def)
qed

end
