(* ===== verification/StreamBufferPool.thy ===== *)
theory StreamBufferPool
  imports Prelude
begin

text \<open>
  The pool of stream buffers: \<open>StreamBufferPoolImpl\<close> (\<open>mtkcam/pipeline/utils/streambuf/
  StreamBufferPoolImpl.cpp\<close>), which keeps indices of free and used buffers, and the class
  template \<open>StreamBufferPoolImp\<close> over it (\<open>include/mtkcam/pipeline/utils/streambuf/
  StreamBufferPool.h\<close>), which keeps the buffers themselves.

  The allocator is a parameter: a call of it is its result, \<open>None\<close> for the null pointer. A
  waiting caller is named by a number (the address of its condition variable). The sections
  the code runs under the pool's lock are functions on the pool; the second half of the
  theory interleaves them with the allocation thread and with each other.
\<close>

section \<open>State and sections\<close>

record 'b StreamBufferPool =
  mName :: string
  muToAllocCnt :: MUINT32
  mlAvailableBuf :: "nat list"
  mlInUseBuf :: "nat list"
  mWaitingList :: "nat list"
  mStorage :: "'b list"

definition StreamBufferPool_new :: "'b StreamBufferPool" where
  "StreamBufferPool_new = \<lparr>mName = [], muToAllocCnt = 0, mlAvailableBuf = [], mlInUseBuf = [],
     mWaitingList = [], mStorage = []\<rparr>"

definition finishImpl :: "'b StreamBufferPool \<Rightarrow> 'b StreamBufferPool" where
  "finishImpl p = p\<lparr>mlAvailableBuf := [], mlInUseBuf := [], mWaitingList := [], muToAllocCnt := 0\<rparr>"

definition do_construct :: "'b option \<Rightarrow> 'b StreamBufferPool \<Rightarrow> MERROR \<times> nat \<times> 'b StreamBufferPool" where
  "do_construct alloc p =
     (case alloc of
        None \<Rightarrow> (NO_MEMORY, 0, p)
      | Some b \<Rightarrow> (OK, length (mStorage p), p\<lparr>mStorage := mStorage p @ [b]\<rparr>))"

fun init_loop :: "nat \<Rightarrow> (nat \<Rightarrow> 'b option) \<Rightarrow> 'b StreamBufferPool \<Rightarrow> MERROR \<times> 'b StreamBufferPool" where
  "init_loop 0 alloc p = (OK, p)"
| "init_loop (Suc i) alloc p =
     (let (e, construct_result, p1) = do_construct (alloc i) p in
      if e = NO_MEMORY then (NO_MEMORY, p1)
      else init_loop i alloc (p1\<lparr>mlAvailableBuf := mlAvailableBuf p1 @ [construct_result]\<rparr>))"

text \<open>\<open>None\<close> is the null caller name.\<close>

definition initPoolImpl ::
    "string option \<Rightarrow> nat \<Rightarrow> nat \<Rightarrow> (nat \<Rightarrow> 'b option) \<Rightarrow> 'b StreamBufferPool \<Rightarrow> MERROR \<times> 'b StreamBufferPool" where
  "initPoolImpl szCallerName maxNumberOfBuffers minNumberOfInitialCommittedBuffers alloc p =
     (let p0 = p\<lparr>mName := (case szCallerName of None \<Rightarrow> [] | Some n \<Rightarrow> n)\<rparr> in
      if szCallerName = None \<or> maxNumberOfBuffers = 0 \<or>
         maxNumberOfBuffers < minNumberOfInitialCommittedBuffers
      then (INVALID_OPERATION, p0)
      else
        let (e, p1) = init_loop minNumberOfInitialCommittedBuffers alloc p0 in
        if e \<noteq> OK then (e, p1)
        else (OK, p1\<lparr>muToAllocCnt := of_nat (maxNumberOfBuffers - minNumberOfInitialCommittedBuffers)\<rparr>))"

text \<open>The waiter that is signalled: the first one of the list.\<close>

definition signalUserLocked :: "'b StreamBufferPool \<Rightarrow> nat option" where
  "signalUserLocked p = (case mWaitingList p of [] \<Rightarrow> None | w # ws \<Rightarrow> Some w)"

text \<open>The section of \<open>uninitPoolImpl\<close> under the lock; before it the call waits for the thread to end.\<close>

definition uninitPoolImpl :: "'b StreamBufferPool \<Rightarrow> 'b StreamBufferPool" where
  "uninitPoolImpl p = p\<lparr>mlAvailableBuf := [], mlInUseBuf := [], muToAllocCnt := 0\<rparr>"

text \<open>
  \<open>commitPoolImpl\<close> reads the counter without the lock and then starts the thread; \<open>started\<close> is the
  result of \<open>Thread::run\<close>, the flag says that the thread was started.
\<close>

definition commit_wanted :: "'b StreamBufferPool \<Rightarrow> bool" where
  "commit_wanted p \<longleftrightarrow> 0 < muToAllocCnt p"

definition commit_start :: "bool \<Rightarrow> MERROR \<times> bool" where
  "commit_start started = (if started then (OK, True) else (UNKNOWN_ERROR, False))"

definition commitPoolImpl :: "bool \<Rightarrow> 'b StreamBufferPool \<Rightarrow> MERROR \<times> bool" where
  "commitPoolImpl started p = (if commit_wanted p then commit_start started else (OK, False))"

text \<open>
  \<open>acquireFromPoolImpl\<close> in the parts between which other threads can run: the decision of
  the first section, the allocation in it, and the section after the wait.
\<close>

datatype acquire = Acquired nat | Allocate | Waiting

definition take_available :: "'b StreamBufferPool \<Rightarrow> nat \<times> 'b StreamBufferPool" where
  "take_available p =
     (let i = hd (mlAvailableBuf p)
      in (i, p\<lparr>mlInUseBuf := mlInUseBuf p @ [i], mlAvailableBuf := tl (mlAvailableBuf p)\<rparr>))"

definition acquire_enter :: "bool \<Rightarrow> nat \<Rightarrow> 'b StreamBufferPool \<Rightarrow> acquire \<times> 'b StreamBufferPool" where
  "acquire_enter isRunning cond p =
     (if mlAvailableBuf p \<noteq> [] then let (i, p') = take_available p in (Acquired i, p')
      else if \<not> isRunning \<and> 0 < muToAllocCnt p then (Allocate, p)
      else (Waiting, p\<lparr>mWaitingList := mWaitingList p @ [cond]\<rparr>))"

definition acquire_allocate :: "'b option \<Rightarrow> 'b StreamBufferPool \<Rightarrow> MERROR \<times> nat \<times> 'b StreamBufferPool" where
  "acquire_allocate alloc p =
     (let (e, construct_result, p1) = do_construct alloc p in
      if e = NO_MEMORY then (NO_MEMORY, 0, p1)
      else (OK, construct_result,
            p1\<lparr>mlInUseBuf := mlInUseBuf p1 @ [construct_result], muToAllocCnt := muToAllocCnt p1 - 1\<rparr>))"

definition acquire_leave :: "nat \<Rightarrow> 'b StreamBufferPool \<Rightarrow> MERROR \<times> nat \<times> 'b StreamBufferPool" where
  "acquire_leave cond p =
     (let p1 = p\<lparr>mWaitingList := remove1 cond (mWaitingList p)\<rparr> in
      if mlAvailableBuf p1 \<noteq> [] then let (i, p') = take_available p1 in (OK, i, p')
      else (TIMED_OUT, 0, p1))"

text \<open>\<open>others\<close> is what happens to the pool while the caller waits.\<close>

definition acquireFromPoolImpl ::
    "bool \<Rightarrow> 'b option \<Rightarrow> nat \<Rightarrow> ('b StreamBufferPool \<Rightarrow> 'b StreamBufferPool) \<Rightarrow> 'b StreamBufferPool \<Rightarrow>
     MERROR \<times> nat \<times> 'b StreamBufferPool" where
  "acquireFromPoolImpl isRunning alloc cond others p =
     (case acquire_enter isRunning cond p of
        (Acquired i, p') \<Rightarrow> (OK, i, p')
      | (Allocate, p') \<Rightarrow> acquire_allocate alloc p'
      | (Waiting, p') \<Rightarrow> acquire_leave cond (others p'))"

definition releaseToPoolImpl :: "nat \<Rightarrow> 'b StreamBufferPool \<Rightarrow> MERROR \<times> 'b StreamBufferPool" where
  "releaseToPoolImpl pBufferIndex p =
     (if pBufferIndex \<in> set (mlInUseBuf p)
      then (OK, p\<lparr>mlAvailableBuf := mlAvailableBuf p @ [pBufferIndex],
                  mlInUseBuf := remove1 pBufferIndex (mlInUseBuf p)\<rparr>)
      else (INVALID_OPERATION, p))"

text \<open>
  One round of the allocation thread. The result says whether there is another round; the
  error code of a failed allocation is returned as a \<open>bool\<close>, so it is true.
\<close>

definition thread_publish :: "nat \<Rightarrow> 'b StreamBufferPool \<Rightarrow> bool \<times> 'b StreamBufferPool" where
  "thread_publish construct_result p =
     (let p1 = p\<lparr>mlAvailableBuf := mlAvailableBuf p @ [construct_result], muToAllocCnt := muToAllocCnt p - 1\<rparr>
      in (0 < muToAllocCnt p1, p1))"

definition threadLoop :: "'b option \<Rightarrow> 'b StreamBufferPool \<Rightarrow> bool \<times> 'b StreamBufferPool" where
  "threadLoop alloc p =
     (let (e, construct_result, p1) = do_construct alloc p in
      if e = NO_MEMORY then (NO_MEMORY \<noteq> 0, p1) else thread_publish construct_result p1)"

section \<open>The class template\<close>

definition get_itemLocation :: "'b StreamBufferPool \<Rightarrow> nat \<Rightarrow> 'b option" where
  "get_itemLocation p index = (if index < length (mStorage p) then Some (mStorage p ! index) else None)"

definition acquireFromPool ::
    "bool \<Rightarrow> 'b option \<Rightarrow> nat \<Rightarrow> ('b StreamBufferPool \<Rightarrow> 'b StreamBufferPool) \<Rightarrow> 'b StreamBufferPool \<Rightarrow>
     MERROR \<times> 'b option \<times> 'b StreamBufferPool" where
  "acquireFromPool isRunning alloc cond others p =
     (let (err, returnBufIndex, p') = acquireFromPoolImpl isRunning alloc cond others p;
          getBuf = (err \<noteq> 0)
      in if getBuf then (NO_MEMORY, None, p') else (OK, get_itemLocation p' returnBufIndex, p'))"

fun find_index :: "'b \<Rightarrow> 'b list \<Rightarrow> nat \<Rightarrow> nat option" where
  "find_index b [] counter = None"
| "find_index b (x # xs) counter = (if x = b then Some counter else find_index b xs (Suc counter))"

definition releaseToPool :: "'b \<Rightarrow> 'b StreamBufferPool \<Rightarrow> MERROR \<times> 'b StreamBufferPool" where
  "releaseToPool pBuffer p =
     (case find_index pBuffer (mStorage p) 0 of
        None \<Rightarrow> (INVALID_OPERATION, p)
      | Some counter \<Rightarrow> releaseToPoolImpl counter p)"

section \<open>Interleaving\<close>

text \<open>
  \<open>sys_holder\<close> is set while a caller of acquire is inside the allocation of the first
  section: it holds the lock of the pool, so that only steps without that lock can happen.
  Those are the two parts of a commit (\<open>sys_commits\<close> counts the calls that have seen a positive counter
  and not yet run the thread), the wait of an uninit for the end of the thread (\<open>sys_exits\<close> counts
  the calls that have waited and not yet cleared the pool), and the allocation of the thread, \<open>sys_made\<close>
  being the index it has allocated and not published. The end of the thread is one step with its last
  publication: the counter is then zero, and an acquire waits whether or not it sees the thread.

  \<open>racy\<close> allows commits and uninits at any time, as the code does. Without it a commit is the only call
  that is under way: it overlaps with no allocation by an acquire, no running thread, no other commit and
  no uninit.
\<close>

record 'b pool_sys =
  sys_pool :: "'b StreamBufferPool"
  sys_running :: bool
  sys_made :: "nat option"
  sys_holder :: bool
  sys_commits :: nat
  sys_exits :: nat

inductive pool_step :: "bool \<Rightarrow> 'b pool_sys \<Rightarrow> 'b pool_sys \<Rightarrow> bool" for racy :: bool where
  acquire: "\<not> sys_holder s \<Longrightarrow> acquire_enter (sys_running s) w (sys_pool s) = (Acquired i, p') \<Longrightarrow>
    pool_step racy s (s\<lparr>sys_pool := p'\<rparr>)"
| allocate: "\<not> sys_holder s \<Longrightarrow> racy \<or> sys_commits s = 0 \<Longrightarrow>
    acquire_enter (sys_running s) w (sys_pool s) = (Allocate, p') \<Longrightarrow>
    pool_step racy s (s\<lparr>sys_pool := p', sys_holder := True\<rparr>)"
| allocated: "sys_holder s \<Longrightarrow> acquire_allocate alloc (sys_pool s) = (e, i, p') \<Longrightarrow>
    pool_step racy s (s\<lparr>sys_pool := p', sys_holder := False\<rparr>)"
| wait: "\<not> sys_holder s \<Longrightarrow> acquire_enter (sys_running s) w (sys_pool s) = (Waiting, p') \<Longrightarrow>
    pool_step racy s (s\<lparr>sys_pool := p'\<rparr>)"
| leave: "\<not> sys_holder s \<Longrightarrow> w \<in> set (mWaitingList (sys_pool s)) \<Longrightarrow> acquire_leave w (sys_pool s) = (e, i, p') \<Longrightarrow>
    pool_step racy s (s\<lparr>sys_pool := p'\<rparr>)"
| release: "\<not> sys_holder s \<Longrightarrow> releaseToPoolImpl i (sys_pool s) = (e, p') \<Longrightarrow>
    pool_step racy s (s\<lparr>sys_pool := p'\<rparr>)"
| commit_test: "racy \<or> \<not> sys_holder s \<and> \<not> sys_running s \<and> sys_commits s = 0 \<and> sys_exits s = 0 \<Longrightarrow>
    commit_wanted (sys_pool s) \<Longrightarrow>
    pool_step racy s (s\<lparr>sys_commits := Suc (sys_commits s)\<rparr>)"
| commit_run: "sys_commits s = Suc n \<Longrightarrow> \<not> sys_running s \<Longrightarrow> commit_start True = (e, started) \<Longrightarrow>
    pool_step racy s (s\<lparr>sys_running := started, sys_commits := n\<rparr>)"
| commit_fails: "sys_commits s = Suc n \<Longrightarrow> commit_start False = (e, started) \<Longrightarrow>
    pool_step racy s (s\<lparr>sys_commits := n\<rparr>)"
| construct: "sys_running s \<Longrightarrow> sys_made s = None \<Longrightarrow> do_construct (Some b) (sys_pool s) = (e, i, p') \<Longrightarrow>
    pool_step racy s (s\<lparr>sys_pool := p', sys_made := Some i\<rparr>)"
| construct_fails: "sys_running s \<Longrightarrow> sys_made s = None \<Longrightarrow> threadLoop None (sys_pool s) = (again, p') \<Longrightarrow>
    pool_step racy s (s\<lparr>sys_pool := p', sys_running := again\<rparr>)"
| publish: "sys_running s \<Longrightarrow> sys_made s = Some i \<Longrightarrow> \<not> sys_holder s \<Longrightarrow>
    thread_publish i (sys_pool s) = (again, p') \<Longrightarrow>
    pool_step racy s (s\<lparr>sys_pool := p', sys_running := again, sys_made := None\<rparr>)"
| uninit_wait: "sys_made s = None \<Longrightarrow> racy \<or> sys_commits s = 0 \<Longrightarrow>
    pool_step racy s (s\<lparr>sys_running := False, sys_exits := Suc (sys_exits s)\<rparr>)"
| uninit_clear: "sys_exits s = Suc n \<Longrightarrow> \<not> sys_holder s \<Longrightarrow>
    pool_step racy s (s\<lparr>sys_pool := uninitPoolImpl (sys_pool s), sys_exits := n\<rparr>)"

text \<open>A system starts with a pool that was initialised, once, and no call under way.\<close>

inductive pool_reach :: "bool \<Rightarrow> nat \<Rightarrow> 'b pool_sys \<Rightarrow> bool" for racy :: bool and maxbuf :: nat where
  init: "initPoolImpl (Some nm) maxbuf minbuf alloc StreamBufferPool_new = (OK, p) \<Longrightarrow> maxbuf < 2 ^ 32 \<Longrightarrow>
    pool_reach racy maxbuf
      \<lparr>sys_pool = p, sys_running = False, sys_made = None, sys_holder = False, sys_commits = 0, sys_exits = 0\<rparr>"
| step: "pool_reach racy maxbuf s \<Longrightarrow> pool_step racy s s' \<Longrightarrow> pool_reach racy maxbuf s'"

section \<open>No buffer has two owners\<close>

definition pool_ok :: "nat list \<Rightarrow> 'b StreamBufferPool \<Rightarrow> bool" where
  "pool_ok made p \<longleftrightarrow>
     distinct (mlAvailableBuf p @ mlInUseBuf p @ made) \<and>
     set (mlAvailableBuf p @ mlInUseBuf p @ made) \<subseteq> {..<length (mStorage p)}"

lemma pool_ok_take:
  "pool_ok made p \<Longrightarrow> mlAvailableBuf p \<noteq> [] \<Longrightarrow> take_available p = (i, p') \<Longrightarrow>
   pool_ok made p' \<and> i \<in> set (mlAvailableBuf p) \<and> set (mlInUseBuf p') = insert i (set (mlInUseBuf p)) \<and>
   mStorage p' = mStorage p \<and> muToAllocCnt p' = muToAllocCnt p"
  by (cases "mlAvailableBuf p") (auto simp: take_available_def Let_def pool_ok_def)

lemma pool_ok_construct:
  "pool_ok [] p \<Longrightarrow> do_construct (Some b) p = (e, i, p') \<Longrightarrow>
   e = OK \<and> pool_ok [i] p' \<and> length (mStorage p') = Suc (length (mStorage p)) \<and>
   mlAvailableBuf p' = mlAvailableBuf p \<and> mlInUseBuf p' = mlInUseBuf p \<and> muToAllocCnt p' = muToAllocCnt p"
  by (fastforce simp: do_construct_def pool_ok_def)

lemma pool_ok_publish:
  "pool_ok [i] p \<Longrightarrow> thread_publish i p = (again, p') \<Longrightarrow>
   pool_ok [] p' \<and> mStorage p' = mStorage p \<and> muToAllocCnt p' = muToAllocCnt p - 1 \<and> again = (0 < muToAllocCnt p - 1)"
  by (auto simp: thread_publish_def pool_ok_def)

lemma pool_ok_allocate:
  assumes "pool_ok made p" and "acquire_allocate alloc p = (e, i, p')"
  shows "pool_ok made p' \<and> (p' = p \<and> e = NO_MEMORY \<or>
    e = OK \<and> i = length (mStorage p) \<and> length (mStorage p') = Suc (length (mStorage p)) \<and>
    muToAllocCnt p' = muToAllocCnt p - 1 \<and> mlInUseBuf p' = mlInUseBuf p @ [i])"
  using assms by (cases alloc) (fastforce simp: acquire_allocate_def do_construct_def pool_ok_def)+

lemma pool_ok_release:
  assumes "pool_ok made p" and "releaseToPoolImpl i p = (e, p')"
  shows "pool_ok made p' \<and> mStorage p' = mStorage p \<and> muToAllocCnt p' = muToAllocCnt p"
  using assms by (auto simp: releaseToPoolImpl_def pool_ok_def split: if_splits dest: notin_set_remove1)

lemma pool_ok_init_loop:
  "pool_ok [] p \<Longrightarrow> init_loop n alloc p = (e, p') \<Longrightarrow>
   pool_ok [] p' \<and> (e = OK \<longrightarrow> length (mStorage p') = length (mStorage p) + n)"
proof (induction n alloc p arbitrary: e p' rule: init_loop.induct)
  case (2 i alloc p)
  show ?case
  proof (cases "alloc i")
    case None
    with 2 show ?thesis by (auto simp: do_construct_def)
  next
    case (Some b)
    obtain j p1 where c: "do_construct (Some b) p = (OK, j, p1)" by (simp add: do_construct_def)
    from pool_ok_construct [OF "2.prems"(1) c] have p1: "pool_ok [j] p1" "length (mStorage p1) = Suc (length (mStorage p))"
      by auto
    let ?p = "p1\<lparr>mlAvailableBuf := mlAvailableBuf p1 @ [j]\<rparr>"
    have ok: "pool_ok [] ?p" using p1(1) by (auto simp: pool_ok_def)
    have l: "init_loop i alloc ?p = (e, p')" using "2.prems"(2) Some c by simp
    from "2.IH" [of "(OK, j, p1)" OK "(j, p1)" j p1] Some c ok l p1(2) show ?thesis by auto
  qed
qed auto


definition sys_ok :: "'b pool_sys \<Rightarrow> bool" where
  "sys_ok s \<longleftrightarrow> pool_ok (case sys_made s of None \<Rightarrow> [] | Some i \<Rightarrow> [i]) (sys_pool s)"

lemma acquire_enter_cases:
  assumes "pool_ok made p" and "acquire_enter running w p = (r, p')"
  shows "pool_ok made p' \<and> mStorage p' = mStorage p \<and> muToAllocCnt p' = muToAllocCnt p \<and>
    (r = Allocate \<longrightarrow> \<not> running \<and> 0 < muToAllocCnt p) \<and>
    (\<forall>i. r = Acquired i \<longrightarrow> i \<in> set (mlAvailableBuf p) \<and> set (mlInUseBuf p') = insert i (set (mlInUseBuf p)))"
proof (cases "mlAvailableBuf p = []")
  case True
  with assms show ?thesis by (auto simp: acquire_enter_def pool_ok_def split: if_splits)
next
  case False
  obtain i q where t: "take_available p = (i, q)" by fastforce
  from pool_ok_take [OF assms(1) False t] assms(2) False t show ?thesis by (auto simp: acquire_enter_def)
qed

lemma acquire_leave_ok:
  assumes "pool_ok made p" and "acquire_leave w p = (e, i, p')"
  shows "pool_ok made p' \<and> mStorage p' = mStorage p \<and> muToAllocCnt p' = muToAllocCnt p \<and>
    (e = OK \<longrightarrow> i \<in> set (mlAvailableBuf p) \<and> set (mlInUseBuf p') = insert i (set (mlInUseBuf p)))"
proof -
  let ?p = "p\<lparr>mWaitingList := remove1 w (mWaitingList p)\<rparr>"
  have ok: "pool_ok made ?p" using assms(1) by (simp add: pool_ok_def)
  obtain j q where t: "take_available ?p = (j, q)" by fastforce
  show ?thesis
  proof (cases "mlAvailableBuf p = []")
    case True
    with assms(2) ok show ?thesis by (auto simp: acquire_leave_def)
  next
    case False
    with pool_ok_take [OF ok _ t] assms(2) t show ?thesis by (auto simp: acquire_leave_def Let_def)
  qed
qed

lemma pool_step_ok: "pool_step racy s s' \<Longrightarrow> sys_ok s \<Longrightarrow> sys_ok s'"
proof (induction rule: pool_step.induct)
  case (construct s b e i p')
  then show ?case using pool_ok_construct [of "sys_pool s" b e i p'] by (simp add: sys_ok_def)
next
  case (construct_fails s again p')
  then show ?case by (simp add: sys_ok_def threadLoop_def do_construct_def)
next
  case (publish s i again p')
  then show ?case using pool_ok_publish [of i "sys_pool s" again p'] by (simp add: sys_ok_def)
next
  case (uninit_clear s n)
  then show ?case by (cases "sys_made s") (simp_all add: sys_ok_def uninitPoolImpl_def pool_ok_def)
qed (auto simp: sys_ok_def dest: acquire_enter_cases acquire_leave_ok pool_ok_allocate pool_ok_release)

lemma initPool_ok:
  assumes "initPoolImpl nm maxbuf minbuf alloc StreamBufferPool_new = (OK, p)"
  shows "pool_ok [] p" and "length (mStorage p) = minbuf" and "minbuf \<le> maxbuf"
    and "muToAllocCnt p = of_nat (maxbuf - minbuf)"
proof -
  let ?p0 = "StreamBufferPool_new\<lparr>mName := (case nm of None \<Rightarrow> [] | Some n \<Rightarrow> n)\<rparr>"
  have ok: "pool_ok [] ?p0" by (simp add: pool_ok_def StreamBufferPool_new_def)
  obtain e q where l: "init_loop minbuf alloc ?p0 = (e, q)" by fastforce
  with assms have e: "e = OK" "minbuf \<le> maxbuf" "p = q\<lparr>muToAllocCnt := of_nat (maxbuf - minbuf)\<rparr>"
    by (auto simp: initPoolImpl_def Let_def split: if_splits)
  from pool_ok_init_loop [OF ok l] e show "pool_ok [] p" and "length (mStorage p) = minbuf" and "minbuf \<le> maxbuf"
    and "muToAllocCnt p = of_nat (maxbuf - minbuf)" by (auto simp: pool_ok_def StreamBufferPool_new_def)
qed

lemma pool_reach_ok: "pool_reach racy maxbuf s \<Longrightarrow> sys_ok s"
proof (induction rule: pool_reach.induct)
  case (init nm minbuf alloc p)
  then show ?case using initPool_ok(1) [of "Some nm" maxbuf minbuf alloc p] by (simp add: sys_ok_def)
qed (rule pool_step_ok)

section \<open>The number of buffers\<close>

definition cap_ok :: "nat \<Rightarrow> 'b pool_sys \<Rightarrow> bool" where
  "cap_ok maxbuf s \<longleftrightarrow>
     length (mStorage (sys_pool s)) + unat (muToAllocCnt (sys_pool s)) \<le> maxbuf + (if sys_made s = None then 0 else 1) \<and>
     (sys_running s \<longrightarrow> 0 < muToAllocCnt (sys_pool s)) \<and>
     (sys_holder s \<longrightarrow> \<not> sys_running s \<and> 0 < muToAllocCnt (sys_pool s)) \<and>
     (sys_made s \<noteq> None \<longrightarrow> sys_running s) \<and>
     sys_commits s \<le> 1 \<and> (sys_exits s \<noteq> 0 \<longrightarrow> \<not> sys_running s) \<and>
     (sys_commits s \<noteq> 0 \<longrightarrow> \<not> sys_holder s \<and> \<not> sys_running s \<and> sys_exits s = 0 \<and> 0 < muToAllocCnt (sys_pool s))"

lemma unat_dec: "0 < (w :: MUINT32) \<Longrightarrow> unat (w - 1) = unat w - 1"
  by (simp add: unat_minus_one word_gt_0)

lemma unat_pos: "0 < (w :: MUINT32) \<longleftrightarrow> 0 < unat w"
  by (simp add: word_less_nat_alt)

lemma pool_step_cap: "pool_step racy s s' \<Longrightarrow> \<not> racy \<Longrightarrow> sys_ok s \<Longrightarrow> cap_ok maxbuf s \<Longrightarrow> cap_ok maxbuf s'"
proof (induction rule: pool_step.induct)
  case (acquire s w i p')
  from acquire_enter_cases [OF acquire.prems(2) [unfolded sys_ok_def] acquire.hyps(2)] acquire.prems(3)
  show ?case by (simp add: cap_ok_def)
next
  case (allocate s w p')
  from acquire_enter_cases [OF allocate.prems(2) [unfolded sys_ok_def] allocate.hyps(3)] allocate.prems allocate.hyps(2)
  show ?case by (auto simp: cap_ok_def split: if_splits)
next
  case (wait s w p')
  from acquire_enter_cases [OF wait.prems(2) [unfolded sys_ok_def] wait.hyps(2)] wait.prems(3)
  show ?case by (simp add: cap_ok_def)
next
  case (allocated s alloc e i p')
  from pool_ok_allocate [OF allocated.prems(2) [unfolded sys_ok_def] allocated.hyps(2)]
  consider "p' = sys_pool s"
    | "length (mStorage p') = Suc (length (mStorage (sys_pool s)))" "muToAllocCnt p' = muToAllocCnt (sys_pool s) - 1"
    by blast
  then show ?case
  proof cases
    case 1
    with allocated show ?thesis by (auto simp: cap_ok_def split: if_splits)
  next
    case 2
    have pos: "0 < muToAllocCnt (sys_pool s)" using allocated by (simp add: cap_ok_def)
    with 2 allocated show ?thesis unfolding cap_ok_def
      by (auto simp: unat_dec unat_pos)
  qed
next
  case (leave s w e i p')
  from acquire_leave_ok [OF leave.prems(2) [unfolded sys_ok_def] leave.hyps(3)] leave.prems(3)
  show ?case by (simp add: cap_ok_def)
next
  case (release s i e p')
  from pool_ok_release [OF release.prems(2) [unfolded sys_ok_def] release.hyps(2)] release.prems(3)
  show ?case by (simp add: cap_ok_def)
next
  case (commit_test s)
  then show ?case by (auto simp: cap_ok_def commit_wanted_def)
next
  case (commit_run s n e started)
  then show ?case by (auto simp: cap_ok_def)
next
  case (commit_fails s n e started)
  then show ?case by (auto simp: cap_ok_def)
next
  case (construct s b e i p')
  have "pool_ok [] (sys_pool s)" using construct by (simp add: sys_ok_def)
  from pool_ok_construct [OF this construct.hyps(3)] construct show ?case by (simp add: cap_ok_def)
next
  case (construct_fails s again p')
  then show ?case by (simp add: cap_ok_def threadLoop_def do_construct_def)
next
  case (publish s i again p')
  have "pool_ok [i] (sys_pool s)" using publish by (simp add: sys_ok_def)
  from pool_ok_publish [OF this publish.hyps(4)] publish have
    p: "mStorage p' = mStorage (sys_pool s)" "muToAllocCnt p' = muToAllocCnt (sys_pool s) - 1"
      "again = (0 < muToAllocCnt (sys_pool s) - 1)" "0 < muToAllocCnt (sys_pool s)"
    by (simp_all add: cap_ok_def)
  with publish show ?case unfolding cap_ok_def by (auto simp: unat_dec unat_pos)
next
  case (uninit_wait s)
  then show ?case by (auto simp: cap_ok_def)
next
  case (uninit_clear s n)
  then show ?case by (auto simp: cap_ok_def uninitPoolImpl_def)
qed

lemma pool_reach_cap: "pool_reach racy maxbuf s \<Longrightarrow> \<not> racy \<Longrightarrow> cap_ok maxbuf s"
proof (induction rule: pool_reach.induct)
  case (init nm minbuf alloc p)
  have "unat (of_nat (maxbuf - minbuf) :: MUINT32) = maxbuf - minbuf"
    using init.hyps(2) by (simp add: unat_of_nat take_bit_eq_mod del: of_nat_diff)
  with initPool_ok [OF init.hyps(1)] show ?case by (simp add: cap_ok_def del: of_nat_diff)
next
  case (step s s')
  then show ?case using pool_step_cap pool_reach_ok by blast
qed


section \<open>The contract with the users of a pool\<close>

text \<open>
  What a client relies on: a buffer it acquires is one nobody has, it stays its own until it
  gives it back, and a buffer that was given back can be acquired.
\<close>

fun acquire_n :: "('p \<Rightarrow> (nat \<times> 'p) option) \<Rightarrow> nat \<Rightarrow> 'p \<Rightarrow> (nat list \<times> 'p) option" where
  "acquire_n acq 0 p = Some ([], p)"
| "acquire_n acq (Suc n) p =
     (case acq p of
        None \<Rightarrow> None
      | Some (i, p1) \<Rightarrow> (case acquire_n acq n p1 of None \<Rightarrow> None | Some (is, p2) \<Rightarrow> Some (i # is, p2)))"

fun release_all :: "(nat \<Rightarrow> 'p \<Rightarrow> 'p option) \<Rightarrow> nat list \<Rightarrow> 'p \<Rightarrow> 'p option" where
  "release_all rel [] p = Some p"
| "release_all rel (i # is) p = (case rel i p of None \<Rightarrow> None | Some p1 \<Rightarrow> release_all rel is p1)"

locale buffer_pool =
  fixes acquire :: "'p \<Rightarrow> (nat \<times> 'p) option"
    and release :: "nat \<Rightarrow> 'p \<Rightarrow> 'p option"
    and used :: "'p \<Rightarrow> nat set"
    and inv :: "'p \<Rightarrow> bool"
  assumes acquire_fresh: "inv p \<Longrightarrow> acquire p = Some (i, p') \<Longrightarrow> inv p' \<and> i \<notin> used p \<and> used p' = insert i (used p)"
    and release_used: "inv p \<Longrightarrow> i \<in> used p \<Longrightarrow> \<exists>p'. release i p = Some p' \<and> inv p' \<and> used p' = used p - {i} \<and> acquire p' \<noteq> None"
    and release_unused: "inv p \<Longrightarrow> i \<notin> used p \<Longrightarrow> release i p = None"
begin

lemma acquire_n_distinct:
  "inv p \<Longrightarrow> acquire_n acquire n p = Some (is, p') \<Longrightarrow>
   inv p' \<and> distinct is \<and> length is = n \<and> set is \<inter> used p = {} \<and> used p' = used p \<union> set is"
proof (induction n arbitrary: p "is" p')
  case (Suc n)
  from Suc.prems(2) obtain i p1 is1 where a: "acquire p = Some (i, p1)"
    and r: "acquire_n acquire n p1 = Some (is1, p')" and eq: "is = i # is1"
    by (auto split: option.splits)
  from acquire_fresh [OF Suc.prems(1) a] have f: "inv p1" "i \<notin> used p" "used p1 = insert i (used p)" by auto
  from Suc.IH [OF f(1) r] f eq show ?case by auto
qed simp

lemma release_all_used:
  "inv p \<Longrightarrow> distinct is \<Longrightarrow> set is \<subseteq> used p \<Longrightarrow>
   \<exists>p'. release_all release is p = Some p' \<and> inv p' \<and> used p' = used p - set is"
proof (induction "is" arbitrary: p)
  case (Cons i "is")
  then have "i \<in> used p" by simp
  from release_used [OF Cons.prems(1) this] obtain p1 where
    p1: "release i p = Some p1" "inv p1" "used p1 = used p - {i}" by blast
  have "set is \<subseteq> used p1" using Cons.prems p1(3) by auto
  have "distinct is" using Cons.prems(2) by simp
  from Cons.IH [OF p1(2) this \<open>set is \<subseteq> used p1\<close>] obtain p2 where
    p2: "release_all release is p1 = Some p2" "inv p2" "used p2 = used p1 - set is" by blast
  have "used p2 = used p - set (i # is)" using p2(3) p1(3) by auto
  with p1(1) p2(1,2) show ?case by simp
qed simp

lemma acquire_release_all:
  assumes "inv p" and "acquire_n acquire n p = Some (is, p1)"
  shows "\<exists>p2. release_all release is p1 = Some p2 \<and> inv p2 \<and> used p2 = used p"
proof -
  from acquire_n_distinct [OF assms] have d: "inv p1" "distinct is" "set is \<inter> used p = {}" "used p1 = used p \<union> set is"
    by auto
  from release_all_used [OF d(1,2)] d(3,4) show ?thesis by (auto simp: Un_Diff Diff_triv)
qed

end

text \<open>The pool keeps the contract; the caller does not wait (nothing happens to the pool).\<close>

definition try_acquire :: "(nat \<Rightarrow> 'b option) \<Rightarrow> 'b StreamBufferPool \<Rightarrow> (nat \<times> 'b StreamBufferPool) option" where
  "try_acquire alloc p =
     (case acquireFromPoolImpl False (alloc (length (mStorage p))) 0 id p of
        (e, i, p') \<Rightarrow> if e = OK then Some (i, p') else None)"

definition try_release :: "nat \<Rightarrow> 'b StreamBufferPool \<Rightarrow> 'b StreamBufferPool option" where
  "try_release i p = (case releaseToPoolImpl i p of (e, p') \<Rightarrow> if e = OK then Some p' else None)"

lemma try_acquire_fresh:
  assumes ok: "pool_ok [] p" and a: "try_acquire alloc p = Some (i, p')"
  shows "pool_ok [] p' \<and> i \<notin> set (mlInUseBuf p) \<and> set (mlInUseBuf p') = insert i (set (mlInUseBuf p))"
proof -
  from a have r: "acquireFromPoolImpl False (alloc (length (mStorage p))) 0 id p = (OK, i, p')"
    by (auto simp: try_acquire_def split: prod.splits if_splits)
  obtain q p1 where e: "acquire_enter False 0 p = (q, p1)" by fastforce
  have av: "j \<notin> set (mlInUseBuf p)" if "j \<in> set (mlAvailableBuf p)" for j
    using ok that by (auto simp: pool_ok_def)
  note c = acquire_enter_cases [OF ok e]
  show ?thesis
  proof (cases q)
    case (Acquired j)
    with r e c av show ?thesis by (simp add: acquireFromPoolImpl_def)
  next
    case Allocate
    with e have p1: "p1 = p" by (auto simp: acquire_enter_def Let_def split: if_splits prod.splits)
    have l: "acquire_allocate (alloc (length (mStorage p))) p = (OK, i, p')"
      using r e Allocate p1 by (simp add: acquireFromPoolImpl_def)
    from pool_ok_allocate [OF ok l] have "pool_ok [] p'" "i = length (mStorage p)" "mlInUseBuf p' = mlInUseBuf p @ [i]"
      by auto
    moreover have "length (mStorage p) \<notin> set (mlInUseBuf p)" using ok by (auto simp: pool_ok_def)
    ultimately show ?thesis by auto
  next
    case Waiting
    with e have p1: "mlAvailableBuf p1 = []" by (auto simp: acquire_enter_def Let_def split: if_splits prod.splits)
    with r e Waiting show ?thesis by (simp add: acquireFromPoolImpl_def acquire_leave_def Let_def)
  qed
qed

lemma try_release_used:
  assumes ok: "pool_ok [] p" and i: "i \<in> set (mlInUseBuf p)"
  shows "\<exists>p'. try_release i p = Some p' \<and> pool_ok [] p' \<and> set (mlInUseBuf p') = set (mlInUseBuf p) - {i} \<and>
    try_acquire alloc p' \<noteq> None"
proof -
  let ?p = "p\<lparr>mlAvailableBuf := mlAvailableBuf p @ [i], mlInUseBuf := remove1 i (mlInUseBuf p)\<rparr>"
  have r: "releaseToPoolImpl i p = (OK, ?p)" using i by (simp add: releaseToPoolImpl_def)
  have "distinct (mlInUseBuf p)" using ok by (simp add: pool_ok_def)
  then have u: "set (mlInUseBuf ?p) = set (mlInUseBuf p) - {i}" by simp
  have "try_acquire alloc ?p \<noteq> None"
    by (simp add: try_acquire_def acquireFromPoolImpl_def acquire_enter_def take_available_def Let_def)
  with r u pool_ok_release [OF ok r] show ?thesis by (simp add: try_release_def)
qed

interpretation sbp: buffer_pool "try_acquire alloc" try_release "\<lambda>p. set (mlInUseBuf p)" "pool_ok []" for alloc
proof unfold_locales
  show "try_release i p = None" if "i \<notin> set (mlInUseBuf p)" for i and p :: "'a StreamBufferPool"
    using that by (simp add: try_release_def releaseToPoolImpl_def)
qed (rule try_acquire_fresh try_release_used; assumption)+


section \<open>Properties\<close>

lemma ex_pool_init:
  "initPoolImpl (Some ''p'') 2 1 (\<lambda>i. Some i) StreamBufferPool_new =
     (OK, \<lparr>mName = ''p'', muToAllocCnt = 1, mlAvailableBuf = [0], mlInUseBuf = [], mWaitingList = [], mStorage = [0]\<rparr>)"
  by (simp add: initPoolImpl_def StreamBufferPool_new_def do_construct_def numeral_eq_Suc Let_def)

definition ex_sys :: "nat pool_sys" where
  "ex_sys = \<lparr>sys_pool = \<lparr>mName = ''p'', muToAllocCnt = 1, mlAvailableBuf = [0], mlInUseBuf = [],
      mWaitingList = [], mStorage = [0]\<rparr>, sys_running = False, sys_made = None, sys_holder = False, sys_commits = 0, sys_exits = 0\<rparr>"

lemma ex_sys_reach: "pool_reach racy 2 ex_sys"
  unfolding ex_sys_def by (rule pool_reach.init [OF ex_pool_init]) simp

definition ex_sys_used :: "nat pool_sys" where
  "ex_sys_used = ex_sys\<lparr>sys_pool := (sys_pool ex_sys)\<lparr>mlAvailableBuf := [], mlInUseBuf := [0]\<rparr>\<rparr>"

lemma ex_sys_used_reach: "pool_reach racy 2 ex_sys_used"
proof (rule pool_reach.step [OF ex_sys_reach])
  have "acquire_enter (sys_running ex_sys) 0 (sys_pool ex_sys) = (Acquired 0, sys_pool ex_sys_used)"
    by (simp add: acquire_enter_def take_available_def ex_sys_def ex_sys_used_def Let_def)
  from pool_step.acquire [OF _ this] show "pool_step racy ex_sys ex_sys_used"
    by (simp add: ex_sys_def ex_sys_used_def)
qed

text \<open>C10: in every interleaving of callers, the allocation thread and commits, no index is
  twice in the lists of free and of used buffers, so that no buffer has two owners, and every
  index names an allocated buffer.\<close>

theorem pool_exclusive:
  assumes "pool_reach racy maxbuf s"
  shows "distinct (mlAvailableBuf (sys_pool s) @ mlInUseBuf (sys_pool s)) \<and>
     (\<forall>i \<in> set (mlAvailableBuf (sys_pool s) @ mlInUseBuf (sys_pool s)). get_itemLocation (sys_pool s) i \<noteq> None)"
proof -
  have "sys_ok s" using assms by (rule pool_reach_ok)
  then have "pool_ok (case sys_made s of None \<Rightarrow> [] | Some i \<Rightarrow> [i]) (sys_pool s)" by (simp add: sys_ok_def)
  then show ?thesis by (auto simp: pool_ok_def get_itemLocation_def)
qed

theorem pool_exclusive_witness:
  "list_all (\<lambda>i. get_itemLocation (sys_pool ex_sys_used) i \<noteq> None) (mlInUseBuf (sys_pool ex_sys_used))"
  using pool_exclusive [OF ex_sys_used_reach [of True]] by (simp add: list_all_iff)

text \<open>C22: for a pool that is initialised once, as long as a commit overlaps with no allocation by an acquire, no
  running thread, no other commit and no uninit, the pool never has more buffers than the maximum it was
  initialised with, the counter of buffers to allocate never wraps around, and the thread runs only while there
  are buffers to allocate. The two parts of a commit and of an uninit are separate steps.\<close>

theorem pool_capacity:
  assumes "pool_reach False maxbuf s"
  shows "length (mStorage (sys_pool s)) \<le> maxbuf \<and> unat (muToAllocCnt (sys_pool s)) \<le> maxbuf \<and>
     (sys_running s \<longrightarrow> 0 < muToAllocCnt (sys_pool s))"
proof -
  have c: "cap_ok maxbuf s" using pool_reach_cap [OF assms] by simp
  show ?thesis
  proof (cases "sys_made s")
    case None
    with c show ?thesis by (simp add: cap_ok_def)
  next
    case (Some i)
    with c have r: "0 < unat (muToAllocCnt (sys_pool s))" "sys_running s"
      "length (mStorage (sys_pool s)) + unat (muToAllocCnt (sys_pool s)) \<le> Suc maxbuf"
      by (auto simp: cap_ok_def unat_pos)
    have "0 < length (mStorage (sys_pool s))"
      using pool_reach_ok [OF assms] Some by (auto simp: sys_ok_def pool_ok_def)
    then have "unat (muToAllocCnt (sys_pool s)) \<le> maxbuf" using r(3) by linarith
    moreover have "length (mStorage (sys_pool s)) \<le> maxbuf" using r(1, 3) by linarith
    moreover have "0 < muToAllocCnt (sys_pool s)" using r(1) by (simp add: unat_pos)
    ultimately show ?thesis by simp
  qed
qed

theorem pool_capacity_witness: "length (mStorage (sys_pool ex_sys_used)) \<le> 2"
  using pool_capacity [OF ex_sys_used_reach] by simp

text \<open>\<open>commitPool\<close> reads the counter without the lock and starts the thread while a
  caller of acquire allocates the last buffer: the pool then gets more buffers than its
  maximum, the counter wraps around to the largest number and the thread goes on.\<close>

theorem pool_commit_race:
  "\<exists>s :: nat pool_sys. pool_reach True 1 s \<and> length (mStorage (sys_pool s)) = 2 \<and>
     muToAllocCnt (sys_pool s) = 0xFFFFFFFF \<and> sys_running s"
proof -
  define q :: "MUINT32 \<Rightarrow> nat list \<Rightarrow> nat list \<Rightarrow> nat list \<Rightarrow> nat StreamBufferPool" where
    "q c a u st = \<lparr>mName = ''p'', muToAllocCnt = c, mlAvailableBuf = a, mlInUseBuf = u, mWaitingList = [], mStorage = st\<rparr>" for c a u st
  define sy :: "nat StreamBufferPool \<Rightarrow> bool \<Rightarrow> nat option \<Rightarrow> bool \<Rightarrow> nat \<Rightarrow> nat pool_sys" where
    "sy p r m h c = \<lparr>sys_pool = p, sys_running = r, sys_made = m, sys_holder = h, sys_commits = c, sys_exits = 0\<rparr>" for p r m h c
  have "initPoolImpl (Some ''p'') 1 0 (\<lambda>_. None) StreamBufferPool_new = (OK, q 1 [] [] [])"
    by (simp add: initPoolImpl_def StreamBufferPool_new_def q_def Let_def)
  from pool_reach.init [OF this, of True] have s0: "pool_reach True 1 (sy (q 1 [] [] []) False None False 0)"
    by (simp add: sy_def)
  have "pool_step True (sy (q 1 [] [] []) False None False 0) (sy (q 1 [] [] []) False None True 0)"
    using pool_step.allocate [of "sy (q 1 [] [] []) False None False 0" True 0 "q 1 [] [] []"]
    by (simp add: sy_def q_def acquire_enter_def)
  note s1 = pool_reach.step [OF s0 this]
  have "pool_step True (sy (q 1 [] [] []) False None True 0) (sy (q 1 [] [] []) False None True 1)"
    using pool_step.commit_test [of True "sy (q 1 [] [] []) False None True 0"] by (simp add: sy_def q_def commit_wanted_def)
  note s1' = pool_reach.step [OF s1 this]
  have "pool_step True (sy (q 1 [] [] []) False None True 1) (sy (q 1 [] [] []) True None True 0)"
    using pool_step.commit_run [of "sy (q 1 [] [] []) False None True 1" 0 OK True True] by (simp add: sy_def commit_start_def)
  note s2 = pool_reach.step [OF s1' this]
  have "pool_step True (sy (q 1 [] [] []) True None True 0) (sy (q 0 [] [0] [7]) True None False 0)"
    using pool_step.allocated [of "sy (q 1 [] [] []) True None True 0" "Some 7" OK 0 "q 0 [] [0] [7]" True]
    by (simp add: sy_def q_def acquire_allocate_def do_construct_def)
  note s3 = pool_reach.step [OF s2 this]
  have "pool_step True (sy (q 0 [] [0] [7]) True None False 0) (sy (q 0 [] [0] [7, 8]) True (Some 1) False 0)"
    using pool_step.construct [of "sy (q 0 [] [0] [7]) True None False 0" 8 OK 1 "q 0 [] [0] [7, 8]" True]
    by (simp add: sy_def q_def do_construct_def)
  note s4 = pool_reach.step [OF s3 this]
  have "thread_publish 1 (q 0 [] [0] [7, 8]) = (True, q (- 1) [1] [0] [7, 8])"
    by (simp add: thread_publish_def q_def Let_def word_gt_0)
  then have "pool_step True (sy (q 0 [] [0] [7, 8]) True (Some 1) False 0) (sy (q (- 1) [1] [0] [7, 8]) True None False 0)"
    using pool_step.publish [of "sy (q 0 [] [0] [7, 8]) True (Some 1) False 0" 1 True "q (- 1) [1] [0] [7, 8]" True]
    by (simp add: sy_def)
  note s5 = pool_reach.step [OF s4 this]
  then show ?thesis by (intro exI [of _ "sy (q (- 1) [1] [0] [7, 8]) True None False 0"]) (simp add: sy_def q_def)
qed

text \<open>C23: the buffers a client acquires one after the other are all different and none of
  them is in use before; when it releases them all, every release succeeds and the same
  buffers are in use as before.\<close>

theorem acquire_release_roundtrip:
  assumes "pool_ok [] p" and "acquire_n (try_acquire alloc) n p = Some (is, p1)"
  shows "distinct is \<and> length is = n \<and> set is \<inter> set (mlInUseBuf p) = {} \<and>
     (\<exists>p2. release_all try_release is p1 = Some p2 \<and> set (mlInUseBuf p2) = set (mlInUseBuf p))"
  using sbp.acquire_n_distinct [OF assms] sbp.acquire_release_all [OF assms] by blast

theorem acquire_release_roundtrip_witness:
  "\<exists>is p1. acquire_n (try_acquire Some) 2 (sys_pool ex_sys) = Some (is, p1) \<and> distinct is"
proof -
  have ok: "pool_ok [] (sys_pool ex_sys)" by (simp add: ex_sys_def pool_ok_def)
  have "\<exists>is p1. acquire_n (try_acquire Some) 2 (sys_pool ex_sys) = Some (is, p1)"
    by (simp add: ex_sys_def numeral_eq_Suc try_acquire_def acquireFromPoolImpl_def acquire_enter_def
        take_available_def acquire_allocate_def do_construct_def Let_def)
  then obtain "is" p1 where "acquire_n (try_acquire Some) 2 (sys_pool ex_sys) = Some (is, p1)" by blast
  from acquire_release_roundtrip [OF ok this] this show ?thesis by blast
qed

text \<open>The call of the class template gives success with a buffer that is then in use, or
  the code for no memory without one, whatever the cause: a time-out and a failed
  allocation cannot be told apart.\<close>

theorem acquireFromPool_result:
  assumes "pool_ok [] p" and "\<And>q. pool_ok [] q \<Longrightarrow> pool_ok [] (others q)"
  shows "case acquireFromPool running alloc cond others p of (e, b, p') \<Rightarrow>
     pool_ok [] p' \<and>
     (if fst (acquireFromPoolImpl running alloc cond others p) = OK
      then e = OK \<and> (\<exists>i \<in> set (mlInUseBuf p'). get_itemLocation p' i = b \<and> b \<noteq> None)
      else e = NO_MEMORY \<and> b = None \<and> fst (acquireFromPoolImpl running alloc cond others p) \<in> {NO_MEMORY, TIMED_OUT})"
proof -
  obtain e i p' where r: "acquireFromPoolImpl running alloc cond others p = (e, i, p')" by (metis prod_cases3)
  obtain q p1 where en: "acquire_enter running cond p = (q, p1)" by fastforce
  have c: "pool_ok [] p1" using acquire_enter_cases [OF assms(1) en] by simp
  have "pool_ok [] p' \<and> (e = OK \<longrightarrow> i \<in> set (mlInUseBuf p')) \<and> e \<in> {OK, NO_MEMORY, TIMED_OUT}"
  proof (cases q)
    case (Acquired j)
    with r en acquire_enter_cases [OF assms(1) en] show ?thesis by (auto simp: acquireFromPoolImpl_def)
  next
    case Allocate
    with r en have "acquire_allocate alloc p1 = (e, i, p')" by (simp add: acquireFromPoolImpl_def)
    from pool_ok_allocate [OF c this] show ?thesis by auto
  next
    case Waiting
    with r en have l: "acquire_leave cond (others p1) = (e, i, p')" by (simp add: acquireFromPoolImpl_def)
    have "e \<in> {OK, TIMED_OUT}"
      using l by (auto simp: acquire_leave_def Let_def take_available_def split: if_splits)
    with acquire_leave_ok [OF assms(2) [OF c] l] show ?thesis by auto
  qed
  then show ?thesis
    by (auto simp: acquireFromPool_def r Let_def get_itemLocation_def pool_ok_def)
qed

theorem acquireFromPool_result_witness:
  "case acquireFromPool True (Some 1) 3 id (sys_pool ex_sys_used) of (e, b, p') \<Rightarrow> e = NO_MEMORY \<and> b = None"
proof -
  have ok: "pool_ok [] (sys_pool ex_sys_used)" by (simp add: ex_sys_def ex_sys_used_def pool_ok_def)
  have "fst (acquireFromPoolImpl True (Some 1) 3 id (sys_pool ex_sys_used)) = TIMED_OUT"
    by (simp add: acquireFromPoolImpl_def acquire_enter_def acquire_leave_def ex_sys_def ex_sys_used_def Let_def)
  with acquireFromPool_result [OF ok, of id True "Some 1" 3] show ?thesis by (simp split: prod.splits)
qed

end
