(* ===== verification/StreamBuffers.thy ===== *)
theory StreamBuffers
  imports UsersProps StreamBufferPool "HOL-Library.Multiset"
begin

text \<open>
  Stream buffers (\<open>mtkcam/pipeline/utils/streambuf/StreamBuffers.cpp\<close>, its header, and
  \<open>StreamBufferProvider.cpp\<close>): the class \<open>StreamBufferImp\<close> with its reader/writer lock, its
  status word and its users manager, and the classes over it that know a pool or a provider.
  A derived class is a record extension of its base class. \<open>mpBuffer\<close> is an address; what
  the code returns as a null pointer is \<open>None\<close>. Every member function runs under the
  buffer's mutex, so that a call is one step.
\<close>

section \<open>StreamBufferImp\<close>

abbreviation (input) STATUS_ERROR :: MUINT32 where "STATUS_ERROR \<equiv> 1"
abbreviation (input) STATUS_WRITE :: MUINT32 where "STATUS_WRITE \<equiv> 2"

record IStreamInfo =
  si_streamId :: StreamId_T
  si_streamName :: string

record StreamBufferImp =
  mStreamInfo :: IStreamInfo
  mBufStatus :: MUINT32
  mUsersManager :: UsersManager
  mWriters :: "string list"
  mReaders :: "string list"
  mpBuffer :: nat

definition StreamBufferImp_new :: "IStreamInfo \<Rightarrow> nat \<Rightarrow> UsersManager option \<Rightarrow> StreamBufferImp" where
  "StreamBufferImp_new info pBuffer pUsersManager =
     \<lparr>mStreamInfo = info, mBufStatus = 0,
      mUsersManager = (case pUsersManager of
          Some m \<Rightarrow> m
        | None \<Rightarrow> UsersManager_new (si_streamId info) (si_streamName info)),
      mWriters = [], mReaders = [], mpBuffer = pBuffer\<rparr>"

definition setUsersManager :: "UsersManager \<Rightarrow> 'a StreamBufferImp_scheme \<Rightarrow> 'a StreamBufferImp_scheme" where
  "setUsersManager value b = b\<lparr>mUsersManager := value\<rparr>"

definition onUnlock :: "string \<Rightarrow> nat option \<Rightarrow> 'a StreamBufferImp_scheme \<Rightarrow> 'a StreamBufferImp_scheme" where
  "onUnlock szCallName pBuffer b =
     (if Some (mpBuffer b) \<noteq> pBuffer then b
      else if szCallName \<in> set (mWriters b) then b\<lparr>mWriters := remove1 szCallName (mWriters b)\<rparr>
      else if szCallName \<in> set (mReaders b) then b\<lparr>mReaders := remove1 szCallName (mReaders b)\<rparr>
      else b)"

definition onTryReadLock :: "string \<Rightarrow> 'a StreamBufferImp_scheme \<Rightarrow> nat option \<times> 'a StreamBufferImp_scheme" where
  "onTryReadLock szCallName b =
     (if mWriters b \<noteq> [] then (None, b)
      else (Some (mpBuffer b), b\<lparr>mReaders := mReaders b @ [szCallName]\<rparr>))"

definition onTryWriteLock :: "string \<Rightarrow> 'a StreamBufferImp_scheme \<Rightarrow> nat option \<times> 'a StreamBufferImp_scheme" where
  "onTryWriteLock szCallName b =
     (if mWriters b \<noteq> [] then (None, b)
      else if mReaders b \<noteq> [] then (None, b)
      else (Some (mpBuffer b), b\<lparr>mWriters := mWriters b @ [szCallName]\<rparr>))"

subsection \<open>The status word\<close>

definition getStatus :: "'a StreamBufferImp_scheme \<Rightarrow> MUINT32" where
  "getStatus b = mBufStatus b"

definition hasStatus :: "MUINT32 \<Rightarrow> 'a StreamBufferImp_scheme \<Rightarrow> bool" where
  "hasStatus msk b \<longleftrightarrow> 0 \<noteq> mBufStatus b AND msk"

definition markStatus :: "MUINT32 \<Rightarrow> 'a StreamBufferImp_scheme \<Rightarrow> 'a StreamBufferImp_scheme" where
  "markStatus msk b = b\<lparr>mBufStatus := mBufStatus b OR msk\<rparr>"

definition clearStatus :: "'a StreamBufferImp_scheme \<Rightarrow> 'a StreamBufferImp_scheme" where
  "clearStatus b = b\<lparr>mBufStatus := 0\<rparr>"

subsection \<open>The users manager of a buffer\<close>

text \<open>The buffer is itself an \<open>IUsersManager\<close>: every operation but one only delegates.\<close>

definition sb_getSubject :: "'a StreamBufferImp_scheme \<Rightarrow> int" where
  "sb_getSubject b = getSubject (mUsersManager b)"

definition sb_getSubjectName :: "'a StreamBufferImp_scheme \<Rightarrow> string" where
  "sb_getSubjectName b = getSubjectName (mUsersManager b)"

definition sb_createGraph :: "'a StreamBufferImp_scheme \<Rightarrow> nat option \<times> 'a StreamBufferImp_scheme" where
  "sb_createGraph b = (let (g, um) = createGraph (mUsersManager b) in (g, b\<lparr>mUsersManager := um\<rparr>))"

definition sb_enqueUserGraph ::
    "nat \<Rightarrow> 'a StreamBufferImp_scheme \<Rightarrow> (int \<times> 'a StreamBufferImp_scheme) option" where
  "sb_enqueUserGraph g b =
     do { (r, um) \<leftarrow> enqueUserGraph g (mUsersManager b); Some (r, b\<lparr>mUsersManager := um\<rparr>) }"

definition sb_finishUserSetup :: "'a StreamBufferImp_scheme \<Rightarrow> MERROR \<times> 'a StreamBufferImp_scheme" where
  "sb_finishUserSetup b = (let (r, um) = finishUserSetup (mUsersManager b) in (r, b\<lparr>mUsersManager := um\<rparr>))"

definition sb_reset :: "'a StreamBufferImp_scheme \<Rightarrow> 'a StreamBufferImp_scheme" where
  "sb_reset b = b\<lparr>mUsersManager := um_reset (mUsersManager b)\<rparr>"

definition sb_markUserStatus ::
    "UserId_T \<Rightarrow> MUINT32 \<Rightarrow> 'a StreamBufferImp_scheme \<Rightarrow> (MUINT32 \<times> 'a StreamBufferImp_scheme) option" where
  "sb_markUserStatus userId statusMask b =
     do {
       (result, um) \<leftarrow> markUserStatus userId statusMask (mUsersManager b);
       let b1 = b\<lparr>mUsersManager := um\<rparr>;
       let isReleased = (result AND RELEASE \<noteq> 0);
       let isUsed = (result AND USED \<noteq> 0);
       Some (result,
             if \<not> isUsed \<and> isReleased \<and> PRODUCER = getUserCategory um userId
             then b1\<lparr>mBufStatus := mBufStatus b1 OR STATUS_ERROR\<rparr> else b1)
     }"

definition sb_getUserStatus :: "UserId_T \<Rightarrow> 'a StreamBufferImp_scheme \<Rightarrow> MUINT32" where
  "sb_getUserStatus userId b = getUserStatus (mUsersManager b) userId"

definition sb_getUserCategory :: "UserId_T \<Rightarrow> 'a StreamBufferImp_scheme \<Rightarrow> MUINT32" where
  "sb_getUserCategory userId b = getUserCategory (mUsersManager b) userId"

definition sb_setUserReleaseFence ::
    "UserId_T \<Rightarrow> int \<Rightarrow> 'a StreamBufferImp_scheme \<Rightarrow> MERROR \<times> 'a StreamBufferImp_scheme" where
  "sb_setUserReleaseFence userId releaseFence b =
     (let (r, um) = setUserReleaseFence userId releaseFence (mUsersManager b) in (r, b\<lparr>mUsersManager := um\<rparr>))"

definition sb_queryGroupUsage :: "UserId_T \<Rightarrow> 'a StreamBufferImp_scheme \<Rightarrow> MUINT32" where
  "sb_queryGroupUsage userId b = queryGroupUsage (mUsersManager b) userId"

definition sb_getNumberOfProducers :: "'a StreamBufferImp_scheme \<Rightarrow> nat" where
  "sb_getNumberOfProducers b = getNumberOfProducers (mUsersManager b)"

definition sb_getNumberOfConsumers :: "'a StreamBufferImp_scheme \<Rightarrow> nat" where
  "sb_getNumberOfConsumers b = getNumberOfConsumers (mUsersManager b)"

definition sb_createAcquireFence ::
    "'k sync_kernel \<Rightarrow> UserId_T \<Rightarrow> 'a StreamBufferImp_scheme \<Rightarrow> 'k \<Rightarrow> (int \<times> 'k) option" where
  "sb_createAcquireFence K userId b k = createAcquireFence K (mUsersManager b) userId k"

definition sb_createReleaseFence ::
    "'k sync_kernel \<Rightarrow> UserId_T \<Rightarrow> 'a StreamBufferImp_scheme \<Rightarrow> 'k \<Rightarrow> int \<times> 'k" where
  "sb_createReleaseFence K userId b k = createReleaseFence K (mUsersManager b) userId k"

definition sb_createAcquireFence_all :: "'k sync_kernel \<Rightarrow> 'a StreamBufferImp_scheme \<Rightarrow> 'k \<Rightarrow> int \<times> 'k" where
  "sb_createAcquireFence_all K b k = createAcquireFence_all K (mUsersManager b) k"

definition sb_createReleaseFence_all :: "'k sync_kernel \<Rightarrow> 'a StreamBufferImp_scheme \<Rightarrow> 'k \<Rightarrow> int \<times> 'k" where
  "sb_createReleaseFence_all K b k = createReleaseFence_all K (mUsersManager b) k"

definition sb_haveAllUsersReleasedOrPreReleased :: "UserId_T \<Rightarrow> 'a StreamBufferImp_scheme \<Rightarrow> MERROR option" where
  "sb_haveAllUsersReleasedOrPreReleased userId b = haveAllUsersReleasedOrPreReleased (mUsersManager b) userId"

definition sb_haveAllUsersReleased :: "'a StreamBufferImp_scheme \<Rightarrow> MERROR" where
  "sb_haveAllUsersReleased b = haveAllUsersReleased (mUsersManager b)"

definition sb_getAllUsersStatus :: "'a StreamBufferImp_scheme \<Rightarrow> MUINT32" where
  "sb_getAllUsersStatus b = getAllUsersStatus (mUsersManager b)"

definition sb_haveAllProducerUsersReleased :: "'a StreamBufferImp_scheme \<Rightarrow> MERROR" where
  "sb_haveAllProducerUsersReleased b = haveAllProducerUsersReleased (mUsersManager b)"

definition sb_haveAllProducerUsersUsed :: "'a StreamBufferImp_scheme \<Rightarrow> MERROR" where
  "sb_haveAllProducerUsersUsed b = haveAllProducerUsersUsed (mUsersManager b)"

section \<open>Buffers of a pool\<close>

text \<open>
  \<open>mBufPool\<close> is a weak pointer: the address of a pool, or \<open>None\<close>. A promotion succeeds when
  the pool still exists: \<open>pools\<close> maps the addresses of the live pools to their states. A pool
  stores the addresses of its buffers.
\<close>

type_synonym pools = "nat \<Rightarrow> nat StreamBufferPool option"

record TStreamBufferWithPool = StreamBufferImp +
  mBufPool :: "nat option"

definition tryGetBufferPool :: "pools \<Rightarrow> 'a TStreamBufferWithPool_scheme \<Rightarrow> nat option" where
  "tryGetBufferPool pools b =
     (case mBufPool b of
        None \<Rightarrow> None
      | Some p \<Rightarrow> if pools p \<noteq> None then Some p else None)"

definition releaseBuffer ::
    "('a TStreamBufferWithPool_scheme \<Rightarrow> 'a TStreamBufferWithPool_scheme) \<Rightarrow> nat \<Rightarrow>
     'a TStreamBufferWithPool_scheme \<times> pools \<Rightarrow> 'a TStreamBufferWithPool_scheme \<times> pools" where
  "releaseBuffer resetBuffer this = (\<lambda>(b, pools).
     case tryGetBufferPool pools b of
       None \<Rightarrow> (b, pools)
     | Some p \<Rightarrow>
         let b1 = resetBuffer b;
             (err, pool) = releaseToPool this (the (pools p))
         in (b1, pools(p \<mapsto> pool)))"

record HalImageStreamBuffer = TStreamBufferWithPool +
  mImageBufferHeap :: nat

text \<open>The address of the heap object is also the address of the buffer in it.\<close>

definition HalImageStreamBuffer_new :: "IStreamInfo \<Rightarrow> nat option \<Rightarrow> nat \<Rightarrow> HalImageStreamBuffer" where
  "HalImageStreamBuffer_new info pool heap =
     StreamBufferImp.extend (StreamBufferImp_new info heap None)
       \<lparr>mBufPool = pool, mImageBufferHeap = heap\<rparr>"

text \<open>\<open>heap\<close> is the result of \<open>IIonImageBufferHeap::create\<close>.\<close>

definition HalImage_Allocator :: "IStreamInfo \<Rightarrow> nat option \<Rightarrow> nat option \<Rightarrow> HalImageStreamBuffer option" where
  "HalImage_Allocator info pool heap =
     (case heap of None \<Rightarrow> None | Some h \<Rightarrow> Some (HalImageStreamBuffer_new info pool h))"

definition image_resetBuffer :: "'a HalImageStreamBuffer_scheme \<Rightarrow> 'a HalImageStreamBuffer_scheme" where
  "image_resetBuffer b = (sb_reset b)\<lparr>mBufStatus := 0, mWriters := [], mReaders := []\<rparr>"

definition image_releaseBuffer ::
    "nat \<Rightarrow> HalImageStreamBuffer \<times> pools \<Rightarrow> HalImageStreamBuffer \<times> pools" where
  "image_releaseBuffer this = releaseBuffer image_resetBuffer this"

text \<open>Metadata: the entries by tag. \<open>mpBuffer\<close> of a metadata buffer is its own member.\<close>

record 'e HalMetaStreamBuffer = TStreamBufferWithPool +
  mMetadata :: "(int, 'e) kvec"
  mRepeating :: bool

definition HalMetaStreamBuffer_new ::
    "(int, 'e) kvec \<Rightarrow> IStreamInfo \<Rightarrow> nat option \<Rightarrow> nat \<Rightarrow> 'e HalMetaStreamBuffer" where
  "HalMetaStreamBuffer_new metadata info pool self =
     StreamBufferImp.extend (StreamBufferImp_new info self None)
       \<lparr>mBufPool = pool, mMetadata = metadata, mRepeating = False\<rparr>"

definition HalMeta_Allocator ::
    "IStreamInfo \<Rightarrow> (int, 'e) kvec option \<Rightarrow> nat option \<Rightarrow> nat \<Rightarrow> 'e HalMetaStreamBuffer" where
  "HalMeta_Allocator info metadata pool self =
     HalMetaStreamBuffer_new (case metadata of None \<Rightarrow> [] | Some m \<Rightarrow> m) info pool self"

definition meta_resetBuffer :: "'e HalMetaStreamBuffer \<Rightarrow> 'e HalMetaStreamBuffer" where
  "meta_resetBuffer b = (sb_reset b)\<lparr>mBufStatus := 0, mWriters := [], mReaders := [], mMetadata := []\<rparr>"

definition meta_releaseBuffer ::
    "nat \<Rightarrow> 'e HalMetaStreamBuffer \<times> pools \<Rightarrow> 'e HalMetaStreamBuffer \<times> pools" where
  "meta_releaseBuffer this = releaseBuffer meta_resetBuffer this"

definition setRepeating :: "bool \<Rightarrow> 'e HalMetaStreamBuffer \<Rightarrow> 'e HalMetaStreamBuffer" where
  "setRepeating repeating b = b\<lparr>mRepeating := repeating\<rparr>"

definition isRepeating :: "'e HalMetaStreamBuffer \<Rightarrow> bool" where
  "isRepeating b = mRepeating b"

section \<open>Buffers of a provider\<close>




section \<open>The reader/writer lock\<close>

text \<open>Calls of clients, each with the name (and the pointer) it passes.\<close>

datatype ('n, 'p) lock_call = TryReadLock 'n | TryWriteLock 'n | UnlockCall 'n 'p

fun lock_call_step ::
    "('n \<Rightarrow> 's \<Rightarrow> 'r option \<times> 's) \<Rightarrow> ('n \<Rightarrow> 's \<Rightarrow> 'r option \<times> 's) \<Rightarrow> ('n \<Rightarrow> 'p \<Rightarrow> 's \<Rightarrow> 's) \<Rightarrow>
     ('n, 'p) lock_call \<Rightarrow> 's \<Rightarrow> 'r option \<times> 's" where
  "lock_call_step tryR tryW unlock (TryReadLock n) s = tryR n s"
| "lock_call_step tryR tryW unlock (TryWriteLock n) s = tryW n s"
| "lock_call_step tryR tryW unlock (UnlockCall n p) s = (None, unlock n p s)"

fun lock_calls ::
    "('n \<Rightarrow> 's \<Rightarrow> 'r option \<times> 's) \<Rightarrow> ('n \<Rightarrow> 's \<Rightarrow> 'r option \<times> 's) \<Rightarrow> ('n \<Rightarrow> 'p \<Rightarrow> 's \<Rightarrow> 's) \<Rightarrow>
     ('n, 'p) lock_call list \<Rightarrow> 's \<Rightarrow> 'r option list \<times> 's" where
  "lock_calls tryR tryW unlock [] s = ([], s)"
| "lock_calls tryR tryW unlock (c # cs) s =
     (let (r, s1) = lock_call_step tryR tryW unlock c s;
          (rs, s2) = lock_calls tryR tryW unlock cs s1
      in (r # rs, s2))"

fun unlocked_by :: "'n \<Rightarrow> ('n, 'p) lock_call \<Rightarrow> bool" where
  "unlocked_by n (UnlockCall m p) = (m = n)"
| "unlocked_by n c = False"

text \<open>The granted write locks of a sequence of calls.\<close>

fun write_granted :: "('n, 'p) lock_call list \<Rightarrow> 'r option list \<Rightarrow> bool" where
  "write_granted (TryWriteLock n # cs) (Some b # rs) = True"
| "write_granted (c # cs) (r # rs) = write_granted cs rs"
| "write_granted cs rs = False"

text \<open>
  What the lock promises: \<open>rdrs\<close> and \<open>wrs\<close> are the names that hold it, \<open>owns s p\<close> says that
  \<open>p\<close> is the buffer of \<open>s\<close>, and an unlock takes one hold of its name away.
\<close>

locale rw_lock =
  fixes tryR :: "'n \<Rightarrow> 's \<Rightarrow> 'r option \<times> 's"
    and tryW :: "'n \<Rightarrow> 's \<Rightarrow> 'r option \<times> 's"
    and unlock :: "'n \<Rightarrow> 'p \<Rightarrow> 's \<Rightarrow> 's"
    and rdrs :: "'s \<Rightarrow> 'n multiset"
    and wrs :: "'s \<Rightarrow> 'n multiset"
    and owns :: "'s \<Rightarrow> 'p \<Rightarrow> bool"
  assumes read_denied: "wrs s \<noteq> {#} \<Longrightarrow> tryR n s = (None, s)"
    and read_granted: "wrs s = {#} \<Longrightarrow> \<exists>r s'. tryR n s = (Some r, s') \<and> wrs s' = {#} \<and> rdrs s' = add_mset n (rdrs s)"
    and write_denied: "wrs s \<noteq> {#} \<or> rdrs s \<noteq> {#} \<Longrightarrow> tryW n s = (None, s)"
    and write_grants: "wrs s = {#} \<Longrightarrow> rdrs s = {#} \<Longrightarrow>
      \<exists>r s'. tryW n s = (Some r, s') \<and> wrs s' = {#n#} \<and> rdrs s' = {#}"
    and unlock_foreign: "\<not> owns s p \<Longrightarrow> unlock n p s = s"
    and unlock_writer: "owns s p \<Longrightarrow> n \<in># wrs s \<Longrightarrow>
      wrs (unlock n p s) = wrs s - {#n#} \<and> rdrs (unlock n p s) = rdrs s"
    and unlock_reader: "owns s p \<Longrightarrow> n \<notin># wrs s \<Longrightarrow>
      wrs (unlock n p s) = wrs s \<and> rdrs (unlock n p s) = rdrs s - {#n#}"
begin

text \<open>At most one writer, and never a writer and a reader.\<close>

definition excl :: "'s \<Rightarrow> bool" where
  "excl s \<longleftrightarrow> size (wrs s) \<le> 1 \<and> (wrs s = {#} \<or> rdrs s = {#})"

lemma excl_step: "excl s \<Longrightarrow> excl (snd (lock_call_step tryR tryW unlock c s))"
proof (cases c)
  case (TryReadLock n)
  moreover assume "excl s"
  ultimately show ?thesis using read_denied [of s n] read_granted [of s n]
    by (cases "wrs s = {#}") (auto simp: excl_def)
next
  case (TryWriteLock n)
  moreover assume "excl s"
  ultimately show ?thesis using write_denied [of s n] write_grants [of s n]
    by (cases "wrs s = {#} \<and> rdrs s = {#}") (auto simp: excl_def)
next
  case (UnlockCall n p)
  moreover assume "excl s"
  ultimately show ?thesis using unlock_foreign [of s p n] unlock_writer [of s p n] unlock_reader [of s p n]
    by (cases "owns s p"; cases "n \<in># wrs s") (auto simp: excl_def size_Diff_singleton)
qed

lemma excl_calls: "excl s \<Longrightarrow> excl (snd (lock_calls tryR tryW unlock cs s))"
proof (induction cs arbitrary: s)
  case (Cons c cs)
  from Cons.IH [OF excl_step [OF Cons.prems, of c]] show ?case by (simp add: Let_def case_prod_beta)
qed simp

lemma held_write_step:
  assumes "wrs s = {#n#}" and "rdrs s = {#}" and "\<not> unlocked_by n c"
  shows "\<exists>s'. lock_call_step tryR tryW unlock c s = (None, s') \<and> wrs s' = {#n#} \<and> rdrs s' = {#}"
proof (cases c)
  case (TryReadLock m)
  with assms read_denied [of s m] show ?thesis by auto
next
  case (TryWriteLock m)
  with assms write_denied [of s m] show ?thesis by auto
next
  case (UnlockCall m p)
  with assms show ?thesis using unlock_foreign [of s p m] unlock_reader [of s p m]
    by (cases "owns s p") auto
qed

lemma held_write:
  assumes "wrs s = {#n#}" and "rdrs s = {#}" and "list_all (\<lambda>c. \<not> unlocked_by n c) cs"
  shows "\<exists>s'. lock_calls tryR tryW unlock cs s = (replicate (length cs) None, s') \<and> wrs s' = {#n#} \<and> rdrs s' = {#}"
  using assms
proof (induction cs arbitrary: s)
  case (Cons c cs)
  from held_write_step [of s n c] Cons.prems obtain s' where
    "lock_call_step tryR tryW unlock c s = (None, s')" "wrs s' = {#n#}" "rdrs s' = {#}" by auto
  with Cons.IH [of s'] Cons.prems(3) show ?case by auto
qed simp

lemma held_read_step:
  assumes "wrs s = {#}" and "n \<in># rdrs s" and "\<not> unlocked_by n c"
  shows "\<exists>r s'. lock_call_step tryR tryW unlock c s = (r, s') \<and> wrs s' = {#} \<and> n \<in># rdrs s' \<and>
    (r \<noteq> None \<longrightarrow> (\<exists>m. c = TryReadLock m))"
proof (cases c)
  case (TryReadLock m)
  with assms read_granted [of s m] show ?thesis by auto
next
  case (TryWriteLock m)
  have "rdrs s \<noteq> {#}" using assms(2) by auto
  with write_denied [of s m] TryWriteLock assms show ?thesis by simp
next
  case (UnlockCall m p)
  with assms show ?thesis using unlock_foreign [of s p m] unlock_reader [of s p m]
    by (cases "owns s p") (auto simp: in_diff_count)
qed

lemma held_read:
  assumes "wrs s = {#}" and "n \<in># rdrs s" and "list_all (\<lambda>c. \<not> unlocked_by n c) cs"
  shows "\<exists>rs s'. lock_calls tryR tryW unlock cs s = (rs, s') \<and> \<not> write_granted cs rs \<and> wrs s' = {#} \<and> n \<in># rdrs s'"
  using assms
proof (induction cs arbitrary: s)
  case (Cons c cs)
  from held_read_step [of s n c] Cons.prems obtain r s' where
    1: "lock_call_step tryR tryW unlock c s = (r, s')" "wrs s' = {#}" "n \<in># rdrs s'"
    and r: "r \<noteq> None \<longrightarrow> (\<exists>m. c = TryReadLock m)" by auto
  from Cons.IH [of s'] 1 Cons.prems(3) obtain rs s2 where
    2: "lock_calls tryR tryW unlock cs s' = (rs, s2)" "\<not> write_granted cs rs" "wrs s2 = {#}" "n \<in># rdrs s2" by auto
  have "write_granted (c # cs) (r # rs) \<longleftrightarrow> write_granted cs rs"
    using r by (cases c; cases r) auto
  with 1 2 show ?case by auto
qed simp

end

lemma mset_nonempty_list: "(mset xs \<noteq> {#}) = (xs \<noteq> [])" by simp

interpretation sbl: rw_lock onTryReadLock onTryWriteLock onUnlock
    "\<lambda>b. mset (mReaders b)" "\<lambda>b. mset (mWriters b)" "\<lambda>b p. p = Some (mpBuffer b)"
proof
  fix b :: "'a StreamBufferImp_scheme" and n :: string and p :: "nat option"
  assume "p = Some (mpBuffer b)" and "n \<notin># mset (mWriters b)"
  then show "mset (mWriters (onUnlock n p b)) = mset (mWriters b) \<and> mset (mReaders (onUnlock n p b)) = mset (mReaders b) - {#n#}"
    by (simp add: onUnlock_def)
qed (auto simp: onTryReadLock_def onTryWriteLock_def onUnlock_def)


section \<open>Properties of the lock\<close>

abbreviation sb_calls :: "(string, nat option) lock_call list \<Rightarrow> 'a StreamBufferImp_scheme \<Rightarrow> nat option list \<times> 'a StreamBufferImp_scheme" where
  "sb_calls \<equiv> lock_calls onTryReadLock onTryWriteLock onUnlock"

text \<open>Whatever clients call in whatever order, a buffer has at most one writer, and never
  a writer and a reader at once.\<close>

theorem lock_exclusion:
  "case sb_calls cs (StreamBufferImp_new info p um) of (rs, b) \<Rightarrow>
     length (mWriters b) \<le> 1 \<and> (mWriters b = [] \<or> mReaders b = [])"
proof -
  have "sbl.excl (StreamBufferImp_new info p um)" by (simp add: sbl.excl_def StreamBufferImp_new_def)
  from sbl.excl_calls [OF this, of cs] show ?thesis by (simp add: sbl.excl_def case_prod_beta)
qed

text \<open>C19: once a write lock is granted to a name, every further attempt to lock is denied and
  the holder stays, whatever the other clients call, until an unlock with that name; this
  unlock leaves the buffer free.\<close>

theorem write_lock_held:
  assumes "onTryWriteLock n b = (Some p, b1)" and "list_all (\<lambda>c. \<not> unlocked_by n c) cs"
  shows "case sb_calls cs b1 of (rs, b2) \<Rightarrow>
     rs = replicate (length cs) None \<and> mWriters b2 = [n] \<and> mReaders b2 = [] \<and>
     mWriters (onUnlock n (Some (mpBuffer b2)) b2) = [] \<and> mReaders (onUnlock n (Some (mpBuffer b2)) b2) = []"
proof -
  have w: "mset (mWriters b1) = {#n#}" "mset (mReaders b1) = {#}"
    using assms(1) by (auto simp: onTryWriteLock_def split: if_splits)
  from sbl.held_write [OF w assms(2)] obtain b2 where
    "sb_calls cs b1 = (replicate (length cs) None, b2)" "mWriters b2 = [n]" "mReaders b2 = []"
    by (auto simp: mset_single_iff)
  then show ?thesis by (simp add: onUnlock_def)
qed

definition ex_sb :: StreamBufferImp where
  "ex_sb = StreamBufferImp_new \<lparr>si_streamId = 7, si_streamName = ''buf''\<rparr> 100 None"

theorem write_lock_held_witness:
  "fst (sb_calls [TryReadLock ''r'', UnlockCall ''r'' (Some 100), UnlockCall ''w'' (Some 100), TryWriteLock ''w'']
      (snd (onTryWriteLock ''n'' ex_sb))) = [None, None, None, None]"
proof -
  let ?cs = "[TryReadLock ''r'', UnlockCall ''r'' (Some 100), UnlockCall ''w'' (Some 100), TryWriteLock ''w'']
    :: (string, nat option) lock_call list"
  have 1: "onTryWriteLock ''n'' ex_sb = (Some 100, snd (onTryWriteLock ''n'' ex_sb))" by code_simp
  have 2: "list_all (\<lambda>c. \<not> unlocked_by ''n'' c) ?cs" by code_simp
  from write_lock_held [OF 1 2] show ?thesis by (simp add: numeral_eq_Suc split: prod.splits)
qed

text \<open>While a name has a granted read lock and does not unlock, it stays among the readers
  and no client gets a write lock.\<close>

theorem read_lock_held:
  assumes "onTryReadLock n b = (Some p, b1)" and "list_all (\<lambda>c. \<not> unlocked_by n c) cs"
  shows "case sb_calls cs b1 of (rs, b2) \<Rightarrow> \<not> write_granted cs rs \<and> n \<in> set (mReaders b2) \<and> mWriters b2 = []"
proof -
  have w: "mset (mWriters b1) = {#}" "n \<in># mset (mReaders b1)"
    using assms(1) by (auto simp: onTryReadLock_def split: if_splits)
  from sbl.held_read [OF w assms(2)] show ?thesis by auto
qed

definition ex_lock_calls :: "(string, nat option) lock_call list" where
  "ex_lock_calls = [TryReadLock ''r'', TryWriteLock ''w'', UnlockCall ''r'' (Some 100), TryWriteLock ''w'']"

theorem read_lock_held_witness:
  "case sb_calls ex_lock_calls (snd (onTryReadLock ''n'' ex_sb)) of (rs, b2) \<Rightarrow>
     \<not> write_granted ex_lock_calls rs \<and> ''n'' \<in> set (mReaders b2) \<and> mWriters b2 = []"
proof -
  have 1: "onTryReadLock ''n'' ex_sb = (Some 100, snd (onTryReadLock ''n'' ex_sb))" by code_simp
  have 2: "list_all (\<lambda>c. \<not> unlocked_by ''n'' c) ex_lock_calls" by code_simp
  from read_lock_held [OF 1 2] show ?thesis .
qed

section \<open>A buffer without content\<close>

text \<open>A sequence of calls that mark users, the resulting buffer, and the bits a user got.\<close>

fun mark_calls :: "(UserId_T \<times> MUINT32) list \<Rightarrow> 'a StreamBufferImp_scheme \<Rightarrow> 'a StreamBufferImp_scheme option" where
  "mark_calls [] b = Some b"
| "mark_calls ((u, msk) # ms) b = do { (r, b1) \<leftarrow> sb_markUserStatus u msk b; mark_calls ms b1 }"

definition marks_of :: "UserId_T \<Rightarrow> (UserId_T \<times> MUINT32) list \<Rightarrow> MUINT32" where
  "marks_of u ms = foldr (OR) (map snd (filter (\<lambda>(v, msk). v = u) ms)) 0"

text \<open>Some call of the sequence leaves a producer released and not used.\<close>

definition released_unused :: "UsersManager \<Rightarrow> (UserId_T \<times> MUINT32) list \<Rightarrow> bool" where
  "released_unused um ms \<longleftrightarrow>
     (\<exists>n < length ms. let u = fst (ms ! n); st = getUserStatus um u OR marks_of u (take (Suc n) ms) in
        getUserCategory um u = PRODUCER \<and> has st RELEASE \<and> \<not> has st USED)"

lemma released_unused_Nil [simp]: "\<not> released_unused um []"
  by (simp add: released_unused_def)

lemma released_unused_Cons:
  assumes "\<And>k. getUserStatus um' k = (if k = u then getUserStatus um u OR msk else getUserStatus um k)"
    and "\<And>k. getUserCategory um' k = getUserCategory um k"
  shows "released_unused um ((u, msk) # ms) \<longleftrightarrow>
    getUserCategory um u = PRODUCER \<and> has (getUserStatus um u OR msk) RELEASE \<and> \<not> has (getUserStatus um u OR msk) USED \<or>
    released_unused um' ms"
proof -
  have m: "marks_of k ((u, msk) # xs) = (if k = u then msk OR marks_of k xs else marks_of k xs)" for k xs
    by (simp add: marks_of_def)
  have st: "getUserStatus um k OR marks_of k ((u, msk) # xs) = getUserStatus um' k OR marks_of k xs" for k xs
    by (simp add: m assms(1) or.assoc)
  have 0: "marks_of u [(u, msk)] = msk" by (simp add: marks_of_def)
  have "released_unused um ((u, msk) # ms) \<longleftrightarrow>
    (let st = getUserStatus um u OR marks_of u [(u, msk)] in
       getUserCategory um u = PRODUCER \<and> has st RELEASE \<and> \<not> has st USED) \<or>
    (\<exists>n < length ms. let k = fst (ms ! n); st = getUserStatus um k OR marks_of k ((u, msk) # take (Suc n) ms) in
        getUserCategory um k = PRODUCER \<and> has st RELEASE \<and> \<not> has st USED)"
    unfolding released_unused_def list.size Suc_eq_plus1 [symmetric] add_0_right by (simp add: Ex_less_Suc2)
  then show ?thesis unfolding 0 st released_unused_def Let_def assms(2) .
qed

lemma sb_markUserStatus_effect:
  assumes "um_inv (mUsersManager b)" and "mUserInit (mUsersManager b)" and "queryUser (mUsersManager b) u \<noteq> None"
    and "um_fits (mUsersManager b)"
  shows "\<exists>b'. sb_markUserStatus u msk b = Some (getUserStatus (mUsersManager b) u OR msk, b') \<and>
    um_inv (mUsersManager b') \<and> mUserInit (mUsersManager b') \<and> um_fits (mUsersManager b') \<and>
    (\<forall>k. queryUser (mUsersManager b') k = queryUser (mUsersManager b) k) \<and>
    (\<forall>k. getUserStatus (mUsersManager b') k =
      (if k = u then getUserStatus (mUsersManager b) u OR msk else getUserStatus (mUsersManager b) k)) \<and>
    (\<forall>k. getUserCategory (mUsersManager b') k = getUserCategory (mUsersManager b) k) \<and>
    mBufStatus b' = (let st = getUserStatus (mUsersManager b) u OR msk in
      if getUserCategory (mUsersManager b) u = PRODUCER \<and> has st RELEASE \<and> \<not> has st USED
      then mBufStatus b OR STATUS_ERROR else mBufStatus b)"
proof -
  from markUserStatus_queries [OF assms, of msk] obtain um where
    r: "markUserStatus u msk (mUsersManager b) = Some (getUserStatus (mUsersManager b) u OR msk, um)"
    and um: "um_inv um" "mUserInit um" "um_fits um" "\<forall>k. queryUser um k = queryUser (mUsersManager b) k"
      "\<forall>k. getUserStatus um k = (if k = u then getUserStatus (mUsersManager b) u OR msk else getUserStatus (mUsersManager b) k)"
      "\<forall>k. getUserCategory um k = getUserCategory (mUsersManager b) k" by blast
  show ?thesis
    using um by (auto simp: sb_markUserStatus_def r Let_def has_def)
qed

lemma mark_calls_status:
  assumes "um_inv (mUsersManager b)" and "mUserInit (mUsersManager b)"
    and "list_all (\<lambda>(u, msk). queryUser (mUsersManager b) u \<noteq> None) ms" and "um_fits (mUsersManager b)"
  shows "\<exists>b'. mark_calls ms b = Some b' \<and>
    mBufStatus b' = (if released_unused (mUsersManager b) ms then mBufStatus b OR STATUS_ERROR else mBufStatus b)"
  using assms
proof (induction ms arbitrary: b)
  case (Cons c ms)
  obtain u msk where c: "c = (u, msk)" by fastforce
  with Cons.prems have q: "queryUser (mUsersManager b) u \<noteq> None" by simp
  from sb_markUserStatus_effect [OF Cons.prems(1,2) q Cons.prems(4), of msk] obtain b1 where
    r: "sb_markUserStatus u msk b = Some (getUserStatus (mUsersManager b) u OR msk, b1)"
    and b1: "um_inv (mUsersManager b1)" "mUserInit (mUsersManager b1)" "um_fits (mUsersManager b1)"
      "\<forall>k. queryUser (mUsersManager b1) k = queryUser (mUsersManager b) k"
    and st: "\<forall>k. getUserStatus (mUsersManager b1) k =
      (if k = u then getUserStatus (mUsersManager b) u OR msk else getUserStatus (mUsersManager b) k)"
    and cat: "\<forall>k. getUserCategory (mUsersManager b1) k = getUserCategory (mUsersManager b) k"
    and buf: "mBufStatus b1 = (let st = getUserStatus (mUsersManager b) u OR msk in
      if getUserCategory (mUsersManager b) u = PRODUCER \<and> has st RELEASE \<and> \<not> has st USED
      then mBufStatus b OR STATUS_ERROR else mBufStatus b)" by blast
  have "list_all (\<lambda>(u, msk). queryUser (mUsersManager b1) u \<noteq> None) ms"
    using Cons.prems(3) b1(4) by simp
  from Cons.IH [OF b1(1,2) this b1(3)] obtain b2 where b2: "mark_calls ms b1 = Some b2"
    "mBufStatus b2 = (if released_unused (mUsersManager b1) ms then mBufStatus b1 OR STATUS_ERROR else mBufStatus b1)"
    by blast
  have rel: "released_unused (mUsersManager b) (c # ms) \<longleftrightarrow>
     getUserCategory (mUsersManager b) u = PRODUCER \<and> has (getUserStatus (mUsersManager b) u OR msk) RELEASE \<and>
       \<not> has (getUserStatus (mUsersManager b) u OR msk) USED \<or> released_unused (mUsersManager b1) ms"
    unfolding c using released_unused_Cons st cat by blast
  show ?case
    using b2 buf by (simp add: c [symmetric] rel) (simp add: c r Let_def or.assoc)
qed simp

text \<open>A sequence of calls that mark users of a buffer adds the error bit to its status
  exactly when some call leaves a producer released and not used, and it adds no other bit.
  A producer that marks its use together with or before its release never does. The manager has
  at most 32 producers and 32 consumers.\<close>

theorem error_status_iff:
  assumes "um_reach (mUsersManager b)" and "mUserInit (mUsersManager b)"
    and "list_all (\<lambda>(u, msk). queryUser (mUsersManager b) u \<noteq> None) ms" and "um_fits (mUsersManager b)"
  shows "\<exists>b'. mark_calls ms b = Some b' \<and>
    mBufStatus b' = (if released_unused (mUsersManager b) ms then mBufStatus b OR STATUS_ERROR else mBufStatus b)"
  using mark_calls_status [OF um_reach_inv [OF assms(1)] assms(2-4)] .

definition ex_sb_um :: StreamBufferImp where
  "ex_sb_um = setUsersManager ex_um ex_sb"

theorem error_status_iff_witness:
  "\<exists>b1 b2. mark_calls [(1, RELEASE), (1, USED), (2, RELEASE)] ex_sb_um = Some b1 \<and> mBufStatus b1 = 1 \<and>
     mark_calls [(1, USED), (1, RELEASE), (2, RELEASE)] ex_sb_um = Some b2 \<and> mBufStatus b2 = 0"
proof -
  have um: "mUsersManager ex_sb_um = ex_um" "mBufStatus ex_sb_um = 0"
    by (simp_all add: ex_sb_um_def setUsersManager_def ex_sb_def StreamBufferImp_new_def)
  have r: "um_reach (mUsersManager ex_sb_um)" "mUserInit (mUsersManager ex_sb_um)" "um_fits (mUsersManager ex_sb_um)"
    unfolding um using ex_um_reach ex_um_facts by (simp_all add: um_fits_def)
  have 1: "list_all (\<lambda>(u, msk). queryUser (mUsersManager ex_sb_um) u \<noteq> None) [(1, RELEASE), (1, USED), (2, RELEASE)]"
    "list_all (\<lambda>(u, msk). queryUser (mUsersManager ex_sb_um) u \<noteq> None) [(1, USED), (1, RELEASE), (2, RELEASE)]"
    by code_simp+
  have 2: "released_unused (mUsersManager ex_sb_um) [(1, RELEASE), (1, USED), (2, RELEASE)]"
    "\<not> released_unused (mUsersManager ex_sb_um) [(1, USED), (1, RELEASE), (2, RELEASE)]"
    by code_simp+
  from error_status_iff [OF r(1,2) 1(1) r(3)] error_status_iff [OF r(1,2) 1(2) r(3)] 2 um(2) show ?thesis by auto
qed

section \<open>Release and reuse\<close>

lemma find_index_nth:
  "distinct xs \<Longrightarrow> i < length xs \<Longrightarrow> find_index (xs ! i) xs c = Some (c + i)"
proof (induction xs arbitrary: i c)
  case (Cons x xs)
  show ?case
  proof (cases i)
    case 0
    then show ?thesis by simp
  next
    case (Suc j)
    with Cons.prems have "j < length xs" "x \<noteq> xs ! j" by auto
    with Cons.IH [of j "Suc c"] Cons.prems Suc show ?thesis by simp
  qed
qed simp

lemma releaseToPool_nth:
  assumes "distinct (mStorage q)" and "i < length (mStorage q)" and "i \<in> set (mlInUseBuf q)"
  shows "releaseToPool (mStorage q ! i) q =
    (OK, q\<lparr>mlAvailableBuf := mlAvailableBuf q @ [i], mlInUseBuf := remove1 i (mlInUseBuf q)\<rparr>)"
  using assms by (simp add: releaseToPool_def find_index_nth releaseToPoolImpl_def)

lemma acquireFromPool_first:
  assumes "mlAvailableBuf q = i # is" and "i < length (mStorage q)"
  shows "acquireFromPool running alloc cond others q =
    (OK, Some (mStorage q ! i), q\<lparr>mlInUseBuf := mlInUseBuf q @ [i], mlAvailableBuf := is\<rparr>)"
  using assms by (simp add: acquireFromPool_def acquireFromPoolImpl_def acquire_enter_def take_available_def
      get_itemLocation_def Let_def)

text \<open>C24: a metadata buffer in use that is released to its live pool, which has no other free
  buffer, is what the next acquire gives out: with no status, no lock, no metadata, no users
  that are set up, but still marked as repeating when its last user marked it so.\<close>

theorem meta_release_reacquire:
  assumes "mBufPool b = Some p" and "pools p = Some q" and "distinct (mStorage q)" and "i < length (mStorage q)"
    and "i \<in> set (mlInUseBuf q)" and "mlAvailableBuf q = []"
  shows "case meta_releaseBuffer (mStorage q ! i) (b, pools) of (b', pools') \<Rightarrow>
     (\<exists>q1 q2. pools' p = Some q1 \<and>
        acquireFromPool running alloc cond others q1 = (OK, Some (mStorage q ! i), q2) \<and>
        mset (mlInUseBuf q2) = mset (mlInUseBuf q)) \<and>
     getStatus b' = 0 \<and> mWriters b' = [] \<and> mReaders b' = [] \<and> mMetadata b' = [] \<and>
     \<not> mUserInit (mUsersManager b') \<and> mUserGroupGraph (mUsersManager b') = [] \<and>
     isRepeating b' = isRepeating b"
proof -
  let ?q = "q\<lparr>mlAvailableBuf := [i], mlInUseBuf := remove1 i (mlInUseBuf q)\<rparr>"
  have rel: "releaseToPool (mStorage q ! i) q = (OK, ?q)"
    using releaseToPool_nth [OF assms(3-5)] assms(6) by simp
  have r: "meta_releaseBuffer (mStorage q ! i) (b, pools) = (meta_resetBuffer b, pools(p \<mapsto> ?q))"
    using assms(1,2) rel by (simp add: meta_releaseBuffer_def releaseBuffer_def tryGetBufferPool_def Let_def)
  have "acquireFromPool running alloc cond others ?q =
      (OK, Some (mStorage q ! i), ?q\<lparr>mlInUseBuf := mlInUseBuf ?q @ [i], mlAvailableBuf := []\<rparr>)"
    using acquireFromPool_first [of ?q i "[]"] assms(4) by simp
  then show ?thesis using assms(5)
    by (simp add: r meta_resetBuffer_def sb_reset_def um_reset_def getStatus_def isRepeating_def)
qed

definition ex_meta :: "nat HalMetaStreamBuffer" where
  "ex_meta = setRepeating True (HalMeta_Allocator \<lparr>si_streamId = 7, si_streamName = ''meta''\<rparr> (Some [(5, 6)]) (Some 1) 100)"

definition ex_meta_pool :: "nat StreamBufferPool" where
  "ex_meta_pool = \<lparr>mName = ''p'', muToAllocCnt = 0, mlAvailableBuf = [], mlInUseBuf = [0], mWaitingList = [], mStorage = [100]\<rparr>"

theorem meta_release_reacquire_witness:
  "case meta_releaseBuffer 100 (ex_meta, [1 \<mapsto> ex_meta_pool]) of (b', pools') \<Rightarrow> isRepeating b' \<and> mMetadata b' = []"
proof -
  have 1: "mBufPool ex_meta = Some 1" "isRepeating ex_meta"
    by (simp_all add: ex_meta_def HalMeta_Allocator_def HalMetaStreamBuffer_new_def setRepeating_def isRepeating_def
        StreamBufferImp.defs StreamBufferImp_new_def)
  have 2: "[1 \<mapsto> ex_meta_pool] 1 = Some ex_meta_pool" by simp
  have 3: "distinct (mStorage ex_meta_pool)" "0 < length (mStorage ex_meta_pool)" "0 \<in> set (mlInUseBuf ex_meta_pool)"
    "mlAvailableBuf ex_meta_pool = []" "mStorage ex_meta_pool ! 0 = 100" by (simp_all add: ex_meta_pool_def)
  from meta_release_reacquire [where pools = "[1 \<mapsto> ex_meta_pool]" and p = 1 and q = ex_meta_pool and b = ex_meta,
      OF 1(1) 2 3(1-4)] show ?thesis
    unfolding 3(5) using 1(2) by (simp add: case_prod_beta)
qed






end
