(* ===== verification/BufferStore.thy ===== *)
theory BufferStore
  imports StreamBuffers
begin

text \<open>
  Stream buffers and users managers as shared objects. A frame refers to them by pointers:
  a manager can belong to a frame's map before a buffer is there for it, and is then shared
  with the buffer. Both kinds of object live in a store and are named by their position.

  \<open>users_ref\<close> is a pointer to an \<open>IUsersManager\<close>: a manager object, or a stream buffer, which
  implements the interface too. A stored buffer keeps its manager as a position; the field
  \<open>mUsersManager\<close> of its state is loaded before a call and saved after it. \<open>sbf_home\<close> says
  whether the pool or the provider the buffer came from can be promoted.
\<close>

text \<open>The four kinds of streams that both implementations of a buffer set keep apart.\<close>

datatype map_kind = AppImage | AppMeta | HalImage | HalMeta

datatype users_ref = Users nat | BufferUsers nat

record stored_buffer =
  sbf_imp :: StreamBufferImp
  sbf_manager :: nat
  sbf_home :: bool

record buffer_store =
  st_managers :: "UsersManager list"
  st_buffers :: "stored_buffer list"

definition manager_of :: "buffer_store \<Rightarrow> users_ref \<Rightarrow> nat" where
  "manager_of st r = (case r of Users m \<Rightarrow> m | BufferUsers b \<Rightarrow> sbf_manager (st_buffers st ! b))"

definition um_of :: "buffer_store \<Rightarrow> users_ref \<Rightarrow> UsersManager" where
  "um_of st r = st_managers st ! manager_of st r"

definition load_buffer :: "nat \<Rightarrow> buffer_store \<Rightarrow> StreamBufferImp" where
  "load_buffer b st = setUsersManager (um_of st (BufferUsers b)) (sbf_imp (st_buffers st ! b))"

definition save_buffer :: "nat \<Rightarrow> StreamBufferImp \<Rightarrow> buffer_store \<Rightarrow> buffer_store" where
  "save_buffer b sb st = st\<lparr>
     st_buffers := (st_buffers st)[b := (st_buffers st ! b)\<lparr>sbf_imp := sb\<rparr>],
     st_managers := (st_managers st)[manager_of st (BufferUsers b) := mUsersManager sb]\<rparr>"

text \<open>The calls of the interface, on either kind of object.\<close>

definition users_markUserStatus ::
    "users_ref \<Rightarrow> UserId_T \<Rightarrow> MUINT32 \<Rightarrow> buffer_store \<Rightarrow> (MUINT32 \<times> buffer_store) option" where
  "users_markUserStatus r userId statusMask st =
     (case r of
        Users m \<Rightarrow> do {
          (result, um) \<leftarrow> markUserStatus userId statusMask (st_managers st ! m);
          Some (result, st\<lparr>st_managers := (st_managers st)[m := um]\<rparr>)
        }
      | BufferUsers b \<Rightarrow> do {
          (result, sb) \<leftarrow> sb_markUserStatus userId statusMask (load_buffer b st);
          Some (result, save_buffer b sb st)
        })"

definition users_setUserReleaseFence ::
    "users_ref \<Rightarrow> UserId_T \<Rightarrow> int \<Rightarrow> buffer_store \<Rightarrow> MERROR \<times> buffer_store" where
  "users_setUserReleaseFence r userId releaseFence st =
     (let (e, um) = setUserReleaseFence userId releaseFence (um_of st r)
      in (e, st\<lparr>st_managers := (st_managers st)[manager_of st r := um]\<rparr>))"

definition store_setUsersManager :: "nat \<Rightarrow> users_ref \<Rightarrow> buffer_store \<Rightarrow> buffer_store" where
  "store_setUsersManager b r st =
     st\<lparr>st_buffers := (st_buffers st)[b := (st_buffers st ! b)\<lparr>sbf_manager := manager_of st r\<rparr>]\<rparr>"

text \<open>
  \<open>releaseBuffer\<close> of a buffer of a pool or a provider: nothing happens when its home is gone;
  otherwise the buffer is reset and goes home with the status from before (\<open>StreamBuffers\<close>
  has the two classes in detail).
\<close>

definition reset_imp :: "'a StreamBufferImp_scheme \<Rightarrow> 'a StreamBufferImp_scheme" where
  "reset_imp b = (sb_reset b)\<lparr>mBufStatus := 0, mWriters := [], mReaders := []\<rparr>"

definition store_releaseBuffer :: "nat \<Rightarrow> buffer_store \<Rightarrow> MUINT32 option \<times> buffer_store" where
  "store_releaseBuffer b st =
     (if sbf_home (st_buffers st ! b)
      then (Some (getStatus (load_buffer b st)), save_buffer b (reset_imp (load_buffer b st)) st)
      else (None, st))"

lemma image_resetBuffer_imp: "image_resetBuffer b = reset_imp b"
  by (simp add: image_resetBuffer_def reset_imp_def)

lemma meta_resetBuffer_imp: "meta_resetBuffer b = (reset_imp b)\<lparr>mMetadata := []\<rparr>"
  by (simp add: meta_resetBuffer_def reset_imp_def)

section \<open>How calls change the managers\<close>

text \<open>References that point into the store, and buffers that do.\<close>

definition ref_ok :: "buffer_store \<Rightarrow> users_ref \<Rightarrow> bool" where
  "ref_ok st r \<longleftrightarrow> manager_of st r < length (st_managers st) \<and>
     (case r of Users m \<Rightarrow> True | BufferUsers b \<Rightarrow> b < length (st_buffers st))"

lemma sb_markUserStatus_um:
  "sb_markUserStatus u msk b =
     (case markUserStatus u msk (mUsersManager b) of
        None \<Rightarrow> None
      | Some (r, um) \<Rightarrow>
          Some (r, if r AND USED = 0 \<and> r AND RELEASE \<noteq> 0 \<and> PRODUCER = getUserCategory um u
                   then b\<lparr>mUsersManager := um, mBufStatus := mBufStatus b OR STATUS_ERROR\<rparr>
                   else b\<lparr>mUsersManager := um\<rparr>))"
  by (cases "markUserStatus u msk (mUsersManager b)") (auto simp: sb_markUserStatus_def Let_def)

lemma map_list_update_same: "f y = f (xs ! i) \<Longrightarrow> map f (xs[i := y]) = map f xs"
  by (metis list_update_id map_update)

text \<open>
  A mark does to the manager what the manager's own operation does, whichever object it is
  called on; the positions of the managers do not change, nor any other manager.
\<close>

lemma users_mark_effect:
  assumes "markUserStatus u msk (um_of st r) = Some (res, um)"
  shows "\<exists>st'. users_markUserStatus r u msk st = Some (res, st') \<and>
     st_managers st' = (st_managers st)[manager_of st r := um] \<and>
     (\<forall>q. manager_of st' q = manager_of st q) \<and> length (st_buffers st') = length (st_buffers st) \<and>
     map sbf_home (st_buffers st') = map sbf_home (st_buffers st)"
proof (cases r)
  case (Users m)
  with assms show ?thesis
    by (simp add: users_markUserStatus_def um_of_def manager_of_def split: users_ref.splits)
next
  case (BufferUsers b)
  have mgr: "mUsersManager (load_buffer b st) = um_of st r"
    by (simp add: load_buffer_def setUsersManager_def BufferUsers)
  define sb where "sb = (if res AND USED = 0 \<and> res AND RELEASE \<noteq> 0 \<and> PRODUCER = getUserCategory um u
     then (load_buffer b st)\<lparr>mUsersManager := um, mBufStatus := mBufStatus (load_buffer b st) OR STATUS_ERROR\<rparr>
     else (load_buffer b st)\<lparr>mUsersManager := um\<rparr>)"
  have "sb_markUserStatus u msk (load_buffer b st) = Some (res, sb)"
    unfolding sb_markUserStatus_um mgr assms by (simp add: sb_def)
  then have 1: "users_markUserStatus r u msk st = Some (res, save_buffer b sb st)"
    by (simp add: users_markUserStatus_def BufferUsers)
  have "mUsersManager sb = um" by (simp add: sb_def)
  then have 2: "st_managers (save_buffer b sb st) = (st_managers st)[manager_of st r := um]"
    by (simp add: save_buffer_def BufferUsers)
  have 3: "manager_of (save_buffer b sb st) q = manager_of st q" for q
    by (cases "b < length (st_buffers st)")
      (auto simp: manager_of_def save_buffer_def nth_list_update list_update_beyond split: users_ref.splits)
  have 4: "map sbf_home (st_buffers (save_buffer b sb st)) = map sbf_home (st_buffers st)"
    by (simp add: save_buffer_def map_list_update_same)
  have "length (st_buffers (save_buffer b sb st)) = length (st_buffers st)" by (simp add: save_buffer_def)
  with 1 2 3 4 show ?thesis by blast
qed

lemma store_release_effect:
  "store_releaseBuffer b st = (e, st') \<Longrightarrow>
   (\<forall>q. manager_of st' q = manager_of st q) \<and> length (st_buffers st') = length (st_buffers st) \<and>
   map sbf_home (st_buffers st') = map sbf_home (st_buffers st) \<and>
   st_managers st' = (if sbf_home (st_buffers st ! b)
     then (st_managers st)[manager_of st (BufferUsers b) := um_reset (um_of st (BufferUsers b))] else st_managers st)"
proof (cases "sbf_home (st_buffers st ! b)")
  case True
  assume "store_releaseBuffer b st = (e, st')"
  with True have st': "st' = save_buffer b (reset_imp (load_buffer b st)) st" by (simp add: store_releaseBuffer_def)
  have "manager_of st' q = manager_of st q" for q
    by (cases "b < length (st_buffers st)")
      (auto simp: st' manager_of_def save_buffer_def nth_list_update list_update_beyond split: users_ref.splits)
  moreover have "map sbf_home (st_buffers st') = map sbf_home (st_buffers st)"
    by (simp add: st' save_buffer_def map_list_update_same)
  ultimately show ?thesis using True
    by (simp add: st' save_buffer_def reset_imp_def sb_reset_def load_buffer_def setUsersManager_def)
qed (simp add: store_releaseBuffer_def)

end
