(* ===== verification/FrameNodeMap.thy ===== *)
theory FrameNodeMap
  imports PipelineDAG StreamBuffers
begin

text \<open>
  The nodes of one frame with their streams
  (\<open>mtkcam/pipeline/pipeline/PipelineFrameNodeMapControlImp.cpp\<close>) and the generator of frame
  numbers (\<open>PipelineFrameNumberGenerator.cpp\<close>).

  A stream information set is the list of its metadata streams and the list of its image
  streams. The map of stream groups of a node (\<open>InfoIOMapSet\<close>) is only handed through; its
  type is a parameter.
\<close>

record StreamInfoSet =
  si_metaInfos :: "IStreamInfo list"
  si_imageInfos :: "IStreamInfo list"

record 'io NodeInfo =
  mNodeId :: NodeId_T
  mIStreams :: "StreamInfoSet option"
  mOStreams :: "StreamInfoSet option"
  mIOMapSet :: "'io list"

definition NodeInfo_new :: "NodeId_T \<Rightarrow> 'io NodeInfo" where
  "NodeInfo_new nodeId = \<lparr>mNodeId = nodeId, mIStreams = None, mOStreams = None, mIOMapSet = []\<rparr>"

definition setIStreams :: "StreamInfoSet option \<Rightarrow> 'io NodeInfo \<Rightarrow> 'io NodeInfo" where
  "setIStreams p n = n\<lparr>mIStreams := p\<rparr>"

definition setOStreams :: "StreamInfoSet option \<Rightarrow> 'io NodeInfo \<Rightarrow> 'io NodeInfo" where
  "setOStreams p n = n\<lparr>mOStreams := p\<rparr>"

type_synonym 'io FrameNodeMap = "(NodeId_T, 'io NodeInfo) kvec"

definition fnm_clear :: "'io FrameNodeMap \<Rightarrow> 'io FrameNodeMap" where
  "fnm_clear m = []"

text \<open>The index of the new entry, and the map.\<close>

definition fnm_addNode :: "NodeId_T \<Rightarrow> 'io FrameNodeMap \<Rightarrow> nat option \<times> 'io FrameNodeMap" where
  "fnm_addNode nodeId m =
     (let m' = kv_add nodeId (NodeInfo_new nodeId) m in (kv_index m' nodeId, m'))"

definition fnm_isEmpty :: "'io FrameNodeMap \<Rightarrow> bool" where
  "fnm_isEmpty m \<longleftrightarrow> m = []"

definition fnm_size :: "'io FrameNodeMap \<Rightarrow> nat" where
  "fnm_size m = length m"

definition getNodeFor :: "NodeId_T \<Rightarrow> 'io FrameNodeMap \<Rightarrow> 'io NodeInfo option" where
  "getNodeFor nodeId m = map_of m nodeId"

text \<open>An index past the end is a fault (the outer \<open>None\<close>).\<close>

definition getNodeAt :: "nat \<Rightarrow> 'io FrameNodeMap \<Rightarrow> 'io NodeInfo option" where
  "getNodeAt index m = (if index < length m then Some (snd (m ! index)) else None)"

section \<open>Frame numbers\<close>

text \<open>
  The counter is a signed 32-bit integer whose increment past the largest value is
  undefined; the number is handed out as an unsigned one.
\<close>

type_synonym FrameNumberGenerator = int

definition FrameNumberGenerator_new :: FrameNumberGenerator where
  "FrameNumberGenerator_new = 0"

definition generateFrameNo :: "FrameNumberGenerator \<Rightarrow> (MUINT32 \<times> FrameNumberGenerator) option" where
  "generateFrameNo mFrameNo = (if mFrameNo < 2 ^ 31 - 1 then Some (word_of_int mFrameNo, mFrameNo + 1) else None)"

definition resetFrameNo :: "FrameNumberGenerator \<Rightarrow> FrameNumberGenerator" where
  "resetFrameNo mFrameNo = 0"

fun generate_n :: "nat \<Rightarrow> FrameNumberGenerator \<Rightarrow> (MUINT32 list \<times> FrameNumberGenerator) option" where
  "generate_n 0 g = Some ([], g)"
| "generate_n (Suc n) g = do { (f, g1) \<leftarrow> generateFrameNo g; (fs, g2) \<leftarrow> generate_n n g1; Some (f # fs, g2) }"

lemma generate_n_eq:
  "0 \<le> g \<Longrightarrow> g + int n \<le> 2 ^ 31 - 1 \<Longrightarrow>
   generate_n n g = Some (map (\<lambda>i. word_of_int (g + int i)) [0..<n], g + int n)"
proof (induction n arbitrary: g)
  case (Suc n)
  then have "generate_n n (g + 1) = Some (map (\<lambda>i. word_of_int (g + 1 + int i)) [0..<n], g + 1 + int n)" by simp
  moreover have "[0..<Suc n] = 0 # map Suc [0..<n]" by (simp add: upt_conv_Cons map_Suc_upt del: upt_Suc)
  ultimately show ?case using Suc.prems by (simp add: generateFrameNo_def comp_def algebra_simps del: upt_Suc)
qed simp

lemma frame_numbers_distinct:
  "n \<le> 2 ^ 31 - 1 \<Longrightarrow>
   \<exists>fs g. generate_n n (resetFrameNo h) = Some (fs, g) \<and> length fs = n \<and> distinct fs"
proof -
  assume n: "n \<le> 2 ^ 31 - 1"
  have inj: "inj_on (\<lambda>i. word_of_int (int i) :: MUINT32) (set [0..<n])"
  proof (rule inj_onI)
    fix i j assume "i \<in> set [0..<n]" "j \<in> set [0..<n]" "(word_of_int (int i) :: MUINT32) = word_of_int (int j)"
    then show "i = j" using n by (simp add: word_of_nat_eq_iff take_bit_nat_eq_self)
  qed
  have "generate_n n 0 = Some (map (\<lambda>i. word_of_int (int i)) [0..<n], int n)"
    using generate_n_eq [of 0 n] n by simp
  then show ?thesis using inj by (auto simp: resetFrameNo_def distinct_map)
qed

end
