(* ===== verification/InFlight.thy ===== *)
theory InFlight
  imports FrameNodeMap
begin

text \<open>
  The requests in flight (\<open>mtkcam/pipeline/pipeline/InFlightRequest.cpp\<close>): which frames are
  not released yet, and for each node the frames whose output metadata and output images are
  not released yet. It listens to the frames; other threads wait until it is drained.

  A member function runs under the lock. A function that may wake the waiters also returns
  whether it broadcasts the condition variable.
\<close>

section \<open>State and operations\<close>

abbreviation (input) eMSG_FRAME_RELEASED :: MUINT32 where "eMSG_FRAME_RELEASED \<equiv> 0"
abbreviation (input) eMSG_ALL_OUT_META_BUFFERS_RELEASED :: MUINT32 where "eMSG_ALL_OUT_META_BUFFERS_RELEASED \<equiv> 1"
abbreviation (input) eMSG_ALL_OUT_IMAGE_BUFFERS_RELEASED :: MUINT32 where "eMSG_ALL_OUT_IMAGE_BUFFERS_RELEASED \<equiv> 2"

record InFlightRequest =
  mRequest :: "MUINT32 list"
  mRequestMap_meta :: "(NodeId_T, MUINT32 list) kvec"
  mRequestMap_image :: "(NodeId_T, MUINT32 list) kvec"

definition InFlightRequest_new :: InFlightRequest where
  "InFlightRequest_new = \<lparr>mRequest = [], mRequestMap_meta = [], mRequestMap_image = []\<rparr>"

definition push_request :: "NodeId_T \<Rightarrow> MUINT32 \<Rightarrow> (NodeId_T, MUINT32 list) kvec \<Rightarrow> (NodeId_T, MUINT32 list) kvec" where
  "push_request node frameNo m =
     (if map_of m node = None then kv_add node [frameNo] m else kv_edit node (\<lambda>l. l @ [frameNo]) m)"

text \<open>
  The frame is given by its number, the order of its nodes, and the result of
  \<open>queryIOStreamInfoSet\<close> with the set of output streams.
\<close>

fun register_nodes ::
    "MUINT32 \<Rightarrow> NodeId_T list \<Rightarrow> (NodeId_T \<Rightarrow> MERROR \<times> StreamInfoSet option) \<Rightarrow> InFlightRequest \<Rightarrow> InFlightRequest option" where
  "register_nodes frameNo [] query r = Some r"
| "register_nodes frameNo (node # nodes) query r =
     (case query node of
        (err, out) \<Rightarrow>
          if err \<noteq> OK then Some r
          else (case out of
              None \<Rightarrow> None
            | Some s \<Rightarrow>
                register_nodes frameNo nodes query
                  (if si_imageInfos s \<noteq> [] \<or> si_metaInfos s \<noteq> []
                   then r\<lparr>mRequestMap_image := push_request node frameNo (mRequestMap_image r),
                          mRequestMap_meta := push_request node frameNo (mRequestMap_meta r)\<rparr>
                   else r)))"

definition registerRequest ::
    "MUINT32 \<Rightarrow> NodeId_T list \<Rightarrow> (NodeId_T \<Rightarrow> MERROR \<times> StreamInfoSet option) \<Rightarrow> InFlightRequest \<Rightarrow> InFlightRequest option" where
  "registerRequest frameNo vNode query r =
     register_nodes frameNo vNode query (r\<lparr>mRequest := mRequest r @ [frameNo]\<rparr>)"

text \<open>The conditions of the three waiting loops: true means that the caller sleeps.\<close>

definition wait_drained :: "InFlightRequest \<Rightarrow> bool" where
  "wait_drained r \<longleftrightarrow> mRequest r \<noteq> []"

definition wait_node_meta :: "NodeId_T \<Rightarrow> InFlightRequest \<Rightarrow> bool" where
  "wait_node_meta nid r \<longleftrightarrow> (case map_of (mRequestMap_meta r) nid of None \<Rightarrow> False | Some l \<Rightarrow> l \<noteq> [])"

definition wait_node_image :: "NodeId_T \<Rightarrow> InFlightRequest \<Rightarrow> bool" where
  "wait_node_image nid r \<longleftrightarrow> (case map_of (mRequestMap_image r) nid of None \<Rightarrow> False | Some l \<Rightarrow> l \<noteq> [])"

definition onPipelineFrame :: "MUINT32 \<Rightarrow> MUINT32 \<Rightarrow> InFlightRequest \<Rightarrow> InFlightRequest \<times> bool" where
  "onPipelineFrame frameNo message r =
     (if message = eMSG_FRAME_RELEASED \<and> frameNo \<in> set (mRequest r)
      then (r\<lparr>mRequest := remove1 frameNo (mRequest r)\<rparr>, True)
      else (r, False))"

definition onPipelineFrame_node ::
    "MUINT32 \<Rightarrow> NodeId_T \<Rightarrow> MUINT32 \<Rightarrow> InFlightRequest \<Rightarrow> (InFlightRequest \<times> bool) option" where
  "onPipelineFrame_node frameNo nodeId message r =
     (if map_of (mRequestMap_meta r) nodeId = None \<and> map_of (mRequestMap_image r) nodeId = None
      then Some (r, False)
      else if message = eMSG_ALL_OUT_META_BUFFERS_RELEASED
      then (if map_of (mRequestMap_meta r) nodeId = None then None
            else Some (r\<lparr>mRequestMap_meta := kv_edit nodeId (remove1 frameNo) (mRequestMap_meta r)\<rparr>, True))
      else if message = eMSG_ALL_OUT_IMAGE_BUFFERS_RELEASED
      then (if map_of (mRequestMap_image r) nodeId = None then None
            else Some (r\<lparr>mRequestMap_image := kv_edit nodeId (remove1 frameNo) (mRequestMap_image r)\<rparr>, True))
      else Some (r, False))"

definition ifr_clear :: "InFlightRequest \<Rightarrow> InFlightRequest" where
  "ifr_clear r = r\<lparr>mRequestMap_meta := [], mRequestMap_image := [], mRequest := []\<rparr>"

section \<open>Waiting threads\<close>

text \<open>
  A thread waits for everything, or for the metadata or the images of a node
  (\<open>waitUntilNodeDrained\<close> is the one and then the other).
\<close>

datatype waiter = WaitAll | WaitMeta NodeId_T | WaitImage NodeId_T

fun must_wait :: "waiter \<Rightarrow> InFlightRequest \<Rightarrow> bool" where
  "must_wait WaitAll r = wait_drained r"
| "must_wait (WaitMeta nid) r = wait_node_meta nid r"
| "must_wait (WaitImage nid) r = wait_node_image nid r"

text \<open>
  \<open>ifs_awake\<close> are the waiters that will test their condition next, \<open>ifs_asleep\<close> those that
  sleep on the condition variable. A test and falling asleep are one step, under the lock.
  \<open>clears\<close> says whether \<open>clear\<close> is among the calls.
\<close>

record ifr_sys =
  ifs_req :: InFlightRequest
  ifs_awake :: "waiter list"
  ifs_asleep :: "waiter list"

definition ifs_wake :: "bool \<Rightarrow> ifr_sys \<Rightarrow> ifr_sys" where
  "ifs_wake bc s = (if bc then s\<lparr>ifs_awake := ifs_awake s @ ifs_asleep s, ifs_asleep := []\<rparr> else s)"

inductive ifr_step :: "bool \<Rightarrow> ifr_sys \<Rightarrow> ifr_sys \<Rightarrow> bool" for clears :: bool where
  register: "registerRequest frameNo vNode query (ifs_req s) = Some r \<Longrightarrow> ifr_step clears s (s\<lparr>ifs_req := r\<rparr>)"
| frame_msg: "onPipelineFrame frameNo message (ifs_req s) = (r, bc) \<Longrightarrow>
    ifr_step clears s (ifs_wake bc (s\<lparr>ifs_req := r\<rparr>))"
| node_msg: "onPipelineFrame_node frameNo nodeId message (ifs_req s) = Some (r, bc) \<Longrightarrow>
    ifr_step clears s (ifs_wake bc (s\<lparr>ifs_req := r\<rparr>))"
| call: "ifr_step clears s (s\<lparr>ifs_awake := w # ifs_awake s\<rparr>)"
| sleep: "w \<in> set (ifs_awake s) \<Longrightarrow> must_wait w (ifs_req s) \<Longrightarrow>
    ifr_step clears s (s\<lparr>ifs_awake := remove1 w (ifs_awake s), ifs_asleep := w # ifs_asleep s\<rparr>)"
| return: "w \<in> set (ifs_awake s) \<Longrightarrow> \<not> must_wait w (ifs_req s) \<Longrightarrow>
    ifr_step clears s (s\<lparr>ifs_awake := remove1 w (ifs_awake s)\<rparr>)"
| clear: "clears \<Longrightarrow> ifr_step clears s (s\<lparr>ifs_req := ifr_clear (ifs_req s)\<rparr>)"

inductive ifr_reach :: "bool \<Rightarrow> ifr_sys \<Rightarrow> bool" for clears :: bool where
  new: "ifr_reach clears \<lparr>ifs_req = InFlightRequest_new, ifs_awake = [], ifs_asleep = []\<rparr>"
| step: "ifr_reach clears s \<Longrightarrow> ifr_step clears s s' \<Longrightarrow> ifr_reach clears s'"

section \<open>What a registration keeps\<close>

lemma push_request_get:
  "map_of (push_request node f m) k =
     (if k = node then Some ((case map_of m node of None \<Rightarrow> [] | Some l \<Rightarrow> l) @ [f]) else map_of m k)"
  by (cases "map_of m node") (auto simp: push_request_def)

lemma register_nodes_mono:
  "register_nodes f ns query r = Some r' \<Longrightarrow>
   mRequest r' = mRequest r \<and>
   (must_wait w r \<longrightarrow> must_wait w r') \<and>
   ((\<forall>k. (map_of (mRequestMap_meta r) k = None) = (map_of (mRequestMap_image r) k = None)) \<longrightarrow>
    (\<forall>k. (map_of (mRequestMap_meta r') k = None) = (map_of (mRequestMap_image r') k = None)))"
proof (induction ns arbitrary: r)
  case (Cons n ns)
  obtain err out where q: "query n = (err, out)" by fastforce
  show ?case
  proof (cases "err = OK")
    case False
    with Cons.prems q show ?thesis by simp
  next
    case True
    with Cons.prems q obtain s where s: "out = Some s" by (auto split: option.splits)
    let ?r = "if si_imageInfos s \<noteq> [] \<or> si_metaInfos s \<noteq> []
       then r\<lparr>mRequestMap_image := push_request n f (mRequestMap_image r),
              mRequestMap_meta := push_request n f (mRequestMap_meta r)\<rparr> else r"
    have "register_nodes f ns query ?r = Some r'" using Cons.prems q True s by simp
    from Cons.IH [OF this]
    have ih: "mRequest r' = mRequest ?r \<and> (must_wait w ?r \<longrightarrow> must_wait w r') \<and>
      ((\<forall>k. (map_of (mRequestMap_meta ?r) k = None) = (map_of (mRequestMap_image ?r) k = None)) \<longrightarrow>
       (\<forall>k. (map_of (mRequestMap_meta r') k = None) = (map_of (mRequestMap_image r') k = None)))" .
    have "must_wait w r \<Longrightarrow> must_wait w ?r"
      by (cases w) (auto simp: wait_drained_def wait_node_meta_def wait_node_image_def push_request_get split: option.splits)
    moreover have "mRequest ?r = mRequest r" by simp
    moreover have "(\<forall>k. (map_of (mRequestMap_meta r) k = None) = (map_of (mRequestMap_image r) k = None)) \<Longrightarrow>
       (\<forall>k. (map_of (mRequestMap_meta ?r) k = None) = (map_of (mRequestMap_image ?r) k = None))"
      by (auto simp: push_request_get)
    ultimately show ?thesis using ih by argo
  qed
qed simp

lemma registerRequest_keeps_waiting:
  assumes "registerRequest f ns query r = Some r'" and "must_wait w r"
  shows "must_wait w r'"
proof -
  have "must_wait w (r\<lparr>mRequest := mRequest r @ [f]\<rparr>)"
    using assms(2) by (cases w) (auto simp: wait_drained_def wait_node_meta_def wait_node_image_def)
  with register_nodes_mono [of f ns query _ r' w] assms(1) show ?thesis unfolding registerRequest_def by blast
qed

section \<open>No lost wake-up\<close>

definition ifs_ok :: "ifr_sys \<Rightarrow> bool" where
  "ifs_ok s \<longleftrightarrow> (\<forall>w \<in> set (ifs_asleep s). must_wait w (ifs_req s))"

lemma ifs_wake_ok: "bc \<or> (r = ifs_req s \<and> ifs_ok s) \<Longrightarrow> ifs_ok (ifs_wake bc (s\<lparr>ifs_req := r\<rparr>))"
  by (auto simp: ifs_wake_def ifs_ok_def)

lemma ifr_step_ok: "ifr_step False s s' \<Longrightarrow> ifs_ok s \<Longrightarrow> ifs_ok s'"
proof (induction rule: ifr_step.induct)
  case (register frameNo vNode query s r)
  then show ?case using registerRequest_keeps_waiting by (auto simp: ifs_ok_def)
next
  case (frame_msg frameNo message s r bc)
  have "bc \<or> r = ifs_req s" using frame_msg(1) by (auto simp: onPipelineFrame_def split: if_splits)
  with frame_msg(2) ifs_wake_ok show ?case by blast
next
  case (node_msg frameNo nodeId message s r bc)
  have "bc \<or> r = ifs_req s" using node_msg(1) by (auto simp: onPipelineFrame_node_def split: if_splits)
  with node_msg(2) ifs_wake_ok show ?case by blast
qed (auto simp: ifs_ok_def)

lemma ifr_reach_ok: "ifr_reach False s \<Longrightarrow> ifs_ok s"
proof (induction rule: ifr_reach.induct)
  case new
  show ?case by (simp add: ifs_ok_def)
qed (rule ifr_step_ok)

text \<open>Both maps always have the same nodes, so that the abort of \<open>editValueFor\<close> is never reached.\<close>

definition ifr_wf :: "InFlightRequest \<Rightarrow> bool" where
  "ifr_wf r \<longleftrightarrow> (\<forall>k. (map_of (mRequestMap_meta r) k = None) = (map_of (mRequestMap_image r) k = None))"

lemma ifr_wf_register: "registerRequest f ns query r = Some r' \<Longrightarrow> ifr_wf r \<Longrightarrow> ifr_wf r'"
  using register_nodes_mono [of f ns query "r\<lparr>mRequest := mRequest r @ [f]\<rparr>" r' WaitAll]
  unfolding registerRequest_def ifr_wf_def by simp

lemma ifr_step_wf: "ifr_step c s s' \<Longrightarrow> ifr_wf (ifs_req s) \<Longrightarrow> ifr_wf (ifs_req s')"
proof (induction rule: ifr_step.induct)
  case (register frameNo vNode query s r)
  then show ?case using ifr_wf_register by simp
qed (auto simp: ifs_wake_def onPipelineFrame_def onPipelineFrame_node_def ifr_wf_def ifr_clear_def split: if_splits)

lemma ifr_reach_wf: "ifr_reach c s \<Longrightarrow> ifr_wf (ifs_req s)"
proof (induction rule: ifr_reach.induct)
  case new
  show ?case by (simp add: ifr_wf_def InFlightRequest_new_def)
qed (rule ifr_step_wf)

lemma node_message_returns: "ifr_wf r \<Longrightarrow> onPipelineFrame_node f n m r \<noteq> None"
  by (auto simp: onPipelineFrame_node_def ifr_wf_def)

section \<open>Properties\<close>

text \<open>C17: unless \<open>clear\<close> is called, a thread that sleeps has to: in every reachable state each
  sleeping waiter still waits for some frame that is not released, and no call of a listener
  function aborts. So no wake-up is lost, whatever the order of the calls.\<close>

theorem no_lost_wakeup:
  assumes "ifr_reach False s"
  shows "list_all (\<lambda>w. must_wait w (ifs_req s)) (ifs_asleep s) \<and>
     onPipelineFrame_node frameNo nodeId message (ifs_req s) \<noteq> None"
proof
  show "list_all (\<lambda>w. must_wait w (ifs_req s)) (ifs_asleep s)"
    using ifr_reach_ok [OF assms] by (simp add: ifs_ok_def list_all_iff)
  show "onPipelineFrame_node frameNo nodeId message (ifs_req s) \<noteq> None"
    by (rule node_message_returns [OF ifr_reach_wf [OF assms]])
qed

definition ex_query :: "NodeId_T \<Rightarrow> MERROR \<times> StreamInfoSet option" where
  "ex_query n = (OK, Some \<lparr>si_metaInfos = [\<lparr>si_streamId = 7, si_streamName = ''m''\<rparr>], si_imageInfos = []\<rparr>)"

definition ex_ifr :: InFlightRequest where
  "ex_ifr = \<lparr>mRequest = [5], mRequestMap_meta = [(1, [5])], mRequestMap_image = [(1, [5])]\<rparr>"

lemma ex_ifr_register: "registerRequest 5 [1] ex_query InFlightRequest_new = Some ex_ifr"
  by code_simp

definition ex_ifs :: ifr_sys where
  "ex_ifs = \<lparr>ifs_req = ex_ifr, ifs_awake = [], ifs_asleep = [WaitMeta 1, WaitAll]\<rparr>"

lemma ex_ifs_reach: "ifr_reach c ex_ifs"
proof -
  let ?s = "\<lambda>r a z. \<lparr>ifs_req = r, ifs_awake = a, ifs_asleep = z\<rparr>"
  have m: "must_wait WaitAll ex_ifr" "must_wait (WaitMeta 1) ex_ifr" by code_simp+
  have "ifr_reach c (?s InFlightRequest_new [] [])" by (rule ifr_reach.new)
  from ifr_reach.step [OF this] register [of 5 "[1]" ex_query "?s InFlightRequest_new [] []" ex_ifr c] ex_ifr_register
  have "ifr_reach c (?s ex_ifr [] [])" by simp
  from ifr_reach.step [OF this] call [of c "?s ex_ifr [] []" WaitAll] have "ifr_reach c (?s ex_ifr [WaitAll] [])" by simp
  from ifr_reach.step [OF this] sleep [of WaitAll "?s ex_ifr [WaitAll] []" c] m(1)
  have "ifr_reach c (?s ex_ifr [] [WaitAll])" by simp
  from ifr_reach.step [OF this] call [of c "?s ex_ifr [] [WaitAll]" "WaitMeta 1"]
  have "ifr_reach c (?s ex_ifr [WaitMeta 1] [WaitAll])" by simp
  from ifr_reach.step [OF this] sleep [of "WaitMeta 1" "?s ex_ifr [WaitMeta 1] [WaitAll]" c] m(2)
  show ?thesis by (simp add: ex_ifs_def)
qed

theorem no_lost_wakeup_witness:
  "list_all (\<lambda>w. must_wait w ex_ifr) [WaitMeta 1, WaitAll] \<and> onPipelineFrame_node 5 1 1 ex_ifr \<noteq> None"
  using no_lost_wakeup [OF ex_ifs_reach, of 5 1 1] by (simp add: ex_ifs_def)

text \<open>\<open>clear\<close> empties the lists and does not wake anyone: afterwards a waiter can sleep
  although nothing is in flight, and no later message wakes it.\<close>

theorem clear_loses_wakeup:
  "\<exists>s. ifr_reach True s \<and> ifs_asleep s \<noteq> [] \<and> list_all (\<lambda>w. \<not> must_wait w (ifs_req s)) (ifs_asleep s) \<and>
     snd (onPipelineFrame f m (ifs_req s)) = False \<and>
     map_option snd (onPipelineFrame_node f n m (ifs_req s)) = Some False"
proof (intro exI conjI)
  let ?s = "ex_ifs\<lparr>ifs_req := ifr_clear ex_ifr\<rparr>"
  show "ifr_reach True ?s"
    using ifr_reach.step [OF ex_ifs_reach clear [of True ex_ifs]] by (simp add: ex_ifs_def)
qed (simp_all add: ex_ifs_def ifr_clear_def ex_ifr_def wait_drained_def wait_node_meta_def onPipelineFrame_def
    onPipelineFrame_node_def)

end
