(* ===== verification/FrameControl.thy ===== *)
theory FrameControl
  imports BufferStore InFlight
begin

text \<open>
  The buffer set of one frame (\<open>mtkcam/pipeline/pipeline/PipelineBufferSetFrameControlImp.cpp\<close>
  and its header). Each of the four item maps has an item per stream; the nodes of the frame
  refer to the same items. When the users of an item have released it the item is handed to
  the collector and its entry in the map becomes null; when a node has released all its
  streams the listeners are told, and when all nodes have, that the frame is released.

  Items are objects shared by the map and the nodes and are named by their position in
  \<open>fr_items\<close>. The outcome of promoting weak pointers and of the client's buffer provider is
  the argument \<open>frame_env\<close> of the calls that use it. What a call tells the application, the
  listeners and the homes of the buffers is its list of events. \<open>None\<close> is an abort.
\<close>

section \<open>State\<close>

abbreviation (input) eBUF_STATUS_ACQUIRE :: nat where "eBUF_STATUS_ACQUIRE \<equiv> 0"
abbreviation (input) eBUF_STATUS_RELEASE :: nat where "eBUF_STATUS_RELEASE \<equiv> 1"
abbreviation (input) eBUF_STATUS_PRODUCERS_RELEASE :: nat where "eBUF_STATUS_PRODUCERS_RELEASE \<equiv> 2"
abbreviation (input) eBUF_STATUS_ACQUIRE_FAILED :: nat where "eBUF_STATUS_ACQUIRE_FAILED \<equiv> 3"

record Item =
  it_map :: map_kind
  it_mBuffer :: "nat option"
  it_mStreamInfo :: IStreamInfo
  it_mUsersManager :: users_ref
  it_mBitStatus :: MUINT32

record TItemMap =
  im_mMap :: "(StreamId_T, nat option) kvec"
  mNonReleasedNum :: int

record ReleasedCollector =
  mHalImageSet_AllUsersReleased :: "nat list"
  mHalMetaSet_AllUsersReleased :: "nat list"
  mAppMetaSetO_ProducersReleased :: "nat list"
  mAppMetaNumO_ProducersInFlight :: int
  mHalMetaSetO_ProducersReleased :: "nat list"
  mHalMetaNumO_ProducersInFlight :: int

record IOSet =
  io_items :: "nat list"
  mNotified :: bool

record NodeStatus =
  mISetImage :: IOSet
  mOSetImage :: IOSet
  mISetMeta :: IOSet
  mOSetMeta :: IOSet

record 'io Frame =
  mFrameNo :: MUINT32
  mRequestNo :: MUINT32
  fr_mListeners :: "(nat \<times> nat) list"
  mpStreamInfoSet :: "nat option"
  mpNodeMap :: "'io FrameNodeMap option"
  mpPipelineNodeMap :: "nat option"
  mpPipelineDAG :: "PipelineDAG option"
  mNodeStatusMap :: "(NodeId_T, NodeStatus) kvec"
  mInFlightNodeCount :: int
  mpReleasedCollector :: ReleasedCollector
  fr_maps :: "map_kind \<Rightarrow> TItemMap"
  fr_items :: "Item list"
  fr_store :: buffer_store

record frame_env =
  env_app :: bool
  env_provider :: bool
  env_listener :: "nat \<Rightarrow> bool"
  env_acquire :: "MUINT32 \<Rightarrow> IStreamInfo \<Rightarrow> MERROR \<times> nat option"

record AppResult =
  nAppOutMetaLeft :: int
  vAppOutMeta :: "nat list"
  nHalOutMetaLeft :: int
  vHalOutMeta :: "nat list"
  bFrameEnd :: bool

datatype frame_event =
    UpdateFrame MUINT32 UserId_T AppResult
  | BufferReturned nat MUINT32
  | NodeMessage nat nat MUINT32 NodeId_T MUINT32
  | FrameMessage nat nat MUINT32 MUINT32

text \<open>The two numbers of the collector are not initialised before the configuration ends.\<close>

definition ReleasedCollector_new :: "int \<Rightarrow> int \<Rightarrow> ReleasedCollector" where
  "ReleasedCollector_new a h = \<lparr>mHalImageSet_AllUsersReleased = [], mHalMetaSet_AllUsersReleased = [],
     mAppMetaSetO_ProducersReleased = [], mAppMetaNumO_ProducersInFlight = a,
     mHalMetaSetO_ProducersReleased = [], mHalMetaNumO_ProducersInFlight = h\<rparr>"

definition Frame_new :: "MUINT32 \<Rightarrow> MUINT32 \<Rightarrow> int \<Rightarrow> int \<Rightarrow> buffer_store \<Rightarrow> 'io Frame" where
  "Frame_new requestNo frameNo a h st =
     \<lparr>mFrameNo = frameNo, mRequestNo = requestNo, fr_mListeners = [], mpStreamInfoSet = None, mpNodeMap = None,
      mpPipelineNodeMap = None, mpPipelineDAG = None, mNodeStatusMap = [], mInFlightNodeCount = 0,
      mpReleasedCollector = ReleasedCollector_new a h,
      fr_maps = (\<lambda>_. \<lparr>im_mMap = [], mNonReleasedNum = 0\<rparr>), fr_items = [], fr_store = st\<rparr>"

text \<open>\<open>create\<close> refuses a null node callback.\<close>

definition frame_create ::
    "MUINT32 \<Rightarrow> MUINT32 \<Rightarrow> nat option \<Rightarrow> int \<Rightarrow> int \<Rightarrow> buffer_store \<Rightarrow> 'io Frame option" where
  "frame_create requestNo frameNo pNodeCallback a h st =
     (if pNodeCallback = None then None else Some (Frame_new requestNo frameNo a h st))"

definition edit_item :: "nat \<Rightarrow> (Item \<Rightarrow> Item) \<Rightarrow> 'io Frame \<Rightarrow> 'io Frame" where
  "edit_item i g f = f\<lparr>fr_items := (fr_items f)[i := g (fr_items f ! i)]\<rparr>"

definition edit_map :: "map_kind \<Rightarrow> (TItemMap \<Rightarrow> TItemMap) \<Rightarrow> 'io Frame \<Rightarrow> 'io Frame" where
  "edit_map k g f = f\<lparr>fr_maps := (fr_maps f)(k := g (fr_maps f k))\<rparr>"

definition item_mark :: "nat \<Rightarrow> nat \<Rightarrow> 'io Frame \<Rightarrow> 'io Frame" where
  "item_mark n i f = edit_item i (it_mBitStatus_update (bs_markBit n)) f"

definition item_has :: "nat \<Rightarrow> nat \<Rightarrow> 'io Frame \<Rightarrow> bool" where
  "item_has n i f = bs_hasBit n (it_mBitStatus (fr_items f ! i))"

definition item_um :: "'io Frame \<Rightarrow> nat \<Rightarrow> UsersManager" where
  "item_um f i = um_of (fr_store f) (it_mUsersManager (fr_items f ! i))"

section \<open>Items\<close>

definition Item_new :: "map_kind \<Rightarrow> nat option \<Rightarrow> IStreamInfo \<Rightarrow> users_ref \<Rightarrow> Item" where
  "Item_new k pStreamBuffer pStreamInfo pUsersManager =
     \<lparr>it_map = k, it_mBuffer = pStreamBuffer, it_mStreamInfo = pStreamInfo, it_mUsersManager = pUsersManager,
      it_mBitStatus = (if pStreamBuffer \<noteq> None then bs_markBit eBUF_STATUS_ACQUIRE 0 else 0)\<rparr>"

definition map_put :: "map_kind \<Rightarrow> StreamId_T \<Rightarrow> Item \<Rightarrow> 'io Frame \<Rightarrow> int \<times> 'io Frame" where
  "map_put k streamId it f =
     (let m = kv_add streamId (Some (length (fr_items f))) (im_mMap (fr_maps f k)) in
      (case kv_index m streamId of None \<Rightarrow> - 1 | Some i \<Rightarrow> int i,
       edit_map k (\<lambda>_. \<lparr>im_mMap = m, mNonReleasedNum = mNonReleasedNum (fr_maps f k) + 1\<rparr>)
         (f\<lparr>fr_items := fr_items f @ [it]\<rparr>)))"

text \<open>\<open>add\<close> with a stream and a manager (a new one for null), and with a buffer.\<close>

definition map_add_info :: "map_kind \<Rightarrow> IStreamInfo \<Rightarrow> nat option \<Rightarrow> 'io Frame \<Rightarrow> int \<times> 'io Frame" where
  "map_add_info k pStreamInfo pUsersManager f =
     (let streamId = si_streamId pStreamInfo in
      case pUsersManager of
        Some m \<Rightarrow> map_put k streamId (Item_new k None pStreamInfo (Users m)) f
      | None \<Rightarrow>
          let st = fr_store f;
              um = UsersManager_new streamId (si_streamName pStreamInfo);
              f1 = f\<lparr>fr_store := st\<lparr>st_managers := st_managers st @ [um]\<rparr>\<rparr>
          in map_put k streamId (Item_new k None pStreamInfo (Users (length (st_managers st)))) f1)"

definition map_add_buffer :: "map_kind \<Rightarrow> nat option \<Rightarrow> 'io Frame \<Rightarrow> int \<times> 'io Frame" where
  "map_add_buffer k value f =
     (case value of
        None \<Rightarrow> (BAD_VALUE, f)
      | Some b \<Rightarrow>
          let info = mStreamInfo (sbf_imp (st_buffers (fr_store f) ! b))
          in map_put k (si_streamId info) (Item_new k (Some b) info (BufferUsers b)) f)"

text \<open>\<open>usersManagerAt\<close> of an entry dereferences the item, which is null once it is released.\<close>

definition usersManagerAt :: "map_kind \<Rightarrow> nat \<Rightarrow> 'io Frame \<Rightarrow> users_ref option" where
  "usersManagerAt k index f =
     (if index < length (im_mMap (fr_maps f k))
      then map_option (\<lambda>i. it_mUsersManager (fr_items f ! i)) (snd (im_mMap (fr_maps f k) ! index))
      else None)"

definition collect_all_released :: "nat \<Rightarrow> 'io Frame \<Rightarrow> 'io Frame" where
  "collect_all_released i f =
     (let it = fr_items f ! i; c = mpReleasedCollector f in
      case (it_map it, it_mBuffer it) of
        (HalImage, Some b) \<Rightarrow> f\<lparr>mpReleasedCollector := c\<lparr>mHalImageSet_AllUsersReleased := mHalImageSet_AllUsersReleased c @ [b]\<rparr>\<rparr>
      | (HalMeta, Some b) \<Rightarrow> f\<lparr>mpReleasedCollector := c\<lparr>mHalMetaSet_AllUsersReleased := mHalMetaSet_AllUsersReleased c @ [b]\<rparr>\<rparr>
      | _ \<Rightarrow> f)"

definition map_onAllUsersReleased :: "nat \<Rightarrow> 'io Frame \<Rightarrow> 'io Frame option" where
  "map_onAllUsersReleased i f =
     (let it = fr_items f ! i; k = it_map it; streamId = si_streamId (it_mStreamInfo it) in
      case map_of (im_mMap (fr_maps f k)) streamId of
        None \<Rightarrow> None
      | Some None \<Rightarrow> Some f
      | Some (Some _) \<Rightarrow>
          Some (edit_map k (\<lambda>m. \<lparr>im_mMap = kv_edit streamId (\<lambda>_. None) (im_mMap m),
                                 mNonReleasedNum = mNonReleasedNum m - 1\<rparr>)
            (collect_all_released i f)))"

definition handleAllUsersReleased :: "nat \<Rightarrow> 'io Frame \<Rightarrow> 'io Frame option" where
  "handleAllUsersReleased i f =
     (if item_has eBUF_STATUS_RELEASE i f then Some f
      else map_onAllUsersReleased i (item_mark eBUF_STATUS_RELEASE i f))"

definition map_onProducersReleased :: "nat \<Rightarrow> 'io Frame \<Rightarrow> 'io Frame" where
  "map_onProducersReleased i f =
     (let it = fr_items f ! i; c = mpReleasedCollector f;
          bs = (case it_mBuffer it of None \<Rightarrow> [] | Some b \<Rightarrow> [b]) in
      if 0 < getNumberOfProducers (item_um f i)
      then (case it_map it of
              HalMeta \<Rightarrow> f\<lparr>mpReleasedCollector := c\<lparr>
                mHalMetaNumO_ProducersInFlight := mHalMetaNumO_ProducersInFlight c - 1,
                mHalMetaSetO_ProducersReleased := mHalMetaSetO_ProducersReleased c @ bs\<rparr>\<rparr>
            | AppMeta \<Rightarrow> f\<lparr>mpReleasedCollector := c\<lparr>
                mAppMetaNumO_ProducersInFlight := mAppMetaNumO_ProducersInFlight c - 1,
                mAppMetaSetO_ProducersReleased := mAppMetaSetO_ProducersReleased c @ bs\<rparr>\<rparr>
            | _ \<Rightarrow> f)
      else f)"

definition handleProducersReleased :: "nat \<Rightarrow> 'io Frame \<Rightarrow> 'io Frame" where
  "handleProducersReleased i f =
     (if item_has eBUF_STATUS_PRODUCERS_RELEASE i f then f
      else map_onProducersReleased i (item_mark eBUF_STATUS_PRODUCERS_RELEASE i f))"

section \<open>Configuration\<close>

definition attachListener :: "nat \<Rightarrow> nat \<Rightarrow> 'io Frame \<Rightarrow> MERROR \<times> 'io Frame" where
  "attachListener pListener pCookie f = (OK, f\<lparr>fr_mListeners := fr_mListeners f @ [(pListener, pCookie)]\<rparr>)"

definition setNodeMap :: "'io FrameNodeMap option \<Rightarrow> 'io Frame \<Rightarrow> MERROR \<times> 'io Frame" where
  "setNodeMap value f =
     (case value of
        None \<Rightarrow> (BAD_VALUE, f)
      | Some m \<Rightarrow> if fnm_isEmpty m then (BAD_VALUE, f) else (OK, f\<lparr>mpNodeMap := Some m\<rparr>))"

text \<open>The pipeline's node map: its address and whether it is empty.\<close>

definition setPipelineNodeMap :: "(nat \<times> bool) option \<Rightarrow> 'io Frame \<Rightarrow> MERROR \<times> 'io Frame" where
  "setPipelineNodeMap value f =
     (case value of
        None \<Rightarrow> (BAD_VALUE, f)
      | Some (p, isEmpty) \<Rightarrow> if isEmpty then (BAD_VALUE, f) else (OK, f\<lparr>mpPipelineNodeMap := Some p\<rparr>))"

definition setPipelineDAG :: "PipelineDAG option \<Rightarrow> 'io Frame \<Rightarrow> MERROR \<times> 'io Frame" where
  "setPipelineDAG value f = (if value = None then (BAD_VALUE, f) else (OK, f\<lparr>mpPipelineDAG := value\<rparr>))"

definition setStreamInfoSet :: "nat option \<Rightarrow> 'io Frame \<Rightarrow> MERROR \<times> 'io Frame" where
  "setStreamInfoSet value f = (if value = None then (BAD_VALUE, f) else (OK, f\<lparr>mpStreamInfoSet := value\<rparr>))"

definition queryIOStreamInfoSet ::
    "NodeId_T \<Rightarrow> 'io Frame \<Rightarrow> MERROR \<times> StreamInfoSet option \<times> StreamInfoSet option" where
  "queryIOStreamInfoSet nodeId f =
     (case mpNodeMap f of
        None \<Rightarrow> (NO_INIT, None, None)
      | Some m \<Rightarrow>
          case getNodeFor nodeId m of
            None \<Rightarrow> (NAME_NOT_FOUND, None, None)
          | Some n \<Rightarrow>
              (if mIStreams n = None \<or> mOStreams n = None then NO_INIT else OK, mIStreams n, mOStreams n))"

definition queryInfoIOMapSet :: "NodeId_T \<Rightarrow> 'io Frame \<Rightarrow> MERROR \<times> 'io list option" where
  "queryInfoIOMapSet nodeId f =
     (case mpNodeMap f of
        None \<Rightarrow> (NO_INIT, None)
      | Some m \<Rightarrow> (case getNodeFor nodeId m of None \<Rightarrow> (NAME_NOT_FOUND, None) | Some n \<Rightarrow> (OK, Some (mIOMapSet n))))"

definition getMapItemLocked :: "StreamId_T \<Rightarrow> map_kind \<Rightarrow> 'io Frame \<Rightarrow> nat option" where
  "getMapItemLocked streamId k f =
     (case map_of (im_mMap (fr_maps f k)) streamId of Some (Some i) \<Rightarrow> Some i | _ \<Rightarrow> None)"

definition getMetaMapItemLocked :: "StreamId_T \<Rightarrow> 'io Frame \<Rightarrow> nat option" where
  "getMetaMapItemLocked streamId f =
     (case getMapItemLocked streamId HalMeta f of Some i \<Rightarrow> Some i | None \<Rightarrow> getMapItemLocked streamId AppMeta f)"

definition getImageMapItemLocked :: "StreamId_T \<Rightarrow> 'io Frame \<Rightarrow> nat option" where
  "getImageMapItemLocked streamId f =
     (case getMapItemLocked streamId HalImage f of Some i \<Rightarrow> Some i | None \<Rightarrow> getMapItemLocked streamId AppImage f)"

text \<open>The number of entries with a producer; a null entry is a fault.\<close>

fun count_producers :: "nat option list \<Rightarrow> 'io Frame \<Rightarrow> int option" where
  "count_producers [] f = Some 0"
| "count_producers (None # is) f = None"
| "count_producers (Some i # is) f = do {
     n \<leftarrow> count_producers is f;
     Some (if 0 < getNumberOfProducers (item_um f i) then n + 1 else n)
   }"

definition collector_finishConfiguration :: "'io Frame \<Rightarrow> 'io Frame option" where
  "collector_finishConfiguration f = do {
     a \<leftarrow> count_producers (map snd (im_mMap (fr_maps f AppMeta))) f;
     h \<leftarrow> count_producers (map snd (im_mMap (fr_maps f HalMeta))) f;
     Some (f\<lparr>mpReleasedCollector := (mpReleasedCollector f)\<lparr>
       mAppMetaNumO_ProducersInFlight := a, mHalMetaNumO_ProducersInFlight := h\<rparr>\<rparr>)
   }"

text \<open>The items of a list of streams; a stream without an item is fatal.\<close>

fun find_items :: "(StreamId_T \<Rightarrow> nat option) \<Rightarrow> IStreamInfo list \<Rightarrow> nat list option" where
  "find_items item [] = Some []"
| "find_items item (s # ss) = do { i \<leftarrow> item (si_streamId s); is \<leftarrow> find_items item ss; Some (i # is) }"

definition make_NodeStatus :: "'io NodeInfo \<Rightarrow> 'io Frame \<Rightarrow> NodeStatus option" where
  "make_NodeStatus n f = do {
     ins \<leftarrow> mIStreams n;
     im \<leftarrow> find_items (\<lambda>s. getMetaMapItemLocked s f) (si_metaInfos ins);
     ii \<leftarrow> find_items (\<lambda>s. getImageMapItemLocked s f) (si_imageInfos ins);
     outs \<leftarrow> mOStreams n;
     om \<leftarrow> find_items (\<lambda>s. getMetaMapItemLocked s f) (si_metaInfos outs);
     oi \<leftarrow> find_items (\<lambda>s. getImageMapItemLocked s f) (si_imageInfos outs);
     Some \<lparr>mISetImage = \<lparr>io_items = ii, mNotified = False\<rparr>, mOSetImage = \<lparr>io_items = oi, mNotified = False\<rparr>,
           mISetMeta = \<lparr>io_items = im, mNotified = False\<rparr>, mOSetMeta = \<lparr>io_items = om, mNotified = False\<rparr>\<rparr>
   }"

definition node_empty :: "NodeStatus \<Rightarrow> bool" where
  "node_empty s \<longleftrightarrow> io_items (mOSetImage s) = [] \<and> io_items (mISetImage s) = [] \<and>
     io_items (mOSetMeta s) = [] \<and> io_items (mISetMeta s) = []"

fun configure_nodes :: "'io NodeInfo list \<Rightarrow> 'io Frame \<Rightarrow> 'io Frame option" where
  "configure_nodes [] f = Some f"
| "configure_nodes (n # ns) f = do {
     s \<leftarrow> make_NodeStatus n f;
     configure_nodes ns
       (if \<not> node_empty s
        then f\<lparr>mNodeStatusMap := kv_add (mNodeId n) s (mNodeStatusMap f), mInFlightNodeCount := mInFlightNodeCount f + 1\<rparr>
        else f)
   }"

definition finishConfiguration :: "'io Frame \<Rightarrow> (MERROR \<times> 'io Frame) option" where
  "finishConfiguration f =
     (case mpNodeMap f of
        None \<Rightarrow> Some (NO_INIT, f)
      | Some m \<Rightarrow>
          if fnm_isEmpty m \<or> mpStreamInfoSet f = None \<or> mpPipelineDAG f = None \<or> mpPipelineNodeMap f = None
          then Some (NO_INIT, f)
          else do {
            f1 \<leftarrow> collector_finishConfiguration f;
            f2 \<leftarrow> configure_nodes (map snd m) f1;
            Some (OK, f2)
          })"

section \<open>The interface of a buffer set\<close>

fun find_kind :: "map_kind list \<Rightarrow> StreamId_T \<Rightarrow> 'io Frame \<Rightarrow> map_kind option" where
  "find_kind [] streamId f = None"
| "find_kind (k # ks) streamId f =
     (if map_of (im_mMap (fr_maps f k)) streamId \<noteq> None then Some k else find_kind ks streamId f)"

text \<open>\<open>None\<close> is the fault at a released item; \<open>Some None\<close> says that there is no such stream.\<close>

definition findSubjectUsersLocked :: "StreamId_T \<Rightarrow> 'io Frame \<Rightarrow> users_ref option option" where
  "findSubjectUsersLocked streamId f =
     (case find_kind [AppImage, AppMeta, HalImage, HalMeta] streamId f of
        None \<Rightarrow> Some None
      | Some k \<Rightarrow>
          (case kv_index (im_mMap (fr_maps f k)) streamId of
             None \<Rightarrow> None
           | Some index \<Rightarrow> map_option Some (usersManagerAt k index f)))"

definition frame_markUserStatus :: "StreamId_T \<Rightarrow> UserId_T \<Rightarrow> MUINT32 \<Rightarrow> 'io Frame \<Rightarrow> (MUINT32 \<times> 'io Frame) option" where
  "frame_markUserStatus streamId userId eStatus f = do {
     pSubjectUsers \<leftarrow> findSubjectUsersLocked streamId f;
     (case pSubjectUsers of
        None \<Rightarrow> Some (word_of_int NAME_NOT_FOUND, f)
      | Some r \<Rightarrow> do {
          (result, st) \<leftarrow> users_markUserStatus r userId eStatus (fr_store f);
          Some (result, f\<lparr>fr_store := st\<rparr>)
        })
   }"

definition frame_setUserReleaseFence :: "StreamId_T \<Rightarrow> UserId_T \<Rightarrow> int \<Rightarrow> 'io Frame \<Rightarrow> (MERROR \<times> 'io Frame) option" where
  "frame_setUserReleaseFence streamId userId releaseFence f = do {
     pSubjectUsers \<leftarrow> findSubjectUsersLocked streamId f;
     (case pSubjectUsers of
        None \<Rightarrow> Some (NAME_NOT_FOUND, f)
      | Some r \<Rightarrow> let (e, st) = users_setUserReleaseFence r userId releaseFence (fr_store f)
                 in Some (e, f\<lparr>fr_store := st\<rparr>))
   }"

definition frame_queryGroupUsage :: "StreamId_T \<Rightarrow> UserId_T \<Rightarrow> 'io Frame \<Rightarrow> MUINT32 option" where
  "frame_queryGroupUsage streamId userId f = do {
     pSubjectUsers \<leftarrow> findSubjectUsersLocked streamId f;
     Some (case pSubjectUsers of None \<Rightarrow> 0 | Some r \<Rightarrow> queryGroupUsage (um_of (fr_store f) r) userId)
   }"

definition frame_createAcquireFence ::
    "'k sync_kernel \<Rightarrow> StreamId_T \<Rightarrow> UserId_T \<Rightarrow> 'io Frame \<Rightarrow> 'k \<Rightarrow> (int \<times> 'k) option" where
  "frame_createAcquireFence K streamId userId f k = do {
     pSubjectUsers \<leftarrow> findSubjectUsersLocked streamId f;
     (case pSubjectUsers of None \<Rightarrow> Some (- 1, k) | Some r \<Rightarrow> createAcquireFence K (um_of (fr_store f) r) userId k)
   }"

subsection \<open>Getting a buffer\<close>

definition mark_item_user :: "nat \<Rightarrow> UserId_T \<Rightarrow> MUINT32 \<Rightarrow> 'io Frame \<Rightarrow> 'io Frame option" where
  "mark_item_user i userId eStatus f = do {
     (r, st) \<leftarrow> users_markUserStatus (it_mUsersManager (fr_items f ! i)) userId eStatus (fr_store f);
     Some (f\<lparr>fr_store := st\<rparr>)
   }"

text \<open>Only a HAL image can be acquired from the provider.\<close>

definition acquireStreamBuffer ::
    "frame_env \<Rightarrow> map_kind \<Rightarrow> UserId_T \<Rightarrow> nat \<Rightarrow> 'io Frame \<Rightarrow> (MERROR \<times> 'io Frame) option" where
  "acquireStreamBuffer env k userId i f =
     (if k \<noteq> HalImage then Some (INVALID_OPERATION, f)
      else
        let (err, b) = env_acquire env (mRequestNo f) (it_mStreamInfo (fr_items f ! i));
            f1 = edit_item i (it_mBuffer_update (\<lambda>_. b)) f
        in (case (if err = OK then b else None) of
              Some buf \<Rightarrow>
                Some (err, item_mark eBUF_STATUS_ACQUIRE i
                  (f1\<lparr>fr_store := store_setUsersManager buf (it_mUsersManager (fr_items f1 ! i)) (fr_store f1)\<rparr>))
            | None \<Rightarrow> do {
                f2 \<leftarrow> mark_item_user i userId RELEASE (item_mark eBUF_STATUS_ACQUIRE_FAILED i f1);
                Some (err, f2)
              }))"

definition getBufferLockedImp ::
    "frame_env \<Rightarrow> StreamId_T \<Rightarrow> UserId_T \<Rightarrow> map_kind \<Rightarrow> 'io Frame \<Rightarrow> (nat option \<times> 'io Frame) option" where
  "getBufferLockedImp env streamId userId k f =
     (if mNonReleasedNum (fr_maps f k) = 0 then Some (None, f)
      else case getMapItemLocked streamId k f of
        None \<Rightarrow> Some (None, f)
      | Some i \<Rightarrow>
          if item_has eBUF_STATUS_ACQUIRE i f then Some (it_mBuffer (fr_items f ! i), f)
          else if item_has eBUF_STATUS_ACQUIRE_FAILED i f
          then do { f1 \<leftarrow> mark_item_user i userId RELEASE f; Some (None, f1) }
          else if it_mBuffer (fr_items f ! i) \<noteq> None then None
          else if \<not> env_provider env then Some (None, f)
          else do {
            (err, f1) \<leftarrow> acquireStreamBuffer env k userId i f;
            if err \<noteq> OK \<or> it_mBuffer (fr_items f1 ! i) = None
            then Some (None, edit_item i (it_mBuffer_update (\<lambda>_. None)) f1)
            else Some (it_mBuffer (fr_items f1 ! i), f1)
          })"

definition getBufferLocked ::
    "frame_env \<Rightarrow> StreamId_T \<Rightarrow> UserId_T \<Rightarrow> map_kind \<Rightarrow> 'io Frame \<Rightarrow> (nat option \<times> 'io Frame) option" where
  "getBufferLocked env streamId userId k f = do {
     (pBuffer, f1) \<leftarrow> getBufferLockedImp env streamId userId k f;
     (case pBuffer of
        None \<Rightarrow> Some (None, f1)
      | Some b \<Rightarrow>
          let um = um_of (fr_store f1) (BufferUsers b) in
          if haveAllUsersReleased um = OK then Some (None, f1)
          else do {
            e \<leftarrow> haveAllUsersReleasedOrPreReleased um userId;
            Some (if e \<noteq> OK then None else Some b, f1)
          })
   }"

definition getBuffer2 ::
    "map_kind \<Rightarrow> map_kind \<Rightarrow> frame_env \<Rightarrow> StreamId_T \<Rightarrow> UserId_T \<Rightarrow> 'io Frame \<Rightarrow> (nat option \<times> 'io Frame) option" where
  "getBuffer2 k1 k2 env streamId userId f = do {
     (p, f1) \<leftarrow> getBufferLocked env streamId userId k1 f;
     if p \<noteq> None then Some (p, f1) else getBufferLocked env streamId userId k2 f1
   }"

definition getMetaBuffer :: "frame_env \<Rightarrow> StreamId_T \<Rightarrow> UserId_T \<Rightarrow> 'io Frame \<Rightarrow> (nat option \<times> 'io Frame) option" where
  "getMetaBuffer = getBuffer2 HalMeta AppMeta"

definition getImageBuffer :: "frame_env \<Rightarrow> StreamId_T \<Rightarrow> UserId_T \<Rightarrow> 'io Frame \<Rightarrow> (nat option \<times> 'io Frame) option" where
  "getImageBuffer = getBuffer2 HalImage AppImage"

subsection \<open>Releasing\<close>

text \<open>\<open>updateNodeStatus\<close>: the remaining items of the set, and the frame.\<close>

fun update_items :: "NodeId_T \<Rightarrow> nat list \<Rightarrow> 'io Frame \<Rightarrow> (nat list \<times> 'io Frame) option" where
  "update_items nodeId [] f = Some ([], f)"
| "update_items nodeId (i # is) f =
     (let f1 = (if haveAllProducerUsersReleased (item_um f i) = OK then handleProducersReleased i f else f) in
      if getUserStatus (item_um f1 i) nodeId AND RELEASE = 0
      then do { (rest, f2) \<leftarrow> update_items nodeId is f1; Some (i # rest, f2) }
      else do {
        f2 \<leftarrow> (if haveAllUsersReleased (item_um f1 i) = OK then handleAllUsersReleased i f1 else Some f1);
        update_items nodeId is f2
      })"

definition updateNodeStatus :: "NodeId_T \<Rightarrow> IOSet \<Rightarrow> 'io Frame \<Rightarrow> (bool \<times> IOSet \<times> 'io Frame) option" where
  "updateNodeStatus nodeId rIOSet f =
     (if mNotified rIOSet then Some (False, rIOSet, f)
      else do {
        (is, f1) \<leftarrow> update_items nodeId (io_items rIOSet) f;
        Some (is = [], \<lparr>io_items = is, mNotified = (is = [])\<rparr>, f1)
      })"

text \<open>\<open>NodeStatusUpdater::run\<close>: whether anything was updated, and the set of messages.\<close>

definition updater_run :: "NodeId_T \<Rightarrow> 'io Frame \<Rightarrow> (bool \<times> MUINT32 \<times> 'io Frame) option" where
  "updater_run nodeId f =
     (case map_of (mNodeStatusMap f) nodeId of
        None \<Rightarrow> Some (False, 0, f)
      | Some s \<Rightarrow> do {
          (u1, oi, f1) \<leftarrow> updateNodeStatus nodeId (mOSetImage s) f;
          (u2, ii, f2) \<leftarrow> updateNodeStatus nodeId (mISetImage s) f1;
          (u3, om, f3) \<leftarrow> updateNodeStatus nodeId (mOSetMeta s) f2;
          (u4, im, f4) \<leftarrow> updateNodeStatus nodeId (mISetMeta s) f3;
          let s' = \<lparr>mISetImage = ii, mOSetImage = oi, mISetMeta = im, mOSetMeta = om\<rparr>;
              isAnyUpdate = (u1 \<or> u2 \<or> u3 \<or> u4);
              updated = (if u3 then bs_markBit (unat eMSG_ALL_OUT_META_BUFFERS_RELEASED) else id)
                 ((if u1 then bs_markBit (unat eMSG_ALL_OUT_IMAGE_BUFFERS_RELEASED) else id) 0);
              f5 = f4\<lparr>mNodeStatusMap := kv_edit nodeId (\<lambda>_. s') (mNodeStatusMap f4)\<rparr>
          in Some (isAnyUpdate, updated,
               if isAnyUpdate \<and> node_empty s' then f5\<lparr>mInFlightNodeCount := mInFlightNodeCount f5 - 1\<rparr> else f5)
        })"

text \<open>The part of \<open>applyRelease\<close> under the locks.\<close>

definition applyRelease_update :: "NodeId_T \<Rightarrow> 'io Frame \<Rightarrow> (MUINT32 \<times> 'io Frame) option" where
  "applyRelease_update nodeId f = do {
     (isAnyUpdate, updated, f1) \<leftarrow> updater_run nodeId f;
     Some (if isAnyUpdate \<and> mInFlightNodeCount f1 = 0
           then (bs_markBit (unat eMSG_FRAME_RELEASED) updated, f1\<lparr>mpStreamInfoSet := None\<rparr>)
           else (updated, f1))
   }"

text \<open>What is taken out of the collector: the two lists of buffers to release and the result.\<close>

definition take_collected :: "'io Frame \<Rightarrow> nat list \<times> nat list \<times> AppResult \<times> 'io Frame" where
  "take_collected f =
     (let c = mpReleasedCollector f in
      (mHalImageSet_AllUsersReleased c, mHalMetaSet_AllUsersReleased c,
       \<lparr>nAppOutMetaLeft = mAppMetaNumO_ProducersInFlight c, vAppOutMeta = mAppMetaSetO_ProducersReleased c,
        nHalOutMetaLeft = mHalMetaNumO_ProducersInFlight c, vHalOutMeta = mHalMetaSetO_ProducersReleased c,
        bFrameEnd = False\<rparr>,
       f\<lparr>mpReleasedCollector := c\<lparr>mHalImageSet_AllUsersReleased := [], mHalMetaSet_AllUsersReleased := [],
         mAppMetaSetO_ProducersReleased := [], mHalMetaSetO_ProducersReleased := []\<rparr>\<rparr>))"

fun release_buffers :: "nat list \<Rightarrow> 'io Frame \<Rightarrow> frame_event list \<times> 'io Frame" where
  "release_buffers [] f = ([], f)"
| "release_buffers (b # bs) f =
     (let (e, st) = store_releaseBuffer b (fr_store f);
          (es, f1) = release_buffers bs (f\<lparr>fr_store := st\<rparr>)
      in ((case e of None \<Rightarrow> [] | Some status \<Rightarrow> [BufferReturned b status]) @ es, f1))"

definition handleReleasedBuffers :: "frame_env \<Rightarrow> UserId_T \<Rightarrow> 'io Frame \<Rightarrow> frame_event list \<times> 'io Frame" where
  "handleReleasedBuffers env userId f =
     (let (images, metas, result, f1) = take_collected f;
          (es1, f2) = release_buffers images f1;
          (es2, f3) = release_buffers metas f2
      in ((if env_app env then [UpdateFrame (mRequestNo f) userId result] else []) @ es1 @ es2, f3))"

definition notify_listeners ::
    "frame_env \<Rightarrow> NodeId_T \<Rightarrow> MUINT32 \<Rightarrow> (nat \<times> nat) list \<Rightarrow> MUINT32 \<Rightarrow> frame_event list" where
  "notify_listeners env nodeId updated listeners frameNo =
     concat (map (\<lambda>(p, cookie).
       if \<not> env_listener env p then []
       else
         (if bs_hasBit (unat eMSG_ALL_OUT_META_BUFFERS_RELEASED) updated
          then [NodeMessage p cookie frameNo nodeId eMSG_ALL_OUT_META_BUFFERS_RELEASED] else []) @
         (if bs_hasBit (unat eMSG_ALL_OUT_IMAGE_BUFFERS_RELEASED) updated
          then [NodeMessage p cookie frameNo nodeId eMSG_ALL_OUT_IMAGE_BUFFERS_RELEASED] else []) @
         (if bs_hasBit (unat eMSG_FRAME_RELEASED) updated
          then [FrameMessage p cookie frameNo eMSG_FRAME_RELEASED] else [])) listeners)"

definition applyRelease :: "frame_env \<Rightarrow> UserId_T \<Rightarrow> 'io Frame \<Rightarrow> (frame_event list \<times> 'io Frame) option" where
  "applyRelease env userId f = do {
     (updated, f1) \<leftarrow> applyRelease_update userId f;
     let listeners = (if updated \<noteq> 0 then fr_mListeners f1 else []);
         (es, f2) = handleReleasedBuffers env userId f1
     in Some (es @ (if updated \<noteq> 0 then notify_listeners env userId updated listeners (mFrameNo f2) else []), f2)
   }"

text \<open>\<open>applyPreRelease\<close> takes the lists of buffers too, and drops them.\<close>

definition applyPreRelease :: "frame_env \<Rightarrow> UserId_T \<Rightarrow> 'io Frame \<Rightarrow> frame_event list \<times> 'io Frame" where
  "applyPreRelease env userId f =
     (let (images, metas, result, f1) = take_collected f
      in (if env_app env then [UpdateFrame (mRequestNo f) userId result] else [], f1))"

definition onLastStrongRef :: "frame_env \<Rightarrow> 'io Frame \<Rightarrow> frame_event list" where
  "onLastStrongRef env f =
     (if env_app env
      then [UpdateFrame (mRequestNo f) 0 \<lparr>nAppOutMetaLeft = 0, vAppOutMeta = [], nHalOutMetaLeft = 0, vHalOutMeta = [],
              bFrameEnd = True\<rparr>]
      else [])"

end
