(* ===== verification/FrameSteps.thy ===== *)
theory FrameSteps
  imports FrameControl
begin

text \<open>
  What the steps of a frame change. \<open>same_frame\<close> relates frames that agree in everything that
  is fixed once a frame is configured; \<open>frame_wf\<close> is the part of the invariant that depends
  on nothing else. \<open>upd\<close> relates the frame before and after updates under the lock, which
  leave the users alone: an entry of a map disappears only when all its users have released.
\<close>

section \<open>The fixed part of a frame\<close>

definition item_static :: "Item \<Rightarrow> Item" where
  "item_static it = it\<lparr>it_mBitStatus := 0\<rparr>"

definition item_ref :: "'io Frame \<Rightarrow> nat \<Rightarrow> users_ref" where
  "item_ref f i = it_mUsersManager (fr_items f ! i)"

definition item_mgr :: "'io Frame \<Rightarrow> nat \<Rightarrow> nat" where
  "item_mgr f i = manager_of (fr_store f) (item_ref f i)"

definition item_sid :: "'io Frame \<Rightarrow> nat \<Rightarrow> StreamId_T" where
  "item_sid f i = si_streamId (it_mStreamInfo (fr_items f ! i))"

definition item_kind :: "'io Frame \<Rightarrow> nat \<Rightarrow> map_kind" where
  "item_kind f i = it_map (fr_items f ! i)"

definition item_buf :: "'io Frame \<Rightarrow> nat \<Rightarrow> nat option" where
  "item_buf f i = it_mBuffer (fr_items f ! i)"

definition entry :: "'io Frame \<Rightarrow> nat \<Rightarrow> nat option option" where
  "entry f i = map_of (im_mMap (fr_maps f (item_kind f i))) (item_sid f i)"

abbreviation n_items :: "'io Frame \<Rightarrow> nat" where
  "n_items f \<equiv> length (fr_items f)"

definition same_frame :: "'io Frame \<Rightarrow> 'io Frame \<Rightarrow> bool" where
  "same_frame f f' \<longleftrightarrow>
     map item_static (fr_items f') = map item_static (fr_items f) \<and>
     (\<forall>k. kv_keys (im_mMap (fr_maps f' k)) = kv_keys (im_mMap (fr_maps f k))) \<and>
     (\<forall>q. manager_of (fr_store f') q = manager_of (fr_store f) q) \<and>
     length (st_managers (fr_store f')) = length (st_managers (fr_store f)) \<and>
     fr_mListeners f' = fr_mListeners f \<and> mFrameNo f' = mFrameNo f"

lemma same_frame_refl [simp]: "same_frame f f"
  by (simp add: same_frame_def)

lemma same_frame_trans: "same_frame f g \<Longrightarrow> same_frame g h \<Longrightarrow> same_frame f h"
  by (simp add: same_frame_def)

lemma item_static_sel [simp]:
  "it_map (item_static it) = it_map it" "it_mBuffer (item_static it) = it_mBuffer it"
  "it_mStreamInfo (item_static it) = it_mStreamInfo it" "it_mUsersManager (item_static it) = it_mUsersManager it"
  by (simp_all add: item_static_def)

lemma same_frame_n: "same_frame f f' \<Longrightarrow> n_items f' = n_items f"
  unfolding same_frame_def by (metis length_map)

lemma same_frame_static: "same_frame f f' \<Longrightarrow> i < n_items f \<Longrightarrow> item_static (fr_items f' ! i) = item_static (fr_items f ! i)"
  using same_frame_n unfolding same_frame_def by (metis nth_map)

lemma same_frame_item:
  assumes "same_frame f f'" and "i < n_items f"
  shows "item_kind f' i = item_kind f i" and "item_sid f' i = item_sid f i" and "item_ref f' i = item_ref f i"
    and "item_buf f' i = item_buf f i" and "item_mgr f' i = item_mgr f i"
proof -
  note st = same_frame_static [OF assms]
  show "item_kind f' i = item_kind f i" unfolding item_kind_def using st item_static_sel(1) by metis
  show "item_sid f' i = item_sid f i" unfolding item_sid_def using st item_static_sel(3) by metis
  show r: "item_ref f' i = item_ref f i" unfolding item_ref_def using st item_static_sel(4) by metis
  show "item_buf f' i = item_buf f i" unfolding item_buf_def using st item_static_sel(2) by metis
  show "item_mgr f' i = item_mgr f i" unfolding item_mgr_def r using assms(1) by (simp add: same_frame_def)
qed

text \<open>
  Different items have different managers and different streams, an item's stream is found
  in its own map first, and a buffer has the manager of its item.
\<close>

definition frame_wf :: "'io Frame \<Rightarrow> bool" where
  "frame_wf f \<longleftrightarrow>
     (\<forall>i < n_items f. item_mgr f i < length (st_managers (fr_store f))) \<and>
     (\<forall>i < n_items f. \<forall>j < n_items f. item_mgr f i = item_mgr f j \<longrightarrow> i = j) \<and>
     (\<forall>i < n_items f. \<forall>j < n_items f. item_sid f i = item_sid f j \<longrightarrow> item_kind f i = item_kind f j \<longrightarrow> i = j) \<and>
     (\<forall>i < n_items f. \<forall>b. item_buf f i = Some b \<longrightarrow> manager_of (fr_store f) (BufferUsers b) = item_mgr f i) \<and>
     (\<forall>i < n_items f. find_kind [AppImage, AppMeta, HalImage, HalMeta] (item_sid f i) f = Some (item_kind f i))"

lemma find_kind_same: "same_frame f f' \<Longrightarrow> find_kind ks s f' = find_kind ks s f"
proof (induction ks)
  case (Cons k ks)
  have "(map_of (im_mMap (fr_maps f' k)) s = None) = (map_of (im_mMap (fr_maps f k)) s = None)"
    unfolding kv_get_None using Cons.prems by (simp add: same_frame_def)
  with Cons show ?case by simp
qed simp

lemma frame_wf_same:
  assumes "same_frame f f'" and "frame_wf f"
  shows "frame_wf f'"
proof -
  note n = same_frame_n [OF assms(1)]
  note it = same_frame_item [OF assms(1)]
  have l: "length (st_managers (fr_store f')) = length (st_managers (fr_store f))"
    and m: "\<And>q. manager_of (fr_store f') q = manager_of (fr_store f) q"
    using assms(1) by (simp_all add: same_frame_def)
  note w = assms(2) [unfolded frame_wf_def]
  show ?thesis
    unfolding frame_wf_def n l m find_kind_same [OF assms(1)]
  proof (intro conjI allI impI, goal_cases)
    case (1 i)
    with w it show ?case by simp
  next
    case (2 i j)
    with w it show ?case by simp
  next
    case (3 i j)
    with w it show ?case by simp
  next
    case (4 i b)
    with w it show ?case by simp
  next
    case (5 i)
    with w it show ?case by (simp only: it)
  qed
qed

lemma entry_present: "frame_wf f \<Longrightarrow> i < n_items f \<Longrightarrow> entry f i \<noteq> None"
proof -
  assume "frame_wf f" and "i < n_items f"
  then have "find_kind [AppImage, AppMeta, HalImage, HalMeta] (item_sid f i) f = Some (item_kind f i)"
    by (simp add: frame_wf_def)
  then show ?thesis by (auto simp: entry_def split: if_splits)
qed

lemma item_um_mgr: "item_um f i = st_managers (fr_store f) ! item_mgr f i"
  by (simp add: item_um_def um_of_def item_mgr_def item_ref_def)

section \<open>Updates under the lock\<close>

definition collected :: "'io Frame \<Rightarrow> nat set" where
  "collected f = set (mHalImageSet_AllUsersReleased (mpReleasedCollector f)) \<union>
     set (mHalMetaSet_AllUsersReleased (mpReleasedCollector f))"

definition all_rel :: "'io Frame \<Rightarrow> nat \<Rightarrow> bool" where
  "all_rel f i \<longleftrightarrow> haveAllUsersReleased (item_um f i) = OK"

text \<open>A collected buffer belongs to an item that all users have released.\<close>

definition coll_ok :: "'io Frame \<Rightarrow> bool" where
  "coll_ok f \<longleftrightarrow> (\<forall>b \<in> collected f. \<exists>i < n_items f. item_buf f i = Some b \<and> all_rel f i)"

definition upd :: "'io Frame \<Rightarrow> 'io Frame \<Rightarrow> bool" where
  "upd f f' \<longleftrightarrow> same_frame f f' \<and> fr_store f' = fr_store f \<and> mNodeStatusMap f' = mNodeStatusMap f \<and>
     mInFlightNodeCount f' = mInFlightNodeCount f \<and>
     (\<forall>j < n_items f. entry f' j = entry f j \<or> all_rel f j) \<and> (coll_ok f \<longrightarrow> coll_ok f')"

lemma upd_refl [simp]: "upd f f"
  by (simp add: upd_def)

lemma upd_um: "upd f f' \<Longrightarrow> i < n_items f \<Longrightarrow> item_um f' i = item_um f i"
  unfolding item_um_mgr upd_def using same_frame_item(5) by metis

lemma upd_n: "upd f f' \<Longrightarrow> n_items f' = n_items f"
  using same_frame_n by (auto simp: upd_def)

lemma upd_wf: "upd f f' \<Longrightarrow> frame_wf f \<Longrightarrow> frame_wf f'"
  using frame_wf_same by (auto simp: upd_def)

lemma upd_trans:
  assumes "upd f g" and "upd g h"
  shows "upd f h"
proof -
  have "same_frame f h" using assms same_frame_trans unfolding upd_def by blast
  moreover have "entry h j = entry f j \<or> all_rel f j" if j: "j < n_items f" for j
  proof -
    have "j < n_items g" using upd_n [OF assms(1)] j by simp
    then have "entry h j = entry g j \<or> all_rel g j" using assms(2) by (simp add: upd_def)
    moreover have "entry g j = entry f j \<or> all_rel f j" using assms(1) j by (simp add: upd_def)
    moreover have "all_rel g j = all_rel f j" unfolding all_rel_def upd_um [OF assms(1) j] by simp
    ultimately show ?thesis by auto
  qed
  ultimately show ?thesis using assms unfolding upd_def by simp
qed

text \<open>Frames that differ in status bits and in the parts of the collector for producers.\<close>

lemma edit_item_static:
  assumes "\<And>it. item_static (g it) = item_static it"
  shows "map item_static (fr_items (edit_item i g f)) = map item_static (fr_items f)"
  unfolding edit_item_def by (simp add: map_list_update_same assms)

lemma same_frame_mark: "same_frame f (item_mark n i f)"
proof -
  have "map item_static (fr_items (item_mark n i f)) = map item_static (fr_items f)"
    unfolding item_mark_def by (rule edit_item_static) (simp add: item_static_def)
  then show ?thesis by (simp add: same_frame_def item_mark_def edit_item_def)
qed

lemma upd_quiet:
  assumes "same_frame f f'" and "fr_store f' = fr_store f" and "mNodeStatusMap f' = mNodeStatusMap f"
    and "mInFlightNodeCount f' = mInFlightNodeCount f" and "fr_maps f' = fr_maps f" and "collected f' = collected f"
  shows "upd f f'"
proof -
  note n = same_frame_n [OF assms(1)] and it = same_frame_item [OF assms(1)]
  have "entry f' j = entry f j" if "j < n_items f" for j unfolding entry_def assms(5) it(1,2) [OF that] ..
  moreover have "item_um f' j = item_um f j" if "j < n_items f" for j
    unfolding item_um_mgr assms(2) it(5) [OF that] ..
  then have "coll_ok f' = coll_ok f"
    unfolding coll_ok_def assms(6) n all_rel_def using it(4) by (metis (no_types, lifting))
  ultimately show ?thesis using assms unfolding upd_def by simp
qed

lemma upd_mark: "upd f (item_mark n i f)"
  by (rule upd_quiet [OF same_frame_mark]) (simp_all add: item_mark_def edit_item_def collected_def)

lemma upd_producers: "upd f (handleProducersReleased i f)"
proof (cases "item_has eBUF_STATUS_PRODUCERS_RELEASE i f")
  case False
  let ?g = "item_mark eBUF_STATUS_PRODUCERS_RELEASE i f"
  have "upd ?g (map_onProducersReleased i ?g)"
    by (rule upd_quiet) (auto simp: map_onProducersReleased_def Let_def collected_def same_frame_def split: map_kind.splits)
  with False upd_trans [OF upd_mark] show ?thesis by (simp add: handleProducersReleased_def)
qed (simp add: handleProducersReleased_def)

lemma collect_simps [simp]:
  "fr_items (collect_all_released i f) = fr_items f" "fr_maps (collect_all_released i f) = fr_maps f"
  "fr_store (collect_all_released i f) = fr_store f" "mNodeStatusMap (collect_all_released i f) = mNodeStatusMap f"
  "mInFlightNodeCount (collect_all_released i f) = mInFlightNodeCount f"
  "fr_mListeners (collect_all_released i f) = fr_mListeners f" "mFrameNo (collect_all_released i f) = mFrameNo f"
  by (auto simp: collect_all_released_def Let_def split: map_kind.splits option.splits)

lemma collected_collect: "collected (collect_all_released i f) \<subseteq> collected f \<union> {b. item_buf f i = Some b}"
  by (auto simp: collect_all_released_def Let_def collected_def item_buf_def split: map_kind.splits option.splits)

lemma edit_map_simps [simp]:
  "fr_items (edit_map k g f) = fr_items f" "fr_maps (edit_map k g f) = (fr_maps f)(k := g (fr_maps f k))"
  "fr_store (edit_map k g f) = fr_store f" "mNodeStatusMap (edit_map k g f) = mNodeStatusMap f"
  "mInFlightNodeCount (edit_map k g f) = mInFlightNodeCount f" "fr_mListeners (edit_map k g f) = fr_mListeners f"
  "mFrameNo (edit_map k g f) = mFrameNo f" "mpReleasedCollector (edit_map k g f) = mpReleasedCollector f"
  by (simp_all add: edit_map_def)

lemma upd_onAllUsersReleased:
  assumes wf: "frame_wf f" and i: "i < n_items f" and rel: "all_rel f i"
  shows "\<exists>f'. map_onAllUsersReleased i f = Some f' \<and> upd f f'"
proof -
  let ?k = "item_kind f i" and ?s = "item_sid f i"
  have e: "map_of (im_mMap (fr_maps f ?k)) ?s \<noteq> None" using entry_present [OF wf i] by (simp add: entry_def)
  define g where "g = edit_map ?k (\<lambda>m. \<lparr>im_mMap = kv_edit ?s (\<lambda>_. None) (im_mMap m),
     mNonReleasedNum = mNonReleasedNum m - 1\<rparr>) (collect_all_released i f)"
  have "map_onAllUsersReleased i f = Some f \<or> map_onAllUsersReleased i f = Some g"
    using e unfolding map_onAllUsersReleased_def Let_def g_def item_kind_def item_sid_def
    by (auto split: option.splits)
  then have r: "map_onAllUsersReleased i f = Some f \<or> map_onAllUsersReleased i f = Some g" .
  have "upd f g"
  proof -
    have same: "same_frame f g" by (simp add: g_def same_frame_def)
    have um: "item_um g j = item_um f j" for j by (simp add: g_def item_um_def)
    have "entry g j = entry f j \<or> all_rel f j" if j: "j < n_items f" for j
    proof (cases "j = i")
      case False
      then have "\<not> (?k = item_kind f j \<and> ?s = item_sid f j)"
        using wf i j unfolding frame_wf_def by metis
      moreover have "item_kind g j = item_kind f j" "item_sid g j = item_sid f j"
        using same_frame_item(1,2) [OF same j] by simp_all
      ultimately show ?thesis by (auto simp: entry_def g_def)
    qed (simp add: rel)
    moreover have "coll_ok g" if "coll_ok f"
      unfolding coll_ok_def
    proof
      fix b assume "b \<in> collected g"
      then have "b \<in> collected (collect_all_released i f)" by (simp add: g_def collected_def)
      then have "b \<in> collected f \<or> item_buf f i = Some b" using collected_collect by blast
      then have "\<exists>j < n_items f. item_buf f j = Some b \<and> all_rel f j"
      proof
        assume "b \<in> collected f"
        with that show ?thesis unfolding coll_ok_def by (rule bspec)
      next
        assume "item_buf f i = Some b"
        with i rel show ?thesis by (intro exI [of _ i]) simp
      qed
      then obtain j where "j < n_items f" "item_buf f j = Some b" "all_rel f j" by (elim exE conjE)
      then have "j < n_items g \<and> item_buf g j = Some b \<and> all_rel g j"
        using same_frame_n [OF same] same_frame_item(4) [OF same] um by (simp add: all_rel_def)
      then show "\<exists>j < n_items g. item_buf g j = Some b \<and> all_rel g j" by blast
    qed
    moreover have "fr_store g = fr_store f" "mNodeStatusMap g = mNodeStatusMap f"
      "mInFlightNodeCount g = mInFlightNodeCount f" by (simp_all add: g_def)
    ultimately show ?thesis using same unfolding upd_def by blast
  qed
  from r show ?thesis
  proof
    assume "map_onAllUsersReleased i f = Some f"
    with upd_refl [of f] show ?thesis by blast
  next
    assume "map_onAllUsersReleased i f = Some g"
    with \<open>upd f g\<close> show ?thesis by blast
  qed
qed

lemma upd_allReleased:
  assumes "frame_wf f" and "i < n_items f" and "all_rel f i"
  shows "\<exists>f'. handleAllUsersReleased i f = Some f' \<and> upd f f'"
proof (cases "item_has eBUF_STATUS_RELEASE i f")
  case False
  let ?g = "item_mark eBUF_STATUS_RELEASE i f"
  note u = upd_mark [of f eBUF_STATUS_RELEASE i]
  have "all_rel ?g i" using assms(3) unfolding all_rel_def upd_um [OF u assms(2)] .
  with upd_onAllUsersReleased [OF upd_wf [OF u assms(1)]] assms(2) upd_n [OF u] obtain f' where
    "map_onAllUsersReleased i ?g = Some f'" "upd ?g f'" by auto
  with False upd_trans [OF u] show ?thesis by (auto simp: handleAllUsersReleased_def)
qed (simp add: handleAllUsersReleased_def)

text \<open>What is left of a list of items: the ones the node has not released.\<close>

lemma upd_items_left:
  assumes "frame_wf f" and "\<forall>i \<in> set is. i < n_items f"
  shows "\<exists>f'. update_items n is f = Some (filter (\<lambda>i. getUserStatus (item_um f i) n AND RELEASE = 0) is, f') \<and> upd f f'"
  using assms
proof (induction "is" arbitrary: f)
  case (Cons i "is")
  let ?f1 = "if haveAllProducerUsersReleased (item_um f i) = OK then handleProducersReleased i f else f"
  have u1: "upd f ?f1" by (simp add: upd_producers)
  have i: "i < n_items f" "i < n_items ?f1" using Cons.prems(2) upd_n [OF u1] by simp_all
  note um1 = upd_um [OF u1 i(1)]
  have "\<exists>f2. (if getUserStatus (item_um f i) n AND RELEASE = 0 then Some ?f1
      else if haveAllUsersReleased (item_um ?f1 i) = OK then handleAllUsersReleased i ?f1 else Some ?f1) = Some f2 \<and> upd ?f1 f2"
    using upd_allReleased [OF upd_wf [OF u1 Cons.prems(1)] i(2)] by (auto simp: all_rel_def)
  then obtain f2 where f2: "(if getUserStatus (item_um f i) n AND RELEASE = 0 then Some ?f1
      else if haveAllUsersReleased (item_um ?f1 i) = OK then handleAllUsersReleased i ?f1 else Some ?f1) = Some f2"
    and u2: "upd ?f1 f2" by blast
  note u = upd_trans [OF u1 u2]
  have "\<forall>j \<in> set is. j < n_items f2" using Cons.prems(2) upd_n [OF u] by simp
  from Cons.IH [OF upd_wf [OF u Cons.prems(1)] this] obtain f3 where
    f3: "update_items n is f2 = Some (filter (\<lambda>i. getUserStatus (item_um f2 i) n AND RELEASE = 0) is, f3)" "upd f2 f3"
    by blast
  have "filter (\<lambda>i. getUserStatus (item_um f2 i) n AND RELEASE = 0) is =
      filter (\<lambda>i. getUserStatus (item_um f i) n AND RELEASE = 0) is"
    using Cons.prems(2) by (intro filter_cong [OF refl]) (simp add: upd_um [OF u])
  with f2 f3(1) have "update_items n (i # is) f =
      Some (filter (\<lambda>i. getUserStatus (item_um f i) n AND RELEASE = 0) (i # is), f3)"
    by (cases "getUserStatus (item_um f i) n AND RELEASE = 0") (simp_all add: Let_def um1 upd_um [OF u i(1)])
  with upd_trans [OF u f3(2)] show ?case by blast
qed simp

lemma upd_items:
  assumes "frame_wf f" and "\<forall>i \<in> set is. i < n_items f \<and> getUserStatus (item_um f i) n AND RELEASE \<noteq> 0"
  shows "\<exists>f'. update_items n is f = Some ([], f') \<and> upd f f'"
proof -
  have "filter (\<lambda>i. getUserStatus (item_um f i) n AND RELEASE = 0) is = []" using assms(2) by (simp add: filter_empty_conv)
  with upd_items_left [of f "is" n] assms show ?thesis by simp
qed

end
