(* ===== verification/FrameProps.thy ===== *)
theory FrameProps
  imports FrameSteps
begin

text \<open>
  A frame is released exactly once, when its last node has released its streams, whatever
  the order of the nodes: the invariant \<open>frame_inv\<close> over the nodes that have not finished,
  its preservation by a node that finishes, and the properties of the frame.
\<close>

section \<open>Marks\<close>

text \<open>What marks of one user leave as it is.\<close>

definition marked_by :: "NodeId_T \<Rightarrow> 'io Frame \<Rightarrow> 'io Frame \<Rightarrow> bool" where
  "marked_by n f f' \<longleftrightarrow> same_frame f f' \<and> fr_maps f' = fr_maps f \<and> mNodeStatusMap f' = mNodeStatusMap f \<and>
     mInFlightNodeCount f' = mInFlightNodeCount f \<and> mpReleasedCollector f' = mpReleasedCollector f \<and>
     (\<forall>j < n_items f. um_good (item_um f j) \<longrightarrow>
        um_good (item_um f' j) \<and>
        (\<forall>k. queryUser (item_um f' j) k \<noteq> None \<longleftrightarrow> queryUser (item_um f j) k \<noteq> None) \<and>
        (\<forall>k. k \<noteq> n \<longrightarrow> getUserStatus (item_um f' j) k = getUserStatus (item_um f j) k) \<and>
        (getUserStatus (item_um f j) n AND RELEASE \<noteq> 0 \<longrightarrow> getUserStatus (item_um f' j) n AND RELEASE \<noteq> 0))"

lemma marked_by_refl [simp]: "marked_by n f f"
  by (simp add: marked_by_def)

lemma marked_by_same: "marked_by n f f' \<Longrightarrow> same_frame f f'"
  by (simp add: marked_by_def)

lemma marked_by_trans:
  assumes "marked_by n f g" and "marked_by n g h"
  shows "marked_by n f h"
proof -
  have "n_items g = n_items f" using assms(1) same_frame_n by (auto simp: marked_by_def)
  then show ?thesis using assms same_frame_trans unfolding marked_by_def by (smt (verit))
qed

text \<open>A node is a user of the item whose manager is set up, and the item is in its map.\<close>

definition uses :: "'io Frame \<Rightarrow> NodeId_T \<Rightarrow> nat \<Rightarrow> bool" where
  "uses f n i \<longleftrightarrow> i < n_items f \<and> um_good (item_um f i) \<and> queryUser (item_um f i) n \<noteq> None \<and> entry f i = Some (Some i)"

lemma uses_marked: "marked_by n f f' \<Longrightarrow> uses f m i \<Longrightarrow> uses f' m i"
proof -
  assume m: "marked_by n f f'" and u: "uses f m i"
  then have i: "i < n_items f" by (simp add: uses_def)
  have "entry f' i = entry f i"
    using same_frame_item(1,2) [OF marked_by_same [OF m] i] m by (simp add: entry_def marked_by_def)
  with m u same_frame_n [OF marked_by_same [OF m]] show ?thesis by (simp add: uses_def marked_by_def)
qed

lemma findSubject_item:
  assumes "frame_wf f" and "uses f n i"
  shows "findSubjectUsersLocked (item_sid f i) f = Some (Some (item_ref f i))"
proof -
  have i: "i < n_items f" and e: "entry f i = Some (Some i)" using assms(2) by (simp_all add: uses_def)
  have k: "find_kind [AppImage, AppMeta, HalImage, HalMeta] (item_sid f i) f = Some (item_kind f i)"
    using assms(1) i by (simp add: frame_wf_def)
  let ?m = "im_mMap (fr_maps f (item_kind f i))"
  from e have "map_of ?m (item_sid f i) = Some (Some i)" by (simp add: entry_def)
  then obtain x where x: "kv_index ?m (item_sid f i) = Some x" by (cases "kv_index ?m (item_sid f i)") auto
  from kv_index_Some [OF x] e have "x < length ?m" "snd (?m ! x) = Some i" by (simp_all add: entry_def)
  with x show ?thesis unfolding findSubjectUsersLocked_def k by (simp add: usersManagerAt_def item_ref_def)
qed

lemma mark_item:
  assumes wf: "frame_wf f" and u: "uses f n i" and msk: "msk AND RELEASE \<noteq> 0"
  shows "\<exists>r f'. frame_markUserStatus (item_sid f i) n msk f = Some (r, f') \<and> marked_by n f f' \<and>
    getUserStatus (item_um f' i) n AND RELEASE \<noteq> 0"
proof -
  have i: "i < n_items f" and g: "um_good (item_um f i)" "queryUser (item_um f i) n \<noteq> None" using u by (simp_all add: uses_def)
  from uc.mark_released [OF g msk] obtain r um where
    um: "markUserStatus n msk (item_um f i) = Some (r, um)" "um_good um"
      "\<And>k. (queryUser um k \<noteq> None) = (queryUser (item_um f i) k \<noteq> None)"
      "getUserStatus um n AND RELEASE \<noteq> 0" "\<And>k. k \<noteq> n \<Longrightarrow> getUserStatus um k = getUserStatus (item_um f i) k"
    by blast
  have "markUserStatus n msk (um_of (fr_store f) (item_ref f i)) = Some (r, um)"
    using um(1) by (simp add: item_um_def item_ref_def)
  from users_mark_effect [OF this] obtain st where
    st: "users_markUserStatus (item_ref f i) n msk (fr_store f) = Some (r, st)"
      "st_managers st = (st_managers (fr_store f))[item_mgr f i := um]"
      "\<forall>q. manager_of st q = manager_of (fr_store f) q" by (auto simp: item_mgr_def)
  let ?f = "f\<lparr>fr_store := st\<rparr>"
  have same: "same_frame f ?f" using st by (simp add: same_frame_def)
  have len: "item_mgr f i < length (st_managers (fr_store f))" using wf i by (simp add: frame_wf_def)
  have ui: "item_um ?f i = um"
    unfolding item_um_mgr same_frame_item(5) [OF same i] using st(2) len by simp
  have uj: "item_um ?f j = item_um f j" if "j < n_items f" "j \<noteq> i" for j
  proof -
    have "item_mgr f j \<noteq> item_mgr f i" using wf i that unfolding frame_wf_def by metis
    then show ?thesis unfolding item_um_mgr same_frame_item(5) [OF same that(1)] using st(2) by simp
  qed
  have "marked_by n f ?f"
    unfolding marked_by_def
  proof (intro conjI allI impI)
    fix j assume j: "j < n_items f" "um_good (item_um f j)"
    show "um_good (item_um ?f j)" using j uj ui um(2) by (cases "j = i") simp_all
    show "(queryUser (item_um ?f j) k \<noteq> None) = (queryUser (item_um f j) k \<noteq> None)" for k
      using j uj ui um(3) by (cases "j = i") simp_all
    show "getUserStatus (item_um ?f j) k = getUserStatus (item_um f j) k" if "k \<noteq> n" for k
      using j uj ui um(5) that by (cases "j = i") simp_all
    show "getUserStatus (item_um ?f j) n AND RELEASE \<noteq> 0" if "getUserStatus (item_um f j) n AND RELEASE \<noteq> 0"
      using j uj ui um(4) that by (cases "j = i") simp_all
  qed (simp_all add: same)
  moreover have "frame_markUserStatus (item_sid f i) n msk f = Some (r, ?f)"
    unfolding frame_markUserStatus_def findSubject_item [OF wf u] using st(1) by simp
  ultimately show ?thesis using um(4) ui by auto
qed

text \<open>The node marks each of a list of streams.\<close>

fun mark_streams :: "NodeId_T \<Rightarrow> MUINT32 \<Rightarrow> StreamId_T list \<Rightarrow> 'io Frame \<Rightarrow> 'io Frame option" where
  "mark_streams n msk [] f = Some f"
| "mark_streams n msk (s # ss) f = do { (r, f1) \<leftarrow> frame_markUserStatus s n msk f; mark_streams n msk ss f1 }"

lemma mark_streams_effect:
  assumes "frame_wf f" and "\<forall>i \<in> set is. uses f n i" and "msk AND RELEASE \<noteq> 0"
  shows "\<exists>f'. mark_streams n msk (map (item_sid f) is) f = Some f' \<and> marked_by n f f' \<and>
    (\<forall>i \<in> set is. getUserStatus (item_um f' i) n AND RELEASE \<noteq> 0)"
  using assms
proof (induction "is" arbitrary: f)
  case (Cons i "is")
  have ui: "uses f n i" using Cons.prems(2) by simp
  from mark_item [OF Cons.prems(1) ui Cons.prems(3)] obtain r f1 where
    f1: "frame_markUserStatus (item_sid f i) n msk f = Some (r, f1)" "marked_by n f f1"
      "getUserStatus (item_um f1 i) n AND RELEASE \<noteq> 0" by blast
  note same = marked_by_same [OF f1(2)]
  have u1: "\<forall>j \<in> set is. uses f1 n j" using Cons.prems(2) uses_marked [OF f1(2)] by simp
  from Cons.IH [OF frame_wf_same [OF same Cons.prems(1)] u1 Cons.prems(3)] obtain f2 where
    f2: "mark_streams n msk (map (item_sid f1) is) f1 = Some f2" "marked_by n f1 f2"
      "\<forall>j \<in> set is. getUserStatus (item_um f2 j) n AND RELEASE \<noteq> 0" by blast
  have sids: "map (item_sid f1) is = map (item_sid f) is"
    using same_frame_item(2) [OF same] Cons.prems(2) by (simp add: uses_def)
  have "mark_streams n msk (map (item_sid f) (i # is)) f = Some f2"
    using f1(1) f2(1) unfolding sids list.map mark_streams.simps by simp
  moreover have "uses f1 n i" by (rule uses_marked [OF f1(2) ui])
  then have "getUserStatus (item_um f2 i) n AND RELEASE \<noteq> 0"
    using f2(2) f1(3) by (simp add: uses_def marked_by_def)
  ultimately show ?case using marked_by_trans [OF f1(2) f2(2)] f2(3) by auto
qed simp

section \<open>The update of a node\<close>

definition fresh :: "NodeStatus \<Rightarrow> bool" where
  "fresh s \<longleftrightarrow> \<not> mNotified (mOSetImage s) \<and> \<not> mNotified (mISetImage s) \<and>
     \<not> mNotified (mOSetMeta s) \<and> \<not> mNotified (mISetMeta s)"

definition node_items :: "NodeStatus \<Rightarrow> nat list" where
  "node_items s = io_items (mOSetImage s) @ io_items (mISetImage s) @ io_items (mOSetMeta s) @ io_items (mISetMeta s)"

definition io_done :: IOSet where
  "io_done = \<lparr>io_items = [], mNotified = True\<rparr>"

definition node_done :: NodeStatus where
  "node_done = \<lparr>mISetImage = io_done, mOSetImage = io_done, mISetMeta = io_done, mOSetMeta = io_done\<rparr>"

definition released_all :: "'io Frame \<Rightarrow> NodeId_T \<Rightarrow> nat list \<Rightarrow> bool" where
  "released_all f n is \<longleftrightarrow> (\<forall>i \<in> set is. i < n_items f \<and> getUserStatus (item_um f i) n AND RELEASE \<noteq> 0)"

lemma released_all_upd: "upd f f' \<Longrightarrow> released_all f n is \<Longrightarrow> released_all f' n is"
  unfolding released_all_def by (simp add: upd_n upd_um)

lemma updateNodeStatus_done:
  assumes "frame_wf f" and "\<not> mNotified S" and "released_all f n (io_items S)"
  shows "\<exists>f'. updateNodeStatus n S f = Some (True, io_done, f') \<and> upd f f'"
  using upd_items [of f "io_items S" n] assms
  by (auto simp: updateNodeStatus_def io_done_def released_all_def)

lemma updater_run_done:
  assumes wf: "frame_wf f" and s: "map_of (mNodeStatusMap f) n = Some s" and fr: "fresh s"
    and rel: "released_all f n (node_items s)"
  shows "\<exists>g. upd f g \<and> updater_run n f = Some (True, bs_markBit 1 (bs_markBit 2 0),
    g\<lparr>mNodeStatusMap := kv_edit n (\<lambda>_. node_done) (mNodeStatusMap g), mInFlightNodeCount := mInFlightNodeCount g - 1\<rparr>)"
proof -
  have r: "released_all f n (io_items (mOSetImage s))" "released_all f n (io_items (mISetImage s))"
    "released_all f n (io_items (mOSetMeta s))" "released_all f n (io_items (mISetMeta s))"
    using rel by (simp_all add: released_all_def node_items_def)
  have nf: "\<not> mNotified (mOSetImage s)" "\<not> mNotified (mISetImage s)" "\<not> mNotified (mOSetMeta s)" "\<not> mNotified (mISetMeta s)"
    using fr by (simp_all add: fresh_def)
  from updateNodeStatus_done [OF wf nf(1) r(1)] obtain f1 where
    1: "updateNodeStatus n (mOSetImage s) f = Some (True, io_done, f1)" "upd f f1" by blast
  from updateNodeStatus_done [OF upd_wf [OF 1(2) wf] nf(2) released_all_upd [OF 1(2) r(2)]] obtain f2 where
    2: "updateNodeStatus n (mISetImage s) f1 = Some (True, io_done, f2)" "upd f1 f2" by blast
  note u2 = upd_trans [OF 1(2) 2(2)]
  from updateNodeStatus_done [OF upd_wf [OF u2 wf] nf(3) released_all_upd [OF u2 r(3)]] obtain f3 where
    3: "updateNodeStatus n (mOSetMeta s) f2 = Some (True, io_done, f3)" "upd f2 f3" by blast
  note u3 = upd_trans [OF u2 3(2)]
  from updateNodeStatus_done [OF upd_wf [OF u3 wf] nf(4) released_all_upd [OF u3 r(4)]] obtain f4 where
    4: "updateNodeStatus n (mISetMeta s) f3 = Some (True, io_done, f4)" "upd f3 f4" by blast
  have "updater_run n f = Some (True, bs_markBit 1 (bs_markBit 2 0),
    f4\<lparr>mNodeStatusMap := kv_edit n (\<lambda>_. node_done) (mNodeStatusMap f4), mInFlightNodeCount := mInFlightNodeCount f4 - 1\<rparr>)"
    using s 1(1) 2(1) 3(1) 4(1)
    by (simp add: updater_run_def Let_def node_done_def node_empty_def io_done_def)
  with upd_trans [OF u3 4(2)] show ?thesis by blast
qed

section \<open>The way home of the buffers\<close>

text \<open>Only the managers in \<open>D\<close> change.\<close>

definition resets :: "nat set \<Rightarrow> 'io Frame \<Rightarrow> 'io Frame \<Rightarrow> bool" where
  "resets D f f' \<longleftrightarrow> same_frame f f' \<and> fr_maps f' = fr_maps f \<and> mNodeStatusMap f' = mNodeStatusMap f \<and>
     mInFlightNodeCount f' = mInFlightNodeCount f \<and> collected f' = collected f \<and>
     (\<forall>m. m \<notin> D \<longrightarrow> st_managers (fr_store f') ! m = st_managers (fr_store f) ! m)"

lemma resets_trans: "resets D f g \<Longrightarrow> resets D g h \<Longrightarrow> resets D f h"
  using same_frame_trans unfolding resets_def by fastforce

lemma release_buffers_resets:
  assumes "\<forall>b \<in> set bs. manager_of (fr_store f) (BufferUsers b) \<in> D" and "release_buffers bs f = (es, f')"
  shows "resets D f f' \<and> list_all (\<lambda>e. case e of BufferReturned b st \<Rightarrow> True | _ \<Rightarrow> False) es"
  using assms
proof (induction bs arbitrary: f es f')
  case (Cons b bs)
  obtain e st where e: "store_releaseBuffer b (fr_store f) = (e, st)" by fastforce
  obtain es1 f1 where r: "release_buffers bs (f\<lparr>fr_store := st\<rparr>) = (es1, f1)" by fastforce
  note eff = store_release_effect [OF e]
  have "st_managers st ! m = st_managers (fr_store f) ! m" if "m \<notin> D" for m
  proof -
    have "m \<noteq> manager_of (fr_store f) (BufferUsers b)" using that Cons.prems(1) by auto
    with eff show ?thesis by (auto split: if_splits)
  qed
  with eff have "resets D f (f\<lparr>fr_store := st\<rparr>)"
    unfolding resets_def same_frame_def collected_def by (auto split: if_splits)
  moreover have "resets D (f\<lparr>fr_store := st\<rparr>) f1 \<and> list_all (\<lambda>e. case e of BufferReturned b st \<Rightarrow> True | _ \<Rightarrow> False) es1"
    by (rule Cons.IH [OF _ r]) (use eff Cons.prems(1) in simp)
  ultimately show ?case using Cons.prems(2) e r resets_trans by (auto split: option.splits)
qed (simp add: resets_def)

section \<open>The invariant\<close>

text \<open>\<open>D\<close> is the set of the nodes that have finished.\<close>

definition live :: "'io Frame \<Rightarrow> NodeId_T \<Rightarrow> nat \<Rightarrow> bool" where
  "live f n i \<longleftrightarrow> uses f n i \<and> getUserStatus (item_um f i) n AND RELEASE = 0"

definition node_ready :: "'io Frame \<Rightarrow> NodeId_T \<Rightarrow> bool" where
  "node_ready f n \<longleftrightarrow> (case map_of (mNodeStatusMap f) n of None \<Rightarrow> False
     | Some s \<Rightarrow> fresh s \<and> list_all (live f n) (node_items s))"

definition frame_nodes :: "'io Frame \<Rightarrow> NodeId_T set" where
  "frame_nodes f = set (kv_keys (mNodeStatusMap f))"

definition frame_inv :: "NodeId_T set \<Rightarrow> 'io Frame \<Rightarrow> bool" where
  "frame_inv D f \<longleftrightarrow> frame_wf f \<and> collected f = {} \<and>
     mInFlightNodeCount f = int (card (frame_nodes f - D)) \<and> (\<forall>n \<in> frame_nodes f - D. node_ready f n)"

lemma live_not_released: "live f n i \<Longrightarrow> \<not> all_rel f i"
  using uc.not_all_released by (auto simp: live_def uses_def all_rel_def)

lemma node_ready_mono:
  assumes "node_ready f n" and "map_of (mNodeStatusMap f') n = map_of (mNodeStatusMap f) n"
    and "\<And>i. live f n i \<Longrightarrow> live f' n i"
  shows "node_ready f' n"
  using assms by (auto simp: node_ready_def list_all_iff split: option.splits)

lemma live_marked: "marked_by m f f' \<Longrightarrow> n \<noteq> m \<Longrightarrow> live f n i \<Longrightarrow> live f' n i"
  using uses_marked [of m f f' n i] by (simp add: live_def uses_def marked_by_def)

lemma live_upd:
  assumes "upd f f'" and "live f n i"
  shows "live f' n i"
proof -
  have i: "i < n_items f" using assms(2) by (simp add: live_def uses_def)
  have "entry f' i = entry f i"
    using assms(1) i live_not_released [OF assms(2)] by (auto simp: upd_def)
  with assms(2) upd_um [OF assms(1) i] upd_n [OF assms(1)] show ?thesis by (simp add: live_def uses_def)
qed

lemma live_resets:
  assumes "resets D f f'" and "live f n i" and "item_mgr f i \<notin> D"
  shows "live f' n i"
proof -
  have i: "i < n_items f" using assms(2) by (simp add: live_def uses_def)
  have same: "same_frame f f'" using assms(1) by (simp add: resets_def)
  note it = same_frame_item [OF same i]
  have "item_um f' i = item_um f i" using assms(1,3) unfolding item_um_mgr it(5) by (simp add: resets_def)
  moreover have "entry f' i = entry f i" using assms(1) by (simp add: entry_def it(1,2) resets_def)
  ultimately show ?thesis using assms(2) same_frame_n [OF same] by (simp add: live_def uses_def)
qed

section \<open>A node finishes\<close>

text \<open>The node marks all its streams with its mask and then calls \<open>applyRelease\<close>.\<close>

definition finish_node ::
    "frame_env \<Rightarrow> (NodeId_T \<Rightarrow> MUINT32) \<Rightarrow> NodeId_T \<Rightarrow> 'io Frame \<Rightarrow> (frame_event list \<times> 'io Frame) option" where
  "finish_node env msk n f = do {
     s \<leftarrow> map_of (mNodeStatusMap f) n;
     f1 \<leftarrow> mark_streams n (msk n) (map (item_sid f) (node_items s)) f;
     applyRelease env n f1
   }"

fun is_frame_message :: "frame_event \<Rightarrow> bool" where
  "is_frame_message (FrameMessage p c fn m) = True"
| "is_frame_message e = False"

definition frame_messages :: "frame_env \<Rightarrow> 'io Frame \<Rightarrow> frame_event list" where
  "frame_messages env f = map (\<lambda>(p, c). FrameMessage p c (mFrameNo f) eMSG_FRAME_RELEASED)
     (filter (\<lambda>(p, c). env_listener env p) (fr_mListeners f))"

lemma notify_frame_messages:
  "filter is_frame_message (notify_listeners env n bits ls fn) =
     (if bs_hasBit 0 bits then map (\<lambda>(p, c). FrameMessage p c fn 0) (filter (\<lambda>(p, c). env_listener env p) ls) else [])"
  by (induction ls) (auto simp: notify_listeners_def)

lemma handleReleasedBuffers_effect:
  assumes "coll_ok f" and wf: "frame_wf f" and "handleReleasedBuffers env u f = (es, f')"
  shows "same_frame f f' \<and> mNodeStatusMap f' = mNodeStatusMap f \<and> mInFlightNodeCount f' = mInFlightNodeCount f \<and>
    collected f' = {} \<and> (\<forall>n i. live f n i \<longrightarrow> live f' n i) \<and> filter is_frame_message es = []"
proof -
  let ?D = "{item_mgr f i |i. i < n_items f \<and> all_rel f i}"
  obtain images metas result f1 where t: "take_collected f = (images, metas, result, f1)" by (metis prod_cases4)
  obtain es1 f2 where r1: "release_buffers images f1 = (es1, f2)" by fastforce
  obtain es2 f3 where r2: "release_buffers metas f2 = (es2, f3)" by fastforce
  have f1: "same_frame f f1" "fr_store f1 = fr_store f" "fr_maps f1 = fr_maps f" "mNodeStatusMap f1 = mNodeStatusMap f"
    "mInFlightNodeCount f1 = mInFlightNodeCount f" "collected f1 = {}"
    and im: "set images \<union> set metas = collected f"
    using t by (auto simp: take_collected_def Let_def same_frame_def collected_def)
  have "manager_of (fr_store f) (BufferUsers b) \<in> ?D" if "b \<in> collected f" for b
  proof -
    from assms(1) [unfolded coll_ok_def, rule_format, OF that] obtain i where
      i: "i < n_items f" "item_buf f i = Some b" "all_rel f i" by (elim exE conjE)
    then have "manager_of (fr_store f) (BufferUsers b) = item_mgr f i" using wf by (simp add: frame_wf_def)
    with i show ?thesis by blast
  qed
  then have mem: "\<forall>b \<in> set images. manager_of (fr_store f1) (BufferUsers b) \<in> ?D"
    "\<forall>b \<in> set metas. manager_of (fr_store f1) (BufferUsers b) \<in> ?D" using im by (auto simp: f1(2))
  note a = release_buffers_resets [OF mem(1) r1]
  have "\<forall>b \<in> set metas. manager_of (fr_store f2) (BufferUsers b) \<in> ?D"
    using mem(2) a by (simp add: resets_def same_frame_def)
  note b = release_buffers_resets [OF this r2]
  have res: "resets ?D f1 f3" using resets_trans a b by blast
  have u: "upd f f1"
    using f1 same_frame_item(1,2) [OF f1(1)] by (simp add: upd_def entry_def coll_ok_def)
  have "live f3 n i" if l: "live f n i" for n i
  proof -
    have i: "i < n_items f" using l by (simp add: live_def uses_def)
    have "item_mgr f i \<notin> ?D"
    proof
      assume "item_mgr f i \<in> ?D"
      then obtain j where j: "item_mgr f i = item_mgr f j" "j < n_items f" "all_rel f j" by blast
      with wf i have "i = j" unfolding frame_wf_def by metis
      with j live_not_released [OF l] show False by simp
    qed
    then have "item_mgr f1 i \<notin> ?D" unfolding same_frame_item(5) [OF f1(1) i] .
    with live_resets [OF res live_upd [OF u l]] show ?thesis .
  qed
  moreover have "es = (if env_app env then [UpdateFrame (mRequestNo f) u result] else []) @ es1 @ es2" "f' = f3"
    using assms(3) by (simp_all add: handleReleasedBuffers_def t r1 r2)
  moreover have "filter is_frame_message xs = []"
    if "list_all (\<lambda>e. case e of BufferReturned b st \<Rightarrow> True | _ \<Rightarrow> False) xs" for xs
    using that by (induction xs) (auto split: frame_event.splits)
  ultimately show ?thesis
    using a b res f1 same_frame_trans [OF f1(1)] by (auto simp: resets_def)
qed

lemma finish_node_step:
  assumes inv: "frame_inv D f" and n: "n \<in> frame_nodes f - D" and msk: "msk n AND RELEASE \<noteq> 0"
  shows "\<exists>es f'. finish_node env msk n f = Some (es, f') \<and> frame_inv (insert n D) f' \<and> same_frame f f' \<and>
    frame_nodes f' = frame_nodes f \<and>
    filter is_frame_message es = (if frame_nodes f - insert n D = {} then frame_messages env f else [])"
proof -
  have wf: "frame_wf f" and c: "collected f = {}" and cnt: "mInFlightNodeCount f = int (card (frame_nodes f - D))"
    and rdy: "\<And>m. m \<in> frame_nodes f - D \<Longrightarrow> node_ready f m" using inv by (simp_all add: frame_inv_def)
  from rdy [OF n] obtain s where s: "map_of (mNodeStatusMap f) n = Some s" "fresh s" "list_all (live f n) (node_items s)"
    by (auto simp: node_ready_def split: option.splits)
  have "\<forall>i \<in> set (node_items s). uses f n i" using s(3) by (simp add: list_all_iff live_def)
  from mark_streams_effect [OF wf this msk] obtain f1 where
    f1: "mark_streams n (msk n) (map (item_sid f) (node_items s)) f = Some f1" and m: "marked_by n f f1"
    and r1: "\<forall>i \<in> set (node_items s). getUserStatus (item_um f1 i) n AND RELEASE \<noteq> 0" by blast
  note same1 = marked_by_same [OF m]
  have wf1: "frame_wf f1" by (rule frame_wf_same [OF same1 wf])
  have s1: "map_of (mNodeStatusMap f1) n = Some s" using s(1) m by (simp add: marked_by_def)
  have "released_all f1 n (node_items s)"
    using r1 s(3) same_frame_n [OF same1] by (simp add: released_all_def list_all_iff live_def uses_def)
  from updater_run_done [OF wf1 s1 s(2) this] obtain g where
    u: "upd f1 g" and run: "updater_run n f1 = Some (True, bs_markBit 1 (bs_markBit 2 0),
      g\<lparr>mNodeStatusMap := kv_edit n (\<lambda>_. node_done) (mNodeStatusMap g), mInFlightNodeCount := mInFlightNodeCount g - 1\<rparr>)"
    by blast
  let ?bits = "bs_markBit 1 (bs_markBit 2 0) :: MUINT32"
  let ?g = "g\<lparr>mNodeStatusMap := kv_edit n (\<lambda>_. node_done) (mNodeStatusMap g), mInFlightNodeCount := mInFlightNodeCount g - 1\<rparr>"
  let ?last = "frame_nodes f - insert n D = {}"
  have nodes: "mNodeStatusMap g = mNodeStatusMap f" "mInFlightNodeCount g = mInFlightNodeCount f"
    using u m by (simp_all add: upd_def marked_by_def)
  have fin: "finite (frame_nodes f - D)" by (simp add: frame_nodes_def)
  have "frame_nodes f - insert n D = frame_nodes f - D - {n}" by blast
  then have "Suc (card (frame_nodes f - insert n D)) = card (frame_nodes f - D)"
    using card_Suc_Diff1 [OF fin n] by simp
  then have cnt': "mInFlightNodeCount ?g = int (card (frame_nodes f - insert n D))"
    using nodes(2) cnt by simp
  then have last: "mInFlightNodeCount ?g = 0 \<longleftrightarrow> ?last" using fin by (simp add: frame_nodes_def)
  define g2 where "g2 = (if ?last then ?g\<lparr>mpStreamInfoSet := None\<rparr> else ?g)"
  define bits where "bits = (if ?last then bs_markBit 0 ?bits else ?bits)"
  have upd: "applyRelease_update n f1 = Some (bits, g2)"
    using last by (simp add: applyRelease_update_def run bits_def g2_def)
  have g2: "fr_items g2 = fr_items g" "fr_maps g2 = fr_maps g" "fr_store g2 = fr_store g"
    "mpReleasedCollector g2 = mpReleasedCollector g" "fr_mListeners g2 = fr_mListeners g" "mFrameNo g2 = mFrameNo g"
    "mNodeStatusMap g2 = kv_edit n (\<lambda>_. node_done) (mNodeStatusMap f)"
    "mInFlightNodeCount g2 = int (card (frame_nodes f - insert n D))"
    using cnt' nodes(1) by (simp_all add: g2_def)
  have same_g: "same_frame g g2" using g2 by (simp add: same_frame_def)
  have live_g: "live g2 m i = live g m i" for m i
    using g2 by (simp add: live_def uses_def entry_def item_um_def item_kind_def item_sid_def)
  have "frame_wf g2" by (rule frame_wf_same [OF same_g upd_wf [OF u wf1]])
  moreover have "coll_ok f1" using c m by (simp add: coll_ok_def collected_def marked_by_def)
  then have "coll_ok g" using u by (simp add: upd_def)
  then have "coll_ok g2"
    using g2 by (simp add: coll_ok_def collected_def item_buf_def all_rel_def item_um_def)
  moreover obtain es1 f3 where h: "handleReleasedBuffers env n g2 = (es1, f3)" by fastforce
  ultimately have f3: "same_frame g2 f3" "mNodeStatusMap f3 = mNodeStatusMap g2"
    "mInFlightNodeCount f3 = mInFlightNodeCount g2" "collected f3 = {}" "\<forall>m i. live g2 m i \<longrightarrow> live f3 m i"
    "filter is_frame_message es1 = []"
    using handleReleasedBuffers_effect [of g2 env n es1 f3] by blast+
  have same: "same_frame f f3"
    using same1 u same_g f3(1) same_frame_trans unfolding upd_def by metis
  have hb: "bs_hasBit 1 bits" by (simp add: bits_def)
  then have "bits \<noteq> 0" by auto
  then have fin_eq: "finish_node env msk n f =
      Some (es1 @ notify_listeners env n bits (fr_mListeners g2) (mFrameNo f3), f3)"
    using s(1) f1 upd h by (simp add: finish_node_def applyRelease_def Let_def)
  have "bs_hasBit 0 bits \<longleftrightarrow> ?last" by (simp add: bits_def)
  moreover have "fr_mListeners g2 = fr_mListeners f" "mFrameNo f3 = mFrameNo f"
    using same f3(1) by (simp_all add: same_frame_def)
  ultimately have msgs: "filter is_frame_message (es1 @ notify_listeners env n bits (fr_mListeners g2) (mFrameNo f3)) =
      (if ?last then frame_messages env f else [])"
    using f3(6) by (simp add: notify_frame_messages frame_messages_def)
  have fn: "frame_nodes f3 = frame_nodes f" using f3(2) g2(7) by (simp add: frame_nodes_def)
  have "node_ready f3 k" if k: "k \<in> frame_nodes f - insert n D" for k
  proof (rule node_ready_mono)
    show "node_ready f k" using k by (intro rdy) blast
    show "map_of (mNodeStatusMap f3) k = map_of (mNodeStatusMap f) k" using k f3(2) g2(7) by simp
    show "live f3 k i" if "live f k i" for i
      using live_marked [OF m _ that] live_upd [OF u] live_g f3(5) k by blast
  qed
  then have "frame_inv (insert n D) f3"
    unfolding frame_inv_def fn using frame_wf_same [OF same wf] f3(3,4) g2(8) by simp
  with fin_eq same fn msgs show ?thesis by (intro exI conjI)
qed

section \<open>All nodes finish\<close>

fun finish_nodes ::
    "frame_env \<Rightarrow> (NodeId_T \<Rightarrow> MUINT32) \<Rightarrow> NodeId_T list \<Rightarrow> 'io Frame \<Rightarrow> (frame_event list list \<times> 'io Frame) option" where
  "finish_nodes env msk [] f = Some ([], f)"
| "finish_nodes env msk (n # ns) f = do {
     (es, f1) \<leftarrow> finish_node env msk n f;
     (ess, f2) \<leftarrow> finish_nodes env msk ns f1;
     Some (es # ess, f2)
   }"

lemma finish_nodes_all:
  assumes "frame_inv D f" and "distinct ns" and "set ns = frame_nodes f - D" and "\<forall>n \<in> set ns. msk n AND RELEASE \<noteq> 0"
  shows "\<exists>ess f'. finish_nodes env msk ns f = Some (ess, f') \<and> frame_inv (D \<union> set ns) f' \<and> same_frame f f' \<and>
    frame_nodes f' = frame_nodes f \<and>
    map (filter is_frame_message) ess = (if ns = [] then [] else replicate (length ns - 1) [] @ [frame_messages env f])"
  using assms
proof (induction ns arbitrary: D f)
  case (Cons n ns)
  have n: "n \<in> frame_nodes f - D" using Cons.prems(3) by auto
  have msk: "msk n AND RELEASE \<noteq> 0" using Cons.prems(4) by simp
  from finish_node_step [of D f n msk env, OF Cons.prems(1) n msk] obtain es f1 where
    f1: "finish_node env msk n f = Some (es, f1)" "frame_inv (insert n D) f1" "same_frame f f1"
      "frame_nodes f1 = frame_nodes f"
      "filter is_frame_message es = (if frame_nodes f - insert n D = {} then frame_messages env f else [])"
    by (elim exE conjE)
  have rest: "set ns = frame_nodes f - insert n D" using Cons.prems(2,3) by auto
  then have "set ns = frame_nodes f1 - insert n D" using f1(4) by simp
  from Cons.IH [OF f1(2) _ this] Cons.prems(2,4) obtain ess f2 where
    f2: "finish_nodes env msk ns f1 = Some (ess, f2)" "frame_inv (insert n D \<union> set ns) f2" "same_frame f1 f2"
      "frame_nodes f2 = frame_nodes f1"
      "map (filter is_frame_message) ess = (if ns = [] then [] else replicate (length ns - 1) [] @ [frame_messages env f1])"
    by auto
  have fm: "frame_messages env f1 = frame_messages env f" using f1(3) by (simp add: frame_messages_def same_frame_def)
  have "(frame_nodes f - insert n D = {}) = (ns = [])" using rest by (metis set_empty)
  then have "filter is_frame_message es = (if ns = [] then frame_messages env f else [])"
    using f1(5) by simp
  then have "map (filter is_frame_message) (es # ess) = replicate (length (n # ns) - 1) [] @ [frame_messages env f]"
    using f2(5) fm by (cases ns) simp_all
  moreover have "frame_inv (D \<union> set (n # ns)) f2" using f2(2) by simp
  moreover have "finish_nodes env msk (n # ns) f = Some (es # ess, f2)" using f1(1) f2(1) by simp
  moreover have "frame_nodes f2 = frame_nodes f" using f1(4) f2(4) by simp
  ultimately show ?case using same_frame_trans [OF f1(3) f2(3)]
    by (intro exI [of _ "es # ess"] exI [of _ f2]) simp
qed simp

section \<open>A frame for the witnesses\<close>

text \<open>Stream 7, an image: node 1 makes it, nodes 2 and 3 read it, in this order.\<close>

definition ex_info :: IStreamInfo where
  "ex_info = \<lparr>si_streamId = 7, si_streamName = ''image''\<rparr>"

definition ex_nodes :: "unit FrameNodeMap" where
  "ex_nodes =
     (let io = Some \<lparr>si_metaInfos = [], si_imageInfos = [ex_info]\<rparr>; none = Some \<lparr>si_metaInfos = [], si_imageInfos = []\<rparr>;
          node = \<lambda>n ins outs. setOStreams outs (setIStreams ins (NodeInfo_new n))
      in [(1, node 1 none io), (2, node 2 io none), (3, node 3 io none)])"

definition ex_dag :: PipelineDAG where
  "ex_dag = \<lparr>mRootId = 1, mNodesVec = [], mToposort = []\<rparr>"

definition configure :: "unit Frame \<Rightarrow> unit Frame" where
  "configure f =
     snd (the (finishConfiguration (snd (setNodeMap (Some ex_nodes) (snd (setPipelineDAG (Some ex_dag)
       (snd (setPipelineNodeMap (Some (50, False)) (snd (setStreamInfoSet (Some 60)
         (snd (attachListener 8 9 f))))))))))))"

definition ex_store :: buffer_store where
  "ex_store = \<lparr>st_managers = [ex_um, UsersManager_new 7 ''image''],
     st_buffers = [\<lparr>sbf_imp = StreamBufferImp_new ex_info 100 None, sbf_manager = 1, sbf_home = True\<rparr>]\<rparr>"

text \<open>The buffer of the stream is acquired from a provider.\<close>

definition ex_frame :: "unit Frame" where
  "ex_frame = configure (snd (map_add_info HalImage ex_info (Some 0) (Frame_new 20 10 0 0 ex_store)))"

definition ex_env :: frame_env where
  "ex_env = \<lparr>env_app = True, env_provider = True, env_listener = (\<lambda>p. p = 8), env_acquire = (\<lambda>r i. (OK, Some 0))\<rparr>"

lemma ex_um_good: "um_good ex_um"
  using um_reach_inv [OF ex_um_reach] ex_um_facts by (simp add: um_good_def um_fits_def)

lemma ex_um_users: "queryUser ex_um 1 = Some 0" "queryUser ex_um 2 = Some 1" "queryUser ex_um 3 = Some 2"
  "getUserStatus ex_um 1 = 0" "getUserStatus ex_um 2 = 0" "getUserStatus ex_um 3 = 0"
  by code_simp+

lemma ex_frame_eq:
  "fr_items ex_frame = [Item_new HalImage None ex_info (Users 0)]"
  "im_mMap (fr_maps ex_frame HalImage) = [(7, Some 0)]"
  "im_mMap (fr_maps ex_frame AppImage) = []" "im_mMap (fr_maps ex_frame AppMeta) = []"
  "im_mMap (fr_maps ex_frame HalMeta) = []"
  "fr_store ex_frame = ex_store" "mInFlightNodeCount ex_frame = 3" "fr_mListeners ex_frame = [(8, 9)]"
  "mFrameNo ex_frame = 10" "mpReleasedCollector ex_frame = ReleasedCollector_new 0 0"
  "mNodeStatusMap ex_frame =
     (let e = \<lparr>io_items = [], mNotified = False\<rparr>; z = \<lparr>io_items = [0], mNotified = False\<rparr>;
          r = \<lparr>mISetImage = z, mOSetImage = e, mISetMeta = e, mOSetMeta = e\<rparr>
      in [(1, \<lparr>mISetImage = e, mOSetImage = z, mISetMeta = e, mOSetMeta = e\<rparr>), (2, r), (3, r)])"
  by (simp_all add: ex_frame_def configure_def finishConfiguration_def setNodeMap_def setPipelineDAG_def
      setPipelineNodeMap_def setStreamInfoSet_def attachListener_def map_add_info_def map_put_def edit_map_def
      Frame_new_def ex_nodes_def Let_def fnm_isEmpty_def NodeInfo_new_def setIStreams_def setOStreams_def
      collector_finishConfiguration_def make_NodeStatus_def getImageMapItemLocked_def getMapItemLocked_def
      ex_info_def node_empty_def ReleasedCollector_new_def)

lemma ex_frame_inv: "frame_inv {} ex_frame"
proof -
  note eq = ex_frame_eq
  have k: "item_kind ex_frame 0 = HalImage" "item_sid ex_frame 0 = 7" "item_mgr ex_frame 0 = 0" "item_buf ex_frame 0 = None"
    "item_um ex_frame 0 = ex_um"
    by (simp_all add: item_kind_def item_sid_def item_mgr_def item_buf_def item_ref_def item_um_def um_of_def
        manager_of_def eq Item_new_def ex_info_def ex_store_def)
  have wf: "frame_wf ex_frame"
    unfolding frame_wf_def by (simp add: eq(1) k) (simp add: eq ex_store_def)
  have live: "live ex_frame n 0" if "n \<in> {1, 2, 3}" for n
    using that ex_um_good ex_um_users
    by (auto simp: live_def uses_def k entry_def eq(1,2))
  have "frame_nodes ex_frame = {1, 2, 3}" by (auto simp: frame_nodes_def eq(11) Let_def)
  moreover have "collected ex_frame = {}" by (simp add: collected_def eq(10) ReleasedCollector_new_def)
  moreover have "node_ready ex_frame n" if "n \<in> {1, 2, 3}" for n
    using that live by (auto simp: node_ready_def eq(11) Let_def fresh_def node_items_def)
  ultimately show ?thesis using wf by (simp add: frame_inv_def eq(7))
qed

section \<open>Properties\<close>

text \<open>C3: in a configured frame every node can finish, in any order, by marking its streams
  as released and calling \<open>applyRelease\<close>: no call aborts, the listeners are told that the
  frame is released exactly once, in the call of the last node, and no node stays in flight.\<close>

theorem frame_released_once:
  assumes "frame_inv {} f" and "distinct ns" and "set ns = frame_nodes f" and "ns \<noteq> []"
    and "list_all (\<lambda>n. msk n AND RELEASE \<noteq> 0) ns"
  shows "\<exists>ess f'. finish_nodes env msk ns f = Some (ess, f') \<and> mInFlightNodeCount f' = 0 \<and>
    map (filter is_frame_message) ess = replicate (length ns - 1) [] @ [frame_messages env f]"
proof -
  from finish_nodes_all [of "{}" f ns msk env] assms obtain ess f' where
    r: "finish_nodes env msk ns f = Some (ess, f')" and inv: "frame_inv (set ns) f'"
    and fn: "frame_nodes f' = frame_nodes f"
    and e: "map (filter is_frame_message) ess = replicate (length ns - 1) [] @ [frame_messages env f]"
    by (auto simp: list_all_iff)
  have "mInFlightNodeCount f' = 0" using inv fn assms(3) by (simp add: frame_inv_def)
  with r e show ?thesis by blast
qed

theorem frame_released_once_witness:
  "\<exists>ess f'. finish_nodes ex_env (\<lambda>n. RELEASE) [2, 1, 3] ex_frame = Some (ess, f') \<and> mInFlightNodeCount f' = 0 \<and>
    map (filter is_frame_message) ess = [[], [], [FrameMessage 8 9 10 0]]"
proof -
  have ns: "distinct [2, 1, 3 :: int]" "set [2, 1, 3] = frame_nodes ex_frame" "[2, 1, 3 :: int] \<noteq> []"
    by (auto simp: frame_nodes_def ex_frame_eq(11) Let_def)
  have msk: "list_all (\<lambda>n. (\<lambda>n :: int. RELEASE) n AND RELEASE \<noteq> 0) [2, 1, 3]" by simp
  have "frame_messages ex_env ex_frame = [FrameMessage 8 9 10 0]"
    by (simp add: frame_messages_def ex_env_def ex_frame_eq)
  with frame_released_once [OF ex_frame_inv ns msk, of ex_env] show ?thesis by (simp add: numeral_eq_Suc)
qed

end
