(* ===== verification/FrameRaces.thy ===== *)
theory FrameRaces
  imports FrameProps
begin

text \<open>
  Frames whose nodes act at the same time. A node that has not released one of its streams
  keeps the frame in flight, whatever else happens; and schedules, as examples, of two nodes (or of a
  node and a pre-release) in which a frame does not do what the schedules of \<open>FrameProps\<close> do.
\<close>

section \<open>A node that is not done\<close>

definition in_range :: "'io Frame \<Rightarrow> NodeStatus \<Rightarrow> bool" where
  "in_range f s \<longleftrightarrow> list_all (\<lambda>i. i < n_items f) (node_items s)"

text \<open>What an update leaves of a set.\<close>

definition set_left :: "'io Frame \<Rightarrow> NodeId_T \<Rightarrow> IOSet \<Rightarrow> nat list" where
  "set_left f n S = (if mNotified S then io_items S
     else filter (\<lambda>i. getUserStatus (item_um f i) n AND RELEASE = 0) (io_items S))"

lemma set_left_upd: "upd f g \<Longrightarrow> \<forall>i \<in> set (io_items S). i < n_items f \<Longrightarrow> set_left g n S = set_left f n S"
  unfolding set_left_def by (auto intro!: filter_cong simp: upd_um)

lemma updateNodeStatus_left:
  assumes "frame_wf f" and "\<forall>i \<in> set (io_items S). i < n_items f"
  shows "\<exists>b S' f'. updateNodeStatus n S f = Some (b, S', f') \<and> io_items S' = set_left f n S \<and> upd f f'"
  using upd_items_left [OF assms, of n] by (auto simp: updateNodeStatus_def set_left_def)

text \<open>The update of a node that has not released item \<open>i\<close>.\<close>

lemma updater_run_waits:
  assumes wf: "frame_wf f" and s: "map_of (mNodeStatusMap f) n = Some s" and rng: "in_range f s"
    and i: "i \<in> set (node_items s)" and st: "getUserStatus (item_um f i) n AND RELEASE = 0"
  shows "\<exists>a bits g s'. updater_run n f = Some (a, bits, g\<lparr>mNodeStatusMap := kv_edit n (\<lambda>_. s') (mNodeStatusMap g)\<rparr>) \<and>
    upd f g \<and> i \<in> set (node_items s') \<and> \<not> bs_hasBit 0 bits"
proof -
  have r: "\<forall>i \<in> set (io_items (mOSetImage s)). i < n_items f" "\<forall>i \<in> set (io_items (mISetImage s)). i < n_items f"
    "\<forall>i \<in> set (io_items (mOSetMeta s)). i < n_items f" "\<forall>i \<in> set (io_items (mISetMeta s)). i < n_items f"
    using rng by (simp_all add: in_range_def node_items_def list_all_iff)
  from updateNodeStatus_left [OF wf r(1)] obtain b1 S1 f1 where
    1: "updateNodeStatus n (mOSetImage s) f = Some (b1, S1, f1)" "io_items S1 = set_left f n (mOSetImage s)" "upd f f1"
    by blast
  from updateNodeStatus_left [OF upd_wf [OF 1(3) wf]] r(2) obtain b2 S2 f2 where
    2: "updateNodeStatus n (mISetImage s) f1 = Some (b2, S2, f2)" "io_items S2 = set_left f1 n (mISetImage s)" "upd f1 f2"
    unfolding upd_n [OF 1(3)] by blast
  note u2 = upd_trans [OF 1(3) 2(3)]
  from updateNodeStatus_left [OF upd_wf [OF u2 wf]] r(3) obtain b3 S3 f3 where
    3: "updateNodeStatus n (mOSetMeta s) f2 = Some (b3, S3, f3)" "io_items S3 = set_left f2 n (mOSetMeta s)" "upd f2 f3"
    unfolding upd_n [OF u2] by blast
  note u3 = upd_trans [OF u2 3(3)]
  from updateNodeStatus_left [OF upd_wf [OF u3 wf]] r(4) obtain b4 S4 f4 where
    4: "updateNodeStatus n (mISetMeta s) f3 = Some (b4, S4, f4)" "io_items S4 = set_left f3 n (mISetMeta s)" "upd f3 f4"
    unfolding upd_n [OF u3] by blast
  let ?s = "\<lparr>mISetImage = S2, mOSetImage = S1, mISetMeta = S4, mOSetMeta = S3\<rparr>"
  have left: "node_items ?s = set_left f n (mOSetImage s) @ set_left f n (mISetImage s) @
      set_left f n (mOSetMeta s) @ set_left f n (mISetMeta s)"
    using 1(2) 2(2) 3(2) 4(2) set_left_upd [OF 1(3) r(2)] set_left_upd [OF u2 r(3)] set_left_upd [OF u3 r(4)]
    by (simp add: node_items_def)
  have "i \<in> set (node_items ?s)" using i st unfolding left by (auto simp: node_items_def set_left_def)
  moreover from this have "\<not> node_empty ?s" by (auto simp: node_empty_def node_items_def)
  ultimately show ?thesis
    using s 1(1) 2(1) 3(1) 4(1) upd_trans [OF u3 4(3)]
    by (auto simp: updater_run_def Let_def intro!: exI [of _ ?s])
qed

section \<open>Schedules\<close>

text \<open>
  The frame of \<open>FrameProps\<close>: node 1 makes image 7, nodes 2 and 3 read it. \<open>with_buffer\<close> is
  the frame once node 1 has got the buffer from the provider, \<open>added_frame\<close> the frame whose
  buffer was added with the stream.
\<close>

definition mark_image :: "MUINT32 \<Rightarrow> NodeId_T \<Rightarrow> 'io Frame \<Rightarrow> 'io Frame" where
  "mark_image msk n f = snd (the (frame_markUserStatus 7 n msk f))"

definition released_by :: "NodeId_T \<Rightarrow> 'io Frame \<Rightarrow> frame_event list \<times> 'io Frame" where
  "released_by n f = the (applyRelease ex_env n f)"

definition with_buffer :: "unit Frame" where
  "with_buffer = snd (the (getBufferLockedImp ex_env 7 1 HalImage ex_frame))"

definition added_frame :: "unit Frame" where
  "added_frame = configure (snd (map_add_buffer HalImage (Some 0)
     (Frame_new 20 10 0 0 (store_setUsersManager 0 (Users 0) ex_store))))"

definition both_marked :: "unit Frame" where
  "both_marked = mark_image RELEASE 3 (mark_image RELEASE 2 (snd (released_by 1 (mark_image RELEASE 1 with_buffer))))"

text \<open>Nodes 2 and 3 have both marked the image when node 2 applies first.\<close>

definition race_first :: "frame_event list \<times> unit Frame" where
  "race_first = released_by 2 both_marked"

definition race_second :: "frame_event list \<times> unit Frame" where
  "race_second = released_by 3 (snd race_first)"

text \<open>The frame without a buffer for the image, when the producer releases it unused.\<close>

definition unused_image :: "unit Frame \<Rightarrow> frame_event list" where
  "unused_image f =
     fst (released_by 3 (mark_image RELEASE 3 (snd (released_by 2 (mark_image RELEASE 2
       (snd (released_by 1 (mark_image RELEASE 1 f))))))))"

definition is_return :: "frame_event \<Rightarrow> bool" where
  "is_return e \<longleftrightarrow> (case e of BufferReturned b st \<Rightarrow> True | _ \<Rightarrow> False)"

text \<open>The buffer goes home with the first node that applies, and its manager, which the frame still
  reads, is reset: the release of the second node is forgotten, its node stays in flight and the
  frame is never reported as released; marking the image again is a fault.\<close>

lemma race_run:
  "filter is_frame_message (fst race_first @ fst race_second) = []"
  "filter is_return (fst race_first) = [BufferReturned 0 0]"
  "mInFlightNodeCount (snd race_second) = 1"
  "getUserStatus (item_um (snd race_second) 0) 3 = 0"
  by code_simp+

lemma race_mark: "Option.is_none (frame_markUserStatus 7 3 RELEASE (snd race_second))"
  by code_simp

lemma prerelease_none: "applyPreRelease env u f = (es, f') \<Longrightarrow> filter is_return es = [] \<and> collected f' = {} \<and> fr_store f' = fr_store f"
  by (auto simp: applyPreRelease_def take_collected_def Let_def collected_def is_return_def)

text \<open>The last node has updated the frame and has not handled the released buffers yet.\<close>

definition last_update :: "unit Frame" where
  "last_update = snd (the (applyRelease_update 3 (mark_image RELEASE 3 (snd (released_by 2 (mark_image RELEASE 2
       (snd (released_by 1 (mark_image RELEASE 1 with_buffer)))))))))"

lemma last_run:
  "filter is_return (fst (handleReleasedBuffers ex_env 3 last_update)) = [BufferReturned 0 0]"
  "filter is_return (fst (handleReleasedBuffers ex_env 3 (snd (applyPreRelease ex_env 1 last_update)))) = []"
  by code_simp+

section \<open>Properties\<close>

text \<open>C18: a node that has not released one of its streams stays in flight: \<open>applyRelease\<close> does
  not abort, leaves the number of nodes in flight and the item in the sets of the node, and
  reports no released frame.\<close>

theorem applyRelease_waits:
  assumes "frame_wf f" and "coll_ok f" and "map_of (mNodeStatusMap f) n = Some s" and "in_range f s"
    and "i \<in> set (node_items s)" and "getUserStatus (item_um f i) n AND RELEASE = 0" and "mInFlightNodeCount f \<noteq> 0"
  shows "\<exists>es f' s'. applyRelease env n f = Some (es, f') \<and> mInFlightNodeCount f' = mInFlightNodeCount f \<and>
    map_of (mNodeStatusMap f') n = Some s' \<and> i \<in> set (node_items s') \<and> filter is_frame_message es = []"
proof -
  from updater_run_waits [OF assms(1,3,4,5,6)] obtain a bits g s' where
    run: "updater_run n f = Some (a, bits, g\<lparr>mNodeStatusMap := kv_edit n (\<lambda>_. s') (mNodeStatusMap g)\<rparr>)"
    and u: "upd f g" and s': "i \<in> set (node_items s')" and b: "\<not> bs_hasBit 0 bits" by (elim exE conjE)
  let ?g = "g\<lparr>mNodeStatusMap := kv_edit n (\<lambda>_. s') (mNodeStatusMap g)\<rparr>"
  have cnt: "mInFlightNodeCount g = mInFlightNodeCount f" "mNodeStatusMap g = mNodeStatusMap f" "coll_ok g"
    using u assms(2) by (simp_all add: upd_def)
  have upd: "applyRelease_update n f = Some (bits, ?g)" using run cnt assms(7) by (simp add: applyRelease_update_def)
  have "same_frame g ?g" by (simp add: same_frame_def)
  from frame_wf_same [OF this upd_wf [OF u assms(1)]] have wf: "frame_wf ?g" .
  have ok: "coll_ok ?g" using cnt(3) by (simp add: coll_ok_def collected_def item_buf_def all_rel_def item_um_def)
  obtain es f' where h: "handleReleasedBuffers env n ?g = (es, f')" by fastforce
  from handleReleasedBuffers_effect [OF ok wf h] have
    f': "mNodeStatusMap f' = mNodeStatusMap ?g" "mInFlightNodeCount f' = mInFlightNodeCount ?g"
      "filter is_frame_message es = []" by blast+
  have "map_of (mNodeStatusMap f') n = Some s'" using f'(1) cnt(2) assms(3) by simp
  with upd h f' b cnt(1) s' show ?thesis
    by (auto simp: applyRelease_def Let_def notify_frame_messages intro!: exI [of _ s'])
qed


theorem applyRelease_waits_witness:
  "\<exists>es f' s'. applyRelease ex_env 2 ex_frame = Some (es, f') \<and> mInFlightNodeCount f' = 3 \<and>
    map_of (mNodeStatusMap f') 2 = Some s' \<and> 0 \<in> set (node_items s') \<and> filter is_frame_message es = []"
proof -
  have s: "map_of (mNodeStatusMap ex_frame) 2 = Some \<lparr>mISetImage = \<lparr>io_items = [0], mNotified = False\<rparr>,
      mOSetImage = \<lparr>io_items = [], mNotified = False\<rparr>, mISetMeta = \<lparr>io_items = [], mNotified = False\<rparr>,
      mOSetMeta = \<lparr>io_items = [], mNotified = False\<rparr>\<rparr>" (is "_ = Some ?s")
    by (simp add: ex_frame_eq(11) Let_def)
  have wf: "frame_wf ex_frame" "coll_ok ex_frame" using ex_frame_inv by (simp_all add: frame_inv_def coll_ok_def)
  have i: "in_range ex_frame ?s" "0 \<in> set (node_items ?s)"
    by (simp_all add: in_range_def node_items_def ex_frame_eq(1))
  have "item_um ex_frame 0 = ex_um"
    by (simp add: item_um_def um_of_def manager_of_def ex_frame_eq(1,6) Item_new_def ex_store_def)
  then have st: "getUserStatus (item_um ex_frame 0) 2 AND RELEASE = 0" by (simp add: ex_um_users)
  have "mInFlightNodeCount ex_frame \<noteq> 0" by (simp add: ex_frame_eq(7))
  from applyRelease_waits [OF wf s i st this, of ex_env] show ?thesis by (simp add: ex_frame_eq(7))
qed

text \<open>When the producer releases an image it has not used, a buffer that was added with
  the stream goes home with the error status, and one that was acquired from the provider does
  not, since the mark is made on the manager and not on the buffer.\<close>

theorem error_lost_for_acquired_buffer:
  "filter is_return (unused_image with_buffer) = [BufferReturned 0 0] \<and>
   filter is_return (unused_image added_frame) = [BufferReturned 0 STATUS_ERROR]"
  by code_simp

text \<open>\<open>applyPreRelease\<close> returns no buffer and leaves none collected; called between the two
  parts of the last node's \<open>applyRelease\<close>, it drops the buffer that the node would have returned.\<close>

theorem applyPreRelease_drops:
  "filter is_return (fst (applyPreRelease env u f)) = [] \<and> collected (snd (applyPreRelease env u f)) = {} \<and>
   filter is_return (fst (handleReleasedBuffers ex_env 3 last_update)) = [BufferReturned 0 0] \<and>
   filter is_return (fst (handleReleasedBuffers ex_env 3 (snd (applyPreRelease ex_env 1 last_update)))) = []"
  by (simp add: prerelease_none [OF surjective_pairing] last_run)

end
