(* ===== verification/ContextConfig.thy ===== *)
theory ContextConfig
  imports FrameNodeMap
begin

text \<open>
  What a pipeline context is configured with
  (\<open>mtkcam/pipeline/pipeline/PipelineContextImpl.cpp\<close>, its header, \<open>PipelineContext.cpp\<close>,
  \<open>PipelineNodeMapControlImp.cpp\<close> and \<open>IStreamInfoSetControl.h\<close>): the streams, the nodes with
  their streams, the edges between the nodes, and how the configuration becomes the graph
  of nodes and the map of nodes that the frames use.

  Node actors, buffer pools and providers are named by addresses; the creation of a pool
  is an argument. The builders hand their fields to the three \<open>updateConfig\<close>s.
\<close>

section \<open>Sets of stream information\<close>

record StreamInfoSetControl =
  ctl_AppMeta :: "(StreamId_T, IStreamInfo) kvec"
  ctl_HalMeta :: "(StreamId_T, IStreamInfo) kvec"
  ctl_AppImage :: "(StreamId_T, IStreamInfo) kvec"
  ctl_HalImage :: "(StreamId_T, IStreamInfo) kvec"

definition StreamInfoSetControl_new :: StreamInfoSetControl where
  "StreamInfoSetControl_new = \<lparr>ctl_AppMeta = [], ctl_HalMeta = [], ctl_AppImage = [], ctl_HalImage = []\<rparr>"

definition addStream :: "IStreamInfo \<Rightarrow> (StreamId_T, IStreamInfo) kvec \<Rightarrow> (StreamId_T, IStreamInfo) kvec" where
  "addStream p m = kv_add (si_streamId p) p m"

text \<open>A set looks into the application's map first.\<close>

definition set_valueFor ::
    "(StreamId_T, IStreamInfo) kvec \<Rightarrow> (StreamId_T, IStreamInfo) kvec \<Rightarrow> StreamId_T \<Rightarrow> IStreamInfo option" where
  "set_valueFor mApp mHal i = (case map_of mApp i of Some p \<Rightarrow> Some p | None \<Rightarrow> map_of mHal i)"

definition getMetaInfoFor :: "StreamInfoSetControl \<Rightarrow> StreamId_T \<Rightarrow> IStreamInfo option" where
  "getMetaInfoFor c i = set_valueFor (ctl_AppMeta c) (ctl_HalMeta c) i"

definition getImageInfoFor :: "StreamInfoSetControl \<Rightarrow> StreamId_T \<Rightarrow> IStreamInfo option" where
  "getImageInfoFor c i = set_valueFor (ctl_AppImage c) (ctl_HalImage c) i"

section \<open>Node actors\<close>

abbreviation (input) eNodeState_Create :: nat where "eNodeState_Create \<equiv> 0"
abbreviation (input) eNodeState_Init :: nat where "eNodeState_Init \<equiv> 1"
abbreviation (input) eNodeState_Config :: nat where "eNodeState_Config \<equiv> 2"

text \<open>
  \<open>PRECHECK_STATUS\<close> and \<open>UPDATE_STATUS_IF_OK\<close> around the derived class's function, which
  returns \<open>ret\<close>. Each call says whether that function was called.
\<close>

definition actor_step :: "nat \<Rightarrow> nat \<Rightarrow> nat \<Rightarrow> MERROR \<Rightarrow> nat \<Rightarrow> MERROR \<times> bool \<times> nat" where
  "actor_step skip expected newstatus ret st =
     (if skip \<le> st then (OK, False, st)
      else if st \<noteq> expected then (INVALID_OPERATION, False, st)
      else (ret, True, if ret = OK then newstatus else st))"

definition actor_init :: "MERROR \<Rightarrow> nat \<Rightarrow> MERROR \<times> bool \<times> nat" where
  "actor_init = actor_step eNodeState_Init eNodeState_Create eNodeState_Init"

definition actor_config :: "MERROR \<Rightarrow> nat \<Rightarrow> MERROR \<times> bool \<times> nat" where
  "actor_config = actor_step eNodeState_Config eNodeState_Init eNodeState_Config"

definition actor_uninit :: "MERROR \<Rightarrow> nat \<Rightarrow> MERROR \<times> bool \<times> nat" where
  "actor_uninit ret st = (if st < eNodeState_Init then (OK, False, st) else (ret, True, eNodeState_Create))"

definition actor_onLastStrongRef :: "nat \<Rightarrow> bool" where
  "actor_onLastStrongRef st \<longleftrightarrow> eNodeState_Init \<le> st"

section \<open>Sets with insertion order\<close>

definition Set_add :: "'a \<Rightarrow> 'a list \<Rightarrow> 'a list" where
  "Set_add item s = (if item \<in> set s then s else s @ [item])"

definition Set_add_all :: "'a list \<Rightarrow> 'a list \<Rightarrow> 'a list" where
  "Set_add_all t s = fold Set_add t s"

lemma Set_add_simps [simp]:
  "set (Set_add x s) = insert x (set s)" "distinct s \<Longrightarrow> distinct (Set_add x s)"
  by (auto simp: Set_add_def)

lemma Set_add_all_simps [simp]:
  "set (Set_add_all t s) = set t \<union> set s" "distinct s \<Longrightarrow> distinct (Set_add_all t s)"
  by (induction t arbitrary: s) (auto simp: Set_add_all_def)

section \<open>Stream configuration\<close>

abbreviation (input) eBehavior_HAL :: MUINT32 where "eBehavior_HAL \<equiv> 0"
abbreviation (input) eBehavior_APP :: MUINT32 where "eBehavior_APP \<equiv> 8"
abbreviation (input) eBehavior_HAL_POOL :: MUINT32 where "eBehavior_HAL_POOL \<equiv> 1"
abbreviation (input) eBehavior_HAL_RUNTIME :: MUINT32 where "eBehavior_HAL_RUNTIME \<equiv> 2"
abbreviation (input) eBehavior_HAL_PROVIDER :: MUINT32 where "eBehavior_HAL_PROVIDER \<equiv> 3"
abbreviation (input) eType_IMAGE :: MUINT32 where "eType_IMAGE \<equiv> 0"
abbreviation (input) eType_META :: MUINT32 where "eType_META \<equiv> 16"
abbreviation (input) eStreamType_IMG_HAL_POOL :: MUINT32 where "eStreamType_IMG_HAL_POOL \<equiv> 1"
abbreviation (input) eStreamType_IMG_HAL_PROVIDER :: MUINT32 where "eStreamType_IMG_HAL_PROVIDER \<equiv> 3"

definition BehaviorOf :: "MUINT32 \<Rightarrow> MUINT32" where "BehaviorOf t = t AND 8"
definition HalBehaviorOf :: "MUINT32 \<Rightarrow> MUINT32" where "HalBehaviorOf t = t AND 15"
definition TypeOf :: "MUINT32 \<Rightarrow> MUINT32" where "TypeOf t = t AND 16"

lemma bit_app: "bit (8 :: MUINT32) j \<longleftrightarrow> j = 3"
proof -
  have "(8 :: MUINT32) = push_bit 3 1" by simp
  then have "bit (8 :: MUINT32) j = bit (push_bit 3 1 :: MUINT32) j" by (rule arg_cong)
  also have "\<dots> \<longleftrightarrow> j = 3" unfolding bit_push_bit_iff by (auto simp: bit_1_iff)
  finally show ?thesis .
qed

lemma BehaviorOf_cases: "BehaviorOf t = eBehavior_APP \<or> BehaviorOf t = eBehavior_HAL"
proof (cases "bit t 3")
  case True
  then have "t AND 8 = 8" unfolding word32_eq_iff bit_and_iff bit_app by auto
  then show ?thesis by (simp add: BehaviorOf_def)
next
  case False
  then have "t AND 8 = 0" unfolding word32_eq_iff bit_and_iff bit_app by auto
  then show ?thesis by (simp add: BehaviorOf_def)
qed

record ItemImageStream =
  its_pInfo :: IStreamInfo
  its_type :: MUINT32
  its_pPool :: "nat option"
  its_pProvider :: "nat option"

record ItemMetaStream =
  mts_pInfo :: IStreamInfo
  mts_type :: MUINT32

record StreamConfig =
  mStreamMap_Image :: "(StreamId_T, ItemImageStream) kvec"
  mStreamMap_Meta :: "(StreamId_T, ItemMetaStream) kvec"

definition StreamConfig_new :: StreamConfig where
  "StreamConfig_new = \<lparr>mStreamMap_Image = [], mStreamMap_Meta = []\<rparr>"

definition sc_add_image :: "ItemImageStream \<Rightarrow> StreamConfig \<Rightarrow> MERROR \<times> StreamConfig" where
  "sc_add_image pItem c = (OK, c\<lparr>mStreamMap_Image := kv_add (si_streamId (its_pInfo pItem)) pItem (mStreamMap_Image c)\<rparr>)"

definition sc_add_meta :: "ItemMetaStream \<Rightarrow> StreamConfig \<Rightarrow> MERROR \<times> StreamConfig" where
  "sc_add_meta pItem c = (OK, c\<lparr>mStreamMap_Meta := kv_add (si_streamId (mts_pInfo pItem)) pItem (mStreamMap_Meta c)\<rparr>)"

definition queryImage :: "StreamConfig \<Rightarrow> StreamId_T \<Rightarrow> ItemImageStream option" where
  "queryImage c streamId = map_of (mStreamMap_Image c) streamId"

definition queryMeta :: "StreamConfig \<Rightarrow> StreamId_T \<Rightarrow> ItemMetaStream option" where
  "queryMeta c streamId = map_of (mStreamMap_Meta c) streamId"

record StreamBuilderImpl =
  sb_mType :: MUINT32
  sb_mpImageStreamInfo :: "IStreamInfo option"
  sb_mpMetaStreamInfo :: "IStreamInfo option"
  sb_mpProvider :: "nat option"

text \<open>\<open>updateConfig\<close> of a stream; \<open>pool\<close> is the result of \<open>createHalStreamBufferPool\<close>.\<close>

definition updateConfig_stream ::
    "(IStreamInfo \<Rightarrow> nat option) \<Rightarrow> StreamBuilderImpl \<Rightarrow> StreamConfig \<Rightarrow> MERROR \<times> StreamConfig" where
  "updateConfig_stream pool b c =
     (let type = sb_mType b in
      if TypeOf type = eType_IMAGE then
        (case sb_mpImageStreamInfo b of
           None \<Rightarrow> (BAD_VALUE, c)
         | Some info \<Rightarrow>
             let item = \<lparr>its_pInfo = info, its_type = type, its_pPool = None, its_pProvider = None\<rparr> in
             if type = eStreamType_IMG_HAL_POOL then
               (case pool info of
                  None \<Rightarrow> (DEAD_OBJECT, c)
                | Some p \<Rightarrow> sc_add_image (item\<lparr>its_pPool := Some p\<rparr>) c)
             else if type = eStreamType_IMG_HAL_PROVIDER then
               (case sb_mpProvider b of
                  None \<Rightarrow> (DEAD_OBJECT, c)
                | Some p \<Rightarrow> sc_add_image (item\<lparr>its_pProvider := Some p\<rparr>) c)
             else sc_add_image item c)
      else if TypeOf type = eType_META then
        (case sb_mpMetaStreamInfo b of
           None \<Rightarrow> (BAD_VALUE, c)
         | Some info \<Rightarrow> sc_add_meta \<lparr>mts_pInfo = info, mts_type = type\<rparr> c)
      else (UNKNOWN_ERROR, c))"

definition impl_reuseStream :: "ItemImageStream option \<Rightarrow> StreamConfig \<Rightarrow> MERROR \<times> StreamConfig" where
  "impl_reuseStream pItem c = (case pItem of None \<Rightarrow> (BAD_VALUE, c) | Some item \<Rightarrow> sc_add_image item c)"

text \<open>
  \<open>acquireHalStreamBuffer\<close>: \<open>from_pool\<close>, \<open>from_provider\<close> and \<open>allocate\<close> are the three
  sources. \<open>None\<close> is the fault at a stream that is not configured.
\<close>

definition acquireHalStreamBuffer ::
    "(nat \<Rightarrow> MERROR \<times> nat option) \<Rightarrow> (nat \<Rightarrow> MUINT32 \<Rightarrow> IStreamInfo \<Rightarrow> MERROR \<times> nat option) \<Rightarrow>
     (IStreamInfo \<Rightarrow> nat option) \<Rightarrow> StreamConfig \<Rightarrow> MUINT32 \<Rightarrow> IStreamInfo \<Rightarrow> (MERROR \<times> nat option) option" where
  "acquireHalStreamBuffer from_pool from_provider allocate c requestNo pStreamInfo =
     (case queryImage c (si_streamId pStreamInfo) of
        None \<Rightarrow> None
      | Some item \<Rightarrow>
          let behavior = HalBehaviorOf (its_type item) in
          if behavior = eBehavior_HAL_POOL then
            Some (case its_pPool item of None \<Rightarrow> (UNKNOWN_ERROR, None) | Some p \<Rightarrow> from_pool p)
          else if behavior = eBehavior_HAL_PROVIDER then
            Some (case its_pProvider item of
                    None \<Rightarrow> (UNKNOWN_ERROR, None)
                  | Some p \<Rightarrow> from_provider p requestNo pStreamInfo)
          else if behavior = eBehavior_HAL_RUNTIME then
            (let b = allocate pStreamInfo in Some (if b = None then UNKNOWN_ERROR else OK, b))
          else Some (UNKNOWN_ERROR, None))"

section \<open>Node configuration\<close>

record ContextNode =
  cn_mNodeId :: NodeId_T
  cn_mpNode :: nat
  cn_mpInStreams :: "StreamInfoSetControl option"
  cn_mpOutStreams :: "StreamInfoSetControl option"

definition ContextNode_new :: "NodeId_T \<Rightarrow> nat \<Rightarrow> ContextNode" where
  "ContextNode_new nodeId pNode = \<lparr>cn_mNodeId = nodeId, cn_mpNode = pNode, cn_mpInStreams = None, cn_mpOutStreams = None\<rparr>"

type_synonym StreamUsageMap = "(StreamId_T, MUINT32) kvec"

record NodeConfig =
  mConfig_NodeMap :: "(NodeId_T, ContextNode) kvec"
  mNodeImageStreamUsage :: "(NodeId_T, StreamUsageMap) kvec"

definition NodeConfig_new :: NodeConfig where
  "NodeConfig_new = \<lparr>mConfig_NodeMap = [], mNodeImageStreamUsage = []\<rparr>"

definition nc_addNode :: "NodeId_T \<Rightarrow> ContextNode \<Rightarrow> NodeConfig \<Rightarrow> NodeConfig" where
  "nc_addNode nodeId pNode c = c\<lparr>mConfig_NodeMap := kv_add nodeId pNode (mConfig_NodeMap c)\<rparr>"

definition setImageStreamUsage :: "NodeId_T \<Rightarrow> StreamUsageMap \<Rightarrow> NodeConfig \<Rightarrow> NodeConfig" where
  "setImageStreamUsage nodeId usgMap c = c\<lparr>mNodeImageStreamUsage := kv_add nodeId usgMap (mNodeImageStreamUsage c)\<rparr>"

definition getImageStreamUsage :: "NodeConfig \<Rightarrow> NodeId_T \<Rightarrow> StreamUsageMap" where
  "getImageStreamUsage c nodeId = (case map_of (mNodeImageStreamUsage c) nodeId of None \<Rightarrow> [] | Some m \<Rightarrow> m)"

definition queryNode :: "NodeConfig \<Rightarrow> NodeId_T \<Rightarrow> ContextNode option" where
  "queryNode c nodeId = map_of (mConfig_NodeMap c) nodeId"

definition queryMinimalUsage :: "NodeConfig \<Rightarrow> NodeId_T \<Rightarrow> StreamId_T \<Rightarrow> MUINT32" where
  "queryMinimalUsage c nodeId streamId =
     (case map_of (mNodeImageStreamUsage c) nodeId of
        None \<Rightarrow> 0
      | Some usg \<Rightarrow> (case map_of usg streamId of None \<Rightarrow> 0 | Some u \<Rightarrow> u))"

text \<open>Images are looked up first, then metadata.\<close>

fun set_streaminfoset_from_config ::
    "StreamId_T list \<Rightarrow> StreamConfig \<Rightarrow> StreamInfoSetControl \<Rightarrow> MERROR \<times> StreamInfoSetControl" where
  "set_streaminfoset_from_config [] c s = (OK, s)"
| "set_streaminfoset_from_config (streamId # rest) c s =
     (case queryImage c streamId of
        Some item \<Rightarrow>
          set_streaminfoset_from_config rest c
            (if BehaviorOf (its_type item) = eBehavior_HAL
             then s\<lparr>ctl_HalImage := addStream (its_pInfo item) (ctl_HalImage s)\<rparr>
             else s\<lparr>ctl_AppImage := addStream (its_pInfo item) (ctl_AppImage s)\<rparr>)
      | None \<Rightarrow>
          (case queryMeta c streamId of
             Some item \<Rightarrow>
               set_streaminfoset_from_config rest c
                 (if BehaviorOf (mts_type item) = eBehavior_HAL
                  then s\<lparr>ctl_HalMeta := addStream (mts_pInfo item) (ctl_HalMeta s)\<rparr>
                  else s\<lparr>ctl_AppMeta := addStream (mts_pInfo item) (ctl_AppMeta s)\<rparr>)
           | None \<Rightarrow> (NAME_NOT_FOUND, s)))"

record NodeBuilderImpl =
  nb_mpContextNode :: ContextNode
  nb_mInStreamSet :: "StreamId_T list"
  nb_mOutStreamSet :: "StreamId_T list"
  nb_mUsageMap :: StreamUsageMap

definition NodeBuilder_addStream :: "bool \<Rightarrow> StreamId_T list \<Rightarrow> NodeBuilderImpl \<Rightarrow> NodeBuilderImpl" where
  "NodeBuilder_addStream out streams b =
     (if \<not> out then b\<lparr>nb_mInStreamSet := Set_add_all streams (nb_mInStreamSet b)\<rparr>
      else b\<lparr>nb_mOutStreamSet := Set_add_all streams (nb_mOutStreamSet b)\<rparr>)"

definition NodeBuilder_setImageStreamUsage :: "StreamId_T \<Rightarrow> MUINT32 \<Rightarrow> NodeBuilderImpl \<Rightarrow> NodeBuilderImpl" where
  "NodeBuilder_setImageStreamUsage streamId bufUsage b = b\<lparr>nb_mUsageMap := kv_add streamId bufUsage (nb_mUsageMap b)\<rparr>"

definition updateConfig_node :: "NodeBuilderImpl \<Rightarrow> StreamConfig \<Rightarrow> NodeConfig \<Rightarrow> MERROR \<times> NodeConfig" where
  "updateConfig_node b sc nc =
     (if nb_mInStreamSet b = [] \<and> nb_mOutStreamSet b = [] then (BAD_VALUE, nc)
      else
        let (err1, pInStreams) = set_streaminfoset_from_config (nb_mInStreamSet b) sc StreamInfoSetControl_new in
        if err1 \<noteq> OK then (err1, nc)
        else
          let (err2, pOutStreams) = set_streaminfoset_from_config (nb_mOutStreamSet b) sc StreamInfoSetControl_new in
          if err2 \<noteq> OK then (err2, nc)
          else
            let pNode = (nb_mpContextNode b)\<lparr>cn_mpInStreams := Some pInStreams, cn_mpOutStreams := Some pOutStreams\<rparr>;
                nodeId = cn_mNodeId pNode
            in (OK, setImageStreamUsage nodeId (nb_mUsageMap b) (nc_addNode nodeId pNode nc)))"

definition impl_reuseNode :: "NodeId_T \<Rightarrow> ContextNode option \<Rightarrow> StreamUsageMap \<Rightarrow> NodeConfig \<Rightarrow> MERROR \<times> NodeConfig" where
  "impl_reuseNode nodeId pNode usgMap nc =
     (case pNode of
        None \<Rightarrow> (BAD_VALUE, nc)
      | Some n \<Rightarrow> (OK, setImageStreamUsage nodeId usgMap (nc_addNode nodeId n nc)))"

section \<open>Reusing what an old context has\<close>

text \<open>\<open>old\<close> is the old context's configuration, \<open>None\<close> without an old context.\<close>

definition context_queryStream :: "StreamConfig \<Rightarrow> StreamId_T \<Rightarrow> MERROR \<times> IStreamInfo option" where
  "context_queryStream c streamId = (OK, map_option its_pInfo (queryImage c streamId))"

definition context_reuseStream ::
    "StreamConfig option \<Rightarrow> IStreamInfo option \<Rightarrow> StreamConfig \<Rightarrow> MERROR \<times> IStreamInfo option \<times> StreamConfig" where
  "context_reuseStream old pStreamInfo c =
     (case (pStreamInfo, old) of
        (Some info, Some oc) \<Rightarrow>
          (case queryImage oc (si_streamId info) of
             None \<Rightarrow> (BAD_VALUE, pStreamInfo, c)
           | Some item \<Rightarrow>
               let (err, c1) = impl_reuseStream (Some item) c
               in if err \<noteq> OK then (err, pStreamInfo, c1) else (OK, Some (its_pInfo item), c1))
      | _ \<Rightarrow> (NAME_NOT_FOUND, pStreamInfo, c))"

definition context_reuseNode :: "NodeConfig option \<Rightarrow> NodeId_T \<Rightarrow> NodeConfig \<Rightarrow> MERROR \<times> NodeConfig" where
  "context_reuseNode old nodeId nc =
     (case old of
        None \<Rightarrow> (NAME_NOT_FOUND, nc)
      | Some onc \<Rightarrow>
          (case queryNode onc nodeId of
             None \<Rightarrow> (BAD_VALUE, nc)
           | Some n \<Rightarrow> impl_reuseNode nodeId (Some n) (getImageStreamUsage onc nodeId) nc))"

section \<open>Pipeline configuration\<close>

record PipelineConfig =
  pc_mRootNodes :: "NodeId_T list"
  pc_mNodeEdges :: "(NodeId_T \<times> NodeId_T) list"

definition PipelineConfig_new :: PipelineConfig where
  "PipelineConfig_new = \<lparr>pc_mRootNodes = [], pc_mNodeEdges = []\<rparr>"

definition NodeEdgeSet_addEdge :: "NodeId_T \<Rightarrow> NodeId_T \<Rightarrow> (NodeId_T \<times> NodeId_T) list \<Rightarrow> (NodeId_T \<times> NodeId_T) list" where
  "NodeEdgeSet_addEdge src dst s = Set_add (src, dst) s"

definition PipelineBuilder_setRootNode :: "NodeId_T list \<Rightarrow> PipelineConfig \<Rightarrow> PipelineConfig" where
  "PipelineBuilder_setRootNode roots b = b\<lparr>pc_mRootNodes := Set_add_all roots (pc_mRootNodes b)\<rparr>"

definition PipelineBuilder_setNodeEdges :: "(NodeId_T \<times> NodeId_T) list \<Rightarrow> PipelineConfig \<Rightarrow> PipelineConfig" where
  "PipelineBuilder_setNodeEdges edges b = b\<lparr>pc_mNodeEdges := edges\<rparr>"

text \<open>The builder has the two fields of the configuration.\<close>

definition updateConfig_pipeline :: "PipelineConfig \<Rightarrow> NodeConfig \<Rightarrow> PipelineConfig \<Rightarrow> MERROR \<times> PipelineConfig" where
  "updateConfig_pipeline b nc c =
     (if length (pc_mRootNodes b) \<noteq> 1 then (BAD_VALUE, c)
      else if list_all (\<lambda>(src, dst). queryNode nc src \<noteq> None \<and> queryNode nc dst \<noteq> None) (pc_mNodeEdges b)
      then (OK, c\<lparr>pc_mRootNodes := pc_mRootNodes b, pc_mNodeEdges := pc_mNodeEdges b\<rparr>)
      else (NAME_NOT_FOUND, c))"

section \<open>The map of the pipeline's nodes\<close>

record PipelineNode =
  pn_mpNode :: nat
  pn_mpInStreams :: StreamInfoSetControl
  pn_mpOutStreams :: StreamInfoSetControl

type_synonym PipelineNodeMap = "(NodeId_T, PipelineNode) kvec"

definition pnm_clear :: "PipelineNodeMap \<Rightarrow> PipelineNodeMap" where
  "pnm_clear m = []"

definition pnm_add :: "NodeId_T \<Rightarrow> nat \<Rightarrow> PipelineNodeMap \<Rightarrow> nat option \<times> PipelineNodeMap" where
  "pnm_add nid node m =
     (let m' = kv_add nid \<lparr>pn_mpNode = node, pn_mpInStreams = StreamInfoSetControl_new,
                           pn_mpOutStreams = StreamInfoSetControl_new\<rparr> m
      in (kv_index m' nid, m'))"

definition pnm_isEmpty :: "PipelineNodeMap \<Rightarrow> bool" where
  "pnm_isEmpty m \<longleftrightarrow> m = []"

definition pnm_size :: "PipelineNodeMap \<Rightarrow> nat" where
  "pnm_size m = length m"

definition pnm_getNodeFor :: "NodeId_T \<Rightarrow> PipelineNodeMap \<Rightarrow> PipelineNode option" where
  "pnm_getNodeFor nid m = map_of m nid"

text \<open>An index that is not in the map is a fault.\<close>

definition pnm_getNodeAt :: "int \<Rightarrow> PipelineNodeMap \<Rightarrow> PipelineNode option" where
  "pnm_getNodeAt index m = (if 0 \<le> index \<and> nat index < length m then Some (snd (m ! nat index)) else None)"

definition pnm_nodeFor :: "NodeId_T \<Rightarrow> PipelineNodeMap \<Rightarrow> nat option" where
  "pnm_nodeFor nid m = map_option pn_mpNode (pnm_getNodeFor nid m)"

definition pnm_nodeAt :: "int \<Rightarrow> PipelineNodeMap \<Rightarrow> nat option" where
  "pnm_nodeAt index m = map_option pn_mpNode (pnm_getNodeAt index m)"

section \<open>Configuring the pipeline\<close>

text \<open>The loop over the configured nodes, \<open>i\<close> the position of the first of them.\<close>

fun config_nodes ::
    "nat \<Rightarrow> ContextNode list \<Rightarrow> PipelineDAG \<times> PipelineNodeMap \<Rightarrow> (PipelineDAG \<times> PipelineNodeMap) option" where
  "config_nodes i [] s = Some s"
| "config_nodes i (n # ns) (d, m) = do {
     ins \<leftarrow> cn_mpInStreams n;
     outs \<leftarrow> cn_mpOutStreams n;
     let (index, m1) = pnm_add (cn_mNodeId n) (cn_mpNode n) m;
         m2 = kv_edit (cn_mNodeId n) (\<lambda>p. p\<lparr>pn_mpInStreams := ins, pn_mpOutStreams := outs\<rparr>) m1
     in config_nodes (Suc i) ns (snd (addNode d (cn_mNodeId n) (int i)), m2)
   }"

fun config_edges :: "(NodeId_T \<times> NodeId_T) list \<Rightarrow> PipelineDAG \<Rightarrow> MERROR \<times> PipelineDAG" where
  "config_edges [] d = (OK, d)"
| "config_edges ((src, dst) # es) d =
     (let (err, d1) = addEdge d src dst in if err \<noteq> OK then (err, d1) else config_edges es d1)"

text \<open>For an empty sort \<open>UNKNOWN_ERROR\<close> is assigned, and \<open>OK\<close> returned.\<close>

definition config_pipeline ::
    "NodeConfig \<Rightarrow> PipelineConfig \<Rightarrow> PipelineDAG \<Rightarrow> PipelineNodeMap \<Rightarrow> (MERROR \<times> PipelineDAG \<times> PipelineNodeMap) option" where
  "config_pipeline nc pc pDAG pNodeMap = do {
     (d1, m1) \<leftarrow> config_nodes 0 (map snd (mConfig_NodeMap nc)) (pDAG, pNodeMap);
     let (err, d2) = config_edges (pc_mNodeEdges pc) d1 in
     if err \<noteq> OK then Some (err, d2, m1)
     else
       (case pc_mRootNodes pc of
          [] \<Rightarrow> Some (INVALID_OPERATION, d2, m1)
        | root # _ \<Rightarrow> do {
            (ts, d3) \<leftarrow> getToposort (snd (setRootNode d2 root));
            Some (OK, d3, m1)
          })
   }"

section \<open>What a configuration gives\<close>

text \<open>The nodes of a configuration have their own ids as keys, and streams.\<close>

definition nc_wf :: "NodeConfig \<Rightarrow> bool" where
  "nc_wf nc \<longleftrightarrow> kv_wf (mConfig_NodeMap nc) \<and>
     list_all (\<lambda>(k, n). cn_mNodeId n = k \<and> cn_mpInStreams n \<noteq> None \<and> cn_mpOutStreams n \<noteq> None) (mConfig_NodeMap nc)"

lemma nc_wf_get: "nc_wf nc \<Longrightarrow> queryNode nc k = Some n \<Longrightarrow> cn_mNodeId n = k \<and> cn_mpInStreams n \<noteq> None \<and> cn_mpOutStreams n \<noteq> None"
  by (auto simp: nc_wf_def queryNode_def list_all_iff dest: map_of_SomeD)

lemma set_kv_add: "set (kv_add k v m) \<subseteq> insert (k, v) (set m)"
  by (induction k v m rule: kv_add.induct) auto

lemma nc_wf_addNode:
  assumes "nc_wf nc" and "cn_mNodeId n = k" and "cn_mpInStreams n \<noteq> None" and "cn_mpOutStreams n \<noteq> None"
  shows "nc_wf (setImageStreamUsage j u (nc_addNode k n nc))"
  using assms set_kv_add [of k n "mConfig_NodeMap nc"]
  by (auto simp: nc_wf_def setImageStreamUsage_def nc_addNode_def list_all_iff kv_wf_add)

lemma nc_wf_ops [inv_intros]:
  "nc_wf NodeConfig_new"
  "nc_wf nc \<Longrightarrow> nc_wf (snd (updateConfig_node b sc nc))"
  "nc_wf nc \<Longrightarrow> nc_wf onc \<Longrightarrow> nc_wf (snd (context_reuseNode (Some onc) nodeId nc))"
  by (auto simp: NodeConfig_new_def nc_wf_def [of "\<lparr>mConfig_NodeMap = [], mNodeImageStreamUsage = []\<rparr>"]
      updateConfig_node_def context_reuseNode_def impl_reuseNode_def Let_def
      intro!: nc_wf_addNode dest: nc_wf_get split: prod.splits option.splits)

lemma kv_add_last: "\<forall>k' \<in> set (kv_keys m). k' < k \<Longrightarrow> kv_add k v m = m @ [(k, v)]"
  by (induction k v m rule: kv_add.induct) (auto simp: less_not_sym)

lemma kv_edit_last: "k \<notin> set (kv_keys m) \<Longrightarrow> kv_edit k f (m @ [(k, v)]) = m @ [(k, f v)]"
  by (induction m) (auto simp: kv_edit_def)

definition dag_node :: "nat \<times> ContextNode \<Rightarrow> int \<times> NodeWithAdj" where
  "dag_node = (\<lambda>(i, n). (cn_mNodeId n, \<lparr>mNode = \<lparr>obj_id = cn_mNodeId n, obj_val = int i\<rparr>, mInAdj = [], mOutAdj = []\<rparr>))"

definition map_node :: "ContextNode \<Rightarrow> int \<times> PipelineNode" where
  "map_node n = (cn_mNodeId n,
     \<lparr>pn_mpNode = cn_mpNode n, pn_mpInStreams = the (cn_mpInStreams n), pn_mpOutStreams = the (cn_mpOutStreams n)\<rparr>)"

lemma config_nodes_eq:
  assumes "sorted_wrt (<) (map cn_mNodeId ns)"
    and "\<forall>n \<in> set ns. \<forall>k \<in> set (dag_ids d) \<union> set (kv_keys m). k < cn_mNodeId n"
    and "\<forall>n \<in> set ns. cn_mpInStreams n \<noteq> None \<and> cn_mpOutStreams n \<noteq> None"
  shows "config_nodes i ns (d, m) =
     Some (d\<lparr>mNodesVec := mNodesVec d @ map dag_node (enumerate i ns)\<rparr>, m @ map map_node ns)"
  using assms
proof (induction ns arbitrary: i d m)
  case (Cons n ns)
  from Cons.prems(3) obtain ins outs where s: "cn_mpInStreams n = Some ins" "cn_mpOutStreams n = Some outs" by auto
  let ?k = "cn_mNodeId n"
  let ?d = "snd (addNode d ?k (int i))" and ?m = "m @ [map_node n]"
  have d: "?d = d\<lparr>mNodesVec := mNodesVec d @ [dag_node (i, n)]\<rparr>"
    using Cons.prems(2) by (simp add: addNode_def kv_add_last dag_node_def)
  have "?k \<notin> set (kv_keys m)" using Cons.prems(2) by auto
  then have m: "kv_edit ?k (\<lambda>p. p\<lparr>pn_mpInStreams := ins, pn_mpOutStreams := outs\<rparr>) (snd (pnm_add ?k (cn_mpNode n) m)) = ?m"
    using Cons.prems(2) by (simp add: pnm_add_def kv_add_last kv_edit_last map_node_def s Let_def)
  have "config_nodes (Suc i) ns (?d, ?m) =
      Some (?d\<lparr>mNodesVec := mNodesVec ?d @ map dag_node (enumerate (Suc i) ns)\<rparr>, ?m @ map map_node ns)"
  proof (rule Cons.IH)
    show "sorted_wrt (<) (map cn_mNodeId ns)" using Cons.prems(1) by simp
    show "\<forall>x \<in> set ns. \<forall>k \<in> set (dag_ids ?d) \<union> set (kv_keys ?m). k < cn_mNodeId x"
      using Cons.prems(1,2) by (auto simp: d kv_keys_def dag_node_def map_node_def)
  qed (use Cons.prems(3) in simp)
  then show ?case using s m by (simp add: d case_prod_beta Let_def)
qed simp

definition same_nodes :: "PipelineDAG \<Rightarrow> PipelineDAG \<Rightarrow> bool" where
  "same_nodes d d' \<longleftrightarrow> dag_ids d' = dag_ids d \<and> (\<forall>k. getNode d' k = getNode d k) \<and> mRootId d' = mRootId d \<and>
     mToposort d' = mToposort d"

lemma same_nodes_addEdge: "same_nodes d (snd (addEdge d s t))"
  by (auto simp: same_nodes_def addEdge_def getNode_def option.map_comp comp_def split: option.splits)

lemma same_nodes_trans: "same_nodes d e \<Longrightarrow> same_nodes e f \<Longrightarrow> same_nodes d f"
  by (simp add: same_nodes_def)

lemma config_edges_post:
  assumes "dag_inv d" and "config_edges es d = (err, d')"
  shows "dag_inv d' \<and> same_nodes d d' \<and> (err = OK \<or> err = NAME_NOT_FOUND) \<and>
    (err = OK \<longleftrightarrow> (\<forall>(s, t) \<in> set es. s \<in> set (dag_ids d) \<and> t \<in> set (dag_ids d))) \<and>
    (err = OK \<longrightarrow> dag_edges d' = set es \<union> dag_edges d)"
  using assms
proof (induction es arbitrary: d)
  case (Cons e es)
  obtain s t where e: "e = (s, t)" by (cases e)
  show ?case
  proof (cases "s \<in> set (dag_ids d) \<and> t \<in> set (dag_ids d)")
    case True
    note p = addEdge_present [OF dag_inv_wf [OF Cons.prems(1)] conjunct1 [OF True] conjunct2 [OF True]]
    have "config_edges es (snd (addEdge d s t)) = (err, d')"
      using Cons.prems(2) p(1) by (simp add: e case_prod_beta)
    from Cons.IH [OF dag_inv_addEdge [OF Cons.prems(1)] this] p(3,4) True
      same_nodes_trans [OF same_nodes_addEdge, of d s t]
    show ?thesis by (auto simp: e)
  next
    case False
    then have "addEdge d s t = (NAME_NOT_FOUND, d)" by (intro addEdge_missing) blast
    with False Cons.prems show ?thesis by (auto simp: e same_nodes_def)
  qed
qed (auto simp: same_nodes_def)

text \<open>
  The graph before the edges: its ids are the keys of the configuration, it has no edge and
  no root, and the value of a node is the position of its entry.
\<close>

lemma config_nodes_dag:
  assumes "nc_wf nc"
  shows "\<exists>d. config_nodes 0 (map snd (mConfig_NodeMap nc)) (dag_create, []) =
      Some (d, map map_node (map snd (mConfig_NodeMap nc))) \<and>
    dag_inv d \<and> dag_ids d = kv_keys (mConfig_NodeMap nc) \<and> dag_edges d = {} \<and> mRootId d = BAD_ID \<and> mToposort d = [] \<and>
    (\<forall>i < length (mConfig_NodeMap nc). getNode d (fst (mConfig_NodeMap nc ! i)) =
       \<lparr>obj_id = fst (mConfig_NodeMap nc ! i), obj_val = int i\<rparr>)"
proof -
  let ?m = "mConfig_NodeMap nc" let ?ns = "map snd ?m"
  let ?v = "map dag_node (enumerate 0 ?ns)"
  have srt: "sorted_wrt (<) (kv_keys ?m)" and all: "\<And>k n. (k, n) \<in> set ?m \<Longrightarrow>
      cn_mNodeId n = k \<and> cn_mpInStreams n \<noteq> None \<and> cn_mpOutStreams n \<noteq> None"
    using assms by (auto simp: nc_wf_def kv_wf_def list_all_iff)
  have ids: "map cn_mNodeId ?ns = kv_keys ?m" using all by (auto simp: kv_keys_def)
  have len: "length ?v = length ?m" by simp
  have nth: "?v ! i = dag_node (i, snd (?m ! i))" if "i < length ?m" for i
    using that by (simp add: nth_enumerate_eq)
  have keys: "kv_keys ?v = kv_keys ?m"
  proof (rule nth_equalityI)
    fix i assume "i < length (kv_keys ?v)"
    then have i: "i < length ?m" by simp
    then have "?m ! i \<in> set ?m" by simp
    then have "cn_mNodeId (snd (?m ! i)) = fst (?m ! i)" using all [of "fst (?m ! i)" "snd (?m ! i)"] by simp
    then show "kv_keys ?v ! i = kv_keys ?m ! i" using i nth [OF i] len by (simp add: kv_keys_nth dag_node_def)
  qed simp
  let ?d = "dag_create\<lparr>mNodesVec := ?v\<rparr>"
  have run: "config_nodes 0 ?ns (dag_create, []) = Some (?d, map map_node ?ns)"
  proof -
    have "\<forall>n \<in> set ?ns. cn_mpInStreams n \<noteq> None \<and> cn_mpOutStreams n \<noteq> None" using all by fastforce
    from config_nodes_eq [of ?ns dag_create "[]" 0, OF _ _ this] srt ids show ?thesis
      by (simp add: dag_create_def)
  qed
  have iso: "obj_id (mNode n) = k \<and> mInAdj n = [] \<and> mOutAdj n = []"
    if "map_of ?v k = Some n" for k n using map_of_SomeD [OF that] by (auto simp: dag_node_def)
  then have e: "edge_rel mOutAdj ?v = {}" "edge_rel mInAdj ?v = {}" by (force simp: edge_rel_def)+
  have wf: "kv_wf ?v" using srt by (simp add: kv_wf_def keys)
  have "dag_inv ?d"
    using iso e wf by (auto simp: dag_inv_def dag_wf_def adj_wf_def dag_create_def)
  moreover have "getNode ?d (fst (?m ! i)) = \<lparr>obj_id = fst (?m ! i), obj_val = int i\<rparr>" if i: "i < length ?m" for i
  proof -
    have "?m ! i \<in> set ?m" using i by simp
    then have k: "cn_mNodeId (snd (?m ! i)) = fst (?m ! i)" using all [of "fst (?m ! i)" "snd (?m ! i)"] by simp
    have "?v ! i \<in> set ?v" using i len by (metis nth_mem)
    then have "map_of ?v (fst (?v ! i)) = Some (snd (?v ! i))"
      using kv_wf_distinct [OF wf] by (intro map_of_is_SomeI) (simp_all add: kv_keys_def)
    then show ?thesis using nth [OF i] k by (simp add: getNode_def dag_node_def)
  qed
  ultimately show ?thesis using run keys e(1) by (intro exI [of _ ?d]) (simp add: dag_create_def)
qed

definition ex_actor :: "NodeId_T \<Rightarrow> ContextNode" where
  "ex_actor n = \<lparr>cn_mNodeId = n, cn_mpNode = nat n * 100, cn_mpInStreams = Some StreamInfoSetControl_new,
     cn_mpOutStreams = Some StreamInfoSetControl_new\<rparr>"

definition ex_nodes_config :: NodeConfig where
  "ex_nodes_config = \<lparr>mConfig_NodeMap = map (\<lambda>n. (n, ex_actor n)) [1, 2, 3], mNodeImageStreamUsage = []\<rparr>"

definition ex_cyclic_config :: PipelineConfig where
  "ex_cyclic_config = \<lparr>pc_mRootNodes = [9], pc_mNodeEdges = [(1, 2), (2, 3), (3, 1)]\<rparr>"

section \<open>Properties\<close>

text \<open>C16: configuring a pipeline whose edges join configured nodes succeeds, whatever the root
  and the shape of the graph: the graph has exactly these nodes and edges, the value of a node
  is its index in the map of nodes, a root that is no node is ignored, and a graph with a cycle
  is accepted with an empty order.\<close>

theorem config_pipeline_result:
  assumes "nc_wf nc" and "pc_mRootNodes pc = root # roots"
    and "list_all (\<lambda>(src, dst). queryNode nc src \<noteq> None \<and> queryNode nc dst \<noteq> None) (pc_mNodeEdges pc)"
  shows "\<exists>d m. config_pipeline nc pc dag_create [] = Some (OK, d, m) \<and> dag_inv d \<and>
    dag_ids d = kv_keys (mConfig_NodeMap nc) \<and> dag_edges d = set (pc_mNodeEdges pc) \<and>
    mRootId d = (if queryNode nc root = None then BAD_ID else root) \<and>
    (\<forall>k. pnm_nodeAt (obj_val (getNode d k)) m = map_option cn_mpNode (queryNode nc k)) \<and>
    (mToposort d = [] \<longleftrightarrow> mConfig_NodeMap nc = [] \<or> \<not> acyclic (set (pc_mNodeEdges pc)))"
proof -
  let ?m = "mConfig_NodeMap nc" let ?es = "pc_mNodeEdges pc" let ?pm = "map map_node (map snd ?m)"
  from config_nodes_dag [OF assms(1)] obtain d1 where
    d1: "config_nodes 0 (map snd ?m) (dag_create, []) = Some (d1, ?pm)" "dag_inv d1" "dag_ids d1 = kv_keys ?m"
      "dag_edges d1 = {}" "mRootId d1 = BAD_ID" "mToposort d1 = []"
    and val: "\<And>i. i < length ?m \<Longrightarrow> getNode d1 (fst (?m ! i)) = \<lparr>obj_id = fst (?m ! i), obj_val = int i\<rparr>"
    by blast
  obtain err d2 where e: "config_edges ?es d1 = (err, d2)" by fastforce
  have "\<forall>(s, t) \<in> set ?es. s \<in> set (dag_ids d1) \<and> t \<in> set (dag_ids d1)"
    using assms(3) by (auto simp: list_all_iff queryNode_def kv_get_None d1(3))
  with config_edges_post [OF d1(2) e] have d2: "err = OK" "dag_inv d2" "same_nodes d1 d2" "dag_edges d2 = set ?es"
    using d1(4) by auto
  let ?d3 = "snd (setRootNode d2 root)"
  have ids: "dag_ids d2 = kv_keys ?m" using d2(3) d1(3) by (simp add: same_nodes_def)
  have d3: "mNodesVec ?d3 = mNodesVec d2" "mToposort ?d3 = []"
    "mRootId ?d3 = (if queryNode nc root = None then BAD_ID else root)"
    using d2(3) d1(5,6) ids by (auto simp: setRootNode_def same_nodes_def queryNode_def kv_get_None)
  have inv3: "dag_inv ?d3" using d2(2) by (auto simp: dag_inv_def setRootNode_def)
  from evaluateToposort_total [OF dag_inv_wf [OF inv3]] obtain e' ts where
    ts: "evaluateToposort (mNodesVec ?d3) = Some (e', ts)" "e' = OK \<longleftrightarrow> acyclic (dag_edges ?d3)"
      "e' = OK \<longrightarrow> obj_id ` set ts = set (dag_ids ?d3)" "e' \<noteq> OK \<longrightarrow> ts = []" by blast
  have "ts = [] \<longleftrightarrow> ?m = [] \<or> \<not> acyclic (set ?es)"
    using ts(2-4) d2(4) ids d3(1) by (cases "acyclic (set ?es)") auto
  moreover have "getToposort ?d3 = Some (ts, ?d3\<lparr>mToposort := ts\<rparr>)" by (simp add: getToposort_def d3(2) ts(1))
  then have "config_pipeline nc pc dag_create [] = Some (OK, ?d3\<lparr>mToposort := ts\<rparr>, ?pm)"
    using assms(2) d1(1) e d2(1) by (simp add: config_pipeline_def)
  moreover have "pnm_nodeAt (obj_val (getNode ?d3 k)) ?pm = map_option cn_mpNode (queryNode nc k)" for k
  proof (cases "queryNode nc k")
    case None
    then have "getNode ?d3 k = NodeObj_T"
      unfolding getNode_def d3(1) using ids kv_get_None [of "mNodesVec d2" k] kv_get_None [of ?m k]
      by (simp add: queryNode_def)
    with None show ?thesis by (simp add: pnm_nodeAt_def pnm_getNodeAt_def NodeObj_T_def)
  next
    case (Some c)
    obtain i where i: "kv_index ?m k = Some i"
      using Some kv_index_None [of ?m k] by (cases "kv_index ?m k") (auto simp: queryNode_def)
    from kv_index_Some [OF this] Some have i': "i < length ?m" "fst (?m ! i) = k" "snd (?m ! i) = c"
      by (auto simp: queryNode_def)
    have "getNode ?d3 k = \<lparr>obj_id = k, obj_val = int i\<rparr>"
      using val [OF i'(1)] i'(2) d2(3) d3(1) by (simp add: same_nodes_def getNode_def)
    with i' Some show ?thesis by (simp add: pnm_nodeAt_def pnm_getNodeAt_def map_node_def)
  qed
  moreover have "dag_inv (?d3\<lparr>mToposort := ts\<rparr>)" using inv3 by (simp add: dag_inv_def)
  ultimately show ?thesis using d3(1,3) ids d2(4)
    by (intro exI [of _ "?d3\<lparr>mToposort := ts\<rparr>"] exI [of _ ?pm]) (simp add: getNode_def)
qed

theorem config_pipeline_result_witness:
  "\<exists>d m. config_pipeline ex_nodes_config ex_cyclic_config dag_create [] = Some (OK, d, m) \<and>
    dag_ids d = [1, 2, 3] \<and> mRootId d = BAD_ID \<and> mToposort d = [] \<and> pnm_nodeAt (obj_val (getNode d 3)) m = Some 300"
proof -
  have wf: "nc_wf ex_nodes_config" by (simp add: nc_wf_def ex_nodes_config_def ex_actor_def kv_wf_def)
  have root: "pc_mRootNodes ex_cyclic_config = 9 # []" by (simp add: ex_cyclic_config_def)
  have es: "list_all (\<lambda>(src, dst). queryNode ex_nodes_config src \<noteq> None \<and> queryNode ex_nodes_config dst \<noteq> None)
      (pc_mNodeEdges ex_cyclic_config)" by (simp add: ex_cyclic_config_def ex_nodes_config_def queryNode_def)
  have "(1, 1) \<in> {(1, 2), (2, 3), (3, 1 :: int)}\<^sup>+"
    by (rule trancl_into_trancl [OF trancl_into_trancl [OF r_into_trancl]]) auto
  then have "\<not> acyclic (set (pc_mNodeEdges ex_cyclic_config))"
    by (auto simp: acyclic_def ex_cyclic_config_def)
  moreover have "queryNode ex_nodes_config 9 = None" "queryNode ex_nodes_config 3 = Some (ex_actor 3)"
    "kv_keys (mConfig_NodeMap ex_nodes_config) = [1, 2, 3]" "cn_mpNode (ex_actor 3) = 300"
    by (simp_all add: ex_nodes_config_def queryNode_def ex_actor_def)
  ultimately show ?thesis using config_pipeline_result [OF wf root es] by fastforce
qed

end
