(* ===== verification/BufferUsers.thy ===== *)
theory BufferUsers
  imports FrameControl ContextConfig
begin

text \<open>
  \<open>evaluate_buffer_users\<close> of \<open>mtkcam/pipeline/pipeline/PipelineContextImpl.cpp\<close>: every stream of
  a frame gets a graph of its users from the graph of the frame's nodes. Each node is a user:
  a producer when the stream is among its output streams, else a consumer when it is among its
  input streams, else no participant; the edges of the nodes' graph order the users.

  The lemmas say what a manager knows afterwards (\<open>set_users_done\<close>).
\<close>

section \<open>Users\<close>

definition User_new :: User where
  "User_new = \<lparr>usr_mUserId = - 1, usr_mAcquireFence = - 1, usr_mReleaseFence = - 1, usr_mUsage = 0, usr_mCategory = 0\<rparr>"

definition refineUser :: "User \<Rightarrow> StreamId_T \<Rightarrow> IStreamInfo list \<Rightarrow> IStreamInfo list \<Rightarrow> User" where
  "refineUser rUser streamId pOStreams pIStreams =
     (if streamId \<in> si_streamId ` set pOStreams then rUser\<lparr>usr_mCategory := PRODUCER\<rparr>
      else if streamId \<in> si_streamId ` set pIStreams then rUser\<lparr>usr_mCategory := CONSUMER\<rparr>
      else rUser\<lparr>usr_mCategory := NONE, usr_mReleaseFence := usr_mAcquireFence rUser\<rparr>)"

text \<open>A node that is not in the map, or has no stream sets, is a fault.\<close>

definition makeImageUser :: "NodeConfig \<Rightarrow> 'io FrameNodeMap \<Rightarrow> IStreamInfo \<Rightarrow> NodeId_T \<Rightarrow> User option" where
  "makeImageUser nc m pStreamInfo nodeId = do {
     pNode \<leftarrow> getNodeFor nodeId m;
     outs \<leftarrow> mOStreams pNode;
     ins \<leftarrow> mIStreams pNode;
     let streamId = si_streamId pStreamInfo;
         user = refineUser (User_new\<lparr>usr_mUserId := nodeId\<rparr>) streamId (si_imageInfos outs) (si_imageInfos ins)
     in Some (if usr_mCategory user \<noteq> NONE then user\<lparr>usr_mUsage := queryMinimalUsage nc nodeId streamId\<rparr> else user)
   }"

definition makeMetaUser :: "'io FrameNodeMap \<Rightarrow> IStreamInfo \<Rightarrow> NodeId_T \<Rightarrow> User option" where
  "makeMetaUser m pStreamInfo nodeId = do {
     pNode \<leftarrow> getNodeFor nodeId m;
     outs \<leftarrow> mOStreams pNode;
     ins \<leftarrow> mIStreams pNode;
     Some (refineUser (User_new\<lparr>usr_mUserId := nodeId\<rparr>) (si_streamId pStreamInfo) (si_metaInfos outs) (si_metaInfos ins))
   }"

section \<open>The graph of a manager\<close>

definition add_users :: "nat \<Rightarrow> User list \<Rightarrow> UsersManager \<Rightarrow> UsersManager" where
  "add_users g us um = fold (\<lambda>u. on_graph g (\<lambda>s. snd (addUser u s))) us um"

definition add_edges :: "nat \<Rightarrow> (int \<times> int) list \<Rightarrow> UsersManager \<Rightarrow> UsersManager" where
  "add_edges g es um = fold (\<lambda>(src, dst). on_graph g (\<lambda>(us, gr). (us, snd (graph_addEdge src dst gr)))) es um"

text \<open>
  The body of the loop of \<open>doIt\<close>. A manager that is set up already gives no graph, which is a
  fault at the first user; the loop over the nodes is entered before its condition is tested,
  so that an empty order of the nodes is a fault too. The results are not looked at.
\<close>

definition set_users :: "User list \<Rightarrow> (int \<times> int) list \<Rightarrow> UsersManager \<Rightarrow> UsersManager option" where
  "set_users us es um =
     (if us = [] then None
      else case createGraph um of
        (None, _) \<Rightarrow> None
      | (Some g, um1) \<Rightarrow> do {
          (r, um2) \<leftarrow> enqueUserGraph g (add_edges g es (add_users g us um1));
          Some (snd (finishUserSetup um2))
        })"

section \<open>The frame\<close>

fun make_users :: "(NodeId_T \<Rightarrow> User option) \<Rightarrow> NodeObj list \<Rightarrow> User list option" where
  "make_users makeUser [] = Some []"
| "make_users makeUser (n # ns) = do { u \<leftarrow> makeUser (obj_id n); us \<leftarrow> make_users makeUser ns; Some (u # us) }"

text \<open>The loop over the entries of a map; an entry whose item is gone is a fault.\<close>

fun doIt ::
    "(IStreamInfo \<Rightarrow> NodeId_T \<Rightarrow> User option) \<Rightarrow> NodeObj list \<Rightarrow> (int \<times> int) list \<Rightarrow> nat option list \<Rightarrow> 'io Frame \<Rightarrow> 'io Frame option"
  where
  "doIt makeUser ts es [] f = Some f"
| "doIt makeUser ts es (None # is) f = None"
| "doIt makeUser ts es (Some i # is) f = do {
     us \<leftarrow> make_users (makeUser (it_mStreamInfo (fr_items f ! i))) ts;
     um \<leftarrow> set_users us es (item_um f i);
     let r = it_mUsersManager (fr_items f ! i); st = fr_store f
     in doIt makeUser ts es is (f\<lparr>fr_store := st\<lparr>st_managers := (st_managers st)[manager_of st r := um]\<rparr>\<rparr>)
   }"

definition evaluate_buffer_users ::
    "NodeConfig \<Rightarrow> PipelineDAG \<Rightarrow> 'nio FrameNodeMap \<Rightarrow> 'io Frame \<Rightarrow> (MERROR \<times> PipelineDAG \<times> 'io Frame) option" where
  "evaluate_buffer_users nc d m f = do {
     (ts, d') \<leftarrow> getToposort d;
     let es = getEdges d; entries = (\<lambda>k f. map snd (im_mMap (fr_maps f k)));
         image = makeImageUser nc m; meta = makeMetaUser m in do {
     f1 \<leftarrow> doIt image ts es (entries AppImage f) f;
     f2 \<leftarrow> doIt image ts es (entries HalImage f1) f1;
     f3 \<leftarrow> doIt meta ts es (entries AppMeta f2) f2;
     f4 \<leftarrow> doIt meta ts es (entries HalMeta f3) f3;
     Some (OK, d', f4) }
   }"

section \<open>What a manager knows afterwards\<close>

abbreviation the_graph :: "UsersManager \<Rightarrow> MyUserGraph" where
  "the_graph um \<equiv> mUserGroupGraph um ! 0"

abbreviation user_ids :: "User list \<Rightarrow> int set" where
  "user_ids us \<equiv> usr_mUserId ` set us"

text \<open>A manager with one graph, which has the users \<open>us\<close> and the order \<open>E\<close>.\<close>

definition in_setup :: "UsersManager \<Rightarrow> User list \<Rightarrow> (int \<times> int) set \<Rightarrow> bool" where
  "in_setup um us E \<longleftrightarrow> um_inv um \<and> \<not> mUserInit um \<and> length (mUserGroupGraph um) = 1 \<and>
     mProducerMap um = MyUserMap_empty \<and> mConsumerMap um = MyUserMap_empty \<and>
     set (ug_ids (the_graph um)) = user_ids us \<and> before (the_graph um) = E \<and>
     (\<forall>u \<in> set us. mCategory (mUsers um ! node_user (the_graph um) (usr_mUserId u)) = usr_mCategory u)"

text \<open>A manager that nobody has set up: a new one, or one that was reset.\<close>

definition um_fresh :: "UsersManager \<Rightarrow> bool" where
  "um_fresh um \<longleftrightarrow> um_reset um = um"

lemma um_fresh_new [simp]: "um_fresh (UsersManager_new s n)" "um_fresh (um_reset um)"
  by (simp_all add: um_fresh_def um_reset_def UsersManager_new_def)

lemma um_fresh_sel:
  "um_fresh um \<Longrightarrow> \<not> mUserInit um \<and> mUserGroupGraph um = [] \<and> mProducerMap um = MyUserMap_empty \<and>
     mConsumerMap um = MyUserMap_empty \<and> um_inv um"
proof -
  assume "um_fresh um"
  then have "um_reset um = um" by (simp add: um_fresh_def)
  then show ?thesis using um_inv_reset [of um] by (metis (no_types, lifting) um_reset_def
      UsersManager.select_convs(4-7) UsersManager.surjective UsersManager.update_convs(4-7))
qed

lemma in_setup_createGraph:
  assumes "um_fresh um"
  shows "\<exists>um1. createGraph um = (Some 0, um1) \<and> in_setup um1 [] {}"
proof -
  note f = um_fresh_sel [OF assms]
  with um_inv_createGraph [of um] show ?thesis
    by (auto simp: createGraph_def in_setup_def MyUserGraph_new_def edge_rel_def)
qed

lemma in_setup_addUser:
  assumes "in_setup um us E" and "usr_mUserId u \<notin> user_ids us"
  shows "in_setup (on_graph 0 (\<lambda>s. snd (addUser u s)) um) (us @ [u]) E"
proof -
  let ?g = "the_graph um" and ?um = "on_graph 0 (\<lambda>s. snd (addUser u s)) um"
  have inv: "um_inv um" and len: "0 < length (mUserGroupGraph um)" and ids: "set (ug_ids ?g) = user_ids us"
    using assms(1) by (simp_all add: in_setup_def)
  have wf: "ug_wf ?g" using um_inv_vec [OF inv len] by (simp add: vec_ok_def)
  obtain e us' g' where a: "addUser u (mUsers um, ?g) = (e, us', g')" by (metis prod_cases3)
  note p = addUser_post [OF wf a]
  have new: "usr_mUserId u \<notin> set (ug_ids ?g)" using assms(2) ids by simp
  have um: "?um = um\<lparr>mUsers := us', mUserGroupGraph := (mUserGroupGraph um)[0 := g']\<rparr>"
    by (simp add: on_graph_def a)
  have g: "the_graph ?um = g'" using len by (simp add: um)
  have old: "us' ! node_user g' k = mUsers um ! node_user ?g k"
    if "k \<in> set (ug_ids ?g)" for k
    using that new p(6,7) node_user_id(2) [OF inv len that] by (auto simp: nth_append)
  have "set (ug_ids g') = insert (usr_mUserId u) (set (ug_ids ?g))"
    using p(7) new by (metis dom_fun_upd kv_dom option.distinct(1))
  moreover have "mCategory (us' ! node_user g' (usr_mUserId u)) = usr_mCategory u"
    using p(6,7) new by (simp add: MyUser_new_def)
  moreover have "mCategory (us' ! node_user g' (usr_mUserId v)) = usr_mCategory v" if "v \<in> set us" for v
    using old [of "usr_mUserId v"] ids that assms(1) by (simp add: in_setup_def)
  ultimately show ?thesis
    using assms(1) um_inv_addUser [OF inv len, of u] p(2) ids unfolding in_setup_def g
    by (auto simp: um)
qed

lemma in_setup_add_users:
  "in_setup um us E \<Longrightarrow> distinct (map usr_mUserId (us @ vs)) \<Longrightarrow> in_setup (add_users 0 vs um) (us @ vs) E"
proof (induction vs arbitrary: um us)
  case (Cons v vs)
  have "in_setup (on_graph 0 (\<lambda>s. snd (addUser v s)) um) (us @ [v]) E"
    using Cons.prems by (intro in_setup_addUser) auto
  from Cons.IH [OF this] Cons.prems(2) show ?case by (simp add: add_users_def)
qed (simp add: add_users_def)

lemma in_setup_addEdge:
  assumes "in_setup um us E"
  shows "in_setup (on_graph 0 (\<lambda>(us, gr). (us, snd (graph_addEdge s d gr))) um) us
     (if s \<in> user_ids us \<and> d \<in> user_ids us then insert (d, s) E else E)"
proof -
  let ?g = "the_graph um" and ?f = "\<lambda>(us, gr). (us, snd (graph_addEdge s d gr))"
  have inv: "um_inv um" and len: "0 < length (mUserGroupGraph um)"
    using assms(1) by (simp_all add: in_setup_def)
  have wf: "ug_wf ?g" using um_inv_vec [OF inv len] by (simp add: vec_ok_def)
  obtain e g' where a: "graph_addEdge s d ?g = (e, g')" by fastforce
  note p = graph_addEdge_post [OF wf a]
  have "um_inv (on_graph 0 ?f um)"
    by (rule um_inv_same_graph [OF inv len _ p(6,1,7)]) (simp add: a)
  moreover have um: "on_graph 0 ?f um = um\<lparr>mUserGroupGraph := (mUserGroupGraph um)[0 := g']\<rparr>"
    by (simp add: on_graph_def a)
  moreover have "node_user g' k = node_user ?g k" if "k \<in> set (ug_ids ?g)" for k
    using fun_cong [OF p(7), of k] kv_keys_get [OF that] by (cases "map_of (mUserVector g') k") auto
  moreover have "before g' = (if s \<in> set (ug_ids ?g) \<and> d \<in> set (ug_ids ?g) then insert (d, s) (before ?g) else before ?g)"
    using p(2,3) by auto
  ultimately show ?thesis using assms p(5) len unfolding in_setup_def by simp
qed

lemma in_setup_add_edges:
  "in_setup um us E \<Longrightarrow>
   in_setup (add_edges 0 es um) us (E \<union> {(d, s). (s, d) \<in> set es \<and> s \<in> user_ids us \<and> d \<in> user_ids us})"
proof (induction es arbitrary: um E)
  case (Cons e es)
  obtain s d where e: "e = (s, d)" by (cases e)
  let ?E = "if s \<in> user_ids us \<and> d \<in> user_ids us then insert (d, s) E else E"
  have "?E \<union> {(d, s). (s, d) \<in> set es \<and> s \<in> user_ids us \<and> d \<in> user_ids us} =
      E \<union> {(d, s). (s, d) \<in> set (e # es) \<and> s \<in> user_ids us \<and> d \<in> user_ids us}" by (auto simp: e)
  with Cons.IH [OF in_setup_addEdge [OF Cons.prems, of s d]] show ?case by (simp add: add_edges_def e)
qed (simp add: add_edges_def)

lemma enque_nodes_keys:
  assumes "um_inv um" and "\<not> mUserInit um" and "i < length (mUserGroupGraph um)"
    and "\<forall>(k, n) \<in> set ns. map_of (mUserVector (mUserGroupGraph um ! i)) k = Some n"
  shows "let um' = fold (\<lambda>(k, n). enque_node i n) ns um in
    mUsers um' = mUsers um \<and> um_vecs um' = um_vecs um \<and> \<not> mUserInit um' \<and>
    set (kv_keys (mUserMap (mProducerMap um'))) =
      set (kv_keys (mUserMap (mProducerMap um))) \<union> {k. \<exists>n. (k, n) \<in> set ns \<and> mCategory (mUsers um ! mMyUser n) = PRODUCER} \<and>
    set (kv_keys (mUserMap (mConsumerMap um'))) =
      set (kv_keys (mUserMap (mConsumerMap um))) \<union> {k. \<exists>n. (k, n) \<in> set ns \<and> mCategory (mUsers um ! mMyUser n) = CONSUMER}"
  using assms
proof (induction ns arbitrary: um)
  case (Cons x ns)
  obtain k n where x: "x = (k, n)" by (cases x)
  let ?um = "enque_node i n um"
  have n: "map_of (mUserVector (mUserGroupGraph um ! i)) k = Some n" using Cons.prems(4) x by simp
  note one = um_inv_enque_node [OF Cons.prems(1-3) n]
  have len: "i < length (mUserGroupGraph ?um)"
    using Cons.prems(3) arg_cong [OF one(3), of length] by simp
  have "mUserVector (mUserGroupGraph ?um ! i) = mUserVector (mUserGroupGraph um ! i)"
    using arg_cong [OF one(3), of "\<lambda>vs. snd (vs ! i)"] Cons.prems(3) len by simp
  with Cons.prems(4) have "\<forall>(k, n) \<in> set ns. map_of (mUserVector (mUserGroupGraph ?um ! i)) k = Some n" by simp
  note ih = Cons.IH [OF one(1,2) len this]
  have u: "mUsers ?um = mUsers um" by (simp add: enque_node_def Let_def)
  have id: "mUserId (mUsers um ! mMyUser n) = k" using um_inv_vec [OF Cons.prems(1,3)] n by (simp add: vec_ok_def)
  have keys: "set (kv_keys (mUserMap (mProducerMap ?um))) = set (kv_keys (mUserMap (mProducerMap um))) \<union>
      (if mCategory (mUsers um ! mMyUser n) = PRODUCER then {k} else {})"
    "set (kv_keys (mUserMap (mConsumerMap ?um))) = set (kv_keys (mUserMap (mConsumerMap um))) \<union>
      (if mCategory (mUsers um ! mMyUser n) = CONSUMER then {k} else {})"
    using id by (simp_all add: enque_node_def Let_def)
  have fold: "fold (\<lambda>(k, n). enque_node i n) (x # ns) um = fold (\<lambda>(k, n). enque_node i n) ns ?um" by (simp add: x)
  show ?case using ih unfolding Let_def fold u keys one(3) by (auto simp: x split: if_splits)
qed simp

text \<open>The manager of a stream whose users are \<open>us\<close>, before anybody has marked anything.\<close>

definition users_set :: "UsersManager \<Rightarrow> User list \<Rightarrow> (int \<times> int) set \<Rightarrow> bool" where
  "users_set um us es \<longleftrightarrow> um_good um \<and> length (mUserGroupGraph um) = 1 \<and>
     set (ug_ids (the_graph um)) = user_ids us \<and>
     before (the_graph um) = {(d, s). (s, d) \<in> es \<and> s \<in> user_ids us \<and> d \<in> user_ids us} \<and>
     (\<forall>u \<in> set us. mCategory (mUsers um ! node_user (the_graph um) (usr_mUserId u)) = usr_mCategory u \<and>
        (queryUser um (usr_mUserId u) \<noteq> None \<longleftrightarrow> usr_mCategory u = PRODUCER \<or> usr_mCategory u = CONSUMER)) \<and>
     (\<forall>k. k \<notin> user_ids us \<longrightarrow> queryUser um k = None) \<and> (\<forall>k. getUserStatus um k = 0)"

lemma set_users_done:
  assumes fresh: "um_fresh um" and us: "us \<noteq> []" "distinct (map usr_mUserId us)" "length us \<le> 32"
  shows "\<exists>um'. set_users us es um = Some um' \<and> users_set um' us (set es)"
proof -
  from in_setup_createGraph [OF fresh] obtain um1 where
    c: "createGraph um = (Some 0, um1)" and s1: "in_setup um1 [] {}" by blast
  define um2 where "um2 = add_edges 0 es (add_users 0 us um1)"
  let ?E = "{(d, s). (s, d) \<in> set es \<and> s \<in> user_ids us \<and> d \<in> user_ids us}"
  from in_setup_add_edges [OF in_setup_add_users [OF s1]] us(2) have s2: "in_setup um2 us ?E"
    by (simp add: um2_def)
  then have inv2: "um_inv um2" and init2: "\<not> mUserInit um2" and len2: "0 < length (mUserGroupGraph um2)"
    and ids2: "set (ug_ids (the_graph um2)) = user_ids us"
    and e2: "mProducerMap um2 = MyUserMap_empty" "mConsumerMap um2 = MyUserMap_empty" by (simp_all add: in_setup_def)
  let ?v = "mUserVector (the_graph um2)"
  have dv: "distinct (map fst ?v)" using um_inv_vec [OF inv2 len2] by (auto simp: vec_ok_def adj_wf_def kv_keys_def dest: kv_wf_distinct)
  then have all: "\<forall>(k, n) \<in> set ?v. map_of ?v k = Some n" by auto
  define um3 where "um3 = fold (\<lambda>(k, n). enque_node 0 n) ?v um2"
  have enq: "enqueUserGraph 0 um2 = Some (0, um3)"
    using init2 len2 by (simp add: enqueUserGraph_def enqueUserGraph_locked_def um3_def)
  from um_inv_enque [OF inv2 enq] have inv3: "um_inv um3" .
  from enque_nodes_keys [OF inv2 init2 len2 all] have k3: "mUsers um3 = mUsers um2" "um_vecs um3 = um_vecs um2" "\<not> mUserInit um3"
    "set (kv_keys (mUserMap (mProducerMap um3))) = {k. \<exists>n. (k, n) \<in> set ?v \<and> mCategory (mUsers um2 ! mMyUser n) = PRODUCER}"
    "set (kv_keys (mUserMap (mConsumerMap um3))) = {k. \<exists>n. (k, n) \<in> set ?v \<and> mCategory (mUsers um2 ! mMyUser n) = CONSUMER}"
    by (simp_all add: Let_def um3_def [symmetric] e2 MyUserMap_empty_def)
  have len3: "length (mUserGroupGraph um3) = 1" using arg_cong [OF k3(2), of length] s2 by (simp add: in_setup_def)
  have v3: "mUserVector (the_graph um3) = ?v"
    using arg_cong [OF k3(2), of "\<lambda>vs. snd (vs ! 0)"] len2 len3 by simp
  define um4 where "um4 = snd (finishUserSetup um3)"
  have um4: "um4 = um3\<lparr>mUserInit := True\<rparr>" by (simp add: um4_def finishUserSetup_def)
  have inv4: "um_inv um4" using inv3 k3(3) by (simp add: um4 um_inv_def um_vecs_def um_core_def)
  have core3: "um_core (mUsers um3) (um_vecs um3) False (mProducerMap um3) (mConsumerMap um3)"
    using inv3 k3(3) by (simp add: um_inv_def)
  have node: "\<exists>n. map_of ?v k = Some n \<and> node_user (the_graph um2) k = mMyUser n" if "k \<in> user_ids us" for k
    using that ids2 kv_keys_get [of k ?v] by auto
  have keys: "k \<in> set (kv_keys (mUserMap (mProducerMap um3))) \<longleftrightarrow> k \<in> user_ids us \<and> mCategory (mUsers um2 ! node_user (the_graph um2) k) = PRODUCER"
    "k \<in> set (kv_keys (mUserMap (mConsumerMap um3))) \<longleftrightarrow> k \<in> user_ids us \<and> mCategory (mUsers um2 ! node_user (the_graph um2) k) = CONSUMER" for k
    unfolding k3(4,5) ids2 [symmetric] using dv by (force simp: kv_keys_def)+
  have small: "length (mUserMap m) \<le> 32" if "kv_wf (mUserMap m)" "set (kv_keys (mUserMap m)) \<subseteq> user_ids us" for m
  proof -
    have "length (mUserMap m) = card (set (kv_keys (mUserMap m)))"
      using distinct_card [OF kv_wf_distinct [OF that(1)]] by simp
    also have "\<dots> \<le> card (user_ids us)" using that(2) by (intro card_mono) simp_all
    also have "\<dots> \<le> 32" using us(3) card_image_le [of "set us" usr_mUserId] card_length [of us] by simp
    finally show ?thesis .
  qed
  have w: "kv_wf (mUserMap (mProducerMap um3))" "kv_wf (mUserMap (mConsumerMap um3))"
    using core3 by (simp_all add: um_core_def map_ok_def)
  have "length (mUserMap (mProducerMap um3)) \<le> 32" by (rule small [OF w(1)]) (use keys(1) in blast)
  moreover have "length (mUserMap (mConsumerMap um3)) \<le> 32" by (rule small [OF w(2)]) (use keys(2) in blast)
  ultimately have "um_good um4" using inv4 by (simp add: um_good_def um_fits_def um4)
  moreover have "getUserStatus um4 k = 0" for k
  proof (cases "queryUser um4 k")
    case (Some a)
    note q = queryUser_node [OF inv4 Some]
    have "mGroupIndex (mUsers um4 ! a) = 0" using q(2) len3 by (simp add: um4)
    then have "k \<in> set (ug_ids (the_graph um3))" "node_user (the_graph um3) k = a" using q(3,4) by (simp_all add: um4)
    then obtain n where n: "map_of (mUserVector (the_graph um3)) k = Some n" "mMyUser n = a" using kv_keys_get by fastforce
    have "0 < length (um_vecs um3)" "map_of (snd (um_vecs um3 ! 0)) k = Some n" using len3 n(1) by simp_all
    with core3 have "mUserStatus (mUsers um3 ! mMyUser n) = 0" unfolding um_core_def by blast
    with Some n(2) show ?thesis by (simp add: getUserStatus_def um4)
  qed (simp add: getUserStatus_def)
  moreover have "queryUser um4 k \<noteq> None \<longleftrightarrow> k \<in> user_ids us \<and>
      (mCategory (mUsers um2 ! node_user (the_graph um2) k) = PRODUCER \<or> mCategory (mUsers um2 ! node_user (the_graph um2) k) = CONSUMER)" for k
    using queryUser_None [OF inv4, of k] keys [of k] by (auto simp: um4)
  moreover from this have "\<forall>k. k \<notin> user_ids us \<longrightarrow> queryUser um4 k = None" by blast
  moreover have "the_graph um4 = the_graph um3" by (simp add: um4)
  ultimately have "users_set um4 us (set es)"
    using s2 len3 v3 k3(1) unfolding users_set_def in_setup_def edge_rel_def by (auto simp: um4)
  moreover have "set_users us es um = Some um4"
    using c us(1) enq by (simp add: set_users_def um2_def [symmetric] um4_def)
  ultimately show ?thesis by blast
qed

section \<open>Marks of the users\<close>

fun run_marks :: "(UserId_T \<times> MUINT32) list \<Rightarrow> UsersManager \<Rightarrow> UsersManager option" where
  "run_marks [] um = Some um"
| "run_marks ((k, msk) # ms) um = do { (r, um1) \<leftarrow> markUserStatus k msk um; run_marks ms um1 }"

text \<open>The bits that let the users behind go on.\<close>

definition lets_on :: "MUINT32 \<Rightarrow> bool" where
  "lets_on s \<longleftrightarrow> has s RELEASE \<or> has s RELEASE_STILLUSE \<or> has s PRE_RELEASE"

lemma lets_on_or: "lets_on (a OR b) \<longleftrightarrow> lets_on a \<or> lets_on b"
proof -
  have "has (a OR b) f \<longleftrightarrow> has a f \<or> has b f" for f
    by (simp add: has_def bit.conj_disj_distrib2 or_eq_0_iff)
  then show ?thesis by (auto simp: lets_on_def)
qed

lemma lets_on_0 [simp]: "\<not> lets_on 0"
  by (simp add: lets_on_def has_def)

lemma run_marks_done:
  assumes "um_inv um" and "mUserInit um" and "um_fits um"
  shows "\<exists>um'. run_marks ms um = Some um' \<and> um_inv um' \<and> mUserInit um' \<and>
    mUserGroupGraph um' = mUserGroupGraph um \<and> (\<forall>x. mCategory (mUsers um' ! x) = mCategory (mUsers um ! x)) \<and>
    (\<forall>k. queryUser um' k = queryUser um k) \<and>
    (\<forall>k. queryUser um k \<noteq> None \<longrightarrow>
      lets_on (getUserStatus um' k) = (lets_on (getUserStatus um k) \<or> (\<exists>msk. (k, msk) \<in> set ms \<and> lets_on msk)))"
  using assms
proof (induction ms arbitrary: um)
  case (Cons m ms)
  obtain k msk where m: "m = (k, msk)" by (cases m)
  show ?case
  proof (cases "queryUser um k")
    case None
    then have "markUserStatus k msk um = Some (0, um)" using Cons.prems by (simp add: markUserStatus_def)
    with Cons.IH [OF Cons.prems] None show ?thesis by (auto simp: m)
  next
    case (Some a)
    from markUserStatus_done [OF Cons.prems(1,2) Some Cons.prems(3), of msk] obtain um1 r where
      r: "markUserStatus k msk um = Some (r, um1)" and m1: "marks_only a um um1" by blast
    from markUserStatus_queries [OF Cons.prems(1,2) _ Cons.prems(3), of k msk] Some r have
      q: "um_inv um1" "mUserInit um1" "um_fits um1" "\<forall>j. queryUser um1 j = queryUser um j"
      "\<forall>j. getUserStatus um1 j = (if j = k then getUserStatus um k OR msk else getUserStatus um j)" by auto
    from Cons.IH [OF q(1-3)] obtain um' where
      um': "run_marks ms um1 = Some um'" "um_inv um'" "mUserInit um'" "mUserGroupGraph um' = mUserGroupGraph um1"
        "\<forall>x. mCategory (mUsers um' ! x) = mCategory (mUsers um1 ! x)" "\<forall>j. queryUser um' j = queryUser um1 j"
        "\<forall>j. queryUser um1 j \<noteq> None \<longrightarrow>
          lets_on (getUserStatus um' j) = (lets_on (getUserStatus um1 j) \<or> (\<exists>msk. (j, msk) \<in> set ms \<and> lets_on msk))"
      by blast
    have "lets_on (getUserStatus um' j) = (lets_on (getUserStatus um j) \<or> (\<exists>msk. (j, msk) \<in> set (m # ms) \<and> lets_on msk))"
      if "queryUser um j \<noteq> None" for j
      using um'(7) q(4,5) that by (auto simp: m lets_on_or)
    with um' q(4) r m1 show ?thesis by (intro exI [of _ um']) (simp add: m marks_only_def)
  qed
qed simp

definition takes_part :: "User \<Rightarrow> bool" where
  "takes_part u \<longleftrightarrow> usr_mCategory u = PRODUCER \<or> usr_mCategory u = CONSUMER"

text \<open>The order of the graph is the order of the edges, backwards.\<close>

lemma users_set_order:
  assumes "users_set um us es" and "\<forall>(s, d) \<in> es. s \<in> user_ids us \<and> d \<in> user_ids us"
  shows "before (the_graph um) = es\<inverse>"
  using assms by (auto simp: users_set_def)

text \<open>The users of a manufactured stream: node 1 makes it, nodes 2 and 4 read it, node 3 does neither.\<close>

definition ex_users :: "User list" where
  "ex_users = map (\<lambda>(k, c). User_new\<lparr>usr_mUserId := k, usr_mCategory := c\<rparr>) [(1, PRODUCER), (2, CONSUMER), (3, NONE), (4, CONSUMER)]"

section \<open>Properties\<close>

text \<open>C5: once the users of a stream are set up along an acyclic graph of nodes, and after any
  sequence of marks, a user may go on exactly when every user of the stream that an edge path
  leads from has been marked as released or pre-released.\<close>

theorem stream_users_ready:
  assumes "um_fresh um" and "us \<noteq> []" and "distinct (map usr_mUserId us)" and "length us \<le> 32"
    and "list_all (\<lambda>u. takes_part u \<or> usr_mCategory u = NONE) us"
    and "acyclic (set es)" and "list_all (\<lambda>(s, d). s \<in> user_ids us \<and> d \<in> user_ids us) es"
    and "u \<in> set us" and "takes_part u"
  shows "\<exists>um1 um2. set_users us es um = Some um1 \<and> run_marks ms um1 = Some um2 \<and>
    haveAllUsersReleasedOrPreReleased um2 (usr_mUserId u) =
      Some (if \<forall>v \<in> set us. (usr_mUserId v, usr_mUserId u) \<in> (set es)\<^sup>+ \<and> takes_part v \<longrightarrow>
              (\<exists>msk. (usr_mUserId v, msk) \<in> set ms \<and> lets_on msk) then OK else NO_INIT)"
proof -
  from set_users_done [OF assms(1-4)] obtain um1 where
    s1: "set_users us es um = Some um1" and u1: "users_set um1 us (set es)" by blast
  then have g1: "um_inv um1" "mUserInit um1" "um_fits um1" and len: "length (mUserGroupGraph um1) = 1"
    by (simp_all add: users_set_def um_good_def)
  from run_marks_done [OF g1, of ms] obtain um2 where
    s2: "run_marks ms um1 = Some um2" and inv2: "um_inv um2" "mUserInit um2" and gr: "mUserGroupGraph um2 = mUserGroupGraph um1"
    and cat: "\<forall>x. mCategory (mUsers um2 ! x) = mCategory (mUsers um1 ! x)" and q: "\<forall>k. queryUser um2 k = queryUser um1 k"
    and st: "\<forall>k. queryUser um1 k \<noteq> None \<longrightarrow>
      lets_on (getUserStatus um2 k) = (lets_on (getUserStatus um1 k) \<or> (\<exists>msk. (k, msk) \<in> set ms \<and> lets_on msk))" by blast
  have ord: "before (the_graph um2) = (set es)\<inverse>"
    unfolding gr by (rule users_set_order [OF u1]) (use assms(7) in \<open>simp add: list_all_iff\<close>)
  have ids: "set (ug_ids (the_graph um2)) = user_ids us" using u1 by (simp add: gr users_set_def)
  have node: "lets_on (mUserStatus (mUsers um2 ! node_user (the_graph um2) (usr_mUserId v))) =
      (\<exists>msk. (usr_mUserId v, msk) \<in> set ms \<and> lets_on msk)" if v: "v \<in> set us" "takes_part v" for v
  proof -
    have "queryUser um1 (usr_mUserId v) \<noteq> None" "getUserStatus um1 (usr_mUserId v) = 0"
      using u1 v by (auto simp: users_set_def takes_part_def)
    moreover from this obtain a where a: "queryUser um2 (usr_mUserId v) = Some a" using q by auto
    note n = queryUser_node [OF inv2(1) a]
    have "node_user (the_graph um2) (usr_mUserId v) = a" using n(2,4) len by (simp add: gr)
    moreover have "getUserStatus um2 (usr_mUserId v) = mUserStatus (mUsers um2 ! a)"
      using a inv2(2) by (simp add: getUserStatus_def)
    ultimately show ?thesis using st by (metis lets_on_0)
  qed
  have none: "mCategory (mUsers um2 ! node_user (the_graph um2) (usr_mUserId v)) = NONE \<longleftrightarrow> \<not> takes_part v"
    if "v \<in> set us" for v
    using u1 assms(5) that by (auto simp: users_set_def gr cat takes_part_def list_all_iff)
  obtain a where a: "queryUser um2 (usr_mUserId u) = Some a"
    using u1 assms(8,9) q by (fastforce simp: users_set_def takes_part_def)
  have a0: "mGroupIndex (mUsers um2 ! a) = 0" using queryUser_node(2) [OF inv2(1) a] len by (simp add: gr)
  have acyc: "acyclic (before (the_graph um2))" using assms(6) by (simp add: ord acyclic_converse)
  have anc: "b \<in> user_ids us" if "(b, usr_mUserId u) \<in> (set es)\<^sup>+" for b
    using tranclD [OF that] assms(7) by (auto simp: list_all_iff)
  have "(\<forall>b. (usr_mUserId u, b) \<in> (before (the_graph um2))\<^sup>+ \<longrightarrow>
      (let v = mUsers um2 ! node_user (the_graph um2) b in
        mCategory v = NONE \<or> has (mUserStatus v) RELEASE \<or> has (mUserStatus v) RELEASE_STILLUSE \<or> has (mUserStatus v) PRE_RELEASE)) \<longleftrightarrow>
    (\<forall>v \<in> set us. (usr_mUserId v, usr_mUserId u) \<in> (set es)\<^sup>+ \<and> takes_part v \<longrightarrow>
      (\<exists>msk. (usr_mUserId v, msk) \<in> set ms \<and> lets_on msk))"
    unfolding ord trancl_converse converse_iff Let_def lets_on_def [symmetric] using anc node none by blast
  with ready_iff [OF inv2 a a0 acyc] s1 s2 show ?thesis by simp
qed

theorem stream_users_ready_witness:
  "\<exists>um1 um2. set_users ex_users [(1, 2), (2, 3), (3, 4)] (UsersManager_new 7 ''image'') = Some um1 \<and>
    run_marks [(1, RELEASE), (2, USED)] um1 = Some um2 \<and> haveAllUsersReleasedOrPreReleased um2 4 = Some NO_INIT"
proof -
  let ?es = "[(1, 2), (2, 3), (3, 4 :: int)]"
  have us: "ex_users \<noteq> []" "distinct (map usr_mUserId ex_users)" "length ex_users \<le> 32"
    "list_all (\<lambda>u. takes_part u \<or> usr_mCategory u = NONE) ex_users"
    "list_all (\<lambda>(s, d). s \<in> user_ids ex_users \<and> d \<in> user_ids ex_users) ?es"
    by (simp_all add: ex_users_def takes_part_def)
  have acyc: "acyclic (set ?es)" by (rule acyclicI_order [where f = uminus]) auto
  let ?u = "User_new\<lparr>usr_mUserId := 4, usr_mCategory := CONSUMER\<rparr>"
  let ?v = "User_new\<lparr>usr_mUserId := 2, usr_mCategory := CONSUMER\<rparr>"
  have u: "?u \<in> set ex_users" "takes_part ?u" by (simp_all add: ex_users_def takes_part_def)
  have v: "?v \<in> set ex_users" "takes_part ?v" by (simp_all add: ex_users_def takes_part_def)
  have "(2, 4) \<in> (set ?es)\<^sup>+" by (rule trancl_into_trancl [of _ 3]) auto
  then have n: "\<not> (\<forall>v \<in> set ex_users. (usr_mUserId v, usr_mUserId ?u) \<in> (set ?es)\<^sup>+ \<and> takes_part v \<longrightarrow>
      (\<exists>msk. (usr_mUserId v, msk) \<in> set [(1, RELEASE), (2, USED)] \<and> lets_on msk))"
    using v by (intro notI) (drule bspec [OF _ v(1)], simp add: lets_on_def has_def)
  show ?thesis
    using stream_users_ready [OF um_fresh_new(1) us(1-4) acyc us(5) u, of 7 "''image''" "[(1, RELEASE), (2, USED)]"]
    unfolding if_not_P [OF n] by simp
qed

end
