(* ===== verification/RequestBuild.thy ===== *)
theory RequestBuild
  imports BufferUsers
begin

text \<open>
  From a request to a frame: the request builder
  (\<open>mtkcam/pipeline/pipeline/PipelineContextBuilders.cpp\<close>) and \<open>constructRequest\<close> with the
  functions it is made of (\<open>PipelineContextImpl.cpp\<close>).

  A request names for each node the groups of streams it reads and writes, the root, the edges
  and the buffers it brings along. The frame gets the streams' information, the graph and the
  map of its nodes, an item per stream with a buffer or the promise of one, and the users of
  each stream. The buffers and their managers are in the store; a null buffer is \<open>None\<close>.
\<close>

section \<open>The request builder\<close>

record IOMap =
  vIn :: "StreamId_T list"
  vOut :: "StreamId_T list"

definition IOMap_isEmpty :: "IOMap \<Rightarrow> bool" where
  "IOMap_isEmpty m \<longleftrightarrow> vIn m = [] \<and> vOut m = []"

definition addIn :: "StreamId_T \<Rightarrow> IOMap \<Rightarrow> IOMap" where "addIn s m = m\<lparr>vIn := Set_add s (vIn m)\<rparr>"
definition addOut :: "StreamId_T \<Rightarrow> IOMap \<Rightarrow> IOMap" where "addOut s m = m\<lparr>vOut := Set_add s (vOut m)\<rparr>"

type_synonym NodeIOMaps = "(NodeId_T, IOMap list) kvec"
type_synonym InfoMap = "(StreamId_T, IStreamInfo) kvec"
type_synonym BufferMap = "(StreamId_T, nat option) kvec"

abbreviation (input) FLAG_NO_CHANGE :: MUINT32 where "FLAG_NO_CHANGE \<equiv> 0x0"
abbreviation (input) FLAG_FIRSTTIME :: MUINT32 where "FLAG_FIRSTTIME \<equiv> 0x1"
abbreviation (input) FLAG_IOMAP_CHANGED :: MUINT32 where "FLAG_IOMAP_CHANGED \<equiv> 0x2"
abbreviation (input) FLAG_NODEEDGE_CHANGED :: MUINT32 where "FLAG_NODEEDGE_CHANGED \<equiv> 0x4"
abbreviation (input) FLAG_CALLBACK_CHANGED :: MUINT32 where "FLAG_CALLBACK_CHANGED \<equiv> 0x8"
abbreviation (input) FLAG_REPLACE_STREAMINFO :: MUINT32 where "FLAG_REPLACE_STREAMINFO \<equiv> 0x16"

record RequestBuilder =
  mFlag :: MUINT32
  mImageNodeIOMaps :: NodeIOMaps
  mMetaNodeIOMaps :: NodeIOMaps
  mNodeEdges :: "(NodeId_T \<times> NodeId_T) list"
  mRootNodes :: "NodeId_T list"
  mpCallback :: "nat option"
  mReplacingInfos :: InfoMap
  mStreamBuffers_Image :: BufferMap
  mStreamBuffers_HalImage :: BufferMap
  mStreamBuffers_Meta :: BufferMap
  mStreamBuffers_HalMeta :: BufferMap

definition RequestBuilder_new :: RequestBuilder where
  "RequestBuilder_new = \<lparr>mFlag = FLAG_FIRSTTIME, mImageNodeIOMaps = [], mMetaNodeIOMaps = [], mNodeEdges = [],
     mRootNodes = [], mpCallback = None, mReplacingInfos = [], mStreamBuffers_Image = [],
     mStreamBuffers_HalImage = [], mStreamBuffers_Meta = [], mStreamBuffers_HalMeta = []\<rparr>"

definition setFlag :: "MUINT32 \<Rightarrow> RequestBuilder \<Rightarrow> RequestBuilder" where
  "setFlag flag b = b\<lparr>mFlag := mFlag b OR flag\<rparr>"

definition clearFlag :: "RequestBuilder \<Rightarrow> RequestBuilder" where
  "clearFlag b = b\<lparr>mFlag := 0\<rparr>"

definition getFlag :: "MUINT32 \<Rightarrow> RequestBuilder \<Rightarrow> bool" where
  "getFlag flag b \<longleftrightarrow> mFlag b AND flag \<noteq> 0"

definition onRequestConstructed :: "RequestBuilder \<Rightarrow> RequestBuilder" where
  "onRequestConstructed b = b\<lparr>mStreamBuffers_Image := [], mStreamBuffers_HalImage := [], mStreamBuffers_Meta := [],
     mStreamBuffers_HalMeta := [], mFlag := FLAG_NO_CHANGE\<rparr>"

definition setIOMap :: "NodeId_T \<Rightarrow> IOMap list \<Rightarrow> IOMap list \<Rightarrow> RequestBuilder \<Rightarrow> RequestBuilder" where
  "setIOMap nodeId imageIOMap metaIOMap b =
     (let b1 = (if \<not> getFlag FLAG_IOMAP_CHANGED b
                then setFlag FLAG_IOMAP_CHANGED (b\<lparr>mImageNodeIOMaps := [], mMetaNodeIOMaps := []\<rparr>) else b)
      in b1\<lparr>mImageNodeIOMaps := kv_add nodeId imageIOMap (mImageNodeIOMaps b1),
            mMetaNodeIOMaps := kv_add nodeId metaIOMap (mMetaNodeIOMaps b1)\<rparr>)"

definition rb_setRootNode :: "NodeId_T list \<Rightarrow> RequestBuilder \<Rightarrow> RequestBuilder" where
  "rb_setRootNode roots b = (setFlag FLAG_NODEEDGE_CHANGED b)\<lparr>mRootNodes := roots\<rparr>"

definition rb_setNodeEdges :: "(NodeId_T \<times> NodeId_T) list \<Rightarrow> RequestBuilder \<Rightarrow> RequestBuilder" where
  "rb_setNodeEdges edges b = (setFlag FLAG_NODEEDGE_CHANGED b)\<lparr>mNodeEdges := edges\<rparr>"

definition replaceStreamInfo :: "StreamId_T \<Rightarrow> IStreamInfo \<Rightarrow> RequestBuilder \<Rightarrow> RequestBuilder" where
  "replaceStreamInfo streamId pStreamInfo b =
     (setFlag FLAG_REPLACE_STREAMINFO b)\<lparr>mReplacingInfos := kv_add streamId pStreamInfo (mReplacingInfos b)\<rparr>"

definition setImageStreamBuffer :: "StreamId_T \<Rightarrow> nat option \<Rightarrow> RequestBuilder \<Rightarrow> RequestBuilder" where
  "setImageStreamBuffer s buffer b = b\<lparr>mStreamBuffers_Image := kv_add s buffer (mStreamBuffers_Image b)\<rparr>"

definition setHalImageStreamBuffer :: "StreamId_T \<Rightarrow> nat option \<Rightarrow> RequestBuilder \<Rightarrow> RequestBuilder" where
  "setHalImageStreamBuffer s buffer b = b\<lparr>mStreamBuffers_HalImage := kv_add s buffer (mStreamBuffers_HalImage b)\<rparr>"

definition setMetaStreamBuffer :: "StreamId_T \<Rightarrow> nat option \<Rightarrow> RequestBuilder \<Rightarrow> RequestBuilder" where
  "setMetaStreamBuffer s buffer b = b\<lparr>mStreamBuffers_Meta := kv_add s buffer (mStreamBuffers_Meta b)\<rparr>"

definition setHalMetaStreamBuffer :: "StreamId_T \<Rightarrow> nat option \<Rightarrow> RequestBuilder \<Rightarrow> RequestBuilder" where
  "setHalMetaStreamBuffer s buffer b = b\<lparr>mStreamBuffers_HalMeta := kv_add s buffer (mStreamBuffers_HalMeta b)\<rparr>"

definition updateFrameCallback :: "nat option \<Rightarrow> RequestBuilder \<Rightarrow> RequestBuilder" where
  "updateFrameCallback pCallback b = (setFlag FLAG_CALLBACK_CHANGED b)\<lparr>mpCallback := pCallback\<rparr>"

section \<open>The streams of a request\<close>

definition getStreamSet :: "NodeIOMaps \<Rightarrow> StreamId_T list \<Rightarrow> StreamId_T list" where
  "getStreamSet nodeIOMap collected =
     fold (\<lambda>(k, ioMapSet) c. fold (\<lambda>m c. Set_add_all (vOut m) (Set_add_all (vIn m) c)) ioMapSet c) nodeIOMap collected"

text \<open>One of the two queries; \<open>query\<close> gives the information and the type of a stream.\<close>

fun collect_query ::
    "(StreamId_T \<Rightarrow> (IStreamInfo \<times> MUINT32) option) \<Rightarrow> StreamId_T list \<Rightarrow> InfoMap \<times> InfoMap \<Rightarrow> MERROR \<times> InfoMap \<times> InfoMap" where
  "collect_query query [] s = (OK, s)"
| "collect_query query (streamId # rest) (vApp, vHal) =
     (case query streamId of
        None \<Rightarrow> (BAD_VALUE, vApp, vHal)
      | Some (pInfo, type) \<Rightarrow>
          if BehaviorOf type = eBehavior_APP then collect_query query rest (kv_add streamId pInfo vApp, vHal)
          else if BehaviorOf type = eBehavior_HAL then collect_query query rest (vApp, kv_add streamId pInfo vHal)
          else (UNKNOWN_ERROR, vApp, vHal))"

definition image_query :: "StreamConfig \<Rightarrow> StreamId_T \<Rightarrow> (IStreamInfo \<times> MUINT32) option" where
  "image_query c s = map_option (\<lambda>i. (its_pInfo i, its_type i)) (queryImage c s)"

definition meta_query :: "StreamConfig \<Rightarrow> StreamId_T \<Rightarrow> (IStreamInfo \<times> MUINT32) option" where
  "meta_query c s = map_option (\<lambda>i. (mts_pInfo i, mts_type i)) (queryMeta c s)"

record RequestData =
  vAppImageStreamInfo :: InfoMap
  vHalImageStreamInfo :: InfoMap
  vAppMetaStreamInfo :: InfoMap
  vHalMetaStreamInfo :: InfoMap

definition collect_from_stream_config ::
    "StreamConfig \<Rightarrow> StreamId_T list \<Rightarrow> StreamId_T list \<Rightarrow> MERROR \<times> RequestData" where
  "collect_from_stream_config c images metas =
     (let (err, ai, hi) = collect_query (image_query c) images ([], [])
      in if err \<noteq> OK
         then (err, \<lparr>vAppImageStreamInfo = ai, vHalImageStreamInfo = hi, vAppMetaStreamInfo = [], vHalMetaStreamInfo = []\<rparr>)
         else let (err, am, hm) = collect_query (meta_query c) metas ([], [])
              in (err, \<lparr>vAppImageStreamInfo = ai, vHalImageStreamInfo = hi, vAppMetaStreamInfo = am, vHalMetaStreamInfo = hm\<rparr>))"

text \<open>The replacement of image information; \<open>None\<close> stands for the early return.\<close>

fun replace_infos :: "IStreamInfo list \<Rightarrow> InfoMap \<Rightarrow> InfoMap option" where
  "replace_infos [] m = Some m"
| "replace_infos (p # ps) m =
     (if kv_index m (si_streamId p) = None then None
      else replace_infos ps (kv_edit (si_streamId p) (\<lambda>_. p) m))"

definition addStreams :: "IStreamInfo list \<Rightarrow> InfoMap \<Rightarrow> InfoMap" where
  "addStreams ps m = fold addStream ps m"

definition update_streaminfo_to_set :: "RequestData \<Rightarrow> StreamInfoSetControl \<Rightarrow> MERROR \<times> StreamInfoSetControl" where
  "update_streaminfo_to_set r s =
     (OK, s\<lparr>ctl_AppImage := addStreams (map snd (vAppImageStreamInfo r)) (ctl_AppImage s),
            ctl_HalImage := addStreams (map snd (vHalImageStreamInfo r)) (ctl_HalImage s),
            ctl_AppMeta := addStreams (map snd (vAppMetaStreamInfo r)) (ctl_AppMeta s),
            ctl_HalMeta := addStreams (map snd (vHalMetaStreamInfo r)) (ctl_HalMeta s)\<rparr>)"

section \<open>The nodes of a request\<close>

fun dag_add_nodes :: "NodeId_T list \<Rightarrow> PipelineDAG \<Rightarrow> PipelineDAG \<Rightarrow> PipelineDAG option" where
  "dag_add_nodes [] cfg d = Some d"
| "dag_add_nodes (n # ns) cfg d =
     (let obj = getNode cfg n in
      if obj_val obj = - 1 then None else dag_add_nodes ns cfg (snd (addNode d n (obj_val obj))))"

definition request_nodes :: "NodeId_T list \<Rightarrow> (NodeId_T \<times> NodeId_T) list \<Rightarrow> NodeId_T list" where
  "request_nodes rootNodes edges =
     fold Set_add rootNodes (fold (\<lambda>(src, dst) s. Set_add dst (Set_add src s)) edges [])"

text \<open>The inner \<open>None\<close> is the null pointer.\<close>

definition constructDAG ::
    "PipelineDAG \<Rightarrow> NodeId_T list \<Rightarrow> (NodeId_T \<times> NodeId_T) list \<Rightarrow> PipelineDAG option option" where
  "constructDAG pConfigDAG rootNodes edges =
     (case dag_add_nodes (request_nodes rootNodes edges) pConfigDAG dag_create of
        None \<Rightarrow> Some None
      | Some d1 \<Rightarrow>
          if length rootNodes \<noteq> 1 then Some None
          else let (err, d2) = setRootNode d1 (rootNodes ! 0) in
            if err \<noteq> OK then Some None
            else let (err, d3) = config_edges edges d2 in
              if err \<noteq> OK then Some None
              else do {
                (ts, d4) \<leftarrow> getToposort d3;
                Some (if ts = [] then None else Some d4)
              })"

text \<open>
  The groups of streams of a node with the streams' information. A stream without
  information would be stored as a null pointer, which \<open>finishConfiguration\<close> reads through;
  here it is the fault \<open>None\<close> at once.
\<close>

datatype info_iomap = ImageInfoIOMap InfoMap InfoMap | MetaInfoIOMap InfoMap InfoMap

fun find_infos :: "(StreamId_T \<Rightarrow> IStreamInfo option) \<Rightarrow> StreamId_T list \<Rightarrow> InfoMap \<Rightarrow> InfoMap option" where
  "find_infos info [] m = Some m"
| "find_infos info (s # ss) m = do { p \<leftarrow> info s; find_infos info ss (kv_add s p m) }"

fun setINodeIO ::
    "(InfoMap \<Rightarrow> InfoMap \<Rightarrow> info_iomap) \<Rightarrow> (StreamId_T \<Rightarrow> IStreamInfo option) \<Rightarrow> IOMap list \<Rightarrow>
     InfoMap \<times> InfoMap \<times> info_iomap list \<Rightarrow> (InfoMap \<times> InfoMap \<times> info_iomap list) option" where
  "setINodeIO mk info [] s = Some s"
| "setINodeIO mk info (m # ms) (ins, outs, io) = do {
     vin \<leftarrow> find_infos info (vIn m) [];
     vout \<leftarrow> find_infos info (vOut m) [];
     ins1 \<leftarrow> find_infos info (vIn m) ins;
     outs1 \<leftarrow> find_infos info (vOut m) outs;
     setINodeIO mk info ms (ins1, outs1, io @ [mk vin vout])
   }"

definition iomaps_for :: "NodeIOMaps \<Rightarrow> NodeId_T \<Rightarrow> IOMap list" where
  "iomaps_for m nodeId = (case map_of m nodeId of None \<Rightarrow> [] | Some l \<Rightarrow> l)"

definition setINodeIOStreams ::
    "IOMap list \<Rightarrow> IOMap list \<Rightarrow> StreamInfoSetControl \<Rightarrow> info_iomap NodeInfo \<Rightarrow> info_iomap NodeInfo option" where
  "setINodeIOStreams images metas c n = do {
     (ii, oi, io1) \<leftarrow> setINodeIO ImageInfoIOMap (getImageInfoFor c) images ([], [], mIOMapSet n);
     (im, om, io2) \<leftarrow> setINodeIO MetaInfoIOMap (getMetaInfoFor c) metas ([], [], io1);
     Some ((setOStreams (Some \<lparr>si_metaInfos = map snd om, si_imageInfos = map snd oi\<rparr>)
             (setIStreams (Some \<lparr>si_metaInfos = map snd im, si_imageInfos = map snd ii\<rparr>) n))\<lparr>mIOMapSet := io2\<rparr>)
   }"

fun construct_FrameNodeMapControl ::
    "NodeIOMaps \<Rightarrow> NodeIOMaps \<Rightarrow> NodeObj list \<Rightarrow> StreamInfoSetControl \<Rightarrow> info_iomap FrameNodeMap \<Rightarrow> info_iomap FrameNodeMap option" where
  "construct_FrameNodeMapControl images metas [] c m = Some m"
| "construct_FrameNodeMapControl images metas (t # ts) c m = do {
     let nodeId = obj_id t; (index, m1) = fnm_addNode nodeId m in do {
     n \<leftarrow> Option.bind index (\<lambda>i. getNodeAt i m1);
     n' \<leftarrow> setINodeIOStreams (iomaps_for images nodeId) (iomaps_for metas nodeId) c n;
     construct_FrameNodeMapControl images metas ts c (kv_edit nodeId (\<lambda>_. n') m1) }
   }"

section \<open>The buffers of a request\<close>

text \<open>A metadata buffer without a pool, with a manager of its own.\<close>

definition alloc_meta :: "IStreamInfo \<Rightarrow> buffer_store \<Rightarrow> nat \<times> buffer_store" where
  "alloc_meta pStreamInfo st =
     (let b = length (st_buffers st); m = length (st_managers st)
      in (b, \<lparr>st_managers = st_managers st @ [UsersManager_new (si_streamId pStreamInfo) (si_streamName pStreamInfo)],
              st_buffers = st_buffers st @ [\<lparr>sbf_imp = StreamBufferImp_new pStreamInfo b None, sbf_manager = m,
                                             sbf_home = False\<rparr>]\<rparr>))"

definition buffer_for :: "BufferMap \<Rightarrow> StreamId_T \<Rightarrow> nat option" where
  "buffer_for m s = (case map_of m s of Some (Some b) \<Rightarrow> Some b | _ \<Rightarrow> None)"

fun collect_meta_buffers :: "InfoMap \<Rightarrow> BufferMap \<Rightarrow> buffer_store \<Rightarrow> nat list \<times> buffer_store" where
  "collect_meta_buffers [] sbs st = ([], st)"
| "collect_meta_buffers ((streamId, pStreamInfo) # rest) sbs st =
     (let (b, st1) = (case buffer_for sbs streamId of Some b \<Rightarrow> (b, st) | None \<Rightarrow> alloc_meta pStreamInfo st);
          (bs, st2) = collect_meta_buffers rest sbs st1
      in (b # bs, st2))"

definition add_buffers :: "map_kind \<Rightarrow> nat option list \<Rightarrow> 'io Frame \<Rightarrow> 'io Frame" where
  "add_buffers k bs f = fold (\<lambda>b f. snd (map_add_buffer k b f)) bs f"

definition updateMetaSB :: "map_kind \<Rightarrow> InfoMap \<Rightarrow> BufferMap \<Rightarrow> 'io Frame \<Rightarrow> MERROR \<times> 'io Frame" where
  "updateMetaSB k infos sbs f =
     (let (bs, st) = collect_meta_buffers infos sbs (fr_store f)
      in (OK, add_buffers k (map Some bs) (f\<lparr>fr_store := st\<rparr>)))"

definition updateAppImageSB :: "InfoMap \<Rightarrow> BufferMap \<Rightarrow> 'io Frame \<Rightarrow> MERROR \<times> 'io Frame" where
  "updateAppImageSB infos sbs f =
     (if length infos \<noteq> length sbs then (BAD_VALUE, f)
      else (OK, add_buffers AppImage (map snd sbs) f))"

definition updateHalImageSB :: "InfoMap \<Rightarrow> BufferMap \<Rightarrow> 'io Frame \<Rightarrow> MERROR \<times> 'io Frame" where
  "updateHalImageSB infos sbs f =
     (OK, fold (\<lambda>(k, pInfo) f.
        case buffer_for sbs (si_streamId pInfo) of
          Some b \<Rightarrow> snd (map_add_buffer HalImage (Some b) f)
        | None \<Rightarrow> snd (map_add_info HalImage pInfo None f)) infos f)"

definition update_streambuffers ::
    "RequestData \<Rightarrow> RequestBuilder \<Rightarrow> 'io Frame \<Rightarrow> MERROR \<times> 'io Frame" where
  "update_streambuffers r b f =
     (let (e1, f1) = updateMetaSB AppMeta (vAppMetaStreamInfo r) (mStreamBuffers_Meta b) f in
      if e1 \<noteq> OK then (e1, f1)
      else let (e2, f2) = updateMetaSB HalMeta (vHalMetaStreamInfo r) (mStreamBuffers_HalMeta b) f1 in
      if e2 \<noteq> OK then (e2, f2)
      else let (e3, f3) = updateAppImageSB (vAppImageStreamInfo r) (mStreamBuffers_Image b) f2 in
      if e3 \<noteq> OK then (e3, f3)
      else updateHalImageSB (vHalImageStreamInfo r) (mStreamBuffers_HalImage b) f3)"

end
