(* ===== verification/PipelineContext.thy ===== *)
theory PipelineContext
  imports RequestBuild
begin

text \<open>
  The context of a pipeline: configuration, construction and queueing of requests, waiting,
  flushing and dispatching (\<open>mtkcam/pipeline/pipeline/PipelineContextImpl.cpp\<close>,
  \<open>PipelineContext.cpp\<close>).

  Objects that contexts share are in the \<open>world\<close>: the counters of frame numbers (a context
  takes over its predecessor's), the states of the node actors, the buffers and managers.
  A pipeline node is named by its address; what the calls of nodes answer is an argument, and
  the calls made are the list of events. A dispatcher is one that derives from
  \<open>DispatcherBase\<close>; its flush flag is a field of the context.
\<close>

section \<open>State\<close>

record world =
  w_generators :: "FrameNumberGenerator list"
  w_actors :: "nat \<Rightarrow> nat"
  w_store :: buffer_store

record ContextImpl =
  mpStreamConfig :: StreamConfig
  mpNodeConfig :: NodeConfig
  mpPipelineConfig :: PipelineConfig
  mpScenarioControl :: "nat option"
  mpFrameNumberGenerator :: "nat option"
  ctx_mpPipelineDAG :: "PipelineDAG option"
  ctx_mpPipelineNodeMap :: "(nat \<times> PipelineNodeMap) option"
  mpDispatcher :: "nat option"
  disp_mInFlush :: bool
  disp_mpDataCallback :: "nat option"
  mpDataCallback :: "nat option"
  mpInFlightRequest :: "InFlightRequest option"
  mInFlush :: bool

definition ContextImpl_new :: ContextImpl where
  "ContextImpl_new = \<lparr>mpStreamConfig = StreamConfig_new, mpNodeConfig = NodeConfig_new,
     mpPipelineConfig = PipelineConfig_new, mpScenarioControl = None, mpFrameNumberGenerator = None,
     ctx_mpPipelineDAG = None, ctx_mpPipelineNodeMap = None, mpDispatcher = None, disp_mInFlush = False,
     disp_mpDataCallback = None, mpDataCallback = None, mpInFlightRequest = None, mInFlush = False\<rparr>"

datatype node_call = QueueFrame nat MUINT32 | FlushFrame nat MUINT32 | FlushNode nat

section \<open>Requests\<close>

text \<open>
  After the frame is created every failure returns the null pointer (the inner \<open>None\<close>); the
  builder's buffers are cleared in any case, and the number of the frame is used up.
\<close>

definition build_frame ::
    "ContextImpl \<Rightarrow> RequestBuilder \<Rightarrow> PipelineDAG \<Rightarrow> info_iomap Frame \<Rightarrow> (info_iomap Frame option \<times> buffer_store) option" where
  "build_frame ctx b pConfigDAG f =
     (let reqImgStreams = getStreamSet (mImageNodeIOMaps b) [];
          reqMetaStreams = getStreamSet (mMetaNodeIOMaps b) [];
          fail = Some (None, fr_store f);
          (err, r) = collect_from_stream_config (mpStreamConfig ctx) reqImgStreams reqMetaStreams in
      if err \<noteq> OK then fail
      else case replace_infos (map snd (mReplacingInfos b)) (vHalImageStreamInfo r) of
        None \<Rightarrow> fail
      | Some infos \<Rightarrow>
          let r1 = r\<lparr>vHalImageStreamInfo := infos\<rparr> in do {
          pReqDAG \<leftarrow> constructDAG pConfigDAG (mRootNodes b) (mNodeEdges b);
          (case pReqDAG of
             None \<Rightarrow> fail
           | Some dag \<Rightarrow>
               let (e, s) = update_streaminfo_to_set r1 StreamInfoSetControl_new in
               if e \<noteq> OK then fail
               else do {
                 (ts, dag1) \<leftarrow> getToposort dag;
                 m \<leftarrow> construct_FrameNodeMapControl (mImageNodeIOMaps b) (mMetaNodeIOMaps b) ts s [];
                 let (e2, f1) = update_streambuffers r1 b f in
                 if e2 \<noteq> OK then Some (None, fr_store f1)
                 else do {
                   (e3, dag2, f2) \<leftarrow> evaluate_buffer_users (mpNodeConfig ctx) dag1 m f1;
                   let f3 = snd (setPipelineNodeMap (map_option (\<lambda>(p, pm). (p, pnm_isEmpty pm)) (ctx_mpPipelineNodeMap ctx)) f2);
                       f4 = snd (setNodeMap (Some m) f3);
                       f5 = snd (setPipelineDAG (Some dag2) f4);
                       f6 = snd (setStreamInfoSet (Some 1) f5) in do {
                   (e4, f7) \<leftarrow> finishConfiguration f6;
                   Some (Some f7, fr_store f7) }
                 }
               }) })"

definition constructRequest ::
    "ContextImpl \<Rightarrow> RequestBuilder \<Rightarrow> MUINT32 \<Rightarrow> int \<Rightarrow> int \<Rightarrow> world \<Rightarrow> (info_iomap Frame option \<times> RequestBuilder \<times> world) option" where
  "constructRequest ctx b requestNo a h w =
     (case mpFrameNumberGenerator ctx of
        None \<Rightarrow> Some (None, onRequestConstructed b, w)
      | Some g \<Rightarrow> do {
          (frameNo, g') \<leftarrow> generateFrameNo (w_generators w ! g);
          let w1 = w\<lparr>w_generators := (w_generators w)[g := g']\<rparr> in
          (case frame_create requestNo frameNo (mpDispatcher ctx) a h (w_store w1) of
             None \<Rightarrow> Some (None, onRequestConstructed b, w1)
           | Some pFrame \<Rightarrow> do {
               pConfigDAG \<leftarrow> ctx_mpPipelineDAG ctx;
               (r, st) \<leftarrow> build_frame ctx b pConfigDAG pFrame;
               Some (r, onRequestConstructed b, w1\<lparr>w_store := st\<rparr>)
             })
        })"

section \<open>Configuration\<close>

text \<open>\<open>onInit\<close> and \<open>onConfig\<close> are the nodes' own functions.\<close>

definition run_job :: "(nat \<Rightarrow> MERROR) \<Rightarrow> (nat \<Rightarrow> MERROR) \<Rightarrow> nat \<Rightarrow> (nat \<Rightarrow> nat) \<Rightarrow> MERROR \<times> (nat \<Rightarrow> nat)" where
  "run_job onInit onConfig a st =
     (let (err, c, s1) = actor_init (onInit a) (st a) in
      if err \<noteq> OK then (err, st(a := s1))
      else let (err, c, s2) = actor_config (onConfig a) s1 in (err, st(a := s2)))"

text \<open>The results in order; the last one that is not \<open>OK\<close> stays.\<close>

fun run_jobs :: "(nat \<Rightarrow> MERROR) \<Rightarrow> (nat \<Rightarrow> MERROR) \<Rightarrow> nat list \<Rightarrow> MERROR \<Rightarrow> (nat \<Rightarrow> nat) \<Rightarrow> MERROR \<times> (nat \<Rightarrow> nat)" where
  "run_jobs onInit onConfig [] err st = (err, st)"
| "run_jobs onInit onConfig (a # as) err st =
     (let (result, st1) = run_job onInit onConfig a st
      in run_jobs onInit onConfig as (if result \<noteq> OK then result else err) st1)"

text \<open>The actors of the nodes up to the first that is not configured, and whether all are.\<close>

fun find_actors :: "NodeConfig \<Rightarrow> NodeObj list \<Rightarrow> nat list \<times> bool" where
  "find_actors nc [] = ([], True)"
| "find_actors nc (t # ts) =
     (case queryNode nc (obj_id t) of
        None \<Rightarrow> ([], False)
      | Some n \<Rightarrow> let (as, ok) = find_actors nc ts in (cn_mpNode n # as, ok))"

text \<open>
  \<open>config\<close>; \<open>old\<close> is the old context's counter, \<open>pm\<close> and \<open>pd\<close> are the addresses of new
  objects. When a node is missing, the jobs made so far run only if they are asynchronous.
\<close>

definition ctx_config ::
    "(nat \<Rightarrow> MERROR) \<Rightarrow> (nat \<Rightarrow> MERROR) \<Rightarrow> nat \<Rightarrow> nat \<Rightarrow> nat option option \<Rightarrow> bool \<Rightarrow> ContextImpl \<Rightarrow> world \<Rightarrow>
     (MERROR \<times> ContextImpl \<times> world) option" where
  "ctx_config onInit onConfig pm pd old isAsync ctx w =
     (let gen = (case old of Some g \<Rightarrow> g | None \<Rightarrow> mpFrameNumberGenerator ctx);
          (gen1, w1) = (case gen of Some g \<Rightarrow> (g, w)
                                  | None \<Rightarrow> (length (w_generators w), w\<lparr>w_generators := w_generators w @ [FrameNumberGenerator_new]\<rparr>));
          c1 = ctx\<lparr>mpFrameNumberGenerator := Some gen1\<rparr> in do {
      (err, d, m) \<leftarrow> config_pipeline (mpNodeConfig c1) (mpPipelineConfig c1) dag_create [];
      if err \<noteq> OK then Some (err, c1, w1)
      else do {
        (ts, d1) \<leftarrow> getToposort d;
        let c2 = c1\<lparr>ctx_mpPipelineDAG := Some d1, ctx_mpPipelineNodeMap := Some (pm, m)\<rparr>;
            c3 = (if mpDispatcher c2 = None
                  then c2\<lparr>mpDispatcher := Some pd, disp_mInFlush := False, disp_mpDataCallback := mpDataCallback c2\<rparr> else c2);
            c4 = c3\<lparr>mpInFlightRequest := Some InFlightRequest_new\<rparr>;
            (actors, ok) = find_actors (mpNodeConfig c4) ts
        in if ok then
             let (result, st) = run_jobs onInit onConfig actors err (w_actors w1) in Some (result, c4, w1\<lparr>w_actors := st\<rparr>)
           else Some (UNKNOWN_ERROR, c4, if isAsync then w1\<lparr>w_actors := snd (run_jobs onInit onConfig actors err (w_actors w1))\<rparr> else w1)
      } })"

section \<open>Queueing\<close>

definition frame_query_out :: "'io Frame \<Rightarrow> NodeId_T \<Rightarrow> MERROR \<times> StreamInfoSet option" where
  "frame_query_out f n = (let (e, ins, outs) = queryIOStreamInfoSet n f in (e, outs))"

text \<open>
  \<open>registerRequest\<close> with the frame: \<open>self\<close> is the listener. The frame's map of nodes is a
  weak pointer: \<open>live\<close> gives the map while it exists.
\<close>

definition register_frame :: "nat \<Rightarrow> 'io Frame \<Rightarrow> InFlightRequest \<Rightarrow> (InFlightRequest \<times> 'io Frame) option" where
  "register_frame self f r = do {
     d \<leftarrow> mpPipelineDAG f;
     (ts, d') \<leftarrow> getToposort d;
     r1 \<leftarrow> registerRequest (mFrameNo f) (map obj_id ts) (frame_query_out f) r;
     Some (r1, snd (attachListener self 0 (f\<lparr>mpPipelineDAG := Some d'\<rparr>)))
   }"

definition ctx_queue ::
    "nat \<Rightarrow> (nat \<Rightarrow> PipelineNodeMap option) \<Rightarrow> (node_call \<Rightarrow> MERROR) \<Rightarrow> 'io Frame \<Rightarrow> ContextImpl \<Rightarrow>
     (MERROR \<times> node_call list \<times> 'io Frame \<times> ContextImpl) option" where
  "ctx_queue self live answer f ctx =
     (case mpInFlightRequest ctx of
        None \<Rightarrow> Some (UNKNOWN_ERROR, [], f, ctx)
      | Some r \<Rightarrow>
          if mpDispatcher ctx = None then Some (UNKNOWN_ERROR, [], f, ctx)
          else do {
            (r1, f1) \<leftarrow> register_frame self f r;
            let ctx1 = ctx\<lparr>mpInFlightRequest := Some r1\<rparr> in
            (case Option.bind (mpPipelineNodeMap f1) live of
               None \<Rightarrow> Some (DEAD_OBJECT, [], f1, ctx1)
             | Some pm \<Rightarrow>
                 if pnm_isEmpty pm then Some (DEAD_OBJECT, [], f1, ctx1)
                 else do {
                   d \<leftarrow> mpPipelineDAG f1;
                   node \<leftarrow> pnm_nodeAt (obj_val (getRootNode d)) pm;
                   let call = (if mInFlush ctx then FlushFrame node (mFrameNo f1) else QueueFrame node (mFrameNo f1))
                   in Some (answer call, [call], f1, ctx1)
                 })
          })"

definition ctx_waitUntilDrained :: "ContextImpl \<Rightarrow> bool" where
  "ctx_waitUntilDrained ctx \<longleftrightarrow> (case mpInFlightRequest ctx of None \<Rightarrow> False | Some r \<Rightarrow> wait_drained r)"

definition ctx_waitUntilNodeDrained :: "NodeId_T \<Rightarrow> ContextImpl \<Rightarrow> bool" where
  "ctx_waitUntilNodeDrained nodeId ctx \<longleftrightarrow>
     (case mpInFlightRequest ctx of None \<Rightarrow> False | Some r \<Rightarrow> wait_node_meta nodeId r \<or> wait_node_image nodeId r)"

section \<open>Flushing and dispatching\<close>

fun flush_nodes :: "NodeObj list \<Rightarrow> PipelineNodeMap \<Rightarrow> node_call list option" where
  "flush_nodes [] m = Some []"
| "flush_nodes (t # ts) m = do { n \<leftarrow> pnm_nodeAt (obj_val t) m; cs \<leftarrow> flush_nodes ts m; Some (FlushNode n # cs) }"

definition beginFlush :: "ContextImpl \<Rightarrow> (MERROR \<times> node_call list \<times> ContextImpl) option" where
  "beginFlush ctx =
     (let c1 = ctx\<lparr>mInFlush := True, disp_mInFlush := (mpDispatcher ctx \<noteq> None \<or> disp_mInFlush ctx)\<rparr> in do {
      d \<leftarrow> ctx_mpPipelineDAG c1;
      (ts, d1) \<leftarrow> getToposort d;
      (p, m) \<leftarrow> ctx_mpPipelineNodeMap c1;
      calls \<leftarrow> flush_nodes ts m;
      Some (OK, calls, c1\<lparr>ctx_mpPipelineDAG := Some d1\<rparr>) })"

definition endFlush :: "ContextImpl \<Rightarrow> MERROR \<times> ContextImpl" where
  "endFlush ctx = (OK, ctx\<lparr>disp_mInFlush := (mpDispatcher ctx = None \<and> disp_mInFlush ctx), mInFlush := False\<rparr>)"

definition setScenarioControl :: "nat option \<Rightarrow> ContextImpl \<Rightarrow> MERROR \<times> ContextImpl" where
  "setScenarioControl pControl ctx =
     (if mpScenarioControl ctx \<noteq> None then (ALREADY_EXISTS, ctx) else (OK, ctx\<lparr>mpScenarioControl := pControl\<rparr>))"

definition setDispatcher :: "nat option \<Rightarrow> ContextImpl \<Rightarrow> MERROR \<times> ContextImpl" where
  "setDispatcher pDispatcher ctx =
     (OK, if pDispatcher = None then ctx\<lparr>mpDispatcher := None\<rparr>
          else ctx\<lparr>mpDispatcher := pDispatcher, disp_mInFlush := False, disp_mpDataCallback := mpDataCallback ctx\<rparr>)"

definition setDataCallback :: "nat option \<Rightarrow> ContextImpl \<Rightarrow> MERROR \<times> ContextImpl" where
  "setDataCallback pCallback ctx =
     (OK, (if mpDispatcher ctx \<noteq> None then ctx\<lparr>disp_mpDataCallback := pCallback\<rparr> else ctx)\<lparr>mpDataCallback := pCallback\<rparr>)"

text \<open>A stream that is not configured is a fault.\<close>

definition queryImageStreamPool :: "StreamId_T \<Rightarrow> ContextImpl \<Rightarrow> nat option option" where
  "queryImageStreamPool streamId ctx = map_option its_pPool (queryImage (mpStreamConfig ctx) streamId)"

definition ctx_queryNode :: "NodeId_T \<Rightarrow> ContextImpl \<Rightarrow> nat option" where
  "ctx_queryNode nodeId ctx = map_option cn_mpNode (queryNode (mpNodeConfig ctx) nodeId)"

fun dispatch_to :: "bool \<Rightarrow> MUINT32 \<Rightarrow> NodeObj list \<Rightarrow> PipelineNodeMap \<Rightarrow> node_call list option" where
  "dispatch_to inFlush frameNo [] m = Some []"
| "dispatch_to inFlush frameNo (t # ts) m = do {
     n \<leftarrow> pnm_nodeAt (obj_val t) m;
     cs \<leftarrow> dispatch_to inFlush frameNo ts m;
     Some ((if inFlush then FlushFrame n frameNo else QueueFrame n frameNo) # cs)
   }"

definition onDispatchFrame ::
    "bool \<Rightarrow> (nat \<Rightarrow> PipelineNodeMap option) \<Rightarrow> 'io Frame \<Rightarrow> NodeId_T \<Rightarrow> node_call list option" where
  "onDispatchFrame inFlush live f nodeId =
     (case Option.bind (mpPipelineNodeMap f) live of
        None \<Rightarrow> Some []
      | Some m \<Rightarrow>
          if pnm_isEmpty m then Some []
          else do {
            d \<leftarrow> mpPipelineDAG f;
            (err, nextNodes) \<leftarrow> getOutAdjacentNodes d nodeId;
            if err = OK \<and> nextNodes \<noteq> [] then dispatch_to inFlush (mFrameNo f) nextNodes m else Some []
          })"

section \<open>The interface of a context\<close>

text \<open>
  A \<open>PipelineContext\<close> holds its implementation and, between the two calls of a configuration,
  the address of the context before it. \<open>None\<close> is also a call that does not return because
  the pipeline does not drain.
\<close>

record Context =
  mpImpl :: "ContextImpl option"
  mpOldContext :: "nat option"

definition Context_create :: Context where
  "Context_create = \<lparr>mpImpl = Some ContextImpl_new, mpOldContext = None\<rparr>"

definition beginConfigure :: "nat \<Rightarrow> nat option \<Rightarrow> Context \<Rightarrow> (MERROR \<times> Context) option" where
  "beginConfigure self oldContext c =
     (if oldContext = Some self then Some (INVALID_OPERATION, c)
      else do {
        impl \<leftarrow> mpImpl c;
        if ctx_waitUntilDrained impl then None else Some (OK, c\<lparr>mpOldContext := oldContext\<rparr>)
      })"

text \<open>\<open>others\<close> gives the implementations of the other contexts.\<close>

definition endConfigure ::
    "(nat \<Rightarrow> MERROR) \<Rightarrow> (nat \<Rightarrow> MERROR) \<Rightarrow> nat \<Rightarrow> nat \<Rightarrow> (nat \<Rightarrow> ContextImpl option) \<Rightarrow> bool \<Rightarrow> Context \<Rightarrow> world \<Rightarrow>
     (MERROR \<times> Context \<times> world) option" where
  "endConfigure onInit onConfig pm pd others parallelConfig c w =
     (let old = map_option mpFrameNumberGenerator (Option.bind (mpOldContext c) others) in do {
      impl \<leftarrow> mpImpl c;
      (err, impl', w') \<leftarrow> ctx_config onInit onConfig pm pd old parallelConfig impl w;
      Some (err, if err \<noteq> OK then c\<lparr>mpImpl := Some impl'\<rparr> else c\<lparr>mpImpl := Some impl', mpOldContext := None\<rparr>, w') })"

text \<open>\<open>meanwhile\<close> is what other threads do to the context while the caller waits.\<close>

definition ctx_flush :: "(ContextImpl \<Rightarrow> ContextImpl) \<Rightarrow> ContextImpl \<Rightarrow> (MERROR \<times> node_call list \<times> ContextImpl) option" where
  "ctx_flush meanwhile ctx = do {
     (err, calls, c1) \<leftarrow> beginFlush ctx;
     let c2 = meanwhile c1 in
     if ctx_waitUntilDrained c2 then None else Some (OK, calls, snd (endFlush c2))
   }"

text \<open>The early callback reaches the client when its callback object still lives.\<close>

definition onEarlyCallback :: "(nat \<Rightarrow> bool) \<Rightarrow> ContextImpl \<Rightarrow> nat option" where
  "onEarlyCallback alive ctx =
     (case disp_mpDataCallback ctx of None \<Rightarrow> None | Some p \<Rightarrow> if alive p then Some p else None)"

section \<open>Building\<close>

text \<open>
  The outer option of the context argument is the pointer to the context, which every
  \<open>build\<close> dereferences before it tests it.
\<close>

definition StreamBuilder_image :: "MUINT32 \<Rightarrow> IStreamInfo option \<Rightarrow> StreamBuilderImpl" where
  "StreamBuilder_image type info = \<lparr>sb_mType = type, sb_mpImageStreamInfo = info, sb_mpMetaStreamInfo = None, sb_mpProvider = None\<rparr>"

definition StreamBuilder_meta :: "MUINT32 \<Rightarrow> IStreamInfo option \<Rightarrow> StreamBuilderImpl" where
  "StreamBuilder_meta type info = \<lparr>sb_mType = type, sb_mpImageStreamInfo = None, sb_mpMetaStreamInfo = info, sb_mpProvider = None\<rparr>"

definition setProvider :: "nat option \<Rightarrow> StreamBuilderImpl \<Rightarrow> StreamBuilderImpl" where
  "setProvider pProvider b = b\<lparr>sb_mpProvider := pProvider\<rparr>"

definition build_into :: "(ContextImpl \<Rightarrow> MERROR \<times> ContextImpl) \<Rightarrow> Context option \<Rightarrow> (MERROR \<times> Context) option" where
  "build_into updateConfig pContext = do {
     c \<leftarrow> pContext;
     Some (case mpImpl c of
         None \<Rightarrow> (UNKNOWN_ERROR, c)
       | Some impl \<Rightarrow> let (err, impl') = updateConfig impl in (err, c\<lparr>mpImpl := Some impl'\<rparr>))
   }"

definition StreamBuilder_build ::
    "(IStreamInfo \<Rightarrow> nat option) \<Rightarrow> StreamBuilderImpl \<Rightarrow> Context option \<Rightarrow> (MERROR \<times> Context) option" where
  "StreamBuilder_build pool b = build_into (\<lambda>i. let (err, c) = updateConfig_stream pool b (mpStreamConfig i) in (err, i\<lparr>mpStreamConfig := c\<rparr>))"

definition NodeBuilder_build :: "NodeBuilderImpl \<Rightarrow> Context option \<Rightarrow> (MERROR \<times> Context) option" where
  "NodeBuilder_build b = build_into (\<lambda>i. let (err, c) = updateConfig_node b (mpStreamConfig i) (mpNodeConfig i) in (err, i\<lparr>mpNodeConfig := c\<rparr>))"

definition PipelineBuilder_build :: "PipelineConfig \<Rightarrow> Context option \<Rightarrow> (MERROR \<times> Context) option" where
  "PipelineBuilder_build b = build_into (\<lambda>i. let (err, c) = updateConfig_pipeline b (mpNodeConfig i) (mpPipelineConfig i) in (err, i\<lparr>mpPipelineConfig := c\<rparr>))"

definition RequestBuilder_build ::
    "MUINT32 \<Rightarrow> Context option \<Rightarrow> int \<Rightarrow> int \<Rightarrow> RequestBuilder \<Rightarrow> world \<Rightarrow> (info_iomap Frame option \<times> RequestBuilder \<times> world) option" where
  "RequestBuilder_build requestNo pContext a h b w = do {
     c \<leftarrow> pContext;
     (case mpImpl c of None \<Rightarrow> Some (None, b, w) | Some impl \<Rightarrow> constructRequest impl b requestNo a h w)
   }"

end
