(* ===== verification/FrameBuild.thy ===== *)
theory FrameBuild
  imports PipelineContext FrameProps
begin

text \<open>
  How a frame grows while a request is constructed: every stream gets one item, the items have
  managers of their own that nobody has set up (\<open>built\<close>), then every manager gets its users
  (\<open>set_up\<close>), and the end of the configuration gives the invariant of \<open>FrameProps\<close>.
\<close>

section \<open>Adding items\<close>

definition used :: "'io Frame \<Rightarrow> nat set" where
  "used f = item_mgr f ` {..<n_items f}"

text \<open>\<open>S k\<close> are the streams of the map \<open>k\<close>; the managers in \<open>F\<close> are kept free.\<close>

definition built :: "(map_kind \<Rightarrow> StreamId_T set) \<Rightarrow> nat set \<Rightarrow> 'io Frame \<Rightarrow> bool" where
  "built S F f \<longleftrightarrow>
     (\<forall>k. kv_wf (im_mMap (fr_maps f k)) \<and> set (kv_keys (im_mMap (fr_maps f k))) = S k) \<and>
     (\<forall>k s e. map_of (im_mMap (fr_maps f k)) s = Some e \<longrightarrow>
        (\<exists>i < n_items f. e = Some i \<and> item_kind f i = k \<and> item_sid f i = s)) \<and>
     (\<forall>i < n_items f. entry f i = Some (Some i) \<and> ref_ok (fr_store f) (item_ref f i) \<and> um_fresh (item_um f i) \<and>
        (\<forall>b. item_buf f i = Some b \<longrightarrow> b < length (st_buffers (fr_store f)) \<and>
           manager_of (fr_store f) (BufferUsers b) = item_mgr f i)) \<and>
     inj_on (item_mgr f) {..<n_items f} \<and> used f \<inter> F = {}"

text \<open>The fields that the construction does not touch before the end of the configuration.\<close>

definition rest_same :: "'io Frame \<Rightarrow> 'io Frame \<Rightarrow> bool" where
  "rest_same f f' \<longleftrightarrow> mFrameNo f' = mFrameNo f \<and> fr_mListeners f' = fr_mListeners f \<and> mNodeStatusMap f' = mNodeStatusMap f \<and>
     mInFlightNodeCount f' = mInFlightNodeCount f \<and> collected f' = collected f"

lemma rest_same_refl [simp]: "rest_same f f"
  by (simp add: rest_same_def)

lemma rest_same_trans: "rest_same f g \<Longrightarrow> rest_same g h \<Longrightarrow> rest_same f h"
  by (simp add: rest_same_def)

lemma built_put:
  assumes b: "built S F f" and s: "s \<notin> S k" "s = si_streamId (it_mStreamInfo it)" and k: "it_map it = k"
    and m: "manager_of (fr_store f) (it_mUsersManager it) = m" "ref_ok (fr_store f) (it_mUsersManager it)" "m \<notin> used f"
    and fresh: "um_fresh (st_managers (fr_store f) ! m)"
    and buf: "\<And>b. it_mBuffer it = Some b \<Longrightarrow> b < length (st_buffers (fr_store f)) \<and> manager_of (fr_store f) (BufferUsers b) = m"
    and F': "F' \<subseteq> F - {m}"
  shows "built (S(k := insert s (S k))) F' (snd (map_put k s it f)) \<and> rest_same f (snd (map_put k s it f)) \<and>
    fr_store (snd (map_put k s it f)) = fr_store f \<and> used (snd (map_put k s it f)) = insert m (used f)"
proof -
  let ?n = "n_items f" and ?f = "snd (map_put k s it f)"
  have items: "fr_items ?f = fr_items f @ [it]" and st: "fr_store ?f = fr_store f"
    and maps: "\<And>j. im_mMap (fr_maps ?f j) = (if j = k then kv_add s (Some ?n) (im_mMap (fr_maps f k)) else im_mMap (fr_maps f j))"
    by (simp_all add: map_put_def Let_def edit_map_def)
  have old: "item_kind ?f i = item_kind f i" "item_sid ?f i = item_sid f i" "item_mgr ?f i = item_mgr f i"
    "item_buf ?f i = item_buf f i" "item_um ?f i = item_um f i" "item_ref ?f i = item_ref f i" if "i < ?n" for i
    using that by (simp_all add: item_kind_def item_sid_def item_mgr_def item_ref_def item_buf_def item_um_def items st nth_append)
  have new: "item_kind ?f ?n = k" "item_sid ?f ?n = s" "item_mgr ?f ?n = m" "item_buf ?f ?n = it_mBuffer it"
    "item_um ?f ?n = st_managers (fr_store f) ! m" "item_ref ?f ?n = it_mUsersManager it"
    using k m(1) by (simp_all add: item_kind_def item_sid_def item_mgr_def item_ref_def item_buf_def item_um_def um_of_def items st s(2) [symmetric])
  note B = b [unfolded built_def]
  have entries: "\<exists>i < Suc ?n. e = Some i \<and> item_kind ?f i = j \<and> item_sid ?f i = t"
    if e: "map_of (im_mMap (fr_maps ?f j)) t = Some e" for j t e
  proof (cases "j = k \<and> t = s")
    case True
    with e have "e = Some ?n" by (simp add: maps)
    with True new show ?thesis by (intro exI [of _ ?n]) simp
  next
    case False
    with e have "map_of (im_mMap (fr_maps f j)) t = Some e" by (auto simp: maps split: if_splits)
    with B obtain i where "i < ?n" "e = Some i" "item_kind f i = j" "item_sid f i = t" by blast
    with old show ?thesis by (intro exI [of _ i]) simp
  qed
  have ent: "entry ?f i = Some (Some i)" if "i < Suc ?n" for i
  proof (cases "i = ?n")
    case True
    then show ?thesis using new by (simp add: entry_def maps)
  next
    case False
    with that have i: "i < ?n" by simp
    then have e: "entry f i = Some (Some i)" using B by blast
    then have "\<not> (item_kind f i = k \<and> item_sid f i = s)"
      using s(1) B by (metis entry_def kv_get_in_keys)
    with e old [OF i] show ?thesis by (auto simp: entry_def maps)
  qed
  have used_m: "item_mgr f i \<noteq> m" if "i < ?n" for i using m(3) that by (auto simp: used_def)
  have us: "used ?f = insert m (used f)"
    unfolding used_def items using old(3) new(3) by (simp add: lessThan_Suc image_iff)
  have inj: "inj_on (item_mgr ?f) {..<Suc ?n}"
  proof (rule inj_onI)
    fix i j assume "i \<in> {..<Suc ?n}" "j \<in> {..<Suc ?n}" "item_mgr ?f i = item_mgr ?f j"
    then show "i = j"
      using B old(3) new(3) used_m [of i] used_m [of j] by (cases "i = ?n"; cases "j = ?n") (auto simp: inj_on_def)
  qed
  have per: "ref_ok (fr_store f) (item_ref ?f i) \<and> um_fresh (item_um ?f i) \<and>
      (\<forall>b. item_buf ?f i = Some b \<longrightarrow> b < length (st_buffers (fr_store f)) \<and>
         manager_of (fr_store f) (BufferUsers b) = item_mgr ?f i)" if "i < Suc ?n" for i
  proof (cases "i = ?n")
    case True
    then show ?thesis using new m(2) fresh buf by simp
  next
    case False
    with that have "i < ?n" by simp
    with old B show ?thesis by metis
  qed
  have keys: "kv_wf (im_mMap (fr_maps ?f j)) \<and> set (kv_keys (im_mMap (fr_maps ?f j))) = (S(k := insert s (S k))) j" for j
    using B by (auto simp: maps kv_wf_add)
  have "used ?f \<inter> F' = {}" using us F' B by auto
  then have "built (S(k := insert s (S k))) F' ?f"
    unfolding built_def items st using keys entries ent per inj by (simp add: length_append)
  moreover have "rest_same f ?f" by (simp add: rest_same_def map_put_def Let_def edit_map_def collected_def)
  ultimately show ?thesis using st us by blast
qed

text \<open>The store may grow.\<close>

definition st_ext :: "buffer_store \<Rightarrow> buffer_store \<Rightarrow> bool" where
  "st_ext st st' \<longleftrightarrow> (\<exists>ms bs. st_managers st' = st_managers st @ ms \<and> st_buffers st' = st_buffers st @ bs)"

lemma st_ext_refl [simp]: "st_ext st st"
  by (simp add: st_ext_def)

lemma st_ext_trans: "st_ext st st1 \<Longrightarrow> st_ext st1 st2 \<Longrightarrow> st_ext st st2"
  by (auto simp: st_ext_def)

lemma st_ext_buffer:
  assumes "st_ext st st'" and "b < length (st_buffers st)"
  shows "st_buffers st' ! b = st_buffers st ! b" and "b < length (st_buffers st')"
  using assms by (auto simp: st_ext_def nth_append)

lemma st_ext_manager:
  assumes "st_ext st st'" and "m < length (st_managers st)"
  shows "st_managers st' ! m = st_managers st ! m" and "m < length (st_managers st')"
  using assms by (auto simp: st_ext_def nth_append)

lemma st_ext_ref:
  assumes e: "st_ext st st'" and r: "ref_ok st r"
  shows "ref_ok st' r" and "manager_of st' r = manager_of st r" and "um_of st' r = um_of st r"
proof -
  show m: "manager_of st' r = manager_of st r"
    using r st_ext_buffer(1) [OF e] by (cases r) (auto simp: manager_of_def ref_ok_def)
  have "manager_of st r < length (st_managers st)" using r by (simp add: ref_ok_def)
  from st_ext_manager [OF e this] show "ref_ok st' r" "um_of st' r = um_of st r"
    using r m st_ext_buffer(2) [OF e] by (auto simp: ref_ok_def um_of_def split: users_ref.splits)
qed

lemma built_ext:
  assumes b: "built S F f" and e: "st_ext (fr_store f) st'"
  shows "built S F (f\<lparr>fr_store := st'\<rparr>)" and "used (f\<lparr>fr_store := st'\<rparr>) = used f"
proof -
  let ?f = "f\<lparr>fr_store := st'\<rparr>"
  note B = b [unfolded built_def]
  have same: "item_kind ?f i = item_kind f i" "item_sid ?f i = item_sid f i" "item_ref ?f i = item_ref f i"
    "item_buf ?f i = item_buf f i" for i
    by (simp_all add: item_kind_def item_sid_def item_ref_def item_buf_def)
  have ok: "ref_ok (fr_store f) (item_ref f i)" if "i < n_items f" for i using B that by blast
  have mgr: "item_mgr ?f i = item_mgr f i" "item_um ?f i = item_um f i" "ref_ok st' (item_ref f i)" if "i < n_items f" for i
    using st_ext_ref [OF e ok [OF that]] by (simp_all add: item_mgr_def item_ref_def item_um_def)
  show us: "used ?f = used f" using mgr by (auto simp: used_def)
  have ent: "entry ?f i = entry f i" for i by (simp add: entry_def same)
  have per: "ref_ok st' (item_ref ?f i) \<and> um_fresh (item_um ?f i) \<and>
      (\<forall>b. item_buf ?f i = Some b \<longrightarrow> b < length (st_buffers st') \<and> manager_of st' (BufferUsers b) = item_mgr ?f i)"
    if i: "i < n_items f" for i
  proof (intro conjI allI impI)
    fix b assume "item_buf ?f i = Some b"
    with B i same have b: "b < length (st_buffers (fr_store f))" "manager_of (fr_store f) (BufferUsers b) = item_mgr f i" by auto
    from st_ext_buffer [OF e b(1)] b(2) mgr(1) [OF i] show "b < length (st_buffers st')" "manager_of st' (BufferUsers b) = item_mgr ?f i"
      by (simp_all add: manager_of_def)
  qed (use mgr [OF i] B i same in auto)
  have inj: "inj_on (item_mgr ?f) {..<n_items f}" using B mgr(1) by (auto simp: inj_on_def)
  show "built S F ?f"
    unfolding built_def using B same ent per inj us by simp
qed

text \<open>A buffer that brings a fresh manager, one of those kept free.\<close>

definition buf_ok :: "buffer_store \<Rightarrow> nat \<Rightarrow> bool" where
  "buf_ok st b \<longleftrightarrow> b < length (st_buffers st) \<and> sbf_manager (st_buffers st ! b) < length (st_managers st) \<and>
     um_fresh (st_managers st ! sbf_manager (st_buffers st ! b))"

abbreviation buf_sid :: "buffer_store \<Rightarrow> nat \<Rightarrow> StreamId_T" where
  "buf_sid st b \<equiv> si_streamId (mStreamInfo (sbf_imp (st_buffers st ! b)))"

abbreviation buf_mgr :: "buffer_store \<Rightarrow> nat \<Rightarrow> nat" where
  "buf_mgr st b \<equiv> sbf_manager (st_buffers st ! b)"

lemma buf_ok_ext: "st_ext st st' \<Longrightarrow> buf_ok st b \<Longrightarrow> buf_ok st' b \<and> buf_sid st' b = buf_sid st b \<and> buf_mgr st' b = buf_mgr st b"
  using st_ext_buffer [of st st' b] st_ext_manager [of st st' "buf_mgr st b"] by (simp add: buf_ok_def)

lemma built_add_buffer:
  assumes "built S F f" and "buf_ok (fr_store f) b" and "buf_sid (fr_store f) b \<notin> S k" and "buf_mgr (fr_store f) b \<notin> used f"
    and "F' \<subseteq> F - {buf_mgr (fr_store f) b}"
  defines "f' \<equiv> snd (map_add_buffer k (Some b) f)"
  shows "built (S(k := insert (buf_sid (fr_store f) b) (S k))) F' f' \<and> rest_same f f' \<and> fr_store f' = fr_store f \<and>
    used f' = insert (buf_mgr (fr_store f) b) (used f)"
proof -
  let ?info = "mStreamInfo (sbf_imp (st_buffers (fr_store f) ! b))"
  let ?it = "Item_new k (Some b) ?info (BufferUsers b)" and ?m = "buf_mgr (fr_store f) b"
  have f': "f' = snd (map_put k (buf_sid (fr_store f) b) ?it f)" by (simp add: f'_def map_add_buffer_def Let_def)
  have m: "manager_of (fr_store f) (BufferUsers b) = ?m" by (simp add: manager_of_def)
  have b: "b < length (st_buffers (fr_store f))" "?m < length (st_managers (fr_store f))" "um_fresh (st_managers (fr_store f) ! ?m)"
    using assms(2) by (simp_all add: buf_ok_def)
  show ?thesis
    unfolding f'
  proof (rule built_put [OF assms(1,3) _ _ _ _ assms(4) b(3) _ assms(5)])
    show "ref_ok (fr_store f) (it_mUsersManager ?it)" using b(1,2) m by (simp add: Item_new_def ref_ok_def)
    show "b' < length (st_buffers (fr_store f)) \<and> manager_of (fr_store f) (BufferUsers b') = ?m"
      if "it_mBuffer ?it = Some b'" for b' using that b(1) m by (simp add: Item_new_def)
  qed (simp_all add: Item_new_def m)
qed

lemma built_add_buffers:
  assumes "built S F f" and "\<forall>b \<in> set bs. buf_ok (fr_store f) b" and "distinct (map (buf_sid (fr_store f)) bs)"
    and "\<forall>b \<in> set bs. buf_sid (fr_store f) b \<notin> S k" and "distinct (map (buf_mgr (fr_store f)) bs)"
    and "\<forall>b \<in> set bs. buf_mgr (fr_store f) b \<notin> used f" and "F' \<subseteq> F - buf_mgr (fr_store f) ` set bs"
  shows "built (S(k := S k \<union> buf_sid (fr_store f) ` set bs)) F' (add_buffers k (map Some bs) f) \<and>
    rest_same f (add_buffers k (map Some bs) f) \<and> fr_store (add_buffers k (map Some bs) f) = fr_store f \<and>
    used (add_buffers k (map Some bs) f) = used f \<union> buf_mgr (fr_store f) ` set bs"
  using assms
proof (induction bs arbitrary: S F f)
  case Nil
  then show ?case by (auto simp: add_buffers_def built_def)
next
  case (Cons b bs)
  let ?st = "fr_store f" and ?f = "snd (map_add_buffer k (Some b) f)"
  from built_add_buffer [OF Cons.prems(1), of b k "F - {buf_mgr ?st b}"] Cons.prems(2,4,6) have
    one: "built (S(k := insert (buf_sid ?st b) (S k))) (F - {buf_mgr ?st b}) ?f" "rest_same f ?f" "fr_store ?f = ?st"
      "used ?f = insert (buf_mgr ?st b) (used f)" by simp_all
  let ?g = "add_buffers k (map Some bs) ?f"
  have "built ((S(k := insert (buf_sid ?st b) (S k)))(k := (S(k := insert (buf_sid ?st b) (S k))) k \<union> buf_sid (fr_store ?f) ` set bs)) F' ?g \<and>
    rest_same ?f ?g \<and> fr_store ?g = fr_store ?f \<and> used ?g = used ?f \<union> buf_mgr (fr_store ?f) ` set bs"
  proof (rule Cons.IH [OF one(1)])
    have sid: "buf_sid ?st b \<notin> buf_sid ?st ` set bs" and mgr: "buf_mgr ?st b \<notin> buf_mgr ?st ` set bs"
      using Cons.prems(3,5) by simp_all
    show "\<forall>b' \<in> set bs. buf_sid (fr_store ?f) b' \<notin> (S(k := insert (buf_sid ?st b) (S k))) k"
    proof
      fix b' assume "b' \<in> set bs"
      then show "buf_sid (fr_store ?f) b' \<notin> (S(k := insert (buf_sid ?st b) (S k))) k"
        using bspec [OF Cons.prems(4), of b'] imageI [of b' "set bs" "buf_sid ?st"] sid
        unfolding one(3) by (cases "buf_sid ?st b' = buf_sid ?st b") simp_all
    qed
    show "\<forall>b' \<in> set bs. buf_mgr (fr_store ?f) b' \<notin> used ?f"
    proof
      fix b' assume "b' \<in> set bs"
      then show "buf_mgr (fr_store ?f) b' \<notin> used ?f"
        using bspec [OF Cons.prems(6), of b'] imageI [of b' "set bs" "buf_mgr ?st"] mgr
        unfolding one(3,4) by (cases "buf_mgr ?st b' = buf_mgr ?st b") simp_all
    qed
    show "F' \<subseteq> F - {buf_mgr ?st b} - buf_mgr (fr_store ?f) ` set bs" using Cons.prems(7) one(3) by auto
  qed (use Cons.prems(2,3,5) one(3) in simp_all)
  moreover have "add_buffers k (map Some (b # bs)) f = ?g" by (simp add: add_buffers_def)
  ultimately show ?case
    using one rest_same_trans [OF one(2)] by (simp add: fun_upd_def cong: if_cong)
qed

text \<open>A stream without a buffer gets a new manager.\<close>

lemma built_add_info:
  assumes "built S F f" and "si_streamId info \<notin> S k" and "F' \<subseteq> F" and "\<forall>m \<in> F \<union> used f. m < length (st_managers (fr_store f))"
  defines "f' \<equiv> snd (map_add_info k info None f)"
  shows "built (S(k := insert (si_streamId info) (S k))) F' f' \<and> rest_same f f' \<and> st_ext (fr_store f) (fr_store f') \<and>
    (\<forall>m \<in> F' \<union> used f'. m < length (st_managers (fr_store f'))) \<and> used f \<subseteq> used f' \<and> used f' \<inter> {..<length (st_managers (fr_store f))} = used f"
proof -
  let ?st = "fr_store f" and ?n = "length (st_managers (fr_store f))"
  let ?st1 = "?st\<lparr>st_managers := st_managers ?st @ [UsersManager_new (si_streamId info) (si_streamName info)]\<rparr>"
  let ?f1 = "f\<lparr>fr_store := ?st1\<rparr>" and ?it = "Item_new k None info (Users ?n)"
  have e: "st_ext ?st ?st1" by (simp add: st_ext_def)
  note b1 = built_ext [OF assms(1) e]
  have f': "f' = snd (map_put k (si_streamId info) ?it ?f1)" by (simp add: f'_def map_add_info_def Let_def)
  have new: "?n \<notin> used ?f1" "?n \<notin> F" using assms(4) b1(2) by auto
  have "built (S(k := insert (si_streamId info) (S k))) F' f' \<and> rest_same ?f1 f' \<and> fr_store f' = fr_store ?f1 \<and>
      used f' = insert ?n (used ?f1)"
    unfolding f'
  proof (rule built_put [OF b1(1) assms(2)])
    show "?n \<notin> used ?f1" by (rule new(1))
    show "F' \<subseteq> F - {?n}" using assms(3) new(2) by auto
  qed (simp_all add: Item_new_def manager_of_def ref_ok_def)
  moreover have "rest_same f ?f1" by (simp add: rest_same_def collected_def)
  moreover have "m < ?n" if "m \<in> used f" for m using assms(4) that by simp
  ultimately show ?thesis using e b1(2) assms(3,4) rest_same_trans [of f ?f1 f'] by (auto simp: less_Suc_eq)
qed

end
