(* ===== verification/FrameSetup.thy ===== *)
theory FrameSetup
  imports FrameBuild
begin

text \<open>
  From the buffers of a request to a frame that is ready: \<open>update_streambuffers\<close> gives every
  stream of the request one item (\<open>update_streambuffers_built\<close>), \<open>evaluate_buffer_users\<close> sets
  up the users of each, and \<open>finishConfiguration\<close> puts every node with streams in flight.
\<close>

section \<open>The buffers a request brings\<close>

text \<open>The buffers are in the store, are of their streams, and have fresh managers of their own.\<close>

definition brings :: "buffer_store \<Rightarrow> BufferMap \<Rightarrow> StreamId_T set \<Rightarrow> bool" where
  "brings st sbs K \<longleftrightarrow>
     (\<forall>s \<in> K. \<forall>b. buffer_for sbs s = Some b \<longrightarrow> buf_ok st b \<and> buf_sid st b = s) \<and>
     (\<forall>s \<in> K. \<forall>s' \<in> K. \<forall>b b'. buffer_for sbs s = Some b \<longrightarrow> buffer_for sbs s' = Some b' \<longrightarrow> buf_mgr st b = buf_mgr st b' \<longrightarrow> s = s')"

definition given :: "buffer_store \<Rightarrow> BufferMap \<Rightarrow> StreamId_T set \<Rightarrow> nat set" where
  "given st sbs K = {m. \<exists>s \<in> K. \<exists>b. buffer_for sbs s = Some b \<and> m = buf_mgr st b}"

lemma brings_ext:
  assumes e: "st_ext st st'" and b: "brings st sbs K"
  shows "brings st' sbs K" and "given st' sbs K = given st sbs K"
proof -
  have 1: "buf_ok st' b \<and> buf_sid st' b = buf_sid st b \<and> buf_mgr st' b = buf_mgr st b"
    if "s \<in> K" "buffer_for sbs s = Some b" for s b
    using buf_ok_ext [OF e, of b] b that by (simp add: brings_def)
  show "brings st' sbs K" using b 1 unfolding brings_def by metis
  show "given st' sbs K = given st sbs K" unfolding given_def using 1 by metis
qed

lemma brings_mono: "brings st sbs K \<Longrightarrow> K' \<subseteq> K \<Longrightarrow> brings st sbs K'"
  unfolding brings_def by blast

lemma given_less: "brings st sbs K \<Longrightarrow> m \<in> given st sbs K \<Longrightarrow> m < length (st_managers st)"
  by (auto simp: brings_def given_def buf_ok_def)

definition keyed :: "InfoMap \<Rightarrow> bool" where
  "keyed infos \<longleftrightarrow> kv_wf infos \<and> list_all (\<lambda>(s, p). si_streamId p = s) infos"

lemma alloc_meta_post:
  assumes "alloc_meta p st = (b, st')"
  shows "st_ext st st'" and "buf_ok st' b" and "buf_sid st' b = si_streamId p" and "buf_mgr st' b = length (st_managers st)"
    and "length (st_managers st') = Suc (length (st_managers st))"
  using assms by (auto simp: alloc_meta_def Let_def st_ext_def buf_ok_def StreamBufferImp_new_def)

lemma collect_meta_buffers_post:
  assumes "collect_meta_buffers infos sbs st = (bs, st')" and "brings st sbs (fst ` set infos)"
    and "distinct (map fst infos)" and "\<forall>(s, p) \<in> set infos. si_streamId p = s"
  shows "st_ext st st' \<and> map (buf_sid st') bs = map fst infos \<and> (\<forall>b \<in> set bs. buf_ok st' b) \<and>
    distinct (map (buf_mgr st') bs) \<and>
    buf_mgr st' ` set bs \<subseteq> given st sbs (fst ` set infos) \<union> {length (st_managers st)..}"
  using assms
proof (induction infos arbitrary: st bs)
  case (Cons i infos)
  obtain s p where i: "i = (s, p)" by (cases i)
  obtain b st1 where b: "(case buffer_for sbs s of Some b \<Rightarrow> (b, st) | None \<Rightarrow> alloc_meta p st) = (b, st1)" by fastforce
  obtain cs where cs: "collect_meta_buffers infos sbs st1 = (cs, st')" "bs = b # cs"
    using Cons.prems(1) b by (auto simp: i split: prod.splits)
  let ?K = "fst ` set infos"
  have p: "si_streamId p = s" using Cons.prems(4) by (simp add: i)
  have br: "brings st sbs ?K" by (rule brings_mono [OF Cons.prems(2)]) auto
  have "st_ext st st1 \<and> buf_ok st1 b \<and> buf_sid st1 b = s \<and>
    buf_mgr st1 b \<notin> given st sbs ?K \<and> buf_mgr st1 b \<in> given st sbs (insert s ?K) \<union> {length (st_managers st)..} \<and>
    buf_mgr st1 b < length (st_managers st1)"
  proof (cases "buffer_for sbs s")
    case None
    with b have "alloc_meta p st = (b, st1)" by simp
    note a = alloc_meta_post [OF this]
    have "length (st_managers st) \<notin> given st sbs ?K" using given_less [OF br] by blast
    with a p show ?thesis by simp
  next
    case (Some c)
    with b have c: "b = c" "st1 = st" by simp_all
    have ok: "buf_ok st b" "buf_sid st b = s" using Cons.prems(2) Some c by (simp_all add: brings_def i)
    have "s \<notin> ?K" using Cons.prems(3) by (simp add: i)
    have "buf_mgr st b \<notin> given st sbs ?K"
    proof
      assume "buf_mgr st b \<in> given st sbs ?K"
      then obtain s' b' where s': "s' \<in> ?K" "buffer_for sbs s' = Some b'" "buf_mgr st b = buf_mgr st b'"
        by (auto simp: given_def)
      have "s = s'"
        using Cons.prems(2) s' Some c(1) unfolding brings_def i by (metis fst_conv image_insert insert_iff list.simps(15))
      with \<open>s \<notin> ?K\<close> s'(1) show False by simp
    qed
    moreover have "buf_mgr st b \<in> given st sbs (insert s ?K)" using Some c by (auto simp: given_def)
    ultimately show ?thesis using ok c by (simp add: buf_ok_def)
  qed
  then have one: "st_ext st st1" "buf_ok st1 b" "buf_sid st1 b = s"
    "buf_mgr st1 b \<notin> given st sbs ?K" "buf_mgr st1 b \<in> given st sbs (insert s ?K) \<union> {length (st_managers st)..}"
    "buf_mgr st1 b < length (st_managers st1)" by blast+
  note e = brings_ext [OF one(1) br]
  from Cons.IH [OF cs(1) e(1)] Cons.prems(3,4) have
    ih: "st_ext st1 st'" "map (buf_sid st') cs = map fst infos" "\<forall>b \<in> set cs. buf_ok st' b" "distinct (map (buf_mgr st') cs)"
      "buf_mgr st' ` set cs \<subseteq> given st sbs ?K \<union> {length (st_managers st1)..}"
    by (simp_all add: e(2) i)
  note b' = buf_ok_ext [OF ih(1) one(2)]
  have len: "length (st_managers st) \<le> length (st_managers st1)" using one(1) by (auto simp: st_ext_def)
  have "buf_mgr st' b \<notin> buf_mgr st' ` set cs"
  proof
    assume "buf_mgr st' b \<in> buf_mgr st' ` set cs"
    with ih(5) have "buf_mgr st' b \<in> given st sbs ?K \<or> length (st_managers st1) \<le> buf_mgr st' b" by auto
    then show False using one(4,6) b' by simp
  qed
  moreover have "given st sbs ?K \<subseteq> given st sbs (insert s ?K)" by (auto simp: given_def)
  then have "buf_mgr st' ` set cs \<subseteq> given st sbs (insert s ?K) \<union> {length (st_managers st)..}"
    using ih(5) len by fastforce
  ultimately show ?case
    using ih one(3,5) b' st_ext_trans [OF one(1) ih(1)] by (simp add: cs(2) i)
qed simp

section \<open>An item per stream\<close>

definition building :: "(map_kind \<Rightarrow> StreamId_T set) \<Rightarrow> nat set \<Rightarrow> 'io Frame \<Rightarrow> bool" where
  "building S F f \<longleftrightarrow> built S F f \<and> (\<forall>m \<in> F \<union> used f. m < length (st_managers (fr_store f)))"

lemma built_shrink: "built S F f \<Longrightarrow> F' \<subseteq> F \<Longrightarrow> built S F' f"
  unfolding built_def by blast

lemma building_ext:
  assumes "building S F f" and "st_ext (fr_store f) st'"
  shows "building S F (f\<lparr>fr_store := st'\<rparr>)" and "used (f\<lparr>fr_store := st'\<rparr>) = used f"
proof -
  have b: "built S F f" using assms(1) by (simp add: building_def)
  show u: "used (f\<lparr>fr_store := st'\<rparr>) = used f" by (rule built_ext(2) [OF b assms(2)])
  have "length (st_managers (fr_store f)) \<le> length (st_managers st')" using assms(2) by (auto simp: st_ext_def)
  with assms(1) show "building S F (f\<lparr>fr_store := st'\<rparr>)"
    unfolding building_def u using built_ext(1) [OF b assms(2)] by (auto dest!: bspec)
qed

lemma building_add_buffers:
  assumes b: "building S F f" and ok: "\<forall>b \<in> set bs. buf_ok (fr_store f) b"
    and sid: "map (buf_sid (fr_store f)) bs = ss" "distinct ss" "set ss \<inter> S k = {}"
    and mgr: "distinct (map (buf_mgr (fr_store f)) bs)" "buf_mgr (fr_store f) ` set bs \<inter> used f = {}"
    and F': "F' \<subseteq> F - buf_mgr (fr_store f) ` set bs"
  shows "building (S(k := S k \<union> set ss)) F' (add_buffers k (map Some bs) f) \<and> rest_same f (add_buffers k (map Some bs) f) \<and>
    fr_store (add_buffers k (map Some bs) f) = fr_store f"
proof -
  let ?st = "fr_store f"
  have ss: "set ss = buf_sid ?st ` set bs" by (simp add: sid(1) [symmetric])
  have 1: "\<forall>b \<in> set bs. buf_sid ?st b \<notin> S k" using sid(3) ss by auto
  have 2: "\<forall>b \<in> set bs. buf_mgr ?st b \<notin> used f" using mgr(2) by auto
  have d: "distinct (map (buf_sid ?st) bs)" using sid(1,2) by simp
  from b have b0: "built S F f" by (simp add: building_def)
  note r = built_add_buffers [OF b0 ok d 1 mgr(1) 2 F']
  have "m < length (st_managers ?st)" if "m \<in> F' \<union> (used f \<union> buf_mgr ?st ` set bs)" for m
    using that b F' ok by (auto simp: building_def buf_ok_def)
  with r show ?thesis unfolding building_def ss by simp
qed

lemma updateMetaSB_built:
  assumes b: "building S F f" and infos: "keyed infos" "fst ` set infos \<inter> S k = {}"
    and br: "brings (fr_store f) sbs (fst ` set infos)" and F: "given (fr_store f) sbs (fst ` set infos) \<subseteq> F"
    and F': "F' \<subseteq> F - given (fr_store f) sbs (fst ` set infos)"
  shows "\<exists>f'. updateMetaSB k infos sbs f = (OK, f') \<and> building (S(k := S k \<union> fst ` set infos)) F' f' \<and>
    rest_same f f' \<and> st_ext (fr_store f) (fr_store f')"
proof -
  let ?K = "fst ` set infos"
  obtain bs st' where c: "collect_meta_buffers infos sbs (fr_store f) = (bs, st')" by fastforce
  have d: "distinct (map fst infos)" using infos(1) by (auto simp: keyed_def kv_keys_def dest: kv_wf_distinct)
  have p: "\<forall>(s, p) \<in> set infos. si_streamId p = s" using infos(1) by (simp add: keyed_def list_all_iff)
  note post = collect_meta_buffers_post [OF c br d p]
  let ?f = "f\<lparr>fr_store := st'\<rparr>"
  have e: "st_ext (fr_store f) st'" using post by simp
  note b1 = building_ext [OF b e]
  have new: "m \<notin> used f \<and> m \<notin> F'" if "m \<in> buf_mgr st' ` set bs" for m
  proof -
    have "m \<in> given (fr_store f) sbs ?K \<or> length (st_managers (fr_store f)) \<le> m" using post that by auto
    moreover have "x \<notin> used f" "x < length (st_managers (fr_store f))" if "x \<in> F" for x
      using b that unfolding building_def built_def by auto
    moreover have "x < length (st_managers (fr_store f))" if "x \<in> used f" for x
      using b that unfolding building_def by simp
    ultimately show ?thesis using F F' by (meson DiffD1 DiffD2 leD subsetD)
  qed
  have "building (S(k := S k \<union> set (map fst infos))) F' (add_buffers k (map Some bs) ?f) \<and>
      rest_same ?f (add_buffers k (map Some bs) ?f) \<and> fr_store (add_buffers k (map Some bs) ?f) = fr_store ?f"
  proof (rule building_add_buffers [OF b1(1)])
    show "buf_mgr (fr_store ?f) ` set bs \<inter> used ?f = {}" using new b1(2) by auto
    show "F' \<subseteq> F - buf_mgr (fr_store ?f) ` set bs" using new F' by auto
  qed (use post d infos(2) in simp_all)
  moreover have "rest_same f ?f" by (simp add: rest_same_def collected_def)
  ultimately show ?thesis
    using e rest_same_trans by (simp add: updateMetaSB_def c) blast
qed

lemma updateAppImageSB_built:
  assumes b: "building S F f" and wf: "kv_wf infos" "kv_wf sbs" "fst ` set sbs = fst ` set infos"
    and new: "fst ` set infos \<inter> S AppImage = {}" and some: "list_all (\<lambda>(s, b). b \<noteq> None) sbs"
    and br: "brings (fr_store f) sbs (fst ` set infos)" and F: "given (fr_store f) sbs (fst ` set infos) \<subseteq> F"
    and F': "F' \<subseteq> F - given (fr_store f) sbs (fst ` set infos)"
  shows "\<exists>f'. updateAppImageSB infos sbs f = (OK, f') \<and> building (S(AppImage := S AppImage \<union> fst ` set infos)) F' f' \<and>
    rest_same f f' \<and> st_ext (fr_store f) (fr_store f')"
proof -
  let ?st = "fr_store f" and ?K = "fst ` set infos"
  have ds: "distinct (map fst sbs)" "distinct (map fst infos)" using wf by (auto simp: kv_keys_def dest: kv_wf_distinct)
  have len: "length infos = length sbs"
    using distinct_card [OF ds(1)] distinct_card [OF ds(2)] wf(3) by simp
  let ?bs = "map (the \<circ> snd) sbs"
  have bs: "map snd sbs = map Some ?bs" using some by (auto simp: list_all_iff)
  have of: "buffer_for sbs s = Some (the b)" if "(s, b) \<in> set sbs" for s b
  proof -
    have "map_of sbs s = Some b" using that ds(1) by simp
    moreover have "b \<noteq> None" using some that by (auto simp: list_all_iff)
    ultimately show ?thesis by (auto simp: buffer_for_def)
  qed
  have each: "buf_ok ?st (the b) \<and> buf_sid ?st (the b) = s" if "(s, b) \<in> set sbs" for s b
  proof -
    have "s \<in> ?K" using that wf(3) by force
    with br of [OF that] show ?thesis unfolding brings_def by blast
  qed
  have given: "buf_mgr ?st ` set ?bs = given ?st sbs ?K"
  proof (intro equalityI subsetI)
    fix m assume "m \<in> buf_mgr ?st ` set ?bs"
    then obtain s b where "(s, b) \<in> set sbs" "m = buf_mgr ?st (the b)" by auto
    with of wf(3) show "m \<in> given ?st sbs ?K" by (force simp: given_def)
  next
    fix m assume "m \<in> given ?st sbs ?K"
    then obtain s b where "buffer_for sbs s = Some b" "m = buf_mgr ?st b" by (auto simp: given_def)
    moreover from this have "(s, Some b) \<in> set sbs"
      by (auto simp: buffer_for_def split: option.splits dest: map_of_SomeD)
    ultimately show "m \<in> buf_mgr ?st ` set ?bs" by force
  qed
  have sid: "map (buf_sid ?st) ?bs = map fst sbs" using each by force
  have "distinct (map (buf_mgr ?st) ?bs)"
  proof -
    have "inj_on (\<lambda>x. buf_mgr ?st (the (snd x))) (set sbs)"
    proof (rule inj_onI)
      fix x y assume x: "x \<in> set sbs" and y: "y \<in> set sbs" and eq: "buf_mgr ?st (the (snd x)) = buf_mgr ?st (the (snd y))"
      have "buffer_for sbs (fst x) = Some (the (snd x))" "buffer_for sbs (fst y) = Some (the (snd y))"
        using of [of "fst x" "snd x"] of [of "fst y" "snd y"] x y by simp_all
      moreover have "fst x \<in> ?K" "fst y \<in> ?K" using x y wf(3) by auto
      ultimately have "fst x = fst y" using br eq unfolding brings_def by blast
      with x y ds(1) show "x = y" using inj_onD [of fst "set sbs" x y] by (simp add: distinct_map)
    qed
    moreover have "distinct sbs" using ds(1) by (simp add: distinct_map)
    ultimately show ?thesis by (simp add: distinct_map comp_def)
  qed
  note r = building_add_buffers [OF b _ sid ds(1) _ this, of AppImage F']
  have "\<forall>b \<in> set ?bs. buf_ok ?st b" using each by force
  moreover have "set (map fst sbs) \<inter> S AppImage = {}" using new wf(3) by simp
  moreover have "buf_mgr ?st ` set ?bs \<inter> used f = {}"
    unfolding given using F b by (auto simp: building_def built_def)
  moreover have "F' \<subseteq> F - buf_mgr ?st ` set ?bs" unfolding given by (rule F')
  ultimately show ?thesis using r len wf(3) by (simp add: updateAppImageSB_def bs)
qed

lemma brings_Cons:
  assumes "brings st sbs (insert s K)" and "s \<notin> K" and "buffer_for sbs s = Some b"
  shows "buf_mgr st b \<notin> given st sbs K" and "given st sbs (insert s K) = insert (buf_mgr st b) (given st sbs K)"
    and "buf_ok st b" and "buf_sid st b = s"
proof -
  show "buf_mgr st b \<notin> given st sbs K"
  proof
    assume "buf_mgr st b \<in> given st sbs K"
    then obtain s' b' where "s' \<in> K" "buffer_for sbs s' = Some b'" "buf_mgr st b = buf_mgr st b'" by (auto simp: given_def)
    with assms have "s = s'" unfolding brings_def by (metis insertCI)
    with \<open>s' \<in> K\<close> assms(2) show False by simp
  qed
qed (use assms in \<open>auto simp: given_def brings_def\<close>)

definition hal_step :: "BufferMap \<Rightarrow> StreamId_T \<times> IStreamInfo \<Rightarrow> 'io Frame \<Rightarrow> 'io Frame" where
  "hal_step sbs x f =
     (case buffer_for sbs (si_streamId (snd x)) of
        Some b \<Rightarrow> snd (map_add_buffer HalImage (Some b) f)
      | None \<Rightarrow> snd (map_add_info HalImage (snd x) None f))"

lemma hal_step_built:
  assumes b: "building S F f" and s: "si_streamId p = s" "s \<notin> S HalImage" "s \<notin> K"
    and br: "brings (fr_store f) sbs (insert s K)" and F: "given (fr_store f) sbs (insert s K) \<subseteq> F"
  defines "F1 \<equiv> F - (given (fr_store f) sbs (insert s K) - given (fr_store f) sbs K)" and "f1 \<equiv> hal_step sbs (s, p) f"
  shows "building (S(HalImage := insert s (S HalImage))) F1 f1 \<and> rest_same f f1 \<and> st_ext (fr_store f) (fr_store f1)"
proof (cases "buffer_for sbs s")
  case None
  then have "given (fr_store f) sbs (insert s K) = given (fr_store f) sbs K" by (auto simp: given_def)
  then have F1: "F1 = F" by (auto simp: F1_def)
  have f1: "f1 = snd (map_add_info HalImage p None f)" by (simp add: f1_def hal_step_def None s(1))
  show ?thesis
    unfolding F1 f1 building_def
    using built_add_info [of S F f p HalImage F] b s(1,2) by (simp add: building_def)
next
  case (Some c)
  note c = brings_Cons [OF br s(3) Some]
  have F1: "F1 = F - {buf_mgr (fr_store f) c}" using c(1) by (auto simp: F1_def c(2))
  have f1: "f1 = snd (map_add_buffer HalImage (Some c) f)" by (simp add: f1_def hal_step_def Some s(1))
  have "buf_mgr (fr_store f) c \<in> F" using F c(2) by simp
  then have "buf_mgr (fr_store f) c \<notin> used f" using b by (auto simp: building_def built_def)
  with built_add_buffer [of S F f c HalImage F1] b c s(2) F1 have
    r: "built (S(HalImage := insert s (S HalImage))) F1 f1" "rest_same f f1" "fr_store f1 = fr_store f"
      "used f1 = insert (buf_mgr (fr_store f) c) (used f)"
    unfolding building_def f1 by simp_all
  have "m < length (st_managers (fr_store f1))" if "m \<in> F1 \<union> used f1" for m
    using that b c(3) by (auto simp: r(3,4) F1 building_def buf_ok_def)
  with r show ?thesis by (simp add: building_def)
qed

lemma updateHalImageSB_built:
  assumes b: "building S F f" and infos: "keyed infos" "fst ` set infos \<inter> S HalImage = {}"
    and br: "brings (fr_store f) sbs (fst ` set infos)" and F: "given (fr_store f) sbs (fst ` set infos) \<subseteq> F"
  shows "\<exists>f'. updateHalImageSB infos sbs f = (OK, f') \<and> building (S(HalImage := S HalImage \<union> fst ` set infos)) {} f' \<and>
    rest_same f f' \<and> st_ext (fr_store f) (fr_store f')"
proof -
  have d: "distinct (map fst infos)" using infos(1) by (auto simp: keyed_def kv_keys_def dest: kv_wf_distinct)
  have p: "\<forall>x \<in> set infos. si_streamId (snd x) = fst x" using infos(1) by (auto simp: keyed_def list_all_iff)
  have "building (S(HalImage := S HalImage \<union> fst ` set infos)) {} (fold (hal_step sbs) infos f) \<and>
      rest_same f (fold (hal_step sbs) infos f) \<and> st_ext (fr_store f) (fr_store (fold (hal_step sbs) infos f))"
    using b infos(2) br F d p
  proof (induction infos arbitrary: S F f)
    case Nil
    then show ?case using built_shrink [of S F f "{}"] by (simp add: building_def)
  next
    case (Cons x infos)
    obtain s p where x: "x = (s, p)" by (cases x)
    let ?K = "fst ` set infos" and ?S = "S(HalImage := insert s (S HalImage))" and ?f = "hal_step sbs (s, p) f"
    let ?F = "F - (given (fr_store f) sbs (insert s ?K) - given (fr_store f) sbs ?K)"
    have s: "si_streamId p = s" "s \<notin> S HalImage" "s \<notin> ?K" using Cons.prems(2,5,6) by (auto simp: x)
    have br: "brings (fr_store f) sbs (insert s ?K)" and F: "given (fr_store f) sbs (insert s ?K) \<subseteq> F"
      using Cons.prems(3,4) by (simp_all add: x)
    note one = hal_step_built [OF Cons.prems(1) s br F]
    have brK: "brings (fr_store f) sbs ?K" by (rule brings_mono [OF br]) auto
    from one have e: "st_ext (fr_store f) (fr_store ?f)" by simp
    note e = brings_ext [OF e brK]
    let ?g = "fold (hal_step sbs) infos ?f"
    have "building (?S(HalImage := ?S HalImage \<union> ?K)) {} ?g \<and> rest_same ?f ?g \<and> st_ext (fr_store ?f) (fr_store ?g)"
    proof (rule Cons.IH [OF one [THEN conjunct1]])
      show "?K \<inter> ?S HalImage = {}" using Cons.prems(2) s(3) by (auto simp: x)
      have "given (fr_store f) sbs ?K \<subseteq> given (fr_store f) sbs (insert s ?K)" by (auto simp: given_def)
      with F show "given (fr_store ?f) sbs ?K \<subseteq> ?F" unfolding e(2) by auto
    qed (use one e Cons.prems(5,6) in auto)
    moreover have "S HalImage \<union> fst ` set (x # infos) = insert s (S HalImage \<union> ?K)" by (auto simp: x)
    ultimately show ?case
      using one rest_same_trans [of f ?f ?g] st_ext_trans [of "fr_store f" "fr_store ?f" "fr_store ?g"]
      by (simp add: x fun_upd_def cong: if_cong)
  qed
  moreover have "updateHalImageSB infos sbs f = (OK, fold (hal_step sbs) infos f)"
    by (simp add: updateHalImageSB_def hal_step_def [abs_def] case_prod_beta')
  ultimately show ?thesis by simp
qed

text \<open>The streams of a request, and what the request and the store have to fulfil.\<close>

definition infos_of :: "RequestData \<Rightarrow> map_kind \<Rightarrow> InfoMap" where
  "infos_of r k = (case k of AppImage \<Rightarrow> vAppImageStreamInfo r | AppMeta \<Rightarrow> vAppMetaStreamInfo r
     | HalImage \<Rightarrow> vHalImageStreamInfo r | HalMeta \<Rightarrow> vHalMetaStreamInfo r)"

definition sbs_of :: "RequestBuilder \<Rightarrow> map_kind \<Rightarrow> BufferMap" where
  "sbs_of b k = (case k of AppImage \<Rightarrow> mStreamBuffers_Image b | AppMeta \<Rightarrow> mStreamBuffers_Meta b
     | HalImage \<Rightarrow> mStreamBuffers_HalImage b | HalMeta \<Rightarrow> mStreamBuffers_HalMeta b)"

definition streams_of :: "RequestData \<Rightarrow> map_kind \<Rightarrow> StreamId_T set" where
  "streams_of r k = fst ` set (infos_of r k)"

definition req_ok :: "RequestData \<Rightarrow> RequestBuilder \<Rightarrow> buffer_store \<Rightarrow> bool" where
  "req_ok r b st \<longleftrightarrow>
     list_all (\<lambda>k. keyed (infos_of r k) \<and> brings st (sbs_of b k) (streams_of r k)) [AppImage, AppMeta, HalImage, HalMeta] \<and>
     kv_wf (mStreamBuffers_Image b) \<and> fst ` set (mStreamBuffers_Image b) = streams_of r AppImage \<and>
     list_all (\<lambda>(s, b). b \<noteq> None) (mStreamBuffers_Image b) \<and>
     list_all (\<lambda>(k, j). streams_of r k \<inter> streams_of r j = {} \<and>
         given st (sbs_of b k) (streams_of r k) \<inter> given st (sbs_of b j) (streams_of r j) = {})
       [(AppImage, AppMeta), (AppImage, HalImage), (AppImage, HalMeta), (AppMeta, HalImage), (AppMeta, HalMeta), (HalImage, HalMeta)]"

lemma built_new: "built (\<lambda>_. {}) F (Frame_new requestNo frameNo a h st)" "used (Frame_new requestNo frameNo a h st) = {}"
  by (simp_all add: built_def Frame_new_def used_def kv_wf_def)

lemma update_streambuffers_built:
  assumes r: "req_ok r b st" and f0_def: "f0 = Frame_new requestNo frameNo a h st"
  shows "\<exists>f. update_streambuffers r b f0 = (OK, f) \<and> built (streams_of r) {} f \<and> rest_same f0 f"
proof -
  let ?G = "\<lambda>k. given st (sbs_of b k) (streams_of r k)" and ?K = "streams_of r"
  note d = infos_of_def sbs_of_def streams_of_def
  have br: "brings st (sbs_of b k) (?K k)" and keyed: "keyed (infos_of r k)" for k
    using r by (cases k; simp add: req_ok_def)+
  have dis: "?K k \<inter> ?K j = {}" "?G k \<inter> ?G j = {}" if "k \<noteq> j" for k j
    using r that by (cases k; cases j; auto simp: req_ok_def)+
  have st0: "fr_store f0 = st" by (simp add: f0_def Frame_new_def)
  let ?F = "?G AppMeta \<union> ?G HalMeta \<union> ?G AppImage \<union> ?G HalImage"
  have less: "m < length (st_managers st)" if "m \<in> ?G k" for m k by (rule given_less [OF br that])
  have 0: "building (\<lambda>_. {}) ?F f0"
    unfolding building_def st0 using less by (auto simp: f0_def built_new)
  let ?F1 = "?G HalMeta \<union> ?G AppImage \<union> ?G HalImage"
  have "\<exists>f1. updateMetaSB AppMeta (infos_of r AppMeta) (sbs_of b AppMeta) f0 = (OK, f1) \<and>
      building ((\<lambda>_. {})(AppMeta := {} \<union> fst ` set (infos_of r AppMeta))) ?F1 f1 \<and> rest_same f0 f1 \<and> st_ext (fr_store f0) (fr_store f1)"
    by (rule updateMetaSB_built [OF 0 keyed])
      (use br [of AppMeta] dis [of AppMeta HalMeta] dis [of AppMeta AppImage] dis [of AppMeta HalImage] in
        \<open>auto simp: st0 streams_of_def [symmetric]\<close>)
  then obtain f1 where f1: "updateMetaSB AppMeta (infos_of r AppMeta) (sbs_of b AppMeta) f0 = (OK, f1)"
    and b1: "building ((\<lambda>_. {})(AppMeta := ?K AppMeta)) ?F1 f1" and s1: "rest_same f0 f1" and e1: "st_ext st (fr_store f1)"
    by (auto simp: streams_of_def [symmetric] st0)
  note x1 = brings_ext [OF e1 br]
  let ?F2 = "?G AppImage \<union> ?G HalImage"
  let ?S1 = "(\<lambda>_. {})(AppMeta := ?K AppMeta)"
  have "\<exists>f2. updateMetaSB HalMeta (infos_of r HalMeta) (sbs_of b HalMeta) f1 = (OK, f2) \<and>
      building (?S1(HalMeta := ?S1 HalMeta \<union> fst ` set (infos_of r HalMeta))) ?F2 f2 \<and> rest_same f1 f2 \<and> st_ext (fr_store f1) (fr_store f2)"
    by (rule updateMetaSB_built [OF b1 keyed])
      (use x1 [of HalMeta] dis [of HalMeta AppImage] dis [of HalMeta HalImage] in \<open>auto simp: streams_of_def [symmetric]\<close>)
  then obtain f2 where f2: "updateMetaSB HalMeta (infos_of r HalMeta) (sbs_of b HalMeta) f1 = (OK, f2)"
    and b2: "building (?S1(HalMeta := ?K HalMeta)) ?F2 f2" and s2: "rest_same f1 f2" and e2: "st_ext st (fr_store f2)"
    using st_ext_trans [OF e1] by (auto simp: streams_of_def [symmetric])
  note x2 = brings_ext [OF e2 br]
  let ?S2 = "?S1(HalMeta := ?K HalMeta)"
  have "\<exists>f3. updateAppImageSB (infos_of r AppImage) (sbs_of b AppImage) f2 = (OK, f3) \<and>
      building (?S2(AppImage := ?S2 AppImage \<union> fst ` set (infos_of r AppImage))) (?G HalImage) f3 \<and> rest_same f2 f3 \<and>
      st_ext (fr_store f2) (fr_store f3)"
    by (rule updateAppImageSB_built [OF b2])
      (use x2 [of AppImage] dis [of AppImage HalImage] r keyed [of AppImage] in
        \<open>auto simp: streams_of_def [symmetric] req_ok_def keyed_def sbs_of_def\<close>)
  then obtain f3 where f3: "updateAppImageSB (infos_of r AppImage) (sbs_of b AppImage) f2 = (OK, f3)"
    and b3: "building (?S2(AppImage := ?K AppImage)) (?G HalImage) f3" and s3: "rest_same f2 f3" and e3: "st_ext st (fr_store f3)"
    using st_ext_trans [OF e2] by (auto simp: streams_of_def [symmetric])
  note x3 = brings_ext [OF e3 br]
  let ?S3 = "?S2(AppImage := ?K AppImage)"
  have "\<exists>f4. updateHalImageSB (infos_of r HalImage) (sbs_of b HalImage) f3 = (OK, f4) \<and>
      building (?S3(HalImage := ?S3 HalImage \<union> fst ` set (infos_of r HalImage))) {} f4 \<and> rest_same f3 f4 \<and>
      st_ext (fr_store f3) (fr_store f4)"
    by (rule updateHalImageSB_built [OF b3 keyed]) (use x3 [of HalImage] in \<open>auto simp: streams_of_def [symmetric]\<close>)
  then obtain f4 where f4: "updateHalImageSB (infos_of r HalImage) (sbs_of b HalImage) f3 = (OK, f4)"
    and b4: "building (?S3(HalImage := ?K HalImage)) {} f4" and s4: "rest_same f3 f4"
    by (auto simp: streams_of_def [symmetric])
  have "?S3(HalImage := ?K HalImage) = ?K"
  proof
    fix k show "(?S3(HalImage := ?K HalImage)) k = ?K k" by (cases k) simp_all
  qed
  with b4 have "built ?K {} f4" by (simp add: building_def)
  moreover have "update_streambuffers r b f0 = (OK, f4)"
    using f1 f2 f3 f4 by (simp add: update_streambuffers_def infos_of_def sbs_of_def)
  ultimately show ?thesis
    using s1 s2 s3 s4 rest_same_trans [OF s1 rest_same_trans [OF s2 rest_same_trans [OF s3 s4]]] by blast
qed

end
