(* ===== verification/FrameReady.thy ===== *)
theory FrameReady
  imports FrameSetup
begin

text \<open>
  The second half of the construction of a frame: every item's manager gets its users, every
  node with streams its status; the frame then has the invariant of \<open>FrameProps\<close>, so that its
  nodes can finish in any order.
\<close>

section \<open>Users of the items\<close>

lemma make_users_all:
  "\<forall>t \<in> set ts. mk (obj_id t) \<noteq> None \<Longrightarrow> make_users mk ts = Some (map (the \<circ> mk \<circ> obj_id) ts)"
  by (induction ts) auto

lemma item_um_store:
  "item_um (f\<lparr>fr_store := st\<rparr>) i = um_of st (it_mUsersManager (fr_items f ! i))"
  by (simp add: item_um_def)

text \<open>The users of the items \<open>is\<close> are set; the other managers do not change.\<close>

lemma doIt_effect:
  assumes "frame_wf f" and "distinct is" and "set is \<subseteq> {..<n_items f}"
    and "\<forall>i \<in> set is. um_fresh (item_um f i) \<and> make_users (mk (it_mStreamInfo (fr_items f ! i))) ts = Some (us i) \<and>
      us i \<noteq> [] \<and> distinct (map usr_mUserId (us i)) \<and> length (us i) \<le> 32"
  shows "\<exists>st. doIt mk ts es (map Some is) f = Some (f\<lparr>fr_store := st\<rparr>) \<and> same_frame f (f\<lparr>fr_store := st\<rparr>) \<and>
    (\<forall>i \<in> set is. users_set (item_um (f\<lparr>fr_store := st\<rparr>) i) (us i) (set es)) \<and>
    (\<forall>i < n_items f. i \<notin> set is \<longrightarrow> item_um (f\<lparr>fr_store := st\<rparr>) i = item_um f i)"
  using assms
proof (induction "is" arbitrary: f)
  case Nil
  have "f\<lparr>fr_store := fr_store f\<rparr> = f" by simp
  then show ?case by (intro exI [of _ "fr_store f"]) simp
next
  case (Cons i "is")
  have i: "i < n_items f" "i \<notin> set is" "set is \<subseteq> {..<n_items f}" using Cons.prems(2,3) by auto
  have m: "make_users (mk (it_mStreamInfo (fr_items f ! i))) ts = Some (us i)" using Cons.prems(4) by simp
  from set_users_done [of "item_um f i" "us i" es] Cons.prems(4) obtain um where
    um: "set_users (us i) es (item_um f i) = Some um" "users_set um (us i) (set es)" by auto
  let ?r = "it_mUsersManager (fr_items f ! i)" and ?st = "fr_store f"
  let ?st1 = "?st\<lparr>st_managers := (st_managers ?st)[manager_of ?st ?r := um]\<rparr>"
  let ?f = "f\<lparr>fr_store := ?st1\<rparr>"
  have mgr: "manager_of ?st1 q = manager_of ?st q" for q by (cases q) (simp_all add: manager_of_def)
  have same: "same_frame f ?f" by (simp add: same_frame_def mgr)
  have r: "manager_of ?st ?r = item_mgr f i" by (simp add: item_mgr_def item_ref_def)
  have len: "item_mgr f i < length (st_managers ?st)" using Cons.prems(1) i(1) by (simp add: frame_wf_def)
  have ui: "item_um ?f i = um" unfolding item_um_mgr same_frame_item(5) [OF same i(1)] using len by (simp add: r)
  have uj: "item_um ?f j = item_um f j" if "j < n_items f" "j \<noteq> i" for j
  proof -
    have "item_mgr f j \<noteq> item_mgr f i" using Cons.prems(1) i(1) that unfolding frame_wf_def by metis
    then show ?thesis unfolding item_um_mgr same_frame_item(5) [OF same that(1)] by (simp add: r)
  qed
  have "\<exists>st. doIt mk ts es (map Some is) ?f = Some (?f\<lparr>fr_store := st\<rparr>) \<and> same_frame ?f (?f\<lparr>fr_store := st\<rparr>) \<and>
    (\<forall>i \<in> set is. users_set (item_um (?f\<lparr>fr_store := st\<rparr>) i) (us i) (set es)) \<and>
    (\<forall>i < n_items ?f. i \<notin> set is \<longrightarrow> item_um (?f\<lparr>fr_store := st\<rparr>) i = item_um ?f i)"
  proof (rule Cons.IH)
    show "frame_wf ?f" by (rule frame_wf_same [OF same Cons.prems(1)])
    show "\<forall>j \<in> set is. um_fresh (item_um ?f j) \<and> make_users (mk (it_mStreamInfo (fr_items ?f ! j))) ts = Some (us j) \<and>
      us j \<noteq> [] \<and> distinct (map usr_mUserId (us j)) \<and> length (us j) \<le> 32"
    proof
      fix j assume j: "j \<in> set is"
      then have "j < n_items f" "j \<noteq> i" using i by auto
      with j Cons.prems(4) uj show "um_fresh (item_um ?f j) \<and> make_users (mk (it_mStreamInfo (fr_items ?f ! j))) ts = Some (us j) \<and>
        us j \<noteq> [] \<and> distinct (map usr_mUserId (us j)) \<and> length (us j) \<le> 32" by simp
    qed
  qed (use Cons.prems(2) i in auto)
  then obtain st where st: "doIt mk ts es (map Some is) ?f = Some (f\<lparr>fr_store := st\<rparr>)" "same_frame ?f (f\<lparr>fr_store := st\<rparr>)"
    "\<forall>i \<in> set is. users_set (item_um (f\<lparr>fr_store := st\<rparr>) i) (us i) (set es)"
    "\<forall>i < n_items f. i \<notin> set is \<longrightarrow> item_um (f\<lparr>fr_store := st\<rparr>) i = item_um ?f i" by auto
  have "item_um (f\<lparr>fr_store := st\<rparr>) i = um" using st(4) i ui by simp
  moreover have "item_um (f\<lparr>fr_store := st\<rparr>) j = item_um f j" if "j < n_items f" "j \<notin> set (i # is)" for j
    using st(4) that uj by simp
  ultimately show ?case
    using st(1-3) um same_frame_trans [OF same st(2)] m by (intro exI [of _ st]) (simp add: Let_def)
qed

section \<open>The users of a frame\<close>

abbreviation is_image :: "map_kind \<Rightarrow> bool" where
  "is_image k \<equiv> k = AppImage \<or> k = HalImage"

definition make_user :: "NodeConfig \<Rightarrow> 'nio FrameNodeMap \<Rightarrow> map_kind \<Rightarrow> IStreamInfo \<Rightarrow> NodeId_T \<Rightarrow> User option" where
  "make_user nc m k = (if is_image k then makeImageUser nc m else makeMetaUser m)"

definition users_for :: "NodeConfig \<Rightarrow> 'nio FrameNodeMap \<Rightarrow> NodeObj list \<Rightarrow> 'io Frame \<Rightarrow> nat \<Rightarrow> User list" where
  "users_for nc m ts f i = map (the \<circ> make_user nc m (item_kind f i) (it_mStreamInfo (fr_items f ! i)) \<circ> obj_id) ts"

text \<open>The streams of a node of one kind.\<close>

definition node_streams :: "'nio NodeInfo \<Rightarrow> bool \<Rightarrow> IStreamInfo list" where
  "node_streams x img =
     (let f = (\<lambda>p. case p of None \<Rightarrow> [] | Some s \<Rightarrow> if img then si_imageInfos s else si_metaInfos s)
      in f (mIStreams x) @ f (mOStreams x))"

definition streams_set :: "'nio NodeInfo \<Rightarrow> bool" where
  "streams_set x \<longleftrightarrow> mIStreams x \<noteq> None \<and> mOStreams x \<noteq> None"

lemma refineUser_facts:
  "usr_mUserId (refineUser u s outs ins) = usr_mUserId u"
  "usr_mCategory (refineUser u s outs ins) \<in> {PRODUCER, CONSUMER, NONE}"
  "s \<in> si_streamId ` set (outs @ ins) \<Longrightarrow> takes_part (refineUser u s outs ins)"
  by (auto simp: refineUser_def takes_part_def)

lemma make_user_done:
  assumes "getNodeFor n m = Some x" and "streams_set x"
  shows "\<exists>u. make_user nc m k info n = Some u \<and> usr_mUserId u = n \<and>
    (si_streamId info \<in> si_streamId ` set (node_streams x (is_image k)) \<longrightarrow> takes_part u)"
proof -
  obtain ins outs where s: "mIStreams x = Some ins" "mOStreams x = Some outs" using assms(2) by (auto simp: streams_set_def)
  let ?s = "si_streamId info" and ?u = "User_new\<lparr>usr_mUserId := n\<rparr>"
  show ?thesis
  proof (cases "is_image k")
    case True
    let ?r = "refineUser ?u ?s (si_imageInfos outs) (si_imageInfos ins)"
    let ?q = "if usr_mCategory ?r \<noteq> NONE then ?r\<lparr>usr_mUsage := queryMinimalUsage nc n ?s\<rparr> else ?r"
    have "make_user nc m k info n = Some ?q" using True assms(1) s by (simp add: make_user_def makeImageUser_def Let_def)
    moreover have "usr_mUserId ?q = n" by (simp add: refineUser_facts(1))
    moreover have "takes_part ?q \<longleftrightarrow> takes_part ?r" by (simp add: takes_part_def)
    moreover have "node_streams x (is_image k) = si_imageInfos ins @ si_imageInfos outs" using True by (simp add: node_streams_def s)
    ultimately show ?thesis using refineUser_facts(3) [of ?s "si_imageInfos outs" "si_imageInfos ins" ?u] by (auto simp: image_Un)
  next
    case False
    let ?r = "refineUser ?u ?s (si_metaInfos outs) (si_metaInfos ins)"
    have "make_user nc m k info n = Some ?r" using False assms(1) s by (simp add: make_user_def makeMetaUser_def)
    moreover have "usr_mUserId ?r = n" by (simp add: refineUser_facts(1))
    moreover have "node_streams x (is_image k) = si_metaInfos ins @ si_metaInfos outs" using False by (simp add: node_streams_def s)
    ultimately show ?thesis using refineUser_facts(3) [of ?s "si_metaInfos outs" "si_metaInfos ins" ?u] by (auto simp: image_Un)
  qed
qed

lemma doIt_map:
  assumes wf: "frame_wf f" and e: "map snd (im_mMap (fr_maps f k)) = map Some is"
    and ids: "distinct is" "set is = {i. i < n_items f \<and> item_kind f i = k}"
    and fresh: "\<forall>i \<in> set is. um_fresh (item_um f i)"
    and ts: "ts \<noteq> []" "length ts \<le> 32" "distinct (map obj_id ts)"
      "\<forall>t \<in> set ts. \<exists>x. getNodeFor (obj_id t) m = Some x \<and> streams_set x"
  shows "\<exists>st. doIt (make_user nc m k) ts es (map snd (im_mMap (fr_maps f k))) f = Some (f\<lparr>fr_store := st\<rparr>) \<and>
    same_frame f (f\<lparr>fr_store := st\<rparr>) \<and>
    (\<forall>i \<in> set is. users_set (item_um (f\<lparr>fr_store := st\<rparr>) i) (users_for nc m ts f i) (set es)) \<and>
    (\<forall>i < n_items f. i \<notin> set is \<longrightarrow> item_um (f\<lparr>fr_store := st\<rparr>) i = item_um f i)"
  unfolding e
proof (rule doIt_effect [OF wf ids(1)])
  show "set is \<subseteq> {..<n_items f}" using ids(2) by auto
  show "\<forall>i \<in> set is. um_fresh (item_um f i) \<and>
      make_users (make_user nc m k (it_mStreamInfo (fr_items f ! i))) ts = Some (users_for nc m ts f i) \<and>
      users_for nc m ts f i \<noteq> [] \<and> distinct (map usr_mUserId (users_for nc m ts f i)) \<and> length (users_for nc m ts f i) \<le> 32"
  proof
    fix i assume i: "i \<in> set is"
    let ?mk = "make_user nc m k (it_mStreamInfo (fr_items f ! i))"
    have k: "item_kind f i = k" using i ids(2) by simp
    have u: "\<exists>u. ?mk (obj_id t) = Some u \<and> usr_mUserId u = obj_id t" if t: "t \<in> set ts" for t
    proof -
      obtain x where "getNodeFor (obj_id t) m = Some x" "streams_set x" using bspec [OF ts(4) t] by (elim exE conjE)
      from make_user_done [OF this, of nc k "it_mStreamInfo (fr_items f ! i)"] show ?thesis by (elim exE conjE) simp
    qed
    then have "\<forall>t \<in> set ts. ?mk (obj_id t) \<noteq> None" by (auto dest!: u)
    from make_users_all [OF this] have 1: "make_users ?mk ts = Some (users_for nc m ts f i)"
      by (simp add: users_for_def k comp_assoc)
    have "map usr_mUserId (users_for nc m ts f i) = map obj_id ts" using u by (force simp: users_for_def k)
    then have "distinct (map usr_mUserId (users_for nc m ts f i))" using ts(3) by simp
    moreover have "length (users_for nc m ts f i) = length ts" by (simp add: users_for_def)
    moreover have "users_for nc m ts f i \<noteq> []" using ts(1) by (simp add: users_for_def)
    ultimately show "um_fresh (item_um f i) \<and> make_users ?mk ts = Some (users_for nc m ts f i) \<and>
      users_for nc m ts f i \<noteq> [] \<and> distinct (map usr_mUserId (users_for nc m ts f i)) \<and> length (users_for nc m ts f i) \<le> 32"
      using 1 i fresh ts(2) by simp
  qed
qed

lemma built_entries:
  assumes b: "built S F f"
  shows "\<exists>is. map snd (im_mMap (fr_maps f k)) = map Some is \<and> distinct is \<and> set is = {i. i < n_items f \<and> item_kind f i = k}"
proof -
  let ?m = "im_mMap (fr_maps f k)"
  note B = b [unfolded built_def]
  have "kv_wf ?m" using B by blast
  from kv_wf_distinct [OF this] have d: "distinct (map fst ?m)" by (simp add: kv_keys_def)
  have e: "\<exists>i < n_items f. snd x = Some i \<and> item_kind f i = k \<and> item_sid f i = fst x" if "x \<in> set ?m" for x
  proof -
    have "map_of ?m (fst x) = Some (snd x)" using that d by (simp add: map_of_is_SomeI)
    then show ?thesis using B by blast
  qed
  let ?is = "map (the \<circ> snd) ?m"
  have sid: "snd x = Some (the (snd x)) \<and> the (snd x) < n_items f \<and> item_kind f (the (snd x)) = k \<and> item_sid f (the (snd x)) = fst x"
    if "x \<in> set ?m" for x using e [OF that] by auto
  have 1: "map snd ?m = map Some ?is" using sid by (simp add: comp_def)
  have "inj_on (the \<circ> snd) (set ?m)"
  proof (rule inj_onI)
    fix x y assume x: "x \<in> set ?m" and y: "y \<in> set ?m" and eq: "(the \<circ> snd) x = (the \<circ> snd) y"
    have "fst x = fst y" using sid [OF x] sid [OF y] eq by simp
    with x y d show "x = y" using inj_onD [of fst "set ?m" x y] by (simp add: distinct_map)
  qed
  then have 2: "distinct ?is" using d by (simp add: distinct_map)
  have "i \<in> set ?is" if "i < n_items f" "item_kind f i = k" for i
  proof -
    have "entry f i = Some (Some i)" using B that(1) by blast
    then have "(item_sid f i, Some i) \<in> set ?m" using that(2) by (auto simp: entry_def dest: map_of_SomeD)
    then show ?thesis by force
  qed
  then have "set ?is = {i. i < n_items f \<and> item_kind f i = k}" using sid by auto
  with 1 2 show ?thesis by blast
qed

text \<open>The items of the kinds \<open>D\<close> have their users; nothing else has changed.\<close>

definition users_done ::
    "NodeConfig \<Rightarrow> 'nio FrameNodeMap \<Rightarrow> NodeObj list \<Rightarrow> (int \<times> int) list \<Rightarrow> map_kind set \<Rightarrow> 'io Frame \<Rightarrow> 'io Frame \<Rightarrow> bool" where
  "users_done nc m ts es D f g \<longleftrightarrow> g = f\<lparr>fr_store := fr_store g\<rparr> \<and> same_frame f g \<and>
     (\<forall>i < n_items f. if item_kind f i \<in> D then users_set (item_um g i) (users_for nc m ts f i) (set es)
        else item_um g i = item_um f i)"

lemma users_done_step:
  assumes q: "users_done nc m ts es D f g" and k: "k \<notin> D" and b: "built S F f" and wf: "frame_wf f"
    and ts: "ts \<noteq> []" "length ts \<le> 32" "distinct (map obj_id ts)"
      "\<forall>t \<in> set ts. \<exists>x. getNodeFor (obj_id t) m = Some x \<and> streams_set x"
  shows "\<exists>h. doIt (make_user nc m k) ts es (map snd (im_mMap (fr_maps g k))) g = Some h \<and>
    users_done nc m ts es (insert k D) f h"
proof -
  have g: "g = f\<lparr>fr_store := fr_store g\<rparr>" and same: "same_frame f g" using q by (simp_all add: users_done_def)
  have its: "fr_items g = fr_items f" "fr_maps g = fr_maps f" by (subst g, simp)+
  from built_entries [OF b, of k] obtain "is" where
    e: "map snd (im_mMap (fr_maps f k)) = map Some is" "distinct is" "set is = {i. i < n_items f \<and> item_kind f i = k}"
    by (elim exE conjE)
  have kind: "item_kind g i = item_kind f i" for i by (simp add: item_kind_def its)
  have uf: "users_for nc m ts g i = users_for nc m ts f i" for i by (simp add: users_for_def kind its)
  have "um_fresh (item_um g i)" if "i \<in> set is" for i
  proof -
    have "i < n_items f" "item_kind f i \<notin> D" using that e(3) k by auto
    then have "item_um g i = item_um f i" using q by (simp add: users_done_def)
    then show ?thesis using b \<open>i < n_items f\<close> by (simp add: built_def)
  qed
  then have fresh: "\<forall>i \<in> set is. um_fresh (item_um g i)" by blast
  have e': "map snd (im_mMap (fr_maps g k)) = map Some is" "set is = {i. i < n_items g \<and> item_kind g i = k}"
    using e by (simp_all add: its kind)
  from doIt_map [OF frame_wf_same [OF same wf] e'(1) e(2) e'(2) fresh ts, of nc es] obtain st where
    st: "doIt (make_user nc m k) ts es (map snd (im_mMap (fr_maps g k))) g = Some (g\<lparr>fr_store := st\<rparr>)"
      "same_frame g (g\<lparr>fr_store := st\<rparr>)"
      "\<forall>i \<in> set is. users_set (item_um (g\<lparr>fr_store := st\<rparr>) i) (users_for nc m ts f i) (set es)"
      "\<forall>i < n_items f. i \<notin> set is \<longrightarrow> item_um (g\<lparr>fr_store := st\<rparr>) i = item_um g i"
    unfolding uf its(1) by (elim exE conjE)
  let ?h = "g\<lparr>fr_store := st\<rparr>"
  have "?h = f\<lparr>fr_store := fr_store ?h\<rparr>" by (subst g) simp
  moreover have "same_frame f ?h" by (rule same_frame_trans [OF same st(2)])
  moreover have "if item_kind f i \<in> insert k D then users_set (item_um ?h i) (users_for nc m ts f i) (set es)
      else item_um ?h i = item_um f i" if i: "i < n_items f" for i
  proof (cases "item_kind f i = k")
    case True
    with e(3) i have "i \<in> set is" by simp
    with st(3) True show ?thesis by simp
  next
    case False
    with e(3) i have "i \<notin> set is" by simp
    with st(4) i have "item_um ?h i = item_um g i" by simp
    with q i False show ?thesis by (simp add: users_done_def)
  qed
  ultimately have "users_done nc m ts es (insert k D) f ?h" unfolding users_done_def by blast
  with st(1) show ?thesis by blast
qed

lemma evaluate_buffer_users_done:
  assumes b: "built S F f" and wf: "frame_wf f" and d: "getToposort d = Some (ts, d')"
    and ts: "ts \<noteq> []" "length ts \<le> 32" "distinct (map obj_id ts)"
      "\<forall>t \<in> set ts. \<exists>x. getNodeFor (obj_id t) m = Some x \<and> streams_set x"
  shows "\<exists>g. evaluate_buffer_users nc d m f = Some (OK, d', g) \<and> users_done nc m ts (getEdges d) UNIV f g"
proof -
  let ?es = "getEdges d" and ?q = "users_done nc m ts (getEdges d)"
  have "?q {} f f" by (simp add: users_done_def)
  from users_done_step [OF this _ b wf ts, of AppImage] obtain f1 where
    1: "doIt (make_user nc m AppImage) ts ?es (map snd (im_mMap (fr_maps f AppImage))) f = Some f1" "?q {AppImage} f f1" by auto
  from users_done_step [OF 1(2) _ b wf ts, of HalImage] obtain f2 where
    2: "doIt (make_user nc m HalImage) ts ?es (map snd (im_mMap (fr_maps f1 HalImage))) f1 = Some f2" "?q {HalImage, AppImage} f f2" by auto
  from users_done_step [OF 2(2) _ b wf ts, of AppMeta] obtain f3 where
    3: "doIt (make_user nc m AppMeta) ts ?es (map snd (im_mMap (fr_maps f2 AppMeta))) f2 = Some f3" "?q {AppMeta, HalImage, AppImage} f f3" by auto
  from users_done_step [OF 3(2) _ b wf ts, of HalMeta] obtain f4 where
    4: "doIt (make_user nc m HalMeta) ts ?es (map snd (im_mMap (fr_maps f3 HalMeta))) f3 = Some f4"
      "?q {HalMeta, AppMeta, HalImage, AppImage} f f4" by auto
  have "{HalMeta, AppMeta, HalImage, AppImage} = (UNIV :: map_kind set)" using map_kind.exhaust by auto
  moreover have "evaluate_buffer_users nc d m f = Some (OK, d', f4)"
    using 1(1) 2(1) 3(1) 4(1) by (simp add: evaluate_buffer_users_def d Let_def make_user_def)
  ultimately show ?thesis using 4(2) by auto
qed

section \<open>The end of the configuration\<close>

lemma built_wf:
  assumes b: "built S F f" and dis: "\<And>k j. k \<noteq> j \<Longrightarrow> S k \<inter> S j = {}"
  shows "frame_wf f"
proof -
  note B = b [unfolded built_def]
  have mgr: "item_mgr f i < length (st_managers (fr_store f))" if "i < n_items f" for i
    using B that by (auto simp: ref_ok_def item_mgr_def)
  have inj: "i = j" if "i < n_items f" "j < n_items f" "item_mgr f i = item_mgr f j" for i j
    using B that by (auto simp: inj_on_def)
  have ent: "entry f i = Some (Some i)" if "i < n_items f" for i using B that by blast
  have same: "i = j" if "i < n_items f" "j < n_items f" "item_sid f i = item_sid f j" "item_kind f i = item_kind f j" for i j
    using ent [OF that(1)] ent [OF that(2)] that(3,4) by (simp add: entry_def)
  have buf: "manager_of (fr_store f) (BufferUsers c) = item_mgr f i" if "i < n_items f" "item_buf f i = Some c" for i c
    using B that by blast
  have find: "find_kind [AppImage, AppMeta, HalImage, HalMeta] (item_sid f i) f = Some (item_kind f i)" if i: "i < n_items f" for i
  proof -
    have in_S: "map_of (im_mMap (fr_maps f k)) (item_sid f i) \<noteq> None \<longleftrightarrow> item_sid f i \<in> S k" for k
      using B kv_get_None [of "im_mMap (fr_maps f k)" "item_sid f i"] by simp
    have "item_sid f i \<in> S (item_kind f i)" using ent [OF i] in_S [of "item_kind f i"] by (simp add: entry_def)
    then have "item_sid f i \<in> S k \<longleftrightarrow> k = item_kind f i" for k using dis by blast
    then show ?thesis using in_S by (cases "item_kind f i") simp_all
  qed
  show ?thesis unfolding frame_wf_def using mgr inj same buf find by blast
qed

lemma built_item:
  assumes "built S F f" and "s \<in> S k"
  shows "\<exists>i < n_items f. getMapItemLocked s k f = Some i \<and> item_kind f i = k \<and> item_sid f i = s"
proof -
  note B = assms(1) [unfolded built_def]
  have "s \<in> set (kv_keys (im_mMap (fr_maps f k)))" using B assms(2) by simp
  then obtain e where e: "map_of (im_mMap (fr_maps f k)) s = Some e" using kv_keys_get by fastforce
  with B obtain i where "i < n_items f" "e = Some i" "item_kind f i = k" "item_sid f i = s" by blast
  with e show ?thesis by (intro exI [of _ i]) (simp add: getMapItemLocked_def)
qed

lemma built_found: "built S F f \<Longrightarrow> getMapItemLocked s k f = Some i \<Longrightarrow> i < n_items f \<and> item_kind f i = k \<and> item_sid f i = s"
proof -
  assume b: "built S F f" and "getMapItemLocked s k f = Some i"
  then have "map_of (im_mMap (fr_maps f k)) s = Some (Some i)"
    by (simp add: getMapItemLocked_def split: option.splits)
  moreover have "map_of (im_mMap (fr_maps f k)) s = Some e \<longrightarrow> (\<exists>i < n_items f. e = Some i \<and> item_kind f i = k \<and> item_sid f i = s)" for e
    using b unfolding built_def by blast
  ultimately show ?thesis by auto
qed

lemma find_items_all:
  assumes "\<forall>s \<in> set ss. \<exists>i. item (si_streamId s) = Some i \<and> P s i"
  shows "\<exists>is. find_items item ss = Some is \<and> length is = length ss \<and> (\<forall>i \<in> set is. \<exists>s \<in> set ss. P s i)"
  using assms
proof (induction ss)
  case (Cons s ss)
  then obtain i where "item (si_streamId s) = Some i" "P s i" by auto
  moreover from Cons obtain "is" where "find_items item ss = Some is" "length is = length ss" "\<forall>i \<in> set is. \<exists>s \<in> set ss. P s i" by auto
  ultimately show ?case by auto
qed simp

text \<open>An item is one of a node's streams, of one kind or the other.\<close>

definition item_for :: "'io Frame \<Rightarrow> 'nio NodeInfo \<Rightarrow> nat \<Rightarrow> bool" where
  "item_for f x i \<longleftrightarrow> i < n_items f \<and> item_sid f i \<in> si_streamId ` set (node_streams x (is_image (item_kind f i)))"

definition streams_known :: "(map_kind \<Rightarrow> StreamId_T set) \<Rightarrow> 'nio NodeInfo \<Rightarrow> bool" where
  "streams_known S x \<longleftrightarrow> streams_set x \<and>
     list_all (\<lambda>s. si_streamId s \<in> S AppImage \<union> S HalImage) (node_streams x True) \<and>
     list_all (\<lambda>s. si_streamId s \<in> S AppMeta \<union> S HalMeta) (node_streams x False)"

definition has_streams :: "'nio NodeInfo \<Rightarrow> bool" where
  "has_streams x \<longleftrightarrow> node_streams x True \<noteq> [] \<or> node_streams x False \<noteq> []"

lemma make_NodeStatus_done:
  assumes b: "built S F f" and x: "streams_known S x"
  shows "\<exists>s. make_NodeStatus x f = Some s \<and> fresh s \<and> (node_empty s \<longleftrightarrow> \<not> has_streams x) \<and>
    (\<forall>i \<in> set (node_items s). item_for f x i)"
proof -
  obtain ins outs where s: "mIStreams x = Some ins" "mOStreams x = Some outs"
    using x by (auto simp: streams_known_def streams_set_def)
  let ?ok = "\<lambda>img t i. i < n_items f \<and> item_sid f i = t \<and> is_image (item_kind f i) = img"
  have lookup: "\<exists>i. (case getMapItemLocked t k f of Some i \<Rightarrow> Some i | None \<Rightarrow> getMapItemLocked t j f) = Some i \<and>
      ?ok (is_image k) t i" if "t \<in> S j \<union> S k" "is_image k = is_image j" for t k j
    using that built_item [OF b, of t k] built_item [OF b, of t j] built_found [OF b, of t k]
    by (cases "getMapItemLocked t k f") auto
  have img: "\<exists>i. getImageMapItemLocked (si_streamId q) f = Some i \<and> ?ok True (si_streamId q) i" if "q \<in> set (node_streams x True)" for q
    using lookup [of "si_streamId q" AppImage HalImage] x that by (simp add: getImageMapItemLocked_def streams_known_def list_all_iff)
  have meta: "\<exists>i. getMetaMapItemLocked (si_streamId q) f = Some i \<and> ?ok False (si_streamId q) i" if "q \<in> set (node_streams x False)" for q
    using lookup [of "si_streamId q" AppMeta HalMeta] x that by (simp add: getMetaMapItemLocked_def streams_known_def list_all_iff)
  have ns: "node_streams x True = si_imageInfos ins @ si_imageInfos outs" "node_streams x False = si_metaInfos ins @ si_metaInfos outs"
    by (simp_all add: node_streams_def s)
  have fi: "\<exists>is. find_items (\<lambda>s. getImageMapItemLocked s f) ss = Some is \<and> length is = length ss \<and> (\<forall>i \<in> set is. item_for f x i)"
    if "set ss \<subseteq> set (node_streams x True)" for ss
    using find_items_all [of ss "\<lambda>s. getImageMapItemLocked s f" "\<lambda>q i. q \<in> set (node_streams x True) \<and> ?ok True (si_streamId q) i"] img that
    by (fastforce simp: item_for_def)
  have fm: "\<exists>is. find_items (\<lambda>s. getMetaMapItemLocked s f) ss = Some is \<and> length is = length ss \<and> (\<forall>i \<in> set is. item_for f x i)"
    if "set ss \<subseteq> set (node_streams x False)" for ss
    using find_items_all [of ss "\<lambda>s. getMetaMapItemLocked s f" "\<lambda>q i. q \<in> set (node_streams x False) \<and> ?ok False (si_streamId q) i"] meta that
    by (fastforce simp: item_for_def)
  from fi [of "si_imageInfos ins"] obtain ii where ii: "find_items (\<lambda>s. getImageMapItemLocked s f) (si_imageInfos ins) = Some ii"
    "length ii = length (si_imageInfos ins)" "\<forall>i \<in> set ii. item_for f x i" by (auto simp: ns)
  from fi [of "si_imageInfos outs"] obtain oi where oi: "find_items (\<lambda>s. getImageMapItemLocked s f) (si_imageInfos outs) = Some oi"
    "length oi = length (si_imageInfos outs)" "\<forall>i \<in> set oi. item_for f x i" by (auto simp: ns)
  from fm [of "si_metaInfos ins"] obtain im where im: "find_items (\<lambda>s. getMetaMapItemLocked s f) (si_metaInfos ins) = Some im"
    "length im = length (si_metaInfos ins)" "\<forall>i \<in> set im. item_for f x i" by (auto simp: ns)
  from fm [of "si_metaInfos outs"] obtain om where om: "find_items (\<lambda>s. getMetaMapItemLocked s f) (si_metaInfos outs) = Some om"
    "length om = length (si_metaInfos outs)" "\<forall>i \<in> set om. item_for f x i" by (auto simp: ns)
  let ?r = "\<lparr>mISetImage = \<lparr>io_items = ii, mNotified = False\<rparr>, mOSetImage = \<lparr>io_items = oi, mNotified = False\<rparr>,
    mISetMeta = \<lparr>io_items = im, mNotified = False\<rparr>, mOSetMeta = \<lparr>io_items = om, mNotified = False\<rparr>\<rparr>"
  have z: "ii = [] \<longleftrightarrow> si_imageInfos ins = []" "oi = [] \<longleftrightarrow> si_imageInfos outs = []"
    "im = [] \<longleftrightarrow> si_metaInfos ins = []" "om = [] \<longleftrightarrow> si_metaInfos outs = []"
    using ii(2) oi(2) im(2) om(2) by (simp_all only: length_0_conv [symmetric])
  from z have ne: "node_empty ?r \<longleftrightarrow> \<not> has_streams x" by (simp add: node_empty_def has_streams_def ns) blast
  have "make_NodeStatus x f = Some ?r" by (simp add: make_NodeStatus_def s ii(1) oi(1) im(1) om(1))
  moreover have "fresh ?r" by (simp add: fresh_def)
  moreover have "\<forall>i \<in> set (node_items ?r). item_for f x i" using ii(3) oi(3) im(3) om(3) by (simp add: node_items_def ball_Un)
  ultimately show ?thesis using ne by blast
qed

lemma make_NodeStatus_cong: "fr_maps g = fr_maps f \<Longrightarrow> make_NodeStatus x g = make_NodeStatus x f"
proof -
  assume e: "fr_maps g = fr_maps f"
  have 1: "getMapItemLocked s k g = getMapItemLocked s k f" for s k by (simp add: getMapItemLocked_def e)
  have "getImageMapItemLocked s g = getImageMapItemLocked s f" "getMetaMapItemLocked s g = getMetaMapItemLocked s f" for s
    unfolding getImageMapItemLocked_def getMetaMapItemLocked_def 1 by simp_all
  then show ?thesis by (simp add: make_NodeStatus_def)
qed

lemma configure_nodes_done:
  assumes "\<forall>x \<in> set xs. \<exists>s. make_NodeStatus x f = Some s \<and> (node_empty s \<longleftrightarrow> \<not> has_streams x) \<and> Q x s"
    and "distinct (map mNodeId xs)" and "\<forall>x \<in> set xs. mNodeId x \<notin> set (kv_keys (mNodeStatusMap f))"
  shows "\<exists>sm. configure_nodes xs f = Some (f\<lparr>mNodeStatusMap := sm,
      mInFlightNodeCount := mInFlightNodeCount f + int (length (filter has_streams xs))\<rparr>) \<and>
    set (kv_keys sm) = set (kv_keys (mNodeStatusMap f)) \<union> mNodeId ` set (filter has_streams xs) \<and>
    (\<forall>n s. map_of sm n = Some s \<longrightarrow> map_of (mNodeStatusMap f) n = Some s \<or> (\<exists>x \<in> set xs. mNodeId x = n \<and> Q x s))"
  using assms
proof (induction xs arbitrary: f)
  case Nil
  have "f\<lparr>mNodeStatusMap := mNodeStatusMap f, mInFlightNodeCount := mInFlightNodeCount f + int 0\<rparr> = f" by simp
  then show ?case by (intro exI [of _ "mNodeStatusMap f"]) simp
next
  case (Cons x xs)
  from Cons.prems(1) obtain s where s: "make_NodeStatus x f = Some s" "node_empty s \<longleftrightarrow> \<not> has_streams x" "Q x s" by auto
  let ?f = "if has_streams x then f\<lparr>mNodeStatusMap := kv_add (mNodeId x) s (mNodeStatusMap f),
    mInFlightNodeCount := mInFlightNodeCount f + 1\<rparr> else f"
  have maps: "fr_maps ?f = fr_maps f" by simp
  have keys: "set (kv_keys (mNodeStatusMap ?f)) = set (kv_keys (mNodeStatusMap f)) \<union> (if has_streams x then {mNodeId x} else {})"
    by (simp add: kv_dom [symmetric])
  have 1: "\<forall>y \<in> set xs. \<exists>s. make_NodeStatus y ?f = Some s \<and> (node_empty s \<longleftrightarrow> \<not> has_streams y) \<and> Q y s"
    unfolding make_NodeStatus_cong [OF maps] using Cons.prems(1) by simp
  have 2: "\<forall>y \<in> set xs. mNodeId y \<notin> set (kv_keys (mNodeStatusMap ?f))"
    unfolding keys using Cons.prems(2,3) by (auto simp: image_iff)
  from Cons.IH [OF 1 _ 2] Cons.prems(2) obtain sm where
    sm: "configure_nodes xs ?f = Some (?f\<lparr>mNodeStatusMap := sm,
        mInFlightNodeCount := mInFlightNodeCount ?f + int (length (filter has_streams xs))\<rparr>)"
      "set (kv_keys sm) = set (kv_keys (mNodeStatusMap ?f)) \<union> mNodeId ` set (filter has_streams xs)"
      "\<forall>n s. map_of sm n = Some s \<longrightarrow> map_of (mNodeStatusMap ?f) n = Some s \<or> (\<exists>x \<in> set xs. mNodeId x = n \<and> Q x s)"
    by auto
  have "configure_nodes (x # xs) f = configure_nodes xs ?f" using s(1,2) by simp
  also have "\<dots> = Some (f\<lparr>mNodeStatusMap := sm,
      mInFlightNodeCount := mInFlightNodeCount f + int (length (filter has_streams (x # xs)))\<rparr>)"
    unfolding sm(1) by simp
  finally have "configure_nodes (x # xs) f = Some (f\<lparr>mNodeStatusMap := sm,
      mInFlightNodeCount := mInFlightNodeCount f + int (length (filter has_streams (x # xs)))\<rparr>)" .
  moreover have "set (kv_keys sm) = set (kv_keys (mNodeStatusMap f)) \<union> mNodeId ` set (filter has_streams (x # xs))"
    unfolding sm(2) keys by auto
  moreover have "map_of (mNodeStatusMap f) n = Some t \<or> (\<exists>y \<in> set (x # xs). mNodeId y = n \<and> Q y t)"
    if "map_of sm n = Some t" for n t
    using sm(3) [rule_format, OF that] s(3) by (auto split: if_splits)
  ultimately show ?case by blast
qed

lemma count_producers_all: "\<exists>c. count_producers (map Some is) f = Some c"
  by (induction "is") auto

text \<open>
  From the items to the invariant: \<open>g\<close> is the frame with the users set, and with the four
  objects that \<open>finishConfiguration\<close> asks for.
\<close>

definition nodes_known :: "(map_kind \<Rightarrow> StreamId_T set) \<Rightarrow> 'nio FrameNodeMap \<Rightarrow> NodeObj list \<Rightarrow> bool" where
  "nodes_known S m ts \<longleftrightarrow> kv_wf m \<and> list_all (\<lambda>(n, x). mNodeId x = n \<and> streams_known S x) m \<and>
     ts \<noteq> [] \<and> distinct (map obj_id ts) \<and> obj_id ` set ts = set (kv_keys m)"

lemma nodes_known_get:
  assumes "nodes_known S m ts" and "t \<in> set ts"
  shows "\<exists>x. getNodeFor (obj_id t) m = Some x \<and> streams_set x"
proof -
  have "obj_id t \<in> set (kv_keys m)" using assms by (auto simp: nodes_known_def)
  then obtain x where x: "map_of m (obj_id t) = Some x" using kv_keys_get by fastforce
  then have "streams_known S x" using assms(1) by (auto simp: nodes_known_def list_all_iff dest: map_of_SomeD)
  with x show ?thesis by (simp add: getNodeFor_def streams_known_def)
qed

lemma configured_ready:
  fixes f g h :: "'io Frame" and m :: "'io FrameNodeMap"
  assumes b: "built S F f" and dis: "\<And>k j. k \<noteq> j \<Longrightarrow> S k \<inter> S j = {}" and m: "nodes_known S m ts"
    and q: "users_done nc m ts es UNIV f g" and new: "mNodeStatusMap f = []" "mInFlightNodeCount f = 0" "collected f = {}"
    and h: "fr_items h = fr_items g" "fr_store h = fr_store g" "fr_maps h = fr_maps g" "mNodeStatusMap h = mNodeStatusMap g"
      "mInFlightNodeCount h = mInFlightNodeCount g" "collected h = collected g" "fr_mListeners h = fr_mListeners g" "mFrameNo h = mFrameNo g"
    and ini: "mpNodeMap h = Some m" "mpStreamInfoSet h \<noteq> None" "mpPipelineDAG h \<noteq> None" "mpPipelineNodeMap h \<noteq> None"
  shows "\<exists>f'. finishConfiguration h = Some (OK, f') \<and> frame_inv {} f' \<and>
    frame_nodes f' = mNodeId ` {x \<in> snd ` set m. has_streams x}"
proof -
  have gf: "g = f\<lparr>fr_store := fr_store g\<rparr>" and same: "same_frame f g" using q by (simp_all add: users_done_def)
  have its: "fr_items g = fr_items f" "fr_maps g = fr_maps f" "mNodeStatusMap g = []" "mInFlightNodeCount g = 0" "collected g = {}"
    using new by (subst gf, simp add: collected_def)+
  let ?xs = "map snd m"
  have xs: "mNodeId x = n \<and> streams_known S x" if "(n, x) \<in> set m" for n x using m that by (auto simp: nodes_known_def list_all_iff)
  have ids: "map mNodeId ?xs = kv_keys m" using xs by (auto simp: kv_keys_def)
  have dm: "distinct (map mNodeId ?xs)" unfolding ids using m by (simp add: nodes_known_def kv_wf_distinct)
  have bc: "\<exists>c. count_producers (map snd (im_mMap (fr_maps h k))) h = Some c" for k
    using built_entries [OF b, of k] count_producers_all by (auto simp: h(3) its(2))
  obtain h1 where h1: "collector_finishConfiguration h = Some h1" and
    h1s: "fr_items h1 = fr_items h" "fr_store h1 = fr_store h" "fr_maps h1 = fr_maps h" "mNodeStatusMap h1 = []"
      "mInFlightNodeCount h1 = 0" "collected h1 = {}" "fr_mListeners h1 = fr_mListeners h" "mFrameNo h1 = mFrameNo h"
    using bc [of AppMeta] bc [of HalMeta] its(3-5) h by (auto simp: collector_finishConfiguration_def collected_def)
  have maps: "fr_maps h1 = fr_maps f" by (simp add: h1s(3) h(3) its(2))
  let ?Q = "\<lambda>x s. fresh s \<and> (\<forall>i \<in> set (node_items s). item_for f x i)"
  have "\<exists>s. make_NodeStatus x h1 = Some s \<and> (node_empty s \<longleftrightarrow> \<not> has_streams x) \<and> ?Q x s" if "x \<in> set ?xs" for x
  proof -
    from that xs have "streams_known S x" by auto
    from make_NodeStatus_done [OF b this] show ?thesis unfolding make_NodeStatus_cong [OF maps] by blast
  qed
  then have "\<forall>x \<in> set ?xs. \<exists>s. make_NodeStatus x h1 = Some s \<and> (node_empty s \<longleftrightarrow> \<not> has_streams x) \<and> ?Q x s" by blast
  from configure_nodes_done [OF this dm] h1s(4,5) obtain sm where
    sm: "configure_nodes ?xs h1 = Some (h1\<lparr>mNodeStatusMap := sm, mInFlightNodeCount := int (length (filter has_streams ?xs))\<rparr>)"
      "set (kv_keys sm) = mNodeId ` set (filter has_streams ?xs)"
      "\<forall>n s. map_of sm n = Some s \<longrightarrow> (\<exists>x \<in> set ?xs. mNodeId x = n \<and> ?Q x s)" by auto
  define f2 where "f2 = h1\<lparr>mNodeStatusMap := sm, mInFlightNodeCount := int (length (filter has_streams ?xs))\<rparr>"
  have ff: "fr_items f2 = fr_items g" "fr_store f2 = fr_store g" "fr_maps f2 = fr_maps g" by (simp_all add: f2_def h1s h)
  have same': "same_frame f f2" using same by (simp add: same_frame_def ff f2_def h1s h)
  have um: "item_um f2 i = item_um g i" for i by (simp add: item_um_def f2_def h1s h)
  have nodes: "frame_nodes f2 = mNodeId ` set (filter has_streams ?xs)" by (simp add: frame_nodes_def f2_def sm(2))
  have "card (mNodeId ` set (filter has_streams ?xs)) = length (filter has_streams ?xs)"
  proof -
    have "distinct (map mNodeId (filter has_streams ?xs))" using dm by (rule distinct_map_filter)
    from distinct_card [OF this] show ?thesis by simp
  qed
  then have count: "mInFlightNodeCount f2 = int (card (frame_nodes f2))" unfolding nodes by (simp add: f2_def)
  have ready: "node_ready f2 n" if n: "n \<in> frame_nodes f2" for n
  proof -
    have "n \<in> set (kv_keys sm)" using n by (simp add: frame_nodes_def f2_def)
    then obtain s where s: "map_of sm n = Some s" using kv_keys_get by fastforce
    with sm(3) obtain x where x: "x \<in> set ?xs" "mNodeId x = n" "fresh s" "\<forall>i \<in> set (node_items s). item_for f x i" by blast
    have "live f2 n i" if "i \<in> set (node_items s)" for i
    proof -
      have i: "i < n_items f" "item_sid f i \<in> si_streamId ` set (node_streams x (is_image (item_kind f i)))"
        using x(4) that by (simp_all add: item_for_def)
      from q i(1) have us: "users_set (item_um g i) (users_for nc m ts f i) (set es)" by (simp add: users_done_def)
      obtain y where y: "(n, y) \<in> set m" "y = x" using x(1,2) xs by auto
      have "kv_wf m" using m by (simp add: nodes_known_def)
      from kv_wf_distinct [OF this] y have get: "getNodeFor n m = Some x" by (simp add: getNodeFor_def kv_keys_def)
      have "streams_set x" using xs [OF y(1)] y(2) by (simp add: streams_known_def)
      from make_user_done [OF get this, of nc "item_kind f i" "it_mStreamInfo (fr_items f ! i)"] i(2) obtain u where
        u: "make_user nc m (item_kind f i) (it_mStreamInfo (fr_items f ! i)) n = Some u" "usr_mUserId u = n" "takes_part u"
        by (auto simp: item_sid_def)
      have "n \<in> obj_id ` set ts" using m y(1) by (force simp: nodes_known_def kv_keys_def)
      with u(1) have "u \<in> set (users_for nc m ts f i)" by (force simp: users_for_def)
      with us u(2,3) have "queryUser (item_um g i) n \<noteq> None" by (auto simp: users_set_def takes_part_def)
      moreover have "entry f2 i = Some (Some i)"
        using b i(1) same_frame_item(1,2) [OF same' i(1)] by (simp add: built_def entry_def ff its(2))
      moreover have "i < n_items f2" using same_frame_n [OF same'] i(1) by simp
      ultimately show ?thesis using us by (simp add: live_def uses_def um users_set_def)
    qed
    then show ?thesis using s x(3) by (simp add: node_ready_def list_all_iff f2_def)
  qed
  have "frame_inv {} f2"
    using frame_wf_same [OF same' built_wf [OF b dis]] ready count h1s(6)
    by (simp add: frame_inv_def collected_def f2_def)
  moreover have "\<not> fnm_isEmpty m" using m by (auto simp: nodes_known_def fnm_isEmpty_def)
  then have "finishConfiguration h = Some (OK, f2)" using ini h1 sm(1) by (simp add: finishConfiguration_def f2_def)
  moreover have "frame_nodes f2 = mNodeId ` {x \<in> snd ` set m. has_streams x}" unfolding nodes by auto
  ultimately show ?thesis by blast
qed

end
