(* ===== verification/RequestProps.thy ===== *)
theory RequestProps
  imports FrameReady
begin

text \<open>
  What the construction of a request gives: the graph of its nodes (\<open>constructDAG_result\<close>), the
  map of its nodes with their streams, and the frame, which has the invariant of \<open>FrameProps\<close>
  (\<open>build_frame_ready\<close>); and what the builder and the queue keep.
\<close>

section \<open>The graph of a request\<close>

lemma set_request_nodes: "set (request_nodes roots es) = set roots \<union> fst ` set es \<union> snd ` set es"
  and distinct_request_nodes: "distinct (request_nodes roots es)"
proof -
  let ?f = "\<lambda>(src, dst) s. Set_add dst (Set_add src s)"
  have "set (fold ?f es s) = set s \<union> fst ` set es \<union> snd ` set es" for s :: "int list" by (induction es arbitrary: s) auto
  moreover have "set (fold Set_add roots s) = set roots \<union> set s" for s :: "int list" by (induction roots arbitrary: s) auto
  ultimately show "set (request_nodes roots es) = set roots \<union> fst ` set es \<union> snd ` set es" by (auto simp: request_nodes_def)
  have "distinct s \<Longrightarrow> distinct (fold ?f es s)" for s :: "int list" by (induction es arbitrary: s) auto
  moreover have "distinct s \<Longrightarrow> distinct (fold Set_add roots s)" for s :: "int list" by (induction roots arbitrary: s) auto
  ultimately show "distinct (request_nodes roots es)" by (simp add: request_nodes_def)
qed

text \<open>A node with the value \<open>-1\<close> counts as missing, like one that is not in the graph.\<close>

abbreviation in_config :: "PipelineDAG \<Rightarrow> int \<Rightarrow> bool" where
  "in_config cfg n \<equiv> obj_val (getNode cfg n) \<noteq> - 1"

lemma dag_add_nodes_done:
  assumes "dag_inv d" and "distinct ns" and "set ns \<inter> set (dag_ids d) = {}"
  shows "if \<forall>n \<in> set ns. in_config cfg n
    then \<exists>d'. dag_add_nodes ns cfg d = Some d' \<and> dag_inv d' \<and> set (dag_ids d') = set (dag_ids d) \<union> set ns \<and>
      dag_edges d' = dag_edges d \<and> mToposort d' = mToposort d \<and>
      (\<forall>n. getNode d' n = (if n \<in> set ns then \<lparr>obj_id = n, obj_val = obj_val (getNode cfg n)\<rparr> else getNode d n))
    else dag_add_nodes ns cfg d = None"
  using assms
proof (induction ns arbitrary: d)
  case (Cons n ns)
  let ?d = "snd (addNode d n (obj_val (getNode cfg n)))"
  have n: "n \<notin> set (dag_ids d)" using Cons.prems(3) by simp
  have keys: "set (dag_ids ?d) = insert n (set (dag_ids d))" by (simp add: addNode_def kv_dom [symmetric])
  have inv: "dag_inv ?d"
    using dag_wf_addNode [OF dag_inv_wf [OF Cons.prems(1)] n] Cons.prems(1) keys by (auto simp: dag_inv_def addNode_def)
  have get: "getNode ?d k = (if k = n then \<lparr>obj_id = n, obj_val = obj_val (getNode cfg n)\<rparr> else getNode d k)" for k
    by (simp add: getNode_def addNode_def)
  have "set ns \<inter> set (dag_ids ?d) = {}" using Cons.prems(2,3) keys by auto
  note ih = Cons.IH [OF inv _ this]
  show ?case
  proof (cases "\<forall>k \<in> set (n # ns). in_config cfg k")
    case True
    then have "\<forall>k \<in> set ns. in_config cfg k" by simp
    with ih Cons.prems(2) obtain d' where
      d': "dag_add_nodes ns cfg ?d = Some d'" "dag_inv d'" "set (dag_ids d') = set (dag_ids ?d) \<union> set ns"
        "dag_edges d' = dag_edges ?d" "mToposort d' = mToposort ?d"
        "\<forall>k. getNode d' k = (if k \<in> set ns then \<lparr>obj_id = k, obj_val = obj_val (getNode cfg k)\<rparr> else getNode ?d k)"
      by auto
    have "dag_add_nodes (n # ns) cfg d = Some d'" using True d'(1) by (simp add: Let_def)
    moreover have "dag_edges d' = dag_edges d" using d'(4) dag_edges_addNode [OF n] by simp
    moreover have "mToposort d' = mToposort d" using d'(5) by (simp add: addNode_def)
    moreover have "set (dag_ids d') = set (dag_ids d) \<union> set (n # ns)" using d'(3) keys by simp
    moreover have "\<forall>k. getNode d' k = (if k \<in> set (n # ns) then \<lparr>obj_id = k, obj_val = obj_val (getNode cfg k)\<rparr> else getNode d k)"
      using d'(6) Cons.prems(2) by (simp add: get)
    ultimately show ?thesis using True d'(2) by simp
  next
    case False
    have "dag_add_nodes (n # ns) cfg d = None"
    proof (cases "in_config cfg n")
      case True
      with False have "\<not> (\<forall>k \<in> set ns. in_config cfg k)" by simp
      with ih Cons.prems(2) have "dag_add_nodes ns cfg ?d = None" by (simp split: if_splits)
      then show ?thesis by (simp add: Let_def)
    qed (simp add: Let_def)
    then show ?thesis using False by (simp only: if_False)
  qed
qed (simp add: dag_create_def)

lemma dag_inv_create: "dag_inv dag_create"
  by (simp add: dag_create_def dag_inv_def)

lemma constructDAG_graph:
  assumes ok: "\<forall>n \<in> set (request_nodes roots es). in_config cfg n" and root: "length roots = 1"
  shows "\<exists>d. constructDAG cfg roots es = do { (ts, d') \<leftarrow> getToposort d; Some (if ts = [] then None else Some d') } \<and>
    dag_inv d \<and> set (dag_ids d) = set (request_nodes roots es) \<and> dag_edges d = set es \<and> mRootId d = roots ! 0 \<and> mToposort d = [] \<and>
    (\<forall>n \<in> set (request_nodes roots es). getNode d n = \<lparr>obj_id = n, obj_val = obj_val (getNode cfg n)\<rparr>)"
proof -
  let ?ns = "request_nodes roots es"
  from dag_add_nodes_done [OF dag_inv_create distinct_request_nodes, of roots es cfg] ok obtain d1 where
    d1: "dag_add_nodes ?ns cfg dag_create = Some d1" "dag_inv d1" "set (dag_ids d1) = set ?ns" "dag_edges d1 = {}" "mToposort d1 = []"
      "\<forall>n. getNode d1 n = (if n \<in> set ?ns then \<lparr>obj_id = n, obj_val = obj_val (getNode cfg n)\<rparr> else getNode dag_create n)"
    by (auto simp: dag_create_def edge_rel_def)
  obtain r where r: "roots = [r]" using root by (cases roots) auto
  have r_in: "r \<in> set (dag_ids d1)" by (simp add: d1(3) set_request_nodes r)
  define d2 where "d2 = d1\<lparr>mRootId := r\<rparr>"
  have s: "setRootNode d1 (roots ! 0) = (OK, d2)" using r_in by (simp add: setRootNode_def r d2_def)
  have inv2: "dag_inv d2" using d1(2) r_in by (simp add: dag_inv_def d2_def)
  obtain err d3 where e: "config_edges es d2 = (err, d3)" by fastforce
  have "\<forall>(s, t) \<in> set es. s \<in> set (dag_ids d2) \<and> t \<in> set (dag_ids d2)"
    using d1(3) by (force simp: d2_def set_request_nodes)
  with config_edges_post [OF inv2 e] have d3: "dag_inv d3" "same_nodes d2 d3" "err = OK" "dag_edges d3 = set es"
    using d1(4) by (auto simp: d2_def)
  have s3: "dag_ids d3 = dag_ids d1" "mRootId d3 = r" "mToposort d3 = []" "getNode d3 n = getNode d1 n" for n
    using d3(2) d1(5) by (auto simp: same_nodes_def d2_def getNode_def)
  show ?thesis
    by (intro exI [of _ d3]) (use d1(1,3,6) root s e d3 s3 in \<open>simp add: constructDAG_def r\<close>)
qed

text \<open>When a request gets a graph, and which.\<close>

definition request_dag :: "PipelineDAG \<Rightarrow> int list \<Rightarrow> (int \<times> int) list \<Rightarrow> PipelineDAG \<Rightarrow> bool" where
  "request_dag cfg roots es d \<longleftrightarrow> set (dag_ids d) = set (request_nodes roots es) \<and> dag_edges d = set es \<and> mRootId d = roots ! 0 \<and>
     mToposort d \<noteq> [] \<and> distinct (map obj_id (mToposort d)) \<and>
     set (mToposort d) = (\<lambda>n. \<lparr>obj_id = n, obj_val = obj_val (getNode cfg n)\<rparr>) ` set (dag_ids d) \<and>
     succs_behind (set es) (map obj_id (mToposort d))"

lemma constructDAG_done:
  assumes ok: "\<forall>n \<in> set (request_nodes roots es). in_config cfg n" and root: "length roots = 1"
  shows "if acyclic (set es) then \<exists>d. constructDAG cfg roots es = Some (Some d) \<and> request_dag cfg roots es d
    else constructDAG cfg roots es = Some None"
proof -
  let ?ns = "request_nodes roots es"
  from constructDAG_graph [OF assms] obtain d where
    c: "constructDAG cfg roots es = do { (ts, d') \<leftarrow> getToposort d; Some (if ts = [] then None else Some d') }"
    and d: "dag_inv d" "set (dag_ids d) = set ?ns" "dag_edges d = set es" "mRootId d = roots ! 0" "mToposort d = []"
    and val: "\<forall>n \<in> set ?ns. getNode d n = \<lparr>obj_id = n, obj_val = obj_val (getNode cfg n)\<rparr>"
    by (elim exE conjE)
  note wf = dag_inv_wf [OF d(1)]
  from evaluateToposort_total [OF wf] obtain e ts where
    ts: "evaluateToposort (mNodesVec d) = Some (e, ts)" "e = OK \<longleftrightarrow> acyclic (set es)"
      "e = OK \<longrightarrow> distinct (map obj_id ts) \<and> obj_id ` set ts = set (dag_ids d) \<and> succs_behind (set es) (map obj_id ts) \<and>
         (\<forall>n \<in> set ts. \<exists>k na. map_of (mNodesVec d) k = Some na \<and> mNode na = n)"
      "e \<noteq> OK \<longrightarrow> e = UNKNOWN_ERROR \<and> ts = []"
    unfolding d(3) by (elim exE conjE)
  have t: "getToposort d = Some (ts, d\<lparr>mToposort := ts\<rparr>)" by (simp add: getToposort_def d(5) ts(1))
  show ?thesis
  proof (cases "acyclic (set es)")
    case True
    then have e: "e = OK" using ts(2) by simp
    have "roots ! 0 \<in> set ?ns" using root by (cases roots) (auto simp: set_request_nodes)
    with ts(3) e d(2) have ne: "ts \<noteq> []" by auto
    have node: "t = \<lparr>obj_id = obj_id t, obj_val = obj_val (getNode cfg (obj_id t))\<rparr>" if "t \<in> set ts" for t
    proof -
      have "\<exists>k na. map_of (mNodesVec d) k = Some na \<and> mNode na = t" using ts(3) e that by blast
      then obtain k na where na: "map_of (mNodesVec d) k = Some na" "mNode na = t" by (elim exE conjE)
      have "obj_id t = k" using dag_wf_id [OF wf na(1)] na(2) by simp
      then have "getNode d (obj_id t) = t" using na by (simp add: getNode_def)
      moreover have "obj_id t \<in> set ?ns" using ts(3) e that d(2) by auto
      ultimately show ?thesis using val by metis
    qed
    have "set ts = (\<lambda>n. \<lparr>obj_id = n, obj_val = obj_val (getNode cfg n)\<rparr>) ` obj_id ` set ts"
      using node by (force simp: image_image)
    then have "request_dag cfg roots es (d\<lparr>mToposort := ts\<rparr>)"
      using ts(3) e d(2-4) ne by (simp add: request_dag_def)
    moreover have "constructDAG cfg roots es = Some (Some (d\<lparr>mToposort := ts\<rparr>))" unfolding c t using ne by simp
    ultimately show ?thesis using True by auto
  next
    case False
    with ts(2,4) have "ts = []" by auto
    with False show ?thesis unfolding c t by simp
  qed
qed

lemma constructDAG_iff:
  "if (\<forall>n \<in> set (request_nodes roots es). in_config cfg n) \<and> length roots = 1 \<and> acyclic (set es)
   then \<exists>d. constructDAG cfg roots es = Some (Some d) \<and> request_dag cfg roots es d
   else constructDAG cfg roots es = Some None"
proof (cases "(\<forall>n \<in> set (request_nodes roots es). in_config cfg n) \<and> length roots = 1")
  case True
  then show ?thesis using constructDAG_done [of roots es cfg] by simp
next
  case False
  have "constructDAG cfg roots es = Some None"
  proof (cases "\<forall>n \<in> set (request_nodes roots es). in_config cfg n")
    case True
    with dag_add_nodes_done [OF dag_inv_create distinct_request_nodes, of roots es cfg] obtain d1 where
      "dag_add_nodes (request_nodes roots es) cfg dag_create = Some d1" by (auto simp: dag_create_def)
    with True False show ?thesis by (simp add: constructDAG_def)
  next
    case False
    with dag_add_nodes_done [OF dag_inv_create distinct_request_nodes, of roots es cfg] have
      "dag_add_nodes (request_nodes roots es) cfg dag_create = None" by (simp add: dag_create_def)
    then show ?thesis by (simp add: constructDAG_def)
  qed
  with False show ?thesis by argo
qed

section \<open>The nodes of a request and their streams\<close>

definition infos_from :: "(StreamId_T \<Rightarrow> IStreamInfo option) \<Rightarrow> InfoMap \<Rightarrow> bool" where
  "infos_from info m \<longleftrightarrow> (\<forall>x \<in> set m. info (fst x) = Some (snd x))"

lemma find_infos_from: "find_infos info ss m = Some m' \<Longrightarrow> infos_from info m \<Longrightarrow> infos_from info m'"
proof (induction ss arbitrary: m)
  case (Cons s ss)
  then obtain p where p: "info s = Some p" "find_infos info ss (kv_add s p m) = Some m'" by (cases "info s") auto
  have "infos_from info (kv_add s p m)" using Cons.prems(2) p(1) set_kv_add [of s p m] by (auto simp: infos_from_def)
  from Cons.IH [OF p(2) this] show ?case .
qed simp

lemma setINodeIO_from:
  "setINodeIO mk info ms (ins, outs, io) = Some (ins', outs', io') \<Longrightarrow> infos_from info ins \<Longrightarrow> infos_from info outs \<Longrightarrow>
   infos_from info ins' \<and> infos_from info outs'"
proof (induction ms arbitrary: ins outs io)
  case (Cons m ms)
  from Cons.prems(1) obtain vin vout ins1 outs1 where
    1: "find_infos info (vIn m) ins = Some ins1" "find_infos info (vOut m) outs = Some outs1"
    and 2: "setINodeIO mk info ms (ins1, outs1, io @ [mk vin vout]) = Some (ins', outs', io')"
    by (auto simp: bind_eq_Some_conv)
  show ?case
    using Cons.IH [OF 2] find_infos_from [OF 1(1) Cons.prems(2)] find_infos_from [OF 1(2) Cons.prems(3)] by simp
qed simp

definition info_known :: "(map_kind \<Rightarrow> StreamId_T set) \<Rightarrow> StreamInfoSetControl \<Rightarrow> bool" where
  "info_known S c \<longleftrightarrow> (\<forall>s p. (getImageInfoFor c s = Some p \<longrightarrow> si_streamId p \<in> S AppImage \<union> S HalImage) \<and>
     (getMetaInfoFor c s = Some p \<longrightarrow> si_streamId p \<in> S AppMeta \<union> S HalMeta))"

lemma setINodeIOStreams_known:
  assumes "setINodeIOStreams images metas c n = Some n'" and "info_known S c"
  shows "mNodeId n' = mNodeId n \<and> streams_known S n'"
proof -
  from assms(1) obtain ii oi io1 im om io2 where
    i: "setINodeIO ImageInfoIOMap (getImageInfoFor c) images ([], [], mIOMapSet n) = Some (ii, oi, io1)"
    and m: "setINodeIO MetaInfoIOMap (getMetaInfoFor c) metas ([], [], io1) = Some (im, om, io2)"
    and n': "n' = (setOStreams (Some \<lparr>si_metaInfos = map snd om, si_imageInfos = map snd oi\<rparr>)
             (setIStreams (Some \<lparr>si_metaInfos = map snd im, si_imageInfos = map snd ii\<rparr>) n))\<lparr>mIOMapSet := io2\<rparr>"
    unfolding setINodeIOStreams_def by (auto simp: bind_eq_Some_conv)
  have nil: "infos_from info []" for info by (simp add: infos_from_def)
  have ns: "node_streams n' True = map snd ii @ map snd oi" "node_streams n' False = map snd im @ map snd om"
    by (simp_all add: n' node_streams_def setOStreams_def setIStreams_def)
  have img: "si_streamId p \<in> S AppImage \<union> S HalImage" if "p \<in> set (node_streams n' True)" for p
  proof -
    have "\<exists>s. getImageInfoFor c s = Some p"
      using that setINodeIO_from [OF i nil nil] by (auto simp: ns infos_from_def)
    then show ?thesis using assms(2) unfolding info_known_def by blast
  qed
  have meta: "si_streamId p \<in> S AppMeta \<union> S HalMeta" if "p \<in> set (node_streams n' False)" for p
  proof -
    have "\<exists>s. getMetaInfoFor c s = Some p"
      using that setINodeIO_from [OF m nil nil] by (auto simp: ns infos_from_def)
    then show ?thesis using assms(2) unfolding info_known_def by blast
  qed
  have "streams_set n'" by (simp add: n' streams_set_def setOStreams_def setIStreams_def)
  with img meta show ?thesis by (simp add: streams_known_def list_all_iff n' setOStreams_def setIStreams_def)
qed

lemma construct_nodes:
  assumes "construct_FrameNodeMapControl images metas ts c m = Some m'" and "info_known S c" and "kv_wf m"
    and "\<forall>n x. map_of m n = Some x \<longrightarrow> mNodeId x = n \<and> streams_known S x"
  shows "kv_wf m' \<and> set (kv_keys m') = set (kv_keys m) \<union> obj_id ` set ts \<and>
    (\<forall>n x. map_of m' n = Some x \<longrightarrow> mNodeId x = n \<and> streams_known S x)"
  using assms
proof (induction ts arbitrary: m)
  case (Cons t ts)
  let ?id = "obj_id t"
  let ?m1 = "kv_add ?id (NodeInfo_new ?id) m"
  obtain i where i: "kv_index ?m1 ?id = Some i" by (cases "kv_index ?m1 ?id") simp_all
  from kv_index_Some [OF i] have at: "getNodeAt i ?m1 = Some (NodeInfo_new ?id)" by (simp add: getNodeAt_def)
  from Cons.prems(1) at obtain n' where
    n': "setINodeIOStreams (iomaps_for images ?id) (iomaps_for metas ?id) c (NodeInfo_new ?id) = Some n'"
    and rest: "construct_FrameNodeMapControl images metas ts c (kv_edit ?id (\<lambda>_. n') ?m1) = Some m'"
    by (auto simp: fnm_addNode_def i Let_def bind_eq_Some_conv)
  have n: "mNodeId n' = ?id" "streams_known S n'"
    using setINodeIOStreams_known [OF n' Cons.prems(2)] by (simp_all add: NodeInfo_new_def)
  let ?m2 = "kv_edit ?id (\<lambda>_. n') ?m1"
  have wf: "kv_wf ?m2" using Cons.prems(3) by (intro kv_wf_edit kv_wf_add)
  have ok: "\<forall>k x. map_of ?m2 k = Some x \<longrightarrow> mNodeId x = k \<and> streams_known S x" using Cons.prems(4) n by simp
  have "k \<in> set (kv_keys ?m2) \<longleftrightarrow> k = ?id \<or> k \<in> set (kv_keys m)" for k
    using kv_get_None [of ?m2 k] kv_get_None [of m k] by (cases "k = ?id") simp_all
  then have keys: "set (kv_keys ?m2) = insert ?id (set (kv_keys m))" by blast
  from Cons.IH [OF rest Cons.prems(2) wf ok] show ?case unfolding keys by simp
qed simp

lemma addStreams_get:
  "map_of (addStreams ps m) s = Some p \<Longrightarrow> map_of m s = Some p \<or> (p \<in> set ps \<and> si_streamId p = s)"
proof (induction ps arbitrary: m)
  case (Cons q ps)
  then have "map_of (addStreams ps (addStream q m)) s = Some p" by (simp add: addStreams_def)
  from Cons.IH [OF this] show ?case by (auto simp: addStream_def split: if_splits)
qed (simp add: addStreams_def)

lemma request_info_known:
  assumes "\<And>k. keyed (infos_of r k)"
  shows "info_known (streams_of r) (snd (update_streaminfo_to_set r StreamInfoSetControl_new))"
proof -
  let ?c = "snd (update_streaminfo_to_set r StreamInfoSetControl_new)"
  have get: "si_streamId p \<in> streams_of r k" if "map_of (addStreams (map snd (infos_of r k)) []) s = Some p" for k s p
  proof -
    have "p \<in> set (map snd (infos_of r k))" using addStreams_get [OF that] by simp
    then obtain t where t: "(t, p) \<in> set (infos_of r k)" by auto
    then have "si_streamId p = t" using assms [of k] by (auto simp: keyed_def list_all_iff)
    with t show ?thesis by (force simp: streams_of_def)
  qed
  have c: "ctl_AppImage ?c = addStreams (map snd (infos_of r AppImage)) []" "ctl_HalImage ?c = addStreams (map snd (infos_of r HalImage)) []"
    "ctl_AppMeta ?c = addStreams (map snd (infos_of r AppMeta)) []" "ctl_HalMeta ?c = addStreams (map snd (infos_of r HalMeta)) []"
    by (simp_all add: update_streaminfo_to_set_def infos_of_def StreamInfoSetControl_new_def)
  show ?thesis
    unfolding info_known_def getImageInfoFor_def getMetaInfoFor_def set_valueFor_def c
    using get by (auto split: option.splits)
qed

text \<open>Every stream that a request names is found.\<close>

lemma find_infos_found: "\<forall>s \<in> set ss. info s \<noteq> None \<Longrightarrow> \<exists>m'. find_infos info ss m = Some m'"
  by (induction ss arbitrary: m) auto

lemma setINodeIO_found:
  "\<forall>m \<in> set ms. \<forall>s \<in> set (vIn m) \<union> set (vOut m). info s \<noteq> None \<Longrightarrow> \<exists>r. setINodeIO mk info ms s = Some r"
proof (induction ms arbitrary: s)
  case (Cons m ms)
  obtain ins outs io where s: "s = (ins, outs, io)" by (cases s)
  have 1: "\<forall>s \<in> set (vIn m). info s \<noteq> None" "\<forall>s \<in> set (vOut m). info s \<noteq> None" using Cons.prems by auto
  obtain a b c d where "find_infos info (vIn m) [] = Some a" "find_infos info (vOut m) [] = Some b"
    "find_infos info (vIn m) ins = Some c" "find_infos info (vOut m) outs = Some d"
    using find_infos_found [OF 1(1)] find_infos_found [OF 1(2)] by metis
  with Cons.IH [of "(c, d, io @ [mk a b])"] Cons.prems show ?case by (simp add: s)
qed (metis setINodeIO.simps(1))

definition io_streams :: "NodeIOMaps \<Rightarrow> StreamId_T set" where
  "io_streams m = (\<Union>x \<in> set m. \<Union>io \<in> set (snd x). set (vIn io) \<union> set (vOut io))"

lemma set_getStreamSet: "set (getStreamSet m c) = io_streams m \<union> set c"
proof -
  let ?g = "\<lambda>m c. Set_add_all (vOut m) (Set_add_all (vIn m) c)"
  have 1: "set (fold ?g ms c) = (\<Union>io \<in> set ms. set (vIn io) \<union> set (vOut io)) \<union> set c" for ms c
    by (induction ms arbitrary: c) auto
  show ?thesis
    unfolding getStreamSet_def by (induction m arbitrary: c) (auto simp: io_streams_def 1)
qed

lemma iomaps_for_streams: "io \<in> set (iomaps_for m n) \<Longrightarrow> set (vIn io) \<union> set (vOut io) \<subseteq> io_streams m"
proof -
  assume i: "io \<in> set (iomaps_for m n)"
  then obtain l where "map_of m n = Some l" "io \<in> set l" by (cases "map_of m n") (auto simp: iomaps_for_def)
  then have "(n, l) \<in> set m" by (simp add: map_of_SomeD)
  with \<open>io \<in> set l\<close> show ?thesis unfolding io_streams_def by fastforce
qed

lemma construct_nodes_found:
  assumes "\<forall>s \<in> io_streams images. getImageInfoFor c s \<noteq> None" and "\<forall>s \<in> io_streams metas. getMetaInfoFor c s \<noteq> None"
  shows "\<exists>m'. construct_FrameNodeMapControl images metas ts c m = Some m'"
proof (induction ts arbitrary: m)
  case (Cons t ts)
  let ?id = "obj_id t"
  let ?m1 = "kv_add ?id (NodeInfo_new ?id) m"
  obtain i where i: "kv_index ?m1 ?id = Some i" by (cases "kv_index ?m1 ?id") simp_all
  from kv_index_Some [OF i] have at: "getNodeAt i ?m1 = Some (NodeInfo_new ?id)" by (simp add: getNodeAt_def)
  have 1: "\<forall>m \<in> set (iomaps_for images ?id). \<forall>s \<in> set (vIn m) \<union> set (vOut m). getImageInfoFor c s \<noteq> None"
    using iomaps_for_streams [of _ images ?id] assms(1) by blast
  have 2: "\<forall>m \<in> set (iomaps_for metas ?id). \<forall>s \<in> set (vIn m) \<union> set (vOut m). getMetaInfoFor c s \<noteq> None"
    using iomaps_for_streams [of _ metas ?id] assms(2) by blast
  obtain ii oi io1 where a: "setINodeIO ImageInfoIOMap (getImageInfoFor c) (iomaps_for images ?id) ([], [], []) = Some (ii, oi, io1)"
    using setINodeIO_found [OF 1, of ImageInfoIOMap "([], [], [])"] by (metis prod_cases3)
  obtain im om io2 where b: "setINodeIO MetaInfoIOMap (getMetaInfoFor c) (iomaps_for metas ?id) ([], [], io1) = Some (im, om, io2)"
    using setINodeIO_found [OF 2, of MetaInfoIOMap "([], [], io1)"] by (metis prod_cases3)
  from a b obtain n' where "setINodeIOStreams (iomaps_for images ?id) (iomaps_for metas ?id) c (NodeInfo_new ?id) = Some n'"
    by (simp add: setINodeIOStreams_def NodeInfo_new_def)
  with at i Cons.IH show ?case by (simp add: fnm_addNode_def Let_def)
qed simp

lemma collect_query_keys:
  "collect_query q ss (a, h) = (OK, a', h') \<Longrightarrow> set (kv_keys a') \<union> set (kv_keys h') = set (kv_keys a) \<union> set (kv_keys h) \<union> set ss"
proof (induction ss arbitrary: a h)
  case (Cons s ss)
  have keys: "set (kv_keys (kv_add s p m)) = insert s (set (kv_keys m))" for p :: IStreamInfo and m
    using kv_dom [of "kv_add s p m"] kv_dom [of m] by simp
  from Cons.prems obtain p t where q: "q s = Some (p, t)" by (auto split: option.splits)
  from Cons.prems q consider "collect_query q ss (kv_add s p a, h) = (OK, a', h')" | "collect_query q ss (a, kv_add s p h) = (OK, a', h')"
    by (auto split: if_splits)
  then show ?case
  proof cases
    case 1
    from Cons.IH [OF this] show ?thesis unfolding keys by auto
  next
    case 2
    from Cons.IH [OF this] show ?thesis unfolding keys by auto
  qed
qed simp

lemma replace_infos_keys: "replace_infos ps m = Some m' \<Longrightarrow> set (kv_keys m') = set (kv_keys m)"
  by (induction ps arbitrary: m) (auto split: if_splits)

lemma addStreams_found: "p \<in> set ps \<or> map_of m (si_streamId p) \<noteq> None \<Longrightarrow> map_of (addStreams ps m) (si_streamId p) \<noteq> None"
proof (induction ps arbitrary: m)
  case (Cons q ps)
  have "p \<in> set ps \<or> map_of (addStream q m) (si_streamId p) \<noteq> None" using Cons.prems by (auto simp: addStream_def)
  from Cons.IH [OF this] show ?case by (simp add: addStreams_def)
qed (simp add: addStreams_def)

section \<open>The frame of a request\<close>

text \<open>What a request has to fulfil; \<open>r\<close> are the informations of its streams.\<close>

definition request_info :: "ContextImpl \<Rightarrow> RequestBuilder \<Rightarrow> RequestData option" where
  "request_info ctx b =
     (let (err, r) = collect_from_stream_config (mpStreamConfig ctx) (getStreamSet (mImageNodeIOMaps b) []) (getStreamSet (mMetaNodeIOMaps b) [])
      in if err \<noteq> OK then None
         else map_option (\<lambda>infos. r\<lparr>vHalImageStreamInfo := infos\<rparr>)
           (replace_infos (map snd (mReplacingInfos b)) (vHalImageStreamInfo r)))"

definition request_good :: "ContextImpl \<Rightarrow> RequestBuilder \<Rightarrow> PipelineDAG \<Rightarrow> buffer_store \<Rightarrow> bool" where
  "request_good ctx b cfg st \<longleftrightarrow>
     (case request_info ctx b of None \<Rightarrow> False | Some r \<Rightarrow> req_ok r b st) \<and>
     (case ctx_mpPipelineNodeMap ctx of None \<Rightarrow> False | Some (p, pm) \<Rightarrow> \<not> pnm_isEmpty pm) \<and>
     list_all (in_config cfg) (request_nodes (mRootNodes b) (mNodeEdges b)) \<and> length (mRootNodes b) = 1 \<and>
     acyclic (set (mNodeEdges b)) \<and> length (request_nodes (mRootNodes b) (mNodeEdges b)) \<le> 32"

lemma request_info_streams:
  assumes r: "request_info ctx b = Some r"
  shows "io_streams (mImageNodeIOMaps b) = streams_of r AppImage \<union> streams_of r HalImage"
    and "io_streams (mMetaNodeIOMaps b) = streams_of r AppMeta \<union> streams_of r HalMeta"
proof -
  let ?is = "getStreamSet (mImageNodeIOMaps b) []" and ?ms = "getStreamSet (mMetaNodeIOMaps b) []" and ?c = "mpStreamConfig ctx"
  obtain e1 ai hi where 1: "collect_query (image_query ?c) ?is ([], []) = (e1, ai, hi)" by (metis prod_cases3)
  obtain e2 am hm where 2: "collect_query (meta_query ?c) ?ms ([], []) = (e2, am, hm)" by (metis prod_cases3)
  from r 1 2 obtain infos where ok: "e1 = OK" "e2 = OK" and repl: "replace_infos (map snd (mReplacingInfos b)) hi = Some infos"
    and r': "r = \<lparr>vAppImageStreamInfo = ai, vHalImageStreamInfo = infos, vAppMetaStreamInfo = am, vHalMetaStreamInfo = hm\<rparr>"
    by (auto simp: request_info_def collect_from_stream_config_def Let_def split: if_splits)
  have keys: "streams_of r k = set (kv_keys (infos_of r k))" for k by (simp add: streams_of_def kv_keys_def)
  show "io_streams (mImageNodeIOMaps b) = streams_of r AppImage \<union> streams_of r HalImage"
    unfolding keys using collect_query_keys [OF 1 [unfolded ok]] replace_infos_keys [OF repl] set_getStreamSet [of "mImageNodeIOMaps b" "[]"]
    by (simp add: r' infos_of_def)
  show "io_streams (mMetaNodeIOMaps b) = streams_of r AppMeta \<union> streams_of r HalMeta"
    unfolding keys using collect_query_keys [OF 2 [unfolded ok]] set_getStreamSet [of "mMetaNodeIOMaps b" "[]"]
    by (simp add: r' infos_of_def)
qed

lemma request_info_found:
  assumes keyed: "\<And>k. keyed (infos_of r k)" and c: "c = snd (update_streaminfo_to_set r StreamInfoSetControl_new)"
  shows "s \<in> streams_of r AppImage \<union> streams_of r HalImage \<Longrightarrow> getImageInfoFor c s \<noteq> None"
    and "s \<in> streams_of r AppMeta \<union> streams_of r HalMeta \<Longrightarrow> getMetaInfoFor c s \<noteq> None"
proof -
  have get: "map_of (addStreams (map snd (infos_of r k)) []) s \<noteq> None" if s: "s \<in> streams_of r k" for k s
  proof -
    obtain p where p: "(s, p) \<in> set (infos_of r k)" using s by (auto simp: streams_of_def)
    then have "si_streamId p = s" using keyed [of k] by (auto simp: keyed_def list_all_iff)
    moreover have "p \<in> set (map snd (infos_of r k))" using p by force
    ultimately show ?thesis using addStreams_found [of p "map snd (infos_of r k)" "[]"] by simp
  qed
  have cs: "ctl_AppImage c = addStreams (map snd (infos_of r AppImage)) []" "ctl_HalImage c = addStreams (map snd (infos_of r HalImage)) []"
    "ctl_AppMeta c = addStreams (map snd (infos_of r AppMeta)) []" "ctl_HalMeta c = addStreams (map snd (infos_of r HalMeta)) []"
    by (simp_all add: c update_streaminfo_to_set_def infos_of_def StreamInfoSetControl_new_def)
  show "s \<in> streams_of r AppImage \<union> streams_of r HalImage \<Longrightarrow> getImageInfoFor c s \<noteq> None"
    using get [of s AppImage] get [of s HalImage] by (auto simp: getImageInfoFor_def set_valueFor_def cs split: option.splits)
  show "s \<in> streams_of r AppMeta \<union> streams_of r HalMeta \<Longrightarrow> getMetaInfoFor c s \<noteq> None"
    using get [of s AppMeta] get [of s HalMeta] by (auto simp: getMetaInfoFor_def set_valueFor_def cs split: option.splits)
qed

lemma configure_nodes_keeps:
  "configure_nodes xs f = Some f' \<Longrightarrow> mFrameNo f' = mFrameNo f \<and> fr_mListeners f' = fr_mListeners f \<and>
     mpNodeMap f' = mpNodeMap f \<and> mpPipelineDAG f' = mpPipelineDAG f"
proof (induction xs arbitrary: f)
  case (Cons x xs)
  obtain s where s: "make_NodeStatus x f = Some s" using Cons.prems by (cases "make_NodeStatus x f") auto
  show ?case
  proof (cases "node_empty s")
    case True
    with Cons s show ?thesis by simp
  next
    case False
    with Cons.prems s have "configure_nodes xs (f\<lparr>mNodeStatusMap := kv_add (mNodeId x) s (mNodeStatusMap f),
        mInFlightNodeCount := mInFlightNodeCount f + 1\<rparr>) = Some f'" by simp
    from Cons.IH [OF this] show ?thesis by simp
  qed
qed simp

lemma finishConfiguration_keeps:
  assumes "finishConfiguration f = Some (e, f')"
  shows "mFrameNo f' = mFrameNo f \<and> fr_mListeners f' = fr_mListeners f \<and> mpNodeMap f' = mpNodeMap f \<and> mpPipelineDAG f' = mpPipelineDAG f"
proof (cases "f' = f")
  case False
  with assms obtain xs f1 where 1: "collector_finishConfiguration f = Some f1" and 2: "configure_nodes xs f1 = Some f'"
    unfolding finishConfiguration_def by (auto simp: bind_eq_Some_conv split: option.splits if_splits)
  from 1 have "mFrameNo f1 = mFrameNo f \<and> fr_mListeners f1 = fr_mListeners f \<and> mpNodeMap f1 = mpNodeMap f \<and> mpPipelineDAG f1 = mpPipelineDAG f"
    by (auto simp: collector_finishConfiguration_def bind_eq_Some_conv)
  with configure_nodes_keeps [OF 2] show ?thesis by simp
qed simp

text \<open>The frame that \<open>build_frame\<close> makes, and what registering and releasing it needs to know of it.\<close>

lemma build_frame_done:
  assumes good: "request_good ctx b cfg st" and f0: "f0 = Frame_new requestNo frameNo a h st"
  shows "\<exists>f m d. build_frame ctx b cfg f0 = Some (Some f, fr_store f) \<and> frame_inv {} f \<and> mFrameNo f = frameNo \<and>
    fr_mListeners f = [] \<and> mpNodeMap f = Some m \<and> mpPipelineDAG f = Some d \<and> nodes_known (streams_of (the (request_info ctx b))) m (mToposort d) \<and>
    request_dag cfg (mRootNodes b) (mNodeEdges b) d \<and> frame_nodes f = mNodeId ` {x \<in> snd ` set m. has_streams x}"
proof -
  obtain r where r: "request_info ctx b = Some r" "req_ok r b st" using good by (auto simp: request_good_def split: option.splits)
  obtain p pm where pm: "ctx_mpPipelineNodeMap ctx = Some (p, pm)" "\<not> pnm_isEmpty pm"
    using good by (auto simp: request_good_def split: option.splits)
  have keyed: "keyed (infos_of r k)" for k using r(2) by (cases k; simp add: req_ok_def)
  have dis: "streams_of r k \<inter> streams_of r j = {}" if "k \<noteq> j" for k j
    using r(2) that by (cases k; cases j; auto simp: req_ok_def)
  let ?roots = "mRootNodes b" and ?es = "mNodeEdges b"
  have dagc: "\<forall>n \<in> set (request_nodes ?roots ?es). in_config cfg n" "length ?roots = 1" "acyclic (set ?es)"
    "length (request_nodes ?roots ?es) \<le> 32"
    using good by (simp_all add: request_good_def list_all_iff)
  from constructDAG_done [OF dagc(1,2)] dagc(3) obtain d where
    d: "constructDAG cfg ?roots ?es = Some (Some d)" "request_dag cfg ?roots ?es d" by auto
  let ?ts = "mToposort d"
  have ts: "?ts \<noteq> []" "distinct (map obj_id ?ts)" using d(2) by (simp_all add: request_dag_def)
  have top: "getToposort d = Some (?ts, d)" using ts(1) by (simp add: getToposort_def)
  have ids: "obj_id ` set ?ts = set (request_nodes ?roots ?es)" using d(2) by (simp add: request_dag_def image_image)
  have len: "length ?ts \<le> 32"
  proof -
    have "length ?ts = card (obj_id ` set ?ts)" using distinct_card [OF ts(2)] by simp
    also have "\<dots> \<le> length (request_nodes ?roots ?es)" unfolding ids by (rule card_length)
    finally show ?thesis using dagc(4) by simp
  qed
  define c where "c = snd (update_streaminfo_to_set r StreamInfoSetControl_new)"
  have uc: "update_streaminfo_to_set r StreamInfoSetControl_new = (OK, c)" by (simp add: c_def update_streaminfo_to_set_def)
  from construct_nodes_found [of "mImageNodeIOMaps b" c "mMetaNodeIOMaps b" ?ts "[]"]
    request_info_found [OF keyed c_def] request_info_streams [OF r(1)] obtain m where
    m: "construct_FrameNodeMapControl (mImageNodeIOMaps b) (mMetaNodeIOMaps b) ?ts c [] = Some m" by blast
  have nk: "nodes_known (streams_of r) m ?ts"
  proof -
    have "info_known (streams_of r) c" unfolding c_def by (rule request_info_known [OF keyed])
    from construct_nodes [OF m this] have post: "kv_wf m" "set (kv_keys m) = obj_id ` set ?ts"
      "\<forall>n x. map_of m n = Some x \<longrightarrow> mNodeId x = n \<and> streams_known (streams_of r) x" by simp_all
    have "mNodeId x = n \<and> streams_known (streams_of r) x" if "(n, x) \<in> set m" for n x
    proof -
      have "map_of m n = Some x" using that kv_wf_distinct [OF post(1)] by (simp add: kv_keys_def)
      with post(3) show ?thesis by blast
    qed
    with post(1,2) ts show ?thesis by (auto simp: nodes_known_def list_all_iff)
  qed
  from update_streambuffers_built [OF r(2) f0] obtain f1 where
    f1: "update_streambuffers r b f0 = (OK, f1)" "built (streams_of r) {} f1" "rest_same f0 f1" by blast
  have wf: "frame_wf f1" by (rule built_wf [OF f1(2) dis])
  have users: "\<forall>t \<in> set ?ts. \<exists>x. getNodeFor (obj_id t) m = Some x \<and> streams_set x" using nodes_known_get [OF nk] by blast
  from evaluate_buffer_users_done [OF f1(2) wf top ts(1) len ts(2) users, of "mpNodeConfig ctx"] obtain f2 where
    f2: "evaluate_buffer_users (mpNodeConfig ctx) d m f1 = Some (OK, d, f2)"
      "users_done (mpNodeConfig ctx) m ?ts (getEdges d) UNIV f1 f2" by blast
  have g: "f2 = f1\<lparr>fr_store := fr_store f2\<rparr>" using f2(2) by (simp add: users_done_def)
  have new: "mNodeStatusMap f1 = []" "mInFlightNodeCount f1 = 0" "collected f1 = {}" "mFrameNo f1 = frameNo" "fr_mListeners f1 = []"
    using f1(3) by (simp_all add: rest_same_def f0 Frame_new_def collected_def ReleasedCollector_new_def)
  have l2: "mFrameNo f2 = frameNo" "fr_mListeners f2 = []" by (subst g, simp add: new)+
  let ?h = "f2\<lparr>mpPipelineNodeMap := Some p, mpNodeMap := Some m, mpPipelineDAG := Some d, mpStreamInfoSet := Some 1\<rparr>"
  have ne: "\<not> fnm_isEmpty m" using nk by (auto simp: nodes_known_def fnm_isEmpty_def)
  have "\<exists>f. finishConfiguration ?h = Some (OK, f) \<and> frame_inv {} f \<and> frame_nodes f = mNodeId ` {x \<in> snd ` set m. has_streams x}"
    by (rule configured_ready [OF f1(2) dis nk f2(2) new(1-3)]) (simp_all add: collected_def)
  then obtain f where f: "finishConfiguration ?h = Some (OK, f)" "frame_inv {} f"
    "frame_nodes f = mNodeId ` {x \<in> snd ` set m. has_streams x}" by (elim exE conjE)
  have f0s: "fr_store f0 = st" by (simp add: f0 Frame_new_def)
  obtain r0 where col: "collect_from_stream_config (mpStreamConfig ctx) (getStreamSet (mImageNodeIOMaps b) [])
      (getStreamSet (mMetaNodeIOMaps b) []) = (OK, r0)"
    and repl: "replace_infos (map snd (mReplacingInfos b)) (vHalImageStreamInfo r0) = Some (vHalImageStreamInfo r)"
    and rr: "r0\<lparr>vHalImageStreamInfo := vHalImageStreamInfo r\<rparr> = r"
    using r(1) by (auto simp: request_info_def split: prod.splits if_splits)
  have "setPipelineNodeMap (map_option (\<lambda>(p, pm). (p, pnm_isEmpty pm)) (ctx_mpPipelineNodeMap ctx)) f2 = (OK, f2\<lparr>mpPipelineNodeMap := Some p\<rparr>)"
    using pm by (simp add: setPipelineNodeMap_def)
  then have "build_frame ctx b cfg f0 = Some (Some f, fr_store f)"
    using f(1) ne by (simp add: build_frame_def col repl rr d(1) uc top m f1(1) f2(1) Let_def setNodeMap_def setPipelineDAG_def
      setStreamInfoSet_def)
  moreover have "mFrameNo f = frameNo" "fr_mListeners f = []" "mpNodeMap f = Some m" "mpPipelineDAG f = Some d"
    using finishConfiguration_keeps [OF f(1)] l2 by simp_all
  ultimately show ?thesis using f(2,3) nk d(2) r(1) by auto
qed

section \<open>From the request to the release\<close>

text \<open>The messages of a frame reach the requests in flight; \<open>self\<close> is their address as a listener.\<close>

fun deliver_event :: "nat \<Rightarrow> frame_event \<Rightarrow> InFlightRequest \<Rightarrow> InFlightRequest option" where
  "deliver_event self (NodeMessage p c fn n msg) r = (if p = self then map_option fst (onPipelineFrame_node fn n msg r) else Some r)"
| "deliver_event self (FrameMessage p c fn msg) r = (if p = self then Some (fst (onPipelineFrame fn msg r)) else Some r)"
| "deliver_event self e r = Some r"

fun deliver :: "nat \<Rightarrow> frame_event list \<Rightarrow> InFlightRequest \<Rightarrow> InFlightRequest option" where
  "deliver self [] r = Some r"
| "deliver self (e # es) r = do { r1 \<leftarrow> deliver_event self e r; deliver self es r1 }"

fun removes :: "nat \<Rightarrow> frame_event \<Rightarrow> MUINT32 list \<Rightarrow> MUINT32 list" where
  "removes self (FrameMessage p c fn msg) l = (if p = self \<and> msg = eMSG_FRAME_RELEASED then remove1 fn l else l)"
| "removes self e l = l"

lemma onPipelineFrame_requests:
  "mRequest (fst (onPipelineFrame fn m r)) = (if m = eMSG_FRAME_RELEASED then remove1 fn (mRequest r) else mRequest r)"
  "ifr_wf (fst (onPipelineFrame fn m r)) = ifr_wf r"
  by (auto simp: onPipelineFrame_def ifr_wf_def remove1_idem)

lemma onPipelineFrame_node_requests:
  assumes "ifr_wf r"
  shows "\<exists>r' bc. onPipelineFrame_node fn n m r = Some (r', bc) \<and> ifr_wf r' \<and> mRequest r' = mRequest r"
  using assms by (auto simp: onPipelineFrame_node_def ifr_wf_def)

lemma deliver_done:
  "ifr_wf r \<Longrightarrow> \<exists>r'. deliver self es r = Some r' \<and> ifr_wf r' \<and> mRequest r' = fold (removes self) (filter is_frame_message es) (mRequest r)"
proof (induction es arbitrary: r)
  case (Cons e es)
  have "\<exists>r1. deliver_event self e r = Some r1 \<and> ifr_wf r1 \<and>
      mRequest r1 = (if is_frame_message e then removes self e (mRequest r) else mRequest r)"
  proof (cases e)
    case (NodeMessage p c fn n m)
    obtain r' bc where "onPipelineFrame_node fn n m r = Some (r', bc)" "ifr_wf r'" "mRequest r' = mRequest r"
      using onPipelineFrame_node_requests [OF Cons.prems, of fn n m] by (elim exE conjE)
    then show ?thesis using Cons.prems by (simp add: NodeMessage)
  next
    case (FrameMessage p c fn m)
    then show ?thesis using Cons.prems by (simp add: onPipelineFrame_requests)
  qed (use Cons.prems in simp_all)
  then obtain r1 where r1: "deliver_event self e r = Some r1" "ifr_wf r1"
    "mRequest r1 = (if is_frame_message e then removes self e (mRequest r) else mRequest r)" by (elim exE conjE)
  from Cons.IH [OF r1(2)] obtain r2 where "deliver self es r1 = Some r2" "ifr_wf r2"
    "mRequest r2 = fold (removes self) (filter is_frame_message es) (mRequest r1)" by (elim exE conjE)
  then show ?case using r1 by simp
qed simp

lemma register_nodes_returns:
  "\<forall>n \<in> set ns. \<exists>s. query n = (OK, Some s) \<Longrightarrow> \<exists>r'. register_nodes fn ns query r = Some r'"
proof (induction ns arbitrary: r)
  case (Cons n ns)
  then obtain s where "query n = (OK, Some s)" by auto
  then show ?case using Cons by simp
qed simp

lemma frame_inv_listeners: "frame_inv D (f\<lparr>mpPipelineDAG := d, fr_mListeners := ls\<rparr>) = frame_inv D f"
  "frame_nodes (f\<lparr>mpPipelineDAG := d, fr_mListeners := ls\<rparr>) = frame_nodes f"
proof -
  let ?f = "f\<lparr>mpPipelineDAG := d, fr_mListeners := ls\<rparr>"
  have i: "item_um ?f i = item_um f i" "item_mgr ?f i = item_mgr f i" "item_sid ?f i = item_sid f i" "item_kind ?f i = item_kind f i"
    "item_buf ?f i = item_buf f i" for i
    by (simp_all add: item_um_def item_mgr_def item_ref_def item_sid_def item_kind_def item_buf_def)
  have e: "entry ?f i = entry f i" for i by (simp add: entry_def i)
  have "find_kind ks s ?f = find_kind ks s f" for ks s by (induction ks) simp_all
  then have wf: "frame_wf ?f = frame_wf f" by (simp add: frame_wf_def i)
  have live: "live ?f n = live f n" for n by (rule ext) (simp add: live_def uses_def i e)
  have ready: "node_ready ?f n = node_ready f n" for n
    by (cases "map_of (mNodeStatusMap f) n") (simp_all add: node_ready_def live)
  show n: "frame_nodes ?f = frame_nodes f" by (simp add: frame_nodes_def)
  show "frame_inv D ?f = frame_inv D f"
    unfolding frame_inv_def n wf ready by (simp add: collected_def)
qed

lemma register_frame_done:
  assumes m: "mpNodeMap f = Some m" "nodes_known S m (mToposort d)" and d: "mpPipelineDAG f = Some d"
  shows "\<exists>r'. register_frame self f r = Some (r', f\<lparr>mpPipelineDAG := Some d, fr_mListeners := fr_mListeners f @ [(self, 0)]\<rparr>) \<and>
    mRequest r' = mRequest r @ [mFrameNo f] \<and> (ifr_wf r \<longrightarrow> ifr_wf r')"
proof -
  let ?ns = "map obj_id (mToposort d)"
  have "\<exists>s. frame_query_out f n = (OK, Some s)" if n: "n \<in> set ?ns" for n
  proof -
    obtain t where "t \<in> set (mToposort d)" "n = obj_id t" using n by auto
    with nodes_known_get [OF m(2)] obtain x where "getNodeFor n m = Some x" "streams_set x" by blast
    then show ?thesis using m(1) by (auto simp: frame_query_out_def queryIOStreamInfoSet_def streams_set_def)
  qed
  then have "\<forall>n \<in> set ?ns. \<exists>s. frame_query_out f n = (OK, Some s)" by blast
  from register_nodes_returns [OF this] obtain r' where
    r': "register_nodes (mFrameNo f) ?ns (frame_query_out f) (r\<lparr>mRequest := mRequest r @ [mFrameNo f]\<rparr>) = Some r'" by blast
  then have reg: "registerRequest (mFrameNo f) ?ns (frame_query_out f) r = Some r'" by (simp add: registerRequest_def)
  have "mToposort d \<noteq> []" using m(2) by (simp add: nodes_known_def)
  then have "getToposort d = Some (mToposort d, d)" by (simp add: getToposort_def)
  then have "register_frame self f r = Some (r', f\<lparr>mpPipelineDAG := Some d, fr_mListeners := fr_mListeners f @ [(self, 0)]\<rparr>)"
    by (simp add: register_frame_def d reg attachListener_def)
  moreover have "mRequest r' = mRequest r @ [mFrameNo f]" using register_nodes_mono [OF r', of WaitAll] by simp
  ultimately show ?thesis using ifr_wf_register [OF reg] by blast
qed

text \<open>A request: node 1 makes the image 7 from the metadata 5, node 2 reads the image.\<close>

definition ex_img :: IStreamInfo where "ex_img = \<lparr>si_streamId = 7, si_streamName = ''image''\<rparr>"
definition ex_md :: IStreamInfo where "ex_md = \<lparr>si_streamId = 5, si_streamName = ''control''\<rparr>"

definition ex_ctx :: ContextImpl where
  "ex_ctx = ContextImpl_new\<lparr>
     mpStreamConfig := snd (sc_add_meta \<lparr>mts_pInfo = ex_md, mts_type = 24\<rparr>
       (snd (sc_add_image \<lparr>its_pInfo = ex_img, its_type = eStreamType_IMG_HAL_POOL, its_pPool = Some 70, its_pProvider = None\<rparr>
         StreamConfig_new))),
     ctx_mpPipelineNodeMap := Some (50, snd (pnm_add 2 92 (snd (pnm_add 1 91 []))))\<rparr>"

definition ex_cfg :: PipelineDAG where
  "ex_cfg = snd (addEdge (snd (addNode (snd (addNode dag_create 1 0)) 2 1)) 1 2)"

definition ex_builder :: RequestBuilder where
  "ex_builder = rb_setRootNode [1] (rb_setNodeEdges [(1, 2)]
     (setIOMap 2 [\<lparr>vIn = [7], vOut = []\<rparr>] []
       (setIOMap 1 [\<lparr>vIn = [], vOut = [7]\<rparr>] [\<lparr>vIn = [5], vOut = []\<rparr>] RequestBuilder_new)))"

definition ex_req :: RequestData where
  "ex_req = \<lparr>vAppImageStreamInfo = [], vHalImageStreamInfo = [(7, ex_img)], vAppMetaStreamInfo = [(5, ex_md)], vHalMetaStreamInfo = []\<rparr>"

abbreviation ex_empty :: buffer_store where
  "ex_empty \<equiv> \<lparr>st_managers = [], st_buffers = []\<rparr>"

lemma ex_builder_facts: "mStreamBuffers_Image ex_builder = []" "mStreamBuffers_HalImage ex_builder = []"
  "mStreamBuffers_Meta ex_builder = []" "mStreamBuffers_HalMeta ex_builder = []" "mRootNodes ex_builder = [1]"
  "mNodeEdges ex_builder = [(1, 2)]"
  by code_simp+

lemma ex_request_good: "request_good ex_ctx ex_builder ex_cfg ex_empty"
proof -
  have r: "request_info ex_ctx ex_builder = Some ex_req" by code_simp
  note b = ex_builder_facts
  have nb: "buffer_for [] s = None" for s by (simp add: buffer_for_def)
  have br: "brings ex_empty (sbs_of ex_builder k) K" "given ex_empty (sbs_of ex_builder k) K = {}" for k K
    by (cases k; simp add: brings_def given_def sbs_of_def b nb)+
  have "req_ok ex_req ex_builder ex_empty"
    by (simp add: req_ok_def br b) (simp add: streams_of_def infos_of_def ex_req_def keyed_def ex_img_def ex_md_def kv_wf_def)
  moreover have "ctx_mpPipelineNodeMap ex_ctx = Some (50, snd (pnm_add 2 92 (snd (pnm_add 1 91 []))))"
    by (simp add: ex_ctx_def)
  moreover have "\<not> pnm_isEmpty (snd (pnm_add 2 92 (snd (pnm_add 1 91 []))))" by code_simp
  moreover have "list_all (in_config ex_cfg) (request_nodes [1] [(1, 2)])" "length (request_nodes [1] [(1, 2)]) \<le> 32" by code_simp+
  moreover have "acyclic {(1, 2 :: int)}" by (rule acyclicI_order [where f = uminus]) auto
  ultimately show ?thesis unfolding request_good_def r b by simp
qed

section \<open>Properties\<close>

text \<open>C2: a request that is well formed over the configured streams and nodes gets a frame, and
  the frame is ready: every node with streams is in flight, none of its streams is released,
  and its users are set up on each of them.\<close>

theorem build_frame_ready:
  assumes "request_good ctx b cfg st"
  shows "\<exists>f. build_frame ctx b cfg (Frame_new requestNo frameNo a h st) = Some (Some f, fr_store f) \<and> frame_inv {} f \<and>
    mInFlightNodeCount f = int (card (frame_nodes f)) \<and> frame_nodes f \<subseteq> set (request_nodes (mRootNodes b) (mNodeEdges b))"
proof -
  from build_frame_done [OF assms refl, of requestNo frameNo a h] obtain f and m :: "info_iomap FrameNodeMap" and d where
    f: "build_frame ctx b cfg (Frame_new requestNo frameNo a h st) = Some (Some f, fr_store f)" "frame_inv {} f"
    and m: "nodes_known (streams_of (the (request_info ctx b))) m (mToposort d)" "request_dag cfg (mRootNodes b) (mNodeEdges b) d"
      "frame_nodes f = mNodeId ` {x \<in> snd ` set m. has_streams x}" by blast
  have "mNodeId x \<in> set (kv_keys m)" if "x \<in> snd ` set m" for x
    using m(1) that by (force simp: nodes_known_def list_all_iff kv_keys_def)
  moreover have "set (kv_keys m) = set (request_nodes (mRootNodes b) (mNodeEdges b))"
    using m(1,2) by (simp add: nodes_known_def request_dag_def image_image)
  ultimately have "frame_nodes f \<subseteq> set (request_nodes (mRootNodes b) (mNodeEdges b))" using m(3) by auto
  with f show ?thesis by (auto simp: frame_inv_def)
qed

theorem build_frame_ready_witness:
  "\<exists>f. build_frame ex_ctx ex_builder ex_cfg (Frame_new 20 10 0 0 ex_empty) = Some (Some f, fr_store f) \<and> frame_inv {} f \<and>
    frame_nodes f \<subseteq> {1, 2}"
proof -
  have n: "set (request_nodes (mRootNodes ex_builder) (mNodeEdges ex_builder)) = {1, 2}"
    unfolding set_request_nodes ex_builder_facts by auto
  show ?thesis using build_frame_ready [OF ex_request_good, of 20 10 0 0] unfolding n by (elim exE conjE) (intro exI conjI)
qed

text \<open>C1: such a request goes through its whole life. Its frame is built and registered, is in
  flight then, and once its nodes have released their streams, in any order, the requests in
  flight are what they were before: the release is announced once, to the listener that the
  registration attached.\<close>

theorem request_lifecycle:
  assumes "request_good ctx b cfg st" and "ifr_wf r" and "frameNo \<notin> set (mRequest r)" and "env_listener env self"
    and "\<forall>n. msk n AND RELEASE \<noteq> 0"
  shows "\<exists>f st' r1 f1. build_frame ctx b cfg (Frame_new requestNo frameNo a h st) = Some (Some f, st') \<and>
    register_frame self f r = Some (r1, f1) \<and> wait_drained r1 \<and> frame_nodes f1 = frame_nodes f \<and>
    (\<forall>ns. distinct ns \<and> set ns = frame_nodes f1 \<and> ns \<noteq> [] \<longrightarrow>
      (\<exists>ess f2 r2. finish_nodes env msk ns f1 = Some (ess, f2) \<and> deliver self (concat ess) r1 = Some r2 \<and> mRequest r2 = mRequest r))"
proof -
  from build_frame_done [OF assms(1) refl, of requestNo frameNo a h] obtain f m d where
    f: "build_frame ctx b cfg (Frame_new requestNo frameNo a h st) = Some (Some f, fr_store f)" "frame_inv {} f" "mFrameNo f = frameNo"
      "fr_mListeners f = []" "mpNodeMap f = Some m" "mpPipelineDAG f = Some d"
      "nodes_known (streams_of (the (request_info ctx b))) m (mToposort d)" by blast
  let ?f1 = "f\<lparr>mpPipelineDAG := Some d, fr_mListeners := [(self, 0)]\<rparr>"
  from register_frame_done [OF f(5,7,6), of self r] assms(2) obtain r1 where
    r1: "register_frame self f r = Some (r1, ?f1)" "mRequest r1 = mRequest r @ [frameNo]" "ifr_wf r1"
    by (auto simp: f(3,4))
  have inv: "frame_inv {} ?f1" using f(2) frame_inv_listeners(1) by blast
  have "\<exists>ess f2 r2. finish_nodes env msk ns ?f1 = Some (ess, f2) \<and> deliver self (concat ess) r1 = Some r2 \<and> mRequest r2 = mRequest r"
    if ns: "distinct ns \<and> set ns = frame_nodes ?f1 \<and> ns \<noteq> []" for ns
  proof -
    from finish_nodes_all [OF inv, of ns msk env] ns assms(5) obtain ess f2 where
      e: "finish_nodes env msk ns ?f1 = Some (ess, f2)"
        "map (filter is_frame_message) ess = replicate (length ns - 1) [] @ [frame_messages env ?f1]" by auto
    have "frame_messages env ?f1 = [FrameMessage self 0 frameNo eMSG_FRAME_RELEASED]"
      using assms(4) by (simp add: frame_messages_def f(3))
    with e(2) have "filter is_frame_message (concat ess) = [FrameMessage self 0 frameNo eMSG_FRAME_RELEASED]"
      by (simp add: filter_concat)
    with deliver_done [OF r1(3), of self "concat ess"] obtain r2 where
      "deliver self (concat ess) r1 = Some r2" "mRequest r2 = remove1 frameNo (mRequest r1)" by auto
    moreover have "remove1 frameNo (mRequest r1) = mRequest r" using assms(3) by (simp add: r1(2) remove1_append)
    ultimately show ?thesis using e(1) by auto
  qed
  moreover have "wait_drained r1" by (simp add: wait_drained_def r1(2))
  moreover have "frame_nodes ?f1 = frame_nodes f" by (rule frame_inv_listeners(2))
  ultimately show ?thesis using f(1) r1(1) by blast
qed

lemma ex_frame_nodes:
  "map_option (\<lambda>(f, st). map_option (\<lambda>f. kv_keys (mNodeStatusMap f)) f)
     (build_frame ex_ctx ex_builder ex_cfg (Frame_new 20 10 0 0 ex_empty)) = Some (Some [1, 2])"
  by code_simp

theorem request_lifecycle_witness:
  "\<exists>f st' r1 f1 ess f2 r2. build_frame ex_ctx ex_builder ex_cfg (Frame_new 20 10 0 0 ex_empty) = Some (Some f, st') \<and>
    register_frame 8 f InFlightRequest_new = Some (r1, f1) \<and> wait_drained r1 \<and>
    finish_nodes ex_env (\<lambda>n. RELEASE) [2, 1] f1 = Some (ess, f2) \<and> deliver 8 (concat ess) r1 = Some r2 \<and> \<not> wait_drained r2"
proof -
  have r: "ifr_wf InFlightRequest_new" "10 \<notin> set (mRequest InFlightRequest_new)" "env_listener ex_env 8"
    by (simp_all add: ifr_wf_def InFlightRequest_new_def ex_env_def)
  have msk: "\<forall>n. (\<lambda>n :: int. RELEASE) n AND RELEASE \<noteq> 0" by simp
  from request_lifecycle [OF ex_request_good r msk, of 20 0 0] obtain f st' r1 f1 where
    f: "build_frame ex_ctx ex_builder ex_cfg (Frame_new 20 10 0 0 ex_empty) = Some (Some f, st')"
      "register_frame 8 f InFlightRequest_new = Some (r1, f1)" "wait_drained r1" "frame_nodes f1 = frame_nodes f"
    and all: "\<forall>ns. distinct ns \<and> set ns = frame_nodes f1 \<and> ns \<noteq> [] \<longrightarrow>
      (\<exists>ess f2 r2. finish_nodes ex_env (\<lambda>n. RELEASE) ns f1 = Some (ess, f2) \<and> deliver 8 (concat ess) r1 = Some r2 \<and>
        mRequest r2 = mRequest InFlightRequest_new)" by (elim exE conjE) (rule that)
  have "frame_nodes f = {1, 2}" using ex_frame_nodes by (simp add: f(1) frame_nodes_def)
  then have "distinct [2, 1 :: int] \<and> set [2, 1] = frame_nodes f1 \<and> [2, 1 :: int] \<noteq> []" using f(4) by auto
  from all [rule_format, OF this] obtain ess f2 r2 where
    "finish_nodes ex_env (\<lambda>n. RELEASE) [2, 1] f1 = Some (ess, f2)" "deliver 8 (concat ess) r1 = Some r2"
    "mRequest r2 = mRequest InFlightRequest_new" by (elim exE conjE) (rule that)
  with f(1-3) show ?thesis by (auto simp: wait_drained_def InFlightRequest_new_def)
qed

text \<open>C15: a request gets a graph exactly when all its nodes are configured, it has one root and
  its edges have no cycle; the graph then has these nodes with the values of the configured
  graph, these edges and this root, and an order in which every node is before its successors.\<close>

theorem constructDAG_result:
  "if list_all (in_config cfg) (request_nodes roots es) \<and> length roots = 1 \<and> acyclic (set es)
   then \<exists>d. constructDAG cfg roots es = Some (Some d) \<and> request_dag cfg roots es d
   else constructDAG cfg roots es = Some None"
  using constructDAG_iff [of roots es cfg] by (simp only: list_all_iff)

text \<open>The flag of a replaced stream contains the flag of a changed map of streams. So after a
  request is constructed, the first \<open>setIOMap\<close> of the next request forgets the nodes of the
  previous one, unless a stream was replaced before; then they stay.\<close>

theorem replace_keeps_stale_iomaps:
  "mImageNodeIOMaps (setIOMap n images metas (onRequestConstructed b)) = [(n, images)] \<and>
   mImageNodeIOMaps (setIOMap n images metas (replaceStreamInfo s info (onRequestConstructed b))) =
     kv_add n images (mImageNodeIOMaps b)"
  by (simp add: setIOMap_def replaceStreamInfo_def onRequestConstructed_def getFlag_def setFlag_def Let_def)

text \<open>A frame is registered as in flight before the queue is sure that it can be processed:
  whatever the call returns, a failure included, the frame is in flight afterwards, and waiting
  for the drained pipeline blocks.\<close>

theorem queue_failure_stays_in_flight:
  assumes "ctx_queue self alive answer f ctx = Some (e, calls, f1, ctx1)"
    and "mpInFlightRequest ctx \<noteq> None" and "mpDispatcher ctx \<noteq> None"
  shows "ctx_waitUntilDrained ctx1 \<and> list_ex (\<lambda>fn. fn = mFrameNo f) (mRequest (the (mpInFlightRequest ctx1)))"
proof -
  obtain r where r: "mpInFlightRequest ctx = Some r" using assms(2) by auto
  from assms(1,3) obtain r1 f2 where reg: "register_frame self f r = Some (r1, f2)"
    by (auto simp: ctx_queue_def r bind_eq_Some_conv)
  have ctx1: "mpInFlightRequest ctx1 = Some r1"
    using assms(1,3) by (auto simp: ctx_queue_def r reg Let_def bind_eq_Some_conv split: option.splits if_splits)
  from reg obtain ns where "registerRequest (mFrameNo f) ns (frame_query_out f) r = Some r1"
    by (auto simp: register_frame_def bind_eq_Some_conv)
  then have "register_nodes (mFrameNo f) ns (frame_query_out f) (r\<lparr>mRequest := mRequest r @ [mFrameNo f]\<rparr>) = Some r1"
    by (simp add: registerRequest_def)
  from register_nodes_mono [OF this, of WaitAll] have "mRequest r1 = mRequest r @ [mFrameNo f]" by simp
  then show ?thesis by (simp add: ctx_waitUntilDrained_def ctx1 wait_drained_def)
qed

theorem queue_failure_stays_in_flight_witness:
  "let f = (Frame_new 20 10 0 0 ex_empty :: unit Frame)\<lparr>mpPipelineDAG := Some ex_cfg, mpNodeMap := Some FrameProps.ex_nodes,
         mpPipelineNodeMap := Some 50\<rparr>;
       ctx = ex_ctx\<lparr>mpInFlightRequest := Some InFlightRequest_new, mpDispatcher := Some 60\<rparr>;
       ret = ctx_queue 8 (\<lambda>p. None) (\<lambda>c. OK) f ctx
   in map_option (\<lambda>(e, calls, f1, ctx1). (e, calls)) ret = Some (DEAD_OBJECT, []) \<and>
      map_option (\<lambda>(e, calls, f1, ctx1). ctx_waitUntilDrained ctx1) ret = Some True"
proof -
  let ?f = "(Frame_new 20 10 0 0 ex_empty :: unit Frame)\<lparr>mpPipelineDAG := Some ex_cfg, mpNodeMap := Some FrameProps.ex_nodes,
         mpPipelineNodeMap := Some 50\<rparr>"
  let ?ctx = "ex_ctx\<lparr>mpInFlightRequest := Some InFlightRequest_new, mpDispatcher := Some 60\<rparr>"
  let ?q = "ctx_queue 8 (\<lambda>p. None) (\<lambda>c. OK) ?f ?ctx"
  have e: "map_option (\<lambda>(e, calls, f1, ctx1). (e, calls)) ?q = Some (DEAD_OBJECT, [])" by code_simp
  then obtain f1 ctx1 where q: "?q = Some (DEAD_OBJECT, [], f1, ctx1)" by (auto split: prod.splits)
  from queue_failure_stays_in_flight [OF q] have "ctx_waitUntilDrained ctx1" by simp
  with e q show ?thesis by (simp add: Let_def)
qed

end
