(* ===== verification/LibcText.thy ===== *)
theory LibcText
  imports Prelude
begin

text \<open>
  The functions of the C library that turn numbers into text and back, as the metadata code
  uses them: \<open>snprintf\<close> with \<open>%d\<close> and \<open>%zu\<close>, \<open>atoi\<close>, \<open>atol\<close>, \<open>atoll\<close> on a 64-bit target,
  \<open>memcpy\<close>, and \<open>strstr\<close> for one space. Memory is the list of the accessible bytes; a read
  or a write past its end is \<open>None\<close>. The printing and reading of floating-point numbers is
  a parameter, the record \<open>libc_float\<close>; values of these types are their bit patterns.
\<close>

section \<open>Printing\<close>

definition digit :: "nat \<Rightarrow> char" where
  "digit d = char_of (48 + d)"

fun nat_str :: "nat \<Rightarrow> string" where
  "nat_str n = (if n < 10 then [digit n] else nat_str (n div 10) @ [digit (n mod 10)])"

declare nat_str.simps [simp del]

definition int_str :: "int \<Rightarrow> string" where
  "int_str i = (if i < 0 then CHR ''-'' # nat_str (nat (- i)) else nat_str (nat i))"

abbreviation (input) NUL :: char where "NUL \<equiv> CHR 0x00"
abbreviation (input) SPACE :: char where "SPACE \<equiv> CHR '' ''"

text \<open>Subtraction of \<open>size_t\<close> wraps.\<close>

definition size_sub :: "nat \<Rightarrow> nat \<Rightarrow> nat" where
  "size_sub a b = (if b \<le> a then a - b else 2 ^ 64 - (b - a))"

definition memcpy_to :: "nat \<Rightarrow> string \<Rightarrow> string \<Rightarrow> string option" where
  "memcpy_to p s b =
     (if s = [] then Some b
      else if p + length s \<le> length b then Some (take p b @ s @ drop (p + length s) b) else None)"

text \<open>
  \<open>snprintf (b + p, buf_size - p, s)\<close>, and the pivot moved by its result: the bytes that fit
  are written, with a zero after them; the result is the length of the whole text.
\<close>

definition snprintf :: "nat \<Rightarrow> string \<Rightarrow> string \<times> nat \<Rightarrow> (string \<times> nat) option" where
  "snprintf buf_size s st =
     (case st of (b, p) \<Rightarrow>
        let n = size_sub buf_size p in
        if n = 0 then Some (b, p + length s)
        else map_option (\<lambda>b'. (b', p + length s)) (memcpy_to p (take (n - 1) s @ [NUL]) b))"

section \<open>Reading\<close>

definition is_digit :: "char \<Rightarrow> bool" where
  "is_digit c \<longleftrightarrow> 48 \<le> (of_char c :: nat) \<and> (of_char c :: nat) \<le> 57"

definition is_space :: "char \<Rightarrow> bool" where
  "is_space c \<longleftrightarrow> c = SPACE \<or> (9 \<le> (of_char c :: nat) \<and> (of_char c :: nat) \<le> 13)"

fun read_digits :: "nat \<Rightarrow> string \<Rightarrow> nat option" where
  "read_digits acc [] = None"
| "read_digits acc (c # cs) = (if is_digit c then read_digits (10 * acc + (of_char c - 48)) cs else Some acc)"

fun read_int :: "string \<Rightarrow> int option" where
  "read_int [] = None"
| "read_int (c # cs) =
     (if is_space c then read_int cs
      else if c = CHR ''-'' then map_option (\<lambda>n. - int n) (read_digits 0 cs)
      else if c = CHR ''+'' then map_option int (read_digits 0 cs)
      else map_option int (read_digits 0 (c # cs)))"

text \<open>\<open>strtol\<close> keeps its result in the range of a 64-bit \<open>long\<close>.\<close>

definition strtol :: "string \<Rightarrow> nat \<Rightarrow> int option" where
  "strtol src p = map_option (\<lambda>i. max (- (2 ^ 63)) (min (2 ^ 63 - 1) i)) (read_int (drop p src))"

definition atoi :: "string \<Rightarrow> nat \<Rightarrow> 32 word option" where
  "atoi src p = map_option word_of_int (strtol src p)"

definition atoll :: "string \<Rightarrow> nat \<Rightarrow> 64 word option" where
  "atoll src p = map_option word_of_int (strtol src p)"

text \<open>The distance to the next space; \<open>Some None\<close> is the null pointer at the end of the string.\<close>

fun find_space :: "string \<Rightarrow> nat option option" where
  "find_space [] = None"
| "find_space (c # cs) =
     (if c = SPACE then Some (Some 0)
      else if c = NUL then Some None
      else map_option (map_option Suc) (find_space cs))"

record libc_float =
  fmt_f :: "32 word \<Rightarrow> string"
  fmt_lf :: "64 word \<Rightarrow> string"
  atof_f :: "string \<Rightarrow> 32 word"
  atof_lf :: "string \<Rightarrow> 64 word"

section \<open>Facts\<close>

lemma of_char_digit: "d < 10 \<Longrightarrow> of_char (digit d) = 48 + d"
  by (simp add: digit_def)

lemma is_digit_digit [simp]: "d < 10 \<Longrightarrow> is_digit (digit d)"
  by (simp add: is_digit_def of_char_digit)

lemma nat_str_digits: "\<forall>c \<in> set (nat_str n). is_digit c"
proof (induction n rule: nat_str.induct)
  case (1 n)
  then show ?case by (subst nat_str.simps) auto
qed

lemma nat_str_ne [simp]: "nat_str n \<noteq> []"
  by (subst nat_str.simps) simp

lemma read_digits_append:
  "\<forall>c \<in> set s. is_digit c \<Longrightarrow>
   read_digits acc (s @ t) = read_digits (foldl (\<lambda>a c. 10 * a + (of_char c - 48)) acc s) t"
  by (induction s arbitrary: acc) auto

lemma foldl_nat_str: "foldl (\<lambda>a c. 10 * a + (of_char c - 48)) 0 (nat_str n) = n"
proof (induction n rule: nat_str.induct)
  case (1 n)
  show ?case
  proof (cases "n < 10")
    case True
    then show ?thesis by (subst nat_str.simps) (simp add: of_char_digit)
  next
    case False
    then have "foldl (\<lambda>a c. 10 * a + (of_char c - 48)) 0 (nat_str n) = 10 * (n div 10) + n mod 10"
      using 1 by (subst nat_str.simps) (simp add: of_char_digit)
    then show ?thesis by simp
  qed
qed

lemma read_digits_nat_str: "\<not> is_digit c \<Longrightarrow> read_digits 0 (nat_str n @ c # t) = Some n"
  by (simp add: read_digits_append nat_str_digits foldl_nat_str)

lemma digit_not: "is_digit c \<Longrightarrow> c \<noteq> SPACE \<and> c \<noteq> NUL \<and> c \<noteq> CHR ''-'' \<and> c \<noteq> CHR ''+'' \<and> c \<noteq> CHR '';'' \<and> \<not> is_space c"
  by (auto simp: is_digit_def is_space_def)

lemma read_int_int_str: "read_int (int_str i @ SPACE # t) = Some i"
proof -
  have sp: "\<not> is_digit SPACE" by (simp add: is_digit_def)
  show ?thesis
  proof (cases "i < 0")
    case True
    have "\<not> is_space (CHR ''-'')" by (simp add: is_space_def)
    then show ?thesis using True by (simp add: int_str_def read_digits_nat_str [OF sp])
  next
    case False
    obtain c cs where n: "nat_str (nat i) = c # cs" using nat_str_ne by (metis list.exhaust)
    then have "is_digit c" using nat_str_digits [of "nat i"] by simp
    from digit_not [OF this] have "read_int (int_str i @ SPACE # t) = map_option int (read_digits 0 (nat_str (nat i) @ SPACE # t))"
      using False by (simp add: int_str_def n del: read_digits.simps)
    then show ?thesis using False by (simp add: read_digits_nat_str [OF sp])
  qed
qed

lemma strtol_at:
  assumes "drop p src = int_str i @ SPACE # t" and "- (2 ^ 63) \<le> i" and "i < 2 ^ 63"
  shows "strtol src p = Some i"
  using assms by (simp add: strtol_def read_int_int_str)

lemma sint32_bounds: "- (2 ^ 63) \<le> sint (w :: 32 word)" "sint (w :: 32 word) < 2 ^ 63"
  using sint_ge [of w] sint_lt [of w] by simp_all

lemma sint64_bounds: "- (2 ^ 63) \<le> sint (w :: 64 word)" "sint (w :: 64 word) < 2 ^ 63"
  using sint_ge [of w] sint_lt [of w] by simp_all

lemma atoi_at: "drop p src = int_str (sint w) @ SPACE # t \<Longrightarrow> atoi src p = Some w"
  using strtol_at [OF _ sint32_bounds] by (simp add: atoi_def)

lemma atoll_at: "drop p src = int_str (sint w) @ SPACE # t \<Longrightarrow> atoll src p = Some w"
  using strtol_at [OF _ sint64_bounds] by (simp add: atoll_def)

text \<open>A token: what the reader of metadata can step over.\<close>

definition token :: "string \<Rightarrow> bool" where
  "token s \<longleftrightarrow> s \<noteq> [] \<and> SPACE \<notin> set s \<and> NUL \<notin> set s \<and> hd s \<noteq> CHR '';''"

lemma token_nat_str [simp]: "token (nat_str n)"
proof -
  have "hd (nat_str n) \<in> set (nat_str n)" by simp
  with nat_str_digits [of n] digit_not show ?thesis unfolding token_def by fastforce
qed

lemma token_int_str [simp]: "token (int_str i)"
proof (cases "i < 0")
  case True
  then show ?thesis using token_nat_str [of "nat (- i)"] by (simp add: int_str_def token_def)
qed (simp add: int_str_def)

lemma find_space_token: "SPACE \<notin> set s \<Longrightarrow> NUL \<notin> set s \<Longrightarrow> find_space (s @ SPACE # t) = Some (Some (length s))"
  by (induction s) auto

end
