(* ===== verification/Metadata.thy ===== *)
theory Metadata
  imports Containers LibcText
begin

text \<open>
  The container of camera metadata (\<open>mtkcam/utils/metadata/metadata/Metadata.cpp\<close>): entries
  of typed items under tags, with metadata among the item types, and the text form it is
  written to and read from when a raw image is stored together with its metadata.

  An entry has one vector of items per type and the type of the item pushed last; its other
  vectors are hidden. The vectors of plain items are a list of ten, in the order of their
  types; the vector of metadata items is apart. Bytes of \<open>Memory\<close> items are characters.
  \<open>None\<close> is a fault: an index past the end, an absent key, or an access outside the memory.
\<close>

section \<open>Items and entries\<close>

abbreviation (input) TYPE_UNKNOWN :: int where "TYPE_UNKNOWN \<equiv> - 1"
abbreviation (input) TYPE_MUINT8 :: int where "TYPE_MUINT8 \<equiv> 0"
abbreviation (input) TYPE_MINT32 :: int where "TYPE_MINT32 \<equiv> 1"
abbreviation (input) TYPE_MFLOAT :: int where "TYPE_MFLOAT \<equiv> 2"
abbreviation (input) TYPE_MINT64 :: int where "TYPE_MINT64 \<equiv> 3"
abbreviation (input) TYPE_MDOUBLE :: int where "TYPE_MDOUBLE \<equiv> 4"
abbreviation (input) TYPE_MRational :: int where "TYPE_MRational \<equiv> 5"
abbreviation (input) TYPE_MPoint :: int where "TYPE_MPoint \<equiv> 6"
abbreviation (input) TYPE_MSize :: int where "TYPE_MSize \<equiv> 7"
abbreviation (input) TYPE_MRect :: int where "TYPE_MRect \<equiv> 8"
abbreviation (input) TYPE_IMetadata :: int where "TYPE_IMetadata \<equiv> 9"
abbreviation (input) TYPE_Memory :: int where "TYPE_Memory \<equiv> 10"

type_synonym MINT32 = "32 word"

record MRational =
  mr_numerator :: MINT32
  mr_denominator :: MINT32

record MPoint =
  mp_x :: MINT32
  mp_y :: MINT32

record MSize =
  ms_w :: MINT32
  ms_h :: MINT32

record MRect =
  rc_p :: MPoint
  rc_s :: MSize

datatype MetaItem =
    Item_MUINT8 "8 word" | Item_MINT32 MINT32 | Item_MFLOAT "32 word" | Item_MINT64 "64 word"
  | Item_MDOUBLE "64 word" | Item_MRational MRational | Item_MPoint MPoint | Item_MSize MSize
  | Item_MRect MRect | Item_Memory string

datatype IMetadata = IMetadata "(MUINT32 \<times> IEntry) list"
  and IEntry = IEntry (ent_mTag: MUINT32) (ent_mType: int) (ent_vectors: "MetaItem list list")
      (ent_mStorage_IMetadata: "IMetadata list")

fun type_enum :: "MetaItem \<Rightarrow> int" where
  "type_enum (Item_MUINT8 _) = TYPE_MUINT8"
| "type_enum (Item_MINT32 _) = TYPE_MINT32"
| "type_enum (Item_MFLOAT _) = TYPE_MFLOAT"
| "type_enum (Item_MINT64 _) = TYPE_MINT64"
| "type_enum (Item_MDOUBLE _) = TYPE_MDOUBLE"
| "type_enum (Item_MRational _) = TYPE_MRational"
| "type_enum (Item_MPoint _) = TYPE_MPoint"
| "type_enum (Item_MSize _) = TYPE_MSize"
| "type_enum (Item_MRect _) = TYPE_MRect"
| "type_enum (Item_Memory _) = TYPE_Memory"

text \<open>The types of the plain vectors; every other type selects the vector of metadata.\<close>

definition plain_type :: "int \<Rightarrow> bool" where
  "plain_type type \<longleftrightarrow> (TYPE_MUINT8 \<le> type \<and> type \<le> TYPE_MRect) \<or> type = TYPE_Memory"

definition vec_index :: "int \<Rightarrow> nat" where
  "vec_index type = (if type = TYPE_Memory then 9 else nat type)"

definition vec_of :: "int \<Rightarrow> IEntry \<Rightarrow> MetaItem list" where
  "vec_of type e = ent_vectors e ! vec_index type"

definition edit_vec :: "int \<Rightarrow> (MetaItem list \<Rightarrow> MetaItem list) \<Rightarrow> IEntry \<Rightarrow> IEntry" where
  "edit_vec type g e = IEntry (ent_mTag e) (ent_mType e)
     ((ent_vectors e)[vec_index type := g (vec_of type e)]) (ent_mStorage_IMetadata e)"

definition set_type :: "int \<Rightarrow> IEntry \<Rightarrow> IEntry" where
  "set_type type e = IEntry (ent_mTag e) type (ent_vectors e) (ent_mStorage_IMetadata e)"

definition edit_metas :: "(IMetadata list \<Rightarrow> IMetadata list) \<Rightarrow> IEntry \<Rightarrow> IEntry" where
  "edit_metas g e = IEntry (ent_mTag e) (ent_mType e) (ent_vectors e) (g (ent_mStorage_IMetadata e))"

definition IEntry_new :: "MUINT32 \<Rightarrow> IEntry" where
  "IEntry_new tag = IEntry tag TYPE_UNKNOWN (replicate 10 []) []"

definition push_back :: "MetaItem \<Rightarrow> IEntry \<Rightarrow> IEntry" where
  "push_back it e = set_type (type_enum it) (edit_vec (type_enum it) (\<lambda>v. v @ [it]) e)"

definition push_back_IMetadata :: "IMetadata \<Rightarrow> IEntry \<Rightarrow> IEntry" where
  "push_back_IMetadata m e = set_type TYPE_IMetadata (edit_metas (\<lambda>ms. ms @ [m]) e)"

definition itemAt :: "int \<Rightarrow> nat \<Rightarrow> IEntry \<Rightarrow> MetaItem option" where
  "itemAt type index e = (let v = vec_of type e in if index < length v then Some (v ! index) else None)"

definition itemAt_IMetadata :: "nat \<Rightarrow> IEntry \<Rightarrow> IMetadata option" where
  "itemAt_IMetadata index e =
     (let v = ent_mStorage_IMetadata e in if index < length v then Some (v ! index) else None)"

text \<open>\<open>editItemAt\<close> returns a reference; \<open>x\<close> is what the caller writes to it.\<close>

definition editItemAt :: "nat \<Rightarrow> MetaItem \<Rightarrow> IEntry \<Rightarrow> IEntry option" where
  "editItemAt index x e =
     (if index < length (vec_of (type_enum x) e) then Some (edit_vec (type_enum x) (\<lambda>v. v[index := x]) e) else None)"

definition editItemAt_IMetadata :: "nat \<Rightarrow> IMetadata \<Rightarrow> IEntry \<Rightarrow> IEntry option" where
  "editItemAt_IMetadata index x e =
     (if index < length (ent_mStorage_IMetadata e) then Some (edit_metas (\<lambda>v. v[index := x]) e) else None)"

text \<open>The operations on the vector of the entry's type.\<close>

definition ent_isEmpty :: "IEntry \<Rightarrow> bool" where
  "ent_isEmpty e \<longleftrightarrow> ent_mType e = TYPE_UNKNOWN \<or>
     (if plain_type (ent_mType e) then vec_of (ent_mType e) e = [] else ent_mStorage_IMetadata e = [])"

definition ent_count :: "IEntry \<Rightarrow> MUINT32" where
  "ent_count e =
     (if ent_mType e = TYPE_UNKNOWN then 0
      else if plain_type (ent_mType e) then word_of_nat (length (vec_of (ent_mType e) e))
      else word_of_nat (length (ent_mStorage_IMetadata e)))"

definition ent_clear :: "IEntry \<Rightarrow> IEntry" where
  "ent_clear e =
     (if ent_mType e = TYPE_UNKNOWN then e
      else if plain_type (ent_mType e) then edit_vec (ent_mType e) (\<lambda>_. []) e
      else edit_metas (\<lambda>_. []) e)"

definition drop_nth :: "nat \<Rightarrow> 'a list \<Rightarrow> 'a list" where
  "drop_nth i xs = take i xs @ drop (Suc i) xs"

definition ent_removeAt :: "nat \<Rightarrow> IEntry \<Rightarrow> MERROR \<times> IEntry" where
  "ent_removeAt index e =
     (if ent_mType e = TYPE_UNKNOWN then (BAD_VALUE, e)
      else if plain_type (ent_mType e) then
        (if index < length (vec_of (ent_mType e) e) then (OK, edit_vec (ent_mType e) (drop_nth index) e) else (BAD_VALUE, e))
      else
        (if index < length (ent_mStorage_IMetadata e) then (OK, edit_metas (drop_nth index) e) else (BAD_VALUE, e)))"

text \<open>
  Assignment of implementors copies the tag, the type and the one vector of that type; an
  entry is copied with all its vectors.
\<close>

definition impl_assign :: "IEntry \<Rightarrow> IEntry \<Rightarrow> IEntry" where
  "impl_assign e other =
     (let e1 = IEntry (ent_mTag other) (ent_mType other) (ent_vectors e) (ent_mStorage_IMetadata e) in
      if plain_type (ent_mType other) then edit_vec (ent_mType other) (\<lambda>_. vec_of (ent_mType other) other) e1
      else if ent_mType other = TYPE_IMetadata then edit_metas (\<lambda>_. ent_mStorage_IMetadata other) e1
      else e1)"

section \<open>Metadata\<close>

fun md_mMap :: "IMetadata \<Rightarrow> (MUINT32, IEntry) kvec" where
  "md_mMap (IMetadata es) = es"

definition BAD_TAG :: MUINT32 where "BAD_TAG = - 1"

definition IMetadata_new :: IMetadata where
  "IMetadata_new = IMetadata []"

definition md_isEmpty :: "IMetadata \<Rightarrow> bool" where "md_isEmpty m \<longleftrightarrow> md_mMap m = []"

definition md_count :: "IMetadata \<Rightarrow> nat" where "md_count m = length (md_mMap m)"

definition md_clear :: "IMetadata \<Rightarrow> IMetadata" where "md_clear m = IMetadata []"

definition md_remove :: "MUINT32 \<Rightarrow> IMetadata \<Rightarrow> MERROR \<times> IMetadata" where
  "md_remove tag m =
     (if kv_index (md_mMap m) tag = None then (BAD_VALUE, m) else (OK, IMetadata (kv_remove tag (md_mMap m))))"

definition md_update :: "MUINT32 \<Rightarrow> IEntry \<Rightarrow> IMetadata \<Rightarrow> MERROR \<times> IMetadata" where
  "md_update tag entry m = (OK, IMetadata (kv_add tag entry (md_mMap m)))"

definition entryFor :: "MUINT32 \<Rightarrow> IMetadata \<Rightarrow> IEntry" where
  "entryFor tag m = (case map_of (md_mMap m) tag of None \<Rightarrow> IEntry_new BAD_TAG | Some e \<Rightarrow> e)"

definition editEntryFor :: "MUINT32 \<Rightarrow> (IEntry \<Rightarrow> IEntry) \<Rightarrow> IMetadata \<Rightarrow> IMetadata option" where
  "editEntryFor tag g m =
     (if map_of (md_mMap m) tag = None then None else Some (IMetadata (kv_edit tag g (md_mMap m))))"

definition entryAt :: "nat \<Rightarrow> IMetadata \<Rightarrow> IEntry option" where
  "entryAt index m = (if index < length (md_mMap m) then Some (snd (md_mMap m ! index)) else None)"

definition editEntryAt :: "nat \<Rightarrow> (IEntry \<Rightarrow> IEntry) \<Rightarrow> IMetadata \<Rightarrow> IMetadata option" where
  "editEntryAt index g m =
     (if index < length (md_mMap m)
      then Some (IMetadata ((md_mMap m)[index := (fst (md_mMap m ! index), g (snd (md_mMap m ! index)))])) else None)"

text \<open>The smaller of the two maps is added to the larger one.\<close>

definition add_all :: "(MUINT32, IEntry) kvec \<Rightarrow> (MUINT32, IEntry) kvec \<Rightarrow> (MUINT32, IEntry) kvec" where
  "add_all xs m = fold (\<lambda>(k, e). kv_add k e) xs m"

definition plus_assign :: "IMetadata \<Rightarrow> IMetadata \<Rightarrow> IMetadata" where
  "plus_assign m other =
     (if length (md_mMap other) \<le> length (md_mMap m)
      then IMetadata (add_all (md_mMap other) (md_mMap m))
      else IMetadata (add_all (md_mMap m) (md_mMap other)))"

section \<open>Writing as text\<close>

fun item_tokens :: "libc_float \<Rightarrow> MetaItem \<Rightarrow> string list" where
  "item_tokens lc (Item_MUINT8 x) = [int_str (uint x)]"
| "item_tokens lc (Item_MINT32 x) = [int_str (sint x)]"
| "item_tokens lc (Item_MFLOAT x) = [fmt_f lc x]"
| "item_tokens lc (Item_MINT64 x) = [int_str (sint x)]"
| "item_tokens lc (Item_MDOUBLE x) = [fmt_lf lc x]"
| "item_tokens lc (Item_MRational x) = [int_str (sint (mr_numerator x)), int_str (sint (mr_denominator x))]"
| "item_tokens lc (Item_MPoint x) = [int_str (sint (mp_x x)), int_str (sint (mp_y x))]"
| "item_tokens lc (Item_MSize x) = [int_str (sint (ms_w x)), int_str (sint (ms_h x))]"
| "item_tokens lc (Item_MRect x) = [int_str (sint (mp_x (rc_p x))), int_str (sint (mp_y (rc_p x))),
     int_str (sint (ms_w (rc_s x))), int_str (sint (ms_h (rc_s x)))]"
| "item_tokens lc (Item_Memory x) = []"

fun item_bytes :: "MetaItem \<Rightarrow> string" where
  "item_bytes (Item_Memory x) = x"
| "item_bytes _ = []"

fun print_tokens :: "nat \<Rightarrow> string list \<Rightarrow> string \<times> nat \<Rightarrow> (string \<times> nat) option" where
  "print_tokens buf_size [] st = Some st"
| "print_tokens buf_size (t # ts) st = do { st1 \<leftarrow> snprintf buf_size (t @ [SPACE]) st; print_tokens buf_size ts st1 }"

text \<open>
  \<open>ENTRY_TO_STRING\<close>: the numbers of an item that has several are followed by one more space,
  and the bytes of all \<open>Memory\<close> items together are preceded by their number.
\<close>

definition pair_type :: "int \<Rightarrow> bool" where
  "pair_type type \<longleftrightarrow> type \<in> {TYPE_MRational, TYPE_MRect, TYPE_MSize, TYPE_MPoint}"

definition print_bytes :: "string \<Rightarrow> string \<times> nat \<Rightarrow> (string \<times> nat) option" where
  "print_bytes s st = (case st of (b, p) \<Rightarrow> map_option (\<lambda>b'. (b', p + length s)) (memcpy_to p s b))"

definition entry_to_string ::
    "libc_float \<Rightarrow> nat \<Rightarrow> int \<Rightarrow> MetaItem list \<Rightarrow> string \<times> nat \<Rightarrow> (string \<times> nat) option" where
  "entry_to_string lc buf_size type items st =
     (if type = TYPE_Memory then
        let bytes = concat (map item_bytes items) in do {
          st1 \<leftarrow> snprintf buf_size (nat_str (length bytes) @ [SPACE]) st;
          st2 \<leftarrow> print_bytes bytes st1;
          st3 \<leftarrow> snprintf buf_size [SPACE] st2;
          snprintf buf_size [SPACE] st3
        }
      else if pair_type type then do {
        st1 \<leftarrow> print_tokens buf_size (concat (map (item_tokens lc) items)) st;
        snprintf buf_size [SPACE] st1
      }
      else print_tokens buf_size (concat (map (item_tokens lc) items)) st)"

definition entry_head :: "IEntry \<Rightarrow> string" where
  "entry_head e = int_str (sint (ent_mTag e)) @ [SPACE] @ int_str (ent_mType e) @ [SPACE] @
     int_str (sint (ent_count e)) @ [SPACE]"

fun flatten :: "libc_float \<Rightarrow> nat \<Rightarrow> IMetadata \<Rightarrow> string \<times> nat \<Rightarrow> (string \<times> nat) option"
  and flatten_entries :: "libc_float \<Rightarrow> nat \<Rightarrow> (MUINT32 \<times> IEntry) list \<Rightarrow> string \<times> nat \<Rightarrow> (string \<times> nat) option"
  and flatten_items :: "libc_float \<Rightarrow> nat \<Rightarrow> nat \<Rightarrow> IMetadata list \<Rightarrow> string \<times> nat \<Rightarrow> (string \<times> nat) option"
where
  "flatten lc buf_size (IMetadata es) st = flatten_entries lc buf_size es st"
| "flatten_entries lc buf_size [] st = Some st"
| "flatten_entries lc buf_size ((k, IEntry tag type vs ms) # es) st = do {
     let e = IEntry tag type vs ms;
     st1 \<leftarrow> snprintf buf_size (entry_head e) st;
     st2 \<leftarrow> (if type = TYPE_IMetadata then flatten_items lc buf_size (unat (ent_count e)) ms st1
             else if plain_type type then entry_to_string lc buf_size type (take (unat (ent_count e)) (vec_of type e)) st1
             else Some st1);
     flatten_entries lc buf_size es st2
   }"
| "flatten_items lc buf_size n [] st = Some st"
| "flatten_items lc buf_size n (m # ms) st =
     (if n = 0 then Some st
      else do {
        st1 \<leftarrow> flatten lc buf_size m st;
        st2 \<leftarrow> snprintf buf_size [CHR '';'', SPACE] st1;
        flatten_items lc buf_size (n - 1) ms st2
      })"

section \<open>Reading the text\<close>

text \<open>\<open>metadata_extractor\<close>: positions in the source; a move after a missing space is a move by zero.\<close>

definition deref :: "string \<Rightarrow> nat \<Rightarrow> char option" where
  "deref src p = (if p < length src then Some (src ! p) else None)"

definition getNextSpace :: "string \<Rightarrow> nat \<Rightarrow> nat option option" where
  "getNextSpace src p = map_option (map_option Suc) (find_space (drop (p + 1) src))"

definition move_past :: "string \<Rightarrow> nat \<Rightarrow> nat option" where
  "move_past src p = do {
     move \<leftarrow> getNextSpace src p;
     Some (case move of None \<Rightarrow> p | Some d \<Rightarrow> p + (d + 1))
   }"

fun count_spaces :: "string \<Rightarrow> nat option" where
  "count_spaces [] = None"
| "count_spaces (c # cs) = (if c = SPACE then map_option Suc (count_spaces cs) else Some 0)"

definition skip_spaces :: "string \<Rightarrow> nat \<Rightarrow> nat option" where
  "skip_spaces src p = map_option ((+) p) (count_spaces (drop p src))"

definition getStringAndMovePivot :: "string \<Rightarrow> nat \<Rightarrow> (nat \<times> nat) option" where
  "getStringAndMovePivot src p = do { p1 \<leftarrow> skip_spaces src p; p2 \<leftarrow> move_past src p1; Some (p1, p2) }"

definition getSemicolon :: "string \<Rightarrow> nat \<Rightarrow> char option" where
  "getSemicolon src p = deref src (p + 1)"

definition getInfo :: "string \<Rightarrow> nat \<Rightarrow> (MUINT32 \<times> int \<times> int \<times> nat) option" where
  "getInfo src p = do {
     p1 \<leftarrow> skip_spaces src p;
     tag \<leftarrow> atoi src p1;
     p2 \<leftarrow> move_past src p1;
     type \<leftarrow> atoi src p2;
     p3 \<leftarrow> move_past src p2;
     count \<leftarrow> atoi src p3;
     p4 \<leftarrow> move_past src p3;
     Some (tag, sint type, sint count, p4)
   }"

definition get_int :: "string \<Rightarrow> nat \<Rightarrow> (MINT32 \<times> nat) option" where
  "get_int src p = do { (s, p1) \<leftarrow> getStringAndMovePivot src p; x \<leftarrow> atoi src s; Some (x, p1) }"

text \<open>
  One item of a type. The two coordinates of the point and of the size of an \<open>MRect\<close> are
  read by two arguments of one constructor call, whose order the language leaves open: \<open>ltr\<close>
  says whether they are evaluated from left to right.
\<close>

definition get_ints2 :: "string \<Rightarrow> nat \<Rightarrow> (MINT32 \<times> MINT32 \<times> nat) option" where
  "get_ints2 src p = do { (x, p1) \<leftarrow> get_int src p; (y, p2) \<leftarrow> get_int src p1; Some (x, y, p2) }"

definition get_args2 :: "bool \<Rightarrow> string \<Rightarrow> nat \<Rightarrow> (MINT32 \<times> MINT32 \<times> nat) option" where
  "get_args2 ltr src p = do { (x, y, p2) \<leftarrow> get_ints2 src p; Some (if ltr then (x, y, p2) else (y, x, p2)) }"

definition read_item :: "libc_float \<Rightarrow> bool \<Rightarrow> int \<Rightarrow> string \<Rightarrow> nat \<Rightarrow> (MetaItem \<times> nat) option" where
  "read_item lc ltr type src p =
     (if type = TYPE_MUINT8 then do { (x, p1) \<leftarrow> get_int src p; Some (Item_MUINT8 (ucast x), p1) }
      else if type = TYPE_MINT32 then do { (s, p1) \<leftarrow> getStringAndMovePivot src p; x \<leftarrow> strtol src s; Some (Item_MINT32 (word_of_int x), p1) }
      else if type = TYPE_MFLOAT then do { (s, p1) \<leftarrow> getStringAndMovePivot src p; Some (Item_MFLOAT (atof_f lc (drop s src)), p1) }
      else if type = TYPE_MDOUBLE then do { (s, p1) \<leftarrow> getStringAndMovePivot src p; Some (Item_MDOUBLE (atof_lf lc (drop s src)), p1) }
      else if type = TYPE_MINT64 then do { (s, p1) \<leftarrow> getStringAndMovePivot src p; x \<leftarrow> atoll src s; Some (Item_MINT64 x, p1) }
      else if type = TYPE_MRational then do { (x, y, p2) \<leftarrow> get_ints2 src p; Some (Item_MRational \<lparr>mr_numerator = x, mr_denominator = y\<rparr>, p2) }
      else if type = TYPE_MSize then do { (x, y, p2) \<leftarrow> get_ints2 src p; Some (Item_MSize \<lparr>ms_w = x, ms_h = y\<rparr>, p2) }
      else if type = TYPE_MPoint then do { (x, y, p2) \<leftarrow> get_ints2 src p; Some (Item_MPoint \<lparr>mp_x = x, mp_y = y\<rparr>, p2) }
      else if type = TYPE_MRect then do {
        (x, y, p2) \<leftarrow> get_args2 ltr src p;
        (w, h, p4) \<leftarrow> get_args2 ltr src p2;
        Some (Item_MRect \<lparr>rc_p = \<lparr>mp_x = x, mp_y = y\<rparr>, rc_s = \<lparr>ms_w = w, ms_h = h\<rparr>\<rparr>, p4)
      }
      else do {
        (vec_count, p1) \<leftarrow> get_int src p;
        if sint vec_count < 0 \<or> length src < p1 + nat (sint vec_count) then None
        else Some (Item_Memory (take (nat (sint vec_count)) (drop p1 src)), p1 + (nat (sint vec_count) + 1))
      })"

text \<open>\<open>STRING_TO_ENTRY\<close>: \<open>count\<close> items; nothing for a type without items.\<close>

fun read_items :: "libc_float \<Rightarrow> bool \<Rightarrow> nat \<Rightarrow> int \<Rightarrow> string \<Rightarrow> IEntry \<times> nat \<Rightarrow> (IEntry \<times> nat) option" where
  "read_items lc ltr 0 type src (e, p) = Some (e, p)"
| "read_items lc ltr (Suc n) type src (e, p) =
     do { (it, p1) \<leftarrow> read_item lc ltr type src p; read_items lc ltr n type src (push_back it e, p1) }"

definition string_to_entry :: "libc_float \<Rightarrow> bool \<Rightarrow> int \<Rightarrow> int \<Rightarrow> string \<Rightarrow> IEntry \<times> nat \<Rightarrow> (IEntry \<times> nat) option" where
  "string_to_entry lc ltr type count src ep =
     (if plain_type type then read_items lc ltr (nat count) type src ep else Some ep)"

text \<open>The loop of \<open>unflatten\<close> and the loop over metadata items; the first argument is fuel.\<close>

fun unflatten_loop ::
      "nat \<Rightarrow> libc_float \<Rightarrow> bool \<Rightarrow> string \<Rightarrow> nat \<Rightarrow> nat \<Rightarrow> (MUINT32, IEntry) kvec \<Rightarrow> ((MUINT32, IEntry) kvec \<times> nat) option"
  and unflatten_items :: "nat \<Rightarrow> libc_float \<Rightarrow> bool \<Rightarrow> string \<Rightarrow> nat \<Rightarrow> nat \<Rightarrow> IEntry \<times> nat \<Rightarrow> (IEntry \<times> nat) option"
where
  "unflatten_loop 0 lc ltr src buf_size p m = None"
| "unflatten_loop (Suc n) lc ltr src buf_size p m =
     (if p < buf_size then do {
        (tag, type, count, p1) \<leftarrow> getInfo src p;
        if type = TYPE_IMetadata then do {
          (e, p2) \<leftarrow> unflatten_items n lc ltr src buf_size (nat count) (IEntry_new tag, p1);
          unflatten_loop n lc ltr src buf_size p2 (kv_add tag e m)
        } else do {
          (e, p2) \<leftarrow> string_to_entry lc ltr type count src (IEntry_new tag, p1);
          c \<leftarrow> getSemicolon src p2;
          if c = CHR '';'' then Some (kv_add tag e m, p2 + 3)
          else unflatten_loop n lc ltr src buf_size p2 (kv_add tag e m)
        }
      } else Some (m, p))"
| "unflatten_items 0 lc ltr src buf_size j ep = None"
| "unflatten_items (Suc n) lc ltr src buf_size j ep =
     (if j = 0 then Some ep
      else do {
        let (e, p) = ep;
        (es, p1) \<leftarrow> unflatten_loop n lc ltr src buf_size p [];
        unflatten_items n lc ltr src buf_size (j - 1) (push_back_IMetadata (IMetadata es) e, p1)
      })"

definition unflatten :: "nat \<Rightarrow> libc_float \<Rightarrow> bool \<Rightarrow> string \<Rightarrow> nat \<Rightarrow> nat \<Rightarrow> IMetadata \<Rightarrow> (IMetadata \<times> nat) option" where
  "unflatten fuel lc ltr src buf_size pivot m = do {
     (es, p) \<leftarrow> unflatten_loop fuel lc ltr src buf_size pivot (md_mMap m);
     Some (IMetadata es, p)
   }"

end
