(* ===== verification/MetadataText.thy ===== *)
theory MetadataText
  imports Metadata
begin

text \<open>
  The text form of metadata. \<open>meta_text\<close> is the text as one function of the metadata;
  \<open>flatten\<close> writes it and \<open>unflatten\<close> reads it back, for the metadata described by \<open>meta_ok\<close>.
\<close>

section \<open>The text\<close>

definition tokens_text :: "string list \<Rightarrow> string" where
  "tokens_text ts = concat (map (\<lambda>t. t @ [SPACE]) ts)"

definition items_text :: "libc_float \<Rightarrow> int \<Rightarrow> MetaItem list \<Rightarrow> string" where
  "items_text lc type items =
     (if type = TYPE_Memory then
        nat_str (length (concat (map item_bytes items))) @ [SPACE] @ concat (map item_bytes items) @ [SPACE, SPACE]
      else tokens_text (concat (map (item_tokens lc) items)) @ (if pair_type type then [SPACE] else []))"

fun meta_text :: "libc_float \<Rightarrow> IMetadata \<Rightarrow> string"
  and entries_text :: "libc_float \<Rightarrow> (MUINT32 \<times> IEntry) list \<Rightarrow> string"
  and metas_text :: "libc_float \<Rightarrow> nat \<Rightarrow> IMetadata list \<Rightarrow> string"
where
  "meta_text lc (IMetadata es) = entries_text lc es"
| "entries_text lc [] = []"
| "entries_text lc ((k, IEntry tag type vs ms) # es) =
     entry_head (IEntry tag type vs ms) @
     (if type = TYPE_IMetadata then metas_text lc (unat (ent_count (IEntry tag type vs ms))) ms
      else if plain_type type
      then items_text lc type (take (unat (ent_count (IEntry tag type vs ms))) (vec_of type (IEntry tag type vs ms)))
      else []) @ entries_text lc es"
| "metas_text lc n [] = []"
| "metas_text lc n (m # ms) = (if n = 0 then [] else meta_text lc m @ [CHR '';'', SPACE] @ metas_text lc (n - 1) ms)"

section \<open>Writing\<close>

text \<open>A state of the writer in which the text has been written so far, and the rest is as before.\<close>

definition written :: "string \<Rightarrow> nat \<Rightarrow> string \<Rightarrow> string \<times> nat \<Rightarrow> bool" where
  "written b0 p0 t st \<longleftrightarrow> length (fst st) = length b0 \<and> snd st = p0 + length t \<and>
     take (snd st) (fst st) = take p0 b0 @ t \<and> drop (snd st + 1) (fst st) = drop (snd st + 1) b0"

lemma written_0: "p0 \<le> length b0 \<Longrightarrow> written b0 p0 [] (b0, p0)"
  by (simp add: written_def)

lemma memcpy_to_Some:
  assumes "p + length s \<le> length b"
  shows "\<exists>b'. memcpy_to p s b = Some b' \<and> length b' = length b \<and> take (p + length s) b' = take p b @ s \<and>
     drop (p + length s) b' = drop (p + length s) b"
  using assms by (cases "s = []") (auto simp: memcpy_to_def)

lemma snprintf_written:
  assumes w: "written b0 p0 t st" and room: "p0 + length t + length s < buf_size" and "buf_size \<le> length b0"
  shows "\<exists>st'. snprintf buf_size s st = Some st' \<and> written b0 p0 (t @ s) st'"
proof -
  obtain b p where st: "st = (b, p)" by (cases st)
  have len: "length b = length b0" and p: "p = p0 + length t" and tk: "take p b = take p0 b0 @ t"
    and dr: "drop (p + 1) b = drop (p + 1) b0"
    using w by (auto simp: st written_def)
  have n: "size_sub buf_size p = buf_size - p" "buf_size - p \<noteq> 0" "take (buf_size - p - 1) s = s"
    using room p by (simp_all add: size_sub_def)
  obtain b' where b': "memcpy_to p (s @ [NUL]) b = Some b'" "length b' = length b"
     "take (p + length (s @ [NUL])) b' = take p b @ s @ [NUL]"
     "drop (p + length (s @ [NUL])) b' = drop (p + length (s @ [NUL])) b"
    using memcpy_to_Some [of p "s @ [NUL]" b] room p len assms(3) by auto
  have "take (p + length s) b' = take (p + length s) (take (p + length (s @ [NUL])) b')" by simp
  also have "\<dots> = take p b @ s" unfolding b' using tk p room len assms(3) by simp
  finally have t1: "take (p + length s) b' = take p b @ s" .
  have "drop (p + length s + 1) b' = drop (length s) (drop (p + 1) b)"
    using b'(4) by (simp add: add.commute add.left_commute)
  also have "\<dots> = drop (p + length s + 1) b0" unfolding dr by (simp add: add.commute add.left_commute)
  finally have "written b0 p0 (t @ s) (b', p + length s)"
    using b'(2) len p t1 tk by (simp add: written_def add.assoc)
  then show ?thesis using b'(1) n by (simp add: st snprintf_def Let_def)
qed

lemma print_bytes_written:
  assumes w: "written b0 p0 t st" and room: "p0 + length t + length s < buf_size" and "buf_size \<le> length b0"
  shows "\<exists>st'. print_bytes s st = Some st' \<and> written b0 p0 (t @ s) st'"
proof -
  obtain b p where st: "st = (b, p)" by (cases st)
  have len: "length b = length b0" and p: "p = p0 + length t" and tk: "take p b = take p0 b0 @ t"
    and dr: "drop (p + 1) b = drop (p + 1) b0"
    using w by (auto simp: st written_def)
  obtain b' where b': "memcpy_to p s b = Some b'" "length b' = length b" "take (p + length s) b' = take p b @ s"
     "drop (p + length s) b' = drop (p + length s) b"
    using memcpy_to_Some [of p s b] room p len assms(3) by auto
  have "drop (p + length s + 1) b' = drop 1 (drop (p + length s) b')" by (simp add: add.commute)
  also have "\<dots> = drop (length s) (drop (p + 1) b)" unfolding b' by (simp add: add.commute add.left_commute)
  also have "\<dots> = drop (p + length s + 1) b0" unfolding dr by (simp add: add.commute add.left_commute)
  finally have "written b0 p0 (t @ s) (b', p + length s)"
    using b' len p tk by (simp add: written_def add.assoc)
  then show ?thesis using b'(1) by (simp add: st print_bytes_def)
qed

lemma print_tokens_written:
  "written b0 p0 t st \<Longrightarrow> p0 + length t + length (tokens_text ts) < buf_size \<Longrightarrow> buf_size \<le> length b0 \<Longrightarrow>
   \<exists>st'. print_tokens buf_size ts st = Some st' \<and> written b0 p0 (t @ tokens_text ts) st'"
proof (induction ts arbitrary: t st)
  case (Cons a ts)
  have "p0 + length t + length (a @ [SPACE]) < buf_size" using Cons.prems(2) by (simp add: tokens_text_def)
  from snprintf_written [OF Cons.prems(1) this Cons.prems(3)]
  obtain st1 where st1: "snprintf buf_size (a @ [SPACE]) st = Some st1" "written b0 p0 (t @ a @ [SPACE]) st1" by blast
  have "p0 + length (t @ a @ [SPACE]) + length (tokens_text ts) < buf_size"
    using Cons.prems(2) by (simp add: tokens_text_def)
  from Cons.IH [OF st1(2) this Cons.prems(3)] st1(1) show ?case by (simp add: tokens_text_def)
qed (simp add: tokens_text_def)

lemma entry_to_string_written:
  assumes w: "written b0 p0 t st" and room: "p0 + length t + length (items_text lc type items) < buf_size"
    and b0: "buf_size \<le> length b0"
  shows "\<exists>st'. entry_to_string lc buf_size type items st = Some st' \<and> written b0 p0 (t @ items_text lc type items) st'"
proof (cases "type = TYPE_Memory")
  case True
  let ?bs = "concat (map item_bytes items)"
  let ?h = "nat_str (length ?bs) @ [SPACE]"
  have it: "items_text lc type items = ?h @ ?bs @ [SPACE] @ [SPACE]" using True by (simp add: items_text_def)
  from room it have r: "p0 + length t + length ?h < buf_size" "p0 + length (t @ ?h) + length ?bs < buf_size"
     "p0 + length ((t @ ?h) @ ?bs) + length [SPACE] < buf_size"
     "p0 + length (((t @ ?h) @ ?bs) @ [SPACE]) + length [SPACE] < buf_size" by simp_all
  obtain st1 where 1: "snprintf buf_size ?h st = Some st1" "written b0 p0 (t @ ?h) st1"
    using snprintf_written [OF w r(1) b0] by blast
  obtain st2 where 2: "print_bytes ?bs st1 = Some st2" "written b0 p0 ((t @ ?h) @ ?bs) st2"
    using print_bytes_written [OF 1(2) r(2) b0] by blast
  obtain st3 where 3: "snprintf buf_size [SPACE] st2 = Some st3" "written b0 p0 (((t @ ?h) @ ?bs) @ [SPACE]) st3"
    using snprintf_written [OF 2(2) r(3) b0] by blast
  obtain st4 where 4: "snprintf buf_size [SPACE] st3 = Some st4" "written b0 p0 ((((t @ ?h) @ ?bs) @ [SPACE]) @ [SPACE]) st4"
    using snprintf_written [OF 3(2) r(4) b0] by blast
  show ?thesis unfolding it using 1(1) 2(1) 3(1) 4 True by (simp add: entry_to_string_def)
next
  case False
  let ?ts = "concat (map (item_tokens lc) items)"
  have r: "p0 + length t + length (tokens_text ?ts) < buf_size" using room False by (simp add: items_text_def)
  obtain st1 where 1: "print_tokens buf_size ?ts st = Some st1" "written b0 p0 (t @ tokens_text ?ts) st1"
    using print_tokens_written [OF w r b0] by blast
  show ?thesis
  proof (cases "pair_type type")
    case True
    have "p0 + length (t @ tokens_text ?ts) + length [SPACE] < buf_size"
      using room False True by (simp add: items_text_def)
    from snprintf_written [OF 1(2) this b0] 1(1) False True show ?thesis
      by (simp add: entry_to_string_def items_text_def)
  next
    case npair: False
    then show ?thesis using 1 False by (simp add: entry_to_string_def items_text_def)
  qed
qed

lemma flatten_written:
  "written b0 p0 t st \<Longrightarrow> p0 + length t + length (meta_text lc m) < buf_size \<Longrightarrow> buf_size \<le> length b0 \<Longrightarrow>
   \<exists>st'. flatten lc buf_size m st = Some st' \<and> written b0 p0 (t @ meta_text lc m) st'"
  "written b0 p0 t st \<Longrightarrow> p0 + length t + length (entries_text lc es) < buf_size \<Longrightarrow> buf_size \<le> length b0 \<Longrightarrow>
   \<exists>st'. flatten_entries lc buf_size es st = Some st' \<and> written b0 p0 (t @ entries_text lc es) st'"
  "written b0 p0 t st \<Longrightarrow> p0 + length t + length (metas_text lc n ms) < buf_size \<Longrightarrow> buf_size \<le> length b0 \<Longrightarrow>
   \<exists>st'. flatten_items lc buf_size n ms st = Some st' \<and> written b0 p0 (t @ metas_text lc n ms) st'"
proof (induction lc m and lc es and lc n ms arbitrary: t st and t st and t st
    rule: meta_text_entries_text_metas_text.induct)
  case (3 lc k tag type vs ms es)
  let ?e = "IEntry tag type vs ms"
  let ?n = "unat (ent_count ?e)"
  define body where "body = (if type = TYPE_IMetadata then metas_text lc ?n ms
      else if plain_type type then items_text lc type (take ?n (vec_of type ?e)) else [])"
  have et: "entries_text lc ((k, ?e) # es) = entry_head ?e @ body @ entries_text lc es" by (simp add: body_def)
  have r: "p0 + length t + length (entry_head ?e) < buf_size" "p0 + length (t @ entry_head ?e) + length body < buf_size"
     "p0 + length ((t @ entry_head ?e) @ body) + length (entries_text lc es) < buf_size"
    using 3(4) unfolding et by simp_all
  obtain st1 where 1: "snprintf buf_size (entry_head ?e) st = Some st1" "written b0 p0 (t @ entry_head ?e) st1"
    using snprintf_written [OF 3(3) r(1) 3(5)] by blast
  define run where "run = (if type = TYPE_IMetadata then flatten_items lc buf_size ?n ms st1
     else if plain_type type then entry_to_string lc buf_size type (take ?n (vec_of type ?e)) st1 else Some st1)"
  have "\<exists>st2. run = Some st2 \<and> written b0 p0 ((t @ entry_head ?e) @ body) st2"
  proof (cases "type = TYPE_IMetadata")
    case True
    then show ?thesis using 3(1) [OF True 1(2)] r(2) 3(5) by (simp add: run_def body_def)
  next
    case False
    show ?thesis
    proof (cases "plain_type type")
      case True
      then have "body = items_text lc type (take ?n (vec_of type ?e))" "run = entry_to_string lc buf_size type (take ?n (vec_of type ?e)) st1"
        using False by (simp_all add: run_def body_def)
      with entry_to_string_written [OF 1(2) _ 3(5), of lc type "take ?n (vec_of type ?e)"] r(2) show ?thesis by simp
    next
      case npl: False
      with False have "body = []" "run = Some st1" by (simp_all add: run_def body_def)
      with 1(2) show ?thesis by (metis append_Nil2)
    qed
  qed
  then obtain st2 where 2: "run = Some st2" "written b0 p0 ((t @ entry_head ?e) @ body) st2" by blast
  have "flatten_entries lc buf_size ((k, ?e) # es) st = flatten_entries lc buf_size es st2"
    using 1(1) 2(1) by (simp add: run_def Let_def)
  with 3(2) [OF 2(2) r(3) 3(5)] show ?case unfolding et by simp
next
  case (5 lc n m ms)
  show ?case
  proof (cases "n = 0")
    case True
    then show ?thesis using 5(3) by simp
  next
    case False
    have r: "p0 + length t + length (meta_text lc m) < buf_size" "p0 + length (t @ meta_text lc m) + length [CHR '';'', SPACE] < buf_size"
      "p0 + length ((t @ meta_text lc m) @ [CHR '';'', SPACE]) + length (metas_text lc (n - 1) ms) < buf_size"
      using 5(4) False by simp_all
    obtain st1 where 1: "flatten lc buf_size m st = Some st1" "written b0 p0 (t @ meta_text lc m) st1"
      using 5(1) [OF False 5(3) r(1) 5(5)] by blast
    obtain st2 where 2: "snprintf buf_size [CHR '';'', SPACE] st1 = Some st2" "written b0 p0 ((t @ meta_text lc m) @ [CHR '';'', SPACE]) st2"
      using snprintf_written [OF 1(2) r(2) 5(5)] by blast
    from 5(2) [OF False 2(2) r(3) 5(5)] 1(1) 2(1) False show ?thesis by simp
  qed
qed simp_all

section \<open>A buffer that is too small\<close>

lemma memcpy_to_length: "memcpy_to p s b = Some b' \<Longrightarrow> length b' = length b"
  by (auto simp: memcpy_to_def split: if_splits)

lemma snprintf_pivot: "snprintf buf_size s (b, p) = Some (b', p') \<Longrightarrow> p' = p + length s \<and> length b' = length b"
  by (auto simp: snprintf_def Let_def memcpy_to_length split: if_splits)

lemma print_bytes_pivot: "print_bytes s (b, p) = Some (b', p') \<Longrightarrow> p' = p + length s \<and> length b' = length b"
  by (auto simp: print_bytes_def memcpy_to_length)

lemma print_tokens_pivot:
  "print_tokens buf_size ts (b, p) = Some (b', p') \<Longrightarrow> p' = p + length (tokens_text ts) \<and> length b' = length b"
proof (induction ts arbitrary: b p)
  case (Cons t ts)
  then obtain b1 p1 where "snprintf buf_size (t @ [SPACE]) (b, p) = Some (b1, p1)" "print_tokens buf_size ts (b1, p1) = Some (b', p')"
    by auto
  with snprintf_pivot Cons.IH show ?case by (fastforce simp: tokens_text_def)
qed (simp add: tokens_text_def)

lemma entry_to_string_pivot:
  "entry_to_string lc buf_size type items (b, p) = Some (b', p') \<Longrightarrow>
   p' = p + length (items_text lc type items) \<and> length b' = length b"
  by (auto simp: entry_to_string_def items_text_def Let_def split: if_splits
      dest!: snprintf_pivot print_bytes_pivot print_tokens_pivot)

lemma flatten_pivot:
  "flatten lc buf_size m (b, p) = Some (b', p') \<Longrightarrow> p' = p + length (meta_text lc m) \<and> length b' = length b"
  "flatten_entries lc buf_size es (b, p) = Some (b', p') \<Longrightarrow> p' = p + length (entries_text lc es) \<and> length b' = length b"
  "flatten_items lc buf_size n ms (b, p) = Some (b', p') \<Longrightarrow> p' = p + length (metas_text lc n ms) \<and> length b' = length b"
proof (induction lc m and lc es and lc n ms arbitrary: b p b' p' and b p b' p' and b p b' p' rule: meta_text_entries_text_metas_text.induct)
  case (3 lc k tag type vs ms es)
  let ?e = "IEntry tag type vs ms"
  let ?n = "unat (ent_count ?e)"
  define run where "run st1 = (if type = TYPE_IMetadata then flatten_items lc buf_size ?n ms st1
     else if plain_type type then entry_to_string lc buf_size type (take ?n (vec_of type ?e)) st1 else Some st1)" for st1
  obtain b1 p1 b2 p2 where st: "snprintf buf_size (entry_head ?e) (b, p) = Some (b1, p1)" "run (b1, p1) = Some (b2, p2)"
    "flatten_entries lc buf_size es (b2, p2) = Some (b', p')"
    using 3(3) by (auto simp: run_def Let_def)
  have "p2 = p1 + length (if type = TYPE_IMetadata then metas_text lc ?n ms
      else if plain_type type then items_text lc type (take ?n (vec_of type ?e)) else []) \<and> length b2 = length b1"
  proof (cases "type = TYPE_IMetadata")
    case True
    with 3(1) [OF True] st(2) show ?thesis by (simp add: run_def)
  next
    case False
    with st(2) show ?thesis by (auto simp: run_def entry_to_string_pivot split: if_splits)
  qed
  with snprintf_pivot [OF st(1)] 3(2) [OF st(3)] show ?case by simp
next
  case (5 lc n m ms)
  show ?case
  proof (cases "n = 0")
    case False
    then obtain b1 p1 b2 p2 where "flatten lc buf_size m (b, p) = Some (b1, p1)"
      "snprintf buf_size [CHR '';'', SPACE] (b1, p1) = Some (b2, p2)" "flatten_items lc buf_size (n - 1) ms (b2, p2) = Some (b', p')"
      using 5(3) by (auto simp: Let_def)
    with 5(1) [OF False] 5(2) [OF False] snprintf_pivot False show ?thesis by fastforce
  qed (use 5(3) in simp)
qed simp_all

lemma flatten_entries_append:
  "flatten_entries lc buf_size (es @ fs) st = Option.bind (flatten_entries lc buf_size es st) (flatten_entries lc buf_size fs)"
proof (induction es arbitrary: st)
  case (Cons x es)
  obtain k tag type vs ms where x: "x = (k, IEntry tag type vs ms)" by (metis IEntry.exhaust surj_pair)
  show ?case unfolding x append_Cons flatten_entries.simps Let_def bind_assoc Cons.IH ..
qed simp

text \<open>Past the end of the buffer the size that is left wraps, and the next number is written out of bounds.\<close>

lemma snprintf_overflow:
  assumes "buf_size < p" and "p - buf_size < 2 ^ 64" and "length b = buf_size"
  shows "snprintf buf_size s (b, p) = None"
proof -
  have "size_sub buf_size p \<noteq> 0" using assms by (simp add: size_sub_def)
  then show ?thesis using assms by (simp add: snprintf_def Let_def memcpy_to_def)
qed

lemma flatten_overflow_entry:
  assumes "length (entries_text lc es) > length b" and "length (entries_text lc es) < 2 ^ 64"
  shows "flatten lc (length b) (IMetadata (es @ [(k, e)])) (b, 0) = None"
proof (cases "flatten_entries lc (length b) es (b, 0)")
  case None
  then show ?thesis by (simp add: flatten_entries_append)
next
  case (Some st)
  obtain b1 p1 where st: "st = (b1, p1)" by (cases st)
  have p: "p1 = length (entries_text lc es)" "length b1 = length b" using flatten_pivot(2) Some st by force+
  obtain tag type vs ms where e: "e = IEntry tag type vs ms" by (cases e)
  have "snprintf (length b) (entry_head e) (b1, p1) = None"
    using snprintf_overflow [of "length b" p1 b1] p assms by simp
  then show ?thesis using Some by (simp add: flatten_entries_append st e Let_def)
qed

end
