(* ===== verification/MetadataRead.thy ===== *)
theory MetadataRead
  imports MetadataText
begin

text \<open>
  Reading the text of metadata back. \<open>rest_at src p t\<close> says that the source from position \<open>p\<close>
  on is \<open>t\<close>; each reading function is shown to consume the text that was written for it.
\<close>

section \<open>Positions\<close>

definition rest_at :: "string \<Rightarrow> nat \<Rightarrow> string \<Rightarrow> bool" where
  "rest_at src p t \<longleftrightarrow> p \<le> length src \<and> drop p src = t"

lemma rest_at_pos: "rest_at src p t \<Longrightarrow> p + length t = length src"
  by (auto simp: rest_at_def)

lemma rest_at_drop: "rest_at src p (s @ t) \<Longrightarrow> rest_at src (p + length s) t"
proof -
  assume a: "rest_at src p (s @ t)"
  then have "length s \<le> length src - p" by (auto simp: rest_at_def dest: arg_cong [of _ _ length])
  with a show ?thesis
    by (auto simp: rest_at_def add.commute [of p] simp flip: drop_drop)
qed

lemma rest_at_deref: "rest_at src p t \<Longrightarrow> i < length t \<Longrightarrow> deref src (p + i) = Some (t ! i)"
  by (auto simp: rest_at_def deref_def)

section \<open>Tokens\<close>

lemma move_past_at:
  assumes "rest_at src p (tok @ SPACE # r)" and "token tok"
  shows "move_past src p = Some (p + length tok + 1)" "rest_at src (p + length tok + 1) r"
proof -
  obtain c cs where tok: "tok = c # cs" using assms(2) by (cases tok) (auto simp: token_def)
  have "rest_at src (p + 1) (cs @ SPACE # r)" using rest_at_drop [of src p "[c]" "cs @ SPACE # r"] assms(1) tok by simp
  then have "find_space (drop (p + 1) src) = Some (Some (length cs))"
    using assms(2) find_space_token [of cs r] by (auto simp: rest_at_def token_def tok)
  then show "move_past src p = Some (p + length tok + 1)" by (simp add: move_past_def getNextSpace_def tok)
  show "rest_at src (p + length tok + 1) r" using rest_at_drop [of src p "tok @ [SPACE]" r] assms(1) by simp
qed

lemma skip_spaces_at:
  assumes "rest_at src p (sp @ tok @ r)" and "token tok" and "sp \<in> {[], [SPACE]}"
  shows "skip_spaces src p = Some (p + length sp)" "rest_at src (p + length sp) (tok @ r)"
proof -
  obtain c cs where tok: "tok = c # cs" using assms(2) by (cases tok) (auto simp: token_def)
  have "c \<noteq> SPACE" using assms(2) by (auto simp: token_def tok)
  then have "count_spaces (sp @ tok @ r) = Some (length sp)" using assms(3) tok by auto
  then show "skip_spaces src p = Some (p + length sp)" using assms(1) by (simp add: skip_spaces_def rest_at_def)
  show "rest_at src (p + length sp) (tok @ r)" using rest_at_drop assms(1) by blast
qed

lemma get_string_at:
  assumes "rest_at src p (tok @ SPACE # r)" and "token tok"
  shows "getStringAndMovePivot src p = Some (p, p + length tok + 1)"
  using move_past_at [OF assms] skip_spaces_at [of src p "[]" tok, OF _ assms(2)] assms(1)
  by (simp add: getStringAndMovePivot_def)

lemma get_int_at:
  assumes "rest_at src p (int_str (sint x) @ SPACE # r)"
  shows "get_int src p = Some (x, p + length (int_str (sint x)) + 1)"
    "rest_at src (p + length (int_str (sint x)) + 1) r"
  using get_string_at [OF assms] move_past_at [OF assms] atoi_at [of p src x r] assms
  by (simp_all add: get_int_def rest_at_def)

lemma sint_word_of_int: "- (2 ^ 31) \<le> i \<Longrightarrow> i < 2 ^ 31 \<Longrightarrow> sint (word_of_int i :: 32 word) = i"
  by (simp add: signed_of_int signed_take_bit_int_eq_self)

lemma sint_word_of_nat: "n < 2 ^ 31 \<Longrightarrow> sint (word_of_nat n :: 32 word) = int n"
  using sint_word_of_int [of "int n"] by simp

lemma unat_word_of_nat32: "n < 2 ^ 31 \<Longrightarrow> unat (word_of_nat n :: 32 word) = n"
  by (simp add: unat_of_nat)

lemma get_int_at':
  assumes "rest_at src p (int_str i @ SPACE # r)" and "- (2 ^ 31) \<le> i" and "i < 2 ^ 31"
  shows "get_int src p = Some (word_of_int i, p + length (int_str i) + 1)"
    "rest_at src (p + length (int_str i) + 1) r"
  using get_int_at [of src p "word_of_int i" r] assms by (simp_all add: sint_word_of_int)

lemma getInfo_at:
  assumes "rest_at src p (sp @ entry_head (IEntry tag type vs ms) @ r)" and "sp \<in> {[], [SPACE]}"
    and "- 1 \<le> type" and "type \<le> 10"
  shows "\<exists>q. getInfo src p = Some (tag, type, sint (ent_count (IEntry tag type vs ms)), q) \<and> rest_at src q r"
proof -
  let ?c = "ent_count (IEntry tag type vs ms)"
  let ?t1 = "int_str (sint tag)" and ?t2 = "int_str type" and ?t3 = "int_str (sint ?c)"
  have "rest_at src p (sp @ ?t1 @ (SPACE # ?t2 @ SPACE # ?t3 @ SPACE # r))"
    using assms(1) by (simp add: entry_head_def)
  note 1 = skip_spaces_at [OF this token_int_str assms(2)]
  note 2 = move_past_at [OF 1(2) token_int_str] note 3 = move_past_at [OF 2(2) token_int_str]
  note 4 = move_past_at [OF 3(2) token_int_str]
  have a1: "atoi src (p + length sp) = Some tag" using 1(2) atoi_at by (auto simp: rest_at_def)
  have ty: "type = sint (word_of_int type :: 32 word)" using assms(3,4) by (simp add: sint_word_of_int)
  have a2: "atoi src (p + length sp + length ?t1 + 1) = Some (word_of_int type)"
    using 2(2) atoi_at [of _ src "word_of_int type"] ty by (simp add: rest_at_def)
  have a3: "atoi src (p + length sp + length ?t1 + 1 + length ?t2 + 1) = Some ?c"
    using 3(2) atoi_at by (auto simp: rest_at_def)
  show ?thesis using 1(1) 2(1) 3(1) 4 a1 a2 a3 ty [symmetric] by (simp add: getInfo_def)
qed

section \<open>Items\<close>

text \<open>
  Items that come back: numbers in every case, a floating-point number when its text is a token that
  reads as the number again, and bytes when there are less than \<open>2 ^ 31\<close> of them.
\<close>

fun item_ok :: "libc_float \<Rightarrow> MetaItem \<Rightarrow> bool" where
  "item_ok lc (Item_MFLOAT x) \<longleftrightarrow> token (fmt_f lc x) \<and> (\<forall>r. atof_f lc (fmt_f lc x @ SPACE # r) = x)"
| "item_ok lc (Item_MDOUBLE x) \<longleftrightarrow> token (fmt_lf lc x) \<and> (\<forall>r. atof_lf lc (fmt_lf lc x @ SPACE # r) = x)"
| "item_ok lc (Item_Memory x) \<longleftrightarrow> length x < 2 ^ 31"
| "item_ok lc _ \<longleftrightarrow> True"

lemma uint8_text: "sint (ucast (x :: 8 word) :: 32 word) = uint x"
proof -
  have "uint x < 256" using uint_lt2p [of x] by simp
  moreover have "uint (ucast x :: 32 word) = uint x" by (simp add: uint_up_ucast is_up)
  moreover have "- (2 ^ 31) \<le> uint x" by (rule order_trans [OF _ uint_ge_0]) simp
  ultimately show ?thesis using signed_take_bit_int_eq_self [of 31 "uint x"] by (simp add: sint_uint)
qed

lemma ucast_ucast8: "ucast (ucast (x :: 8 word) :: 32 word) = x"
  by (simp add: ucast_up_ucast_id is_up)

lemma get_ints2_at:
  assumes "rest_at src p (int_str (sint x) @ SPACE # int_str (sint y) @ SPACE # r)"
  shows "\<exists>q. get_ints2 src p = Some (x, y, q) \<and> rest_at src q r"
  using get_int_at [OF assms] get_int_at [OF get_int_at(2) [OF assms]] by (simp add: get_ints2_def)

lemma read_item_at:
  assumes "rest_at src p (tokens_text (item_tokens lc it) @ r)" and "item_ok lc it" and "type_enum it \<noteq> TYPE_Memory"
  shows "\<exists>q. read_item lc True (type_enum it) src p = Some (it, q) \<and> rest_at src q r"
proof (cases it)
  case (Item_MUINT8 x)
  then have "rest_at src p (int_str (sint (ucast x :: 32 word)) @ SPACE # r)"
    using assms(1) by (simp add: tokens_text_def uint8_text)
  from get_int_at [OF this] show ?thesis by (simp add: Item_MUINT8 read_item_def ucast_ucast8)
next
  case (Item_MINT32 x)
  then have a: "rest_at src p (int_str (sint x) @ SPACE # r)" using assms(1) by (simp add: tokens_text_def)
  have "strtol src p = Some (sint x)" using a strtol_at [OF _ sint32_bounds] by (auto simp: rest_at_def)
  with get_string_at [OF a] move_past_at [OF a] show ?thesis by (simp add: Item_MINT32 read_item_def)
next
  case (Item_MFLOAT x)
  then have a: "rest_at src p (fmt_f lc x @ SPACE # r)" "token (fmt_f lc x)" using assms by (simp_all add: tokens_text_def)
  then have "atof_f lc (drop p src) = x" using assms(2) Item_MFLOAT by (simp add: rest_at_def)
  with get_string_at [OF a] move_past_at [OF a] show ?thesis by (simp add: Item_MFLOAT read_item_def)
next
  case (Item_MINT64 x)
  then have a: "rest_at src p (int_str (sint x) @ SPACE # r)" using assms(1) by (simp add: tokens_text_def)
  have "atoll src p = Some x" using a atoll_at by (auto simp: rest_at_def)
  with get_string_at [OF a] move_past_at [OF a] show ?thesis by (simp add: Item_MINT64 read_item_def)
next
  case (Item_MDOUBLE x)
  then have a: "rest_at src p (fmt_lf lc x @ SPACE # r)" "token (fmt_lf lc x)" using assms by (simp_all add: tokens_text_def)
  then have "atof_lf lc (drop p src) = x" using assms(2) Item_MDOUBLE by (simp add: rest_at_def)
  with get_string_at [OF a] move_past_at [OF a] show ?thesis by (simp add: Item_MDOUBLE read_item_def)
next
  case (Item_MRational x)
  with get_ints2_at [of src p "mr_numerator x" "mr_denominator x" r] assms(1) show ?thesis
    by (auto simp: tokens_text_def read_item_def)
next
  case (Item_MPoint x)
  with get_ints2_at [of src p "mp_x x" "mp_y x" r] assms(1) show ?thesis by (auto simp: tokens_text_def read_item_def)
next
  case (Item_MSize x)
  with get_ints2_at [of src p "ms_w x" "ms_h x" r] assms(1) show ?thesis by (auto simp: tokens_text_def read_item_def)
next
  case (Item_MRect x)
  then have "rest_at src p (int_str (sint (mp_x (rc_p x))) @ SPACE # int_str (sint (mp_y (rc_p x))) @ SPACE #
     (int_str (sint (ms_w (rc_s x))) @ SPACE # int_str (sint (ms_h (rc_s x))) @ SPACE # r))"
    using assms(1) by (simp add: tokens_text_def)
  from get_ints2_at [OF this] obtain q where q: "get_ints2 src p = Some (mp_x (rc_p x), mp_y (rc_p x), q)"
     "rest_at src q (int_str (sint (ms_w (rc_s x))) @ SPACE # int_str (sint (ms_h (rc_s x))) @ SPACE # r)" by blast
  from get_ints2_at [OF q(2)] q(1) show ?thesis by (auto simp: Item_MRect read_item_def get_args2_def)
next
  case (Item_Memory x)
  with assms(3) show ?thesis by simp
qed

lemma read_items_at:
  "rest_at src p (tokens_text (concat (map (item_tokens lc) its)) @ r) \<Longrightarrow>
   list_all (\<lambda>it. type_enum it = type \<and> item_ok lc it) its \<Longrightarrow> type \<noteq> TYPE_Memory \<Longrightarrow>
   \<exists>q. read_items lc True (length its) type src (e, p) = Some (fold push_back its e, q) \<and> rest_at src q r"
proof (induction its arbitrary: p e)
  case (Cons it its)
  have "rest_at src p (tokens_text (item_tokens lc it) @ (tokens_text (concat (map (item_tokens lc) its)) @ r))"
    using Cons.prems(1) by (simp add: tokens_text_def)
  with read_item_at [OF this] Cons.prems(2,3) obtain q where
    q: "read_item lc True type src p = Some (it, q)" "rest_at src q (tokens_text (concat (map (item_tokens lc) its)) @ r)"
    by auto
  from Cons.IH [OF q(2), of "push_back it e"] Cons.prems(2,3) q(1) show ?case by auto
qed (simp add: tokens_text_def)

lemma read_memory_at:
  assumes "rest_at src p (nat_str (length x) @ SPACE # x @ SPACE # r)" and "length x < 2 ^ 31"
  shows "\<exists>q. read_item lc ltr TYPE_Memory src p = Some (Item_Memory x, q) \<and> rest_at src q r"
proof -
  have "rest_at src p (int_str (int (length x)) @ SPACE # x @ SPACE # r)" using assms(1) by (simp add: int_str_def)
  from get_int_at' [OF this] assms(2) obtain q where
    q: "get_int src p = Some (word_of_int (int (length x)), q)" "rest_at src q (x @ SPACE # r)" by auto
  have n: "nat (sint (word_of_int (int (length x)) :: 32 word)) = length x" "\<not> sint (word_of_int (int (length x)) :: 32 word) < 0"
    using assms(2) sint_word_of_int [of "int (length x)"] by simp_all
  have "q + length x \<le> length src" "take (length x) (drop q src) = x" using q(2) rest_at_pos [OF q(2)] by (auto simp: rest_at_def)
  moreover have "rest_at src (q + (length x + 1)) r" using rest_at_drop [of src q "x @ [SPACE]" r] q(2) by simp
  ultimately show ?thesis using q(1) n by (simp add: read_item_def)
qed

section \<open>Metadata that comes back\<close>

text \<open>
  The entry of a type that has all its items in the vector of the type. In the text of some
  types one more space follows the items; the reader looks for the semicolon that ends a
  metadata item behind that space, so the last entry of a metadata item has to be of such
  a type, and the last entry of the whole must not.
\<close>

definition plain_entry :: "MUINT32 \<Rightarrow> int \<Rightarrow> MetaItem list \<Rightarrow> IEntry" where
  "plain_entry tag type its = IEntry tag type ((replicate 10 [])[vec_index type := its]) []"

definition spaced :: "int \<Rightarrow> bool" where
  "spaced type \<longleftrightarrow> pair_type type \<or> type = TYPE_Memory"

definition items_ok :: "libc_float \<Rightarrow> int \<Rightarrow> MetaItem list \<Rightarrow> bool" where
  "items_ok lc type its \<longleftrightarrow> plain_type type \<and> its \<noteq> [] \<and> length its < 2 ^ 31 \<and>
     list_all (\<lambda>it. type_enum it = type \<and> item_ok lc it) its \<and> (type = TYPE_Memory \<longrightarrow> length its = 1)"

fun last_spaced :: "(MUINT32 \<times> IEntry) list \<Rightarrow> bool" where
  "last_spaced [] \<longleftrightarrow> False"
| "last_spaced [(k, e)] \<longleftrightarrow> spaced (ent_mType e)"
| "last_spaced (x # es) \<longleftrightarrow> last_spaced es"

fun nested_ok :: "libc_float \<Rightarrow> IMetadata \<Rightarrow> bool"
  and entries_ok :: "libc_float \<Rightarrow> (MUINT32 \<times> IEntry) list \<Rightarrow> bool"
  and metas_ok :: "libc_float \<Rightarrow> IMetadata list \<Rightarrow> bool"
where
  "nested_ok lc (IMetadata es) \<longleftrightarrow> entries_ok lc es \<and> last_spaced es \<and> kv_wf es"
| "entries_ok lc [] \<longleftrightarrow> True"
| "entries_ok lc ((k, IEntry tag type vs ms) # es) \<longleftrightarrow> k = tag \<and>
     (if type = TYPE_IMetadata then vs = replicate 10 [] \<and> ms \<noteq> [] \<and> length ms < 2 ^ 31 \<and> metas_ok lc ms
      else if type = TYPE_UNKNOWN then IEntry tag type vs ms = IEntry_new tag
      else items_ok lc type (vs ! vec_index type) \<and> IEntry tag type vs ms = plain_entry tag type (vs ! vec_index type)) \<and>
     entries_ok lc es"
| "metas_ok lc [] \<longleftrightarrow> True"
| "metas_ok lc (m # ms) \<longleftrightarrow> nested_ok lc m \<and> metas_ok lc ms"

definition meta_ok :: "libc_float \<Rightarrow> IMetadata \<Rightarrow> bool" where
  "meta_ok lc m \<longleftrightarrow> entries_ok lc (md_mMap m) \<and> \<not> last_spaced (md_mMap m) \<and> kv_wf (md_mMap m)"

lemma plain_entry_sel [simp]:
  "ent_mTag (plain_entry tag type its) = tag" "ent_mType (plain_entry tag type its) = type"
  "ent_mStorage_IMetadata (plain_entry tag type its) = []"
  by (simp_all add: plain_entry_def)

lemma plain_typeE: "plain_type type \<Longrightarrow> vec_index type < 10 \<and> - 1 \<le> type \<and> type \<le> 10 \<and> type \<noteq> TYPE_IMetadata \<and> type \<noteq> TYPE_UNKNOWN"
  by (auto simp: plain_type_def vec_index_def)

lemma edit_vec_plain: "plain_type type \<Longrightarrow> edit_vec type g (plain_entry tag t (vs)) = (if t = type then plain_entry tag type (g vs) else edit_vec type g (plain_entry tag t vs))"
  using plain_typeE [of type] by (simp add: edit_vec_def plain_entry_def vec_of_def)

lemma fold_push_back_plain:
  "plain_type type \<Longrightarrow> list_all (\<lambda>it. type_enum it = type) its \<Longrightarrow>
   fold push_back its (plain_entry tag type vs) = plain_entry tag type (vs @ its)"
proof (induction its arbitrary: vs)
  case (Cons it its)
  have "push_back it (plain_entry tag type vs) = plain_entry tag type (vs @ [it])"
    using Cons.prems by (simp add: push_back_def edit_vec_plain) (simp add: plain_entry_def set_type_def)
  then show ?case using Cons by simp
qed simp

lemma fold_push_back_new:
  assumes "plain_type type" and "list_all (\<lambda>it. type_enum it = type) its" and "its \<noteq> []"
  shows "fold push_back its (IEntry_new tag) = plain_entry tag type its"
proof -
  obtain it rest where its: "its = it # rest" using assms(3) by (cases its) auto
  have "push_back it (IEntry_new tag) = plain_entry tag type [it]"
    using assms plain_typeE [of type]
    by (simp add: its push_back_def IEntry_new_def edit_vec_def set_type_def vec_of_def plain_entry_def)
  then show ?thesis using fold_push_back_plain [OF assms(1), of rest tag "[it]"] assms(2) its by simp
qed

text \<open>The text of an entry after its head, without the closing space.\<close>

lemma plain_entry_read:
  assumes ok: "items_ok lc type its"
    and at: "rest_at src p (items_text lc type its @ r)"
  shows "\<exists>q. string_to_entry lc True type (int (length its)) src (IEntry_new tag, p) = Some (plain_entry tag type its, q) \<and>
    rest_at src q ((if spaced type then [SPACE] else []) @ r)"
proof (cases "type = TYPE_Memory")
  case True
  with ok obtain it where its: "its = [it]" by (auto simp: items_ok_def length_Suc_conv)
  with ok True obtain x where x: "it = Item_Memory x" "length x < 2 ^ 31" by (cases it) (auto simp: items_ok_def)
  have "rest_at src p (nat_str (length x) @ SPACE # x @ SPACE # (SPACE # r))"
    using at by (simp add: items_text_def True its x)
  from read_memory_at [OF this x(2)] obtain q where
    "read_item lc True TYPE_Memory src p = Some (Item_Memory x, q)" "rest_at src q (SPACE # r)" by blast
  moreover have "push_back (Item_Memory x) (IEntry_new tag) = plain_entry tag type its"
    using fold_push_back_new [of type its tag] ok True its x by (simp add: items_ok_def)
  ultimately show ?thesis using True its by (simp add: string_to_entry_def spaced_def plain_type_def)
next
  case False
  let ?e = "fold push_back its (IEntry_new tag)"
  have sp: "spaced type = pair_type type" using False by (simp add: spaced_def)
  have "rest_at src p (tokens_text (concat (map (item_tokens lc) its)) @ ((if spaced type then [SPACE] else []) @ r))"
    using at False by (simp add: items_text_def sp)
  from read_items_at [OF this, of type "IEntry_new tag"] ok False obtain q where
    "read_items lc True (length its) type src (IEntry_new tag, p) = Some (?e, q)"
    "rest_at src q ((if spaced type then [SPACE] else []) @ r)"
    by (auto simp: items_ok_def)
  moreover have "?e = plain_entry tag type its" using ok
    by (intro fold_push_back_new) (auto simp: items_ok_def list_all_iff)
  ultimately show ?thesis using ok by (simp add: string_to_entry_def items_ok_def)
qed

section \<open>One step of the loop\<close>

definition entry_body :: "libc_float \<Rightarrow> IEntry \<Rightarrow> string" where
  "entry_body lc e =
     (if ent_mType e = TYPE_IMetadata then metas_text lc (length (ent_mStorage_IMetadata e)) (ent_mStorage_IMetadata e)
      else if ent_mType e = TYPE_UNKNOWN then []
      else items_text lc (ent_mType e) (vec_of (ent_mType e) e))"

definition entry_ok :: "libc_float \<Rightarrow> IEntry \<Rightarrow> bool" where
  "entry_ok lc e \<longleftrightarrow> entries_ok lc [(ent_mTag e, e)]"

lemma entries_ok_Cons: "entries_ok lc ((k, e) # es) \<longleftrightarrow> k = ent_mTag e \<and> entry_ok lc e \<and> entries_ok lc es"
  by (cases e) (auto simp: entry_ok_def)

lemma entry_ok_cases:
  assumes "entry_ok lc e"
  obtains (meta) ms where "e = IEntry (ent_mTag e) TYPE_IMetadata (replicate 10 []) ms" "ms \<noteq> []" "length ms < 2 ^ 31" "metas_ok lc ms"
  | (none) "e = IEntry_new (ent_mTag e)"
  | (plain) type its where "e = plain_entry (ent_mTag e) type its" "items_ok lc type its"
  using assms by (cases e) (auto simp: entry_ok_def split: if_splits)

lemma count_meta: "length ms < 2 ^ 31 \<Longrightarrow> ent_count (IEntry tag TYPE_IMetadata vs ms) = word_of_nat (length ms)"
  by (simp add: ent_count_def plain_type_def)

lemma vec_of_plain: "plain_type type \<Longrightarrow> vec_of type (plain_entry tag type its) = its"
  using plain_typeE [of type] by (simp add: vec_of_def plain_entry_def)

lemma count_plain: "items_ok lc type its \<Longrightarrow> ent_count (plain_entry tag type its) = word_of_nat (length its)"
  using plain_typeE [of type] by (auto simp: ent_count_def items_ok_def vec_of_plain)

lemma entries_text_Cons:
  assumes "entry_ok lc e"
  shows "entries_text lc ((k, e) # es) = entry_head e @ entry_body lc e @ entries_text lc es"
  using assms
proof (cases rule: entry_ok_cases)
  case (meta ms)
  obtain tag where e: "e = IEntry tag TYPE_IMetadata (replicate 10 []) ms" using meta(1) by metis
  show ?thesis using meta(3) count_meta [of ms tag "replicate 10 []"] unfolding e entries_text.simps entry_body_def
    by (simp add: unat_word_of_nat32)
next
  case none
  then show ?thesis by (cases e) (auto simp: entry_body_def IEntry_new_def plain_type_def)
next
  case (plain type its)
  obtain tag where e: "e = plain_entry tag type its" using plain(1) by metis
  have ty: "plain_type type" "length its < 2 ^ 31" using plain(2) by (auto simp: items_ok_def)
  have "unat (ent_count e) = length its" using count_plain [OF plain(2)] ty(2) by (simp add: e unat_word_of_nat32)
  moreover have "ent_mType e = type" "vec_of type e = its" using vec_of_plain [OF ty(1)] by (simp_all add: e)
  moreover obtain vs ms where ie: "e = IEntry tag type vs ms" by (simp add: e plain_entry_def)
  ultimately show ?thesis using plain_typeE [OF ty(1)] ty(1)
    by (simp add: entry_body_def del: entries_text.simps) (simp add: ie entries_text.simps)
qed

end
