(* ===== verification/MetadataProps.thy ===== *)
theory MetadataProps
  imports MetadataRead
begin

text \<open>
  The properties of the metadata container: the round trip through the text form, how it
  fails, and what the sum of two containers is.
\<close>

section \<open>The loop over the entries\<close>

definition reads_metas :: "libc_float \<Rightarrow> string \<Rightarrow> nat \<Rightarrow> IMetadata list \<Rightarrow> bool" where
  "reads_metas lc src B ms \<longleftrightarrow> (\<forall>p r e n.
     rest_at src p (metas_text lc (length ms) ms @ r) \<longrightarrow> p + length (metas_text lc (length ms) ms) \<le> B \<longrightarrow>
     length (metas_text lc (length ms) ms) < n \<longrightarrow>
     (\<exists>q. unflatten_items n lc True src B (length ms) (e, p) = Some (fold push_back_IMetadata ms e, q) \<and> rest_at src q r))"

lemma fold_push_back_IMetadata:
  "fold push_back_IMetadata ms (IEntry tag type vs ms0) =
     IEntry tag (if ms = [] then type else TYPE_IMetadata) vs (ms0 @ ms)"
  by (induction ms arbitrary: ms0 type) (auto simp: push_back_IMetadata_def set_type_def edit_metas_def)

text \<open>Where the reader is after an entry, and how it goes on.\<close>

definition after_entry :: "IEntry \<Rightarrow> string" where
  "after_entry e = (if spaced (ent_mType e) then [SPACE] else [])"

lemma entry_type_range: "entry_ok lc e \<Longrightarrow> - 1 \<le> ent_mType e \<and> ent_mType e \<le> 10"
proof (erule entry_ok_cases)
  fix ms assume "e = IEntry (ent_mTag e) TYPE_IMetadata (replicate 10 []) ms"
  then have "ent_mType e = TYPE_IMetadata" by (metis IEntry.sel(2))
  then show ?thesis by simp
next
  assume "e = IEntry_new (ent_mTag e)"
  then have "ent_mType e = TYPE_UNKNOWN" unfolding IEntry_new_def by (metis IEntry.sel(2))
  then show ?thesis by simp
next
  fix type its assume e: "e = plain_entry (ent_mTag e) type its" and "items_ok lc type its"
  have "ent_mType e = type" by (subst e) simp
  then show ?thesis using plain_typeE [of type] \<open>items_ok lc type its\<close> by (simp add: items_ok_def)
qed

lemma entry_head_info:
  assumes ok: "entry_ok lc e" and at: "rest_at src p (sp @ entry_head e @ t)" and sp: "sp \<in> {[], [SPACE]}"
  shows "\<exists>q. getInfo src p = Some (ent_mTag e, ent_mType e, sint (ent_count e), q) \<and> rest_at src q t"
  using getInfo_at [of src p sp "ent_mTag e" "ent_mType e" "ent_vectors e" "ent_mStorage_IMetadata e" t] at sp entry_type_range [OF ok]
  by simp

lemma loop_meta_step:
  assumes e: "e = IEntry tag TYPE_IMetadata (replicate 10 []) ms" and ms: "ms \<noteq> []" "length ms < 2 ^ 31"
    and rd: "reads_metas lc src B ms" and ok: "entry_ok lc e"
    and at: "rest_at src p (sp @ entry_head e @ entry_body lc e @ t)" and sp: "sp \<in> {[], [SPACE]}"
    and B: "p + length sp + length (entry_head e @ entry_body lc e) \<le> B" and n: "length (entry_body lc e) < n"
  shows "\<exists>q. unflatten_loop (Suc n) lc True src B p m = unflatten_loop n lc True src B q (kv_add tag e m) \<and>
    rest_at src q (after_entry e @ t)"
proof -
  have body: "entry_body lc e = metas_text lc (length ms) ms" by (simp add: entry_body_def e)
  obtain q where q: "getInfo src p = Some (tag, TYPE_IMetadata, sint (ent_count e), q)" "rest_at src q (entry_body lc e @ t)"
    using entry_head_info [OF ok at sp] by (auto simp: e)
  have cnt: "nat (sint (ent_count e)) = length ms" using count_meta [OF ms(2)] ms(2) by (simp add: e sint_word_of_nat)
  have "q + length (metas_text lc (length ms) ms) \<le> B"
    using rest_at_pos [OF q(2)] rest_at_pos [OF at] B body by simp
  with rd q(2) n body obtain q2 where
    q2: "unflatten_items n lc True src B (length ms) (IEntry_new tag, q) = Some (fold push_back_IMetadata ms (IEntry_new tag), q2)"
    "rest_at src q2 t" unfolding reads_metas_def by metis
  have "fold push_back_IMetadata ms (IEntry_new tag) = e" using ms(1) by (simp add: IEntry_new_def fold_push_back_IMetadata e)
  moreover have "after_entry e = []" by (simp add: after_entry_def e spaced_def pair_type_def)
  moreover have "p < B" using B by (simp add: entry_head_def)
  ultimately show ?thesis using q(1) q2 cnt by (intro exI [of _ q2]) simp
qed

lemma loop_plain_step:
  assumes ok: "entry_ok lc e" and ty: "ent_mType e \<noteq> TYPE_IMetadata"
    and at: "rest_at src p (sp @ entry_head e @ entry_body lc e @ t)" and sp: "sp \<in> {[], [SPACE]}"
    and B: "p + length sp + length (entry_head e) \<le> B"
  shows "\<exists>q. unflatten_loop (Suc n) lc True src B p m =
      Option.bind (deref src (q + 1)) (\<lambda>c. if c = CHR '';'' then Some (kv_add (ent_mTag e) e m, q + 3)
        else unflatten_loop n lc True src B q (kv_add (ent_mTag e) e m)) \<and>
    rest_at src q (after_entry e @ t)"
proof -
  have p: "p < B" using B by (simp add: entry_head_def)
  obtain q where q: "getInfo src p = Some (ent_mTag e, ent_mType e, sint (ent_count e), q)" "rest_at src q (entry_body lc e @ t)"
    using entry_head_info [OF ok at sp] by auto
  have step: "\<exists>q2. string_to_entry lc True (ent_mType e) (sint (ent_count e)) src (IEntry_new (ent_mTag e), q) = Some (e, q2) \<and>
    rest_at src q2 (after_entry e @ t)"
    using ok
  proof (cases rule: entry_ok_cases)
    case (meta ms)
    with ty show ?thesis by (metis IEntry.sel(2))
  next
    case none
    then have "ent_mType e = TYPE_UNKNOWN" unfolding IEntry_new_def by (metis IEntry.sel(2))
    then show ?thesis using q(2) none
      by (simp add: string_to_entry_def plain_type_def entry_body_def after_entry_def spaced_def pair_type_def)
  next
    case (plain type its)
    obtain tag where e: "e = plain_entry tag type its" using plain(1) by metis
    have pt: "plain_type type" "length its < 2 ^ 31" using plain(2) by (auto simp: items_ok_def)
    have "entry_body lc e = items_text lc type its"
      using plain_typeE [OF pt(1)] by (simp add: entry_body_def e vec_of_plain [OF pt(1)])
    with plain_entry_read [OF plain(2), of src q t tag] q(2) count_plain [OF plain(2), of tag] pt(2) show ?thesis
      by (simp add: e sint_word_of_nat after_entry_def)
  qed
  then obtain q2 where q2: "string_to_entry lc True (ent_mType e) (sint (ent_count e)) src (IEntry_new (ent_mTag e), q) = Some (e, q2)"
    "rest_at src q2 (after_entry e @ t)" by blast
  have "unflatten_loop (Suc n) lc True src B p m =
      Option.bind (deref src (q2 + 1)) (\<lambda>c. if c = CHR '';'' then Some (kv_add (ent_mTag e) e m, q2 + 3)
        else unflatten_loop n lc True src B q2 (kv_add (ent_mTag e) e m))"
    unfolding unflatten_loop.simps q(1) by (simp add: p ty q2(1) getSemicolon_def del: unflatten_loop.simps)
  with q2(2) show ?thesis by blast
qed

text \<open>The next entry does not look like the end of a metadata item.\<close>

lemma entry_head_chars:
  "\<exists>a b u. entry_head e @ t = a # b # u \<and> a \<noteq> CHR '';'' \<and> b \<noteq> CHR '';''"
proof -
  have tok: "token (int_str (sint (ent_mTag e)))" by simp
  obtain a cs where cs: "int_str (sint (ent_mTag e)) = a # cs" using tok by (cases "int_str (sint (ent_mTag e))") (auto simp: token_def)
  have a: "a \<noteq> CHR '';''" using tok by (simp add: cs token_def)
  have nat: "CHR '';'' \<notin> set (nat_str n)" for n using nat_str_digits [of n] digit_not [of "CHR '';''"] by blast
  have all: "CHR '';'' \<notin> set (int_str i)" for i by (simp add: int_str_def nat)
  show ?thesis
  proof (cases cs)
    case Nil
    then show ?thesis using a by (simp add: entry_head_def cs)
  next
    case (Cons b u)
    then have "b \<noteq> CHR '';''" using all [of "sint (ent_mTag e)"] cs by auto
    then show ?thesis using a by (simp add: entry_head_def cs Cons)
  qed
qed

lemma kv_add_append: "kv_wf (acc @ (k, e) # es) \<Longrightarrow> kv_add k e acc = acc @ [(k, e)]"
proof (induction acc)
  case (Cons x acc)
  obtain a w where x: "x = (a, w)" by (cases x)
  have "a < k" "kv_wf (acc @ (k, e) # es)" using Cons.prems by (auto simp: x kv_wf_Cons kv_keys_def)
  then show ?case using Cons.IH by (auto simp: x)
qed simp

text \<open>One entry with another entry behind it.\<close>

lemma loop_step_more:
  assumes ok: "entry_ok lc e" and rd: "reads_metas lc src B (ent_mStorage_IMetadata e)"
    and at: "rest_at src p (sp @ entry_head e @ entry_body lc e @ entry_head e2 @ t)" and sp: "sp \<in> {[], [SPACE]}"
    and B: "p + length sp + length (entry_head e @ entry_body lc e) \<le> B" and n: "length (entry_body lc e) < n"
  shows "\<exists>q. unflatten_loop (Suc n) lc True src B p m = unflatten_loop n lc True src B q (kv_add (ent_mTag e) e m) \<and>
    rest_at src q (after_entry e @ entry_head e2 @ t)"
proof (cases "ent_mType e = TYPE_IMetadata")
  case True
  with ok obtain ms where ms: "e = IEntry (ent_mTag e) TYPE_IMetadata (replicate 10 []) ms" "ms \<noteq> []" "length ms < 2 ^ 31"
    by (cases e) (auto simp: entry_ok_def)
  then have "ent_mStorage_IMetadata e = ms" by (metis IEntry.sel(4))
  with loop_meta_step [OF ms _ ok at sp B n] rd show ?thesis by simp
next
  case False
  obtain q where q: "unflatten_loop (Suc n) lc True src B p m =
      Option.bind (deref src (q + 1)) (\<lambda>c. if c = CHR '';'' then Some (kv_add (ent_mTag e) e m, q + 3)
        else unflatten_loop n lc True src B q (kv_add (ent_mTag e) e m))"
    "rest_at src q (after_entry e @ entry_head e2 @ t)"
    using loop_plain_step [OF ok False at sp, of B n m] B by auto
  obtain a b u where ab: "entry_head e2 @ t = a # b # u" "a \<noteq> CHR '';''" "b \<noteq> CHR '';''" using entry_head_chars by blast
  have "\<exists>c. deref src (q + 1) = Some c \<and> c \<noteq> CHR '';''"
    using rest_at_deref [OF q(2), of 1] ab by (auto simp: after_entry_def)
  with q show ?thesis by auto
qed

lemma last_spaced_Cons: "last_spaced ((k, e) # es) \<longleftrightarrow> (if es = [] then spaced (ent_mType e) else last_spaced es)"
  by (cases es) auto

text \<open>All entries but the last, whatever follows.\<close>

lemma loop_entries:
  assumes "entries_ok lc (es @ [(k, e)])" and "list_all (\<lambda>x. reads_metas lc src B (ent_mStorage_IMetadata (snd x))) es"
    and "rest_at src p (sp @ entries_text lc es @ entry_head e @ t)" and "sp \<in> {[], [SPACE]}"
    and "p + length sp + length (entries_text lc es) \<le> B" and "length (entries_text lc es) < n" and "kv_wf (acc @ es @ [(k, e)])"
  shows "\<exists>q n' sp'. unflatten_loop n lc True src B p acc = unflatten_loop n' lc True src B q (acc @ es) \<and>
    rest_at src q (sp' @ entry_head e @ t) \<and> sp' \<in> {[], [SPACE]} \<and> n - length (entries_text lc es) \<le> n'"
  using assms
proof (induction es arbitrary: p sp n acc)
  case Nil
  then have "rest_at src p (sp @ entry_head e @ t)" "n - length (entries_text lc []) \<le> n" by simp_all
  then show ?case using Nil.prems(4) by (intro exI [of _ p] exI [of _ n] exI [of _ sp]) simp
next
  case (Cons x es)
  obtain k1 e1 where x: "x = (k1, e1)" by (cases x)
  have ok: "k1 = ent_mTag e1" "entry_ok lc e1" "entries_ok lc (es @ [(k, e)])" using Cons.prems(1) by (simp_all add: x entries_ok_Cons)
  have tx: "entries_text lc (x # es) = entry_head e1 @ entry_body lc e1 @ entries_text lc es"
    using entries_text_Cons [OF ok(2)] by (simp add: x)
  obtain e2 t2 where e2: "entries_text lc es @ entry_head e @ t = entry_head e2 @ t2"
  proof (cases "es")
    case Nil
    with that [of e t] show ?thesis by simp
  next
    case (Cons y ys)
    obtain k3 e3 where y: "y = (k3, e3)" by (cases y)
    have "entry_ok lc e3" using ok(3) by (simp add: Cons y entries_ok_Cons)
    with that [of e3] show ?thesis by (simp add: Cons y entries_text_Cons)
  qed
  obtain n1 where n1: "n = Suc n1" using Cons.prems(6) by (cases n) auto
  have at: "rest_at src p (sp @ entry_head e1 @ entry_body lc e1 @ entry_head e2 @ t2)"
    using Cons.prems(3) e2 by (simp add: tx)
  have head: "1 \<le> length (entry_head e1)" by (simp add: entry_head_def)
  have B1: "p + length sp + length (entry_head e1 @ entry_body lc e1) \<le> B" using Cons.prems(5) by (simp add: tx)
  have len1: "length (entry_body lc e1) < n1" using Cons.prems(6) head by (simp add: tx n1)
  have rd: "reads_metas lc src B (ent_mStorage_IMetadata e1)" using Cons.prems(2) by (simp add: x)
  obtain q where q: "unflatten_loop n lc True src B p acc = unflatten_loop n1 lc True src B q (kv_add k1 e1 acc)"
    "rest_at src q (after_entry e1 @ entry_head e2 @ t2)"
    using loop_step_more [OF ok(2) rd at Cons.prems(4) B1 len1] by (auto simp: n1 ok(1))
  have acc: "kv_add k1 e1 acc = acc @ [x]" using kv_add_append [of acc k1 e1 "es @ [(k, e)]"] Cons.prems(7) by (simp add: x)
  have at2: "rest_at src q (after_entry e1 @ entries_text lc es @ entry_head e @ t)" using q(2) e2 by simp
  have B2: "q + length (after_entry e1) + length (entries_text lc es) \<le> B"
    using rest_at_pos [OF at2] rest_at_pos [OF Cons.prems(3)] Cons.prems(5) by (simp add: tx)
  have "\<exists>q' n' sp'. unflatten_loop n1 lc True src B q (acc @ [x]) = unflatten_loop n' lc True src B q' ((acc @ [x]) @ es) \<and>
    rest_at src q' (sp' @ entry_head e @ t) \<and> sp' \<in> {[], [SPACE]} \<and> n1 - length (entries_text lc es) \<le> n'"
  proof (rule Cons.IH [OF ok(3) _ at2 _ B2])
    show "list_all (\<lambda>x. reads_metas lc src B (ent_mStorage_IMetadata (snd x))) es" using Cons.prems(2) by simp
    show "after_entry e1 \<in> {[], [SPACE]}" by (simp add: after_entry_def)
    show "length (entries_text lc es) < n1" using Cons.prems(6) head by (simp add: tx n1)
    show "kv_wf ((acc @ [x]) @ es @ [(k, e)])" using Cons.prems(7) by simp
  qed
  then obtain q' n' sp' where r: "unflatten_loop n1 lc True src B q (acc @ [x]) = unflatten_loop n' lc True src B q' ((acc @ [x]) @ es)"
    "rest_at src q' (sp' @ entry_head e @ t)" "sp' \<in> {[], [SPACE]}" "n1 - length (entries_text lc es) \<le> n'" by blast
  have "n - length (entries_text lc (x # es)) \<le> n'" using r(4) head by (simp add: tx n1)
  with r q acc show ?case by (intro exI [of _ q'] exI [of _ n'] exI [of _ sp']) simp
qed

lemma entries_text_append: "entries_text lc (es @ fs) = entries_text lc es @ entries_text lc fs"
proof (induction es)
  case (Cons x es)
  obtain k tag type vs ms where "x = (k, IEntry tag type vs ms)" by (metis IEntry.exhaust surj_pair)
  then show ?case using Cons by simp
qed simp

lemma entries_text_last: "entry_ok lc e \<Longrightarrow> entries_text lc [(k, e)] = entry_head e @ entry_body lc e"
  using entries_text_Cons [of lc e k "[]"] by simp

lemma last_spaced_append: "last_spaced (es @ [(k, e)]) = spaced (ent_mType e)"
  by (induction es) (auto simp: last_spaced_Cons)

lemma entries_ok_append: "entries_ok lc (es @ fs) \<longleftrightarrow> entries_ok lc es \<and> entries_ok lc fs"
  by (induction es) (auto simp: entries_ok_Cons)

text \<open>The whole of a metadata item: the semicolon is found after the last entry.\<close>

lemma loop_nested:
  assumes ok: "entries_ok lc es" and last: "last_spaced es" and wf: "kv_wf es"
    and rd: "list_all (\<lambda>x. reads_metas lc src B (ent_mStorage_IMetadata (snd x))) es"
    and at: "rest_at src p (entries_text lc es @ [CHR '';'', SPACE] @ r)"
    and B: "p + length (entries_text lc es) \<le> B" and n: "length (entries_text lc es) < n"
  shows "\<exists>q. unflatten_loop n lc True src B p [] = Some (es, q) \<and> rest_at src q r"
proof -
  obtain es0 k e where es: "es = es0 @ [(k, e)]" using last by (metis last_spaced.simps(1) rev_exhaust surj_pair)
  have oke: "k = ent_mTag e" "entry_ok lc e" using ok by (simp_all add: es entries_ok_append entries_ok_Cons)
  have sp: "spaced (ent_mType e)" using last by (simp add: es last_spaced_append)
  then have ty: "ent_mType e \<noteq> TYPE_IMetadata" by (auto simp: spaced_def pair_type_def)
  have tx: "entries_text lc es = entries_text lc es0 @ entry_head e @ entry_body lc e"
    using oke by (simp add: es entries_text_append entries_text_last)
  let ?t = "entry_body lc e @ [CHR '';'', SPACE] @ r"
  have start: "\<exists>q n' sp'. unflatten_loop n lc True src B p [] = unflatten_loop n' lc True src B q ([] @ es0) \<and>
    rest_at src q (sp' @ entry_head e @ ?t) \<and> sp' \<in> {[], [SPACE]} \<and> n - length (entries_text lc es0) \<le> n'"
  proof (rule loop_entries)
    show "entries_ok lc (es0 @ [(k, e)])" "list_all (\<lambda>x. reads_metas lc src B (ent_mStorage_IMetadata (snd x))) es0"
      "kv_wf ([] @ es0 @ [(k, e)])" using ok rd wf by (simp_all add: es)
    show "rest_at src p ([] @ entries_text lc es0 @ entry_head e @ ?t)" using at by (simp add: tx)
    show "p + length [] + length (entries_text lc es0) \<le> B" "length (entries_text lc es0) < n" using B n by (simp_all add: tx)
  qed simp
  obtain q n' sp' where q: "unflatten_loop n lc True src B p [] = unflatten_loop n' lc True src B q es0"
    "rest_at src q (sp' @ entry_head e @ ?t)" "sp' \<in> {[], [SPACE]}" "n - length (entries_text lc es0) \<le> n'"
    using start by auto
  have head: "1 \<le> length (entry_head e)" by (simp add: entry_head_def)
  have "n' > 0" using q(4) n head by (simp add: tx)
  then obtain m where m: "n' = Suc m" by (cases n') auto
  have "q + length sp' + length (entry_head e) \<le> B"
    using rest_at_pos [OF q(2)] rest_at_pos [OF at] B by (simp add: tx)
  from loop_plain_step [OF oke(2) ty q(2,3) this, of m es0] obtain q2 where
    q2: "unflatten_loop (Suc m) lc True src B q es0 =
      Option.bind (deref src (q2 + 1)) (\<lambda>c. if c = CHR '';'' then Some (kv_add (ent_mTag e) e es0, q2 + 3)
        else unflatten_loop m lc True src B q2 (kv_add (ent_mTag e) e es0))"
    "rest_at src q2 (after_entry e @ [CHR '';'', SPACE] @ r)" by blast
  have at2: "rest_at src q2 ([SPACE, CHR '';'', SPACE] @ r)" using q2(2) sp by (simp add: after_entry_def)
  have "deref src (q2 + 1) = Some (CHR '';'')" using rest_at_deref [OF at2, of 1] by simp
  moreover have "rest_at src (q2 + 3) r" using rest_at_drop [OF at2] by (simp add: numeral_3_eq_3)
  moreover have "kv_add (ent_mTag e) e es0 = es" using kv_add_append [of es0 k e "[]"] wf oke(1) by (simp add: es)
  ultimately show ?thesis using q(1) q2(1) m by simp
qed

lemma loop_reads:
  "nested_ok lc m \<Longrightarrow> (\<forall>p r n. rest_at src p (meta_text lc m @ [CHR '';'', SPACE] @ r) \<longrightarrow>
     p + length (meta_text lc m) \<le> B \<longrightarrow> length (meta_text lc m) < n \<longrightarrow>
     (\<exists>q. unflatten_loop n lc True src B p [] = Some (md_mMap m, q) \<and> rest_at src q r))"
  "entries_ok lc es \<Longrightarrow> list_all (\<lambda>x. reads_metas lc src B (ent_mStorage_IMetadata (snd x))) es"
  "metas_ok lc ms \<Longrightarrow> reads_metas lc src B ms"
proof (induction lc m and lc es and lc ms rule: nested_ok_entries_ok_metas_ok.induct)
  case (1 lc es)
  then show ?case using loop_nested [of lc es src B] by simp
next
  case (3 lc k tag type vs ms es)
  have nil: "reads_metas lc src B []" unfolding reads_metas_def
  proof (intro allI impI)
    fix p r e n assume "rest_at src p (metas_text lc (length []) [] @ r)" "length (metas_text lc (length []) []) < (n :: nat)"
    then show "\<exists>q. unflatten_items n lc True src B (length []) (e, p) = Some (fold push_back_IMetadata [] e, q) \<and> rest_at src q r"
      by (cases n) auto
  qed
  have "reads_metas lc src B ms"
  proof (cases "type = TYPE_IMetadata")
    case True
    then show ?thesis using 3 by simp
  next
    case False
    then have "ms = []" using 3(3) by (auto simp: IEntry_new_def plain_entry_def split: if_splits)
    with nil show ?thesis by simp
  qed
  then show ?case using 3 by simp
next
  case (4 lc)
  show ?case unfolding reads_metas_def
  proof (intro allI impI)
    fix p r e n assume "rest_at src p (metas_text lc (length []) [] @ r)" "length (metas_text lc (length []) []) < (n :: nat)"
    then show "\<exists>q. unflatten_items n lc True src B (length []) (e, p) = Some (fold push_back_IMetadata [] e, q) \<and> rest_at src q r"
      by (cases n) auto
  qed
next
  case (5 lc m ms)
  have ok: "nested_ok lc m" "metas_ok lc ms" using 5(3) by simp_all
  show ?case unfolding reads_metas_def
  proof (intro allI impI)
    fix p r e n
    assume at: "rest_at src p (metas_text lc (length (m # ms)) (m # ms) @ r)"
      and B: "p + length (metas_text lc (length (m # ms)) (m # ms)) \<le> B"
      and n: "length (metas_text lc (length (m # ms)) (m # ms)) < n"
    obtain n1 where n1: "n = Suc n1" using n by (cases n) auto
    let ?r = "metas_text lc (length ms) ms @ r"
    have "rest_at src p (meta_text lc m @ [CHR '';'', SPACE] @ ?r)" "p + length (meta_text lc m) \<le> B" "length (meta_text lc m) < n1"
      using at B n by (simp_all add: n1)
    with 5(1) [OF ok(1)] obtain q where q: "unflatten_loop n1 lc True src B p [] = Some (md_mMap m, q)" "rest_at src q ?r" by blast
    have "q + length (metas_text lc (length ms) ms) \<le> B" using rest_at_pos [OF q(2)] rest_at_pos [OF at] B by simp
    moreover have "length (metas_text lc (length ms) ms) < n1" using n by (simp add: n1)
    ultimately obtain q' where q': "unflatten_items n1 lc True src B (length ms) (push_back_IMetadata m e, q) =
        Some (fold push_back_IMetadata ms (push_back_IMetadata m e), q')" "rest_at src q' r"
      using 5(2) [OF ok(2)] q(2) unfolding reads_metas_def by blast
    have "IMetadata (md_mMap m) = m" by (cases m) simp
    with q(1) q' show "\<exists>q. unflatten_items n lc True src B (length (m # ms)) (e, p) =
        Some (fold push_back_IMetadata (m # ms) e, q) \<and> rest_at src q r" by (simp add: n1 Let_def)
  qed
qed simp

section \<open>The round trip\<close>

lemma unflatten_text:
  assumes ok: "meta_ok lc m" and at: "rest_at src 0 (meta_text lc m @ rest)" and rest: "2 \<le> length rest"
    and n: "length (meta_text lc m) + 1 < n"
  shows "\<exists>q. unflatten n lc True src (length (meta_text lc m)) 0 IMetadata_new = Some (m, q)"
proof -
  obtain es where m: "m = IMetadata es" by (cases m)
  let ?B = "length (meta_text lc m)"
  have oks: "entries_ok lc es" "\<not> last_spaced es" "kv_wf es" using ok by (simp_all add: m meta_ok_def)
  have rd: "list_all (\<lambda>x. reads_metas lc src ?B (ent_mStorage_IMetadata (snd x))) es" using loop_reads(2) [OF oks(1)] .
  show ?thesis
  proof (cases es rule: rev_exhaust)
    case Nil
    obtain n1 where "n = Suc n1" using n by (cases n) auto
    then show ?thesis by (simp add: m Nil unflatten_def IMetadata_new_def)
  next
    case (snoc es0 x)
    obtain k e where x: "x = (k, e)" by (cases x)
    have es: "es = es0 @ [(k, e)]" by (simp add: snoc x)
    have oke: "k = ent_mTag e" "entry_ok lc e" using oks(1) by (simp_all add: es entries_ok_append entries_ok_Cons)
    have nsp: "after_entry e = []" using oks(2) by (simp add: es last_spaced_append after_entry_def)
    have tx: "meta_text lc m = entries_text lc es0 @ entry_head e @ entry_body lc e"
      using oke by (simp add: m es entries_text_append entries_text_last)
    let ?t = "entry_body lc e @ rest"
    have start: "\<exists>q n' sp'. unflatten_loop n lc True src ?B 0 [] = unflatten_loop n' lc True src ?B q ([] @ es0) \<and>
      rest_at src q (sp' @ entry_head e @ ?t) \<and> sp' \<in> {[], [SPACE]} \<and> n - length (entries_text lc es0) \<le> n'"
    proof (rule loop_entries)
      show "entries_ok lc (es0 @ [(k, e)])" "list_all (\<lambda>x. reads_metas lc src ?B (ent_mStorage_IMetadata (snd x))) es0"
        "kv_wf ([] @ es0 @ [(k, e)])" using oks rd by (simp_all add: es)
      show "rest_at src 0 ([] @ entries_text lc es0 @ entry_head e @ ?t)" using at by (simp add: tx)
      show "0 + length [] + length (entries_text lc es0) \<le> ?B" "length (entries_text lc es0) < n" using n by (simp_all add: tx)
    qed simp
    obtain q n' sp' where q: "unflatten_loop n lc True src ?B 0 [] = unflatten_loop n' lc True src ?B q es0"
      "rest_at src q (sp' @ entry_head e @ ?t)" "sp' \<in> {[], [SPACE]}" "n - length (entries_text lc es0) \<le> n'"
      using start by auto
    have head: "1 \<le> length (entry_head e)" by (simp add: entry_head_def)
    obtain n2 where n2: "n' = Suc n2" "length (entry_body lc e) < n2" using q(4) n head that [of "n' - 1"] by (simp add: tx)
    obtain n3 where n3: "n2 = Suc n3" using n2(2) by (cases n2) auto
    have B: "q + length sp' + length (entry_head e @ entry_body lc e) \<le> ?B"
      using rest_at_pos [OF q(2)] rest_at_pos [OF at] by (simp add: tx)
    have add: "kv_add (ent_mTag e) e es0 = es" using kv_add_append [of es0 k e "[]"] oks(3) oke(1) by (simp add: es)
    have fin: "q2 = ?B" if "rest_at src q2 rest" for q2 using rest_at_pos [OF that] rest_at_pos [OF at] by simp
    have "\<exists>q3. unflatten_loop (Suc n2) lc True src ?B q es0 = Some (es, q3)"
    proof (cases "ent_mType e = TYPE_IMetadata")
      case True
      with oke(2) obtain ms where ms: "e = IEntry (ent_mTag e) TYPE_IMetadata (replicate 10 []) ms" "ms \<noteq> []" "length ms < 2 ^ 31"
        by (cases e) (auto simp: entry_ok_def)
      then have "ent_mStorage_IMetadata e = ms" by (metis IEntry.sel(4))
      then have "reads_metas lc src ?B ms" using rd by (simp add: es)
      from loop_meta_step [OF ms this oke(2) q(2,3) B n2(2), of es0] add nsp obtain q2 where
        "unflatten_loop (Suc n2) lc True src ?B q es0 = unflatten_loop n2 lc True src ?B q2 es" "rest_at src q2 rest" by auto
      moreover have "unflatten_loop n2 lc True src ?B q2 es = Some (es, q2)" using fin [OF calculation(2)] by (simp add: n3)
      ultimately show ?thesis by metis
    next
      case False
      from loop_plain_step [OF oke(2) False q(2,3), of ?B n2 es0] B add nsp obtain q2 where
        q2: "unflatten_loop (Suc n2) lc True src ?B q es0 =
          Option.bind (deref src (q2 + 1)) (\<lambda>c. if c = CHR '';'' then Some (es, q2 + 3) else unflatten_loop n2 lc True src ?B q2 es)"
        "rest_at src q2 rest" by auto
      obtain c where c: "deref src (q2 + 1) = Some c" using rest_at_deref [OF q2(2), of 1] rest by auto
      have f: "unflatten_loop n2 lc True src ?B q2 es = Some (es, q2)" using fin [OF q2(2)] by (simp add: n3)
      show ?thesis unfolding q2(1) using c f by (cases "c = CHR '';''") simp_all
    qed
    then obtain q3 where q3: "unflatten_loop n lc True src ?B 0 [] = Some (es, q3)" using q(1) n2(1) by metis
    show ?thesis unfolding unflatten_def IMetadata_new_def md_mMap.simps q3 by (simp add: m)
  qed
qed

text \<open>C32: metadata that is flattened into a buffer with room for it is read back: the buffer then
  holds the text, nothing behind its terminating zero has changed, and \<open>unflatten\<close>, given the
  length that \<open>flatten\<close> returned, comes to an end with the same metadata, for all metadata
  described by \<open>meta_ok\<close> when the two coordinates of a rectangle are read from left to right.\<close>

theorem flatten_unflatten:
  assumes "meta_ok lc m" and "length (meta_text lc m) < buf_size" and "buf_size \<le> length b"
    and "length (meta_text lc m) + 2 \<le> length b"
  shows "\<exists>b' q. flatten lc buf_size m (b, 0) = Some (b', length (meta_text lc m)) \<and>
    drop (length (meta_text lc m) + 1) b' = drop (length (meta_text lc m) + 1) b \<and>
    unflatten (length (meta_text lc m) + 2) lc True b' (length (meta_text lc m)) 0 IMetadata_new = Some (m, q)"
proof -
  let ?n = "length (meta_text lc m)"
  obtain st where st: "flatten lc buf_size m (b, 0) = Some st" "written b 0 (meta_text lc m) st"
    using flatten_written(1) [OF written_0 [of 0 b], of lc m buf_size] assms(2,3) by auto
  obtain b' p where bp: "st = (b', p)" by (cases st)
  have w: "length b' = length b" "p = ?n" "take ?n b' = meta_text lc m" "drop (?n + 1) b' = drop (?n + 1) b"
    using st(2) by (auto simp: written_def bp)
  have "rest_at b' 0 (meta_text lc m @ drop ?n b')" using w(3) append_take_drop_id [of ?n b'] by (simp add: rest_at_def)
  moreover have "2 \<le> length (drop ?n b')" using w(1) assms(4) by simp
  ultimately obtain q where "unflatten (?n + 2) lc True b' ?n 0 IMetadata_new = Some (m, q)"
    using unflatten_text [OF assms(1), of b' "drop ?n b'" "?n + 2"] by auto
  with st(1) w(2,4) show ?thesis by (simp add: bp)
qed

definition ex_lc :: libc_float where
  "ex_lc = \<lparr>fmt_f = (\<lambda>x. int_str (sint x)), fmt_lf = (\<lambda>x. int_str (sint x)),
     atof_f = (\<lambda>s. case read_int s of None \<Rightarrow> 0 | Some i \<Rightarrow> word_of_int i),
     atof_lf = (\<lambda>s. case read_int s of None \<Rightarrow> 0 | Some i \<Rightarrow> word_of_int i)\<rparr>"

definition ex_nested :: IMetadata where
  "ex_nested = IMetadata [(3, plain_entry 3 TYPE_MSize [Item_MSize \<lparr>ms_w = 4, ms_h = - 5\<rparr>])]"

definition ex_meta :: IMetadata where
  "ex_meta = IMetadata [(5, plain_entry 5 TYPE_MINT32 [Item_MINT32 1, Item_MINT32 (- 2)]),
     (7, IEntry 7 TYPE_IMetadata (replicate 10 []) [ex_nested, ex_nested]),
     (8, plain_entry 8 TYPE_Memory [Item_Memory ''a; b'']), (9, plain_entry 9 TYPE_MFLOAT [Item_MFLOAT 25])]"

lemma ex_meta_ok: "meta_ok ex_lc ex_meta"
  by (simp add: meta_ok_def ex_meta_def ex_nested_def plain_entry_def vec_index_def items_ok_def plain_type_def
      spaced_def pair_type_def kv_wf_Cons ex_lc_def read_int_int_str)

lemma ex_meta_length: "length (meta_text ex_lc ex_meta) = 69"
  by code_simp

theorem flatten_unflatten_witness:
  "\<exists>b' q. flatten ex_lc 80 ex_meta (replicate 90 SPACE, 0) = Some (b', 69) \<and> drop 70 b' = replicate 20 SPACE \<and>
    unflatten 71 ex_lc True b' 69 0 IMetadata_new = Some (ex_meta, q)"
  using flatten_unflatten [OF ex_meta_ok, of 80 "replicate 90 SPACE"] by (simp add: ex_meta_length)

text \<open>C33: writing stays inside a buffer that is larger than the text; when the entries before the
  last one have already filled more than the buffer, the size that is left wraps around and the
  next number is written out of bounds.\<close>

theorem flatten_bounds:
  "(length (meta_text lc m) < length b \<longrightarrow>
      (\<exists>b'. flatten lc (length b) m (b, 0) = Some (b', length (meta_text lc m)) \<and> length b' = length b)) \<and>
   (length b < length (entries_text lc es) \<and> length (entries_text lc es) < 2 ^ 64 \<longrightarrow>
      flatten lc (length b) (IMetadata (es @ [(k, e)])) (b, 0) = None)"
proof (intro conjI impI)
  assume "length (meta_text lc m) < length b"
  then obtain st where st: "flatten lc (length b) m (b, 0) = Some st" "written b 0 (meta_text lc m) st"
    using flatten_written(1) [OF written_0 [of 0 b], of lc m "length b"] by auto
  then show "\<exists>b'. flatten lc (length b) m (b, 0) = Some (b', length (meta_text lc m)) \<and> length b' = length b"
    by (cases st) (auto simp: written_def)
next
  assume "length b < length (entries_text lc es) \<and> length (entries_text lc es) < 2 ^ 64"
  then show "flatten lc (length b) (IMetadata (es @ [(k, e)])) (b, 0) = None" using flatten_overflow_entry by blast
qed

theorem flatten_bounds_witness:
  "(\<exists>b'. flatten ex_lc 90 ex_meta (replicate 90 SPACE, 0) = Some (b', 69) \<and> length b' = 90) \<and>
   flatten ex_lc 4 (IMetadata ([(5, IEntry_new 5)] @ [(6, IEntry_new 6)])) (replicate 4 SPACE, 0) = None"
proof -
  have "length (entries_text ex_lc [(5, IEntry_new 5)]) = 7" by code_simp
  with flatten_bounds [of ex_lc ex_meta "replicate 90 SPACE" "[]" 0 "IEntry_new 0"]
    flatten_bounds [of ex_lc ex_meta "replicate 4 SPACE" "[(5, IEntry_new 5)]" 6 "IEntry_new 6"]
  show ?thesis by (simp add: ex_meta_length)
qed

definition reread :: "IMetadata \<Rightarrow> IMetadata option" where
  "reread m = (let t = meta_text ex_lc m in
     map_option fst (unflatten 60 ex_lc True (t @ replicate 40 NUL) (length t) 0 IMetadata_new))"

text \<open>Metadata outside \<open>meta_ok\<close>, by example: the semicolon after a metadata item is missed when the
  last entry of the item is a number, and the entries behind it are lost; a size at the very end
  brings an entry of tag 0 with it; and two \<open>Memory\<close> items are merged into the first.\<close>

lemma unflatten_loses:
  "reread (IMetadata [(7, IEntry 7 TYPE_IMetadata (replicate 10 []) [IMetadata [(5, plain_entry 5 TYPE_MINT32 [Item_MINT32 1])]]),
      (9, plain_entry 9 TYPE_MINT32 [Item_MINT32 1])]) =
     Some (IMetadata [(7, IEntry 7 TYPE_IMetadata (replicate 10 [])
       [IMetadata [(0, IEntry 0 TYPE_IMetadata (replicate 10 []) [IMetadata [(1, IEntry_new 1)]]),
                   (5, plain_entry 5 TYPE_MINT32 [Item_MINT32 1])]])])"
  "reread ex_nested = Some (IMetadata ((0, IEntry_new 0) # md_mMap ex_nested))"
  "reread (IMetadata [(3, plain_entry 3 TYPE_Memory [Item_Memory ''a'', Item_Memory ''b''])]) =
     Some (IMetadata [(3, plain_entry 3 TYPE_Memory [Item_Memory ''ab'', Item_Memory []])])"
  by code_simp+

lemma unflatten_stays:
  assumes "rest_at src p (NUL # NUL # r)" and "p < B"
  shows "unflatten_loop (Suc n) lc ltr src B p m = unflatten_loop n lc ltr src B p (kv_add 0 (IEntry_new 0) m)"
proof -
  have d: "drop p src = NUL # NUL # r" using assms(1) by (simp add: rest_at_def)
  have d1: "drop (Suc p) src = NUL # r" using d by (metis drop_Suc list.sel(3) tl_drop)
  have c: "\<not> is_space NUL" "\<not> is_digit NUL" by (simp_all add: is_space_def is_digit_def)
  have info: "getInfo src p = Some (0, 0, 0, p)"
    using c by (simp add: getInfo_def skip_spaces_def atoi_def strtol_def move_past_def getNextSpace_def d d1)
  have semi: "getSemicolon src p = Some NUL" using rest_at_deref [OF assms(1), of 1] by (simp add: getSemicolon_def)
  show ?thesis unfolding unflatten_loop.simps info
    by (simp add: assms(2) semi string_to_entry_def plain_type_def del: unflatten_loop.simps)
qed

text \<open>C34: at two consecutive zero bytes before the end of the given size the loop of \<open>unflatten\<close> makes a
  step without moving: with any number of steps it does not come to an end. (After a single zero
  byte it can still find the space that it looks for.)\<close>

theorem unflatten_diverges:
  assumes "rest_at src p (NUL # NUL # r)" and "p < B"
  shows "unflatten_loop (Suc n) lc ltr src B p m = unflatten_loop n lc ltr src B p (kv_add 0 (IEntry_new 0) m) \<and>
    unflatten n lc ltr src B p (IMetadata m') = None"
proof -
  have "unflatten_loop n lc ltr src B p m' = None" for m'
    by (induction n arbitrary: m') (simp_all add: unflatten_stays [OF assms] del: unflatten_loop.simps(2))
  with unflatten_stays [OF assms] show ?thesis by (simp add: unflatten_def del: unflatten_loop.simps)
qed

theorem unflatten_diverges_witness:
  "unflatten_loop 5 ex_lc True (replicate 8 NUL) 4 0 [] = unflatten_loop 4 ex_lc True (replicate 8 NUL) 4 0 [(0, IEntry_new 0)] \<and>
   unflatten 4 ex_lc True (replicate 8 NUL) 4 0 (IMetadata []) = None"
  using unflatten_diverges [of "replicate 8 NUL" 0 "replicate 6 NUL" 4 4 ex_lc True "[]" "[]"]
  by (simp add: rest_at_def numeral_eq_Suc del: unflatten_loop.simps)

section \<open>The sum of two containers\<close>

lemma map_of_add_all: "map_of (add_all xs m) t = (case map_of (rev xs) t of None \<Rightarrow> map_of m t | Some e \<Rightarrow> Some e)"
proof (induction xs arbitrary: m)
  case (Cons x xs)
  obtain k e where x: "x = (k, e)" by (cases x)
  have "map_of (add_all (x # xs) m) t = map_of (add_all xs (kv_add k e m)) t" by (simp add: add_all_def x)
  also have "\<dots> = (case map_of (rev xs) t of None \<Rightarrow> map_of (kv_add k e m) t | Some e \<Rightarrow> Some e)" by (rule Cons.IH)
  finally show ?case by (auto simp: x map_add_def split: option.splits)
qed (simp add: add_all_def)

lemma map_of_rev_wf: "kv_wf m \<Longrightarrow> map_of (rev m) = map_of m"
  using kv_wf_distinct [of m] by (intro map_of_inject_set [THEN iffD2]) (auto simp: kv_keys_def simp flip: rev_map)

lemma kv_wf_add_all: "kv_wf m \<Longrightarrow> kv_wf (add_all xs m)"
  by (induction xs arbitrary: m) (auto simp: add_all_def intro: inv_intros)

text \<open>C35: the sum of two containers has the entries of both. Of the entries of a tag in both it
  keeps that of the right operand, unless the right one has more entries; then it keeps that
  of the left.\<close>

theorem plus_assign_entries:
  assumes "kv_wf (md_mMap m)" and "kv_wf (md_mMap other)"
  shows "kv_wf (md_mMap (plus_assign m other)) \<and>
    map_of (md_mMap (plus_assign m other)) t =
      (if md_count other \<le> md_count m
       then (case map_of (md_mMap other) t of Some e \<Rightarrow> Some e | None \<Rightarrow> map_of (md_mMap m) t)
       else (case map_of (md_mMap m) t of Some e \<Rightarrow> Some e | None \<Rightarrow> map_of (md_mMap other) t))"
  using assms by (auto simp: plus_assign_def md_count_def map_of_add_all map_of_rev_wf kv_wf_add_all split: option.splits)

theorem plus_assign_entries_witness:
  "entryFor 5 (plus_assign (IMetadata [(5, IEntry_new 5)]) (IMetadata [(5, plain_entry 5 TYPE_MUINT8 [Item_MUINT8 1])])) =
     plain_entry 5 TYPE_MUINT8 [Item_MUINT8 1] \<and>
   entryFor 5 (plus_assign (IMetadata [(5, IEntry_new 5)])
     (IMetadata [(5, plain_entry 5 TYPE_MUINT8 [Item_MUINT8 1]), (6, IEntry_new 6)])) = IEntry_new 5"
  using plus_assign_entries [of "IMetadata [(5, IEntry_new 5)]" "IMetadata [(5, plain_entry 5 TYPE_MUINT8 [Item_MUINT8 1])]" 5]
    plus_assign_entries [of "IMetadata [(5, IEntry_new 5)]"
      "IMetadata [(5, plain_entry 5 TYPE_MUINT8 [Item_MUINT8 1]), (6, IEntry_new 6)]" 5]
  by (simp add: entryFor_def kv_wf_Cons md_count_def)

end
