(* ===== verification/AppBuffers.thy ===== *)
theory AppBuffers
  imports StreamBuffers Metadata
begin

text \<open>
  The streams and buffers of the client of the camera device
  (\<open>middleware/v3/app/Cam3ImageStreamInfo.cpp\<close>, \<open>middleware/v3/app/AppStreamBuffers.cpp\<close> and
  the fences of a graphic buffer in \<open>utils/imgbuf/GraphicImageBufferHeap.cpp\<close>).

  A \<open>camera3_stream\<close> belongs to the client and is shared with it: it is a position in a list of
  streams, and the stream information that the device attaches to it is its \<open>priv\<close> field.
\<close>

section \<open>Streams\<close>

abbreviation (input) CAMERA3_STREAM_OUTPUT :: int where "CAMERA3_STREAM_OUTPUT \<equiv> 0"
abbreviation (input) CAMERA3_STREAM_INPUT :: int where "CAMERA3_STREAM_INPUT \<equiv> 1"
abbreviation (input) CAMERA3_STREAM_BIDIRECTIONAL :: int where "CAMERA3_STREAM_BIDIRECTIONAL \<equiv> 2"
abbreviation (input) eSTREAMTYPE_IMAGE_OUT :: int where "eSTREAMTYPE_IMAGE_OUT \<equiv> 0"
abbreviation (input) eSTREAMTYPE_IMAGE_IN :: int where "eSTREAMTYPE_IMAGE_IN \<equiv> 1"
abbreviation (input) eSTREAMTYPE_IMAGE_INOUT :: int where "eSTREAMTYPE_IMAGE_INOUT \<equiv> 2"
abbreviation (input) eSTREAMTYPE_META_OUT :: int where "eSTREAMTYPE_META_OUT \<equiv> 4"
abbreviation (input) eSTREAMTYPE_META_IN :: int where "eSTREAMTYPE_META_IN \<equiv> 5"

record BufPlane =
  bp_sizeInBytes :: nat
  bp_rowStrideInBytes :: nat

record Cam3ImageStreamInfo =
  ci_mpCamera3Stream :: nat
  ci_mStreamName :: string
  ci_mStreamId :: StreamId_T
  ci_mStreamType :: int
  ci_mUsageForConsumer :: MUINT32
  ci_mImgFormat :: int
  ci_mImgFormatToAlloc :: int
  ci_mImgSize :: "MUINT32 \<times> MUINT32"
  ci_mvbufPlanes :: "BufPlane list"
  ci_mTransform :: MUINT32
  ci_mDataSpace :: int

record camera3_stream =
  c3_stream_type :: int
  c3_width :: MUINT32
  c3_height :: MUINT32
  c3_format :: int
  c3_usage :: MUINT32
  c3_max_buffers :: MUINT32
  c3_priv :: "Cam3ImageStreamInfo option"
  c3_data_space :: int
  c3_rotation :: int

definition Cam3ImageStreamInfo_cast :: "nat \<Rightarrow> camera3_stream list \<Rightarrow> Cam3ImageStreamInfo option" where
  "Cam3ImageStreamInfo_cast stream streams = c3_priv (streams ! stream)"

definition Cam3ImageStreamInfo_new ::
    "nat \<Rightarrow> string \<Rightarrow> StreamId_T \<Rightarrow> MUINT32 \<Rightarrow> MUINT32 \<Rightarrow> int \<Rightarrow> int \<Rightarrow> BufPlane list \<Rightarrow> MUINT32 \<Rightarrow> MUINT32 \<Rightarrow> int \<Rightarrow>
     camera3_stream list \<Rightarrow> Cam3ImageStreamInfo \<times> camera3_stream list" where
  "Cam3ImageStreamInfo_new pCamera3Stream streamName streamId usageForConsumer usageForAllocator
       imgFormatToAlloc imgFormatInFact bufPlanes maxBufNum transform dataSpace streams =
     (let s = streams ! pCamera3Stream;
          i = \<lparr>ci_mpCamera3Stream = pCamera3Stream, ci_mStreamName = streamName, ci_mStreamId = streamId,
               ci_mStreamType =
                 (if c3_stream_type s = CAMERA3_STREAM_OUTPUT then eSTREAMTYPE_IMAGE_OUT
                  else if c3_stream_type s = CAMERA3_STREAM_INPUT then eSTREAMTYPE_IMAGE_IN
                  else if c3_stream_type s = CAMERA3_STREAM_BIDIRECTIONAL then eSTREAMTYPE_IMAGE_INOUT
                  else c3_stream_type s),
               ci_mUsageForConsumer = usageForConsumer, ci_mImgFormat = imgFormatInFact,
               ci_mImgFormatToAlloc = imgFormatToAlloc, ci_mImgSize = (c3_width s, c3_height s),
               ci_mvbufPlanes = bufPlanes, ci_mTransform = transform, ci_mDataSpace = dataSpace\<rparr>
      in (i, streams[pCamera3Stream := s\<lparr>c3_priv := Some i, c3_max_buffers := maxBufNum, c3_usage := usageForAllocator\<rparr>]))"

definition get_camera3_stream :: "Cam3ImageStreamInfo \<Rightarrow> nat" where
  "get_camera3_stream i = ci_mpCamera3Stream i"

definition getImgFormatToAlloc :: "Cam3ImageStreamInfo \<Rightarrow> int" where
  "getImgFormatToAlloc i = ci_mImgFormatToAlloc i"

definition getUsageForConsumer :: "Cam3ImageStreamInfo \<Rightarrow> MUINT32" where
  "getUsageForConsumer i = ci_mUsageForConsumer i"

definition getUsageForAllocator :: "camera3_stream list \<Rightarrow> Cam3ImageStreamInfo \<Rightarrow> MUINT32" where
  "getUsageForAllocator streams i = c3_usage (streams ! ci_mpCamera3Stream i)"

definition getImgFormat :: "Cam3ImageStreamInfo \<Rightarrow> int" where
  "getImgFormat i = ci_mImgFormat i"

definition getImgSize :: "Cam3ImageStreamInfo \<Rightarrow> MUINT32 \<times> MUINT32" where
  "getImgSize i = ci_mImgSize i"

definition getBufPlanes :: "Cam3ImageStreamInfo \<Rightarrow> BufPlane list" where
  "getBufPlanes i = ci_mvbufPlanes i"

definition getTransform :: "Cam3ImageStreamInfo \<Rightarrow> MUINT32" where
  "getTransform i = ci_mTransform i"

definition setTransform :: "MUINT32 \<Rightarrow> Cam3ImageStreamInfo \<Rightarrow> MERROR \<times> Cam3ImageStreamInfo" where
  "setTransform transform i = (OK, i\<lparr>ci_mTransform := transform\<rparr>)"

definition getDataSpace :: "Cam3ImageStreamInfo \<Rightarrow> int" where
  "getDataSpace i = ci_mDataSpace i"

definition ci_getStreamName :: "Cam3ImageStreamInfo \<Rightarrow> string" where
  "ci_getStreamName i = ci_mStreamName i"

definition ci_getStreamId :: "Cam3ImageStreamInfo \<Rightarrow> StreamId_T" where
  "ci_getStreamId i = ci_mStreamId i"

definition ci_getStreamType :: "Cam3ImageStreamInfo \<Rightarrow> int" where
  "ci_getStreamType i = ci_mStreamType i"

definition getMaxBufNum :: "camera3_stream list \<Rightarrow> Cam3ImageStreamInfo \<Rightarrow> nat" where
  "getMaxBufNum streams i = unat (c3_max_buffers (streams ! ci_mpCamera3Stream i))"

definition setMaxBufNum :: "nat \<Rightarrow> Cam3ImageStreamInfo \<Rightarrow> camera3_stream list \<Rightarrow> camera3_stream list" where
  "setMaxBufNum n i streams =
     streams[ci_mpCamera3Stream i := (streams ! ci_mpCamera3Stream i)\<lparr>c3_max_buffers := word_of_nat n\<rparr>]"

definition getMinInitBufNum :: "Cam3ImageStreamInfo \<Rightarrow> nat" where
  "getMinInitBufNum i = 0"

section \<open>Buffers\<close>

text \<open>
  A graphic buffer, as far as the device changes it, and a buffer of an image stream that holds
  one. The buffer inherits the lock, the status word and the users manager of
  \<open>StreamBufferImp\<close>.
\<close>

record GraphicHeap =
  gh_mpBufferHandle :: nat
  gh_mAcquireFence :: int
  gh_mReleaseFence :: int

record AppImageStreamBuffer = StreamBufferImp +
  mImageBufferHeap :: GraphicHeap

definition AppImageStreamBuffer_new :: "IStreamInfo \<Rightarrow> nat \<Rightarrow> GraphicHeap \<Rightarrow> UsersManager option \<Rightarrow> AppImageStreamBuffer" where
  "AppImageStreamBuffer_new info addr heap um =
     StreamBufferImp.extend (StreamBufferImp_new info addr um) \<lparr>mImageBufferHeap = heap\<rparr>"

definition AppImage_Allocator ::
    "IStreamInfo \<Rightarrow> nat \<Rightarrow> GraphicHeap option \<Rightarrow> IStreamInfo option \<Rightarrow> AppImageStreamBuffer option" where
  "AppImage_Allocator mpStreamInfo addr pHeap pStreamInfo =
     (case pHeap of
        None \<Rightarrow> None
      | Some heap \<Rightarrow>
          Some (AppImageStreamBuffer_new (case pStreamInfo of Some i \<Rightarrow> i | None \<Rightarrow> mpStreamInfo) addr heap None))"

definition getImageBufferHeap :: "AppImageStreamBuffer \<Rightarrow> GraphicHeap" where
  "getImageBufferHeap b = mImageBufferHeap b"

definition app_getAcquireFence :: "AppImageStreamBuffer \<Rightarrow> int" where
  "app_getAcquireFence b = gh_mAcquireFence (mImageBufferHeap b)"

definition app_setAcquireFence :: "int \<Rightarrow> AppImageStreamBuffer \<Rightarrow> AppImageStreamBuffer" where
  "app_setAcquireFence fence b = b\<lparr>mImageBufferHeap := (mImageBufferHeap b)\<lparr>gh_mAcquireFence := fence\<rparr>\<rparr>"

definition app_getReleaseFence :: "AppImageStreamBuffer \<Rightarrow> int" where
  "app_getReleaseFence b = gh_mReleaseFence (mImageBufferHeap b)"

definition app_setReleaseFence :: "int \<Rightarrow> AppImageStreamBuffer \<Rightarrow> AppImageStreamBuffer" where
  "app_setReleaseFence fence b = b\<lparr>mImageBufferHeap := (mImageBufferHeap b)\<lparr>gh_mReleaseFence := fence\<rparr>\<rparr>"

text \<open>
  After the users of a graph are enqueued, each of them that is a producer or a consumer gets
  the acquire fence of the buffer: the first one the descriptor, the others a duplicate.
\<close>

fun set_user_fences ::
    "'k sync_kernel \<Rightarrow> int \<Rightarrow> MyUserGraph \<Rightarrow> nat list \<Rightarrow> bool \<Rightarrow> users \<times> 'k \<Rightarrow> (users \<times> 'k) option" where
  "set_user_fences K AF g [] found usk = Some usk"
| "set_user_fences K AF g (i # is) found (us, k) = do {
     category \<leftarrow> graph_getCategory i (us, g);
     if category = NONE then set_user_fences K AF g is found (us, k)
     else if \<not> found then do {
       (err, us1) \<leftarrow> graph_setAcquireFence i AF (us, g);
       set_user_fences K AF g is True (us1, k)
     } else do {
       let (fence, k1) = k_dup K AF k;
       (err, us1) \<leftarrow> graph_setAcquireFence i fence (us, g);
       set_user_fences K AF g is True (us1, k1)
     }
   }"

definition app_enqueUserGraph ::
    "'k sync_kernel \<Rightarrow> nat \<Rightarrow> AppImageStreamBuffer \<times> 'k \<Rightarrow> (int \<times> AppImageStreamBuffer \<times> 'k) option" where
  "app_enqueUserGraph K pUserGraph = (\<lambda>(b, k). do {
     (groupIndex, um) \<leftarrow> enqueUserGraph pUserGraph (mUsersManager b);
     let b1 = b\<lparr>mUsersManager := um\<rparr>;
     if groupIndex \<noteq> 0 then Some (groupIndex, b1, k)
     else do {
       let g = mUserGroupGraph um ! pUserGraph;
       (us, k1) \<leftarrow> set_user_fences K (app_getAcquireFence b1) g [0..<graph_size g] False (mUsers um, k);
       Some (groupIndex, b1\<lparr>mUsersManager := um\<lparr>mUsers := us\<rparr>\<rparr>, k1)
     }
   })"

text \<open>
  A buffer of metadata. The type of its stream is kept here, beside the name and the id. The
  record stands for any \<open>IMetaStreamBuffer\<close>: those of the pipeline have the same members.
\<close>

record AppMetaStreamBuffer = StreamBufferImp +
  am_streamType :: int
  am_mMetadata :: IMetadata
  am_mRepeating :: bool

definition AppMetaStreamBuffer_new :: "IStreamInfo \<Rightarrow> int \<Rightarrow> nat \<Rightarrow> UsersManager option \<Rightarrow> AppMetaStreamBuffer" where
  "AppMetaStreamBuffer_new info streamType addr um =
     StreamBufferImp.extend (StreamBufferImp_new info addr um)
       \<lparr>am_streamType = streamType, am_mMetadata = IMetadata_new, am_mRepeating = False\<rparr>"

definition AppMetaStreamBuffer_copy ::
    "IStreamInfo \<Rightarrow> int \<Rightarrow> nat \<Rightarrow> IMetadata \<Rightarrow> UsersManager option \<Rightarrow> AppMetaStreamBuffer" where
  "AppMetaStreamBuffer_copy info streamType addr metadata um =
     StreamBufferImp.extend (StreamBufferImp_new info addr um)
       \<lparr>am_streamType = streamType, am_mMetadata = metadata, am_mRepeating = False\<rparr>"

definition AppMeta_Allocator :: "IStreamInfo \<Rightarrow> int \<Rightarrow> nat \<Rightarrow> IMetadata option \<Rightarrow> AppMetaStreamBuffer" where
  "AppMeta_Allocator mpStreamInfo streamType addr metadata =
     (case metadata of
        None \<Rightarrow> AppMetaStreamBuffer_new mpStreamInfo streamType addr None
      | Some m \<Rightarrow> AppMetaStreamBuffer_copy mpStreamInfo streamType addr m None)"

definition app_setRepeating :: "bool \<Rightarrow> AppMetaStreamBuffer \<Rightarrow> AppMetaStreamBuffer" where
  "app_setRepeating repeating b = b\<lparr>am_mRepeating := repeating\<rparr>"

definition app_isRepeating :: "AppMetaStreamBuffer \<Rightarrow> bool" where
  "app_isRepeating b = am_mRepeating b"

end
