(* ===== verification/AppFrames.thy ===== *)
theory AppFrames
  imports AppBuffers
begin

text \<open>
  The frame handler of the client's streams (\<open>middleware/v3/app/AppStreamMgr.FrameHandler.cpp\<close>
  and the structures in \<open>AppStreamMgr.h\<close>). It keeps the frames whose results the client still
  waits for and decides what to call back: metadata, images, errors and the shutter.

  Frames, image items, image buffers, metadata buffers and the client's streams are shared
  objects and positions in the lists of \<open>App\<close>. An image item is in the item set of its frame and
  in the frame queue of its stream; the iterator it keeps is its own place in that queue, so it
  is the item's position. A metadata item is only in its set. \<open>None\<close> is a fault: a null pointer,
  an absent key, or a step past the end of a list.
\<close>

section \<open>Data\<close>

datatype State = ST_IN_FLIGHT | ST_PRE_RELEASE | ST_VALID | ST_ERROR

abbreviation (input) RETURNED :: nat where "RETURNED \<equiv> 0"
abbreviation (input) ERROR_SENT_FRAME :: nat where "ERROR_SENT_FRAME \<equiv> 1"
abbreviation (input) ERROR_SENT_META :: nat where "ERROR_SENT_META \<equiv> 2"
abbreviation (input) ERROR_SENT_IMAGE :: nat where "ERROR_SENT_IMAGE \<equiv> 3"
abbreviation (input) CAMERA3_MSG_ERROR_REQUEST :: int where "CAMERA3_MSG_ERROR_REQUEST \<equiv> 2"
abbreviation (input) CAMERA3_MSG_ERROR_RESULT :: int where "CAMERA3_MSG_ERROR_RESULT \<equiv> 3"
abbreviation (input) CAMERA3_MSG_ERROR_BUFFER :: int where "CAMERA3_MSG_ERROR_BUFFER \<equiv> 4"

definition MTK_SENSOR_TIMESTAMP :: MUINT32 where "MTK_SENSOR_TIMESTAMP = 0xE0010"
definition MTK_REQUEST_PIPELINE_DEPTH :: MUINT32 where "MTK_REQUEST_PIPELINE_DEPTH = 0xC0009"
definition MTK_REQUEST_PARTIAL_RESULT_COUNT :: MUINT32 where "MTK_REQUEST_PARTIAL_RESULT_COUNT = 0xC000B"
definition LOG_TAG :: string where "LOG_TAG = ''MtkCam/AppStreamMgr''"

record MetaItem_T =
  mi_pFrame :: nat
  mi_state :: State
  mi_history :: MUINT32
  mi_buffer :: nat
  mi_bufferNo :: MUINT32

record MetaItemSet =
  ms_items :: "(StreamId_T, MetaItem_T option) kvec"
  ms_asInput :: bool
  ms_numReturnedStreams :: nat
  ms_numValidStreams :: nat
  ms_numErrorStreams :: nat
  ms_hasLastPartial :: bool

record ImageItem =
  ii_pFrame :: nat
  ii_pItemSet :: bool
  ii_state :: State
  ii_history :: MUINT32
  ii_buffer :: nat

record ImageItemSet =
  is_items :: "(StreamId_T, nat option) kvec"
  is_asInput :: bool
  is_numReturnedStreams :: nat
  is_numValidStreams :: nat
  is_numErrorStreams :: nat

record FrameParcel =
  fp_vOutputImageItem :: ImageItemSet
  fp_vInputImageItem :: ImageItemSet
  fp_vOutputMetaItem :: MetaItemSet
  fp_vInputMetaItem :: MetaItemSet
  fp_frameNo :: MUINT32
  fp_timestampShutter :: "64 word"
  fp_errors :: MUINT32

record ImageConfigItem =
  ic_pStreamInfo :: Cam3ImageStreamInfo
  ic_vItemFrameQueue :: "nat list"

record CallbackParcel =
  cp_vInputImageItem :: "(nat \<times> Cam3ImageStreamInfo) list"
  cp_vOutputImageItem :: "(nat \<times> Cam3ImageStreamInfo) list"
  cp_vOutputMetaItem :: "(nat \<times> MUINT32) list"
  cp_vError :: "(Cam3ImageStreamInfo option \<times> int) list"
  cp_shutter :: "64 word option"
  cp_timestampShutter :: "64 word"
  cp_frameNo :: MUINT32
  cp_valid :: bool

record 'k App =
  ap_mAtMostMetaStreamCount :: nat
  ap_mIsExternal :: bool
  ap_mFrameQueue :: "nat list"
  ap_latestResultFrameNo :: MUINT32
  ap_mImageConfigMap :: "(StreamId_T, ImageConfigItem) kvec"
  ap_mMetaConfigMap :: "(StreamId_T, IStreamInfo) kvec"
  ap_frames :: "FrameParcel list"
  ap_items :: "ImageItem list"
  ap_images :: "AppImageStreamBuffer list"
  ap_metas :: "AppMetaStreamBuffer list"
  ap_streams :: "camera3_stream list"
  ap_sync :: 'k

definition MetaItemSet_new :: "bool \<Rightarrow> MetaItemSet" where
  "MetaItemSet_new asInput = \<lparr>ms_items = [], ms_asInput = asInput, ms_numReturnedStreams = 0,
     ms_numValidStreams = 0, ms_numErrorStreams = 0, ms_hasLastPartial = False\<rparr>"

definition ImageItemSet_new :: "bool \<Rightarrow> ImageItemSet" where
  "ImageItemSet_new asInput = \<lparr>is_items = [], is_asInput = asInput, is_numReturnedStreams = 0,
     is_numValidStreams = 0, is_numErrorStreams = 0\<rparr>"

definition FrameParcel_new :: FrameParcel where
  "FrameParcel_new = \<lparr>fp_vOutputImageItem = ImageItemSet_new False, fp_vInputImageItem = ImageItemSet_new True,
     fp_vOutputMetaItem = MetaItemSet_new False, fp_vInputMetaItem = MetaItemSet_new True,
     fp_frameNo = 0, fp_timestampShutter = 0, fp_errors = 0\<rparr>"

definition CallbackParcel_new :: "MUINT32 \<Rightarrow> 64 word \<Rightarrow> CallbackParcel" where
  "CallbackParcel_new frameNo timestampShutter = \<lparr>cp_vInputImageItem = [], cp_vOutputImageItem = [],
     cp_vOutputMetaItem = [], cp_vError = [], cp_shutter = None, cp_timestampShutter = timestampShutter,
     cp_frameNo = frameNo, cp_valid = False\<rparr>"

text \<open>Access to the shared objects, and to the image item set an item points to.\<close>

definition edit_frame :: "nat \<Rightarrow> (FrameParcel \<Rightarrow> FrameParcel) \<Rightarrow> 'k App \<Rightarrow> 'k App" where
  "edit_frame f g a = a\<lparr>ap_frames := (ap_frames a)[f := g (ap_frames a ! f)]\<rparr>"

definition edit_item :: "nat \<Rightarrow> (ImageItem \<Rightarrow> ImageItem) \<Rightarrow> 'k App \<Rightarrow> 'k App" where
  "edit_item i g a = a\<lparr>ap_items := (ap_items a)[i := g (ap_items a ! i)]\<rparr>"

definition edit_image :: "nat \<Rightarrow> (AppImageStreamBuffer \<Rightarrow> AppImageStreamBuffer) \<Rightarrow> 'k App \<Rightarrow> 'k App" where
  "edit_image b g a = a\<lparr>ap_images := (ap_images a)[b := g (ap_images a ! b)]\<rparr>"

definition edit_meta :: "nat \<Rightarrow> (AppMetaStreamBuffer \<Rightarrow> AppMetaStreamBuffer) \<Rightarrow> 'k App \<Rightarrow> 'k App" where
  "edit_meta b g a = a\<lparr>ap_metas := (ap_metas a)[b := g (ap_metas a ! b)]\<rparr>"

definition image_set :: "bool \<Rightarrow> FrameParcel \<Rightarrow> ImageItemSet" where
  "image_set asInput p = (if asInput then fp_vInputImageItem p else fp_vOutputImageItem p)"

definition edit_image_set :: "bool \<Rightarrow> (ImageItemSet \<Rightarrow> ImageItemSet) \<Rightarrow> FrameParcel \<Rightarrow> FrameParcel" where
  "edit_image_set asInput g p =
     (if asInput then p\<lparr>fp_vInputImageItem := g (fp_vInputImageItem p)\<rparr>
      else p\<lparr>fp_vOutputImageItem := g (fp_vOutputImageItem p)\<rparr>)"

definition edit_meta_set :: "(MetaItemSet \<Rightarrow> MetaItemSet) \<Rightarrow> FrameParcel \<Rightarrow> FrameParcel" where
  "edit_meta_set g p = p\<lparr>fp_vOutputMetaItem := g (fp_vOutputMetaItem p)\<rparr>"

definition image_streamId :: "'k App \<Rightarrow> nat \<Rightarrow> StreamId_T" where
  "image_streamId a b = si_streamId (mStreamInfo (ap_images a ! b))"

definition meta_streamId :: "'k App \<Rightarrow> nat \<Rightarrow> StreamId_T" where
  "meta_streamId a b = si_streamId (mStreamInfo (ap_metas a ! b))"

section \<open>Configuration\<close>

text \<open>The number of partial results comes from the static metadata of the device.\<close>

definition partial_count :: "IMetadata \<Rightarrow> nat option" where
  "partial_count static =
     (let entry = entryFor MTK_REQUEST_PARTIAL_RESULT_COUNT static in
      if ent_isEmpty entry then Some 1
      else case itemAt TYPE_MINT32 0 entry of
        Some (Item_MINT32 n) \<Rightarrow> Some (unat (scast n :: 64 word))
      | _ \<Rightarrow> None)"

definition FrameHandler_new :: "IMetadata \<Rightarrow> bool \<Rightarrow> camera3_stream list \<Rightarrow> 'k \<Rightarrow> 'k App option" where
  "FrameHandler_new static isExternal streams k = do {
     n \<leftarrow> partial_count static;
     Some \<lparr>ap_mAtMostMetaStreamCount = n, ap_mIsExternal = isExternal, ap_mFrameQueue = [],
       ap_latestResultFrameNo = 0, ap_mImageConfigMap = [], ap_mMetaConfigMap = [], ap_frames = [],
       ap_items = [], ap_images = [], ap_metas = [], ap_streams = streams, ap_sync = k\<rparr>
   }"

definition isEmptyFrameQueue :: "'k App \<Rightarrow> bool" where
  "isEmptyFrameQueue a \<longleftrightarrow> ap_mFrameQueue a = []"

definition getFrameQueueSize :: "'k App \<Rightarrow> nat" where
  "getFrameQueueSize a = length (ap_mFrameQueue a)"

definition queryOldestRequestNumber :: "MUINT32 \<Rightarrow> 'k App \<Rightarrow> MERROR \<times> MUINT32" where
  "queryOldestRequestNumber ReqNo a =
     (case ap_mFrameQueue a of [] \<Rightarrow> (22, ReqNo) | f # fs \<Rightarrow> (OK, fp_frameNo (ap_frames a ! f)))"

definition addConfigStream_image :: "Cam3ImageStreamInfo \<Rightarrow> 'k App \<Rightarrow> 'k App" where
  "addConfigStream_image i a = a\<lparr>ap_mImageConfigMap :=
     kv_add (ci_getStreamId i) \<lparr>ic_pStreamInfo = i, ic_vItemFrameQueue = []\<rparr> (ap_mImageConfigMap a)\<rparr>"

definition addConfigStream_meta :: "IStreamInfo \<Rightarrow> 'k App \<Rightarrow> 'k App" where
  "addConfigStream_meta i a = a\<lparr>ap_mMetaConfigMap := kv_add (si_streamId i) i (ap_mMetaConfigMap a)\<rparr>"

definition getConfigMetaStream :: "nat \<Rightarrow> 'k App \<Rightarrow> IStreamInfo option" where
  "getConfigMetaStream index a =
     (if index < length (ap_mMetaConfigMap a) then Some (snd (ap_mMetaConfigMap a ! index)) else None)"

section \<open>Registering a frame\<close>

record Request =
  rq_frameNo :: MUINT32
  rq_vInputImageBuffers :: "(StreamId_T, nat) kvec"
  rq_vOutputImageBuffers :: "(StreamId_T, nat) kvec"
  rq_vInputMetaBuffers :: "(StreamId_T, nat) kvec"

definition set_add_image :: "StreamId_T \<Rightarrow> nat option \<Rightarrow> ImageItemSet \<Rightarrow> ImageItemSet" where
  "set_add_image streamId i s = s\<lparr>is_items := kv_add streamId i (is_items s)\<rparr>"

definition set_add_meta :: "StreamId_T \<Rightarrow> MetaItem_T option \<Rightarrow> MetaItemSet \<Rightarrow> MetaItemSet" where
  "set_add_meta streamId i s = s\<lparr>ms_items := kv_add streamId i (ms_items s)\<rparr>"

definition edit_queue :: "StreamId_T \<Rightarrow> (nat list \<Rightarrow> nat list) \<Rightarrow> 'k App \<Rightarrow> 'k App" where
  "edit_queue streamId g a = a\<lparr>ap_mImageConfigMap :=
     kv_edit streamId (\<lambda>c. c\<lparr>ic_vItemFrameQueue := g (ic_vItemFrameQueue c)\<rparr>) (ap_mImageConfigMap a)\<rparr>"

fun registerStreamBuffers_image :: "nat list \<Rightarrow> nat \<Rightarrow> bool \<Rightarrow> 'k App \<Rightarrow> MERROR \<times> 'k App" where
  "registerStreamBuffers_image [] pFrame asInput a = (OK, a)"
| "registerStreamBuffers_image (b # bs) pFrame asInput a =
     (let streamId = image_streamId a b in
      if kv_index (ap_mImageConfigMap a) streamId = None then (NAME_NOT_FOUND, a)
      else let pItem = length (ap_items a);
               a1 = edit_queue streamId (\<lambda>q. q @ [pItem]) a;
               a2 = a1\<lparr>ap_items := ap_items a1 @ [\<lparr>ii_pFrame = pFrame, ii_pItemSet = asInput,
                      ii_state = ST_IN_FLIGHT, ii_history = 0, ii_buffer = b\<rparr>]\<rparr>;
               a3 = edit_frame pFrame (edit_image_set asInput (set_add_image streamId (Some pItem))) a2
           in registerStreamBuffers_image bs pFrame asInput a3)"

definition MetaItem_new :: "nat \<Rightarrow> nat \<Rightarrow> MUINT32 \<Rightarrow> MetaItem_T" where
  "MetaItem_new pFrame b bufferNo = \<lparr>mi_pFrame = pFrame, mi_state = ST_IN_FLIGHT, mi_history = 0,
     mi_buffer = b, mi_bufferNo = bufferNo\<rparr>"

fun registerStreamBuffers_meta :: "nat list \<Rightarrow> nat \<Rightarrow> 'k App \<Rightarrow> MERROR \<times> 'k App" where
  "registerStreamBuffers_meta [] pFrame a = (OK, a)"
| "registerStreamBuffers_meta (b # bs) pFrame a =
     registerStreamBuffers_meta bs pFrame
       (edit_frame pFrame (\<lambda>p. p\<lparr>fp_vInputMetaItem :=
          set_add_meta (meta_streamId a b) (Some (MetaItem_new pFrame b 0)) (fp_vInputMetaItem p)\<rparr>) a)"

definition registerFrame :: "Request \<Rightarrow> 'k App \<Rightarrow> MERROR \<times> 'k App" where
  "registerFrame rRequest a =
     (let pFrame = length (ap_frames a);
          a1 = a\<lparr>ap_frames := ap_frames a @ [FrameParcel_new\<lparr>fp_frameNo := rq_frameNo rRequest\<rparr>],
                 ap_mFrameQueue := ap_mFrameQueue a @ [pFrame]\<rparr>;
          (e2, a2) = registerStreamBuffers_image (map snd (rq_vOutputImageBuffers rRequest)) pFrame False a1;
          (e3, a3) = registerStreamBuffers_image (map snd (rq_vInputImageBuffers rRequest)) pFrame True a2;
          (e4, a4) = registerStreamBuffers_meta (map snd (rq_vInputMetaBuffers rRequest)) pFrame a3
      in (OK, a4))"

section \<open>Preparing a callback\<close>

text \<open>Negative: no error of the request; positive: an error of the request; zero: not known yet.\<close>

definition checkRequestError :: "FrameParcel \<Rightarrow> int" where
  "checkRequestError p =
     (let oi = fp_vOutputImageItem p; om = fp_vOutputMetaItem p in
      if is_numValidStreams oi > 0 \<or> (ms_numValidStreams om = length (ms_items om) \<and> ms_hasLastPartial om) then - 1
      else if is_numErrorStreams oi = length (is_items oi) \<and> ms_numErrorStreams om > 0 then 1
      else 0)"

definition prepareReturnImage :: "nat \<Rightarrow> CallbackParcel \<times> 'k App \<Rightarrow> (CallbackParcel \<times> 'k App) option" where
  "prepareReturnImage i = (\<lambda>(cb0, a).
     let cb = cb0\<lparr>cp_valid := True\<rparr>; it = ap_items a ! i in
     if bs_hasBit RETURNED (ii_history it) then Some (cb, a)
     else
       let a1 = edit_item i (\<lambda>x. x\<lparr>ii_history := bs_markBit RETURNED (ii_history x)\<rparr>) a;
           a2 = edit_frame (ii_pFrame it) (edit_image_set (ii_pItemSet it)
                  (\<lambda>s. s\<lparr>is_numReturnedStreams := is_numReturnedStreams s + 1\<rparr>)) a1;
           streamId = image_streamId a2 (ii_buffer it)
       in (case map_of (ap_mImageConfigMap a2) streamId of
             None \<Rightarrow> None
           | Some c \<Rightarrow>
               if i \<notin> set (ic_vItemFrameQueue c) then None
               else Some (if ii_pItemSet it
                            then cb\<lparr>cp_vInputImageItem := cp_vInputImageItem cb @ [(ii_buffer it, ic_pStreamInfo c)]\<rparr>
                            else cb\<lparr>cp_vOutputImageItem := cp_vOutputImageItem cb @ [(ii_buffer it, ic_pStreamInfo c)]\<rparr>,
                          edit_queue streamId (remove1 i) a2)))"

fun return_images :: "nat option list \<Rightarrow> CallbackParcel \<times> 'k App \<Rightarrow> (CallbackParcel \<times> 'k App) option" where
  "return_images [] st = Some st"
| "return_images (None # is) st = None"
| "return_images (Some i # is) st = Option.bind (prepareReturnImage i st) (return_images is)"

definition prepareErrorFrame :: "nat \<Rightarrow> CallbackParcel \<times> 'k App \<Rightarrow> (CallbackParcel \<times> 'k App) option" where
  "prepareErrorFrame pFrame = (\<lambda>(cb, a).
     let cb1 = cb\<lparr>cp_valid := True, cp_vError := cp_vError cb @ [(None, CAMERA3_MSG_ERROR_REQUEST)]\<rparr> in do {
       (cb2, a2) \<leftarrow> return_images (map snd (is_items (fp_vOutputImageItem (ap_frames a ! pFrame)))) (cb1, a);
       Some (cb2, edit_frame pFrame (\<lambda>p. p\<lparr>fp_errors := bs_markBit ERROR_SENT_FRAME (fp_errors p)\<rparr>) a2)
     })"

text \<open>A metadata item that is being handled is written back to its set afterwards.\<close>

definition prepareErrorMetaIfPossible ::
    "MetaItem_T \<times> CallbackParcel \<times> 'k App \<Rightarrow> MetaItem_T \<times> CallbackParcel \<times> 'k App" where
  "prepareErrorMetaIfPossible = (\<lambda>(it, cb, a).
     let pFrame = mi_pFrame it;
         (cb1, a1) =
           (if bs_hasBit ERROR_SENT_META (fp_errors (ap_frames a ! pFrame)) then (cb, a)
            else (cb\<lparr>cp_vError := cp_vError cb @ [(None, CAMERA3_MSG_ERROR_RESULT)], cp_valid := True\<rparr>,
                  edit_frame pFrame (\<lambda>p. p\<lparr>fp_errors := bs_markBit ERROR_SENT_META (fp_errors p)\<rparr>) a))
     in (it\<lparr>mi_history := bs_markBit ERROR_SENT_META (mi_history it)\<rparr>, cb1, a1))"

definition prepareErrorImage :: "nat \<Rightarrow> CallbackParcel \<times> 'k App \<Rightarrow> (CallbackParcel \<times> 'k App) option" where
  "prepareErrorImage i = (\<lambda>(cb0, a).
     let cb = cb0\<lparr>cp_valid := True\<rparr> in do {
       c \<leftarrow> map_of (ap_mImageConfigMap a) (image_streamId a (ii_buffer (ap_items a ! i)));
       Some (cb\<lparr>cp_vError := cp_vError cb @ [(Some (ic_pStreamInfo c), CAMERA3_MSG_ERROR_BUFFER)]\<rparr>,
             edit_item i (\<lambda>x. x\<lparr>ii_history := bs_markBit ERROR_SENT_IMAGE (ii_history x)\<rparr>) a)
     })"

definition prepareShutterNotificationIfPossible ::
    "MetaItem_T \<Rightarrow> CallbackParcel \<times> 'k App \<Rightarrow> (CallbackParcel \<times> 'k App) option" where
  "prepareShutterNotificationIfPossible it = (\<lambda>(cb, a).
     let pFrame = mi_pFrame it in
     if fp_timestampShutter (ap_frames a ! pFrame) \<noteq> 0 then Some (cb, a)
     else do {
       let (lock, b1) = onTryReadLock LOG_TAG (ap_metas a ! mi_buffer it);
       pMetadata \<leftarrow> lock;
       let entry = entryFor MTK_SENSOR_TIMESTAMP (am_mMetadata b1);
       let a1 = edit_meta (mi_buffer it) (\<lambda>_. onUnlock LOG_TAG (Some pMetadata) b1) a;
       if \<not> ent_isEmpty entry \<and> ent_mTag entry = MTK_SENSOR_TIMESTAMP then
         (case itemAt TYPE_MINT64 0 entry of
            Some (Item_MINT64 timestamp) \<Rightarrow>
              Some (cb\<lparr>cp_shutter := Some timestamp, cp_valid := True\<rparr>,
                    edit_frame pFrame (\<lambda>p. p\<lparr>fp_timestampShutter := timestamp\<rparr>) a1)
          | _ \<Rightarrow> None)
       else Some (cb, a1)
     })"

definition prepareReturnMeta ::
    "MetaItem_T \<Rightarrow> CallbackParcel \<times> 'k App \<Rightarrow> (MetaItem_T \<times> CallbackParcel \<times> 'k App) option" where
  "prepareReturnMeta it0 = (\<lambda>(cb0, a).
     let cb = cb0\<lparr>cp_valid := True\<rparr>;
         it = it0\<lparr>mi_history := bs_markBit RETURNED (mi_history it0)\<rparr>;
         a1 = edit_frame (mi_pFrame it) (edit_meta_set
                (\<lambda>s. s\<lparr>ms_numReturnedStreams := ms_numReturnedStreams s + 1\<rparr>)) a;
         b = mi_buffer it
     in if unat (mi_bufferNo it) = ap_mAtMostMetaStreamCount a1 then do {
          let entry = push_back (Item_MUINT8 4) (IEntry_new MTK_REQUEST_PIPELINE_DEPTH);
          let (lock, b1) = onTryWriteLock LOG_TAG (ap_metas a1 ! b);
          pMetadata \<leftarrow> lock;
          let b2 = b1\<lparr>am_mMetadata := snd (md_update MTK_REQUEST_PIPELINE_DEPTH entry (am_mMetadata b1))\<rparr>;
          Some (it, cb\<lparr>cp_vOutputMetaItem := cp_vOutputMetaItem cb @ [(b, word_of_nat (ap_mAtMostMetaStreamCount a1))]\<rparr>,
                edit_meta b (\<lambda>_. onUnlock LOG_TAG (Some pMetadata) b2) a1)
        }
        else Some (it, cb\<lparr>cp_vOutputMetaItem := cp_vOutputMetaItem cb @
               [(b, word_of_nat (ms_numReturnedStreams (fp_vOutputMetaItem (ap_frames a1 ! mi_pFrame it))))]\<rparr>, a1))"

section \<open>What can be returned, and when a frame ends\<close>

fun no_final_before :: "(nat \<Rightarrow> FrameParcel) \<Rightarrow> nat \<Rightarrow> nat list \<Rightarrow> bool option" where
  "no_final_before frame pFrame [] = None"
| "no_final_before frame pFrame (f # fs) =
     (if f = pFrame then Some True
      else let om = fp_vOutputMetaItem (frame f) in
        if ms_items om = [] then Some False
        else if (ms_hasLastPartial om \<and> snd (last (ms_items om)) \<noteq> None) \<or>
                (\<not> ms_hasLastPartial om \<and> snd (last (ms_items om)) = None) then Some False
        else no_final_before frame pFrame fs)"

definition isReturnable_meta :: "MetaItem_T \<Rightarrow> 'k App \<Rightarrow> bool option" where
  "isReturnable_meta it a =
     (if unat (mi_bufferNo it) = ap_mAtMostMetaStreamCount a
      then no_final_before (\<lambda>f. ap_frames a ! f) (mi_pFrame it) (ap_mFrameQueue a)
      else Some True)"

fun no_flight_before :: "(nat \<Rightarrow> ImageItem) \<Rightarrow> nat \<Rightarrow> nat list \<Rightarrow> bool option" where
  "no_flight_before item i [] = None"
| "no_flight_before item i (j # js) =
     (if j = i then Some True
      else if ii_state (item j) = ST_IN_FLIGHT then Some False
      else no_flight_before item i js)"

definition isReturnable_image :: "nat \<Rightarrow> 'k App \<Rightarrow> bool option" where
  "isReturnable_image i a = do {
     c \<leftarrow> map_of (ap_mImageConfigMap a) (image_streamId a (ii_buffer (ap_items a ! i)));
     no_flight_before (\<lambda>j. ap_items a ! j) i (ic_vItemFrameQueue c)
   }"

text \<open>The reference to the last item is only read when there is a last partial result.\<close>

definition isFrameRemovable :: "nat \<Rightarrow> 'k App \<Rightarrow> bool option" where
  "isFrameRemovable f a =
     (let p = ap_frames a ! f; oi = fp_vOutputImageItem p; ii = fp_vInputImageItem p; om = fp_vOutputMetaItem p in
      if length (is_items oi) \<noteq> is_numReturnedStreams oi then Some False
      else if length (is_items ii) \<noteq> is_numReturnedStreams ii then Some False
      else if bs_hasBit ERROR_SENT_FRAME (fp_errors p) then Some True
      else if bs_hasBit ERROR_SENT_META (fp_errors p) then Some True
      else if \<not> ms_hasLastPartial om then Some False
      else if ms_items om = [] then None
      else if snd (last (ms_items om)) \<noteq> None then Some False
      else Some (fp_timestampShutter p \<noteq> 0))"

section \<open>Callbacks of the items of a frame\<close>

definition needRelease :: "bool \<Rightarrow> MUINT32 \<Rightarrow> bool" where
  "needRelease released history \<longleftrightarrow> released \<and>
     (bs_hasBit RETURNED history \<or> bs_hasBit ERROR_SENT_FRAME history \<or>
      bs_hasBit ERROR_SENT_META history \<or> bs_hasBit ERROR_SENT_IMAGE history)"

definition meta_callback :: "MetaItem_T \<Rightarrow> CallbackParcel \<times> 'k App \<Rightarrow> (bool \<times> MetaItem_T \<times> CallbackParcel \<times> 'k App) option" where
  "meta_callback it = (\<lambda>(cb, a).
     case mi_state it of
       ST_VALID \<Rightarrow>
         if bs_hasBit RETURNED (mi_history it) then Some (False, it, cb, a)
         else do {
           r \<leftarrow> isReturnable_meta it a;
           if r then do {
             st1 \<leftarrow> prepareShutterNotificationIfPossible it (cb, a);
             st2 \<leftarrow> prepareReturnMeta it st1;
             Some (True, st2)
           } else Some (False, it, cb, a)
         }
     | ST_ERROR \<Rightarrow>
         Some (if \<not> bs_hasBit ERROR_SENT_META (mi_history it) \<and> checkRequestError (ap_frames a ! mi_pFrame it) < 0
               then (True, prepareErrorMetaIfPossible (it, cb, a)) else (False, it, cb, a))
     | _ \<Rightarrow> Some (False, it, cb, a))"

definition put_meta :: "nat \<Rightarrow> nat \<Rightarrow> MetaItem_T option \<Rightarrow> 'k App \<Rightarrow> 'k App" where
  "put_meta f i v a = edit_frame f (edit_meta_set
     (\<lambda>s. s\<lparr>ms_items := (ms_items s)[i := (fst (ms_items s ! i), v)]\<rparr>)) a"

fun prepareCallback_metas ::
    "nat \<Rightarrow> nat list \<Rightarrow> CallbackParcel \<times> 'k App \<Rightarrow> (bool \<times> CallbackParcel \<times> 'k App) option" where
  "prepareCallback_metas f [] st = Some (False, st)"
| "prepareCallback_metas f (i # is) (cb, a) =
     (case snd (ms_items (fp_vOutputMetaItem (ap_frames a ! f)) ! i) of
        None \<Rightarrow> prepareCallback_metas f is (cb, a)
      | Some it \<Rightarrow> do {
          (u, it1, cb1, a1) \<leftarrow> meta_callback it (cb, a);
          let released = sb_haveAllUsersReleased (ap_metas a1 ! mi_buffer it1) = OK;
          let a2 = put_meta f i (if needRelease released (mi_history it1) then None else Some it1) a1;
          (u', st') \<leftarrow> prepareCallback_metas f is (cb1, a2);
          Some (u \<or> u', st')
        })"

definition prepareCallbackIfPossible_meta ::
    "nat \<Rightarrow> CallbackParcel \<times> 'k App \<Rightarrow> (bool \<times> CallbackParcel \<times> 'k App) option" where
  "prepareCallbackIfPossible_meta f st =
     prepareCallback_metas f [0..<length (ms_items (fp_vOutputMetaItem (ap_frames (snd st) ! f)))] st"

definition image_callback :: "nat \<Rightarrow> CallbackParcel \<times> 'k App \<Rightarrow> (bool \<times> CallbackParcel \<times> 'k App) option" where
  "image_callback i = (\<lambda>(cb, a).
     let it = ap_items a ! i;
         return_it =
           (if bs_hasBit RETURNED (ii_history it) then Some (False, cb, a)
            else do {
              r \<leftarrow> isReturnable_image i a;
              if r then do { st1 \<leftarrow> prepareReturnImage i (cb, a); Some (True, st1) } else Some (False, cb, a)
            })
     in case ii_state it of
          ST_PRE_RELEASE \<Rightarrow> return_it
        | ST_VALID \<Rightarrow> return_it
        | ST_ERROR \<Rightarrow>
            if \<not> bs_hasBit ERROR_SENT_IMAGE (ii_history it) \<and> checkRequestError (ap_frames a ! ii_pFrame it) < 0
            then do {
              (cb1, a1) \<leftarrow> prepareErrorImage i (cb, a);
              if bs_hasBit RETURNED (ii_history (ap_items a1 ! i)) then Some (True, cb1, a1)
              else do { st2 \<leftarrow> prepareReturnImage i (cb1, a1); Some (True, st2) }
            }
            else Some (False, cb, a)
        | ST_IN_FLIGHT \<Rightarrow> Some (False, cb, a))"

definition clear_image :: "nat \<Rightarrow> bool \<Rightarrow> nat \<Rightarrow> 'k App \<Rightarrow> 'k App" where
  "clear_image f asInput n a = edit_frame f (edit_image_set asInput
     (\<lambda>s. s\<lparr>is_items := (is_items s)[n := (fst (is_items s ! n), None)]\<rparr>)) a"

fun prepareCallback_images ::
    "nat \<Rightarrow> bool \<Rightarrow> nat list \<Rightarrow> CallbackParcel \<times> 'k App \<Rightarrow> (bool \<times> CallbackParcel \<times> 'k App) option" where
  "prepareCallback_images f asInput [] st = Some (False, st)"
| "prepareCallback_images f asInput (n # ns) (cb, a) =
     (case snd (is_items (image_set asInput (ap_frames a ! f)) ! n) of
        None \<Rightarrow> prepareCallback_images f asInput ns (cb, a)
      | Some i \<Rightarrow> do {
          (u, cb1, a1) \<leftarrow> image_callback i (cb, a);
          let it1 = ap_items a1 ! i;
          let released = sb_haveAllUsersReleased (ap_images a1 ! ii_buffer it1) = OK;
          let a2 = (if needRelease released (ii_history it1) then clear_image f asInput n a1 else a1);
          (u', st') \<leftarrow> prepareCallback_images f asInput ns (cb1, a2);
          Some (u \<or> u', st')
        })"

definition prepareCallbackIfPossible_image ::
    "nat \<Rightarrow> bool \<Rightarrow> CallbackParcel \<times> 'k App \<Rightarrow> (bool \<times> CallbackParcel \<times> 'k App) option" where
  "prepareCallbackIfPossible_image f asInput st =
     prepareCallback_images f asInput [0..<length (is_items (image_set asInput (ap_frames (snd st) ! f)))] st"

section \<open>The state of the items of a frame\<close>

definition meta_update :: "MetaItem_T \<Rightarrow> AppMetaStreamBuffer \<Rightarrow> State" where
  "meta_update it b =
     (if mi_state it \<noteq> ST_VALID \<and> mi_state it \<noteq> ST_ERROR \<and> am_streamType b \<noteq> eSTREAMTYPE_META_IN \<and>
         sb_haveAllProducerUsersReleased b = OK
      then (if hasStatus STATUS_ERROR b then ST_ERROR else ST_VALID)
      else mi_state it)"

definition count_meta :: "State \<Rightarrow> State \<Rightarrow> MetaItemSet \<Rightarrow> MetaItemSet" where
  "count_meta old new s =
     (if old = new then s
      else if new = ST_ERROR then s\<lparr>ms_numErrorStreams := ms_numErrorStreams s + 1\<rparr>
      else s\<lparr>ms_numValidStreams := ms_numValidStreams s + 1\<rparr>)"

fun update_metas :: "nat \<Rightarrow> nat list \<Rightarrow> 'k App \<Rightarrow> 'k App" where
  "update_metas f [] a = a"
| "update_metas f (i # is) a =
     (case snd (ms_items (fp_vOutputMetaItem (ap_frames a ! f)) ! i) of
        None \<Rightarrow> update_metas f is a
      | Some it \<Rightarrow>
          let st = meta_update it (ap_metas a ! mi_buffer it)
          in update_metas f is
               (edit_frame f (edit_meta_set (count_meta (mi_state it) st))
                 (put_meta f i (Some (it\<lparr>mi_state := st\<rparr>)) a)))"

definition updateItemSet_meta :: "nat \<Rightarrow> 'k App \<Rightarrow> 'k App" where
  "updateItemSet_meta f a = update_metas f [0..<length (ms_items (fp_vOutputMetaItem (ap_frames a ! f)))] a"

definition ReleaseHandler :: "'k sync_kernel \<Rightarrow> nat \<Rightarrow> 'k App \<Rightarrow> 'k App" where
  "ReleaseHandler K i a =
     (let it = ap_items a ! i; b = ii_buffer it in
      if hasStatus STATUS_ERROR (ap_images a ! b) then
        let (AF, k) = sb_createAcquireFence_all K (ap_images a ! b) (ap_sync a);
            a1 = edit_image b (\<lambda>x. app_setAcquireFence (- 1) (app_setReleaseFence AF x)) (a\<lparr>ap_sync := k\<rparr>)
        in edit_frame (ii_pFrame it) (edit_image_set (ii_pItemSet it)
             (\<lambda>s. s\<lparr>is_numErrorStreams := is_numErrorStreams s + 1\<rparr>))
             (edit_item i (\<lambda>x. x\<lparr>ii_state := ST_ERROR\<rparr>) a1)
      else
        edit_frame (ii_pFrame it) (edit_image_set (ii_pItemSet it)
          (\<lambda>s. s\<lparr>is_numValidStreams := is_numValidStreams s + 1\<rparr>))
          (edit_item i (\<lambda>x. x\<lparr>ii_state := ST_VALID\<rparr>)
            (edit_image b (\<lambda>x. app_setAcquireFence (- 1) (app_setReleaseFence (- 1) x)) a)))"

definition PreReleaseHandler :: "'k sync_kernel \<Rightarrow> nat \<Rightarrow> 'k App \<Rightarrow> 'k App" where
  "PreReleaseHandler K i a =
     (let b = ii_buffer (ap_items a ! i);
          (RF, k) = sb_createReleaseFence_all K (ap_images a ! b) (ap_sync a)
      in edit_item i (\<lambda>x. x\<lparr>ii_state := ST_PRE_RELEASE\<rparr>)
           (edit_image b (\<lambda>x. app_setAcquireFence (- 1) (app_setReleaseFence RF x)) (a\<lparr>ap_sync := k\<rparr>)))"

definition image_update :: "'k sync_kernel \<Rightarrow> nat \<Rightarrow> 'k App \<Rightarrow> 'k App" where
  "image_update K i a =
     (let b = ap_images a ! ii_buffer (ap_items a ! i) in
      case ii_state (ap_items a ! i) of
        ST_IN_FLIGHT \<Rightarrow>
          if sb_getAllUsersStatus b = RELEASE then ReleaseHandler K i a
          else if sb_getAllUsersStatus b = PRE_RELEASE then PreReleaseHandler K i a
          else a
      | ST_PRE_RELEASE \<Rightarrow> if sb_haveAllUsersReleased b = OK then ReleaseHandler K i a else a
      | _ \<Rightarrow> a)"

fun update_images :: "'k sync_kernel \<Rightarrow> nat option list \<Rightarrow> 'k App \<Rightarrow> 'k App" where
  "update_images K [] a = a"
| "update_images K (None # is) a = update_images K is a"
| "update_images K (Some i # is) a = update_images K is (image_update K i a)"

definition updateItemSet_image :: "'k sync_kernel \<Rightarrow> nat \<Rightarrow> bool \<Rightarrow> 'k App \<Rightarrow> 'k App" where
  "updateItemSet_image K f asInput a =
     update_images K (map snd (is_items (image_set asInput (ap_frames a ! f)))) a"

section \<open>Results arrive\<close>

record ResultItem =
  ri_lastPartial :: bool
  ri_frameNo :: MUINT32
  ri_buffer :: "nat list"

definition add_result_meta :: "nat \<Rightarrow> nat \<Rightarrow> 'k App \<Rightarrow> 'k App" where
  "add_result_meta f b a =
     edit_frame f (edit_meta_set (\<lambda>s. set_add_meta (meta_streamId a b)
       (Some (MetaItem_new f b (word_of_nat (length (ms_items s) + 1)))) s)) a"

text \<open>The item of the buffer added last becomes the last partial result.\<close>

definition mark_last_partial :: "nat \<Rightarrow> StreamId_T \<Rightarrow> 'k App \<Rightarrow> 'k App" where
  "mark_last_partial f streamId a =
     edit_frame f (edit_meta_set (\<lambda>s. s\<lparr>
       ms_items := kv_edit streamId (map_option (\<lambda>it. it\<lparr>mi_bufferNo := word_of_nat (ap_mAtMostMetaStreamCount a)\<rparr>)) (ms_items s),
       ms_hasLastPartial := True\<rparr>)) a"

definition apply_result :: "'k sync_kernel \<Rightarrow> ResultItem \<Rightarrow> nat \<Rightarrow> 'k App \<Rightarrow> 'k App" where
  "apply_result K r f a =
     (let a1 = fold (add_result_meta f) (ri_buffer r) a;
          a2 = (if ri_buffer r = [] then a1
                else if ri_lastPartial r then mark_last_partial f (meta_streamId a1 (last (ri_buffer r))) a1
                else a1)
      in updateItemSet_image K f True (updateItemSet_image K f False (updateItemSet_meta f a2)))"

text \<open>The search for the frame of a result goes on from the frame of the result before it.\<close>

fun find_frame :: "(nat \<Rightarrow> FrameParcel) \<Rightarrow> MUINT32 \<Rightarrow> nat list \<Rightarrow> nat list" where
  "find_frame frame frameNo [] = []"
| "find_frame frame frameNo (f # fs) = (if frameNo \<noteq> fp_frameNo (frame f) then find_frame frame frameNo fs else f # fs)"

fun apply_results :: "'k sync_kernel \<Rightarrow> ResultItem list \<Rightarrow> nat list \<Rightarrow> 'k App \<Rightarrow> 'k App" where
  "apply_results K [] itFrame a = a"
| "apply_results K (r # rs) itFrame a =
     (case find_frame (\<lambda>f. ap_frames a ! f) (ri_frameNo r) itFrame of
        [] \<Rightarrow> apply_results K rs (ap_mFrameQueue a) a
      | f # fs \<Rightarrow> apply_results K rs (f # fs) (apply_result K r f a))"

definition update_results :: "'k sync_kernel \<Rightarrow> (MUINT32, ResultItem) kvec \<Rightarrow> 'k App \<Rightarrow> 'k App option" where
  "update_results K rvResult a =
     (if ap_mFrameQueue a = [] then Some a
      else if rvResult = [] then None
      else let a1 = apply_results K (map snd rvResult) (ap_mFrameQueue a) a;
               latest = ri_frameNo (snd (last rvResult))
           in Some (if 0 < sint (latest - ap_latestResultFrameNo a1) then a1\<lparr>ap_latestResultFrameNo := latest\<rparr> else a1))"

section \<open>Callbacks are prepared\<close>

definition frame_callbacks :: "nat \<Rightarrow> 'k App \<Rightarrow> (CallbackParcel \<times> 'k App) option" where
  "frame_callbacks f a =
     (let p = ap_frames a ! f; cb = CallbackParcel_new (fp_frameNo p) (fp_timestampShutter p) in do {
       st1 \<leftarrow> (if checkRequestError p > 0 then prepareErrorFrame f (cb, a)
               else do {
                 (u, st) \<leftarrow> prepareCallbackIfPossible_meta f (cb, a);
                 (u', st') \<leftarrow> prepareCallbackIfPossible_image f False st;
                 Some st'
               });
       (u, st2) \<leftarrow> prepareCallbackIfPossible_image f True st1;
       Some st2
     })"

fun callbacks_loop :: "nat list \<Rightarrow> CallbackParcel list \<times> 'k App \<Rightarrow> (CallbackParcel list \<times> 'k App) option" where
  "callbacks_loop [] st = Some st"
| "callbacks_loop (f # fs) (cbs, a) =
     (if 0 < sint (fp_frameNo (ap_frames a ! f) - ap_latestResultFrameNo a) then Some (cbs, a)
      else do {
        (cb, a1) \<leftarrow> frame_callbacks f a;
        let cbs1 = (if cp_valid cb then cbs @ [cb] else cbs);
        removable \<leftarrow> isFrameRemovable f a1;
        callbacks_loop fs (cbs1, if removable then a1\<lparr>ap_mFrameQueue := remove1 f (ap_mFrameQueue a1)\<rparr> else a1)
      })"

definition update_callbacks :: "CallbackParcel list \<times> 'k App \<Rightarrow> (CallbackParcel list \<times> 'k App) option" where
  "update_callbacks st = callbacks_loop (ap_mFrameQueue (snd st)) st"

definition frames_update ::
    "'k sync_kernel \<Rightarrow> (MUINT32, ResultItem) kvec \<Rightarrow> CallbackParcel list \<times> 'k App \<Rightarrow> (CallbackParcel list \<times> 'k App) option" where
  "frames_update K rvResult = (\<lambda>(cbs, a). do { a1 \<leftarrow> update_results K rvResult a; update_callbacks (cbs, a1) })"

end
