(* ===== verification/AppManager.thy ===== *)
theory AppManager
  imports AppFrames
begin

text \<open>
  The manager of the client's streams (\<open>middleware/v3/app/AppStreamMgr.cpp\<close>): configuring
  streams, turning the client's requests into buffers, and the queue of results between the
  threads of the pipeline and the thread that calls the client back.

  \<open>app_env\<close> is what the manager calls outside: the static metadata of the device, the
  conversion of metadata to the platform's form \<open>'s\<close> and back, the graphics allocator and the
  start of the thread. The calls of the client's \<open>camera3_callback_ops\<close> are the events. The
  counters kept only for debug messages are left out.
\<close>

section \<open>Constants of the platform\<close>

abbreviation (input) EINVAL :: int where "EINVAL \<equiv> 22"
abbreviation (input) ENODEV :: int where "ENODEV \<equiv> 19"
abbreviation (input) NOT_ENOUGH_DATA :: int where "NOT_ENOUGH_DATA \<equiv> - 61"
abbreviation (input) HAL_DATASPACE_DEPTH :: int where "HAL_DATASPACE_DEPTH \<equiv> 0x1000"
abbreviation (input) CAMERA3_STREAM_ROTATION_0 :: int where "CAMERA3_STREAM_ROTATION_0 \<equiv> 0"
abbreviation (input) CAMERA3_STREAM_ROTATION_90 :: int where "CAMERA3_STREAM_ROTATION_90 \<equiv> 1"
abbreviation (input) CAMERA3_STREAM_ROTATION_180 :: int where "CAMERA3_STREAM_ROTATION_180 \<equiv> 2"
abbreviation (input) CAMERA3_STREAM_ROTATION_270 :: int where "CAMERA3_STREAM_ROTATION_270 \<equiv> 3"
abbreviation (input) HAL_PIXEL_FORMAT_RAW16 :: int where "HAL_PIXEL_FORMAT_RAW16 \<equiv> 0x20"
abbreviation (input) HAL_PIXEL_FORMAT_BLOB :: int where "HAL_PIXEL_FORMAT_BLOB \<equiv> 0x21"
abbreviation (input) HAL_PIXEL_FORMAT_RAW_OPAQUE :: int where "HAL_PIXEL_FORMAT_RAW_OPAQUE \<equiv> 0x24"
abbreviation (input) HAL_PIXEL_FORMAT_YV12 :: int where "HAL_PIXEL_FORMAT_YV12 \<equiv> 0x32315659"
abbreviation (input) HAL_PIXEL_FORMAT_YCrCb_420_SP :: int where "HAL_PIXEL_FORMAT_YCrCb_420_SP \<equiv> 0x11"
abbreviation (input) HAL_PIXEL_FORMAT_YCbCr_422_I :: int where "HAL_PIXEL_FORMAT_YCbCr_422_I \<equiv> 0x14"
abbreviation (input) HAL_PIXEL_FORMAT_CAMERA_OPAQUE :: int where "HAL_PIXEL_FORMAT_CAMERA_OPAQUE \<equiv> 0x111"
abbreviation (input) GRALLOC_USAGE_SW_OFTEN :: MUINT32 where "GRALLOC_USAGE_SW_OFTEN \<equiv> 0x33"
abbreviation (input) GRALLOC_USAGE_HW_VIDEO_ENCODER :: MUINT32 where "GRALLOC_USAGE_HW_VIDEO_ENCODER \<equiv> 0x10000"
abbreviation (input) GRALLOC_USAGE_HW_CAMERA_WRITE :: MUINT32 where "GRALLOC_USAGE_HW_CAMERA_WRITE \<equiv> 0x20000"
abbreviation (input) GRALLOC_USAGE_HW_CAMERA_READ :: MUINT32 where "GRALLOC_USAGE_HW_CAMERA_READ \<equiv> 0x40000"
abbreviation (input) GRALLOC_USAGE_CAMERA :: MUINT32 where "GRALLOC_USAGE_CAMERA \<equiv> 0x04000000"
abbreviation (input) HAL_TRANSFORM_ROT_90 :: MUINT32 where "HAL_TRANSFORM_ROT_90 \<equiv> 4"
abbreviation (input) HAL_TRANSFORM_ROT_180 :: MUINT32 where "HAL_TRANSFORM_ROT_180 \<equiv> 3"
abbreviation (input) HAL_TRANSFORM_ROT_270 :: MUINT32 where "HAL_TRANSFORM_ROT_270 \<equiv> 7"
abbreviation (input) eSTREAMID_BEGIN_OF_APP :: StreamId_T where "eSTREAMID_BEGIN_OF_APP \<equiv> 0"

definition MTK_SCALER_AVAILABLE_STREAM_CONFIGURATIONS :: MUINT32 where
  "MTK_SCALER_AVAILABLE_STREAM_CONFIGURATIONS = 0xD000A"
definition MTK_SCALER_AVAILABLE_MIN_FRAME_DURATIONS :: MUINT32 where
  "MTK_SCALER_AVAILABLE_MIN_FRAME_DURATIONS = 0xD000B"
definition MTK_SCALER_AVAILABLE_STALL_DURATIONS :: MUINT32 where
  "MTK_SCALER_AVAILABLE_STALL_DURATIONS = 0xD000C"
definition MTK_JPEG_MAX_SIZE :: MUINT32 where "MTK_JPEG_MAX_SIZE = 0x70008"

section \<open>State\<close>

record 's app_env =
  env_static :: IMetadata
  env_convert :: "'s \<Rightarrow> bool \<times> IMetadata"
  env_convert_back :: "IMetadata \<Rightarrow> bool \<times> 's"
  env_gralloc :: "MUINT32 \<Rightarrow> int \<Rightarrow> MUINT32 \<Rightarrow> MUINT32 \<Rightarrow> MERROR \<times> int \<times> BufPlane list"
  env_format_name :: "int \<Rightarrow> string"
  env_usage_name :: "MUINT32 \<Rightarrow> string"
  env_run :: MERROR
  env_query_handle :: "nat \<Rightarrow> MERROR"
  env_onCreate :: "nat \<Rightarrow> bool"
  env_jpeg :: "nat \<Rightarrow> nat \<times> bool \<times> nat"

record 'k AppStreamMgr =
  mg_mFrameHandler :: "'k App"
  mg_mStreamIdToConfig :: StreamId_T
  mg_mLatestSettings :: IMetadata
  mg_mResultQueue :: "(MUINT32, ResultItem) kvec"
  mg_exitPending :: bool

definition AppStreamMgr_new :: "'s app_env \<Rightarrow> bool \<Rightarrow> camera3_stream list \<Rightarrow> 'k \<Rightarrow> 'k AppStreamMgr option" where
  "AppStreamMgr_new E isExternal streams k = do {
     a \<leftarrow> FrameHandler_new (env_static E) isExternal streams k;
     Some \<lparr>mg_mFrameHandler = a, mg_mStreamIdToConfig = eSTREAMID_BEGIN_OF_APP,
       mg_mLatestSettings = IMetadata_new, mg_mResultQueue = [], mg_exitPending = False\<rparr>
   }"

section \<open>Checking a stream configuration\<close>

definition item_MINT32 :: "nat \<Rightarrow> IEntry \<Rightarrow> MINT32 option" where
  "item_MINT32 i e = (case itemAt TYPE_MINT32 i e of Some (Item_MINT32 x) \<Rightarrow> Some x | _ \<Rightarrow> None)"

definition item_MINT64 :: "nat \<Rightarrow> IEntry \<Rightarrow> 64 word option" where
  "item_MINT64 i e = (case itemAt TYPE_MINT64 i e of Some (Item_MINT64 x) \<Rightarrow> Some x | _ \<Rightarrow> None)"

text \<open>The table of supported sizes has four numbers for each.\<close>

fun size_supported :: "IEntry \<Rightarrow> camera3_stream \<Rightarrow> nat list \<Rightarrow> bool option" where
  "size_supported e stream [] = Some False"
| "size_supported e stream (j # js) = do {
     let i = 4 * j;
     format \<leftarrow> item_MINT32 i e;
     if sint format \<noteq> c3_format stream then size_supported e stream js
     else do {
       scalerWidth \<leftarrow> item_MINT32 (i + 1) e;
       scalerHeight \<leftarrow> item_MINT32 (i + 2) e;
       if c3_width stream = scalerWidth \<and> c3_height stream = scalerHeight then Some True
       else size_supported e stream js
     }
   }"

definition rounds4 :: "nat \<Rightarrow> nat" where
  "rounds4 n = (n + 3) div 4"

definition checkStream :: "IMetadata \<Rightarrow> camera3_stream option \<Rightarrow> MERROR option" where
  "checkStream static p =
     (case p of
        None \<Rightarrow> Some (- EINVAL)
      | Some stream \<Rightarrow>
          let entryScaler = entryFor MTK_SCALER_AVAILABLE_STREAM_CONFIGURATIONS static in
          if c3_data_space stream = HAL_DATASPACE_DEPTH then Some (- EINVAL)
          else if c3_rotation stream \<noteq> CAMERA3_STREAM_ROTATION_0 \<and> c3_stream_type stream = CAMERA3_STREAM_INPUT
          then Some (- EINVAL)
          else if ent_isEmpty entryScaler then Some (- EINVAL)
          else if (c3_format stream = HAL_PIXEL_FORMAT_RAW16 \<or> c3_format stream = HAL_PIXEL_FORMAT_RAW_OPAQUE) \<and>
                  c3_rotation stream \<noteq> CAMERA3_STREAM_ROTATION_0 then Some (- EINVAL)
          else map_option (\<lambda>ok. if ok then OK else - EINVAL)
                 (size_supported entryScaler stream [0..<rounds4 (unat (ent_count entryScaler))]))"

text \<open>The counts of streams by type and of output streams by rotation; another type or rotation is a fault.\<close>

record stream_counts =
  num_stream_O :: nat
  num_stream_I :: nat
  num_stream_IO :: nat
  num_rotation_0 :: nat
  num_rotation_not0 :: nat

definition count_type :: "int \<Rightarrow> stream_counts \<Rightarrow> stream_counts option" where
  "count_type type c =
     (if type = CAMERA3_STREAM_OUTPUT then Some (c\<lparr>num_stream_O := num_stream_O c + 1\<rparr>)
      else if type = CAMERA3_STREAM_INPUT then Some (c\<lparr>num_stream_I := num_stream_I c + 1\<rparr>)
      else if type = CAMERA3_STREAM_BIDIRECTIONAL then Some (c\<lparr>num_stream_IO := num_stream_IO c + 1\<rparr>)
      else None)"

definition count_rotation :: "int \<Rightarrow> stream_counts \<Rightarrow> stream_counts option" where
  "count_rotation rotation c =
     (if rotation = CAMERA3_STREAM_ROTATION_0 then Some (c\<lparr>num_rotation_0 := num_rotation_0 c + 1\<rparr>)
      else if rotation = CAMERA3_STREAM_ROTATION_90 \<or> rotation = CAMERA3_STREAM_ROTATION_180 \<or>
              rotation = CAMERA3_STREAM_ROTATION_270 then Some (c\<lparr>num_rotation_not0 := num_rotation_not0 c + 1\<rparr>)
      else None)"

fun count_streams ::
    "IMetadata \<Rightarrow> camera3_stream option list \<Rightarrow> stream_counts \<Rightarrow> (MERROR \<times> stream_counts) option" where
  "count_streams static [] c = Some (OK, c)"
| "count_streams static (p # ps) c = do {
     err \<leftarrow> checkStream static p;
     if err \<noteq> OK then Some (err, c)
     else do {
       stream \<leftarrow> p;
       c1 \<leftarrow> count_type (c3_stream_type stream) c;
       c2 \<leftarrow> (if c3_stream_type stream \<noteq> CAMERA3_STREAM_INPUT then count_rotation (c3_rotation stream) c1 else Some c1);
       count_streams static ps c2
     }
   }"

text \<open>A configuration is a pointer to a list of pointers to streams.\<close>

definition checkStreams :: "IMetadata \<Rightarrow> camera3_stream option list option option \<Rightarrow> MERROR option" where
  "checkStreams static stream_list =
     (case stream_list of
        None \<Rightarrow> Some (- EINVAL)
      | Some None \<Rightarrow> Some (- EINVAL)
      | Some (Some ps) \<Rightarrow>
          if ps = [] then Some (- EINVAL)
          else do {
            (err, c) \<leftarrow> count_streams static ps
              \<lparr>num_stream_O = 0, num_stream_I = 0, num_stream_IO = 0, num_rotation_0 = 0, num_rotation_not0 = 0\<rparr>;
            Some (if err \<noteq> OK then err
                  else if num_stream_I c + num_stream_IO c > 1 \<or> num_stream_O c + num_stream_IO c = 0 then - EINVAL
                  else if num_rotation_not0 c > 1 then - EINVAL
                  else OK)
          })"

section \<open>Configuring streams\<close>

definition alloc_usage :: "camera3_stream \<Rightarrow> MUINT32" where
  "alloc_usage s = c3_usage s OR GRALLOC_USAGE_SW_OFTEN OR GRALLOC_USAGE_HW_CAMERA_WRITE OR
     (if c3_stream_type s = CAMERA3_STREAM_INPUT then GRALLOC_USAGE_HW_CAMERA_READ else 0) OR GRALLOC_USAGE_CAMERA"

definition alloc_size :: "IMetadata \<Rightarrow> camera3_stream \<Rightarrow> (MUINT32 \<times> MUINT32) option" where
  "alloc_size static s =
     (if c3_format s = HAL_PIXEL_FORMAT_BLOB then
        let entry = entryFor MTK_JPEG_MAX_SIZE static in
        if ent_isEmpty entry then Some (c3_width s * c3_height s * 2, 1)
        else map_option (\<lambda>n. (n, 1)) (item_MINT32 0 entry)
      else Some (c3_width s, c3_height s))"

definition stream_name :: "'s app_env \<Rightarrow> MUINT32 \<Rightarrow> int \<Rightarrow> string option" where
  "stream_name E usageForConsumer format =
     (if usageForConsumer AND GRALLOC_USAGE_HW_VIDEO_ENCODER \<noteq> 0
      then Some (''Image:App:'' @ env_usage_name E GRALLOC_USAGE_HW_VIDEO_ENCODER)
      else if format = HAL_PIXEL_FORMAT_BLOB then Some ''Image:App:JPEG-BLOB''
      else if format \<in> {HAL_PIXEL_FORMAT_YV12, HAL_PIXEL_FORMAT_YCrCb_420_SP, HAL_PIXEL_FORMAT_YCbCr_422_I,
                HAL_PIXEL_FORMAT_RAW16, HAL_PIXEL_FORMAT_RAW_OPAQUE, HAL_PIXEL_FORMAT_CAMERA_OPAQUE}
      then Some (''Image:App:'' @ env_format_name E format)
      else None)"

definition stream_transform :: "int \<Rightarrow> MUINT32" where
  "stream_transform rotation =
     (if rotation = CAMERA3_STREAM_ROTATION_90 then HAL_TRANSFORM_ROT_270
      else if rotation = CAMERA3_STREAM_ROTATION_180 then HAL_TRANSFORM_ROT_180
      else if rotation = CAMERA3_STREAM_ROTATION_270 then HAL_TRANSFORM_ROT_90
      else 0)"

text \<open>The result is a null pointer, as \<open>Some (None, _)\<close>, when the allocator or the format does not fit.\<close>

definition createImageStreamInfo ::
    "'s app_env \<Rightarrow> StreamId_T \<Rightarrow> nat \<Rightarrow> camera3_stream list \<Rightarrow> (Cam3ImageStreamInfo option \<times> camera3_stream list) option" where
  "createImageStreamInfo E suggestedStreamId stream streams =
     (let s = streams ! stream; usageForConsumer = c3_usage s; usageForAllocator = alloc_usage s in do {
        (w, h) \<leftarrow> alloc_size (env_static E) s;
        let (err, format, planes) = env_gralloc E usageForAllocator (c3_format s) w h;
        if err \<noteq> OK then Some (None, streams)
        else case stream_name E usageForConsumer format of
          None \<Rightarrow> Some (None, streams)
        | Some name \<Rightarrow>
            let (i, streams') = Cam3ImageStreamInfo_new stream name suggestedStreamId usageForConsumer usageForAllocator
                  (c3_format s) format planes 0 (stream_transform (c3_rotation s)) (c3_data_space s) streams
            in Some (Some i, streams')
      })"

definition createMetaStreamInfo :: "StreamId_T \<Rightarrow> IStreamInfo" where
  "createMetaStreamInfo suggestedStreamId = \<lparr>si_streamId = suggestedStreamId, si_streamName = ''Meta:App:Control''\<rparr>"

definition edit_handler :: "('k App \<Rightarrow> 'k App) \<Rightarrow> 'k AppStreamMgr \<Rightarrow> 'k AppStreamMgr" where
  "edit_handler g m = m\<lparr>mg_mFrameHandler := g (mg_mFrameHandler m)\<rparr>"

text \<open>\<open>addConfigStream\<close> reads the id of the stream information it gets, also of a null pointer.\<close>

fun configure_images :: "'s app_env \<Rightarrow> nat list \<Rightarrow> 'k AppStreamMgr \<Rightarrow> 'k AppStreamMgr option" where
  "configure_images E [] m = Some m"
| "configure_images E (s # ss) m = do {
     let streamId = mg_mStreamIdToConfig m;
     let m1 = m\<lparr>mg_mStreamIdToConfig := streamId + 1\<rparr>;
     (info, streams) \<leftarrow> createImageStreamInfo E streamId s (ap_streams (mg_mFrameHandler m1));
     i \<leftarrow> info;
     configure_images E ss (edit_handler (\<lambda>a. addConfigStream_image i (a\<lparr>ap_streams := streams\<rparr>)) m1)
   }"

definition configureStreams ::
    "'s app_env \<Rightarrow> nat option list option option \<Rightarrow> 'k AppStreamMgr \<Rightarrow> (MERROR \<times> 'k AppStreamMgr) option" where
  "configureStreams E stream_list m = do {
     err \<leftarrow> checkStreams (env_static E)
       (map_option (map_option (map (map_option (\<lambda>s. ap_streams (mg_mFrameHandler m) ! s)))) stream_list);
     if err \<noteq> OK then Some (err, m)
     else do {
       ps \<leftarrow> Option.bind stream_list id;
       let streamId = mg_mStreamIdToConfig m;
       let m1 = edit_handler (addConfigStream_meta (createMetaStreamInfo streamId))
                  (m\<lparr>mg_mStreamIdToConfig := streamId + 1\<rparr>);
       m2 \<leftarrow> configure_images E (map the ps) m1;
       let m3 = m2\<lparr>mg_mLatestSettings := md_clear (mg_mLatestSettings m2)\<rparr>;
       Some (if env_run E \<noteq> OK then - ENODEV else OK, m3)
     }
   }"

text \<open>The configured streams, with the durations that the static metadata has for their sizes.\<close>

record ConfigAppStreams =
  cs_vMetaStreams :: "(StreamId_T, IStreamInfo) kvec"
  cs_vImageStreams :: "(StreamId_T, Cam3ImageStreamInfo) kvec"
  cs_vMinFrameDuration :: "(StreamId_T, 64 word) kvec"
  cs_vStallFrameDuration :: "(StreamId_T, 64 word) kvec"

fun find_duration :: "IEntry \<Rightarrow> IEntry \<Rightarrow> Cam3ImageStreamInfo \<Rightarrow> nat list \<Rightarrow> (64 word \<times> 64 word) option option" where
  "find_duration eMin eStall i [] = Some None"
| "find_duration eMin eStall i (n # ns) = do {
     let j = 4 * n;
     format \<leftarrow> item_MINT64 j eMin;
     if sint format \<noteq> getImgFormatToAlloc i then find_duration eMin eStall i ns
     else do {
       w \<leftarrow> item_MINT64 (j + 1) eMin;
       if sint w \<noteq> sint (fst (getImgSize i)) then find_duration eMin eStall i ns
       else do {
         h \<leftarrow> item_MINT64 (j + 2) eMin;
         if sint h \<noteq> sint (snd (getImgSize i)) then find_duration eMin eStall i ns
         else do {
           minDuration \<leftarrow> item_MINT64 (j + 3) eMin;
           stallDuration \<leftarrow> item_MINT64 (j + 3) eStall;
           Some (Some (minDuration, stallDuration))
         }
       }
     }
   }"

fun add_durations :: "IEntry \<Rightarrow> IEntry \<Rightarrow> (StreamId_T \<times> ImageConfigItem) list \<Rightarrow> ConfigAppStreams \<Rightarrow> ConfigAppStreams option" where
  "add_durations eMin eStall [] r = Some r"
| "add_durations eMin eStall ((k, c) # cs) r = do {
     d \<leftarrow> find_duration eMin eStall (ic_pStreamInfo c) [0..<rounds4 (unat (ent_count eMin))];
     add_durations eMin eStall cs
       (case d of
          None \<Rightarrow> r
        | Some (minDuration, stallDuration) \<Rightarrow>
            r\<lparr>cs_vMinFrameDuration := kv_add k minDuration (cs_vMinFrameDuration r),
              cs_vStallFrameDuration := kv_add k stallDuration (cs_vStallFrameDuration r)\<rparr>)
   }"

definition getConfigStreams :: "IMetadata \<Rightarrow> ConfigAppStreams \<Rightarrow> 'k App \<Rightarrow> (MERROR \<times> ConfigAppStreams) option" where
  "getConfigStreams static rStreams a =
     (if ap_mMetaConfigMap a = [] \<or> ap_mImageConfigMap a = [] then Some (- ENODEV, rStreams)
      else
        let r = rStreams\<lparr>cs_vMetaStreams := ap_mMetaConfigMap a,
                  cs_vImageStreams := map (\<lambda>(k, c). (k, ic_pStreamInfo c)) (ap_mImageConfigMap a)\<rparr>;
            entryMinDuration = entryFor MTK_SCALER_AVAILABLE_MIN_FRAME_DURATIONS static;
            entryStallDuration = entryFor MTK_SCALER_AVAILABLE_STALL_DURATIONS static
        in if ent_isEmpty entryMinDuration \<or> ent_isEmpty entryStallDuration then Some (OK, r)
           else map_option (\<lambda>r'. (OK, r'))
                  (add_durations entryMinDuration entryStallDuration (ap_mImageConfigMap a)
                    (r\<lparr>cs_vMinFrameDuration := [], cs_vStallFrameDuration := []\<rparr>)))"

definition queryConfiguredStreams ::
    "'s app_env \<Rightarrow> ConfigAppStreams \<Rightarrow> 'k AppStreamMgr \<Rightarrow> (MERROR \<times> ConfigAppStreams) option" where
  "queryConfiguredStreams E rStreams m = getConfigStreams (env_static E) rStreams (mg_mFrameHandler m)"

section \<open>Requests\<close>

text \<open>\<open>sb_buffer\<close> is the address of a buffer handle, \<open>sb_handle\<close> the handle found there.\<close>

record camera3_stream_buffer =
  sb_stream :: "nat option"
  sb_buffer :: "nat option"
  sb_handle :: "nat option"
  sb_status :: int
  sb_acquire_fence :: int
  sb_release_fence :: int

record 's camera3_capture_request =
  cr_frame_number :: MUINT32
  cr_settings :: "'s option"
  cr_input_buffer :: "camera3_stream_buffer option"
  cr_output_buffers :: "camera3_stream_buffer list option"

definition checkRequestLocked :: "'s camera3_capture_request option \<Rightarrow> 'k AppStreamMgr \<Rightarrow> MERROR" where
  "checkRequestLocked request m =
     (case request of
        None \<Rightarrow> - EINVAL
      | Some r \<Rightarrow>
          if cr_output_buffers r = None \<or> cr_output_buffers r = Some [] then - EINVAL
          else if cr_settings r = None \<and> md_isEmpty (mg_mLatestSettings m) then - EINVAL
          else OK)"

definition validate_camera3_stream_buffer :: "camera3_stream_buffer \<Rightarrow> bool" where
  "validate_camera3_stream_buffer b \<longleftrightarrow> sb_stream b \<noteq> None \<and> sb_buffer b \<noteq> None \<and> sb_handle b \<noteq> None"

definition GraphicHeap_create :: "'s app_env \<Rightarrow> camera3_stream_buffer \<Rightarrow> GraphicHeap option" where
  "GraphicHeap_create E b =
     (if \<not> validate_camera3_stream_buffer b then None
      else if env_query_handle E (the (sb_handle b)) \<noteq> OK then None
      else if \<not> env_onCreate E (the (sb_handle b)) then None
      else Some \<lparr>gh_mpBufferHandle = the (sb_buffer b), gh_mAcquireFence = sb_acquire_fence b,
                 gh_mReleaseFence = sb_release_fence b\<rparr>)"

text \<open>The new buffer is a new object; a null pointer where a stream or a buffer is needed is a fault.\<close>

definition createImageStreamBuffer ::
    "'s app_env \<Rightarrow> camera3_stream_buffer \<Rightarrow> 'k App \<Rightarrow> (nat \<times> 'k App) option" where
  "createImageStreamBuffer E buffer a = do {
     stream \<leftarrow> sb_stream buffer;
     pStreamInfo \<leftarrow> Cam3ImageStreamInfo_cast stream (ap_streams a);
     b \<leftarrow> AppImage_Allocator \<lparr>si_streamId = ci_getStreamId pStreamInfo, si_streamName = ci_getStreamName pStreamInfo\<rparr>
            (length (ap_images a)) (GraphicHeap_create E buffer) None;
     Some (length (ap_images a), a\<lparr>ap_images := ap_images a @ [b]\<rparr>)
   }"

definition createMetaStreamBuffer :: "IStreamInfo \<Rightarrow> IMetadata \<Rightarrow> bool \<Rightarrow> 'k App \<Rightarrow> nat \<times> 'k App" where
  "createMetaStreamBuffer pStreamInfo rSettings repeating a =
     (let b = app_setRepeating repeating
                (AppMeta_Allocator pStreamInfo eSTREAMTYPE_META_IN (length (ap_metas a)) (Some rSettings))
      in (length (ap_metas a), a\<lparr>ap_metas := ap_metas a @ [b]\<rparr>))"

fun create_outputs ::
    "'s app_env \<Rightarrow> camera3_stream_buffer list \<Rightarrow> Request \<times> 'k App \<Rightarrow> (Request \<times> 'k App) option" where
  "create_outputs E [] st = Some st"
| "create_outputs E (b # bs) (r, a) = do {
     (i, a1) \<leftarrow> createImageStreamBuffer E b a;
     create_outputs E bs
       (r\<lparr>rq_vOutputImageBuffers := kv_add (image_streamId a1 i) i (rq_vOutputImageBuffers r)\<rparr>, a1)
   }"

definition createRequest ::
    "'s app_env \<Rightarrow> 's camera3_capture_request option \<Rightarrow> Request \<Rightarrow> 'k AppStreamMgr \<Rightarrow>
     (MERROR \<times> Request \<times> 'k AppStreamMgr) option" where
  "createRequest E request rRequest m =
     (let err = checkRequestLocked request m in
      if err \<noteq> OK then Some (err, rRequest, m)
      else do {
        rq \<leftarrow> request;
        let r0 = rRequest\<lparr>rq_frameNo := cr_frame_number rq\<rparr>;
        (r1, a1) \<leftarrow> (case cr_input_buffer rq of
            None \<Rightarrow> Some (r0, mg_mFrameHandler m)
          | Some p \<Rightarrow> do {
              (i, a) \<leftarrow> createImageStreamBuffer E p (mg_mFrameHandler m);
              Some (r0\<lparr>rq_vInputImageBuffers := kv_add (image_streamId a i) i (rq_vInputImageBuffers r0)\<rparr>, a)
            });
        outs \<leftarrow> cr_output_buffers rq;
        (r2, a2) \<leftarrow> create_outputs E outs (r1, a1);
        pStreamInfo \<leftarrow> getConfigMetaStream 0 a2;
        let (ok, settings) = (case cr_settings rq of Some s \<Rightarrow> env_convert E s | None \<Rightarrow> (True, mg_mLatestSettings m));
        let m1 = m\<lparr>mg_mFrameHandler := a2, mg_mLatestSettings := settings\<rparr>;
        if \<not> ok then Some (- ENODEV, r2, m1)
        else do {
          let (b, a3) = createMetaStreamBuffer pStreamInfo settings (cr_settings rq = None) a2;
          Some (OK, r2\<lparr>rq_vInputMetaBuffers := kv_add (meta_streamId a3 b) b (rq_vInputMetaBuffers r2)\<rparr>,
                m1\<lparr>mg_mFrameHandler := a3\<rparr>)
        }
      })"

definition mgr_registerRequest :: "Request \<Rightarrow> 'k AppStreamMgr \<Rightarrow> MERROR \<times> 'k AppStreamMgr" where
  "mgr_registerRequest rRequest m =
     (let (err, a) = registerFrame rRequest (mg_mFrameHandler m) in (err, m\<lparr>mg_mFrameHandler := a\<rparr>))"

section \<open>Results\<close>

definition enqueResult :: "MUINT32 \<Rightarrow> nat list \<Rightarrow> bool \<Rightarrow> 'k AppStreamMgr \<Rightarrow> MERROR \<times> 'k AppStreamMgr" where
  "enqueResult frameNo resultMeta hasLastPartial m =
     (if mg_exitPending m then (DEAD_OBJECT, m)
      else if kv_index (mg_mResultQueue m) frameNo \<noteq> None then
        (OK, m\<lparr>mg_mResultQueue := kv_edit frameNo
           (\<lambda>i. i\<lparr>ri_lastPartial := hasLastPartial, ri_buffer := ri_buffer i @ resultMeta\<rparr>) (mg_mResultQueue m)\<rparr>)
      else
        (OK, m\<lparr>mg_mResultQueue := kv_add frameNo
           \<lparr>ri_lastPartial = hasLastPartial, ri_frameNo = frameNo, ri_buffer = resultMeta\<rparr> (mg_mResultQueue m)\<rparr>))"

definition updateResult :: "MUINT32 \<Rightarrow> nat list \<Rightarrow> bool \<Rightarrow> 'k AppStreamMgr \<Rightarrow> 'k AppStreamMgr" where
  "updateResult frameNo resultMeta hasLastPartial m = snd (enqueResult frameNo resultMeta hasLastPartial m)"

text \<open>\<open>None\<close> while the thread waits for a result or for its end.\<close>

definition dequeResult :: "'k AppStreamMgr \<Rightarrow> (MERROR \<times> (MUINT32, ResultItem) kvec \<times> 'k AppStreamMgr) option" where
  "dequeResult m =
     (if mg_mResultQueue m = [] then
        (if mg_exitPending m then Some (NOT_ENOUGH_DATA, [], m) else None)
      else Some (OK, mg_mResultQueue m, m\<lparr>mg_mResultQueue := []\<rparr>))"

definition mgr_requestExit :: "'k AppStreamMgr \<Rightarrow> 'k AppStreamMgr" where
  "mgr_requestExit m = m\<lparr>mg_exitPending := True\<rparr>"

definition mgr_queryOldestRequestNumber :: "MUINT32 \<Rightarrow> 'k AppStreamMgr \<Rightarrow> MERROR \<times> MUINT32" where
  "mgr_queryOldestRequestNumber ReqNo m = queryOldestRequestNumber ReqNo (mg_mFrameHandler m)"

text \<open>
  \<open>waitUntilDrained\<close> when the lock is held in the states \<open>ws\<close>, each with the result of the wait
  before it: \<open>None\<close> while it still waits.
\<close>

fun mgr_waitUntilDrained :: "(MERROR \<times> 'k AppStreamMgr) list \<Rightarrow> 'k AppStreamMgr \<Rightarrow> MERROR option" where
  "mgr_waitUntilDrained [] m = (if isEmptyFrameQueue (mg_mFrameHandler m) then Some OK else None)"
| "mgr_waitUntilDrained ((err, m') # ws) m =
     (if isEmptyFrameQueue (mg_mFrameHandler m) then Some OK
      else if err \<noteq> OK then Some err
      else mgr_waitUntilDrained ws m')"

section \<open>Calling the client\<close>

datatype 's client_call =
    NotifyShutter MUINT32 "64 word"
  | CaptureMeta MUINT32 's MUINT32
  | NotifyError MUINT32 "nat option" int
  | JpegBlob nat int nat
  | CaptureImages MUINT32 "camera3_stream_buffer list" "camera3_stream_buffer list"

abbreviation (input) CAMERA3_BUFFER_STATUS_OK :: int where "CAMERA3_BUFFER_STATUS_OK \<equiv> 0"
abbreviation (input) CAMERA3_BUFFER_STATUS_ERROR :: int where "CAMERA3_BUFFER_STATUS_ERROR \<equiv> 1"

fun call_metas ::
    "'s app_env \<Rightarrow> MUINT32 \<Rightarrow> (nat \<times> MUINT32) list \<Rightarrow> 'k App \<Rightarrow> ('s client_call list \<times> 'k App) option" where
  "call_metas E frame_number [] a = Some ([], a)"
| "call_metas E frame_number ((b, bufferNo) # ms) a = do {
     let (lock, b1) = onTryReadLock LOG_TAG (ap_metas a ! b);
     pMetadata \<leftarrow> lock;
     let (ret, metadata) = env_convert_back E (am_mMetadata b1);
     if \<not> ret then None
     else do {
       (cs, a') \<leftarrow> call_metas E frame_number ms (edit_meta b (\<lambda>_. onUnlock LOG_TAG (Some pMetadata) b1) a);
       Some (CaptureMeta frame_number metadata bufferNo # cs, a')
     }
   }"

definition call_errors :: "CallbackParcel \<Rightarrow> 's client_call list" where
  "call_errors cb = map (\<lambda>(stream, code). NotifyError (cp_frameNo cb) (map_option get_camera3_stream stream) code) (cp_vError cb)"

definition buffer_of :: "int \<Rightarrow> nat \<times> Cam3ImageStreamInfo \<Rightarrow> 'k App \<Rightarrow> camera3_stream_buffer" where
  "buffer_of status = (\<lambda>(b, stream) a. \<lparr>sb_stream = Some (get_camera3_stream stream),
     sb_buffer = Some (gh_mpBufferHandle (getImageBufferHeap (ap_images a ! b))), sb_handle = None, sb_status = status,
     sb_acquire_fence = app_getAcquireFence (ap_images a ! b), sb_release_fence = app_getReleaseFence (ap_images a ! b)\<rparr>)"

definition output_buffer :: "nat \<times> Cam3ImageStreamInfo \<Rightarrow> 'k App \<Rightarrow> camera3_stream_buffer" where
  "output_buffer x a = buffer_of
     (if hasStatus STATUS_ERROR (ap_images a ! fst x) then CAMERA3_BUFFER_STATUS_ERROR else CAMERA3_BUFFER_STATUS_OK) x a"

text \<open>A JPEG gets its size written behind the last byte of the buffer less the size of the structure.\<close>

definition jpeg_calls :: "'s app_env \<Rightarrow> 'k App \<Rightarrow> camera3_stream_buffer \<Rightarrow> 's client_call list" where
  "jpeg_calls E a d =
     (case (sb_stream d, sb_buffer d) of
        (Some s, Some h) \<Rightarrow>
          let (jpegBufSize, locked, jpegDataSize) = env_jpeg E h in
          if c3_format (ap_streams a ! s) = HAL_PIXEL_FORMAT_BLOB \<and> sb_status d = CAMERA3_BUFFER_STATUS_OK \<and> locked
          then [JpegBlob h (int jpegBufSize - 8) jpegDataSize] else []
      | _ \<Rightarrow> [])"

definition call_images :: "'s app_env \<Rightarrow> CallbackParcel \<Rightarrow> 'k App \<Rightarrow> 's client_call list" where
  "call_images E cb a =
     (if cp_vOutputImageItem cb = [] \<and> cp_vInputImageItem cb = [] then []
      else let outs = map (\<lambda>x. output_buffer x a) (cp_vOutputImageItem cb);
               inps = map (\<lambda>x. buffer_of CAMERA3_BUFFER_STATUS_OK x a) (cp_vInputImageItem cb)
           in concat (map (jpeg_calls E a) outs) @ [CaptureImages (cp_frameNo cb) outs inps])"

definition performCallback :: "'s app_env \<Rightarrow> CallbackParcel \<Rightarrow> 'k App \<Rightarrow> ('s client_call list \<times> 'k App) option" where
  "performCallback E cb a = do {
     let shutter = (case cp_shutter cb of None \<Rightarrow> [] | Some timestamp \<Rightarrow> [NotifyShutter (cp_frameNo cb) timestamp]);
     (metas, a1) \<leftarrow> call_metas E (cp_frameNo cb) (cp_vOutputMetaItem cb) a;
     Some (shutter @ metas @ call_errors cb @ call_images E cb a1, a1)
   }"

fun performCallbacks :: "'s app_env \<Rightarrow> CallbackParcel list \<Rightarrow> 'k App \<Rightarrow> ('s client_call list \<times> 'k App) option" where
  "performCallbacks E [] a = Some ([], a)"
| "performCallbacks E (cb # cbs) a = do {
     (cs, a1) \<leftarrow> performCallback E cb a;
     (cs', a2) \<leftarrow> performCallbacks E cbs a1;
     Some (cs @ cs', a2)
   }"

text \<open>The second component says whether threads in \<open>waitUntilDrained\<close> are woken.\<close>

definition handleResult ::
    "'s app_env \<Rightarrow> 'k sync_kernel \<Rightarrow> (MUINT32, ResultItem) kvec \<Rightarrow> 'k AppStreamMgr \<Rightarrow>
     ('s client_call list \<times> bool \<times> 'k AppStreamMgr) option" where
  "handleResult E K rvResult m = do {
     (cbList, a1) \<leftarrow> frames_update K rvResult ([], mg_mFrameHandler m);
     (cs, a2) \<leftarrow> performCallbacks E cbList a1;
     Some (cs, isEmptyFrameQueue a2, m\<lparr>mg_mFrameHandler := a2\<rparr>)
   }"

definition threadLoop_app ::
    "'s app_env \<Rightarrow> 'k sync_kernel \<Rightarrow> 'k AppStreamMgr \<Rightarrow> ('s client_call list \<times> bool \<times> 'k AppStreamMgr) option" where
  "threadLoop_app E K m = do {
     (err, vResult, m1) \<leftarrow> dequeResult m;
     if err = OK \<and> vResult \<noteq> [] then handleResult E K vResult m1 else Some ([], False, m1)
   }"

end
