(* ===== verification/AppFrameInv.thy ===== *)
theory AppFrameInv
  imports AppManager "HOL-Library.Multiset"
begin

text \<open>
  The invariant of the frame handler's image items: an item is in the frame queue of its stream
  exactly as long as it has not been returned, the sets of its frame count the items that have,
  and a frame that has left the queue has none that has not. \<open>img_step\<close> says that a part of an
  update keeps this and puts into the callback what it marks as returned.
\<close>

section \<open>The invariant\<close>

definition returned :: "'k App \<Rightarrow> nat \<Rightarrow> bool" where
  "returned a i \<longleftrightarrow> bs_hasBit RETURNED (ii_history (ap_items a ! i))"

definition item_stream :: "'k App \<Rightarrow> nat \<Rightarrow> StreamId_T" where
  "item_stream a i = image_streamId a (ii_buffer (ap_items a ! i))"

definition queue_of :: "'k App \<Rightarrow> StreamId_T \<Rightarrow> nat list option" where
  "queue_of a k = map_option ic_vItemFrameQueue (map_of (ap_mImageConfigMap a) k)"

definition set_at :: "'k App \<Rightarrow> nat \<Rightarrow> bool \<Rightarrow> ImageItemSet" where
  "set_at a f x = image_set x (ap_frames a ! f)"

definition entry_returned :: "'k App \<Rightarrow> nat option \<Rightarrow> bool" where
  "entry_returned a v \<longleftrightarrow> (case v of None \<Rightarrow> True | Some i \<Rightarrow> returned a i)"

definition queues_inv :: "'k App \<Rightarrow> bool" where
  "queues_inv a \<longleftrightarrow> (\<forall>k q. queue_of a k = Some q \<longrightarrow> distinct q \<and>
     set q = {i. i < length (ap_items a) \<and> \<not> returned a i \<and> item_stream a i = k})"

definition items_inv :: "'k App \<Rightarrow> bool" where
  "items_inv a \<longleftrightarrow> (\<forall>i < length (ap_items a).
     queue_of a (item_stream a i) \<noteq> None \<and> ii_pFrame (ap_items a ! i) < length (ap_frames a) \<and>
     (\<not> returned a i \<longrightarrow> Some i \<in> snd ` set (is_items (set_at a (ii_pFrame (ap_items a ! i)) (ii_pItemSet (ap_items a ! i))))))"

definition bits_inv :: "'k App \<Rightarrow> bool" where
  "bits_inv a \<longleftrightarrow> (\<forall>i < length (ap_items a).
     \<not> bs_hasBit ERROR_SENT_FRAME (ii_history (ap_items a ! i)) \<and>
     \<not> bs_hasBit ERROR_SENT_META (ii_history (ap_items a ! i)) \<and>
     (bs_hasBit ERROR_SENT_IMAGE (ii_history (ap_items a ! i)) \<longrightarrow> returned a i))"

definition set_inv :: "'k App \<Rightarrow> nat \<Rightarrow> bool \<Rightarrow> bool" where
  "set_inv a f x \<longleftrightarrow>
     distinct (map fst (is_items (set_at a f x))) \<and>
     (\<forall>k i. (k, Some i) \<in> set (is_items (set_at a f x)) \<longrightarrow>
        i < length (ap_items a) \<and> ii_pFrame (ap_items a ! i) = f \<and> ii_pItemSet (ap_items a ! i) = x \<and> item_stream a i = k) \<and>
     is_numReturnedStreams (set_at a f x) = length (filter (\<lambda>(k, v). entry_returned a v) (is_items (set_at a f x)))"

definition frames_inv :: "'k App \<Rightarrow> bool" where
  "frames_inv a \<longleftrightarrow> distinct (ap_mFrameQueue a) \<and> set (ap_mFrameQueue a) \<subseteq> {..<length (ap_frames a)} \<and>
     (\<forall>f < length (ap_frames a). \<forall>x. set_inv a f x) \<and>
     (\<forall>i < length (ap_items a). ii_pFrame (ap_items a ! i) \<notin> set (ap_mFrameQueue a) \<longrightarrow> returned a i)"

definition img_inv :: "'k App \<Rightarrow> bool" where
  "img_inv a \<longleftrightarrow> queues_inv a \<and> items_inv a \<and> frames_inv a"

lemma img_invI: "queues_inv a \<Longrightarrow> items_inv a \<Longrightarrow> frames_inv a \<Longrightarrow> img_inv a"
  by (simp add: img_inv_def)

section \<open>Steps that leave the image items alone\<close>

definition same_images :: "'k App \<Rightarrow> 'k App \<Rightarrow> bool" where
  "same_images a a' \<longleftrightarrow>
     (\<forall>k. queue_of a' k = queue_of a k) \<and> ap_mFrameQueue a' = ap_mFrameQueue a \<and>
     length (ap_frames a') = length (ap_frames a) \<and> length (ap_items a') = length (ap_items a) \<and>
     (\<forall>f x. f < length (ap_frames a) \<longrightarrow> is_items (set_at a' f x) = is_items (set_at a f x) \<and>
        is_numReturnedStreams (set_at a' f x) = is_numReturnedStreams (set_at a f x)) \<and>
     (\<forall>i < length (ap_items a). item_stream a' i = item_stream a i \<and> ii_pFrame (ap_items a' ! i) = ii_pFrame (ap_items a ! i) \<and>
        ii_pItemSet (ap_items a' ! i) = ii_pItemSet (ap_items a ! i) \<and>
        ii_history (ap_items a' ! i) = ii_history (ap_items a ! i) \<and> ii_buffer (ap_items a' ! i) = ii_buffer (ap_items a ! i))"

lemma same_images_refl [simp]: "same_images a a"
  by (simp add: same_images_def)

lemma same_images_trans: "same_images a b \<Longrightarrow> same_images b c \<Longrightarrow> same_images a c"
  unfolding same_images_def by (intro conjI allI impI) auto

lemma same_images_returned: "same_images a a' \<Longrightarrow> i < length (ap_items a) \<Longrightarrow> returned a' i = returned a i"
  by (simp add: same_images_def returned_def)

lemma same_images_set_inv:
  assumes s: "same_images a a'" and f: "f < length (ap_frames a)" and i: "set_inv a f x"
  shows "set_inv a' f x"
proof -
  have e: "is_items (set_at a' f x) = is_items (set_at a f x)"
      "is_numReturnedStreams (set_at a' f x) = is_numReturnedStreams (set_at a f x)"
    using s f by (auto simp: same_images_def)
  have m: "(k, Some j) \<in> set (is_items (set_at a f x)) \<Longrightarrow> j < length (ap_items a)" for k j using i by (auto simp: set_inv_def)
  have r: "filter (\<lambda>(k, v). entry_returned a' v) (is_items (set_at a f x)) =
      filter (\<lambda>(k, v). entry_returned a v) (is_items (set_at a f x))"
    using m same_images_returned [OF s] by (intro filter_cong) (auto simp: entry_returned_def split: option.splits)
  show ?thesis unfolding set_inv_def e r using i s m by (auto simp: set_inv_def same_images_def)
qed

lemma same_images_inv:
  assumes s: "same_images a a'" and i: "img_inv a"
  shows "img_inv a'"
proof (rule img_invI)
  have l: "length (ap_items a') = length (ap_items a)" "length (ap_frames a') = length (ap_frames a)"
      "ap_mFrameQueue a' = ap_mFrameQueue a" and q: "queue_of a' k = queue_of a k" for k
    using s by (auto simp: same_images_def)
  have it: "j < length (ap_items a) \<Longrightarrow> item_stream a' j = item_stream a j \<and> ii_pFrame (ap_items a' ! j) = ii_pFrame (ap_items a ! j) \<and>
        ii_pItemSet (ap_items a' ! j) = ii_pItemSet (ap_items a ! j) \<and>
        ii_history (ap_items a' ! j) = ii_history (ap_items a ! j) \<and> returned a' j = returned a j" for j
    using s by (auto simp: same_images_def returned_def)
  show "queues_inv a'" using i l q it by (auto simp: img_inv_def queues_inv_def)
  show "items_inv a'"
    unfolding items_inv_def l
  proof (intro allI impI)
    fix j assume j: "j < length (ap_items a)"
    note it = it [OF j]
    have p: "ii_pFrame (ap_items a ! j) < length (ap_frames a)" using i j by (simp add: img_inv_def items_inv_def)
    then have e: "is_items (set_at a' (ii_pFrame (ap_items a ! j)) x) = is_items (set_at a (ii_pFrame (ap_items a ! j)) x)" for x
      using s by (auto simp: same_images_def)
    from i j show "queue_of a' (item_stream a' j) \<noteq> None \<and> ii_pFrame (ap_items a' ! j) < length (ap_frames a) \<and>
     (\<not> returned a' j \<longrightarrow> Some j \<in> snd ` set (is_items (set_at a' (ii_pFrame (ap_items a' ! j)) (ii_pItemSet (ap_items a' ! j)))))"
      by (simp add: img_inv_def items_inv_def it q e)
  qed
  show "frames_inv a'" using i same_images_set_inv [OF s] it by (auto simp: img_inv_def frames_inv_def l)
qed

lemma same_images_bits: "same_images a a' \<Longrightarrow> bits_inv a \<Longrightarrow> bits_inv a'"
  by (simp add: bits_inv_def same_images_def returned_def)

lemma same_images_metas: "same_images a (a\<lparr>ap_metas := ms\<rparr>)"
  by (simp add: same_images_def queue_of_def set_at_def item_stream_def image_streamId_def)

lemma same_images_latest: "same_images a (a\<lparr>ap_latestResultFrameNo := n\<rparr>)"
  by (simp add: same_images_def queue_of_def set_at_def item_stream_def image_streamId_def)

lemma same_images_sync: "same_images a (a\<lparr>ap_sync := k\<rparr>)"
  by (simp add: same_images_def queue_of_def set_at_def item_stream_def image_streamId_def)

lemma same_images_edit_meta: "same_images a (edit_meta b g a)"
  by (simp add: edit_meta_def same_images_metas)

lemma nth_update_if: "xs[i := v] ! h = (if h = i \<and> i < length xs then v else xs ! h)"
  by (cases "i < length xs") (auto simp: nth_list_update list_update_beyond)

text \<open>A step on a frame that keeps its image sets, but for the counters of valid and failed streams.\<close>

lemma same_images_edit_frame:
  assumes "\<And>x p. is_items (image_set x (g p)) = is_items (image_set x p) \<and>
     is_numReturnedStreams (image_set x (g p)) = is_numReturnedStreams (image_set x p)"
  shows "same_images a (edit_frame f g a)"
proof -
  have "ap_frames (edit_frame f g a) ! h = (if h = f \<and> f < length (ap_frames a) then g (ap_frames a ! f) else ap_frames a ! h)" for h
    by (simp add: edit_frame_def nth_update_if)
  then show ?thesis using assms
    by (simp add: same_images_def set_at_def queue_of_def item_stream_def image_streamId_def) (simp add: edit_frame_def)
qed

lemma same_images_edit_item:
  assumes "\<And>y. ii_pFrame (g y) = ii_pFrame y \<and> ii_pItemSet (g y) = ii_pItemSet y \<and> ii_history (g y) = ii_history y \<and> ii_buffer (g y) = ii_buffer y"
  shows "same_images a (edit_item i g a)"
proof -
  have "ap_items (edit_item i g a) ! h = (if h = i \<and> i < length (ap_items a) then g (ap_items a ! i) else ap_items a ! h)" for h
    by (simp add: edit_item_def nth_update_if)
  then show ?thesis using assms
    by (simp add: same_images_def set_at_def queue_of_def item_stream_def image_streamId_def) (simp add: edit_item_def)
qed

lemma same_images_edit_image:
  assumes "\<And>y. mStreamInfo (g y) = mStreamInfo y"
  shows "same_images a (edit_image b g a)"
proof -
  have "ap_images (edit_image b g a) ! h = (if h = b \<and> b < length (ap_images a) then g (ap_images a ! b) else ap_images a ! h)" for h
    by (simp add: edit_image_def nth_update_if)
  then show ?thesis using assms
    by (simp add: same_images_def set_at_def queue_of_def item_stream_def image_streamId_def) (simp add: edit_image_def)
qed

lemma image_set_edit_meta_set [simp]: "image_set x (edit_meta_set g p) = image_set x p"
  by (simp add: image_set_def edit_meta_set_def)

lemma image_set_edit_image_set [simp]:
  "image_set x (edit_image_set y g p) = (if x = y then g (image_set x p) else image_set x p)"
  by (simp add: image_set_def edit_image_set_def)

lemma image_set_update [simp]:
  "image_set x (p\<lparr>fp_errors := e\<rparr>) = image_set x p" "image_set x (p\<lparr>fp_timestampShutter := t\<rparr>) = image_set x p"
  "image_set x (p\<lparr>fp_vInputMetaItem := ms\<rparr>) = image_set x p"
  by (simp_all add: image_set_def)

lemmas same_images_intros = same_images_trans [OF _ same_images_edit_meta] same_images_trans [OF _ same_images_edit_frame]
  same_images_trans [OF _ same_images_edit_item] same_images_trans [OF _ same_images_edit_image]

section \<open>Metadata and states\<close>

definition sent :: "CallbackParcel \<Rightarrow> nat multiset" where
  "sent cb = mset (map fst (cp_vOutputImageItem cb)) + mset (map fst (cp_vInputImageItem cb))"

definition quiet :: "CallbackParcel \<times> 'k App \<Rightarrow> CallbackParcel \<times> 'k App \<Rightarrow> bool" where
  "quiet st st' \<longleftrightarrow> same_images (snd st) (snd st') \<and> sent (fst st') = sent (fst st) \<and>
     (cp_valid (fst st) \<longrightarrow> cp_valid (fst st'))"

lemma quiet_trans: "quiet s t \<Longrightarrow> quiet t u \<Longrightarrow> quiet s u"
  by (auto simp: quiet_def intro: same_images_trans)

lemma quiet_ErrorMeta: "prepareErrorMetaIfPossible (it, cb, a) = (it', cb', a') \<Longrightarrow> quiet (cb, a) (cb', a')"
  by (auto simp: prepareErrorMetaIfPossible_def Let_def quiet_def sent_def same_images_edit_frame split: if_splits)

lemma quiet_Shutter: "prepareShutterNotificationIfPossible it (cb, a) = Some (cb', a') \<Longrightarrow> quiet (cb, a) (cb', a')"
  by (auto simp: prepareShutterNotificationIfPossible_def Let_def quiet_def sent_def same_images_edit_meta
      intro: same_images_intros same_images_edit_frame split: if_splits option.splits prod.splits MetaItem.splits)

lemma quiet_ReturnMeta: "prepareReturnMeta it (cb, a) = Some (it', cb', a') \<Longrightarrow> quiet (cb, a) (cb', a')"
  by (auto simp: prepareReturnMeta_def Let_def quiet_def sent_def
      intro!: same_images_trans [OF same_images_edit_frame same_images_edit_meta] same_images_edit_frame split: if_splits prod.splits)

lemma quiet_refl [simp]: "quiet st st"
  by (simp add: quiet_def)

lemma quiet_meta_callback:
  assumes "meta_callback it (cb, a) = Some (u, it', cb', a')"
  shows "quiet (cb, a) (cb', a')"
proof (cases "mi_state it")
  case ST_VALID
  show ?thesis
  proof (cases "cb' = cb \<and> a' = a")
    case False
    then obtain cb1 a1 where "prepareShutterNotificationIfPossible it (cb, a) = Some (cb1, a1)"
        "prepareReturnMeta it (cb1, a1) = Some (it', cb', a')"
      using assms by (auto simp: meta_callback_def ST_VALID split: if_splits)
    then show ?thesis by (blast intro: quiet_trans quiet_Shutter quiet_ReturnMeta)
  qed simp
next
  case ST_ERROR
  then show ?thesis using assms by (auto simp: meta_callback_def intro: quiet_ErrorMeta split: if_splits)
qed (use assms in \<open>auto simp: meta_callback_def\<close>)

lemma same_images_put_meta: "same_images a (put_meta f i v a)"
  by (simp add: put_meta_def same_images_edit_frame)

lemma quiet_metas: "prepareCallback_metas f is (cb, a) = Some (u, cb', a') \<Longrightarrow> quiet (cb, a) (cb', a')"
proof (induction "is" arbitrary: cb a u cb' a')
  case (Cons i "is")
  show ?case
  proof (cases "snd (ms_items (fp_vOutputMetaItem (ap_frames a ! f)) ! i)")
    case None
    then show ?thesis using Cons by simp
  next
    case (Some it)
    obtain u1 it1 cb1 a1 where c1: "meta_callback it (cb, a) = Some (u1, it1, cb1, a1)"
      using Cons.prems by (auto simp: Some Let_def)
    then obtain u2 v where c2: "prepareCallback_metas f is (cb1, put_meta f i v a1) = Some (u2, cb', a')"
      using Cons.prems by (auto simp: Some Let_def)
    note c = c1 c2
    show ?thesis
      using quiet_trans [OF quiet_meta_callback [OF c(1)] quiet_trans [OF _ Cons.IH [OF c(2)]]] same_images_put_meta [of a1 f i v]
      by (simp add: quiet_def)
  qed
qed (simp add: quiet_def)

lemma quiet_prepareCallbackIfPossible_meta:
  "prepareCallbackIfPossible_meta f (cb, a) = Some (u, cb', a') \<Longrightarrow> quiet (cb, a) (cb', a')"
  by (auto simp: prepareCallbackIfPossible_meta_def intro: quiet_metas)

lemma same_images_update_metas: "same_images a (update_metas f is a)"
proof (induction "is" arbitrary: a)
  case (Cons i "is")
  have "same_images b (edit_frame f (edit_meta_set h) (put_meta f i v b))" for b :: "'a App" and h v
    by (rule same_images_trans [OF same_images_put_meta same_images_edit_frame]) simp
  then show ?case by (auto simp: Let_def intro: Cons same_images_trans [OF _ Cons] split: option.splits)
qed simp

lemma same_images_ReleaseHandler: "same_images a (ReleaseHandler K i a)"
proof -
  have h: "same_images b (edit_frame f (edit_image_set x c) (edit_item i (\<lambda>y. y\<lparr>ii_state := s\<rparr>) (edit_image n g b)))"
    if "\<And>y. mStreamInfo (g y) = mStreamInfo y" "\<And>z. is_items (c z) = is_items z \<and> is_numReturnedStreams (c z) = is_numReturnedStreams z"
    for b :: "'a App" and f x c s n g
    using that by (intro same_images_intros same_images_edit_image) auto
  show ?thesis unfolding ReleaseHandler_def Let_def
    by (auto simp: app_setAcquireFence_def app_setReleaseFence_def intro!: h same_images_trans [OF same_images_sync h] split: prod.splits)
qed

lemma same_images_PreReleaseHandler: "same_images a (PreReleaseHandler K i a)"
  unfolding PreReleaseHandler_def Let_def
  by (auto simp: app_setAcquireFence_def app_setReleaseFence_def split: prod.splits
      intro!: same_images_trans [OF same_images_sync same_images_trans [OF same_images_edit_image same_images_edit_item]])

lemma same_images_image_update: "same_images a (image_update K i a)"
  by (simp add: image_update_def Let_def same_images_ReleaseHandler same_images_PreReleaseHandler split: State.splits)

lemma same_images_update_images: "same_images a (update_images K is a)"
  by (induction K "is" a rule: update_images.induct) (auto intro: same_images_trans same_images_image_update)

lemma same_images_add_results: "same_images a (fold (add_result_meta f) bs a)"
proof (induction bs arbitrary: a)
  case (Cons b bs)
  have "same_images a (add_result_meta f b a)" by (simp add: add_result_meta_def same_images_edit_frame)
  with Cons show ?case by (auto intro: same_images_trans)
qed simp

lemma same_images_apply_result: "same_images a (apply_result K r f a)"
proof -
  have "same_images b (mark_last_partial f k b)" for b :: "'a App" and k by (simp add: mark_last_partial_def same_images_edit_frame)
  then have "same_images a (if ri_buffer r = [] then fold (add_result_meta f) (ri_buffer r) a
      else if ri_lastPartial r then mark_last_partial f k (fold (add_result_meta f) (ri_buffer r) a)
      else fold (add_result_meta f) (ri_buffer r) a)" for k
    using same_images_add_results [of a f "ri_buffer r"] by (auto intro: same_images_trans)
  then show ?thesis
    unfolding apply_result_def Let_def updateItemSet_image_def updateItemSet_meta_def
    by (intro same_images_trans [OF _ same_images_update_images] same_images_trans [OF _ same_images_update_metas])
qed

lemma same_images_apply_results: "same_images a (apply_results K rs fs a)"
proof (induction rs arbitrary: fs a)
  case (Cons r rs)
  show ?case using same_images_trans [OF same_images_apply_result Cons] Cons by (auto split: list.splits)
qed simp

lemma same_images_update_results: "update_results K rv a = Some a' \<Longrightarrow> same_images a a'"
  by (auto simp: update_results_def Let_def intro: same_images_apply_results
      intro!: same_images_trans [OF same_images_apply_results same_images_latest] split: if_splits)

section \<open>Returning and clearing an item\<close>

definition ret_mset :: "'k App \<Rightarrow> nat multiset" where
  "ret_mset a = image_mset (\<lambda>i. ii_buffer (ap_items a ! i)) (mset_set {i. i < length (ap_items a) \<and> returned a i})"

definition same_shape :: "'k App \<Rightarrow> 'k App \<Rightarrow> bool" where
  "same_shape a a' \<longleftrightarrow> ap_mFrameQueue a' = ap_mFrameQueue a \<and> length (ap_items a') = length (ap_items a) \<and>
     length (ap_frames a') = length (ap_frames a) \<and>
     (\<forall>f x. f < length (ap_frames a) \<longrightarrow> map fst (is_items (set_at a' f x)) = map fst (is_items (set_at a f x)))"

definition img_step :: "CallbackParcel \<times> 'k App \<Rightarrow> CallbackParcel \<times> 'k App \<Rightarrow> bool" where
  "img_step st st' \<longleftrightarrow> img_inv (snd st') \<and> same_shape (snd st) (snd st') \<and>
     sent (fst st') + ret_mset (snd st) = sent (fst st) + ret_mset (snd st') \<and>
     (cp_valid (fst st) \<or> sent (fst st') \<noteq> sent (fst st) \<longrightarrow> cp_valid (fst st'))"

lemma img_step_trans: "img_step s t \<Longrightarrow> img_step t u \<Longrightarrow> img_step s u"
proof -
  assume a: "img_step s t" "img_step t u"
  have 1: "sent (fst t) + ret_mset (snd s) = sent (fst s) + ret_mset (snd t)"
      "sent (fst u) + ret_mset (snd t) = sent (fst t) + ret_mset (snd u)" using a by (auto simp: img_step_def)
  have "sent (fst u) + ret_mset (snd s) + ret_mset (snd t) = (sent (fst u) + ret_mset (snd t)) + ret_mset (snd s)"
    by (simp add: ac_simps)
  also have "\<dots> = (sent (fst t) + ret_mset (snd s)) + ret_mset (snd u)" unfolding 1(2) by (simp add: ac_simps)
  also have "\<dots> = sent (fst s) + ret_mset (snd u) + ret_mset (snd t)" unfolding 1(1) by (simp add: ac_simps)
  finally have "sent (fst u) + ret_mset (snd s) + ret_mset (snd t) = sent (fst s) + ret_mset (snd u) + ret_mset (snd t)" .
  then have "sent (fst u) + ret_mset (snd s) = sent (fst s) + ret_mset (snd u)" by simp
  moreover have "cp_valid (fst s) \<or> sent (fst u) \<noteq> sent (fst s) \<longrightarrow> cp_valid (fst u)" using a by (auto simp: img_step_def)
  ultimately show ?thesis using a by (simp add: img_step_def same_shape_def)
qed

lemma ret_mset_same: "same_images a a' \<Longrightarrow> ret_mset a' = ret_mset a"
proof -
  assume s: "same_images a a'"
  then have l: "length (ap_items a') = length (ap_items a)" by (simp add: same_images_def)
  have e: "{i. i < length (ap_items a') \<and> returned a' i} = {i. i < length (ap_items a) \<and> returned a i}"
    using same_images_returned [OF s] l by auto
  show ?thesis unfolding ret_mset_def e using s by (intro image_mset_cong) (simp add: same_images_def)
qed

lemma quiet_img_step: "img_inv (snd st) \<Longrightarrow> quiet st st' \<Longrightarrow> img_step st st'"
  using same_images_inv [of "snd st" "snd st'"] ret_mset_same [of "snd st" "snd st'"]
  by (auto simp: img_step_def quiet_def same_shape_def same_images_def)

lemma img_step_refl: "img_inv (snd st) \<Longrightarrow> img_step st st"
  by (simp add: img_step_def same_shape_def)

lemma length_filter_once:
  assumes "distinct (map fst xs)" and "(k, v) \<in> set xs" and "P' (k, v)" and "\<not> P (k, v)"
    and "\<And>y. y \<in> set xs \<Longrightarrow> y \<noteq> (k, v) \<Longrightarrow> P' y = P y"
  shows "length (filter P' xs) = length (filter P xs) + 1"
  using assms
proof (induction xs)
  case (Cons x xs)
  show ?case
  proof (cases "x = (k, v)")
    case True
    then have "(k, v) \<notin> set xs" using Cons.prems(1) by (auto simp: image_iff)
    then have "filter P' xs = filter P xs" using Cons.prems(5) by (intro filter_cong) auto
    then show ?thesis using True Cons.prems by simp
  next
    case False
    then have "length (filter P' xs) = length (filter P xs) + 1" using Cons by simp
    moreover have "P' x = P x" using Cons.prems(5) [of x] False by simp
    ultimately show ?thesis by simp
  qed
qed simp

definition mark_returned :: "nat \<Rightarrow> 'k App \<Rightarrow> 'k App" where
  "mark_returned i a = edit_queue (item_stream a i) (remove1 i)
     (edit_frame (ii_pFrame (ap_items a ! i)) (edit_image_set (ii_pItemSet (ap_items a ! i))
        (\<lambda>s. s\<lparr>is_numReturnedStreams := is_numReturnedStreams s + 1\<rparr>))
        (edit_item i (\<lambda>x. x\<lparr>ii_history := bs_markBit RETURNED (ii_history x)\<rparr>) a))"

lemma prepareReturnImage_mark:
  assumes "prepareReturnImage i (cb, a) = Some (cb', a')" and "\<not> returned a i" and "i < length (ap_items a)"
  shows "a' = mark_returned i a \<and> sent cb' = add_mset (ii_buffer (ap_items a ! i)) (sent cb) \<and> cp_valid cb'"
proof -
  have k: "image_streamId (edit_frame f g (edit_item i h a)) b = image_streamId a b" for f g h b
    by (simp add: image_streamId_def edit_frame_def edit_item_def)
  show ?thesis using assms
    by (auto simp: prepareReturnImage_def Let_def mark_returned_def item_stream_def returned_def k sent_def
        split: if_splits option.splits)
qed

lemma prepareReturnImage_again:
  "prepareReturnImage i (cb, a) = Some (cb', a') \<Longrightarrow> returned a i \<Longrightarrow> quiet (cb, a) (cb', a')"
  by (auto simp: prepareReturnImage_def Let_def returned_def quiet_def sent_def)

lemma mark_returned_items:
  assumes i: "i < length (ap_items a)"
  shows "length (ap_items (mark_returned i a)) = length (ap_items a)"
  "ap_items (mark_returned i a) ! j = (if j = i then (ap_items a ! i)\<lparr>ii_history := bs_markBit RETURNED (ii_history (ap_items a ! i))\<rparr>
     else ap_items a ! j)"
  using assms by (auto simp: mark_returned_def edit_queue_def edit_frame_def edit_item_def)

lemma mark_returned_returned: "i < length (ap_items a) \<Longrightarrow> returned (mark_returned i a) j \<longleftrightarrow> j = i \<or> returned a j"
  by (simp add: returned_def mark_returned_items)

lemma mark_returned_stream: "i < length (ap_items a) \<Longrightarrow> item_stream (mark_returned i a) j = item_stream a j"
  by (simp add: item_stream_def mark_returned_items)
    (simp add: image_streamId_def mark_returned_def edit_queue_def edit_frame_def edit_item_def)

lemma mark_returned_queue:
  "queue_of (mark_returned i a) k = (if k = item_stream a i then map_option (remove1 i) (queue_of a k) else queue_of a k)"
  by (simp add: queue_of_def mark_returned_def edit_queue_def edit_frame_def edit_item_def option.map_comp comp_def)

lemma mark_returned_frames:
  "ap_mFrameQueue (mark_returned i a) = ap_mFrameQueue a" "length (ap_frames (mark_returned i a)) = length (ap_frames a)"
  by (simp_all add: mark_returned_def edit_queue_def edit_frame_def edit_item_def)

lemma mark_returned_set:
  "is_items (set_at (mark_returned i a) f x) = is_items (set_at a f x)"
  "f < length (ap_frames a) \<Longrightarrow> is_numReturnedStreams (set_at (mark_returned i a) f x) = is_numReturnedStreams (set_at a f x) +
     (if f = ii_pFrame (ap_items a ! i) \<and> x = ii_pItemSet (ap_items a ! i) then 1 else 0)"
  by (auto simp: set_at_def mark_returned_def edit_queue_def edit_frame_def edit_item_def nth_update_if)

lemma mark_returned_set_inv:
  assumes i: "i < length (ap_items a)" and nr: "\<not> returned a i" and inv: "img_inv a" and f: "f < length (ap_frames a)"
  shows "set_inv (mark_returned i a) f x"
proof -
  let ?xs = "is_items (set_at a f x)"
  have s: "set_inv a f x" using inv f by (simp add: img_inv_def frames_inv_def)
  have c: "length (filter (\<lambda>(k, v). entry_returned (mark_returned i a) v) ?xs) = length (filter (\<lambda>(k, v). entry_returned a v) ?xs) +
     (if f = ii_pFrame (ap_items a ! i) \<and> x = ii_pItemSet (ap_items a ! i) then 1 else 0)"
  proof (cases "f = ii_pFrame (ap_items a ! i) \<and> x = ii_pItemSet (ap_items a ! i)")
    case True
    have "Some i \<in> snd ` set ?xs" using inv i nr True by (auto simp: img_inv_def items_inv_def)
    then obtain k where k: "(k, Some i) \<in> set ?xs" by auto
    have d: "distinct (map fst ?xs)" using s by (simp add: set_inv_def)
    have u: "(k', Some i) \<in> set ?xs \<Longrightarrow> k' = k" for k' using s k by (auto simp: set_inv_def)
    have "length (filter (\<lambda>(k, v). entry_returned (mark_returned i a) v) ?xs) = length (filter (\<lambda>(k, v). entry_returned a v) ?xs) + 1"
      by (rule length_filter_once [OF d k])
        (use u nr in \<open>auto simp: entry_returned_def mark_returned_returned [OF i] split: option.splits\<close>)
    then show ?thesis using True by simp
  next
    case False
    then have "(k, Some i) \<notin> set ?xs" for k using s by (auto simp: set_inv_def)
    then have "filter (\<lambda>(k, v). entry_returned (mark_returned i a) v) ?xs = filter (\<lambda>(k, v). entry_returned a v) ?xs"
      by (intro filter_cong) (auto simp: entry_returned_def mark_returned_returned [OF i] split: option.splits)
    then show ?thesis using False by auto
  qed
  show ?thesis unfolding set_inv_def mark_returned_set(1) c mark_returned_set(2) [OF f]
    using s by (auto simp: set_inv_def mark_returned_items [OF i] mark_returned_stream [OF i])
qed

lemma mark_returned_inv:
  assumes i: "i < length (ap_items a)" and nr: "\<not> returned a i" and inv: "img_inv a"
  shows "img_inv (mark_returned i a)"
proof (rule img_invI)
  show "queues_inv (mark_returned i a)"
    using inv by (auto simp: img_inv_def queues_inv_def mark_returned_queue mark_returned_items [OF i] mark_returned_returned [OF i] mark_returned_stream [OF i])
  show "items_inv (mark_returned i a)"
    using inv by (auto simp: img_inv_def items_inv_def mark_returned_queue mark_returned_items [OF i] mark_returned_returned [OF i]
        mark_returned_stream [OF i] mark_returned_frames mark_returned_set(1))
  show "frames_inv (mark_returned i a)"
    using inv mark_returned_set_inv [OF i nr inv]
    by (auto simp: img_inv_def frames_inv_def mark_returned_items [OF i] mark_returned_returned [OF i] mark_returned_frames)
qed

lemma mark_returned_ret:
  assumes i: "i < length (ap_items a)" and nr: "\<not> returned a i"
  shows "ret_mset (mark_returned i a) = add_mset (ii_buffer (ap_items a ! i)) (ret_mset a)"
proof -
  have e: "{j. j < length (ap_items a) \<and> (j = i \<or> returned a j)} = insert i {j. j < length (ap_items a) \<and> returned a j}"
    using i by auto
  have b: "ii_buffer (ap_items (mark_returned i a) ! j) = ii_buffer (ap_items a ! j)" for j by (simp add: mark_returned_items [OF i])
  show ?thesis unfolding ret_mset_def mark_returned_items(1) [OF i] mark_returned_returned [OF i] e b using nr by simp
qed

lemma img_step_return:
  assumes "prepareReturnImage i (cb, a) = Some (cb', a')" and "i < length (ap_items a)" and "img_inv a"
  shows "img_step (cb, a) (cb', a') \<and> returned a' i"
proof (cases "returned a i")
  case True
  note q = prepareReturnImage_again [OF assms(1) True]
  have "returned a' i" using same_images_returned [of a a' i] q True assms(2) by (simp add: quiet_def)
  with q assms(3) show ?thesis by (simp add: quiet_img_step)
next
  case False
  note m = prepareReturnImage_mark [OF assms(1) False assms(2)]
  have "same_shape a (mark_returned i a)"
    by (simp add: same_shape_def mark_returned_frames mark_returned_items [OF assms(2)] mark_returned_set(1))
  then show ?thesis
    using m mark_returned_inv [OF assms(2) False assms(3)] mark_returned_ret [OF assms(2) False] mark_returned_returned [OF assms(2)]
    by (simp add: img_step_def)
qed

lemma length_filter_update:
  "n < length xs \<Longrightarrow> P (xs ! n) = P y \<Longrightarrow> length (filter P (xs[n := y])) = length (filter P xs)"
proof (induction xs arbitrary: n)
  case (Cons x xs)
  then show ?case by (cases n) auto
qed simp

lemma img_step_clear:
  assumes inv: "img_inv a" and f: "f < length (ap_frames a)" and n: "n < length (is_items (set_at a f x))"
    and e: "snd (is_items (set_at a f x) ! n) = Some i" and r: "returned a i"
  shows "img_step (cb, a) (cb, clear_image f x n a)"
proof -
  let ?a = "clear_image f x n a" and ?xs = "is_items (set_at a f x)"
  let ?ys = "?xs[n := (fst (?xs ! n), None)]"
  have st: "is_items (set_at ?a g y) = (if g = f \<and> y = x then ?ys else is_items (set_at a g y))"
      "is_numReturnedStreams (set_at ?a g y) = is_numReturnedStreams (set_at a g y)" for g y
    using f by (auto simp: clear_image_def set_at_def edit_frame_def nth_update_if)
  have same: "ap_items ?a = ap_items a" "ap_mFrameQueue ?a = ap_mFrameQueue a" "length (ap_frames ?a) = length (ap_frames a)"
      "item_stream ?a = item_stream a" "queue_of ?a = queue_of a"
    by (simp_all add: clear_image_def edit_frame_def item_stream_def queue_of_def image_streamId_def fun_eq_iff)
  have ret: "returned ?a = returned a" by (simp add: returned_def same fun_eq_iff)
  have mf: "map fst ?ys = map fst ?xs" using n by (simp add: map_update list_update_same_conv)
  have cnt: "length (filter (\<lambda>(k, v). entry_returned ?a v) ?ys) = length (filter (\<lambda>(k, v). entry_returned a v) ?xs)"
  proof -
    have "filter (\<lambda>(k, v). entry_returned ?a v) zs = filter (\<lambda>(k, v). entry_returned a v) zs"
      for zs :: "(StreamId_T \<times> nat option) list"
      by (intro filter_cong) (auto simp: entry_returned_def ret split: option.splits)
    moreover have "length (filter (\<lambda>(k, v). entry_returned a v) ?ys) = length (filter (\<lambda>(k, v). entry_returned a v) ?xs)"
      using n e r by (intro length_filter_update) (auto simp: entry_returned_def case_prod_beta)
    ultimately show ?thesis by simp
  qed
  have si: "set_inv ?a g y" if "g < length (ap_frames a)" for g y
  proof -
    have s: "set_inv a g y" using inv that by (simp add: img_inv_def frames_inv_def)
    show ?thesis
    proof (cases "g = f \<and> y = x")
      case True
      have sub: "(k, Some j) \<in> set ?ys \<Longrightarrow> (k, Some j) \<in> set ?xs" for k j
        using set_update_subset_insert [of ?xs n] by auto
      have "distinct (map fst ?ys)" unfolding mf using s True by (simp add: set_inv_def)
      then show ?thesis using s True sub cnt by (auto simp: set_inv_def st same)
    next
      case False
      then have "filter (\<lambda>(k, v). entry_returned ?a v) (is_items (set_at a g y)) = filter (\<lambda>(k, v). entry_returned a v) (is_items (set_at a g y))"
        by (intro filter_cong) (auto simp: entry_returned_def ret split: option.splits)
      then show ?thesis using s False by (auto simp: set_inv_def st same)
    qed
  qed
  have keep: "Some j \<in> snd ` set (is_items (set_at ?a g y))" if "Some j \<in> snd ` set (is_items (set_at a g y))" "\<not> returned a j" for j g y
  proof (cases "g = f \<and> y = x")
    case True
    with that obtain m where m: "m < length ?xs" "snd (?xs ! m) = Some j" by (auto simp: in_set_conv_nth)
    then have "m \<noteq> n" using e that(2) r by auto
    then have "?ys ! m = ?xs ! m" by simp
    then show ?thesis using True m by (auto simp: st intro!: image_eqI [of _ _ "?ys ! m"] nth_mem)
  qed (use that in \<open>auto simp: st\<close>)
  have "img_inv ?a"
  proof (rule img_invI)
    show "queues_inv ?a" using inv by (simp add: img_inv_def queues_inv_def same ret)
    show "items_inv ?a" using inv keep by (auto simp: img_inv_def items_inv_def same ret)
    show "frames_inv ?a" using inv si by (auto simp: img_inv_def frames_inv_def same ret)
  qed
  moreover have "same_shape a ?a" by (simp add: same_shape_def same st mf)
  moreover have "ret_mset ?a = ret_mset a" by (simp add: ret_mset_def same ret)
  ultimately show ?thesis by (simp add: img_step_def)
qed

lemma img_step_error_image:
  assumes "prepareErrorImage i (cb, a) = Some (cb', a')" and "img_inv a"
  shows "img_step (cb, a) (cb', a') \<and> returned a' i = returned a i"
proof -
  let ?g = "\<lambda>x. x\<lparr>ii_history := bs_markBit ERROR_SENT_IMAGE (ii_history x)\<rparr>"
  have a': "a' = edit_item i ?g a" "sent cb' = sent cb" "cp_valid cb'" using assms(1) by (auto simp: prepareErrorImage_def Let_def sent_def)
  have it: "ii_pFrame (ap_items a' ! j) = ii_pFrame (ap_items a ! j)" "ii_pItemSet (ap_items a' ! j) = ii_pItemSet (ap_items a ! j)"
      "ii_buffer (ap_items a' ! j) = ii_buffer (ap_items a ! j)" "returned a' j = returned a j" "item_stream a' j = item_stream a j" for j
    by (auto simp: a' edit_item_def nth_update_if returned_def item_stream_def image_streamId_def)
  have o: "length (ap_items a') = length (ap_items a)" "ap_frames a' = ap_frames a" "ap_mFrameQueue a' = ap_mFrameQueue a"
      "queue_of a' = queue_of a" "set_at a' = set_at a"
    by (simp_all add: a' edit_item_def queue_of_def set_at_def fun_eq_iff)
  have er: "entry_returned a' = entry_returned a" by (simp add: entry_returned_def it fun_eq_iff split: option.splits)
  have si: "set_inv a' f x = set_inv a f x" for f x by (simp add: set_inv_def o it er)
  have "img_inv a'" using assms(2) by (simp add: img_inv_def queues_inv_def items_inv_def frames_inv_def si o it)
  moreover have "same_shape a a'" by (simp add: same_shape_def o)
  moreover have "ret_mset a' = ret_mset a" by (simp add: ret_mset_def o it)
  ultimately show ?thesis using a'(2,3) it by (simp add: img_step_def)
qed

section \<open>The callbacks of a frame\<close>

lemma img_step_image_callback:
  assumes c: "image_callback i (cb, a) = Some (u, cb', a')" and i: "i < length (ap_items a)" and inv: "img_inv a"
  shows "img_step (cb, a) (cb', a')"
proof (cases "ii_state (ap_items a ! i)")
  case ST_IN_FLIGHT
  then show ?thesis using c img_step_refl [of "(cb, a)"] inv by (auto simp: image_callback_def Let_def)
next
  case ST_ERROR
  show ?thesis
  proof (cases "cb' = cb \<and> a' = a")
    case False
    then obtain cb1 a1 where e: "prepareErrorImage i (cb, a) = Some (cb1, a1)"
        and r: "(cb', a') = (cb1, a1) \<or> prepareReturnImage i (cb1, a1) = Some (cb', a')"
      using c by (auto simp: image_callback_def Let_def ST_ERROR split: if_splits)
    note s = img_step_error_image [OF e inv]
    then have "i < length (ap_items a1)" "img_inv a1" using i by (auto simp: img_step_def same_shape_def)
    then show ?thesis using r s img_step_return [of i cb1 a1 cb' a'] by (auto intro: img_step_trans)
  qed (use inv img_step_refl [of "(cb, a)"] in auto)
qed (use c inv img_step_refl [of "(cb, a)"] img_step_return [OF _ i inv] in
    \<open>auto simp: image_callback_def Let_def split: if_splits\<close>)

text \<open>The bits of an item after its callback, and those of the other items.\<close>

lemma prepareReturnImage_history:
  "prepareReturnImage i (cb, a) = Some (cb', a') \<Longrightarrow> i < length (ap_items a) \<Longrightarrow>
     ap_items a' = (ap_items a)[i := (ap_items a ! i)\<lparr>ii_history := ii_history (ap_items a' ! i)\<rparr>] \<and>
     (ii_history (ap_items a' ! i) = ii_history (ap_items a ! i) \<or>
      ii_history (ap_items a' ! i) = bs_markBit RETURNED (ii_history (ap_items a ! i)))"
  by (auto simp: prepareReturnImage_def Let_def edit_queue_def edit_frame_def edit_item_def split: if_splits option.splits)

lemma bits_inv_upd:
  assumes "bits_inv a" and "ap_items a' = (ap_items a)[i := (ap_items a ! i)\<lparr>ii_history := h\<rparr>]" and "i < length (ap_items a)"
    and "\<not> bs_hasBit ERROR_SENT_FRAME h" and "\<not> bs_hasBit ERROR_SENT_META h" and "bs_hasBit ERROR_SENT_IMAGE h \<longrightarrow> bs_hasBit RETURNED h"
  shows "bits_inv a'"
  using assms by (auto simp: bits_inv_def returned_def nth_update_if)

lemma bits_return:
  assumes r: "prepareReturnImage i (cb, a) = Some (cb', a')" and i: "i < length (ap_items a)" and b: "bits_inv a"
  shows "bits_inv a'"
proof -
  note h = prepareReturnImage_history [OF r i]
  show ?thesis
  proof (rule bits_inv_upd [OF b conjunct1 [OF h] i])
  qed (use h b i in \<open>auto simp: bits_inv_def returned_def\<close>)
qed

lemma bits_image_callback:
  assumes c: "image_callback i (cb, a) = Some (u, cb', a')" and i: "i < length (ap_items a)" and inv: "img_inv a" and b: "bits_inv a"
  shows "bits_inv a'"
proof (cases "a' = a \<or> prepareReturnImage i (cb, a) = Some (cb', a')")
  case True
  then show ?thesis using bits_return [OF _ i b] b by auto
next
  case False
  then obtain cb1 a1 where s: "ii_state (ap_items a ! i) = ST_ERROR" and e: "prepareErrorImage i (cb, a) = Some (cb1, a1)"
      and r: "((cb', a') = (cb1, a1) \<and> returned a1 i) \<or> prepareReturnImage i (cb1, a1) = Some (cb', a')"
    using c by (cases "ii_state (ap_items a ! i)") (auto simp: image_callback_def Let_def returned_def split: if_splits)
  have a1: "ap_items a1 = (ap_items a)[i := (ap_items a ! i)\<lparr>ii_history := bs_markBit ERROR_SENT_IMAGE (ii_history (ap_items a ! i))\<rparr>]"
    using e by (auto simp: prepareErrorImage_def Let_def edit_item_def)
  have n: "\<not> bs_hasBit ERROR_SENT_FRAME (ii_history (ap_items a ! i))" "\<not> bs_hasBit ERROR_SENT_META (ii_history (ap_items a ! i))"
    using b i by (auto simp: bits_inv_def)
  have i1: "i < length (ap_items a1)" using i a1 by simp
  have h: "ap_items a' = (ap_items a)[i := (ap_items a ! i)\<lparr>ii_history := ii_history (ap_items a' ! i)\<rparr>]"
      "bs_hasBit RETURNED (ii_history (ap_items a' ! i))" "ii_history (ap_items a' ! i) = bs_markBit ERROR_SENT_IMAGE (ii_history (ap_items a ! i)) \<or>
      ii_history (ap_items a' ! i) = bs_markBit RETURNED (bs_markBit ERROR_SENT_IMAGE (ii_history (ap_items a ! i)))"
    using r prepareReturnImage_history [of i cb1 a1 cb' a', OF _ i1] img_step_return [of i cb1 a1 cb' a', OF _ i1]
      img_step_error_image [OF e inv] i a1
    by (auto simp: img_step_def returned_def)
  show ?thesis by (rule bits_inv_upd [OF b h(1) i]) (use n h(2,3) in auto)
qed

lemma items_kept_return: "prepareReturnImage i (cb, a) = Some (cb', a') \<Longrightarrow> is_items (set_at a' f x) = is_items (set_at a f x)"
  by (auto simp: prepareReturnImage_def Let_def set_at_def edit_queue_def edit_frame_def edit_item_def nth_update_if
      split: if_splits option.splits)

lemma items_kept:
  assumes c: "image_callback i (cb, a) = Some (u, cb', a')"
  shows "is_items (set_at a' f x) = is_items (set_at a f x)"
proof -
  have e: "prepareErrorImage i (cb, a) = Some (cb1, a1) \<Longrightarrow> set_at a1 = set_at a" for cb1 a1
    by (auto simp: prepareErrorImage_def Let_def set_at_def edit_item_def fun_eq_iff)
  show ?thesis using c
    by (cases "ii_state (ap_items a ! i)")
      (auto simp: image_callback_def Let_def e dest!: items_kept_return [where f = f and x = x] split: if_splits)
qed

lemma img_images:
  "prepareCallback_images f x ns (cb, a) = Some (u, cb', a') \<Longrightarrow> img_inv a \<Longrightarrow> bits_inv a \<Longrightarrow> f < length (ap_frames a) \<Longrightarrow>
     set ns \<subseteq> {..<length (is_items (set_at a f x))} \<Longrightarrow> img_step (cb, a) (cb', a') \<and> bits_inv a'"
proof (induction ns arbitrary: cb a u cb' a')
  case Nil
  then show ?case using img_step_refl [of "(cb, a)"] by simp
next
  case (Cons n ns)
  have keys: "length (is_items (set_at a2 f x)) = length (is_items (set_at a f x))"
    if "same_shape a a2" for a2 using that Cons.prems(4) by (metis length_map same_shape_def)
  show ?case
  proof (cases "snd (is_items (set_at a f x) ! n)")
    case None
    then show ?thesis using Cons by (simp add: set_at_def)
  next
    case (Some i)
    have n: "n < length (is_items (set_at a f x))" using Cons.prems(5) by simp
    then have "(fst (is_items (set_at a f x) ! n), Some i) \<in> set (is_items (set_at a f x))" using Some by (metis nth_mem prod.collapse)
    then have i: "i < length (ap_items a)" "ii_pFrame (ap_items a ! i) = f" "ii_pItemSet (ap_items a ! i) = x"
      using Cons.prems(2,4) by (auto simp: img_inv_def frames_inv_def set_inv_def)
    from Cons.prems(1) obtain u1 cb1 a1 where c: "image_callback i (cb, a) = Some (u1, cb1, a1)"
      by (auto simp: Some [unfolded set_at_def] Let_def)
    define a2 where "a2 = (if needRelease (sb_haveAllUsersReleased (ap_images a1 ! ii_buffer (ap_items a1 ! i)) = OK) (ii_history (ap_items a1 ! i))
      then clear_image f x n a1 else a1)"
    from Cons.prems(1) c obtain u2 where rest: "prepareCallback_images f x ns (cb1, a2) = Some (u2, cb', a')"
      by (auto simp: Some [unfolded set_at_def] Let_def a2_def)
    note s1 = img_step_image_callback [OF c i(1) Cons.prems(2)] and b1 = bits_image_callback [OF c i(1) Cons.prems(2,3)]
    have sh: "same_shape a a1" and inv1: "img_inv a1" using s1 by (auto simp: img_step_def)
    have i1: "i < length (ap_items a1)" and f1: "f < length (ap_frames a1)" using sh i(1) Cons.prems(4) by (auto simp: same_shape_def)
    have s2: "img_step (cb1, a1) (cb1, a2) \<and> bits_inv a2"
    proof (cases "a2 = a1")
      case False
      then have "a2 = clear_image f x n a1" and nr: "returned a1 i"
        using b1 i1 by (auto simp: a2_def needRelease_def bits_inv_def returned_def split: if_splits)
      moreover have "snd (is_items (set_at a1 f x) ! n) = Some i"
        using items_kept [OF c] by (simp add: Some)
      moreover have "n < length (is_items (set_at a1 f x))" using n keys [OF sh] by simp
      ultimately show ?thesis using img_step_clear [OF inv1 f1, of n x i cb1] b1
        by (simp add: bits_inv_def returned_def clear_image_def edit_frame_def)
    qed (use b1 inv1 img_step_refl [of "(cb1, a1)"] in simp)
    then have s3: "img_step (cb, a) (cb1, a2)" using s1 by (blast intro: img_step_trans)
    then have "img_inv a2" "same_shape a a2" by (auto simp: img_step_def)
    then have "img_step (cb1, a2) (cb', a') \<and> bits_inv a'"
      using Cons.IH [OF rest] s2 Cons.prems(4,5) keys [of a2] by (simp add: same_shape_def)
    then show ?thesis using s3 by (blast intro: img_step_trans)
  qed
qed

lemma img_return_images:
  "return_images vs (cb, a) = Some (cb', a') \<Longrightarrow> img_inv a \<Longrightarrow> bits_inv a \<Longrightarrow>
     \<forall>i. Some i \<in> set vs \<longrightarrow> i < length (ap_items a) \<Longrightarrow> img_step (cb, a) (cb', a') \<and> bits_inv a'"
proof (induction vs arbitrary: cb a)
  case Nil
  then show ?case using img_step_refl [of "(cb, a)"] by simp
next
  case (Cons v vs)
  then obtain i cb1 a1 where v: "v = Some i" and r: "prepareReturnImage i (cb, a) = Some (cb1, a1)"
      and rest: "return_images vs (cb1, a1) = Some (cb', a')" by (cases v) auto
  have i: "i < length (ap_items a)" using Cons.prems(4) v by simp
  note s = img_step_return [OF r i Cons.prems(2)]
  then have "img_inv a1" "length (ap_items a1) = length (ap_items a)" by (auto simp: img_step_def same_shape_def)
  then have "img_step (cb1, a1) (cb', a') \<and> bits_inv a'"
    using Cons.IH [OF rest] Cons.prems(4) bits_return [OF r i Cons.prems(3)] by simp
  with s show ?case by (blast intro: img_step_trans)
qed

lemma img_prepareErrorFrame:
  assumes c: "prepareErrorFrame f (cb, a) = Some (cb', a')" and inv: "img_inv a" "bits_inv a" and f: "f < length (ap_frames a)"
  shows "img_step (cb, a) (cb', a') \<and> bits_inv a'"
proof -
  let ?cb1 = "cb\<lparr>cp_valid := True, cp_vError := cp_vError cb @ [(None, CAMERA3_MSG_ERROR_REQUEST)]\<rparr>"
  from c obtain a2 where r: "return_images (map snd (is_items (set_at a f False))) (?cb1, a) = Some (cb', a2)"
      and a': "a' = edit_frame f (\<lambda>p. p\<lparr>fp_errors := bs_markBit ERROR_SENT_FRAME (fp_errors p)\<rparr>) a2"
    by (auto simp: prepareErrorFrame_def Let_def set_at_def image_set_def)
  have "\<forall>i. Some i \<in> set (map snd (is_items (set_at a f False))) \<longrightarrow> i < length (ap_items a)"
    using inv f by (auto simp: img_inv_def frames_inv_def set_inv_def)
  then have s: "img_step (?cb1, a) (cb', a2)" "bits_inv a2" using img_return_images [OF r inv] by auto
  have q0: "img_step (cb, a) (?cb1, a)" using inv by (intro quiet_img_step) (simp_all add: quiet_def sent_def)
  have q: "same_images a2 a'" unfolding a' by (rule same_images_edit_frame) simp
  have "img_step (cb', a2) (cb', a')" using s q by (intro quiet_img_step) (simp_all add: quiet_def img_step_def)
  then show ?thesis using q0 s q by (blast intro: img_step_trans same_images_bits)
qed

lemma img_prepareCallbackIfPossible_image:
  assumes "prepareCallbackIfPossible_image f x (cb, a) = Some (u, cb', a')" and "img_inv a" "bits_inv a" and "f < length (ap_frames a)"
  shows "img_step (cb, a) (cb', a') \<and> bits_inv a'"
  using assms by (intro img_images [of f x]) (auto simp: prepareCallbackIfPossible_image_def set_at_def)

lemma img_frame_callbacks:
  assumes c: "frame_callbacks f a = Some (cb', a')" and inv: "img_inv a" "bits_inv a" and f: "f < length (ap_frames a)"
  shows "img_inv a' \<and> bits_inv a' \<and> same_shape a a' \<and> sent cb' + ret_mset a = ret_mset a' \<and> (\<not> cp_valid cb' \<longrightarrow> sent cb' = {#})"
proof -
  define cb where "cb = CallbackParcel_new (fp_frameNo (ap_frames a ! f)) (fp_timestampShutter (ap_frames a ! f))"
  have cb0: "sent cb = {#}" "\<not> cp_valid cb" by (simp_all add: cb_def CallbackParcel_new_def sent_def)
  obtain cb1 a1 u where last: "prepareCallbackIfPossible_image f True (cb1, a1) = Some (u, cb', a')"
      and s1: "img_step (cb, a) (cb1, a1) \<and> bits_inv a1"
  proof (cases "checkRequestError (ap_frames a ! f) > 0")
    case True
    then obtain cb1 a1 u where "prepareErrorFrame f (cb, a) = Some (cb1, a1)"
        "prepareCallbackIfPossible_image f True (cb1, a1) = Some (u, cb', a')"
      using c by (auto simp: frame_callbacks_def Let_def cb_def)
    then show ?thesis using img_prepareErrorFrame [OF _ inv f] that by blast
  next
    case False
    then obtain cb0 a0 u0 cb1 a1 u1 u where m: "prepareCallbackIfPossible_meta f (cb, a) = Some (u0, cb0, a0)"
        and o: "prepareCallbackIfPossible_image f False (cb0, a0) = Some (u1, cb1, a1)"
        and l: "prepareCallbackIfPossible_image f True (cb1, a1) = Some (u, cb', a')"
      using c by (auto simp: frame_callbacks_def Let_def cb_def)
    have q: "quiet (cb, a) (cb0, a0)" by (rule quiet_prepareCallbackIfPossible_meta [OF m])
    then have s0: "img_step (cb, a) (cb0, a0)" and b0: "bits_inv a0"
      using inv same_images_bits by (auto simp: quiet_img_step quiet_def)
    have "img_step (cb0, a0) (cb1, a1) \<and> bits_inv a1"
      using img_prepareCallbackIfPossible_image [OF o] s0 b0 f by (simp add: img_step_def same_shape_def)
    then show ?thesis using s0 l that by (blast intro: img_step_trans)
  qed
  have "img_step (cb1, a1) (cb', a') \<and> bits_inv a'"
    using img_prepareCallbackIfPossible_image [OF last] s1 f by (simp add: img_step_def same_shape_def)
  then have "img_step (cb, a) (cb', a')" "bits_inv a'" using s1 by (blast intro: img_step_trans)+
  then show ?thesis using cb0 by (auto simp: img_step_def)
qed

lemma removable_returned:
  assumes "isFrameRemovable f a = Some True" and inv: "img_inv a" and f: "f < length (ap_frames a)"
    and i: "i < length (ap_items a)" "ii_pFrame (ap_items a ! i) = f"
  shows "returned a i"
proof (rule ccontr)
  assume n: "\<not> returned a i"
  define x where "x = ii_pItemSet (ap_items a ! i)"
  have m: "Some i \<in> snd ` set (is_items (set_at a f x))" using inv i n by (auto simp: img_inv_def items_inv_def x_def)
  have "length (is_items (set_at a f x)) = is_numReturnedStreams (set_at a f x)"
    using assms(1) by (cases x) (auto simp: isFrameRemovable_def Let_def set_at_def image_set_def split: if_splits)
  then have "length (filter (\<lambda>(k, v). entry_returned a v) (is_items (set_at a f x))) = length (is_items (set_at a f x))"
    using inv f by (auto simp: img_inv_def frames_inv_def set_inv_def)
  then have "\<forall>(k, v) \<in> set (is_items (set_at a f x)). entry_returned a v"
    by (metis (no_types, lifting) filter_True length_filter_less less_irrefl case_prodI2 surj_pair case_prod_beta')
  note all = this
  from m obtain k where "(k, Some i) \<in> set (is_items (set_at a f x))" by auto
  with all have "entry_returned a (Some i)" by blast
  with n show False by (simp add: entry_returned_def)
qed

lemma img_remove:
  assumes "\<forall>i < length (ap_items a). ii_pFrame (ap_items a ! i) = f \<longrightarrow> returned a i" and inv: "img_inv a"
  shows "img_inv (a\<lparr>ap_mFrameQueue := remove1 f (ap_mFrameQueue a)\<rparr>)"
proof -
  let ?a = "a\<lparr>ap_mFrameQueue := remove1 f (ap_mFrameQueue a)\<rparr>"
  have e: "returned ?a = returned a" "item_stream ?a = item_stream a" "queue_of ?a = queue_of a" "set_at ?a = set_at a"
    by (simp_all add: returned_def item_stream_def image_streamId_def queue_of_def set_at_def fun_eq_iff)
  have er: "entry_returned ?a = entry_returned a" by (simp add: entry_returned_def e fun_eq_iff split: option.splits)
  have si: "set_inv ?a g x = set_inv a g x" for g x by (simp add: set_inv_def e er)
  have "distinct (ap_mFrameQueue a)" using inv by (simp add: img_inv_def frames_inv_def)
  then have "set (remove1 f (ap_mFrameQueue a)) = set (ap_mFrameQueue a) - {f}" by simp
  then show ?thesis using inv assms(1)
    by (auto simp: img_inv_def queues_inv_def items_inv_def frames_inv_def e si)
qed

definition sent_all :: "CallbackParcel list \<Rightarrow> nat multiset" where
  "sent_all cbs = sum_list (map sent cbs)"

lemma sent_all_simps [simp]: "sent_all [] = {#}" "sent_all (cbs @ cbs') = sent_all cbs + sent_all cbs'" "sent_all (cb # cbs) = sent cb + sent_all cbs"
  by (simp_all add: sent_all_def)

lemma img_callbacks_loop:
  "callbacks_loop fs (cbs, a) = Some (cbs', a') \<Longrightarrow> img_inv a \<Longrightarrow> bits_inv a \<Longrightarrow> set fs \<subseteq> {..<length (ap_frames a)} \<Longrightarrow>
     img_inv a' \<and> bits_inv a' \<and> sent_all cbs' + ret_mset a = sent_all cbs + ret_mset a'"
proof (induction fs arbitrary: cbs a)
  case (Cons f fs)
  show ?case
  proof (cases "0 < sint (fp_frameNo (ap_frames a ! f) - ap_latestResultFrameNo a)")
    case True
    then show ?thesis using Cons.prems by simp
  next
    case False
    then obtain cb a1 r where c: "frame_callbacks f a = Some (cb, a1)" and rm: "isFrameRemovable f a1 = Some r"
        and rest: "callbacks_loop fs (if cp_valid cb then cbs @ [cb] else cbs,
          if r then a1\<lparr>ap_mFrameQueue := remove1 f (ap_mFrameQueue a1)\<rparr> else a1) = Some (cbs', a')"
      using Cons.prems(1) by (auto simp: Let_def)
    have f: "f < length (ap_frames a)" using Cons.prems(4) by simp
    note s = img_frame_callbacks [OF c Cons.prems(2,3) f]
    define a2 where "a2 = (if r then a1\<lparr>ap_mFrameQueue := remove1 f (ap_mFrameQueue a1)\<rparr> else a1)"
    have f1: "length (ap_frames a1) = length (ap_frames a)" using s by (simp add: same_shape_def)
    have inv2: "img_inv a2"
      using img_remove [of a1 f] removable_returned [of f a1] rm s f f1 by (auto simp: a2_def)
    have ret2: "returned a2 = returned a1" "ap_items a2 = ap_items a1" "ap_frames a2 = ap_frames a1"
      by (auto simp: a2_def returned_def fun_eq_iff)
    have b2: "bits_inv a2" using s by (simp add: bits_inv_def ret2)
    have rm2: "ret_mset a2 = ret_mset a1" by (simp add: ret_mset_def ret2)
    have sub: "set fs \<subseteq> {..<length (ap_frames a2)}" using Cons.prems(4) f1 ret2 by simp
    note h = Cons.IH [OF rest [folded a2_def] inv2 b2 sub]
    have "sent_all (if cp_valid cb then cbs @ [cb] else cbs) = sent_all cbs + sent cb" using s by simp
    then have "sent_all cbs' + ret_mset a1 = sent_all cbs + sent cb + ret_mset a'" using h rm2 by simp
    then have "sent_all cbs' + ret_mset a + sent cb = sent_all cbs + ret_mset a' + sent cb" using s by (metis (no_types, lifting) add.assoc add.commute)
    then show ?thesis using h by simp
  qed
qed simp

end
