(* ===== verification/AppFrameProps.thy ===== *)
theory AppFrameProps
  imports AppFrameInv
begin

text \<open>
  The frame handler over its whole life: every image buffer that a request brings is returned
  once, in every interleaving of requests, results, callbacks and changes of the buffers.
\<close>

section \<open>Registering a frame keeps the invariant\<close>

lemma mset_kv_add: "k \<notin> set (kv_keys m) \<Longrightarrow> mset (kv_add k v m) = add_mset (k, v) (mset m)"
  by (induction k v m rule: kv_add.induct) auto

text \<open>One image item is added.\<close>

definition add_item :: "nat \<Rightarrow> nat \<Rightarrow> bool \<Rightarrow> 'k App \<Rightarrow> 'k App" where
  "add_item b f x a = edit_frame f (edit_image_set x (set_add_image (image_streamId a b) (Some (length (ap_items a)))))
     ((edit_queue (image_streamId a b) (\<lambda>q. q @ [length (ap_items a)]) a)\<lparr>ap_items :=
        ap_items a @ [\<lparr>ii_pFrame = f, ii_pItemSet = x, ii_state = ST_IN_FLIGHT, ii_history = 0, ii_buffer = b\<rparr>]\<rparr>)"

lemma registerStreamBuffers_image_Cons:
  "registerStreamBuffers_image (b # bs) f x a =
     (if queue_of a (image_streamId a b) = None then (NAME_NOT_FOUND, a)
      else registerStreamBuffers_image bs f x (add_item b f x a))"
  by (simp add: add_item_def queue_of_def Let_def edit_queue_def)

lemma add_item_items:
  "length (ap_items (add_item b f x a)) = Suc (length (ap_items a))"
  "i < length (ap_items a) \<Longrightarrow> ap_items (add_item b f x a) ! i = ap_items a ! i"
  "ap_items (add_item b f x a) ! length (ap_items a) =
     \<lparr>ii_pFrame = f, ii_pItemSet = x, ii_state = ST_IN_FLIGHT, ii_history = 0, ii_buffer = b\<rparr>"
  by (auto simp: add_item_def edit_queue_def edit_frame_def nth_append)

lemma add_item_other:
  "ap_mFrameQueue (add_item b f x a) = ap_mFrameQueue a" "length (ap_frames (add_item b f x a)) = length (ap_frames a)"
  "image_streamId (add_item b f x a) = image_streamId a"
  by (simp_all add: add_item_def edit_queue_def edit_frame_def image_streamId_def fun_eq_iff)

lemma add_item_queue:
  "queue_of (add_item b f x a) k =
     (if k = image_streamId a b then map_option (\<lambda>q. q @ [length (ap_items a)]) (queue_of a k) else queue_of a k)"
  by (simp add: queue_of_def add_item_def edit_queue_def edit_frame_def option.map_comp comp_def)

lemma add_item_set:
  "f < length (ap_frames a) \<Longrightarrow> is_items (set_at (add_item b f x a) g y) =
     (if g = f \<and> y = x then kv_add (image_streamId a b) (Some (length (ap_items a))) (is_items (set_at a g y)) else is_items (set_at a g y))"
  "is_numReturnedStreams (set_at (add_item b f x a) g y) = is_numReturnedStreams (set_at a g y)"
  by (auto simp: set_at_def add_item_def edit_queue_def edit_frame_def set_add_image_def nth_update_if)

lemma add_item_returned:
  "i < length (ap_items a) \<Longrightarrow> returned (add_item b f x a) i = returned a i"
  "\<not> returned (add_item b f x a) (length (ap_items a))"
  "i < length (ap_items a) \<Longrightarrow> item_stream (add_item b f x a) i = item_stream a i"
  "item_stream (add_item b f x a) (length (ap_items a)) = image_streamId a b"
  by (simp_all add: returned_def item_stream_def add_item_items add_item_other)

lemma add_item_set_inv:
  assumes f: "f < length (ap_frames a)" and s: "set_inv a g y"
    and new: "g = f \<and> y = x \<Longrightarrow> image_streamId a b \<notin> set (kv_keys (is_items (set_at a f x)))"
  shows "set_inv (add_item b f x a) g y"
proof -
  let ?a = "add_item b f x a" and ?n = "length (ap_items a)" and ?k = "image_streamId a b"
  let ?xs = "is_items (set_at a g y)"
  have lt: "(k, Some i) \<in> set ?xs \<Longrightarrow> i < ?n" for k i using s by (auto simp: set_inv_def)
  have er: "filter (\<lambda>(k, v). entry_returned ?a v) ?xs = filter (\<lambda>(k, v). entry_returned a v) ?xs"
    using lt by (intro filter_cong) (auto simp: entry_returned_def add_item_returned split: option.splits)
  show ?thesis
  proof (cases "g = f \<and> y = x")
    case True
    have m: "mset (is_items (set_at ?a g y)) = add_mset (?k, Some ?n) (mset ?xs)"
      using mset_kv_add new True f by (simp add: add_item_set)
    have d: "distinct (map fst (is_items (set_at ?a g y)))"
    proof -
      have "mset (map fst (is_items (set_at ?a g y))) = mset (?k # map fst ?xs)" unfolding mset_map m by simp
      moreover have "distinct (?k # map fst ?xs)" using s new True by (simp add: set_inv_def kv_keys_def)
      ultimately show ?thesis using mset_eq_imp_distinct_iff by blast
    qed
    have "length (filter (\<lambda>(k, v). entry_returned ?a v) (is_items (set_at ?a g y))) =
        size (filter_mset (\<lambda>(k, v). entry_returned ?a v) (add_mset (?k, Some ?n) (mset ?xs)))"
      unfolding m [symmetric] by (metis mset_filter size_mset)
    also have "\<dots> = length (filter (\<lambda>(k, v). entry_returned a v) ?xs)"
      using er add_item_returned(2) [of b f x a] by (simp add: entry_returned_def flip: mset_filter)
    finally have c: "length (filter (\<lambda>(k, v). entry_returned ?a v) (is_items (set_at ?a g y))) =
        length (filter (\<lambda>(k, v). entry_returned a v) ?xs)" .
    have "set (is_items (set_at ?a g y)) = insert (?k, Some ?n) (set ?xs)" using m by (metis set_mset_add_mset_insert set_mset_mset)
    then show ?thesis unfolding set_inv_def c add_item_set(2) using d s True
      by (auto simp: set_inv_def add_item_items add_item_returned less_Suc_eq)
  next
    case False
    then show ?thesis using s er f by (auto simp: set_inv_def add_item_set add_item_items add_item_returned less_Suc_eq)
  qed
qed

lemma add_item_inv:
  assumes f: "f < length (ap_frames a)" "f \<in> set (ap_mFrameQueue a)" and inv: "img_inv a" "bits_inv a"
    and q: "queue_of a (image_streamId a b) \<noteq> None"
    and new: "image_streamId a b \<notin> set (kv_keys (is_items (set_at a f x)))"
  shows "img_inv (add_item b f x a) \<and> bits_inv (add_item b f x a)"
proof -
  let ?a = "add_item b f x a" and ?n = "length (ap_items a)" and ?k = "image_streamId a b"
  have "queues_inv ?a"
    unfolding queues_inv_def
  proof (intro allI impI)
    fix k q' assume "queue_of ?a k = Some q'"
    then obtain q where q: "queue_of a k = Some q" "q' = (if k = ?k then q @ [?n] else q)"
      by (auto simp: add_item_queue split: if_splits)
    then have i: "distinct q" "set q = {i. i < ?n \<and> \<not> returned a i \<and> item_stream a i = k}"
      using inv(1) by (auto simp: img_inv_def queues_inv_def)
    have "set q' = {i. i < Suc ?n \<and> \<not> returned ?a i \<and> item_stream ?a i = k}"
    proof (rule set_eqI)
      fix i consider "i < ?n" | "i = ?n" | "?n < i" by linarith
      then show "i \<in> set q' \<longleftrightarrow> i \<in> {i. i < Suc ?n \<and> \<not> returned ?a i \<and> item_stream ?a i = k}"
        by cases (simp_all add: q(2) i(2) add_item_returned)
    qed
    then show "distinct q' \<and> set q' = {i. i < length (ap_items ?a) \<and> \<not> returned ?a i \<and> item_stream ?a i = k}"
      using i q(2) by (auto simp: add_item_items)
  qed
  moreover have "items_inv ?a"
    unfolding items_inv_def
  proof (intro allI impI)
    fix i assume "i < length (ap_items ?a)"
    then consider "i < ?n" | "i = ?n" by (auto simp: add_item_items less_Suc_eq)
    then show "queue_of ?a (item_stream ?a i) \<noteq> None \<and> ii_pFrame (ap_items ?a ! i) < length (ap_frames ?a) \<and>
       (\<not> returned ?a i \<longrightarrow> Some i \<in> snd ` set (is_items (set_at ?a (ii_pFrame (ap_items ?a ! i)) (ii_pItemSet (ap_items ?a ! i)))))"
    proof cases
      case 1
      have km: "Some i \<in> snd ` set m \<Longrightarrow> ?k \<notin> set (kv_keys m) \<Longrightarrow> Some i \<in> snd ` set (kv_add ?k (Some ?n) m)" for m
        using mset_kv_add [of ?k m "Some ?n"] by (metis image_insert insertCI set_mset_add_mset_insert set_mset_mset)
      have keep: "Some i \<in> snd ` set (is_items (set_at a g y)) \<Longrightarrow> Some i \<in> snd ` set (is_items (set_at ?a g y))" for g y
      proof (cases "g = f \<and> y = x")
        case True
        assume "Some i \<in> snd ` set (is_items (set_at a g y))"
        then have "Some i \<in> snd ` set (kv_add ?k (Some ?n) (is_items (set_at a g y)))" using km True new by blast
        then show ?thesis using True f(1) by (simp add: add_item_set)
      next
        case False
        assume "Some i \<in> snd ` set (is_items (set_at a g y))"
        moreover have "is_items (set_at ?a g y) = is_items (set_at a g y)" unfolding add_item_set(1) [OF f(1)] using False by (rule if_not_P)
        ultimately show ?thesis by simp
      qed
      have old: "queue_of a (item_stream a i) \<noteq> None" "ii_pFrame (ap_items a ! i) < length (ap_frames a)"
          "\<not> returned a i \<Longrightarrow> Some i \<in> snd ` set (is_items (set_at a (ii_pFrame (ap_items a ! i)) (ii_pItemSet (ap_items a ! i))))"
        using inv(1) 1 by (simp_all add: img_inv_def items_inv_def)
      then show ?thesis using 1 keep q by (auto simp: add_item_queue add_item_items add_item_other add_item_returned)
    next
      case 2
      have "Some ?n \<in> snd ` set (kv_add ?k (Some ?n) (is_items (set_at a f x)))"
        using mset_kv_add [OF new] by (metis image_eqI insertI1 set_mset_add_mset_insert set_mset_mset snd_conv)
      then show ?thesis using 2 f q
        by (simp add: add_item_queue add_item_items add_item_other add_item_set add_item_returned)
    qed
  qed
  moreover have "frames_inv ?a"
    using inv(1) f new add_item_set_inv [OF f(1), of _ _ x b]
    by (auto simp: img_inv_def frames_inv_def add_item_items add_item_other add_item_returned less_Suc_eq)
  moreover have "bits_inv ?a"
    using inv(2) by (auto simp: bits_inv_def add_item_items add_item_returned less_Suc_eq)
  ultimately show ?thesis by (simp add: img_inv_def)
qed

lemma add_item_ret: "ret_mset (add_item b f x a) = ret_mset a"
proof -
  have "{i. i < Suc (length (ap_items a)) \<and> returned (add_item b f x a) i} = {i. i < length (ap_items a) \<and> returned a i}"
    by (auto simp: less_Suc_eq add_item_returned)
  note e = this
  show ?thesis unfolding ret_mset_def add_item_items(1) e by (rule image_mset_cong) (simp add: add_item_items)
qed

lemma register_images:
  "\<forall>b \<in> set bs. image_streamId a b \<notin> set (kv_keys (is_items (set_at a f x))) \<Longrightarrow> distinct (map (image_streamId a) bs) \<Longrightarrow>
   f < length (ap_frames a) \<Longrightarrow> f \<in> set (ap_mFrameQueue a) \<Longrightarrow> img_inv a \<Longrightarrow> bits_inv a \<Longrightarrow>
   registerStreamBuffers_image bs f x a = (e, a') \<Longrightarrow>
   img_inv a' \<and> bits_inv a' \<and> ret_mset a' = ret_mset a \<and> length (ap_frames a') = length (ap_frames a) \<and>
   ap_mFrameQueue a' = ap_mFrameQueue a \<and> image_streamId a' = image_streamId a \<and>
   (\<forall>y. y \<noteq> x \<longrightarrow> is_items (set_at a' f y) = is_items (set_at a f y))"
proof (induction bs arbitrary: a)
  case (Cons b bs)
  show ?case
  proof (cases "queue_of a (image_streamId a b) = None")
    case True
    then show ?thesis using Cons.prems by (auto simp: registerStreamBuffers_image_Cons simp del: registerStreamBuffers_image.simps)
  next
    case False
    let ?a = "add_item b f x a"
    have i: "img_inv ?a \<and> bits_inv ?a" using add_item_inv [OF Cons.prems(3-6) False] Cons.prems(1) by simp
    have k: "\<forall>b' \<in> set bs. image_streamId ?a b' \<notin> set (kv_keys (is_items (set_at ?a f x)))"
    proof
      fix b' assume b': "b' \<in> set bs"
      then have "image_streamId a b' \<noteq> image_streamId a b" using Cons.prems(2) by (metis distinct.simps(2) imageI list.simps(9) list.set_map)
      then show "image_streamId ?a b' \<notin> set (kv_keys (is_items (set_at ?a f x)))"
        using b' Cons.prems(1,3) by (simp add: add_item_other add_item_set)
    qed
    have "registerStreamBuffers_image bs f x ?a = (e, a')"
      using Cons.prems(7) False by (simp add: registerStreamBuffers_image_Cons del: registerStreamBuffers_image.simps)
    then show ?thesis using Cons.IH [OF k] Cons.prems(2-4) i by (auto simp: add_item_other add_item_ret add_item_set)
  qed
qed simp

text \<open>
  A request as \<open>createRequest\<close> makes it: the buffers of a set are those of different streams, under
  the ids of these streams.
\<close>

definition request_ok :: "Request \<Rightarrow> 'k App \<Rightarrow> bool" where
  "request_ok r a \<longleftrightarrow> distinct (map (image_streamId a) (map snd (rq_vOutputImageBuffers r))) \<and>
     distinct (map (image_streamId a) (map snd (rq_vInputImageBuffers r)))"

definition add_frame :: "MUINT32 \<Rightarrow> 'k App \<Rightarrow> 'k App" where
  "add_frame n a = a\<lparr>ap_frames := ap_frames a @ [FrameParcel_new\<lparr>fp_frameNo := n\<rparr>],
     ap_mFrameQueue := ap_mFrameQueue a @ [length (ap_frames a)]\<rparr>"

lemma add_frame_simps:
  "ap_items (add_frame n a) = ap_items a" "length (ap_frames (add_frame n a)) = Suc (length (ap_frames a))"
  "returned (add_frame n a) = returned a" "item_stream (add_frame n a) = item_stream a"
  "queue_of (add_frame n a) = queue_of a" "image_streamId (add_frame n a) = image_streamId a"
  "f < length (ap_frames a) \<Longrightarrow> set_at (add_frame n a) f x = set_at a f x"
  "is_items (set_at (add_frame n a) (length (ap_frames a)) x) = []"
  "is_numReturnedStreams (set_at (add_frame n a) (length (ap_frames a)) x) = 0"
  "ap_mFrameQueue (add_frame n a) = ap_mFrameQueue a @ [length (ap_frames a)]"
  by (simp_all add: add_frame_def returned_def item_stream_def queue_of_def image_streamId_def set_at_def nth_append
      FrameParcel_new_def image_set_def ImageItemSet_new_def fun_eq_iff)

lemma add_frame_inv:
  assumes "img_inv a" "bits_inv a"
  shows "img_inv (add_frame n a) \<and> bits_inv (add_frame n a) \<and> ret_mset (add_frame n a) = ret_mset a"
proof -
  have er: "entry_returned (add_frame n a) = entry_returned a"
    by (simp add: entry_returned_def add_frame_simps fun_eq_iff split: option.splits)
  have "set_inv (add_frame n a) f x" if "f < Suc (length (ap_frames a))" for f x
    using that assms(1) by (cases "f = length (ap_frames a)")
      (auto simp: set_inv_def add_frame_simps er img_inv_def frames_inv_def less_Suc_eq)
  then show ?thesis using assms
    by (auto simp: img_inv_def queues_inv_def items_inv_def frames_inv_def bits_inv_def add_frame_simps ret_mset_def less_Suc_eq)
qed

lemma same_images_register_meta: "same_images a (snd (registerStreamBuffers_meta bs f a))"
proof (induction bs arbitrary: a)
  case (Cons b bs)
  show ?case by (simp, rule same_images_trans [OF same_images_edit_frame Cons]) simp
qed simp

lemma register_inv:
  assumes inv: "img_inv a" "bits_inv a" and r: "request_ok r a"
  shows "img_inv (snd (registerFrame r a)) \<and> bits_inv (snd (registerFrame r a)) \<and> ret_mset (snd (registerFrame r a)) = ret_mset a"
proof -
  let ?f = "length (ap_frames a)" and ?a1 = "add_frame (rq_frameNo r) a"
  obtain e2 a2 where 2: "registerStreamBuffers_image (map snd (rq_vOutputImageBuffers r)) ?f False ?a1 = (e2, a2)" by fastforce
  obtain e3 a3 where 3: "registerStreamBuffers_image (map snd (rq_vInputImageBuffers r)) ?f True a2 = (e3, a3)" by fastforce
  have reg: "snd (registerFrame r a) = snd (registerStreamBuffers_meta (map snd (rq_vInputMetaBuffers r)) ?f a3)"
    using 2 3 by (simp add: registerFrame_def Let_def add_frame_def case_prod_beta)
  have i1: "img_inv ?a1" "bits_inv ?a1" "ret_mset ?a1 = ret_mset a" using add_frame_inv [OF inv] by auto
  have s2: "img_inv a2 \<and> bits_inv a2 \<and> ret_mset a2 = ret_mset ?a1 \<and> length (ap_frames a2) = length (ap_frames ?a1) \<and>
     ap_mFrameQueue a2 = ap_mFrameQueue ?a1 \<and> image_streamId a2 = image_streamId ?a1 \<and>
     (\<forall>y. y \<noteq> False \<longrightarrow> is_items (set_at a2 ?f y) = is_items (set_at ?a1 ?f y))"
    using r by (intro register_images [OF _ _ _ _ i1(1,2) 2]) (auto simp: add_frame_simps request_ok_def)
  have s3: "img_inv a3 \<and> bits_inv a3 \<and> ret_mset a3 = ret_mset a2 \<and> length (ap_frames a3) = length (ap_frames a2) \<and>
     ap_mFrameQueue a3 = ap_mFrameQueue a2 \<and> image_streamId a3 = image_streamId a2 \<and>
     (\<forall>y. y \<noteq> True \<longrightarrow> is_items (set_at a3 ?f y) = is_items (set_at a2 ?f y))"
    using r s2 by (intro register_images [OF _ _ _ _ _ _ 3]) (auto simp: add_frame_simps request_ok_def)
  have "same_images a3 (snd (registerFrame r a))" unfolding reg by (rule same_images_register_meta)
  then show ?thesis using s3 s2 i1(3) same_images_inv same_images_bits ret_mset_same by metis
qed

section \<open>Every image is returned once\<close>

text \<open>
  What threads outside do between the calls: buffers, metadata, streams and the kernel change
  in any way, except that the buffers in use keep their streams.
\<close>

definition outside_step :: "'k App \<Rightarrow> 'k App \<Rightarrow> bool" where
  "outside_step a a' \<longleftrightarrow>
     a' = a\<lparr>ap_images := ap_images a', ap_metas := ap_metas a', ap_streams := ap_streams a', ap_sync := ap_sync a'\<rparr> \<and>
     (\<forall>i < length (ap_items a). item_stream a' i = item_stream a i)"

lemma outside_same: "outside_step a a' \<Longrightarrow> same_images a a'"
proof -
  assume o: "outside_step a a'"
  then have e: "a' = a\<lparr>ap_images := ap_images a', ap_metas := ap_metas a', ap_streams := ap_streams a', ap_sync := ap_sync a'\<rparr>"
    by (simp add: outside_step_def)
  have "ap_frames a' = ap_frames a" "ap_items a' = ap_items a" "ap_mFrameQueue a' = ap_mFrameQueue a"
      "ap_mImageConfigMap a' = ap_mImageConfigMap a"
    using arg_cong [OF e, of ap_frames] arg_cong [OF e, of ap_items] arg_cong [OF e, of ap_mFrameQueue]
      arg_cong [OF e, of ap_mImageConfigMap] by simp_all
  then show ?thesis using o by (simp add: outside_step_def same_images_def queue_of_def set_at_def)
qed

text \<open>A history: the callbacks so far and the state, in any order of calls. \<open>K\<close> is the kernel.\<close>

inductive app_reach :: "'k sync_kernel \<Rightarrow> CallbackParcel list \<Rightarrow> 'k App \<Rightarrow> bool" for K where
  new: "FrameHandler_new static isExternal streams k = Some a \<Longrightarrow> app_reach K [] a"
| config_image: "app_reach K h a \<Longrightarrow> queue_of a (ci_getStreamId i) = None \<Longrightarrow> app_reach K h (addConfigStream_image i a)"
| config_meta: "app_reach K h a \<Longrightarrow> app_reach K h (addConfigStream_meta i a)"
| register: "app_reach K h a \<Longrightarrow> request_ok r a \<Longrightarrow> app_reach K h (snd (registerFrame r a))"
| results: "app_reach K h a \<Longrightarrow> update_results K rv a = Some a' \<Longrightarrow> app_reach K h a'"
| callbacks: "app_reach K h a \<Longrightarrow> update_callbacks ([], a) = Some (cbs, a') \<Longrightarrow> app_reach K (h @ cbs) a'"
| outside: "app_reach K h a \<Longrightarrow> outside_step a a' \<Longrightarrow> app_reach K h a'"

lemma config_image_inv:
  assumes inv: "img_inv a" "bits_inv a" and new: "queue_of a (ci_getStreamId i) = None"
  shows "img_inv (addConfigStream_image i a) \<and> bits_inv (addConfigStream_image i a) \<and> ret_mset (addConfigStream_image i a) = ret_mset a"
proof -
  let ?a = "addConfigStream_image i a"
  have e: "ap_items ?a = ap_items a" "returned ?a = returned a" "item_stream ?a = item_stream a" "set_at ?a = set_at a"
      "ap_frames ?a = ap_frames a" "ap_mFrameQueue ?a = ap_mFrameQueue a"
      "queue_of ?a k = (if k = ci_getStreamId i then Some [] else queue_of a k)" for k
    by (simp_all add: addConfigStream_image_def returned_def item_stream_def image_streamId_def set_at_def queue_of_def fun_eq_iff)
  have er: "entry_returned ?a = entry_returned a" by (simp add: entry_returned_def e fun_eq_iff split: option.splits)
  have si: "set_inv ?a f x = set_inv a f x" for f x by (simp add: set_inv_def e er)
  have no: "j < length (ap_items a) \<Longrightarrow> item_stream a j \<noteq> ci_getStreamId i" for j
    using inv(1) new by (auto simp: img_inv_def items_inv_def)
  show ?thesis using inv no
    by (auto simp: img_inv_def queues_inv_def items_inv_def frames_inv_def bits_inv_def ret_mset_def e si)
qed

lemma app_reach_inv: "app_reach K h a \<Longrightarrow> img_inv a \<and> bits_inv a \<and> sent_all h = ret_mset a"
proof (induction rule: app_reach.induct)
  case (new static isExternal streams k a)
  then show ?case
    by (auto simp: FrameHandler_new_def img_inv_def queues_inv_def items_inv_def frames_inv_def bits_inv_def ret_mset_def queue_of_def)
next
  case (config_meta h a i)
  have "same_images a (addConfigStream_meta i a)"
    by (simp add: same_images_def addConfigStream_meta_def queue_of_def set_at_def item_stream_def image_streamId_def)
  then show ?case using config_meta same_images_inv same_images_bits ret_mset_same by metis
next
  case (results h a rv a')
  then show ?case using same_images_update_results same_images_inv same_images_bits ret_mset_same by metis
next
  case (callbacks h a cbs a')
  have "set (ap_mFrameQueue a) \<subseteq> {..<length (ap_frames a)}" using callbacks by (simp add: img_inv_def frames_inv_def)
  then show ?case using callbacks img_callbacks_loop [of "ap_mFrameQueue a" "[]" a cbs a']
    by (simp add: update_callbacks_def add.commute)
next
  case (outside h a a')
  then show ?case using outside_same same_images_inv same_images_bits ret_mset_same by metis
next
  case (config_image h a i)
  then show ?case using config_image_inv [of a i] by simp
next
  case (register h a r)
  then show ?case using register_inv [of a r] by simp
qed

section \<open>Runs\<close>

text \<open>Calls as a list: new buffers, marks of users, requests, results and callbacks.\<close>

datatype app_call =
    NewImage AppImageStreamBuffer
  | NewMeta AppMetaStreamBuffer
  | MarkImage nat UserId_T MUINT32
  | MarkMeta nat UserId_T MUINT32
  | RegisterFrame Request
  | Results "(MUINT32, ResultItem) kvec"
  | Callbacks

fun do_call :: "'k sync_kernel \<Rightarrow> app_call \<Rightarrow> CallbackParcel list \<times> 'k App \<Rightarrow> (CallbackParcel list \<times> 'k App) option" where
  "do_call K (NewImage b) (h, a) = Some (h, a\<lparr>ap_images := ap_images a @ [b]\<rparr>)"
| "do_call K (NewMeta b) (h, a) = Some (h, a\<lparr>ap_metas := ap_metas a @ [b]\<rparr>)"
| "do_call K (MarkImage b u msk) (h, a) =
     map_option (\<lambda>(r, x). (h, edit_image b (\<lambda>_. x) a)) (sb_markUserStatus u msk (ap_images a ! b))"
| "do_call K (MarkMeta b u msk) (h, a) =
     map_option (\<lambda>(r, x). (h, edit_meta b (\<lambda>_. x) a)) (sb_markUserStatus u msk (ap_metas a ! b))"
| "do_call K (RegisterFrame r) (h, a) = Some (h, snd (registerFrame r a))"
| "do_call K (Results rv) (h, a) = map_option (Pair h) (update_results K rv a)"
| "do_call K Callbacks (h, a) = map_option (\<lambda>(cbs, a'). (h @ cbs, a')) (update_callbacks ([], a))"

fun do_calls :: "'k sync_kernel \<Rightarrow> app_call list \<Rightarrow> CallbackParcel list \<times> 'k App \<Rightarrow> (CallbackParcel list \<times> 'k App) option" where
  "do_calls K [] st = Some st"
| "do_calls K (c # cs) st = Option.bind (do_call K c st) (do_calls K cs)"

text \<open>A device with two partial results, one image stream of id 5, buffers with one producer, user 1.\<close>

definition ex_producer_um :: UsersManager where
  "ex_producer_um = (let um = on_graph 0 (\<lambda>s. snd (addUser (ex_user 1 PRODUCER (- 1) 0) s)) (snd (createGraph (UsersManager_new 5 ''um'')))
     in snd (finishUserSetup (snd (the (enqueUserGraph 0 um)))))"

definition ex_static :: IMetadata where
  "ex_static = IMetadata [(MTK_REQUEST_PARTIAL_RESULT_COUNT,
     push_back (Item_MINT32 2) (IEntry_new MTK_REQUEST_PARTIAL_RESULT_COUNT))]"

definition ex_info :: Cam3ImageStreamInfo where
  "ex_info = \<lparr>ci_mpCamera3Stream = 0, ci_mStreamName = ''out'', ci_mStreamId = 5, ci_mStreamType = 0,
     ci_mUsageForConsumer = 0, ci_mImgFormat = 0, ci_mImgFormatToAlloc = 0, ci_mImgSize = (4, 4), ci_mvbufPlanes = [],
     ci_mTransform = 0, ci_mDataSpace = 0\<rparr>"

definition ex_app :: "mk App" where
  "ex_app = addConfigStream_image ex_info (the (FrameHandler_new ex_static False [] []))"

definition ex_image :: "StreamId_T \<Rightarrow> AppImageStreamBuffer" where
  "ex_image k = AppImageStreamBuffer_new \<lparr>si_streamId = k, si_streamName = ''img''\<rparr> 0
     \<lparr>gh_mpBufferHandle = 0, gh_mAcquireFence = - 1, gh_mReleaseFence = - 1\<rparr> (Some ex_producer_um)"

definition ex_metabuf :: "StreamId_T \<Rightarrow> IMetadata \<Rightarrow> AppMetaStreamBuffer" where
  "ex_metabuf k m = AppMetaStreamBuffer_copy \<lparr>si_streamId = k, si_streamName = ''meta''\<rparr> eSTREAMTYPE_META_OUT 0 m (Some ex_producer_um)"

definition ex_timestamp :: IMetadata where
  "ex_timestamp = IMetadata [(MTK_SENSOR_TIMESTAMP, push_back (Item_MINT64 77) (IEntry_new MTK_SENSOR_TIMESTAMP))]"

definition ex_request :: "MUINT32 \<Rightarrow> (StreamId_T \<times> nat) list \<Rightarrow> Request" where
  "ex_request n outs = \<lparr>rq_frameNo = n, rq_vInputImageBuffers = [], rq_vOutputImageBuffers = outs, rq_vInputMetaBuffers = []\<rparr>"

definition ex_result :: "MUINT32 \<Rightarrow> nat list \<Rightarrow> bool \<Rightarrow> (MUINT32, ResultItem) kvec" where
  "ex_result n bs lst = [(n, \<lparr>ri_lastPartial = lst, ri_frameNo = n, ri_buffer = bs\<rparr>)]"

end
