(* ===== verification/AppManagerProps.thy ===== *)
theory AppManagerProps
  imports AppFrameProps
begin

text \<open>
  Properties of the stream manager: which configurations it accepts, what requests it makes of
  the client's, and how results are collected between two rounds of its thread.
\<close>

section \<open>Stream configurations\<close>

text \<open>
  The reference: the rows of the table of supported sizes, the conditions on one stream, and
  the conditions on a configuration, which are stated by counting.
\<close>

definition table_row :: "IMetadata \<Rightarrow> nat \<Rightarrow> MINT32 \<times> MINT32 \<times> MINT32" where
  "table_row static j =
     (let e = entryFor MTK_SCALER_AVAILABLE_STREAM_CONFIGURATIONS static in
      (the (item_MINT32 (4 * j) e), the (item_MINT32 (4 * j + 1) e), the (item_MINT32 (4 * j + 2) e)))"

definition table_rows :: "IMetadata \<Rightarrow> nat" where
  "table_rows static = rounds4 (unat (ent_count (entryFor MTK_SCALER_AVAILABLE_STREAM_CONFIGURATIONS static)))"

definition table_complete :: "IMetadata \<Rightarrow> bool" where
  "table_complete static \<longleftrightarrow>
     (let e = entryFor MTK_SCALER_AVAILABLE_STREAM_CONFIGURATIONS static in
      \<not> ent_isEmpty e \<and> list_all (\<lambda>i. item_MINT32 i e \<noteq> None) [0..<4 * table_rows static])"

definition size_listed :: "IMetadata \<Rightarrow> camera3_stream \<Rightarrow> bool" where
  "size_listed static s \<longleftrightarrow> list_ex (\<lambda>j. case table_row static j of (f, w, h) \<Rightarrow>
     sint f = c3_format s \<and> w = c3_width s \<and> h = c3_height s) [0..<table_rows static]"

definition stream_ok :: "IMetadata \<Rightarrow> camera3_stream \<Rightarrow> bool" where
  "stream_ok static s \<longleftrightarrow> c3_data_space s \<noteq> HAL_DATASPACE_DEPTH \<and> size_listed static s \<and>
     (c3_rotation s = CAMERA3_STREAM_ROTATION_0 \<or>
      c3_stream_type s \<noteq> CAMERA3_STREAM_INPUT \<and> c3_format s \<notin> {HAL_PIXEL_FORMAT_RAW16, HAL_PIXEL_FORMAT_RAW_OPAQUE})"

definition config_ok :: "IMetadata \<Rightarrow> camera3_stream option list \<Rightarrow> bool" where
  "config_ok static ps \<longleftrightarrow> ps \<noteq> [] \<and> list_all (\<lambda>p. case p of None \<Rightarrow> False | Some s \<Rightarrow> stream_ok static s) ps \<and>
     (let ss = map the ps in
      length (filter (\<lambda>s. c3_stream_type s \<noteq> CAMERA3_STREAM_OUTPUT) ss) \<le> 1 \<and>
      list_ex (\<lambda>s. c3_stream_type s \<noteq> CAMERA3_STREAM_INPUT) ss \<and>
      length (filter (\<lambda>s. c3_rotation s \<noteq> CAMERA3_STREAM_ROTATION_0) ss) \<le> 1)"

definition stream_known :: "camera3_stream \<Rightarrow> bool" where
  "stream_known s \<longleftrightarrow> c3_stream_type s \<in> {CAMERA3_STREAM_OUTPUT, CAMERA3_STREAM_INPUT, CAMERA3_STREAM_BIDIRECTIONAL} \<and>
     c3_rotation s \<in> {CAMERA3_STREAM_ROTATION_0, CAMERA3_STREAM_ROTATION_90, CAMERA3_STREAM_ROTATION_180, CAMERA3_STREAM_ROTATION_270}"

lemma size_supported_iff:
  "list_all (\<lambda>j. item_MINT32 (4 * j) e \<noteq> None \<and> item_MINT32 (4 * j + 1) e \<noteq> None \<and> item_MINT32 (4 * j + 2) e \<noteq> None) js \<Longrightarrow>
   size_supported e s js = Some (list_ex (\<lambda>j. sint (the (item_MINT32 (4 * j) e)) = c3_format s \<and>
     the (item_MINT32 (4 * j + 1) e) = c3_width s \<and> the (item_MINT32 (4 * j + 2) e) = c3_height s) js)"
proof (induction js)
  case (Cons j js)
  then obtain f w h where "item_MINT32 (4 * j) e = Some f" "item_MINT32 (4 * j + 1) e = Some w" "item_MINT32 (4 * j + 2) e = Some h"
    by auto
  then show ?case using Cons by (cases "sint f = c3_format s") auto
qed simp

lemma checkStream_iff:
  assumes "table_complete static"
  shows "checkStream static (Some s) = Some (if stream_ok static s then OK else - EINVAL)"
proof -
  let ?e = "entryFor MTK_SCALER_AVAILABLE_STREAM_CONFIGURATIONS static" and ?js = "[0..<table_rows static]"
  have "list_all (\<lambda>j. item_MINT32 (4 * j) ?e \<noteq> None \<and> item_MINT32 (4 * j + 1) ?e \<noteq> None \<and> item_MINT32 (4 * j + 2) ?e \<noteq> None) ?js"
    using assms by (simp add: table_complete_def Let_def list_all_iff)
  from size_supported_iff [OF this, of s] have "size_supported ?e s ?js = Some (size_listed static s)"
    by (simp add: size_listed_def table_row_def Let_def)
  then show ?thesis using assms
    by (auto simp: checkStream_def table_complete_def stream_ok_def Let_def simp flip: table_rows_def)
qed

definition count_filter :: "('a \<Rightarrow> bool) \<Rightarrow> 'a list \<Rightarrow> nat" where
  "count_filter P xs = length (filter P xs)"

lemma count_filter_Cons [simp]: "count_filter P [] = 0" "count_filter P (x # xs) = (if P x then 1 else 0) + count_filter P xs"
  by (simp_all add: count_filter_def)

definition counted :: "camera3_stream option list \<Rightarrow> stream_counts \<Rightarrow> stream_counts \<Rightarrow> bool" where
  "counted ps c c' \<longleftrightarrow>
     num_stream_O c' = num_stream_O c + count_filter (\<lambda>s. c3_stream_type s = CAMERA3_STREAM_OUTPUT) (map the ps) \<and>
     num_stream_I c' = num_stream_I c + count_filter (\<lambda>s. c3_stream_type s = CAMERA3_STREAM_INPUT) (map the ps) \<and>
     num_stream_IO c' = num_stream_IO c + count_filter (\<lambda>s. c3_stream_type s = CAMERA3_STREAM_BIDIRECTIONAL) (map the ps) \<and>
     num_rotation_not0 c' = num_rotation_not0 c +
       count_filter (\<lambda>s. c3_stream_type s \<noteq> CAMERA3_STREAM_INPUT \<and> c3_rotation s \<noteq> CAMERA3_STREAM_ROTATION_0) (map the ps)"

lemma count_streams_ok:
  assumes t: "table_complete static"
  shows "list_all (\<lambda>p. case p of None \<Rightarrow> True | Some s \<Rightarrow> stream_known s) ps \<Longrightarrow>
   \<exists>e c'. count_streams static ps c = Some (e, c') \<and>
     (if list_all (\<lambda>p. case p of None \<Rightarrow> False | Some s \<Rightarrow> stream_ok static s) ps then e = OK \<and> counted ps c c' else e = - EINVAL)"
proof (induction ps arbitrary: c)
  case Nil
  show ?case by (simp add: counted_def)
next
  case (Cons p ps)
  show ?case
  proof (cases p)
    case None
    then show ?thesis by (simp add: checkStream_def)
  next
    case (Some s)
    show ?thesis
    proof (cases "stream_ok static s")
      case False
      then show ?thesis using Some by (simp add: checkStream_iff [OF t])
    next
      case True
      have k: "stream_known s" using Cons.prems Some by simp
      let ?type = "c3_stream_type s" and ?rot = "c3_rotation s"
      define c2 where "c2 = (let c1 = (if ?type = CAMERA3_STREAM_OUTPUT then c\<lparr>num_stream_O := num_stream_O c + 1\<rparr>
          else if ?type = CAMERA3_STREAM_INPUT then c\<lparr>num_stream_I := num_stream_I c + 1\<rparr>
          else c\<lparr>num_stream_IO := num_stream_IO c + 1\<rparr>) in
        if ?type = CAMERA3_STREAM_INPUT then c1
        else if ?rot = CAMERA3_STREAM_ROTATION_0 then c1\<lparr>num_rotation_0 := num_rotation_0 c1 + 1\<rparr>
        else c1\<lparr>num_rotation_not0 := num_rotation_not0 c1 + 1\<rparr>)"
      have c: "count_streams static (p # ps) c = count_streams static ps c2"
        using True Some k
        by (auto simp: checkStream_iff [OF t] count_type_def count_rotation_def stream_known_def c2_def Let_def)
      have c2: "num_stream_O c2 = num_stream_O c + (if ?type = CAMERA3_STREAM_OUTPUT then 1 else 0)"
          "num_stream_I c2 = num_stream_I c + (if ?type = CAMERA3_STREAM_INPUT then 1 else 0)"
          "num_stream_IO c2 = num_stream_IO c + (if ?type = CAMERA3_STREAM_BIDIRECTIONAL then 1 else 0)"
          "num_rotation_not0 c2 = num_rotation_not0 c + (if ?type \<noteq> CAMERA3_STREAM_INPUT \<and> ?rot \<noteq> CAMERA3_STREAM_ROTATION_0 then 1 else 0)"
        using k by (auto simp: c2_def Let_def stream_known_def)
      have n: "counted ps c2 c' \<Longrightarrow> counted (p # ps) c c'" for c' using Some c2 by (simp add: counted_def)
      obtain e c' where "count_streams static ps c2 = Some (e, c')"
          "if list_all (\<lambda>p. case p of None \<Rightarrow> False | Some s \<Rightarrow> stream_ok static s) ps then e = OK \<and> counted ps c2 c' else e = - EINVAL"
        using Cons.IH [of c2] Cons.prems by auto
      then show ?thesis unfolding c using n True Some by (auto split: if_splits)
    qed
  qed
qed

lemma count_filter_or: "count_filter (\<lambda>x. P x \<or> Q x) xs = count_filter P xs + count_filter Q xs" if "\<And>x. \<not> (P x \<and> Q x)"
  using that by (induction xs) auto

lemma count_filter_0: "count_filter P xs = 0 \<longleftrightarrow> \<not> list_ex P xs"
  by (induction xs) auto

lemma count_filter_cong: "(\<And>x. x \<in> set xs \<Longrightarrow> P x = Q x) \<Longrightarrow> count_filter P xs = count_filter Q xs"
  by (induction xs) auto

text \<open>C26: for streams of known types and rotations and a complete table of sizes,
  \<open>checkStreams\<close> accepts exactly the configurations of the reference: no missing stream, each
  of a listed size and not rotated where that is not supported, at most one that can be input,
  at least one that can be output, and at most one that is rotated.\<close>

theorem checkStreams_iff:
  assumes "table_complete static" and "list_all (\<lambda>p. case p of None \<Rightarrow> True | Some s \<Rightarrow> stream_known s) ps"
  shows "checkStreams static (Some (Some ps)) = Some (if config_ok static ps then OK else - EINVAL)"
proof (cases "ps \<noteq> [] \<and> list_all (\<lambda>p. case p of None \<Rightarrow> False | Some s \<Rightarrow> stream_ok static s) ps")
  case False
  let ?c0 = "\<lparr>num_stream_O = 0, num_stream_I = 0, num_stream_IO = 0, num_rotation_0 = 0, num_rotation_not0 = 0\<rparr>"
  show ?thesis
  proof (cases "ps = []")
    case True
    then show ?thesis by (simp add: checkStreams_def config_ok_def)
  next
    case ne: False
    then have no: "\<not> list_all (\<lambda>p. case p of None \<Rightarrow> False | Some s \<Rightarrow> stream_ok static s) ps" using False by simp
    then obtain c where "count_streams static ps ?c0 = Some (- EINVAL, c)" using count_streams_ok [OF assms, of ?c0] by auto
    then show ?thesis using no ne by (simp add: checkStreams_def config_ok_def)
  qed
next
  case True
  let ?ss = "map the ps"
  let ?c0 = "\<lparr>num_stream_O = 0, num_stream_I = 0, num_stream_IO = 0, num_rotation_0 = 0, num_rotation_not0 = 0\<rparr>"
  obtain c where c: "count_streams static ps ?c0 = Some (OK, c)" and "counted ps ?c0 c"
    using count_streams_ok [OF assms, of ?c0] True by auto
  then have n: "num_stream_O c = count_filter (\<lambda>s. c3_stream_type s = CAMERA3_STREAM_OUTPUT) ?ss"
      "num_stream_I c = count_filter (\<lambda>s. c3_stream_type s = CAMERA3_STREAM_INPUT) ?ss"
      "num_stream_IO c = count_filter (\<lambda>s. c3_stream_type s = CAMERA3_STREAM_BIDIRECTIONAL) ?ss"
      "num_rotation_not0 c = count_filter (\<lambda>s. c3_stream_type s \<noteq> CAMERA3_STREAM_INPUT \<and> c3_rotation s \<noteq> CAMERA3_STREAM_ROTATION_0) ?ss"
    by (simp_all add: counted_def)
  have all: "\<forall>s \<in> set ?ss. stream_known s \<and> stream_ok static s"
    using True assms(2) by (auto simp: list_all_iff split: option.splits)
  have "num_stream_I c + num_stream_IO c = length (filter (\<lambda>s. c3_stream_type s \<noteq> CAMERA3_STREAM_OUTPUT) ?ss)"
    unfolding n count_filter_def [symmetric] using all
    by (subst count_filter_or [symmetric]) (auto simp: stream_known_def intro!: count_filter_cong)
  moreover have "num_stream_O c + num_stream_IO c = 0 \<longleftrightarrow> \<not> list_ex (\<lambda>s. c3_stream_type s \<noteq> CAMERA3_STREAM_INPUT) ?ss"
    unfolding n using all by (auto simp: count_filter_0 list_ex_iff stream_known_def)
  moreover have "num_rotation_not0 c = length (filter (\<lambda>s. c3_rotation s \<noteq> CAMERA3_STREAM_ROTATION_0) ?ss)"
    unfolding n count_filter_def [symmetric] using all by (intro count_filter_cong) (auto simp: stream_ok_def)
  ultimately show ?thesis using True c by (simp add: checkStreams_def config_ok_def Let_def)
qed

definition ex_table :: IMetadata where
  "ex_table = IMetadata [(MTK_SCALER_AVAILABLE_STREAM_CONFIGURATIONS,
     fold (\<lambda>n. push_back (Item_MINT32 n)) [0x20, 640, 480, 0, 0x23, 320, 240, 0] (IEntry_new MTK_SCALER_AVAILABLE_STREAM_CONFIGURATIONS))]"

definition ex_stream :: "int \<Rightarrow> int \<Rightarrow> int \<Rightarrow> camera3_stream" where
  "ex_stream type format rotation = \<lparr>c3_stream_type = type, c3_width = 320, c3_height = 240, c3_format = format, c3_usage = 0,
     c3_max_buffers = 0, c3_priv = None, c3_data_space = 0, c3_rotation = rotation\<rparr>"

theorem checkStreams_iff_witness:
  "checkStreams ex_table (Some (Some [Some (ex_stream 0 0x23 1), Some (ex_stream 0 0x23 0)])) = Some OK \<and>
   checkStreams ex_table (Some (Some [Some (ex_stream 0 0x23 1), Some (ex_stream 0 0x23 2)])) = Some (- EINVAL)"
proof -
  let ?p = "[Some (ex_stream 0 0x23 1), Some (ex_stream 0 0x23 0)]" and ?q = "[Some (ex_stream 0 0x23 1), Some (ex_stream 0 0x23 2)]"
  have t: "table_complete ex_table" by code_simp
  have k: "list_all (\<lambda>p. case p of None \<Rightarrow> True | Some s \<Rightarrow> stream_known s) ?p"
      "list_all (\<lambda>p. case p of None \<Rightarrow> True | Some s \<Rightarrow> stream_known s) ?q" by code_simp+
  have "config_ok ex_table ?p" "\<not> config_ok ex_table ?q" by code_simp+
  then show ?thesis using checkStreams_iff [OF t k(1)] checkStreams_iff [OF t k(2)] by simp
qed

section \<open>Collecting results\<close>

definition enque_all :: "(MUINT32 \<times> nat list \<times> bool) list \<Rightarrow> 'k AppStreamMgr \<Rightarrow> 'k AppStreamMgr" where
  "enque_all rs m = fold (\<lambda>(n, bs, l) m. snd (enqueResult n bs l m)) rs m"

definition results_for :: "MUINT32 \<Rightarrow> (MUINT32 \<times> nat list \<times> bool) list \<Rightarrow> (nat list \<times> bool) list" where
  "results_for n rs = map snd (filter (\<lambda>r. fst r = n) rs)"

definition collected :: "MUINT32 \<Rightarrow> (nat list \<times> bool) list \<Rightarrow> ResultItem option" where
  "collected n xs = (if xs = [] then None
     else Some \<lparr>ri_lastPartial = snd (last xs), ri_frameNo = n, ri_buffer = concat (map fst xs)\<rparr>)"

lemma kv_add_not_Nil: "kv_add k v m \<noteq> []"
  by (induction k v m rule: kv_add.induct) auto

lemma enqueResult_queue:
  assumes "\<not> mg_exitPending m" and q: "map_of (mg_mResultQueue m) = (\<lambda>n. collected n (f n))" and "kv_wf (mg_mResultQueue m)"
  shows "map_of (mg_mResultQueue (snd (enqueResult n bs l m))) = (\<lambda>n'. collected n' (if n' = n then f n' @ [(bs, l)] else f n')) \<and>
     kv_wf (mg_mResultQueue (snd (enqueResult n bs l m))) \<and> \<not> mg_exitPending (snd (enqueResult n bs l m)) \<and>
     mg_mResultQueue (snd (enqueResult n bs l m)) \<noteq> []"
proof (cases "kv_index (mg_mResultQueue m) n = None")
  case True
  then have "f n = []" using q by (simp add: collected_def split: if_splits)
  then show ?thesis using assms True
    by (auto simp: kv_add_not_Nil enqueResult_def collected_def fun_eq_iff intro: inv_intros)
next
  case False
  then have "f n \<noteq> []" using q by (auto simp: collected_def)
  moreover have "mg_mResultQueue m \<noteq> []"
  proof
    assume "mg_mResultQueue m = []"
    with False show False by simp
  qed
  ultimately show ?thesis using assms False
    by (auto simp: enqueResult_def collected_def fun_eq_iff intro: inv_intros) (auto simp: kv_edit_def)
qed

lemma enque_all_queue:
  "\<not> mg_exitPending m \<Longrightarrow> map_of (mg_mResultQueue m) = (\<lambda>n. collected n (f n)) \<Longrightarrow> kv_wf (mg_mResultQueue m) \<Longrightarrow>
   map_of (mg_mResultQueue (enque_all rs m)) = (\<lambda>n. collected n (f n @ results_for n rs)) \<and> kv_wf (mg_mResultQueue (enque_all rs m)) \<and>
   (rs \<noteq> [] \<longrightarrow> mg_mResultQueue (enque_all rs m) \<noteq> [])"
proof (induction rs arbitrary: m f)
  case Nil
  then show ?case by (simp add: enque_all_def results_for_def)
next
  case (Cons r rs)
  obtain n bs l where r: "r = (n, bs, l)" by (cases r)
  let ?m = "snd (enqueResult n bs l m)"
  have s: "enque_all (r # rs) m = enque_all rs ?m" by (simp add: enque_all_def r)
  note q = enqueResult_queue [OF Cons.prems, of n bs l]
  have "(if n' = n then f n' @ [(bs, l)] else f n') @ results_for n' rs = f n' @ results_for n' (r # rs)" for n'
    by (simp add: results_for_def r)
  then show ?case unfolding s
    using Cons.IH [of ?m "\<lambda>n'. if n' = n then f n' @ [(bs, l)] else f n'"] q by (cases "rs = []") (auto simp: enque_all_def)
qed

text \<open>The thread takes all results that came in since its last round in one queue: for every
  frame with a result there is one item with the metadata buffers of all its results in their
  order. Its mark of the last partial result is that of the last result only.\<close>

theorem dequeResult_collects:
  assumes "\<not> mg_exitPending m" and "mg_mResultQueue m = []" and "rs \<noteq> []"
  shows "\<exists>q m'. dequeResult (enque_all rs m) = Some (OK, q, m') \<and> mg_mResultQueue m' = [] \<and> kv_wf q \<and>
    map_of q n = (if results_for n rs = [] then None
      else Some \<lparr>ri_lastPartial = snd (last (results_for n rs)), ri_frameNo = n, ri_buffer = concat (map fst (results_for n rs))\<rparr>)"
proof -
  have "map_of (mg_mResultQueue m) = (\<lambda>n. collected n [])" using assms(2) by (simp add: collected_def fun_eq_iff)
  from enque_all_queue [OF assms(1) this, of rs] assms(2,3)
  show ?thesis by (auto simp: dequeResult_def collected_def)
qed

definition ex_mgr :: "mk AppStreamMgr" where
  "ex_mgr = \<lparr>mg_mFrameHandler = ex_app, mg_mStreamIdToConfig = 6, mg_mLatestSettings = IMetadata_new,
     mg_mResultQueue = [], mg_exitPending = False\<rparr>"

theorem dequeResult_collects_witness:
  "\<exists>q m'. dequeResult (enque_all [(1, [0], True), (2, [1], False), (1, [], False)] ex_mgr) = Some (OK, q, m') \<and>
    map_of q 1 = Some \<lparr>ri_lastPartial = False, ri_frameNo = 1, ri_buffer = [0]\<rparr>"
proof -
  have "\<not> mg_exitPending ex_mgr" "mg_mResultQueue ex_mgr = []" by (simp_all add: ex_mgr_def)
  from dequeResult_collects [OF this, of "[(1, [0], True), (2, [1], False), (1, [], False)]" 1]
  show ?thesis by (auto simp: results_for_def)
qed

section \<open>Requests\<close>

definition buffers_ok :: "'k App \<Rightarrow> (StreamId_T, nat) kvec \<Rightarrow> bool" where
  "buffers_ok a v \<longleftrightarrow> kv_wf v \<and> (\<forall>(k, b) \<in> set v. b < length (ap_images a) \<and> image_streamId a b = k)"

lemma kv_add_subset: "set (kv_add k v m) \<subseteq> insert (k, v) (set m)"
  by (induction k v m rule: kv_add.induct) auto

lemma buffers_ok_distinct: "buffers_ok a v \<Longrightarrow> distinct (map (image_streamId a) (map snd v))"
proof -
  assume b: "buffers_ok a v"
  then have "map (image_streamId a) (map snd v) = kv_keys v" by (auto simp: buffers_ok_def kv_keys_def)
  then show ?thesis using b by (simp add: buffers_ok_def kv_wf_distinct)
qed

lemma createImageStreamBuffer_new:
  assumes "createImageStreamBuffer E p a = Some (i, a')"
  shows "i = length (ap_images a) \<and> (\<exists>b. a' = a\<lparr>ap_images := ap_images a @ [b]\<rparr> \<and>
    (\<exists>s info. sb_stream p = Some s \<and> c3_priv (ap_streams a ! s) = Some info \<and> si_streamId (mStreamInfo b) = ci_mStreamId info) \<and>
    app_getAcquireFence b = sb_acquire_fence p \<and> app_getReleaseFence b = sb_release_fence p \<and>
    sb_buffer p = Some (gh_mpBufferHandle (mImageBufferHeap b)))"
  using assms
  by (auto simp: validate_camera3_stream_buffer_def createImageStreamBuffer_def Cam3ImageStreamInfo_cast_def AppImage_Allocator_def AppImageStreamBuffer_new_def
      StreamBufferImp_new_def StreamBufferImp.extend_def GraphicHeap_create_def app_getAcquireFence_def app_getReleaseFence_def
      ci_getStreamId_def split: option.splits if_splits)

lemma buffers_ok_more: "buffers_ok a v \<Longrightarrow> buffers_ok (a\<lparr>ap_images := ap_images a @ bs\<rparr>) v"
  by (auto simp: buffers_ok_def image_streamId_def nth_append)

lemma buffers_ok_add:
  assumes "createImageStreamBuffer E p a = Some (i, a')" and "buffers_ok a v"
  shows "buffers_ok a' (kv_add (image_streamId a' i) i v)"
proof -
  obtain b where a': "i = length (ap_images a)" "a' = a\<lparr>ap_images := ap_images a @ [b]\<rparr>"
    using createImageStreamBuffer_new [OF assms(1)] by blast
  then have "buffers_ok a' v" "i < length (ap_images a')" using buffers_ok_more [OF assms(2)] by auto
  then show ?thesis using kv_add_subset [of "image_streamId a' i" i v] by (auto simp: buffers_ok_def intro: inv_intros)
qed

lemma create_outputs_ok:
  "create_outputs E ps (r, a) = Some (r', a') \<Longrightarrow> buffers_ok a (rq_vOutputImageBuffers r) \<Longrightarrow> buffers_ok a (rq_vInputImageBuffers r) \<Longrightarrow>
   buffers_ok a' (rq_vOutputImageBuffers r') \<and> buffers_ok a' (rq_vInputImageBuffers r') \<and> rq_frameNo r' = rq_frameNo r \<and>
   rq_vInputMetaBuffers r' = rq_vInputMetaBuffers r \<and> (\<exists>bs. a' = a\<lparr>ap_images := ap_images a @ bs\<rparr>)"
proof (induction ps arbitrary: r a)
  case Nil
  then show ?case by (auto intro!: exI [of _ "[]"])
next
  case (Cons p ps)
  then obtain i a1 where c: "createImageStreamBuffer E p a = Some (i, a1)"
      and rest: "create_outputs E ps (r\<lparr>rq_vOutputImageBuffers := kv_add (image_streamId a1 i) i (rq_vOutputImageBuffers r)\<rparr>, a1) = Some (r', a')"
    by auto
  obtain b where a1: "a1 = a\<lparr>ap_images := ap_images a @ [b]\<rparr>" using createImageStreamBuffer_new [OF c] by blast
  have "buffers_ok a1 (rq_vInputImageBuffers r)" unfolding a1 by (rule buffers_ok_more [OF Cons.prems(3)])
  with Cons.IH [OF rest] buffers_ok_add [OF c Cons.prems(2)] a1 show ?case by auto
qed

text \<open>The stream of a client's buffer, and the stream buffer made of it.\<close>

definition stream_id_of :: "'k App \<Rightarrow> camera3_stream_buffer \<Rightarrow> StreamId_T option" where
  "stream_id_of a p = do { s \<leftarrow> sb_stream p; info \<leftarrow> c3_priv (ap_streams a ! s); Some (ci_mStreamId info) }"

definition made_of :: "'k App \<Rightarrow> camera3_stream_buffer \<Rightarrow> nat \<Rightarrow> bool" where
  "made_of a p b \<longleftrightarrow> b < length (ap_images a) \<and> stream_id_of a p = Some (image_streamId a b) \<and>
     sb_buffer p = Some (gh_mpBufferHandle (mImageBufferHeap (ap_images a ! b))) \<and>
     app_getAcquireFence (ap_images a ! b) = sb_acquire_fence p \<and> app_getReleaseFence (ap_images a ! b) = sb_release_fence p"

text \<open>\<open>v\<close> has, under the id of every stream of the client's buffers \<open>ps\<close>, a stream buffer made since
  there were \<open>n\<close> of them, of the last buffer of that stream, and nothing else.\<close>

definition filed :: "nat \<Rightarrow> 'k App \<Rightarrow> (StreamId_T, nat) kvec \<Rightarrow> camera3_stream_buffer list \<Rightarrow> bool" where
  "filed n a v ps \<longleftrightarrow> (\<forall>k. rel_option (\<lambda>p b. n \<le> b \<and> made_of a p b)
     (find (\<lambda>p. stream_id_of a p = Some k) (rev ps)) (map_of v k))"

lemma stream_id_of_more [simp]: "stream_id_of (a\<lparr>ap_images := bs\<rparr>) = stream_id_of a"
  by (simp add: stream_id_of_def fun_eq_iff)

lemma made_of_more: "made_of a p b \<Longrightarrow> made_of (a\<lparr>ap_images := ap_images a @ bs\<rparr>) p b"
  by (auto simp: made_of_def image_streamId_def nth_append)

lemma filed_more: "filed n a v ps \<Longrightarrow> filed n (a\<lparr>ap_images := ap_images a @ bs\<rparr>) v ps"
  unfolding filed_def stream_id_of_more by (metis (mono_tags, lifting) made_of_more option.rel_mono_strong)

lemma filed_Nil [simp]: "filed n a [] []"
  by (simp add: filed_def)

lemma filed_add:
  assumes c: "createImageStreamBuffer E p a = Some (i, a')" and v: "filed n a v ps" and n: "n \<le> length (ap_images a)"
  shows "filed n a' (kv_add (image_streamId a' i) i v) (ps @ [p])"
proof -
  obtain b s info where i: "i = length (ap_images a)" and a': "a' = a\<lparr>ap_images := ap_images a @ [b]\<rparr>"
      and s: "sb_stream p = Some s" "c3_priv (ap_streams a ! s) = Some info" "si_streamId (mStreamInfo b) = ci_mStreamId info"
      and f: "app_getAcquireFence b = sb_acquire_fence p" "app_getReleaseFence b = sb_release_fence p"
        "sb_buffer p = Some (gh_mpBufferHandle (mImageBufferHeap b))"
    using createImageStreamBuffer_new [OF c] by blast
  have p: "stream_id_of a' p = Some (image_streamId a' i)" using s by (simp add: a' i stream_id_of_def image_streamId_def)
  then have "made_of a' p i" using f by (simp add: made_of_def a' i)
  moreover have "filed n a' v ps" unfolding a' by (rule filed_more [OF v])
  ultimately show ?thesis using p n by (auto simp: filed_def i)
qed

lemma create_outputs_filed:
  "create_outputs E ps (r, a) = Some (r', a') \<Longrightarrow> filed n a (rq_vOutputImageBuffers r) qs \<Longrightarrow> n \<le> length (ap_images a) \<Longrightarrow>
   filed n a' (rq_vOutputImageBuffers r') (qs @ ps) \<and> rq_vInputImageBuffers r' = rq_vInputImageBuffers r"
proof (induction ps arbitrary: r a qs)
  case (Cons p ps)
  then obtain i a1 where c: "createImageStreamBuffer E p a = Some (i, a1)"
      and rest: "create_outputs E ps (r\<lparr>rq_vOutputImageBuffers := kv_add (image_streamId a1 i) i (rq_vOutputImageBuffers r)\<rparr>, a1) = Some (r', a')"
    by auto
  have "n \<le> length (ap_images a1)" using createImageStreamBuffer_new [OF c] Cons.prems(3) by auto
  with Cons.IH [OF rest, of "qs @ [p]"] filed_add [OF c Cons.prems(2,3)] show ?case by simp
qed simp

definition Request_new :: Request where
  "Request_new = \<lparr>rq_frameNo = 0, rq_vInputImageBuffers = [], rq_vOutputImageBuffers = [], rq_vInputMetaBuffers = []\<rparr>"

text \<open>The image buffers of a request, with what registering the request needs.\<close>

lemma request_images:
  assumes 1: "(case cr_input_buffer rq of None \<Rightarrow> Some (Request_new\<lparr>rq_frameNo := k\<rparr>, a)
        | Some p \<Rightarrow> do { (i, a1) \<leftarrow> createImageStreamBuffer E p a;
            Some (Request_new\<lparr>rq_frameNo := k, rq_vInputImageBuffers :=
              kv_add (image_streamId a1 i) i (rq_vInputImageBuffers (Request_new\<lparr>rq_frameNo := k\<rparr>))\<rparr>, a1) }) = Some (r1, a1)"
    and 2: "create_outputs E outs (r1, a1) = Some (r2, a2)"
  shows "buffers_ok a2 (rq_vOutputImageBuffers r2) \<and> buffers_ok a2 (rq_vInputImageBuffers r2) \<and> rq_frameNo r2 = k \<and>
    rq_vInputMetaBuffers r2 = [] \<and> filed (length (ap_images a)) a2 (rq_vOutputImageBuffers r2) outs \<and>
    filed (length (ap_images a)) a2 (rq_vInputImageBuffers r2) (case cr_input_buffer rq of None \<Rightarrow> [] | Some p \<Rightarrow> [p])"
proof -
  let ?n = "length (ap_images a)" and ?ins = "case cr_input_buffer rq of None \<Rightarrow> [] | Some p \<Rightarrow> [p]"
  have b0: "buffers_ok b []" for b :: "'a App" by (simp add: buffers_ok_def)
  have r1: "buffers_ok a1 (rq_vInputImageBuffers r1)" "rq_vOutputImageBuffers r1 = []" "rq_vInputMetaBuffers r1 = []"
      "rq_frameNo r1 = k" "filed ?n a1 (rq_vInputImageBuffers r1) ?ins" "?n \<le> length (ap_images a1)"
    using 1 buffers_ok_add [OF _ b0, of E _ a] filed_add [OF _ filed_Nil order_refl, of E _ a] createImageStreamBuffer_new [of E _ a]
    by (fastforce simp: Request_new_def b0 split: option.splits)+
  obtain bs where a2: "a2 = a1\<lparr>ap_images := ap_images a1 @ bs\<rparr>"
    using create_outputs_ok [OF 2] r1 b0 by auto
  have "filed ?n a2 (rq_vInputImageBuffers r1) ?ins" unfolding a2 by (rule filed_more [OF r1(5)])
  then show ?thesis using create_outputs_ok [OF 2] create_outputs_filed [OF 2, of ?n "[]"] r1 b0 by simp
qed

text \<open>C27: a request of the client without output buffers, or without settings when there are none from
  an earlier request, is refused with \<open>-EINVAL\<close> and changes nothing. Of every other one the image
  buffers are made first: the request has, for every stream of the client's output buffers, a new
  stream buffer under the id of the stream, with the client's handle and fences (of the last
  buffer, if a stream has several), and no others; and likewise for the input buffer. When the
  client's settings cannot be converted the result is \<open>-ENODEV\<close>, and what the conversion has
  written replaces the last settings all the same; else the request has the client's settings,
  or the last ones, as its one metadata buffer, and its image buffers are of different streams,
  as registering a frame needs it.\<close>

theorem createRequest_result:
  assumes "createRequest E request Request_new m = Some (err, r, m')"
  shows "case request of None \<Rightarrow> err = - EINVAL \<and> r = Request_new \<and> m' = m | Some rq \<Rightarrow>
    (if cr_output_buffers rq = None \<or> cr_output_buffers rq = Some [] \<or> (cr_settings rq = None \<and> md_mMap (mg_mLatestSettings m) = [])
     then err = - EINVAL \<and> r = Request_new \<and> m' = m
     else
       rq_frameNo r = cr_frame_number rq \<and>
       filed (length (ap_images (mg_mFrameHandler m))) (mg_mFrameHandler m') (rq_vOutputImageBuffers r) (the (cr_output_buffers rq)) \<and>
       filed (length (ap_images (mg_mFrameHandler m))) (mg_mFrameHandler m') (rq_vInputImageBuffers r)
         (case cr_input_buffer rq of None \<Rightarrow> [] | Some p \<Rightarrow> [p]) \<and>
       request_ok r (mg_mFrameHandler m') \<and>
       mg_mLatestSettings m' = (case cr_settings rq of None \<Rightarrow> mg_mLatestSettings m | Some s \<Rightarrow> snd (env_convert E s)) \<and>
       (if (case cr_settings rq of None \<Rightarrow> False | Some s \<Rightarrow> \<not> fst (env_convert E s))
        then err = - ENODEV \<and> rq_vInputMetaBuffers r = []
        else err = OK \<and>
          (\<exists>k b. rq_vInputMetaBuffers r = [(k, b)] \<and> am_mMetadata (ap_metas (mg_mFrameHandler m') ! b) = mg_mLatestSettings m' \<and>
             (app_isRepeating (ap_metas (mg_mFrameHandler m') ! b) \<longleftrightarrow> cr_settings rq = None))))"
proof (cases "checkRequestLocked request m = OK")
  case False
  then have "checkRequestLocked request m = - EINVAL" by (auto simp: checkRequestLocked_def split: option.splits if_splits)
  then have "err = - EINVAL" "r = Request_new" "m' = m" using assms by (simp_all add: createRequest_def Let_def)
  then show ?thesis using False by (auto simp: checkRequestLocked_def md_isEmpty_def split: option.splits if_splits)
next
  case True
  then obtain rq where rq: "request = Some rq" by (auto simp: checkRequestLocked_def split: option.splits)
  let ?a = "mg_mFrameHandler m" and ?r0 = "Request_new\<lparr>rq_frameNo := cr_frame_number rq\<rparr>"
  obtain r1 a1 outs r2 a2 where 1: "(case cr_input_buffer rq of None \<Rightarrow> Some (?r0, ?a)
        | Some p \<Rightarrow> do { (i, a) \<leftarrow> createImageStreamBuffer E p ?a;
            Some (?r0\<lparr>rq_vInputImageBuffers := kv_add (image_streamId a i) i (rq_vInputImageBuffers ?r0)\<rparr>, a) }) = Some (r1, a1)"
      and 2: "create_outputs E outs (r1, a1) = Some (r2, a2)" and outs: "cr_output_buffers rq = Some outs"
      and rest: "Some (err, r, m') = do {
        pStreamInfo \<leftarrow> getConfigMetaStream 0 a2;
        let (ok, settings) = (case cr_settings rq of Some s \<Rightarrow> env_convert E s | None \<Rightarrow> (True, mg_mLatestSettings m));
        let m1 = m\<lparr>mg_mFrameHandler := a2, mg_mLatestSettings := settings\<rparr>;
        if \<not> ok then Some (- ENODEV, r2, m1)
        else do {
          let (b, a3) = createMetaStreamBuffer pStreamInfo settings (cr_settings rq = None) a2;
          Some (OK, r2\<lparr>rq_vInputMetaBuffers := kv_add (meta_streamId a3 b) b (rq_vInputMetaBuffers r2)\<rparr>, m1\<lparr>mg_mFrameHandler := a3\<rparr>)
        } }"
    using assms True unfolding createRequest_def Let_def rq
    by (auto simp del: option_bind_eq_Some Some_eq_option_bind simp: bind_eq_Some_conv)
  note r2 = request_images [OF 1 2]
  have ne: "outs \<noteq> []" "\<not> (cr_settings rq = None \<and> md_mMap (mg_mLatestSettings m) = [])"
    using True outs by (auto simp: rq checkRequestLocked_def md_isEmpty_def split: if_splits)
  obtain ok settings where os: "(case cr_settings rq of Some s \<Rightarrow> env_convert E s | None \<Rightarrow> (True, mg_mLatestSettings m)) = (ok, settings)"
    by fastforce
  then have s: "settings = (case cr_settings rq of None \<Rightarrow> mg_mLatestSettings m | Some s \<Rightarrow> snd (env_convert E s))"
      "ok \<longleftrightarrow> \<not> (case cr_settings rq of None \<Rightarrow> False | Some s \<Rightarrow> \<not> fst (env_convert E s))" by (auto split: option.splits)
  obtain info where info: "getConfigMetaStream 0 a2 = Some info" using rest by (auto simp: bind_eq_Some_conv)
  obtain b a3 where a3: "createMetaStreamBuffer info settings (cr_settings rq = None) a2 = (b, a3)" by fastforce
  show ?thesis
  proof (cases ok)
    case False
    then have "r = r2" "m' = m\<lparr>mg_mFrameHandler := a2, mg_mLatestSettings := settings\<rparr>" "err = - ENODEV"
      using rest by (simp_all add: os info Let_def)
    moreover have "request_ok r2 a2" unfolding request_ok_def using r2 buffers_ok_distinct by blast
    ultimately show ?thesis using r2 ne s False by (simp add: rq outs)
  next
    case True
    have r: "r = r2\<lparr>rq_vInputMetaBuffers := kv_add (meta_streamId a3 b) b (rq_vInputMetaBuffers r2)\<rparr>"
        and m': "m' = m\<lparr>mg_mFrameHandler := a3, mg_mLatestSettings := settings\<rparr>" and ok: "err = OK"
      using rest True by (simp_all add: os info a3 Let_def)
    have im: "ap_images a3 = ap_images a2" "ap_streams a3 = ap_streams a2" and bb: "am_mMetadata (ap_metas a3 ! b) = settings"
        "app_isRepeating (ap_metas a3 ! b) \<longleftrightarrow> cr_settings rq = None"
      using a3 by (auto simp: createMetaStreamBuffer_def Let_def app_setRepeating_def app_isRepeating_def AppMeta_Allocator_def
          AppMetaStreamBuffer_copy_def StreamBufferImp.extend_def)
    have st: "image_streamId a3 = image_streamId a2" "stream_id_of a3 = stream_id_of a2" "made_of a3 = made_of a2"
      using im by (simp_all add: image_streamId_def stream_id_of_def made_of_def fun_eq_iff)
    then have "filed n a3 = filed n a2" for n by (simp add: filed_def fun_eq_iff)
    moreover have "request_ok r a3" unfolding request_ok_def st r using r2 buffers_ok_distinct [of a2] by simp
    ultimately show ?thesis using r2 ne s True r m' bb ok by (simp add: rq outs)
  qed
qed

definition ex_env :: "IMetadata app_env" where
  "ex_env = \<lparr>env_static = ex_table, env_convert = Pair True, env_convert_back = Pair True,
     env_gralloc = (\<lambda>usage format w h. (OK, HAL_PIXEL_FORMAT_YV12, [])), env_format_name = (\<lambda>_. ''YV12''),
     env_usage_name = (\<lambda>_. ''encoder''), env_run = OK, env_query_handle = (\<lambda>_. OK), env_onCreate = (\<lambda>_. True),
     env_jpeg = (\<lambda>_. (0, False, 0))\<rparr>"

definition ex_configured :: "mk AppStreamMgr" where
  "ex_configured = snd (the (configureStreams ex_env (Some (Some [Some 0]))
     (the (AppStreamMgr_new ex_env False [ex_stream CAMERA3_STREAM_OUTPUT 0x23 0] []))))"

definition ex_output :: camera3_stream_buffer where
  "ex_output = \<lparr>sb_stream = Some 0, sb_buffer = Some 3, sb_handle = Some 4, sb_status = 0,
     sb_acquire_fence = - 1, sb_release_fence = - 1\<rparr>"

definition ex_capture :: "IMetadata camera3_capture_request" where
  "ex_capture = \<lparr>cr_frame_number = 7, cr_settings = Some ex_table, cr_input_buffer = None,
     cr_output_buffers = Some [ex_output]\<rparr>"

theorem createRequest_result_witness:
  "(case createRequest ex_env (Some ex_capture) Request_new ex_configured of
      Some (err, r, m') \<Rightarrow> err = OK \<and> rq_frameNo r = 7 \<and> mg_mLatestSettings m' = ex_table \<and>
        (case map_of (rq_vOutputImageBuffers r) 1 of None \<Rightarrow> False | Some b \<Rightarrow> made_of (mg_mFrameHandler m') ex_output b)
    | None \<Rightarrow> False)"
proof -
  have e: "(case createRequest ex_env (Some ex_capture) Request_new ex_configured of None \<Rightarrow> False
      | Some (err, r, m') \<Rightarrow> stream_id_of (mg_mFrameHandler m') ex_output = Some 1)" by code_simp
  then obtain err r m' where c: "createRequest ex_env (Some ex_capture) Request_new ex_configured = Some (err, r, m')"
      and k: "stream_id_of (mg_mFrameHandler m') ex_output = Some 1" by (auto split: option.splits)
  have a: "err = OK" "rq_frameNo r = 7" "mg_mLatestSettings m' = ex_table"
      and f: "filed (length (ap_images (mg_mFrameHandler ex_configured))) (mg_mFrameHandler m') (rq_vOutputImageBuffers r) [ex_output]"
    using createRequest_result [OF c] by (simp_all add: ex_capture_def ex_env_def)
  from f [unfolded filed_def, rule_format, of 1] have "case map_of (rq_vOutputImageBuffers r) 1 of None \<Rightarrow> False | Some b \<Rightarrow> made_of (mg_mFrameHandler m') ex_output b"
    by (auto simp: k option_rel_Some1)
  then show ?thesis unfolding c using a by simp
qed

end
