(* ===== verification/AppRunProps.thy ===== *)
theory AppRunProps
  imports AppManagerProps
begin

unbundle bit_operations_syntax

text \<open>
  Properties of histories of the frame handler: every image comes back once, an error of a
  frame whose image was given back before is a fault; and, as an example, the final metadata of a frame can
  overtake that of an earlier one.
\<close>

section \<open>Every image is returned once\<close>

text \<open>Runs whose calls keep to the rules are histories. The rules are tested along the run.\<close>

definition call_ok :: "app_call \<Rightarrow> 'k App \<Rightarrow> 'k App \<Rightarrow> bool" where
  "call_ok c a a' = (case c of
     RegisterFrame r \<Rightarrow> request_ok r a
   | Results rv \<Rightarrow> True
   | Callbacks \<Rightarrow> True
   | _ \<Rightarrow> list_all (\<lambda>i. item_stream a' i = item_stream a i) [0..<length (ap_items a)])"

fun calls_ok :: "'k sync_kernel \<Rightarrow> app_call list \<Rightarrow> CallbackParcel list \<times> 'k App \<Rightarrow> bool" where
  "calls_ok K [] st \<longleftrightarrow> True"
| "calls_ok K (c # cs) st \<longleftrightarrow> (case do_call K c st of None \<Rightarrow> True | Some st' \<Rightarrow> call_ok c (snd st) (snd st') \<and> calls_ok K cs st')"

lemma outside_edits:
  "list_all (\<lambda>i. item_stream a' i = item_stream a i) [0..<length (ap_items a)] \<Longrightarrow>
   a' = a\<lparr>ap_images := bs\<rparr> \<or> a' = a\<lparr>ap_metas := ms\<rparr> \<Longrightarrow> outside_step a a'"
  by (auto simp: outside_step_def list_all_iff)

lemma do_call_reach:
  assumes "app_reach K h a" and "do_call K c (h, a) = Some (h', a')" and "call_ok c a a'"
  shows "app_reach K h' a'"
proof (cases c)
  case (RegisterFrame r)
  then show ?thesis using assms by (auto simp: call_ok_def intro: app_reach.register)
next
  case (Results rv)
  then show ?thesis using assms by (auto intro: app_reach.results)
next
  case Callbacks
  then show ?thesis using assms by (auto intro: app_reach.callbacks)
next
  case (NewImage b)
  then have "outside_step a a'" "h' = h" using assms by (auto simp: call_ok_def intro!: outside_edits)
  then show ?thesis using assms(1) by (simp add: app_reach.outside)
next
  case (NewMeta b)
  then have "outside_step a a'" "h' = h" using assms by (auto simp: call_ok_def intro!: outside_edits)
  then show ?thesis using assms(1) by (simp add: app_reach.outside)
next
  case (MarkImage b u m)
  then have "outside_step a a'" "h' = h" using assms by (auto simp: call_ok_def edit_image_def intro!: outside_edits)
  then show ?thesis using assms(1) by (simp add: app_reach.outside)
next
  case (MarkMeta b u m)
  then have "outside_step a a'" "h' = h" using assms by (auto simp: call_ok_def edit_meta_def intro!: outside_edits)
  then show ?thesis using assms(1) by (simp add: app_reach.outside)
qed

lemma do_calls_reach:
  "app_reach K h a \<Longrightarrow> do_calls K cs (h, a) = Some (h', a') \<Longrightarrow> calls_ok K cs (h, a) \<Longrightarrow> app_reach K h' a'"
proof (induction cs arbitrary: h a)
  case (Cons c cs)
  then obtain h1 a1 where 1: "do_call K c (h, a) = Some (h1, a1)" by (auto simp: bind_eq_Some_conv)
  then have "app_reach K h1 a1" using Cons.prems by (auto intro: do_call_reach)
  with Cons 1 show ?case by auto
qed simp

lemma ex_app_reach: "app_reach K [] ex_app"
  unfolding ex_app_def
proof (rule app_reach.config_image)
  have "FrameHandler_new ex_static False [] [] = Some (the (FrameHandler_new ex_static False [] ([] :: mk)))" by code_simp
  then show "app_reach K [] (the (FrameHandler_new ex_static False [] []))" by (rule app_reach.new)
  show "queue_of (the (FrameHandler_new ex_static False [] ([] :: mk))) (ci_getStreamId ex_info) = None" by code_simp
qed

text \<open>C6: in every history, in any order of requests, results, callbacks and changes of the buffers
  by other threads, a buffer has been given back to the client exactly as often as items with
  it are marked as returned, so no item is returned twice; and a frame has only left the queue
  when all its images, outputs and inputs, have been returned.\<close>

theorem image_returned_once:
  assumes "app_reach K h a"
  shows "count (sent_all h) b = card {i. i < length (ap_items a) \<and> returned a i \<and> ii_buffer (ap_items a ! i) = b} \<and>
    (i < length (ap_items a) \<and> ii_pFrame (ap_items a ! i) \<notin> set (ap_mFrameQueue a) \<longrightarrow> returned a i)"
proof -
  note inv = app_reach_inv [OF assms]
  have "count (ret_mset a) b = card {i \<in> {i. i < length (ap_items a) \<and> returned a i}. ii_buffer (ap_items a ! i) = b}"
    unfolding ret_mset_def by (subst count_image_mset) (auto simp: Int_def vimage_def conj_commute intro!: arg_cong [of _ _ card])
  then show ?thesis using inv by (auto simp: img_inv_def frames_inv_def conj_assoc)
qed

definition ex_calls :: "app_call list" where
  "ex_calls = [NewImage (ex_image 5), NewMeta (ex_metabuf 20 ex_timestamp), RegisterFrame (ex_request 1 [(5, 0)]),
     MarkImage 0 1 (USED OR RELEASE), MarkMeta 0 1 (USED OR RELEASE), Results (ex_result 1 [0] True), Callbacks]"

theorem image_returned_once_witness:
  "(case do_calls mk_kernel ex_calls ([], ex_app) of None \<Rightarrow> False | Some (h, a) \<Rightarrow> count (sent_all h) 0 = 1)"
proof -
  have e: "(case do_calls mk_kernel ex_calls ([], ex_app) of None \<Rightarrow> False | Some (h, a) \<Rightarrow>
      length (ap_items a) = 1 \<and> returned a 0 \<and> ii_buffer (ap_items a ! 0) = 0)"
      and ok: "calls_ok mk_kernel ex_calls ([], ex_app)" by code_simp+
  then obtain h a where d: "do_calls mk_kernel ex_calls ([], ex_app) = Some (h, a)"
      and a: "length (ap_items a) = 1" "returned a 0" "ii_buffer (ap_items a ! 0) = 0" by (auto split: option.splits)
  have "{i. i < length (ap_items a) \<and> returned a i \<and> ii_buffer (ap_items a ! i) = 0} = {0}" using a by auto
  with image_returned_once [OF do_calls_reach [OF ex_app_reach d ok], of 0] show ?thesis unfolding d by simp
qed

section \<open>The final metadata of a frame\<close>

text \<open>
  Frame 1 has one metadata result, still in use; the final result of frame 2 is complete and can
  be given back before that of frame 1.
\<close>

definition ex_overtake :: "app_call list" where
  "ex_overtake = [NewMeta (ex_metabuf 20 ex_timestamp), NewMeta (ex_metabuf 20 ex_timestamp),
     RegisterFrame (ex_request 1 []), RegisterFrame (ex_request 2 []), Results (ex_result 1 [0] False),
     MarkMeta 1 1 (USED OR RELEASE), Results (ex_result 2 [1] True)]"

lemma final_meta_overtakes:
  "(case do_calls mk_kernel ex_overtake ([], ex_app) of None \<Rightarrow> False | Some (h, a) \<Rightarrow>
      let it = the (snd (last (ms_items (fp_vOutputMetaItem (ap_frames a ! 1))))) in
      ap_mFrameQueue a = [0, 1] \<and> mi_pFrame it = 1 \<and> unat (mi_bufferNo it) = ap_mAtMostMetaStreamCount a \<and>
      \<not> ms_hasLastPartial (fp_vOutputMetaItem (ap_frames a ! 0)) \<and> isReturnable_meta it a = Some True)"
  by code_simp

section \<open>An error after an image was given back\<close>

lemma return_images_None: "None \<in> set is \<Longrightarrow> return_images is st = None"
proof (induction "is" arbitrary: st)
  case (Cons i js)
  show ?case
  proof (cases i)
    case (Some j)
    then show ?thesis using Cons by (cases "prepareReturnImage j st") simp_all
  qed simp
qed simp

text \<open>C31: when a frame turns out to be an error of the whole request and one of its output images has
  already been given back and left its set, preparing the callbacks is a fault: the code uses the
  item that is no longer there.\<close>

theorem error_frame_faults:
  assumes "checkRequestError (ap_frames a ! f) > 0" and "(k, None) \<in> set (is_items (fp_vOutputImageItem (ap_frames a ! f)))"
  shows "frame_callbacks f a = None"
proof -
  have "None \<in> set (map snd (is_items (fp_vOutputImageItem (ap_frames a ! f))))" using assms(2) by force
  then show ?thesis using assms(1) by (simp add: frame_callbacks_def prepareErrorFrame_def return_images_None Let_def)
qed

text \<open>
  An image is given back when its producer has pre-released it, then the producer releases it
  unused and so marks an error, then the metadata of the frame ends with an error.
\<close>

definition ex_fault :: "app_call list" where
  "ex_fault = [NewImage (ex_image 5), NewMeta (ex_metabuf 20 ex_timestamp), RegisterFrame (ex_request 1 [(5, 0)]),
     MarkImage 0 1 PRE_RELEASE, Results (ex_result 1 [] False), Callbacks,
     MarkImage 0 1 RELEASE, Results (ex_result 1 [] False), Callbacks, MarkMeta 0 1 RELEASE, Results (ex_result 1 [0] True)]"

theorem error_frame_faults_witness:
  "(case do_calls mk_kernel ex_fault ([], ex_app) of None \<Rightarrow> False | Some (h, a) \<Rightarrow> frame_callbacks 0 a = None)"
proof -
  have "(case do_calls mk_kernel ex_fault ([], ex_app) of None \<Rightarrow> False | Some (h, a) \<Rightarrow>
      checkRequestError (ap_frames a ! 0) > 0 \<and> is_items (fp_vOutputImageItem (ap_frames a ! 0)) = [(5, None)])" by code_simp
  then obtain h a where d: "do_calls mk_kernel ex_fault ([], ex_app) = Some (h, a)"
      and a: "checkRequestError (ap_frames a ! 0) > 0" "is_items (fp_vOutputImageItem (ap_frames a ! 0)) = [(5, None)]"
    by (auto split: option.splits)
  from error_frame_faults [OF a(1), of 5] show ?thesis using a(2) d by simp
qed

end
