(* ===== verification/ImageFormat.thy ===== *)
theory ImageFormat
  imports Metadata
begin

text \<open>
  The image formats of the pipeline's buffers (\<open>utils/std/Format.cpp\<close>): how many planes an image
  of a format has, and how wide, how high and how deep each of them is. Sizes are words of
  64 bits as \<open>size_t\<close> is. The numbers of the formats below 0x200 and of the YUV formats with a
  four-character code are those of the Android graphics library.
\<close>

type_synonym size_t = "64 word"

abbreviation (input) eImgFmt_RAW16 :: int where "eImgFmt_RAW16 \<equiv> 0x20"
abbreviation (input) eImgFmt_RAW_OPAQUE :: int where "eImgFmt_RAW_OPAQUE \<equiv> 0x24"
abbreviation (input) eImgFmt_BLOB :: int where "eImgFmt_BLOB \<equiv> 0x21"
abbreviation (input) eImgFmt_RGBA8888 :: int where "eImgFmt_RGBA8888 \<equiv> 1"
abbreviation (input) eImgFmt_RGBX8888 :: int where "eImgFmt_RGBX8888 \<equiv> 2"
abbreviation (input) eImgFmt_RGB888 :: int where "eImgFmt_RGB888 \<equiv> 3"
abbreviation (input) eImgFmt_RGB565 :: int where "eImgFmt_RGB565 \<equiv> 4"
abbreviation (input) eImgFmt_BGRA8888 :: int where "eImgFmt_BGRA8888 \<equiv> 5"
abbreviation (input) eImgFmt_YUY2 :: int where "eImgFmt_YUY2 \<equiv> 0x14"
abbreviation (input) eImgFmt_NV16 :: int where "eImgFmt_NV16 \<equiv> 0x10"
abbreviation (input) eImgFmt_NV21 :: int where "eImgFmt_NV21 \<equiv> 0x11"
abbreviation (input) eImgFmt_YV12 :: int where "eImgFmt_YV12 \<equiv> 0x32315659"
abbreviation (input) eImgFmt_Y8 :: int where "eImgFmt_Y8 \<equiv> 0x20203859"
abbreviation (input) eImgFmt_Y16 :: int where "eImgFmt_Y16 \<equiv> 0x20363159"
abbreviation (input) eImgFmt_CAMERA_OPAQUE :: int where "eImgFmt_CAMERA_OPAQUE \<equiv> 0x111"
abbreviation (input) eImgFmt_YVYU :: int where "eImgFmt_YVYU \<equiv> 0x201"
abbreviation (input) eImgFmt_UYVY :: int where "eImgFmt_UYVY \<equiv> 0x202"
abbreviation (input) eImgFmt_VYUY :: int where "eImgFmt_VYUY \<equiv> 0x203"
abbreviation (input) eImgFmt_NV61 :: int where "eImgFmt_NV61 \<equiv> 0x204"
abbreviation (input) eImgFmt_NV12 :: int where "eImgFmt_NV12 \<equiv> 0x205"
abbreviation (input) eImgFmt_NV12_BLK :: int where "eImgFmt_NV12_BLK \<equiv> 0x206"
abbreviation (input) eImgFmt_NV21_BLK :: int where "eImgFmt_NV21_BLK \<equiv> 0x207"
abbreviation (input) eImgFmt_YV16 :: int where "eImgFmt_YV16 \<equiv> 0x208"
abbreviation (input) eImgFmt_I420 :: int where "eImgFmt_I420 \<equiv> 0x209"
abbreviation (input) eImgFmt_I422 :: int where "eImgFmt_I422 \<equiv> 0x20a"
abbreviation (input) eImgFmt_ARGB8888 :: int where "eImgFmt_ARGB8888 \<equiv> 0x20b"
abbreviation (input) eImgFmt_BAYER8 :: int where "eImgFmt_BAYER8 \<equiv> 0x20c"
abbreviation (input) eImgFmt_BAYER10 :: int where "eImgFmt_BAYER10 \<equiv> 0x20d"
abbreviation (input) eImgFmt_BAYER12 :: int where "eImgFmt_BAYER12 \<equiv> 0x20e"
abbreviation (input) eImgFmt_FG_BAYER8 :: int where "eImgFmt_FG_BAYER8 \<equiv> 0x210"
abbreviation (input) eImgFmt_FG_BAYER10 :: int where "eImgFmt_FG_BAYER10 \<equiv> 0x211"
abbreviation (input) eImgFmt_FG_BAYER12 :: int where "eImgFmt_FG_BAYER12 \<equiv> 0x212"
abbreviation (input) eImgFmt_FG_BAYER14 :: int where "eImgFmt_FG_BAYER14 \<equiv> 0x213"
abbreviation (input) eImgFmt_UFO_FG :: int where "eImgFmt_UFO_FG \<equiv> 0x217"
abbreviation (input) eImgFmt_BAYER10_MIPI :: int where "eImgFmt_BAYER10_MIPI \<equiv> 0x218"
abbreviation (input) eImgFmt_BAYER8_UNPAK :: int where "eImgFmt_BAYER8_UNPAK \<equiv> 0x219"
abbreviation (input) eImgFmt_BAYER10_UNPAK :: int where "eImgFmt_BAYER10_UNPAK \<equiv> 0x21a"
abbreviation (input) eImgFmt_BAYER12_UNPAK :: int where "eImgFmt_BAYER12_UNPAK \<equiv> 0x21b"
abbreviation (input) eImgFmt_BAYER14_UNPAK :: int where "eImgFmt_BAYER14_UNPAK \<equiv> 0x21c"
abbreviation (input) eImgFmt_JPEG :: int where "eImgFmt_JPEG \<equiv> 0x21d"
abbreviation (input) eImgFmt_RGB48 :: int where "eImgFmt_RGB48 \<equiv> 0x220"
abbreviation (input) eImgFmt_STA_BYTE :: int where "eImgFmt_STA_BYTE \<equiv> 0x221"
abbreviation (input) eImgFmt_STA_2BYTE :: int where "eImgFmt_STA_2BYTE \<equiv> 0x222"

section \<open>The classes of formats\<close>

text \<open>The three classes differ in how a plane is smaller than the image.\<close>

datatype plane_shape = Shape_1Plane | Shape_YUV420 | Shape_YUV422

record CBaseImgFmt =
  fm_ms8Name :: string
  fm_meImageFormat :: int
  fm_mPlaneCount :: nat
  fm_mImageBitsPerPixel :: nat
  fm_mPlaneBitsPerPixel :: "nat list"
  fm_shape :: plane_shape

definition CBaseImgFmt_1Plane :: "string \<Rightarrow> int \<Rightarrow> nat \<Rightarrow> CBaseImgFmt" where
  "CBaseImgFmt_1Plane szName eImageFormat imageBitsPerPixel = \<lparr>fm_ms8Name = szName, fm_meImageFormat = eImageFormat,
     fm_mPlaneCount = 1, fm_mImageBitsPerPixel = imageBitsPerPixel, fm_mPlaneBitsPerPixel = [imageBitsPerPixel, 0, 0],
     fm_shape = Shape_1Plane\<rparr>"

definition CBaseImgFmt_YUV420_2_3_Plane :: "string \<Rightarrow> int \<Rightarrow> nat \<Rightarrow> nat \<Rightarrow> nat \<Rightarrow> nat \<Rightarrow> CBaseImgFmt" where
  "CBaseImgFmt_YUV420_2_3_Plane szName eImageFormat planeCount b0 b1 b2 = \<lparr>fm_ms8Name = szName,
     fm_meImageFormat = eImageFormat, fm_mPlaneCount = planeCount, fm_mImageBitsPerPixel = 12,
     fm_mPlaneBitsPerPixel = [b0, b1, b2], fm_shape = Shape_YUV420\<rparr>"

definition CBaseImgFmt_YUV422_2_3_Plane :: "string \<Rightarrow> int \<Rightarrow> nat \<Rightarrow> nat \<Rightarrow> nat \<Rightarrow> nat \<Rightarrow> CBaseImgFmt" where
  "CBaseImgFmt_YUV422_2_3_Plane szName eImageFormat planeCount b0 b1 b2 = \<lparr>fm_ms8Name = szName,
     fm_meImageFormat = eImageFormat, fm_mPlaneCount = planeCount, fm_mImageBitsPerPixel = 16,
     fm_mPlaneBitsPerPixel = [b0, b1, b2], fm_shape = Shape_YUV422\<rparr>"

fun getPlaneWidthInPixels :: "plane_shape \<Rightarrow> nat \<Rightarrow> size_t \<Rightarrow> size_t" where
  "getPlaneWidthInPixels Shape_1Plane planeIndex widthInPixels = widthInPixels"
| "getPlaneWidthInPixels Shape_YUV420 planeIndex widthInPixels =
     (if planeIndex = 0 then widthInPixels else drop_bit 1 widthInPixels)"
| "getPlaneWidthInPixels Shape_YUV422 planeIndex widthInPixels =
     (if planeIndex = 0 then widthInPixels else drop_bit 1 widthInPixels)"

fun getPlaneHeightInPixels :: "plane_shape \<Rightarrow> nat \<Rightarrow> size_t \<Rightarrow> size_t" where
  "getPlaneHeightInPixels Shape_1Plane planeIndex heightInPixels = heightInPixels"
| "getPlaneHeightInPixels Shape_YUV420 planeIndex heightInPixels =
     (if planeIndex = 0 then heightInPixels else drop_bit 1 heightInPixels)"
| "getPlaneHeightInPixels Shape_YUV422 planeIndex heightInPixels = heightInPixels"

section \<open>The map of formats\<close>

definition mvMapper :: "(int, CBaseImgFmt) kvec" where
  "mvMapper = fold (\<lambda>(k, p). kv_add k p)
    [(eImgFmt_YV12, CBaseImgFmt_YUV420_2_3_Plane ''YV12'' eImgFmt_YV12 3 8 8 8),
     (eImgFmt_I420, CBaseImgFmt_YUV420_2_3_Plane ''I420'' eImgFmt_I420 3 8 8 8),
     (eImgFmt_NV21, CBaseImgFmt_YUV420_2_3_Plane ''NV21'' eImgFmt_NV21 2 8 16 0),
     (eImgFmt_NV12, CBaseImgFmt_YUV420_2_3_Plane ''NV12'' eImgFmt_NV12 2 8 16 0),
     (eImgFmt_NV12_BLK, CBaseImgFmt_YUV420_2_3_Plane ''NV12_BLK'' eImgFmt_NV12_BLK 2 8 16 0),
     (eImgFmt_NV21_BLK, CBaseImgFmt_YUV420_2_3_Plane ''NV21_BLK'' eImgFmt_NV21_BLK 2 8 16 0),
     (eImgFmt_YV16, CBaseImgFmt_YUV422_2_3_Plane ''YV16'' eImgFmt_YV16 3 8 8 8),
     (eImgFmt_NV61, CBaseImgFmt_YUV422_2_3_Plane ''NV61'' eImgFmt_NV61 2 8 16 0),
     (eImgFmt_NV16, CBaseImgFmt_YUV422_2_3_Plane ''NV16'' eImgFmt_NV16 2 8 16 0),
     (eImgFmt_I422, CBaseImgFmt_YUV422_2_3_Plane ''I422'' eImgFmt_I422 3 8 8 8),
     (eImgFmt_YUY2, CBaseImgFmt_1Plane ''YUY2'' eImgFmt_YUY2 16),
     (eImgFmt_YVYU, CBaseImgFmt_1Plane ''YVYU'' eImgFmt_YVYU 16),
     (eImgFmt_UYVY, CBaseImgFmt_1Plane ''UYVY'' eImgFmt_UYVY 16),
     (eImgFmt_VYUY, CBaseImgFmt_1Plane ''VYUY'' eImgFmt_VYUY 16),
     (eImgFmt_Y16, CBaseImgFmt_1Plane ''Y16'' eImgFmt_Y16 16),
     (eImgFmt_Y8, CBaseImgFmt_1Plane ''Y8'' eImgFmt_Y8 8),
     (eImgFmt_RGB565, CBaseImgFmt_1Plane ''RGB565'' eImgFmt_RGB565 16),
     (eImgFmt_RGB888, CBaseImgFmt_1Plane ''RGB888'' eImgFmt_RGB888 24),
     (eImgFmt_RGBA8888, CBaseImgFmt_1Plane ''RGBA8888'' eImgFmt_RGBA8888 32),
     (eImgFmt_RGBX8888, CBaseImgFmt_1Plane ''RGBX8888'' eImgFmt_RGBX8888 32),
     (eImgFmt_BGRA8888, CBaseImgFmt_1Plane ''BGRA8888'' eImgFmt_BGRA8888 32),
     (eImgFmt_ARGB8888, CBaseImgFmt_1Plane ''ARGB8888'' eImgFmt_ARGB8888 32),
     (eImgFmt_RGB48, CBaseImgFmt_1Plane ''RGB48'' eImgFmt_RGB48 48),
     (eImgFmt_BLOB, CBaseImgFmt_1Plane ''BLOB'' eImgFmt_BLOB 8),
     (eImgFmt_JPEG, CBaseImgFmt_1Plane ''JPEG'' eImgFmt_JPEG 8),
     (eImgFmt_BAYER8, CBaseImgFmt_1Plane ''BAYER8'' eImgFmt_BAYER8 8),
     (eImgFmt_BAYER10, CBaseImgFmt_1Plane ''BAYER10'' eImgFmt_BAYER10 10),
     (eImgFmt_BAYER12, CBaseImgFmt_1Plane ''BAYER12'' eImgFmt_BAYER12 12),
     (eImgFmt_RAW16, CBaseImgFmt_1Plane ''RAW16'' eImgFmt_RAW16 16),
     (eImgFmt_FG_BAYER8, CBaseImgFmt_1Plane ''FG_BAYER8'' eImgFmt_FG_BAYER8 12),
     (eImgFmt_FG_BAYER10, CBaseImgFmt_1Plane ''FG_BAYER10'' eImgFmt_FG_BAYER10 15),
     (eImgFmt_FG_BAYER12, CBaseImgFmt_1Plane ''FG_BAYER12'' eImgFmt_FG_BAYER12 18),
     (eImgFmt_FG_BAYER14, CBaseImgFmt_1Plane ''FG_BAYER14'' eImgFmt_FG_BAYER14 21),
     (eImgFmt_BAYER8_UNPAK, CBaseImgFmt_1Plane ''BAYER8_UNPAK'' eImgFmt_BAYER8_UNPAK 16),
     (eImgFmt_BAYER10_UNPAK, CBaseImgFmt_1Plane ''BAYER10_UNPAK'' eImgFmt_BAYER10_UNPAK 16),
     (eImgFmt_BAYER12_UNPAK, CBaseImgFmt_1Plane ''BAYER12_UNPAK'' eImgFmt_BAYER12_UNPAK 16),
     (eImgFmt_BAYER14_UNPAK, CBaseImgFmt_1Plane ''BAYER14_UNPAK'' eImgFmt_BAYER14_UNPAK 16),
     (eImgFmt_STA_BYTE, CBaseImgFmt_1Plane ''STA_BYTE'' eImgFmt_STA_BYTE 8),
     (eImgFmt_STA_2BYTE, CBaseImgFmt_1Plane ''STA_2BYTE'' eImgFmt_STA_2BYTE 16),
     (eImgFmt_CAMERA_OPAQUE, CBaseImgFmt_1Plane ''CAMERA_OPAQUE'' eImgFmt_CAMERA_OPAQUE 10),
     (eImgFmt_UFO_FG, CBaseImgFmt_1Plane ''UFO_FG'' eImgFmt_UFO_FG 8),
     (eImgFmt_BAYER10_MIPI, CBaseImgFmt_1Plane ''BAYER10_MIPI'' eImgFmt_BAYER10_MIPI 10)] []"

definition mapper_valueFor :: "int \<Rightarrow> CBaseImgFmt option" where
  "mapper_valueFor imageFormat = map_of mvMapper imageFormat"

text \<open>The look-up as a chain of comparisons, which is quicker to evaluate than the map.\<close>

lemma mapper_valueFor_chain [code]: "mapper_valueFor imageFormat = (
   if imageFormat = eImgFmt_BAYER10_MIPI then Some (CBaseImgFmt_1Plane ''BAYER10_MIPI'' eImgFmt_BAYER10_MIPI 10)
   else if imageFormat = eImgFmt_UFO_FG then Some (CBaseImgFmt_1Plane ''UFO_FG'' eImgFmt_UFO_FG 8)
   else if imageFormat = eImgFmt_CAMERA_OPAQUE then Some (CBaseImgFmt_1Plane ''CAMERA_OPAQUE'' eImgFmt_CAMERA_OPAQUE 10)
   else if imageFormat = eImgFmt_STA_2BYTE then Some (CBaseImgFmt_1Plane ''STA_2BYTE'' eImgFmt_STA_2BYTE 16)
   else if imageFormat = eImgFmt_STA_BYTE then Some (CBaseImgFmt_1Plane ''STA_BYTE'' eImgFmt_STA_BYTE 8)
   else if imageFormat = eImgFmt_BAYER14_UNPAK then Some (CBaseImgFmt_1Plane ''BAYER14_UNPAK'' eImgFmt_BAYER14_UNPAK 16)
   else if imageFormat = eImgFmt_BAYER12_UNPAK then Some (CBaseImgFmt_1Plane ''BAYER12_UNPAK'' eImgFmt_BAYER12_UNPAK 16)
   else if imageFormat = eImgFmt_BAYER10_UNPAK then Some (CBaseImgFmt_1Plane ''BAYER10_UNPAK'' eImgFmt_BAYER10_UNPAK 16)
   else if imageFormat = eImgFmt_BAYER8_UNPAK then Some (CBaseImgFmt_1Plane ''BAYER8_UNPAK'' eImgFmt_BAYER8_UNPAK 16)
   else if imageFormat = eImgFmt_FG_BAYER14 then Some (CBaseImgFmt_1Plane ''FG_BAYER14'' eImgFmt_FG_BAYER14 21)
   else if imageFormat = eImgFmt_FG_BAYER12 then Some (CBaseImgFmt_1Plane ''FG_BAYER12'' eImgFmt_FG_BAYER12 18)
   else if imageFormat = eImgFmt_FG_BAYER10 then Some (CBaseImgFmt_1Plane ''FG_BAYER10'' eImgFmt_FG_BAYER10 15)
   else if imageFormat = eImgFmt_FG_BAYER8 then Some (CBaseImgFmt_1Plane ''FG_BAYER8'' eImgFmt_FG_BAYER8 12)
   else if imageFormat = eImgFmt_RAW16 then Some (CBaseImgFmt_1Plane ''RAW16'' eImgFmt_RAW16 16)
   else if imageFormat = eImgFmt_BAYER12 then Some (CBaseImgFmt_1Plane ''BAYER12'' eImgFmt_BAYER12 12)
   else if imageFormat = eImgFmt_BAYER10 then Some (CBaseImgFmt_1Plane ''BAYER10'' eImgFmt_BAYER10 10)
   else if imageFormat = eImgFmt_BAYER8 then Some (CBaseImgFmt_1Plane ''BAYER8'' eImgFmt_BAYER8 8)
   else if imageFormat = eImgFmt_JPEG then Some (CBaseImgFmt_1Plane ''JPEG'' eImgFmt_JPEG 8)
   else if imageFormat = eImgFmt_BLOB then Some (CBaseImgFmt_1Plane ''BLOB'' eImgFmt_BLOB 8)
   else if imageFormat = eImgFmt_RGB48 then Some (CBaseImgFmt_1Plane ''RGB48'' eImgFmt_RGB48 48)
   else if imageFormat = eImgFmt_ARGB8888 then Some (CBaseImgFmt_1Plane ''ARGB8888'' eImgFmt_ARGB8888 32)
   else if imageFormat = eImgFmt_BGRA8888 then Some (CBaseImgFmt_1Plane ''BGRA8888'' eImgFmt_BGRA8888 32)
   else if imageFormat = eImgFmt_RGBX8888 then Some (CBaseImgFmt_1Plane ''RGBX8888'' eImgFmt_RGBX8888 32)
   else if imageFormat = eImgFmt_RGBA8888 then Some (CBaseImgFmt_1Plane ''RGBA8888'' eImgFmt_RGBA8888 32)
   else if imageFormat = eImgFmt_RGB888 then Some (CBaseImgFmt_1Plane ''RGB888'' eImgFmt_RGB888 24)
   else if imageFormat = eImgFmt_RGB565 then Some (CBaseImgFmt_1Plane ''RGB565'' eImgFmt_RGB565 16)
   else if imageFormat = eImgFmt_Y8 then Some (CBaseImgFmt_1Plane ''Y8'' eImgFmt_Y8 8)
   else if imageFormat = eImgFmt_Y16 then Some (CBaseImgFmt_1Plane ''Y16'' eImgFmt_Y16 16)
   else if imageFormat = eImgFmt_VYUY then Some (CBaseImgFmt_1Plane ''VYUY'' eImgFmt_VYUY 16)
   else if imageFormat = eImgFmt_UYVY then Some (CBaseImgFmt_1Plane ''UYVY'' eImgFmt_UYVY 16)
   else if imageFormat = eImgFmt_YVYU then Some (CBaseImgFmt_1Plane ''YVYU'' eImgFmt_YVYU 16)
   else if imageFormat = eImgFmt_YUY2 then Some (CBaseImgFmt_1Plane ''YUY2'' eImgFmt_YUY2 16)
   else if imageFormat = eImgFmt_I422 then Some (CBaseImgFmt_YUV422_2_3_Plane ''I422'' eImgFmt_I422 3 8 8 8)
   else if imageFormat = eImgFmt_NV16 then Some (CBaseImgFmt_YUV422_2_3_Plane ''NV16'' eImgFmt_NV16 2 8 16 0)
   else if imageFormat = eImgFmt_NV61 then Some (CBaseImgFmt_YUV422_2_3_Plane ''NV61'' eImgFmt_NV61 2 8 16 0)
   else if imageFormat = eImgFmt_YV16 then Some (CBaseImgFmt_YUV422_2_3_Plane ''YV16'' eImgFmt_YV16 3 8 8 8)
   else if imageFormat = eImgFmt_NV21_BLK then Some (CBaseImgFmt_YUV420_2_3_Plane ''NV21_BLK'' eImgFmt_NV21_BLK 2 8 16 0)
   else if imageFormat = eImgFmt_NV12_BLK then Some (CBaseImgFmt_YUV420_2_3_Plane ''NV12_BLK'' eImgFmt_NV12_BLK 2 8 16 0)
   else if imageFormat = eImgFmt_NV12 then Some (CBaseImgFmt_YUV420_2_3_Plane ''NV12'' eImgFmt_NV12 2 8 16 0)
   else if imageFormat = eImgFmt_NV21 then Some (CBaseImgFmt_YUV420_2_3_Plane ''NV21'' eImgFmt_NV21 2 8 16 0)
   else if imageFormat = eImgFmt_I420 then Some (CBaseImgFmt_YUV420_2_3_Plane ''I420'' eImgFmt_I420 3 8 8 8)
   else if imageFormat = eImgFmt_YV12 then Some (CBaseImgFmt_YUV420_2_3_Plane ''YV12'' eImgFmt_YV12 3 8 8 8)
   else None)"
  unfolding mapper_valueFor_def mvMapper_def fold.simps comp_apply id_apply prod.case kv_get_add fun_upd_apply map_of.simps ..

definition checkValidFormat :: "int \<Rightarrow> bool" where
  "checkValidFormat imageFormat \<longleftrightarrow> mapper_valueFor imageFormat \<noteq> None"

definition queryPlaneCount :: "int \<Rightarrow> nat" where
  "queryPlaneCount imageFormat = (case mapper_valueFor imageFormat of None \<Rightarrow> 0 | Some p \<Rightarrow> fm_mPlaneCount p)"

definition queryPlaneWidthInPixels :: "int \<Rightarrow> nat \<Rightarrow> size_t \<Rightarrow> size_t" where
  "queryPlaneWidthInPixels imageFormat planeIndex widthInPixels =
     (case mapper_valueFor imageFormat of None \<Rightarrow> 0
      | Some p \<Rightarrow> getPlaneWidthInPixels (fm_shape p) planeIndex widthInPixels)"

definition queryPlaneHeightInPixels :: "int \<Rightarrow> nat \<Rightarrow> size_t \<Rightarrow> size_t" where
  "queryPlaneHeightInPixels imageFormat planeIndex heightInPixels =
     (case mapper_valueFor imageFormat of None \<Rightarrow> 0
      | Some p \<Rightarrow> getPlaneHeightInPixels (fm_shape p) planeIndex heightInPixels)"

text \<open>The array of depths has three entries; a plane behind them is a fault.\<close>

definition queryPlaneBitsPerPixel :: "int \<Rightarrow> nat \<Rightarrow> nat option" where
  "queryPlaneBitsPerPixel imageFormat planeIndex =
     (case mapper_valueFor imageFormat of None \<Rightarrow> Some 0
      | Some p \<Rightarrow> if planeIndex < 3 then Some (fm_mPlaneBitsPerPixel p ! planeIndex) else None)"

definition queryImageBitsPerPixel :: "int \<Rightarrow> nat" where
  "queryImageBitsPerPixel imageFormat = (case mapper_valueFor imageFormat of None \<Rightarrow> 0 | Some p \<Rightarrow> fm_mImageBitsPerPixel p)"

section \<open>Facts on every format\<close>

definition format_ok :: "CBaseImgFmt \<Rightarrow> bool" where
  "format_ok p \<longleftrightarrow> length (fm_mPlaneBitsPerPixel p) = 3 \<and> fm_mPlaneCount p \<in> {1, 2, 3} \<and>
     list_all (\<lambda>b. 8 \<le> b \<and> b \<le> 48) (take (fm_mPlaneCount p) (fm_mPlaneBitsPerPixel p)) \<and>
     list_all (\<lambda>b. b = 0) (drop (fm_mPlaneCount p) (fm_mPlaneBitsPerPixel p)) \<and>
     (case fm_shape p of
        Shape_1Plane \<Rightarrow> fm_mPlaneCount p = 1 \<and> fm_mImageBitsPerPixel p = fm_mPlaneBitsPerPixel p ! 0
      | Shape_YUV420 \<Rightarrow> 4 * fm_mImageBitsPerPixel p =
          4 * fm_mPlaneBitsPerPixel p ! 0 + fm_mPlaneBitsPerPixel p ! 1 + fm_mPlaneBitsPerPixel p ! 2
      | Shape_YUV422 \<Rightarrow> 2 * fm_mImageBitsPerPixel p =
          2 * fm_mPlaneBitsPerPixel p ! 0 + fm_mPlaneBitsPerPixel p ! 1 + fm_mPlaneBitsPerPixel p ! 2)"

lemma mapper_ok: "mapper_valueFor f = Some p \<Longrightarrow> format_ok p"
proof -
  have "list_all (\<lambda>(k, p). format_ok p) mvMapper" by code_simp
  moreover assume "mapper_valueFor f = Some p"
  ultimately show ?thesis by (auto simp: mapper_valueFor_def list_all_iff dest!: map_of_SomeD)
qed

lemma mapper_count: "mapper_valueFor f = Some p \<Longrightarrow> fm_mPlaneCount p \<in> {1, 2, 3}"
  using mapper_ok [of f p] by (simp add: format_ok_def)

lemma queryPlaneCount_le: "queryPlaneCount f \<le> 3"
  by (auto simp: queryPlaneCount_def dest!: mapper_count split: option.splits)

lemma queryPlaneCount_pos: "checkValidFormat f \<longleftrightarrow> 0 < queryPlaneCount f"
  by (auto simp: queryPlaneCount_def checkValidFormat_def dest!: mapper_count split: option.splits)

lemma queryPlaneBitsPerPixel_range:
  assumes "i < queryPlaneCount f"
  obtains b where "queryPlaneBitsPerPixel f i = Some b" "8 \<le> b" "b \<le> 48"
proof -
  obtain p where p: "mapper_valueFor f = Some p" "i < fm_mPlaneCount p"
    using assms by (auto simp: queryPlaneCount_def split: option.splits)
  have "i < 3" using assms queryPlaneCount_le [of f] by simp
  moreover have "8 \<le> fm_mPlaneBitsPerPixel p ! i \<and> fm_mPlaneBitsPerPixel p ! i \<le> 48"
    using mapper_ok [OF p(1)] p(2) \<open>i < 3\<close> by (auto simp: format_ok_def list_all_length)
  ultimately show ?thesis using that p by (auto simp: queryPlaneBitsPerPixel_def)
qed

end
