(* ===== verification/ImageHeap.thy ===== *)
theory ImageHeap
  imports ImageFormat
begin

text \<open>
  The heap behind the image buffers (\<open>utils/imgbuf/BaseImageBufferHeap.cpp\<close>): the memory of the
  planes of an image, which is locked for access by software or hardware and counts its locks.

  A position behind the end of a vector is a fault, which is \<open>None\<close>, as is a division by zero and
  an assertion that fails.
  What a derived class does is \<open>heap_ops\<close>, its own data the parameter \<open>'i\<close> of the heap. \<open>ion_kernel\<close>
  is the memory driver, with an abstract state \<open>'k\<close>; \<open>Ion\<close> holds the descriptor of the driver
  and the count of its users, which all heaps share. The vector of plane information that the
  code hands to a derived class is that of the heap.
\<close>

unbundle bit_operations_syntax

abbreviation (input) eBUFFER_USAGE_SW_READ_MASK :: MUINT32 where "eBUFFER_USAGE_SW_READ_MASK \<equiv> 0xF"
abbreviation (input) eBUFFER_USAGE_SW_WRITE_MASK :: MUINT32 where "eBUFFER_USAGE_SW_WRITE_MASK \<equiv> 0xF0"
abbreviation (input) eBUFFER_USAGE_SW_WRITE_OFTEN :: MUINT32 where "eBUFFER_USAGE_SW_WRITE_OFTEN \<equiv> 0x30"
abbreviation (input) eBUFFER_USAGE_SW_MASK :: MUINT32 where "eBUFFER_USAGE_SW_MASK \<equiv> 0xFF"
abbreviation (input) eBUFFER_USAGE_HW_TEXTURE :: MUINT32 where "eBUFFER_USAGE_HW_TEXTURE \<equiv> 0x100"
abbreviation (input) eBUFFER_USAGE_HW_CAMERA_READ :: MUINT32 where "eBUFFER_USAGE_HW_CAMERA_READ \<equiv> 0x40000"
abbreviation (input) eBUFFER_USAGE_HW_MASK :: MUINT32 where "eBUFFER_USAGE_HW_MASK \<equiv> 0x71F00"

section \<open>The memory driver\<close>

text \<open>
  One entry per call that the code makes. \<open>ion_import\<close> also returns the handle: what the driver stored
  on success, and on failure what the caller's variable, which nothing initialises, happens to hold.
  \<open>ion_config\<close>, \<open>ion_phys\<close> and \<open>ion_sync\<close> are the three commands of \<open>ion_custom_ioctl\<close>, whose results
  the code only logs; \<open>ion_phys\<close> also gives the address that is in the parameter block afterwards.
\<close>

record 'k ion_kernel =
  ion_open :: "'k \<Rightarrow> int \<times> 'k"
  ion_close :: "int \<Rightarrow> 'k \<Rightarrow> 'k"
  ion_import :: "int \<Rightarrow> int \<Rightarrow> 'k \<Rightarrow> bool \<times> int \<times> 'k"
  ion_config :: "int \<Rightarrow> int \<Rightarrow> int \<Rightarrow> int \<Rightarrow> 'k \<Rightarrow> 'k"
  ion_phys :: "int \<Rightarrow> int \<Rightarrow> 'k \<Rightarrow> size_t \<times> 'k"
  ion_sync :: "int \<Rightarrow> int \<Rightarrow> 'k \<Rightarrow> 'k"
  ion_alloc_camera :: "int \<Rightarrow> size_t \<Rightarrow> size_t \<Rightarrow> bool \<Rightarrow> 'k \<Rightarrow> int option \<times> 'k"
  ion_share :: "int \<Rightarrow> int \<Rightarrow> 'k \<Rightarrow> int option \<times> 'k"
  ion_mmap :: "int \<Rightarrow> size_t \<Rightarrow> MUINT32 \<Rightarrow> int \<Rightarrow> 'k \<Rightarrow> size_t \<times> 'k"
  ion_munmap :: "int \<Rightarrow> size_t \<Rightarrow> size_t \<Rightarrow> 'k \<Rightarrow> 'k"
  ion_share_close :: "int \<Rightarrow> int \<Rightarrow> 'k \<Rightarrow> 'k"
  ion_free :: "int \<Rightarrow> int \<Rightarrow> 'k \<Rightarrow> 'k"

record 'k Ion =
  g_IonDevFD :: int
  g_IonCount :: int
  g_k :: 'k

section \<open>The state of a heap\<close>

record BufInfo =
  bi_pa :: size_t
  bi_va :: size_t
  bi_stridesInBytes :: size_t
  bi_sizeInBytes :: size_t

definition BufInfo_new :: BufInfo where
  "BufInfo_new = \<lparr>bi_pa = 0, bi_va = 0, bi_stridesInBytes = 0, bi_sizeInBytes = 0\<rparr>"

record 'i Heap =
  hp_mBufMap :: "(int, size_t) kvec"
  hp_mLockCount :: int
  hp_mLockUsage :: MUINT32
  hp_mvBufInfo :: "BufInfo list"
  hp_mImgSize :: MSize
  hp_mImgFormat :: int
  hp_mPlaneCount :: nat
  hp_mBitstreamSize :: size_t
  hp_imp :: 'i

type_synonym ('i, 'k) heap_step = "'i Heap \<times> 'k Ion \<Rightarrow> (bool \<times> 'i Heap \<times> 'k Ion) option"

record ('i, 'k) heap_ops =
  impGetHeapInfo :: "'i \<Rightarrow> int list"
  impInit :: "('i, 'k) heap_step"
  impUninit :: "('i, 'k) heap_step"
  impLockBuf :: "MUINT32 \<Rightarrow> ('i, 'k) heap_step"
  impUnlockBuf :: "MUINT32 \<Rightarrow> ('i, 'k) heap_step"

definition BaseImageBufferHeap_new :: "'i \<Rightarrow> 'i Heap" where
  "BaseImageBufferHeap_new i = \<lparr>hp_mBufMap = [], hp_mLockCount = 0, hp_mLockUsage = 0, hp_mvBufInfo = [],
     hp_mImgSize = \<lparr>ms_w = 0, ms_h = 0\<rparr>, hp_mImgFormat = 0, hp_mPlaneCount = 0, hp_mBitstreamSize = 0, hp_imp = i\<rparr>"

definition list_at :: "nat \<Rightarrow> 'a list \<Rightarrow> 'a option" where
  "list_at i xs = (if i < length xs then Some (xs ! i) else None)"

definition edit_buf :: "nat \<Rightarrow> (BufInfo \<Rightarrow> BufInfo) \<Rightarrow> 'i Heap \<Rightarrow> 'i Heap" where
  "edit_buf n g h = h\<lparr>hp_mvBufInfo := (hp_mvBufInfo h)[n := g (hp_mvBufInfo h ! n)]\<rparr>"

section \<open>Attributes\<close>

definition heap_getPlaneBitsPerPixel :: "nat \<Rightarrow> 'i Heap \<Rightarrow> nat option" where
  "heap_getPlaneBitsPerPixel index h = queryPlaneBitsPerPixel (hp_mImgFormat h) index"

definition heap_getImgBitsPerPixel :: "'i Heap \<Rightarrow> nat" where
  "heap_getImgBitsPerPixel h = queryImageBitsPerPixel (hp_mImgFormat h)"

definition buf_at :: "nat \<Rightarrow> 'i Heap \<Rightarrow> BufInfo option" where
  "buf_at index h = list_at index (hp_mvBufInfo h)"

definition heap_getBufSizeInBytes :: "nat \<Rightarrow> 'i Heap \<Rightarrow> size_t option" where
  "heap_getBufSizeInBytes index h = (if index \<ge> hp_mPlaneCount h then Some 0 else map_option bi_sizeInBytes (buf_at index h))"

definition heap_getBufStridesInBytes :: "nat \<Rightarrow> 'i Heap \<Rightarrow> size_t option" where
  "heap_getBufStridesInBytes index h =
     (if index \<ge> hp_mPlaneCount h then Some 0 else map_option bi_stridesInBytes (buf_at index h))"

definition heap_getBufPA :: "nat \<Rightarrow> 'i Heap \<Rightarrow> size_t option" where
  "heap_getBufPA index h =
     (if index \<ge> hp_mPlaneCount h then Some 0
      else if hp_mLockCount h = 0 \<or> hp_mLockUsage h AND eBUFFER_USAGE_HW_MASK = 0 then Some 0
      else map_option bi_pa (buf_at index h))"

definition heap_getBufVA :: "nat \<Rightarrow> 'i Heap \<Rightarrow> size_t option" where
  "heap_getBufVA index h =
     (if index \<ge> hp_mPlaneCount h then Some 0
      else if hp_mLockCount h = 0 \<or> hp_mLockUsage h AND eBUFFER_USAGE_SW_MASK = 0 then Some 0
      else map_option bi_va (buf_at index h))"

definition heap_setBitstreamSize :: "size_t \<Rightarrow> 'i Heap \<Rightarrow> (bool \<times> 'i Heap) option" where
  "heap_setBitstreamSize bitstreamsize h =
     (if hp_mImgFormat h \<noteq> eImgFmt_JPEG \<and> hp_mImgFormat h \<noteq> eImgFmt_BLOB then Some (False, h)
      else do {
        n \<leftarrow> heap_getBufSizeInBytes 0 h;
        Some (if bitstreamsize > n then (False, h) else (True, h\<lparr>hp_mBitstreamSize := bitstreamsize\<rparr>))
      })"

definition getHeapID :: "('i, 'k) heap_ops \<Rightarrow> nat \<Rightarrow> 'i Heap \<Rightarrow> int" where
  "getHeapID ops index h =
     (if hp_mLockCount h \<le> 0 then 0
      else let rvHeapInfo = impGetHeapInfo ops (hp_imp h) in
        if index \<ge> length rvHeapInfo then 0 else rvHeapInfo ! index)"

definition getHeapIDCount :: "('i, 'k) heap_ops \<Rightarrow> 'i Heap \<Rightarrow> nat" where
  "getHeapIDCount ops h = (if hp_mLockCount h \<le> 0 then 0 else length (impGetHeapInfo ops (hp_imp h)))"

section \<open>Creation\<close>

definition uninitLocked :: "'k ion_kernel \<Rightarrow> ('i, 'k) heap_ops \<Rightarrow> ('i, 'k) heap_step" where
  "uninitLocked K ops st = do {
     (ok, h, d) \<leftarrow> impUninit ops st;
     let h1 = h\<lparr>hp_mvBufInfo := []\<rparr>;
     if g_IonCount d \<le> 0 then Some (True, h1, d)
     else let d1 = d\<lparr>g_IonCount := g_IonCount d - 1\<rparr> in
       Some (True, h1, if g_IonCount d = 1 \<and> g_IonDevFD d \<ge> 0
         then d1\<lparr>g_IonDevFD := - 1, g_k := ion_close K (g_IonDevFD d) (g_k d1)\<rparr> else d1)
   }"

definition ion_get :: "'k ion_kernel \<Rightarrow> 'k Ion \<Rightarrow> bool \<times> 'k Ion" where
  "ion_get K d =
     (let d1 = d\<lparr>g_IonCount := g_IonCount d + 1\<rparr> in
      if g_IonCount d = 0 then let (fd, k) = ion_open K (g_k d1) in (fd \<ge> 0, d1\<lparr>g_IonDevFD := fd, g_k := k\<rparr>)
      else (True, d1))"

definition initLocked :: "'k ion_kernel \<Rightarrow> ('i, 'k) heap_ops \<Rightarrow> ('i, 'k) heap_step" where
  "initLocked K ops st = do {
     (ret, st1) \<leftarrow> (case st of (h, d) \<Rightarrow>
        let (opened, d1) = ion_get K d in
        if \<not> opened then Some (False, h, d1)
        else do {
          (ok, h2, d2) \<leftarrow> impInit ops (h\<lparr>hp_mBufMap := [], hp_mvBufInfo := replicate (hp_mPlaneCount h) BufInfo_new\<rparr>, d1);
          Some (ok \<and> list_all (\<lambda>b. bi_stridesInBytes b \<noteq> 0) (hp_mvBufInfo h2), h2, d2)
        });
     if ret then Some (True, st1)
     else do { (ok, st2) \<leftarrow> uninitLocked K ops st1; Some (False, st2) }
   }"

definition MSize_bad :: "MSize \<Rightarrow> bool" where
  "MSize_bad s \<longleftrightarrow> sint (ms_w s) \<le> 0 \<or> sint (ms_h s) \<le> 0"

definition heap_onCreate ::
    "'k ion_kernel \<Rightarrow> ('i, 'k) heap_ops \<Rightarrow> MSize \<Rightarrow> int \<Rightarrow> size_t \<Rightarrow> ('i, 'k) heap_step" where
  "heap_onCreate K ops imgSize imgFormat bitstreamSize = (\<lambda>(h, d).
     if imgFormat = eImgFmt_JPEG \<or> \<not> checkValidFormat imgFormat \<or> MSize_bad imgSize then Some (False, h, d)
     else initLocked K ops (h\<lparr>hp_mImgSize := imgSize, hp_mImgFormat := imgFormat, hp_mBitstreamSize := bitstreamSize,
            hp_mPlaneCount := queryPlaneCount imgFormat\<rparr>, d))"

definition heap_onLastStrongRef :: "'k ion_kernel \<Rightarrow> ('i, 'k) heap_ops \<Rightarrow> ('i, 'k) heap_step" where
  "heap_onLastStrongRef K ops = uninitLocked K ops"

section \<open>Locking\<close>

definition read_usage :: MUINT32 where
  "read_usage = eBUFFER_USAGE_SW_READ_MASK OR eBUFFER_USAGE_HW_CAMERA_READ OR eBUFFER_USAGE_HW_TEXTURE"

definition addresses_ok :: "MUINT32 \<Rightarrow> BufInfo list \<Rightarrow> bool" where
  "addresses_ok usage bs \<longleftrightarrow> list_all (\<lambda>b. (usage AND eBUFFER_USAGE_SW_MASK \<noteq> 0 \<longrightarrow> bi_va b \<noteq> 0) \<and>
     (usage AND eBUFFER_USAGE_HW_MASK \<noteq> 0 \<longrightarrow> bi_pa b \<noteq> 0)) bs"

definition heap_lockBuf :: "('i, 'k) heap_ops \<Rightarrow> MUINT32 \<Rightarrow> ('i, 'k) heap_step" where
  "heap_lockBuf ops usage = (\<lambda>(h, d).
     if 0 < hp_mLockCount h then
       Some (if usage AND NOT read_usage = 0 \<and> hp_mLockUsage h = usage
             then (True, h\<lparr>hp_mLockCount := hp_mLockCount h + 1\<rparr>, d) else (False, h, d))
     else do {
       (ok, h1, d1) \<leftarrow> impLockBuf ops usage (h, d);
       Some (if \<not> ok \<or> hp_mPlaneCount h1 \<noteq> length (hp_mvBufInfo h1) \<or> \<not> addresses_ok usage (hp_mvBufInfo h1)
             then (False, h1, d1)
             else (True, h1\<lparr>hp_mLockUsage := usage, hp_mLockCount := hp_mLockCount h1 + 1\<rparr>, d1))
     })"

definition heap_unlockBuf :: "('i, 'k) heap_ops \<Rightarrow> ('i, 'k) heap_step" where
  "heap_unlockBuf ops = (\<lambda>(h, d).
     if 1 < hp_mLockCount h then Some (True, h\<lparr>hp_mLockCount := hp_mLockCount h - 1\<rparr>, d)
     else if hp_mLockCount h = 0 then Some (False, h, d)
     else do {
       (ok, h1, d1) \<leftarrow> impUnlockBuf ops (hp_mLockUsage h) (h, d);
       Some (if \<not> ok then (False, h1, d1)
             else (True, h1\<lparr>hp_mLockUsage := 0, hp_mLockCount := hp_mLockCount h1 - 1\<rparr>, d1))
     })"

section \<open>Helpers of the derived classes\<close>

definition helpCheckBufStrides :: "nat \<Rightarrow> size_t \<Rightarrow> 'i Heap \<Rightarrow> bool option" where
  "helpCheckBufStrides planeIndex planeBufStridesInBytes h = do {
     let planeImgWidthInPixels = queryPlaneWidthInPixels (hp_mImgFormat h) planeIndex (scast (ms_w (hp_mImgSize h)));
     bits \<leftarrow> heap_getPlaneBitsPerPixel planeIndex h;
     let planeBitsPerPixel = (word_of_nat bits :: size_t);
     if planeBitsPerPixel = 0 then None
     else
       let bits' = push_bit 3 planeBufStridesInBytes;
           roundUpValue = (if bits' mod planeBitsPerPixel > 0 then 1 else 0);
           planeBufStridesInPixels = bits' div planeBitsPerPixel + roundUpValue
       in Some (\<not> planeBufStridesInPixels < planeImgWidthInPixels)
   }"

definition helpQueryBufSizeInBytes :: "nat \<Rightarrow> size_t \<Rightarrow> 'i Heap \<Rightarrow> size_t option" where
  "helpQueryBufSizeInBytes planeIndex planeStridesInBytes h =
     (if planeIndex \<ge> hp_mPlaneCount h then None
      else Some (planeStridesInBytes * queryPlaneHeightInPixels (hp_mImgFormat h) planeIndex (scast (ms_h (hp_mImgSize h)))))"

text \<open>
  The address of a memory is asked for once and kept under its descriptor: import the descriptor,
  configure, ask, keep, free the handle. A failed import is only logged, and the handle is used
  and freed all the same.
\<close>

definition helpMapPhyAddr ::
    "'k ion_kernel \<Rightarrow> int \<Rightarrow> int \<Rightarrow> int \<Rightarrow> size_t \<Rightarrow> 'i Heap \<times> 'k Ion \<Rightarrow> bool \<times> size_t \<times> 'i Heap \<times> 'k Ion" where
  "helpMapPhyAddr K memID security coherence phyAddr = (\<lambda>(h, d).
     case map_of (hp_mBufMap h) memID of
       Some p \<Rightarrow> (True, p, h, d)
     | None \<Rightarrow>
         if memID < 0 then (True, phyAddr, h, d)
         else let (imported, pIonHandle, k1) = ion_import K (g_IonDevFD d) memID (g_k d);
                  k2 = ion_config K (g_IonDevFD d) pIonHandle security coherence k1;
                  (p, k3) = ion_phys K (g_IonDevFD d) pIonHandle k2
              in (True, p, h\<lparr>hp_mBufMap := kv_add memID p (hp_mBufMap h)\<rparr>,
                  d\<lparr>g_k := ion_free K (g_IonDevFD d) pIonHandle k3\<rparr>))"

definition helpUnmapPhyAddr :: "int \<Rightarrow> 'i Heap \<Rightarrow> bool \<times> 'i Heap" where
  "helpUnmapPhyAddr memID h =
     (True, if kv_index (hp_mBufMap h) memID \<noteq> None then h\<lparr>hp_mBufMap := kv_remove memID (hp_mBufMap h)\<rparr> else h)"

definition flush_one :: "'k ion_kernel \<Rightarrow> int \<Rightarrow> 'k Ion \<Rightarrow> 'k Ion" where
  "flush_one K memID d =
     (if memID < 0 then d
      else let (imported, pIonHandle, k1) = ion_import K (g_IonDevFD d) memID (g_k d);
               k2 = ion_sync K (g_IonDevFD d) pIonHandle k1
           in d\<lparr>g_k := ion_free K (g_IonDevFD d) pIonHandle k2\<rparr>)"

definition helpFlushCache :: "'k ion_kernel \<Rightarrow> int list \<Rightarrow> 'k Ion \<Rightarrow> (bool \<times> 'k Ion) option" where
  "helpFlushCache K fds d =
     (if fds = [] then None
      else Some (True, fold (flush_one K) fds d))"

definition heap_syncCache :: "'k ion_kernel \<Rightarrow> ('i, 'k) heap_ops \<Rightarrow> 'i Heap \<times> 'k Ion \<Rightarrow> (bool \<times> 'k Ion) option" where
  "heap_syncCache K ops = (\<lambda>(h, d).
     let rvHeapInfo = impGetHeapInfo ops (hp_imp h); n = hp_mPlaneCount h in
     if n > length (hp_mvBufInfo h) \<or> (n > 0 \<and> rvHeapInfo = []) \<or> (length rvHeapInfo > 1 \<and> n > length rvHeapInfo) then None
     else helpFlushCache K (map (\<lambda>i. if length rvHeapInfo > 1 then rvHeapInfo ! i else rvHeapInfo ! 0) [0..<n]) d)"

end
