(* ===== verification/ImageHeaps.thy ===== *)
theory ImageHeaps
  imports ImageHeap
begin

text \<open>
  The heaps derived from the base: memory that a client supplies with a descriptor and an address
  (\<open>utils/imgbuf/ImageBufferHeap.cpp\<close>), memory of which the client supplies every address
  (\<open>DummyImageBufferHeap.cpp\<close>), and memory of the driver (\<open>IonImageBufferHeap.cpp\<close>), which is
  mapped when it is first used and stays mapped until the heap goes.

  The arrays of three strides, descriptors and addresses are lists of what the client filled in; to
  read behind them is a fault. The loops over the planes run over the list of their numbers.
\<close>

unbundle bit_operations_syntax

record ImgParam =
  ip_imgFormat :: int
  ip_imgSize :: MSize
  ip_jpgSize :: MSize
  ip_bufSize :: size_t
  ip_bufStridesInBytes :: "size_t list"
  ip_bufBoundaryInBytes :: "size_t list"

definition ImgParam_image :: "int \<Rightarrow> MSize \<Rightarrow> size_t list \<Rightarrow> size_t list \<Rightarrow> nat \<Rightarrow> ImgParam" where
  "ImgParam_image imgFormat imgSize bufStridesInBytes bufBoundaryInBytes planeCount =
     \<lparr>ip_imgFormat = imgFormat, ip_imgSize = imgSize, ip_jpgSize = imgSize, ip_bufSize = 0,
      ip_bufStridesInBytes = take planeCount bufStridesInBytes, ip_bufBoundaryInBytes = take planeCount bufBoundaryInBytes\<rparr>"

definition ImgParam_blob :: "size_t \<Rightarrow> size_t \<Rightarrow> ImgParam" where
  "ImgParam_blob bufSize bufBoundaryInBytes =
     \<lparr>ip_imgFormat = eImgFmt_BLOB, ip_imgSize = \<lparr>ms_w = ucast bufSize, ms_h = 1\<rparr>, ip_jpgSize = \<lparr>ms_w = ucast bufSize, ms_h = 1\<rparr>,
      ip_bufSize = bufSize, ip_bufStridesInBytes = [bufSize], ip_bufBoundaryInBytes = [bufBoundaryInBytes]\<rparr>"

definition ImgParam_jpeg :: "MSize \<Rightarrow> size_t \<Rightarrow> size_t \<Rightarrow> ImgParam" where
  "ImgParam_jpeg imgSize bufSize bufBoundaryInBytes =
     \<lparr>ip_imgFormat = eImgFmt_JPEG, ip_imgSize = \<lparr>ms_w = ucast bufSize, ms_h = 1\<rparr>, ip_jpgSize = imgSize,
      ip_bufSize = bufSize, ip_bufStridesInBytes = [bufSize], ip_bufBoundaryInBytes = [bufBoundaryInBytes]\<rparr>"

section \<open>The heap of supplied memory\<close>

record PortBufInfo_v1 =
  pb_memID :: "int list"
  pb_virtAddr :: "size_t list"
  pb_nocache :: int
  pb_security :: int
  pb_coherence :: int
  pb_continuos :: bool

definition PortBufInfo_v1_continuous :: "int \<Rightarrow> size_t \<Rightarrow> int \<Rightarrow> int \<Rightarrow> int \<Rightarrow> PortBufInfo_v1" where
  "PortBufInfo_v1_continuous memID virtAddr nocache security coherence =
     \<lparr>pb_memID = [memID], pb_virtAddr = [virtAddr], pb_nocache = nocache, pb_security = security,
      pb_coherence = coherence, pb_continuos = True\<rparr>"

definition PortBufInfo_v1_planes :: "int list \<Rightarrow> size_t list \<Rightarrow> nat \<Rightarrow> int \<Rightarrow> int \<Rightarrow> int \<Rightarrow> PortBufInfo_v1" where
  "PortBufInfo_v1_planes memID virtAddr planeCount nocache security coherence =
     \<lparr>pb_memID = take planeCount memID, pb_virtAddr = take planeCount virtAddr, pb_nocache = nocache,
      pb_security = security, pb_coherence = coherence, pb_continuos = False\<rparr>"

record PortHeap =
  ph_mBufStridesInBytesToAlloc :: "size_t list"
  ph_mPortBufInfo :: PortBufInfo_v1
  ph_mvHeapInfo :: "int list"
  ph_mvBufInfo :: "BufInfo list"

definition ImageBufferHeap_new :: "ImgParam \<Rightarrow> PortBufInfo_v1 \<Rightarrow> PortHeap Heap" where
  "ImageBufferHeap_new rImgParam rPortBufInfo = BaseImageBufferHeap_new
     \<lparr>ph_mBufStridesInBytesToAlloc = ip_bufStridesInBytes rImgParam, ph_mPortBufInfo = rPortBufInfo,
      ph_mvHeapInfo = [], ph_mvBufInfo = []\<rparr>"

fun port_init_planes :: "nat list \<Rightarrow> MUINT32 \<Rightarrow> PortHeap Heap \<Rightarrow> (bool \<times> PortHeap Heap) option" where
  "port_init_planes [] planesSizeInBytes h = Some (True, h)"
| "port_init_planes (i # is) planesSizeInBytes h = do {
     strides \<leftarrow> list_at i (ph_mBufStridesInBytesToAlloc (hp_imp h));
     ok \<leftarrow> helpCheckBufStrides i strides h;
     if \<not> ok then Some (False, h)
     else do {
       let port = ph_mPortBufInfo (hp_imp h);
       heapID \<leftarrow> list_at (if pb_continuos port then 0 else i) (pb_memID port);
       size \<leftarrow> helpQueryBufSizeInBytes i strides h;
       addr \<leftarrow> list_at (if pb_continuos port then 0 else i) (pb_virtAddr port);
       let info = \<lparr>bi_pa = 0, bi_va = (if pb_continuos port then addr + ucast planesSizeInBytes else addr),
                   bi_stridesInBytes = strides, bi_sizeInBytes = size\<rparr>;
       let h1 = h\<lparr>hp_imp := (hp_imp h)\<lparr>ph_mvHeapInfo := ph_mvHeapInfo (hp_imp h) @ [heapID],
                                        ph_mvBufInfo := ph_mvBufInfo (hp_imp h) @ [info]\<rparr>\<rparr>;
       port_init_planes is (planesSizeInBytes + ucast size)
         (edit_buf i (\<lambda>b. b\<lparr>bi_stridesInBytes := strides, bi_sizeInBytes := size\<rparr>) h1)
     }
   }"

definition port_impInit :: "(PortHeap, 'k) heap_step" where
  "port_impInit = (\<lambda>(h, d). do {
     (ok, h1) \<leftarrow> port_init_planes [0..<hp_mPlaneCount h] 0 h;
     Some (ok, h1, d)
   })"

definition port_impUninit :: "(PortHeap, 'k) heap_step" where
  "port_impUninit = (\<lambda>(h, d). Some (True, h, d))"

definition port_doMapPhyAddr ::
    "'k ion_kernel \<Rightarrow> int \<Rightarrow> nat \<Rightarrow> PortHeap Heap \<times> 'k Ion \<Rightarrow> bool \<times> PortHeap Heap \<times> 'k Ion" where
  "port_doMapPhyAddr K heapID i = (\<lambda>(h, d).
     let port = ph_mPortBufInfo (hp_imp h);
         (ok, pa, h1, d1) = helpMapPhyAddr K heapID (pb_security port) (pb_coherence port) 0 (h, d)
     in if \<not> ok then (False, h1, d1) else (True, edit_buf i (\<lambda>b. b\<lparr>bi_pa := pa\<rparr>) h1, d1))"

definition port_doUnmapPhyAddr :: "int \<Rightarrow> nat \<Rightarrow> PortHeap Heap \<Rightarrow> bool \<times> PortHeap Heap" where
  "port_doUnmapPhyAddr heapID i h =
     (let (ok, h1) = helpUnmapPhyAddr heapID h
      in if \<not> ok then (False, h1) else (True, edit_buf i (\<lambda>b. b\<lparr>bi_pa := 0\<rparr>) h1))"

fun port_unlock_planes :: "nat list \<Rightarrow> MUINT32 \<Rightarrow> PortHeap Heap \<Rightarrow> PortHeap Heap option" where
  "port_unlock_planes [] usage h = Some h"
| "port_unlock_planes (i # is) usage h = do {
     heapID \<leftarrow> list_at i (ph_mvHeapInfo (hp_imp h));
     b \<leftarrow> buf_at i h;
     let h1 = (if usage AND eBUFFER_USAGE_HW_MASK \<noteq> 0 \<and> bi_pa b \<noteq> 0
               then edit_buf i (\<lambda>b. b\<lparr>bi_pa := 0\<rparr>) (snd (port_doUnmapPhyAddr heapID i h)) else h);
     let h2 = (if usage AND eBUFFER_USAGE_SW_MASK \<noteq> 0 \<and> bi_va b \<noteq> 0
               then edit_buf i (\<lambda>b. b\<lparr>bi_va := 0\<rparr>) h1 else h1);
     port_unlock_planes is usage h2
   }"

definition port_impUnlockBuf :: "MUINT32 \<Rightarrow> (PortHeap, 'k) heap_step" where
  "port_impUnlockBuf usage = (\<lambda>(h, d). do {
     h1 \<leftarrow> port_unlock_planes [0..<length (hp_mvBufInfo h)] usage h;
     Some (True, h1, d)
   })"

text \<open>The planes behind the first one in the same memory begin where the planes before them end.\<close>

fun port_lock_planes ::
    "'k ion_kernel \<Rightarrow> nat list \<Rightarrow> MUINT32 \<Rightarrow> MUINT32 \<Rightarrow> PortHeap Heap \<times> 'k Ion \<Rightarrow> (bool \<times> PortHeap Heap \<times> 'k Ion) option" where
  "port_lock_planes K [] planesSizeInBytes usage st = Some (True, st)"
| "port_lock_planes K (i # is) planesSizeInBytes usage (h, d) = do {
     heapID \<leftarrow> list_at i (ph_mvHeapInfo (hp_imp h));
     va \<leftarrow> (if usage AND eBUFFER_USAGE_SW_MASK \<noteq> 0 then map_option bi_va (list_at i (ph_mvBufInfo (hp_imp h))) else Some 0);
     let h1 = edit_buf i (\<lambda>b. b\<lparr>bi_va := va\<rparr>) h;
     if usage AND eBUFFER_USAGE_HW_MASK = 0 then port_lock_planes K is planesSizeInBytes usage (h1, d)
     else case port_doMapPhyAddr K heapID i (h1, d) of (ok, h2, d2) \<Rightarrow>
       if \<not> ok then Some (False, h2, d2)
       else if i > 0 \<and> heapID \<noteq> - 1 \<and> heapID = ph_mvHeapInfo (hp_imp h2) ! (i - 1) then
         let sum = planesSizeInBytes + ucast (bi_sizeInBytes (ph_mvBufInfo (hp_imp h2) ! (i - 1)))
         in port_lock_planes K is sum usage (edit_buf i (\<lambda>b. b\<lparr>bi_pa := bi_pa b + ucast sum\<rparr>) h2, d2)
       else port_lock_planes K is planesSizeInBytes usage (h2, d2)
   }"

definition port_impLockBuf :: "'k ion_kernel \<Rightarrow> MUINT32 \<Rightarrow> (PortHeap, 'k) heap_step" where
  "port_impLockBuf K usage = (\<lambda>(h, d). do {
     (ok, st) \<leftarrow> port_lock_planes K [0..<length (hp_mvBufInfo h)] 0 usage (h, d);
     if ok then Some (True, st) else do { (r, st1) \<leftarrow> port_impUnlockBuf usage st; Some (False, st1) }
   })"

definition port_ops :: "'k ion_kernel \<Rightarrow> (PortHeap, 'k) heap_ops" where
  "port_ops K = \<lparr>impGetHeapInfo = ph_mvHeapInfo, impInit = port_impInit, impUninit = port_impUninit,
     impLockBuf = port_impLockBuf K, impUnlockBuf = port_impUnlockBuf\<rparr>"

definition port_create :: "'k ion_kernel \<Rightarrow> ImgParam \<Rightarrow> PortBufInfo_v1 \<Rightarrow> 'k Ion \<Rightarrow> (PortHeap Heap option \<times> 'k Ion) option" where
  "port_create K rImgParam rPortBufInfo d = do {
     (ok, h, d1) \<leftarrow> heap_onCreate K (port_ops K) (ip_imgSize rImgParam) (ip_imgFormat rImgParam) (ip_bufSize rImgParam)
                      (ImageBufferHeap_new rImgParam rPortBufInfo, d);
     Some (if ok then Some h else None, d1)
   }"

section \<open>The heap of supplied addresses\<close>

record PortBufInfo_dummy =
  pd_memID :: int
  pd_virtAddr :: "size_t list"
  pd_phyAddr :: "size_t list"
  pd_nocache :: int
  pd_security :: int
  pd_coherence :: int

definition PortBufInfo_dummy_new :: "int \<Rightarrow> size_t list \<Rightarrow> size_t list \<Rightarrow> nat \<Rightarrow> int \<Rightarrow> int \<Rightarrow> int \<Rightarrow> PortBufInfo_dummy" where
  "PortBufInfo_dummy_new memID virtAddr phyAddr planeCount nocache security coherence =
     \<lparr>pd_memID = memID, pd_virtAddr = take planeCount virtAddr, pd_phyAddr = take planeCount phyAddr,
      pd_nocache = nocache, pd_security = security, pd_coherence = coherence\<rparr>"

record DummyHeap =
  dh_mBufStridesInBytesToAlloc :: "size_t list"
  dh_mPortBufInfo :: PortBufInfo_dummy
  dh_mvHeapInfo :: "int list"
  dh_mvBufInfo :: "BufInfo list"

definition DummyImageBufferHeap_new :: "ImgParam \<Rightarrow> PortBufInfo_dummy \<Rightarrow> DummyHeap Heap" where
  "DummyImageBufferHeap_new rImgParam rPortBufInfo = BaseImageBufferHeap_new
     \<lparr>dh_mBufStridesInBytesToAlloc = ip_bufStridesInBytes rImgParam, dh_mPortBufInfo = rPortBufInfo,
      dh_mvHeapInfo = [], dh_mvBufInfo = []\<rparr>"

fun dummy_init_planes :: "nat list \<Rightarrow> DummyHeap Heap \<Rightarrow> (bool \<times> DummyHeap Heap) option" where
  "dummy_init_planes [] h = Some (True, h)"
| "dummy_init_planes (i # is) h = do {
     strides \<leftarrow> list_at i (dh_mBufStridesInBytesToAlloc (hp_imp h));
     ok \<leftarrow> helpCheckBufStrides i strides h;
     if \<not> ok then Some (False, h)
     else do {
       let port = dh_mPortBufInfo (hp_imp h);
       size \<leftarrow> helpQueryBufSizeInBytes i strides h;
       va \<leftarrow> list_at i (pd_virtAddr port);
       pa \<leftarrow> list_at i (pd_phyAddr port);
       let info = \<lparr>bi_pa = pa, bi_va = va, bi_stridesInBytes = strides, bi_sizeInBytes = size\<rparr>;
       let h1 = h\<lparr>hp_imp := (hp_imp h)\<lparr>dh_mvHeapInfo := dh_mvHeapInfo (hp_imp h) @ [pd_memID port],
                                        dh_mvBufInfo := dh_mvBufInfo (hp_imp h) @ [info]\<rparr>\<rparr>;
       dummy_init_planes is (edit_buf i (\<lambda>b. b\<lparr>bi_stridesInBytes := strides, bi_sizeInBytes := size\<rparr>) h1)
     }
   }"

definition dummy_impInit :: "(DummyHeap, 'k) heap_step" where
  "dummy_impInit = (\<lambda>(h, d). do {
     (ok, h1) \<leftarrow> dummy_init_planes [0..<hp_mPlaneCount h] h;
     Some (ok, h1, d)
   })"

definition dummy_impUninit :: "(DummyHeap, 'k) heap_step" where
  "dummy_impUninit = (\<lambda>(h, d). Some (True, h, d))"

fun dummy_lock_planes :: "nat list \<Rightarrow> MUINT32 \<Rightarrow> DummyHeap Heap \<Rightarrow> DummyHeap Heap option" where
  "dummy_lock_planes [] usage h = Some h"
| "dummy_lock_planes (i # is) usage h = do {
     va \<leftarrow> (if usage AND eBUFFER_USAGE_SW_MASK \<noteq> 0 then map_option bi_va (list_at i (dh_mvBufInfo (hp_imp h))) else Some 0);
     pa \<leftarrow> (if usage AND eBUFFER_USAGE_HW_MASK \<noteq> 0 then map_option bi_pa (list_at i (dh_mvBufInfo (hp_imp h))) else Some 0);
     dummy_lock_planes is usage (edit_buf i (\<lambda>b. b\<lparr>bi_va := va, bi_pa := pa\<rparr>) h)
   }"

definition dummy_impLockBuf :: "MUINT32 \<Rightarrow> (DummyHeap, 'k) heap_step" where
  "dummy_impLockBuf usage = (\<lambda>(h, d). do {
     h1 \<leftarrow> dummy_lock_planes [0..<length (hp_mvBufInfo h)] usage h;
     Some (True, h1, d)
   })"

fun clear_addresses :: "nat list \<Rightarrow> MUINT32 \<Rightarrow> 'i Heap \<Rightarrow> 'i Heap option" where
  "clear_addresses [] usage h = Some h"
| "clear_addresses (i # is) usage h = do {
     b \<leftarrow> buf_at i h;
     let h1 = (if usage AND eBUFFER_USAGE_HW_MASK \<noteq> 0 \<and> bi_pa b \<noteq> 0 then edit_buf i (\<lambda>b. b\<lparr>bi_pa := 0\<rparr>) h else h);
     let h2 = (if usage AND eBUFFER_USAGE_SW_MASK \<noteq> 0 \<and> bi_va b \<noteq> 0 then edit_buf i (\<lambda>b. b\<lparr>bi_va := 0\<rparr>) h1 else h1);
     clear_addresses is usage h2
   }"

definition dummy_impUnlockBuf :: "MUINT32 \<Rightarrow> (DummyHeap, 'k) heap_step" where
  "dummy_impUnlockBuf usage = (\<lambda>(h, d). do {
     h1 \<leftarrow> clear_addresses [0..<length (hp_mvBufInfo h)] usage h;
     Some (True, h1, d)
   })"

definition dummy_ops :: "(DummyHeap, 'k) heap_ops" where
  "dummy_ops = \<lparr>impGetHeapInfo = dh_mvHeapInfo, impInit = dummy_impInit, impUninit = dummy_impUninit,
     impLockBuf = dummy_impLockBuf, impUnlockBuf = dummy_impUnlockBuf\<rparr>"

definition dummy_create ::
    "'k ion_kernel \<Rightarrow> ImgParam \<Rightarrow> PortBufInfo_dummy \<Rightarrow> 'k Ion \<Rightarrow> (DummyHeap Heap option \<times> 'k Ion) option" where
  "dummy_create K rImgParam rPortBufInfo d = do {
     (ok, h, d1) \<leftarrow> heap_onCreate K dummy_ops (ip_imgSize rImgParam) (ip_imgFormat rImgParam) (ip_bufSize rImgParam)
                      (DummyImageBufferHeap_new rImgParam rPortBufInfo, d);
     Some (if ok then Some h else None, d1)
   }"

end
