(* ===== verification/IonHeap.thy ===== *)
theory IonHeap
  imports ImageHeaps
begin

text \<open>
  The heap of the driver's memory (\<open>utils/imgbuf/IonImageBufferHeap.cpp\<close>) and the allocator of
  images (\<open>ImageBufferAllocator.cpp\<close>). Every plane is a memory of its own, with a handle, a
  descriptor that is shared with the hardware and, once software has locked it, a mapping.
\<close>

unbundle bit_operations_syntax

abbreviation (input) PROT_READ :: MUINT32 where "PROT_READ \<equiv> 1"
abbreviation (input) PROT_WRITE :: MUINT32 where "PROT_WRITE \<equiv> 2"

record AllocExtraParam =
  ax_nocache :: int
  ax_security :: int
  ax_coherence :: int

record MyHeapInfo =
  mh_heapID :: int
  mh_pIonHandle :: int

record MyBufInfo = BufInfo +
  mb_iBoundaryInBytesToAlloc :: MUINT32
  mb_iProt_flag_va :: MUINT32

record IonHeap =
  nh_mExtraParam :: AllocExtraParam
  nh_mBufStridesInBytesToAlloc :: "size_t list"
  nh_mBufBoundaryInBytesToAlloc :: "MUINT32 list"
  nh_mIonDevFD :: int
  nh_mvHeapInfo :: "MyHeapInfo list"
  nh_mvBufInfo :: "MyBufInfo list"

text \<open>
  The constructor copies as many bytes as three words of 32 bits have from an array of words of 64 bits.
\<close>

definition memcpy_boundaries :: "size_t list \<Rightarrow> MUINT32 list" where
  "memcpy_boundaries bufBoundaryInBytes = take 3 (concat (map (\<lambda>b. [ucast b, ucast (drop_bit 32 b)]) bufBoundaryInBytes))"

definition IonImageBufferHeap_new :: "ImgParam \<Rightarrow> AllocExtraParam \<Rightarrow> IonHeap Heap" where
  "IonImageBufferHeap_new rImgParam rExtraParam = BaseImageBufferHeap_new
     \<lparr>nh_mExtraParam = rExtraParam, nh_mBufStridesInBytesToAlloc = ip_bufStridesInBytes rImgParam,
      nh_mBufBoundaryInBytesToAlloc = memcpy_boundaries (ip_bufBoundaryInBytes rImgParam), nh_mIonDevFD = - 1,
      nh_mvHeapInfo = [], nh_mvBufInfo = []\<rparr>"

section \<open>Allocation\<close>

text \<open>A handle and a descriptor that the driver does not supply keep the values of a new plane.\<close>

definition doAllocIon ::
    "'k ion_kernel \<Rightarrow> AllocExtraParam \<Rightarrow> int \<Rightarrow> MyHeapInfo \<Rightarrow> MyBufInfo \<Rightarrow> 'k \<Rightarrow> bool \<times> MyHeapInfo \<times> 'k" where
  "doAllocIon K extra dev rHeapInfo rBufInfo k =
     (case ion_alloc_camera K dev (bi_sizeInBytes rBufInfo) (scast (mb_iBoundaryInBytesToAlloc rBufInfo)) (ax_nocache extra \<noteq> 0) k of
        (None, k1) \<Rightarrow> (False, rHeapInfo, k1)
      | (Some handle, k1) \<Rightarrow>
          let rHeapInfo1 = rHeapInfo\<lparr>mh_pIonHandle := handle\<rparr>
          in (case ion_share K dev handle k1 of
                (None, k2) \<Rightarrow> (False, rHeapInfo1, k2)
              | (Some fd, k2) \<Rightarrow> (fd \<noteq> - 1, rHeapInfo1\<lparr>mh_heapID := fd\<rparr>, k2)))"

definition doDeallocIon :: "'k ion_kernel \<Rightarrow> int \<Rightarrow> MyHeapInfo \<Rightarrow> 'k \<Rightarrow> MyHeapInfo \<times> 'k" where
  "doDeallocIon K dev rHeapInfo k =
     (let (h1, k1) = (if 0 \<le> mh_heapID rHeapInfo then (rHeapInfo\<lparr>mh_heapID := - 1\<rparr>, ion_share_close K dev (mh_heapID rHeapInfo) k)
                      else (rHeapInfo, k))
      in if mh_pIonHandle h1 \<noteq> 0 then (h1\<lparr>mh_pIonHandle := 0\<rparr>, ion_free K dev (mh_pIonHandle h1) k1) else (h1, k1))"

fun ion_init_planes :: "'k ion_kernel \<Rightarrow> nat list \<Rightarrow> (IonHeap, 'k) heap_step" where
  "ion_init_planes K [] st = Some (True, st)"
| "ion_init_planes K (i # is) (h, d) = do {
     strides \<leftarrow> list_at i (nh_mBufStridesInBytesToAlloc (hp_imp h));
     ok \<leftarrow> helpCheckBufStrides i strides h;
     if \<not> ok then Some (False, h, d)
     else do {
       size \<leftarrow> helpQueryBufSizeInBytes i strides h;
       boundary \<leftarrow> list_at i (nh_mBufBoundaryInBytesToAlloc (hp_imp h));
       let pBufInfo = \<lparr>bi_pa = 0, bi_va = 0, bi_stridesInBytes = strides, bi_sizeInBytes = size,
                       mb_iBoundaryInBytesToAlloc = boundary, mb_iProt_flag_va = 0\<rparr>;
       let (allocated, pHeapInfo, k) = doAllocIon K (nh_mExtraParam (hp_imp h)) (nh_mIonDevFD (hp_imp h))
                                         \<lparr>mh_heapID = - 1, mh_pIonHandle = 0\<rparr> pBufInfo (g_k d);
       let h1 = h\<lparr>hp_imp := (hp_imp h)\<lparr>nh_mvHeapInfo := nh_mvHeapInfo (hp_imp h) @ [pHeapInfo],
                                        nh_mvBufInfo := nh_mvBufInfo (hp_imp h) @ [pBufInfo]\<rparr>\<rparr>;
       let d1 = d\<lparr>g_k := k\<rparr>;
       if \<not> allocated then Some (False, h1, d1)
       else ion_init_planes K is (edit_buf i (\<lambda>b. b\<lparr>bi_stridesInBytes := strides, bi_sizeInBytes := size\<rparr>) h1, d1)
     }
   }"

fun dealloc_planes :: "'k ion_kernel \<Rightarrow> int \<Rightarrow> MyHeapInfo list \<Rightarrow> 'k \<Rightarrow> MyHeapInfo list \<times> 'k" where
  "dealloc_planes K dev [] k = ([], k)"
| "dealloc_planes K dev (x # xs) k =
     (let (x1, k1) = doDeallocIon K dev x k; (xs1, k2) = dealloc_planes K dev xs k1 in (x1 # xs1, k2))"

definition close_device :: "'k ion_kernel \<Rightarrow> IonHeap Heap \<times> 'k Ion \<Rightarrow> IonHeap Heap \<times> 'k Ion" where
  "close_device K = (\<lambda>(h, d).
     if 0 \<le> nh_mIonDevFD (hp_imp h)
     then (h\<lparr>hp_imp := (hp_imp h)\<lparr>nh_mIonDevFD := - 1\<rparr>\<rparr>, d\<lparr>g_k := ion_close K (nh_mIonDevFD (hp_imp h)) (g_k d)\<rparr>)
     else (h, d))"

definition ion_impInit :: "'k ion_kernel \<Rightarrow> (IonHeap, 'k) heap_step" where
  "ion_impInit K = (\<lambda>(h, d). do {
     let (fd, k) = ion_open K (g_k d);
     let h1 = h\<lparr>hp_imp := (hp_imp h)\<lparr>nh_mIonDevFD := fd\<rparr>\<rparr>;
     let d1 = d\<lparr>g_k := k\<rparr>;
     (ret, h2, d2) \<leftarrow> (if fd < 0 then Some (False, h1, d1) else ion_init_planes K [0..<hp_mPlaneCount h1] (h1, d1));
     if ret then Some (True, h2, d2)
     else do {
       let (xs, k) = dealloc_planes K (nh_mIonDevFD (hp_imp h2)) (nh_mvHeapInfo (hp_imp h2)) (g_k d2);
       Some (False, close_device K (h2\<lparr>hp_imp := (hp_imp h2)\<lparr>nh_mvHeapInfo := xs\<rparr>\<rparr>, d2\<lparr>g_k := k\<rparr>))
     }
   })"

section \<open>Addresses\<close>

definition edit_stored :: "nat \<Rightarrow> (MyBufInfo \<Rightarrow> MyBufInfo) \<Rightarrow> IonHeap Heap \<Rightarrow> IonHeap Heap" where
  "edit_stored i g h = h\<lparr>hp_imp := (hp_imp h)\<lparr>nh_mvBufInfo := (nh_mvBufInfo (hp_imp h))[i := g (nh_mvBufInfo (hp_imp h) ! i)]\<rparr>\<rparr>"

definition ion_doMapPhyAddr ::
    "'k ion_kernel \<Rightarrow> int \<Rightarrow> nat \<Rightarrow> IonHeap Heap \<times> 'k Ion \<Rightarrow> bool \<times> IonHeap Heap \<times> 'k Ion" where
  "ion_doMapPhyAddr K heapID i = (\<lambda>(h, d).
     let extra = nh_mExtraParam (hp_imp h);
         (ok, pa, h1, d1) = helpMapPhyAddr K heapID (ax_security extra) (ax_coherence extra) 0 (h, d)
     in if \<not> ok then (False, h1, d1) else (True, edit_stored i (\<lambda>b. b\<lparr>bi_pa := pa\<rparr>) h1, d1))"

definition ion_doUnmapPhyAddr :: "int \<Rightarrow> nat \<Rightarrow> IonHeap Heap \<Rightarrow> bool \<times> IonHeap Heap" where
  "ion_doUnmapPhyAddr heapID i h =
     (let (ok, h1) = helpUnmapPhyAddr heapID h
      in if \<not> ok then (False, h1) else (True, edit_stored i (\<lambda>b. b\<lparr>bi_pa := 0\<rparr>) h1))"

fun ion_uninit_planes :: "'k ion_kernel \<Rightarrow> nat list \<Rightarrow> IonHeap Heap \<times> 'k Ion \<Rightarrow> (IonHeap Heap \<times> 'k Ion) option" where
  "ion_uninit_planes K [] st = Some st"
| "ion_uninit_planes K (i # is) (h, d) = do {
     pHeapInfo \<leftarrow> list_at i (nh_mvHeapInfo (hp_imp h));
     pBufInfo \<leftarrow> list_at i (nh_mvBufInfo (hp_imp h));
     let dev = nh_mIonDevFD (hp_imp h);
     let (h1, d1) = (if bi_va pBufInfo \<noteq> 0
                     then (edit_stored i (\<lambda>b. b\<lparr>bi_va := 0, mb_iProt_flag_va := 0\<rparr>) h,
                           d\<lparr>g_k := ion_munmap K dev (bi_va pBufInfo) (bi_sizeInBytes pBufInfo) (g_k d)\<rparr>)
                     else (h, d));
     let h2 = (if bi_pa pBufInfo \<noteq> 0
               then edit_stored i (\<lambda>b. b\<lparr>bi_pa := 0\<rparr>) (snd (ion_doUnmapPhyAddr (mh_heapID pHeapInfo) i h1)) else h1);
     let (x, k) = doDeallocIon K dev pHeapInfo (g_k d1);
     ion_uninit_planes K is
       (h2\<lparr>hp_imp := (hp_imp h2)\<lparr>nh_mvHeapInfo := (nh_mvHeapInfo (hp_imp h2))[i := x]\<rparr>\<rparr>, d1\<lparr>g_k := k\<rparr>)
   }"

definition ion_impUninit :: "'k ion_kernel \<Rightarrow> (IonHeap, 'k) heap_step" where
  "ion_impUninit K = (\<lambda>(h, d). do {
     st \<leftarrow> ion_uninit_planes K [0..<length (nh_mvBufInfo (hp_imp h))] (h, d);
     Some (True, close_device K st)
   })"

definition prot_of_usage :: "MUINT32 \<Rightarrow> MUINT32" where
  "prot_of_usage usage =
     (if usage AND eBUFFER_USAGE_SW_READ_MASK \<noteq> 0 then PROT_READ else 0) OR
     (if usage AND eBUFFER_USAGE_SW_WRITE_MASK \<noteq> 0 then PROT_WRITE else 0)"

text \<open>A plane is mapped again when its mapping lacks a right that the lock asks for.\<close>

definition ion_map_plane :: "'k ion_kernel \<Rightarrow> MUINT32 \<Rightarrow> nat \<Rightarrow> MyHeapInfo \<Rightarrow> MyBufInfo \<Rightarrow> IonHeap Heap \<times> 'k Ion \<Rightarrow> IonHeap Heap \<times> 'k Ion" where
  "ion_map_plane K prot_flag i pHeapInfo pStored = (\<lambda>(h, d).
     if (mb_iProt_flag_va pStored XOR prot_flag) AND prot_flag = 0 then (h, d)
     else
       let dev = nh_mIonDevFD (hp_imp h);
           k = (if bi_va pStored \<noteq> 0 then ion_munmap K dev (bi_va pStored) (bi_sizeInBytes pStored) (g_k d) else g_k d);
           (va, k1) = ion_mmap K dev (bi_sizeInBytes pStored) prot_flag (mh_heapID pHeapInfo) k
       in (edit_stored i (\<lambda>b. b\<lparr>bi_va := va, mb_iProt_flag_va := prot_flag\<rparr>) h, d\<lparr>g_k := k1\<rparr>))"

fun ion_lock_planes :: "'k ion_kernel \<Rightarrow> nat list \<Rightarrow> MUINT32 \<Rightarrow> (IonHeap, 'k) heap_step" where
  "ion_lock_planes K [] usage st = Some (True, st)"
| "ion_lock_planes K (i # is) usage (h, d) = do {
     pHeapInfo \<leftarrow> list_at i (nh_mvHeapInfo (hp_imp h));
     pStored \<leftarrow> list_at i (nh_mvBufInfo (hp_imp h));
     let (ok, h1, d1) =
       (if usage AND eBUFFER_USAGE_SW_MASK = 0 then (True, h, d)
        else let (h1, d1) = ion_map_plane K (prot_of_usage usage) i pHeapInfo pStored (h, d);
                 va = bi_va (nh_mvBufInfo (hp_imp h1) ! i)
             in (va \<noteq> 0 \<and> va \<noteq> - 1, edit_buf i (\<lambda>b. b\<lparr>bi_va := va\<rparr>) h1, d1));
     if \<not> ok then Some (False, h1, d1)
     else do {
       let (ok2, h2, d2) =
         (if usage AND eBUFFER_USAGE_HW_MASK = 0 then (True, h1, d1)
          else let (ok, h2, d2) = (if bi_pa (nh_mvBufInfo (hp_imp h1) ! i) = 0
                                   then ion_doMapPhyAddr K (mh_heapID pHeapInfo) i (h1, d1) else (True, h1, d1))
               in if \<not> ok then (False, h2, d2)
                  else (True, edit_buf i (\<lambda>b. b\<lparr>bi_pa := bi_pa (nh_mvBufInfo (hp_imp h2) ! i)\<rparr>) h2, d2));
       if \<not> ok2 then Some (False, h2, d2) else ion_lock_planes K is usage (h2, d2)
     }
   }"

fun ion_unlock_planes :: "nat list \<Rightarrow> MUINT32 \<Rightarrow> IonHeap Heap \<Rightarrow> IonHeap Heap option" where
  "ion_unlock_planes [] usage h = Some h"
| "ion_unlock_planes (i # is) usage h = do {
     pHeapInfo \<leftarrow> list_at i (nh_mvHeapInfo (hp_imp h));
     b \<leftarrow> buf_at i h;
     let h1 = (if usage AND eBUFFER_USAGE_HW_MASK \<noteq> 0 \<and> bi_pa b \<noteq> 0 then edit_buf i (\<lambda>b. b\<lparr>bi_pa := 0\<rparr>) h else h);
     let h2 = (if usage AND eBUFFER_USAGE_SW_MASK \<noteq> 0 \<and> bi_va b \<noteq> 0 then edit_buf i (\<lambda>b. b\<lparr>bi_va := 0\<rparr>) h1 else h1);
     ion_unlock_planes is usage h2
   }"

definition ion_impUnlockBuf :: "MUINT32 \<Rightarrow> (IonHeap, 'k) heap_step" where
  "ion_impUnlockBuf usage = (\<lambda>(h, d). do {
     h1 \<leftarrow> ion_unlock_planes [0..<length (hp_mvBufInfo h)] usage h;
     Some (True, h1, d)
   })"

definition ion_impLockBuf :: "'k ion_kernel \<Rightarrow> MUINT32 \<Rightarrow> (IonHeap, 'k) heap_step" where
  "ion_impLockBuf K usage = (\<lambda>(h, d). do {
     (ok, st) \<leftarrow> ion_lock_planes K [0..<length (hp_mvBufInfo h)] usage (h, d);
     if ok then Some (True, st) else do { (r, st1) \<leftarrow> ion_impUnlockBuf usage st; Some (False, st1) }
   })"

definition ion_ops :: "'k ion_kernel \<Rightarrow> (IonHeap, 'k) heap_ops" where
  "ion_ops K = \<lparr>impGetHeapInfo = (\<lambda>i. map mh_heapID (nh_mvHeapInfo i)), impInit = ion_impInit K, impUninit = ion_impUninit K,
     impLockBuf = ion_impLockBuf K, impUnlockBuf = ion_impUnlockBuf\<rparr>"

definition ion_create ::
    "'k ion_kernel \<Rightarrow> ImgParam \<Rightarrow> AllocExtraParam \<Rightarrow> 'k Ion \<Rightarrow> (IonHeap Heap option \<times> 'k Ion) option" where
  "ion_create K rImgParam rExtraParam d = do {
     (ok, h, d1) \<leftarrow> heap_onCreate K (ion_ops K) (ip_imgSize rImgParam) (ip_imgFormat rImgParam) (ip_bufSize rImgParam)
                      (IonImageBufferHeap_new rImgParam rExtraParam, d);
     Some (if ok then Some h else None, d1)
   }"

end
