(* ===== verification/HeapContract.thy ===== *)
theory HeapContract
  imports IonHeap
begin

text \<open>
  What the base class of the heaps relies on from a derived class, and what follows for the locks: the
  locale \<open>heap_provider\<close>, interpreted on the three derived heaps of the model. \<open>sound\<close> relates the
  derived heap's data to the number of planes, \<open>fresh\<close> holds of it before its initialisation.
\<close>

unbundle bit_operations_syntax

section \<open>What a step leaves alone\<close>

definition geometry :: "'i Heap \<Rightarrow> (size_t \<times> size_t) list" where
  "geometry h = map (\<lambda>b. (bi_stridesInBytes b, bi_sizeInBytes b)) (hp_mvBufInfo h)"

definition attributes :: "'i Heap \<Rightarrow> MSize \<times> int \<times> nat \<times> size_t" where
  "attributes h = (hp_mImgSize h, hp_mImgFormat h, hp_mPlaneCount h, hp_mBitstreamSize h)"

definition same_place :: "'i Heap \<Rightarrow> 'i Heap \<Rightarrow> bool" where
  "same_place h h' \<longleftrightarrow> attributes h' = attributes h \<and> hp_mLockCount h' = hp_mLockCount h \<and>
     hp_mLockUsage h' = hp_mLockUsage h \<and> length (hp_mvBufInfo h') = length (hp_mvBufInfo h)"

definition same_shape :: "'i Heap \<Rightarrow> 'i Heap \<Rightarrow> bool" where
  "same_shape h h' \<longleftrightarrow> same_place h h' \<and> geometry h' = geometry h"

lemma length_geometry: "length (geometry h) = length (hp_mvBufInfo h)"
  by (simp add: geometry_def)

lemma same_shape_refl [simp]: "same_shape h h" "same_place h h"
  by (simp_all add: same_shape_def same_place_def)

lemma same_shape_trans [trans]: "same_shape h h' \<Longrightarrow> same_shape h' h'' \<Longrightarrow> same_shape h h''"
  by (simp add: same_shape_def same_place_def)

lemma same_place_trans [trans]: "same_place h h' \<Longrightarrow> same_place h' h'' \<Longrightarrow> same_place h h''"
  by (simp add: same_place_def)

lemma same_shape_length: "same_shape h h' \<Longrightarrow> length (hp_mvBufInfo h') = length (hp_mvBufInfo h)"
  by (simp add: same_shape_def same_place_def)

lemma map_update_same: "f (xs ! i) = v \<Longrightarrow> i < length xs \<Longrightarrow> (map f xs)[i := v] = map f xs"
  by (metis list_update_id nth_map)

lemma geometry_edit:
  assumes "\<And>b. bi_stridesInBytes (g b) = bi_stridesInBytes b" "\<And>b. bi_sizeInBytes (g b) = bi_sizeInBytes b"
  shows "geometry (edit_buf i g h) = geometry h"
proof (cases "i < length (hp_mvBufInfo h)")
  case True
  then show ?thesis
    using map_update_same [of "\<lambda>b. (bi_stridesInBytes b, bi_sizeInBytes b)" "hp_mvBufInfo h" i]
    by (simp add: geometry_def edit_buf_def map_update assms)
qed (simp add: geometry_def edit_buf_def list_update_beyond)

lemma same_shape_edit:
  assumes "\<And>b. bi_stridesInBytes (g b) = bi_stridesInBytes b" "\<And>b. bi_sizeInBytes (g b) = bi_sizeInBytes b"
  shows "same_shape h (edit_buf i g h)"
  using geometry_edit [of g, OF assms] by (simp add: same_shape_def same_place_def attributes_def edit_buf_def)

lemma same_shape_edits:
  assumes "same_shape h h1" "\<And>b. bi_stridesInBytes (g b) = bi_stridesInBytes b" "\<And>b. bi_sizeInBytes (g b) = bi_sizeInBytes b"
  shows "same_shape h (edit_buf i g h1)"
  using same_shape_trans [OF assms(1) same_shape_edit] assms(2,3) by blast

lemma same_shape_address:
  assumes "same_shape h h1"
  shows "same_shape h (edit_buf i (bi_va_update f) h1)" "same_shape h (edit_buf i (bi_pa_update f) h1)"
    "same_shape h (edit_buf i (\<lambda>b. b\<lparr>bi_pa := k b\<rparr>) h1)"
  by (rule same_shape_edits [OF assms]; simp)+

lemma same_place_edit: "same_place h (edit_buf i g h)"
  by (simp add: same_place_def attributes_def edit_buf_def)

lemma hp_imp_edit_buf [simp]: "hp_imp (edit_buf i g h) = hp_imp h"
  by (simp add: edit_buf_def)

lemma length_edit_buf [simp]: "length (hp_mvBufInfo (edit_buf i g h)) = length (hp_mvBufInfo h)"
  by (simp add: edit_buf_def)

lemma same_shape_imp: "same_shape h (h\<lparr>hp_imp := x\<rparr>)" "same_shape h (h\<lparr>hp_mBufMap := m\<rparr>)"
  by (simp_all add: same_shape_def same_place_def attributes_def geometry_def)

lemma list_at_Some: "i < length xs \<Longrightarrow> list_at i xs = Some (xs ! i)"
  by (simp add: list_at_def)

lemma helpUnmapPhyAddr_shape:
  "same_shape h (snd (helpUnmapPhyAddr heapID h))" "hp_imp (snd (helpUnmapPhyAddr heapID h)) = hp_imp h"
  by (simp_all add: helpUnmapPhyAddr_def same_shape_imp)

lemma helpMapPhyAddr_shape:
  assumes "helpMapPhyAddr K heapID s c p (h, d) = (ok, pa, h', d')"
  shows "ok \<and> same_shape h h' \<and> hp_imp h' = hp_imp h"
  using assms by (auto simp: helpMapPhyAddr_def same_shape_imp Let_def split: option.splits if_splits prod.splits)

section \<open>The contract of a derived heap\<close>

locale heap_provider =
  fixes ops :: "('i, 'k) heap_ops"
    and sound :: "'i \<Rightarrow> nat \<Rightarrow> bool"
    and fresh :: "'i \<Rightarrow> bool"
  assumes init_provides:
      "\<lbrakk>fresh (hp_imp h); length (hp_mvBufInfo h) = hp_mPlaneCount h; impInit ops (h, d) = Some (ok, h', d')\<rbrakk>
       \<Longrightarrow> same_place h h' \<and> (ok \<longrightarrow> sound (hp_imp h') (length (hp_mvBufInfo h')))"
    and lock_provides:
      "sound (hp_imp h) (length (hp_mvBufInfo h))
       \<Longrightarrow> \<exists>ok h' d'. impLockBuf ops usage (h, d) = Some (ok, h', d') \<and> same_shape h h' \<and> sound (hp_imp h') (length (hp_mvBufInfo h'))"
    and unlock_provides:
      "sound (hp_imp h) (length (hp_mvBufInfo h))
       \<Longrightarrow> \<exists>h' d'. impUnlockBuf ops usage (h, d) = Some (True, h', d') \<and> same_shape h h' \<and> sound (hp_imp h') (length (hp_mvBufInfo h'))"

section \<open>The invariant of the locks\<close>

text \<open>
  A heap that is locked more than once is locked by readers, all with the same usage; a locked heap has
  an address for every plane and every kind of access it is locked for.
\<close>

definition lock_inv :: "'i Heap \<Rightarrow> bool" where
  "lock_inv h \<longleftrightarrow> 0 \<le> hp_mLockCount h \<and> (hp_mLockCount h = 0 \<longrightarrow> hp_mLockUsage h = 0) \<and>
     (1 < hp_mLockCount h \<longrightarrow> hp_mLockUsage h AND NOT read_usage = 0) \<and>
     (0 < hp_mLockCount h \<longrightarrow> addresses_ok (hp_mLockUsage h) (hp_mvBufInfo h))"

datatype heap_call = LockBuf MUINT32 | UnlockBuf

definition heap_call :: "('i, 'k) heap_ops \<Rightarrow> heap_call \<Rightarrow> ('i, 'k) heap_step" where
  "heap_call ops c = (case c of LockBuf usage \<Rightarrow> heap_lockBuf ops usage | UnlockBuf \<Rightarrow> heap_unlockBuf ops)"

fun heap_calls :: "('i, 'k) heap_ops \<Rightarrow> heap_call list \<Rightarrow> 'i Heap \<times> 'k Ion \<Rightarrow> (bool list \<times> 'i Heap \<times> 'k Ion) option" where
  "heap_calls ops [] st = Some ([], st)"
| "heap_calls ops (c # cs) st = do {
     (ok, st1) \<leftarrow> heap_call ops c st;
     (oks, st2) \<leftarrow> heap_calls ops cs st1;
     Some (ok # oks, st2)
   }"

definition gain :: "heap_call \<Rightarrow> bool \<Rightarrow> int" where
  "gain c ok = (if \<not> ok then 0 else case c of LockBuf _ \<Rightarrow> 1 | UnlockBuf \<Rightarrow> - 1)"

definition locks_held :: "heap_call list \<Rightarrow> bool list \<Rightarrow> int" where
  "locks_held cs oks = sum_list (map2 gain cs oks)"

lemma locks_held_Cons: "locks_held (c # cs) (ok # oks) = gain c ok + locks_held cs oks"
  by (simp add: locks_held_def)

definition heap_ready :: "('i \<Rightarrow> nat \<Rightarrow> bool) \<Rightarrow> 'i Heap \<Rightarrow> bool" where
  "heap_ready sound h \<longleftrightarrow> lock_inv h \<and> sound (hp_imp h) (length (hp_mvBufInfo h)) \<and> length (hp_mvBufInfo h) = hp_mPlaneCount h"

lemma same_shape_attributes: "same_shape h h' \<Longrightarrow> attributes h' = attributes h \<and> geometry h' = geometry h"
  by (simp add: same_shape_def same_place_def)

context heap_provider
begin

lemma lock_step:
  assumes "heap_ready sound h"
  shows "\<exists>ok h' d'. heap_lockBuf ops usage (h, d) = Some (ok, h', d') \<and> heap_ready sound h' \<and>
    attributes h' = attributes h \<and> geometry h' = geometry h \<and>
    hp_mLockCount h' = hp_mLockCount h + (if ok then 1 else 0) \<and> (ok \<longrightarrow> hp_mLockUsage h' = usage)"
proof (cases "0 < hp_mLockCount h")
  case True
  show ?thesis
  proof (cases "usage AND NOT read_usage = 0 \<and> hp_mLockUsage h = usage")
    case shared: True
    show ?thesis
      by (rule exI [of _ True], rule exI [of _ "h\<lparr>hp_mLockCount := hp_mLockCount h + 1\<rparr>"], rule exI [of _ d])
         (use assms True shared in \<open>auto simp: heap_lockBuf_def heap_ready_def lock_inv_def attributes_def geometry_def\<close>)
  next
    case refused: False
    show ?thesis
      by (rule exI [of _ False], rule exI [of _ h], rule exI [of _ d])
         (use assms True refused in \<open>simp add: heap_lockBuf_def\<close>)
  qed
next
  case False
  with assms have c: "hp_mLockCount h = 0" "hp_mLockUsage h = 0" by (simp_all add: heap_ready_def lock_inv_def)
  obtain ok h1 d1 where 1: "impLockBuf ops usage (h, d) = Some (ok, h1, d1)" "same_shape h h1"
      "sound (hp_imp h1) (length (hp_mvBufInfo h1))"
    using lock_provides [of h usage d] assms by (auto simp: heap_ready_def)
  have f: "hp_mLockCount h1 = 0" "hp_mLockUsage h1 = 0" "attributes h1 = attributes h" "geometry h1 = geometry h"
      "length (hp_mvBufInfo h1) = hp_mPlaneCount h1"
    using 1(2) assms c by (simp_all add: same_shape_def same_place_def heap_ready_def attributes_def)
  show ?thesis
  proof (cases "ok \<and> addresses_ok usage (hp_mvBufInfo h1)")
    case True
    show ?thesis
      by (rule exI [of _ True]) (use True 1 f c in \<open>simp add: heap_lockBuf_def heap_ready_def lock_inv_def attributes_def geometry_def\<close>)
  next
    case False
    show ?thesis
      by (rule exI [of _ False]) (use False 1 f c in \<open>simp add: heap_lockBuf_def heap_ready_def lock_inv_def\<close>)
  qed
qed

lemma unlock_step:
  assumes "heap_ready sound h"
  shows "\<exists>ok h' d'. heap_unlockBuf ops (h, d) = Some (ok, h', d') \<and> heap_ready sound h' \<and>
    attributes h' = attributes h \<and> geometry h' = geometry h \<and>
    hp_mLockCount h' = hp_mLockCount h - (if ok then 1 else 0) \<and> (ok \<longleftrightarrow> 0 < hp_mLockCount h)"
proof (cases "hp_mLockCount h = 1")
  case True
  obtain h1 d1 where 1: "impUnlockBuf ops (hp_mLockUsage h) (h, d) = Some (True, h1, d1)" "same_shape h h1"
      "sound (hp_imp h1) (length (hp_mvBufInfo h1))"
    using unlock_provides [of h "hp_mLockUsage h" d] assms by (auto simp: heap_ready_def)
  have f: "hp_mLockCount h1 = 1" "attributes h1 = attributes h" "geometry h1 = geometry h"
      "length (hp_mvBufInfo h1) = hp_mPlaneCount h1"
    using 1(2) assms True by (simp_all add: same_shape_def same_place_def heap_ready_def attributes_def)
  show ?thesis
    by (rule exI [of _ True]) (use 1 f True in \<open>simp add: heap_unlockBuf_def heap_ready_def lock_inv_def attributes_def geometry_def\<close>)
next
  case False
  show ?thesis
  proof (cases "1 < hp_mLockCount h")
    case True
    show ?thesis
      by (rule exI [of _ True], rule exI [of _ "h\<lparr>hp_mLockCount := hp_mLockCount h - 1\<rparr>"], rule exI [of _ d])
         (use assms True in \<open>auto simp: heap_unlockBuf_def heap_ready_def lock_inv_def attributes_def geometry_def\<close>)
  next
    case unlocked: False
    then have "hp_mLockCount h = 0" using False assms by (simp add: heap_ready_def lock_inv_def)
    then show ?thesis by (intro exI [of _ False]) (use assms in \<open>simp add: heap_unlockBuf_def\<close>)
  qed
qed

lemma call_step:
  assumes "heap_ready sound h"
  shows "\<exists>ok h' d'. heap_call ops c (h, d) = Some (ok, h', d') \<and> heap_ready sound h' \<and>
    attributes h' = attributes h \<and> geometry h' = geometry h \<and> hp_mLockCount h' = hp_mLockCount h + gain c ok"
proof (cases c)
  case (LockBuf u)
  obtain ok h' d' where "heap_lockBuf ops u (h, d) = Some (ok, h', d')" "heap_ready sound h'" "attributes h' = attributes h"
      "geometry h' = geometry h" "hp_mLockCount h' = hp_mLockCount h + (if ok then 1 else 0)"
    using lock_step [OF assms, of u d] by blast
  then show ?thesis using LockBuf by (simp add: heap_call_def gain_def)
next
  case UnlockBuf
  obtain ok h' d' where "heap_unlockBuf ops (h, d) = Some (ok, h', d')" "heap_ready sound h'" "attributes h' = attributes h"
      "geometry h' = geometry h" "hp_mLockCount h' = hp_mLockCount h - (if ok then 1 else 0)"
    using unlock_step [OF assms, of d] by blast
  then show ?thesis using UnlockBuf by (simp add: heap_call_def gain_def)
qed

lemma calls_ready:
  assumes "heap_ready sound h"
  shows "\<exists>oks h' d'. heap_calls ops cs (h, d) = Some (oks, h', d') \<and> length oks = length cs \<and> heap_ready sound h' \<and>
    attributes h' = attributes h \<and> geometry h' = geometry h \<and> hp_mLockCount h' = hp_mLockCount h + locks_held cs oks"
  using assms
proof (induction cs arbitrary: h d)
  case Nil
  then show ?case by (simp add: locks_held_def)
next
  case (Cons c cs)
  obtain ok h1 d1 where 1: "heap_call ops c (h, d) = Some (ok, h1, d1)" "heap_ready sound h1" "attributes h1 = attributes h"
      "geometry h1 = geometry h" "hp_mLockCount h1 = hp_mLockCount h + gain c ok"
    using call_step [OF Cons.prems, of c d] by blast
  obtain oks h2 d2 where 2: "heap_calls ops cs (h1, d1) = Some (oks, h2, d2)" "length oks = length cs" "heap_ready sound h2"
      "attributes h2 = attributes h1" "geometry h2 = geometry h1" "hp_mLockCount h2 = hp_mLockCount h1 + locks_held cs oks"
    using Cons.IH [OF 1(2), of d1] by blast
  show ?case using 1 2 by (simp add: locks_held_Cons)
qed

lemma create_ready:
  assumes "heap_onCreate K ops imgSize format bits (BaseImageBufferHeap_new i, d) = Some (True, h, d')" "fresh i"
  shows "heap_ready sound h \<and> hp_mLockCount h = 0 \<and> attributes h = (imgSize, format, queryPlaneCount format, bits) \<and>
    list_all (\<lambda>g. fst g \<noteq> 0) (geometry h)"
proof -
  let ?h = "(BaseImageBufferHeap_new i)\<lparr>hp_mImgSize := imgSize, hp_mImgFormat := format, hp_mBitstreamSize := bits,
    hp_mPlaneCount := queryPlaneCount format\<rparr>"
  let ?h1 = "?h\<lparr>hp_mBufMap := [], hp_mvBufInfo := replicate (queryPlaneCount format) BufInfo_new\<rparr>"
  have "initLocked K ops (?h, d) = Some (True, h, d')"
    using assms(1) by (simp add: heap_onCreate_def split: if_splits)
  then obtain d1 where 1: "impInit ops (?h1, d1) = Some (True, h, d')"
      and n: "list_all (\<lambda>b. bi_stridesInBytes b \<noteq> 0) (hp_mvBufInfo h)"
    by (auto simp: initLocked_def Let_def split: prod.splits if_splits option.splits)
  have "same_place ?h1 h \<and> sound (hp_imp h) (length (hp_mvBufInfo h))"
    using init_provides [OF _ _ 1] assms(2) by (simp add: BaseImageBufferHeap_new_def)
  then show ?thesis using n
    by (auto simp: same_place_def heap_ready_def lock_inv_def attributes_def BaseImageBufferHeap_new_def geometry_def list_all_length)
qed

end

end
