(* ===== verification/HeapProviders.thy ===== *)
theory HeapProviders
  imports HeapContract
begin

text \<open>
  The three heaps of the model keep the contract \<open>heap_provider\<close>: supplied memory, supplied
  addresses, memory of the driver.
\<close>

unbundle bit_operations_syntax

section \<open>Supplied memory\<close>

definition sound_port :: "PortHeap \<Rightarrow> nat \<Rightarrow> bool" where
  "sound_port i n \<longleftrightarrow> length (ph_mvHeapInfo i) = n \<and> length (ph_mvBufInfo i) = n"

definition fresh_port :: "PortHeap \<Rightarrow> bool" where
  "fresh_port i \<longleftrightarrow> ph_mvHeapInfo i = [] \<and> ph_mvBufInfo i = []"

lemma port_init_planes_frame:
  assumes "port_init_planes is s h = Some (ok, h')"
  shows "same_place h h' \<and> (ok \<longrightarrow> length (ph_mvHeapInfo (hp_imp h')) = length (ph_mvHeapInfo (hp_imp h)) + length is \<and>
    length (ph_mvBufInfo (hp_imp h')) = length (ph_mvBufInfo (hp_imp h)) + length is)"
  using assms
proof (induction "is" arbitrary: s h)
  case (Cons i "is")
  from Cons.prems obtain strides c where s: "list_at i (ph_mBufStridesInBytesToAlloc (hp_imp h)) = Some strides"
      "helpCheckBufStrides i strides h = Some c"
    by auto
  show ?case
  proof (cases c)
    case True
    then obtain x s1 h1 where "port_init_planes is s1 (edit_buf i x h1) = Some (ok, h')"
        "same_place h h1" "length (ph_mvHeapInfo (hp_imp h1)) = Suc (length (ph_mvHeapInfo (hp_imp h)))"
        "length (ph_mvBufInfo (hp_imp h1)) = Suc (length (ph_mvBufInfo (hp_imp h)))"
      using Cons.prems s by (auto simp: Let_def same_place_def attributes_def)
    then show ?thesis
      using Cons.IH [of s1 "edit_buf i x h1"] by (auto simp: same_place_def attributes_def edit_buf_def)
  qed (use Cons.prems s in auto)
qed simp

lemma port_doMapPhyAddr_shape:
  assumes "port_doMapPhyAddr K heapID i (h, d) = (ok, h', d')"
  shows "ok \<and> same_shape h h' \<and> hp_imp h' = hp_imp h"
proof -
  obtain ok1 pa h1 d1 where m: "helpMapPhyAddr K heapID (pb_security (ph_mPortBufInfo (hp_imp h)))
      (pb_coherence (ph_mPortBufInfo (hp_imp h))) 0 (h, d) = (ok1, pa, h1, d1)"
    by (metis prod_cases4)
  show ?thesis
    using assms m helpMapPhyAddr_shape [OF m] by (auto simp: port_doMapPhyAddr_def same_shape_address)
qed

lemma port_doUnmapPhyAddr_shape:
  "same_shape h (snd (port_doUnmapPhyAddr heapID i h)) \<and> hp_imp (snd (port_doUnmapPhyAddr heapID i h)) = hp_imp h"
  using helpUnmapPhyAddr_shape [where h = h and heapID = heapID]
  by (auto simp: port_doUnmapPhyAddr_def same_shape_address split: prod.splits)

lemma port_unlock_planes_shape:
  assumes "sound_port (hp_imp h) (length (hp_mvBufInfo h))" "set is \<subseteq> {..<length (hp_mvBufInfo h)}"
  shows "\<exists>h'. port_unlock_planes is usage h = Some h' \<and> same_shape h h' \<and> hp_imp h' = hp_imp h"
  using assms
proof (induction "is" arbitrary: h)
  case (Cons i "is")
  let ?b = "hp_mvBufInfo h ! i"
  define h1 where "h1 = (if usage AND eBUFFER_USAGE_HW_MASK \<noteq> 0 \<and> bi_pa ?b \<noteq> 0
    then edit_buf i (\<lambda>b. b\<lparr>bi_pa := 0\<rparr>) (snd (port_doUnmapPhyAddr (ph_mvHeapInfo (hp_imp h) ! i) i h)) else h)"
  define h2 where "h2 = (if usage AND eBUFFER_USAGE_SW_MASK \<noteq> 0 \<and> bi_va ?b \<noteq> 0
    then edit_buf i (\<lambda>b. b\<lparr>bi_va := 0\<rparr>) h1 else h1)"
  have 1: "same_shape h h1 \<and> hp_imp h1 = hp_imp h"
    using port_doUnmapPhyAddr_shape [of h "ph_mvHeapInfo (hp_imp h) ! i" i]
    by (auto simp: h1_def same_shape_address)
  then have 2: "same_shape h h2 \<and> hp_imp h2 = hp_imp h"
    by (auto simp: h2_def same_shape_address)
  obtain h3 where 3: "port_unlock_planes is usage h2 = Some h3 \<and> same_shape h2 h3 \<and> hp_imp h3 = hp_imp h2"
    using Cons.IH [of h2] Cons.prems 2 same_shape_length [of h h2] by auto
  have "list_at i (ph_mvHeapInfo (hp_imp h)) = Some (ph_mvHeapInfo (hp_imp h) ! i)" "buf_at i h = Some ?b"
    using Cons.prems by (simp_all add: list_at_Some sound_port_def buf_at_def)
  then have e: "port_unlock_planes (i # is) usage h = port_unlock_planes is usage h2"
    by (simp only: port_unlock_planes.simps Option.bind.simps h1_def [symmetric] h2_def [symmetric] Let_def)
  show ?case unfolding e using 2 3 same_shape_trans [of h h2 h3] by auto
qed simp

lemma port_lock_planes_shape:
  fixes K :: "'k ion_kernel"
  assumes "sound_port (hp_imp h) (length (hp_mvBufInfo h))" "set is \<subseteq> {..<length (hp_mvBufInfo h)}"
  shows "\<exists>h' d'. port_lock_planes K is s usage (h, d) = Some (True, h', d') \<and> same_shape h h' \<and> hp_imp h' = hp_imp h"
  using assms
proof (induction "is" arbitrary: h d s)
  case (Cons i "is")
  define va where "va = (if usage AND eBUFFER_USAGE_SW_MASK \<noteq> 0 then bi_va (ph_mvBufInfo (hp_imp h) ! i) else 0)"
  define h1 where "h1 = edit_buf i (\<lambda>b. b\<lparr>bi_va := va\<rparr>) h"
  have 1: "same_shape h h1 \<and> hp_imp h1 = hp_imp h" by (simp add: h1_def same_shape_address)
  obtain ok h2 d2 where m: "port_doMapPhyAddr K (ph_mvHeapInfo (hp_imp h) ! i) i (h1, d) = (ok, h2, d2)"
    by (metis prod_cases3)
  have 2: "ok \<and> same_shape h h2 \<and> hp_imp h2 = hp_imp h"
    using port_doMapPhyAddr_shape [OF m] 1 by (auto intro: same_shape_trans)
  have va: "(if usage AND eBUFFER_USAGE_SW_MASK \<noteq> 0 then map_option bi_va (list_at i (ph_mvBufInfo (hp_imp h))) else Some 0) = Some va"
    and id: "list_at i (ph_mvHeapInfo (hp_imp h)) = Some (ph_mvHeapInfo (hp_imp h) ! i)"
    using Cons.prems by (simp_all add: va_def list_at_Some sound_port_def)
  have e: "port_lock_planes K (i # is) s usage (h, d) =
      (if usage AND eBUFFER_USAGE_HW_MASK = 0 then port_lock_planes K is s usage (h1, d)
       else if i > 0 \<and> ph_mvHeapInfo (hp_imp h) ! i \<noteq> - 1 \<and> ph_mvHeapInfo (hp_imp h) ! i = ph_mvHeapInfo (hp_imp h2) ! (i - 1) then
         let sum = s + ucast (bi_sizeInBytes (ph_mvBufInfo (hp_imp h2) ! (i - 1)))
         in port_lock_planes K is sum usage (edit_buf i (\<lambda>b. b\<lparr>bi_pa := bi_pa b + ucast sum\<rparr>) h2, d2)
       else port_lock_planes K is s usage (h2, d2))"
    using 2 by (simp only: port_lock_planes.simps va id Option.bind.simps h1_def [symmetric] Let_def m prod.case) simp
  have step: "\<exists>h' e. port_lock_planes K is s' usage (h3, d') = Some (True, h', e) \<and> same_shape h h' \<and> hp_imp h' = hp_imp h"
    if a: "same_shape h h3 \<and> hp_imp h3 = hp_imp h" for h3 s' and d' :: "'k Ion"
  proof -
    obtain h' d'' where "port_lock_planes K is s' usage (h3, d') = Some (True, h', d'')" "same_shape h3 h'" "hp_imp h' = hp_imp h3"
      using Cons.IH [of h3 s' d'] a Cons.prems same_shape_length [of h h3] by auto
    then show ?thesis using a same_shape_trans [of h h3 h'] by auto
  qed
  have 3: "same_shape h (edit_buf i (\<lambda>b. b\<lparr>bi_pa := bi_pa b + x\<rparr>) h2) \<and>
      hp_imp (edit_buf i (\<lambda>b. b\<lparr>bi_pa := bi_pa b + x\<rparr>) h2) = hp_imp h" for x
    using 2 by (simp add: same_shape_address)
  show ?case
    unfolding e using step [OF 1] step [of h2] step [OF 3] 2 by (simp add: Let_def)
qed simp

lemma port_impUnlockBuf_shape:
  assumes "sound_port (hp_imp h) (length (hp_mvBufInfo h))"
  shows "\<exists>h' d'. port_impUnlockBuf usage (h, d) = Some (True, h', d') \<and> same_shape h h' \<and> sound_port (hp_imp h') (length (hp_mvBufInfo h'))"
proof -
  have "set [0..<length (hp_mvBufInfo h)] \<subseteq> {..<length (hp_mvBufInfo h)}" by auto
  from port_unlock_planes_shape [OF assms this, of usage]
  obtain h' where "port_unlock_planes [0..<length (hp_mvBufInfo h)] usage h = Some h'" "same_shape h h'" "hp_imp h' = hp_imp h"
    by blast
  then show ?thesis using assms same_shape_length [of h h'] by (simp add: port_impUnlockBuf_def)
qed

lemma port_impLockBuf_shape:
  fixes K :: "'k ion_kernel"
  assumes "sound_port (hp_imp h) (length (hp_mvBufInfo h))"
  shows "\<exists>ok h' d'. port_impLockBuf K usage (h, d) = Some (ok, h', d') \<and> same_shape h h' \<and> sound_port (hp_imp h') (length (hp_mvBufInfo h'))"
proof -
  have "set [0..<length (hp_mvBufInfo h)] \<subseteq> {..<length (hp_mvBufInfo h)}" by auto
  from port_lock_planes_shape [OF assms this, of K 0 usage d]
  obtain h' d' where "port_lock_planes K [0..<length (hp_mvBufInfo h)] 0 usage (h, d) = Some (True, h', d')"
      "same_shape h h'" "hp_imp h' = hp_imp h"
    by blast
  then show ?thesis using assms same_shape_length [of h h'] by (auto simp: port_impLockBuf_def)
qed

interpretation port: heap_provider "port_ops K" sound_port fresh_port for K :: "'k ion_kernel"
proof unfold_locales
  fix h :: "PortHeap Heap" and d :: "'k Ion" and ok h' d'
  assume "fresh_port (hp_imp h)" "length (hp_mvBufInfo h) = hp_mPlaneCount h" "impInit (port_ops K) (h, d) = Some (ok, h', d')"
  then show "same_place h h' \<and> (ok \<longrightarrow> sound_port (hp_imp h') (length (hp_mvBufInfo h')))"
    using port_init_planes_frame [of "[0..<hp_mPlaneCount h]" 0 h ok h']
    by (auto simp: port_ops_def port_impInit_def sound_port_def fresh_port_def same_place_def)
qed (simp_all only: port_ops_def heap_ops.simps port_impLockBuf_shape port_impUnlockBuf_shape)

section \<open>Supplied addresses\<close>

definition sound_dummy :: "DummyHeap \<Rightarrow> nat \<Rightarrow> bool" where
  "sound_dummy i n \<longleftrightarrow> length (dh_mvBufInfo i) = n"

definition fresh_dummy :: "DummyHeap \<Rightarrow> bool" where
  "fresh_dummy i \<longleftrightarrow> dh_mvBufInfo i = []"

lemma dummy_init_planes_frame:
  assumes "dummy_init_planes is h = Some (ok, h')"
  shows "same_place h h' \<and> (ok \<longrightarrow> length (dh_mvBufInfo (hp_imp h')) = length (dh_mvBufInfo (hp_imp h)) + length is)"
  using assms
proof (induction "is" arbitrary: h)
  case (Cons i "is")
  from Cons.prems obtain strides c where s: "list_at i (dh_mBufStridesInBytesToAlloc (hp_imp h)) = Some strides"
      "helpCheckBufStrides i strides h = Some c"
    by auto
  show ?case
  proof (cases c)
    case True
    then obtain x h1 where "dummy_init_planes is (edit_buf i x h1) = Some (ok, h')"
        "same_place h h1" "length (dh_mvBufInfo (hp_imp h1)) = Suc (length (dh_mvBufInfo (hp_imp h)))"
      using Cons.prems s by (auto simp: Let_def same_place_def attributes_def)
    then show ?thesis
      using Cons.IH [of "edit_buf i x h1"] by (auto simp: same_place_def attributes_def edit_buf_def)
  qed (use Cons.prems s in auto)
qed simp

lemma dummy_lock_planes_shape:
  assumes "sound_dummy (hp_imp h) (length (hp_mvBufInfo h))" "set is \<subseteq> {..<length (hp_mvBufInfo h)}"
  shows "\<exists>h'. dummy_lock_planes is usage h = Some h' \<and> same_shape h h' \<and> hp_imp h' = hp_imp h"
  using assms
proof (induction "is" arbitrary: h)
  case (Cons i "is")
  define va where "va = (if usage AND eBUFFER_USAGE_SW_MASK \<noteq> 0 then bi_va (dh_mvBufInfo (hp_imp h) ! i) else 0)"
  define pa where "pa = (if usage AND eBUFFER_USAGE_HW_MASK \<noteq> 0 then bi_pa (dh_mvBufInfo (hp_imp h) ! i) else 0)"
  have e: "dummy_lock_planes (i # is) usage h = dummy_lock_planes is usage (edit_buf i (\<lambda>b. b\<lparr>bi_va := va, bi_pa := pa\<rparr>) h)"
    using Cons.prems by (simp add: sound_dummy_def list_at_Some va_def pa_def)
  define h1 where "h1 = edit_buf i (\<lambda>b. b\<lparr>bi_va := va, bi_pa := pa\<rparr>) h"
  have s: "same_shape h h1" "hp_imp h1 = hp_imp h" unfolding h1_def by (rule same_shape_edit; simp) simp
  obtain h' where "dummy_lock_planes is usage h1 = Some h'" "same_shape h1 h'" "hp_imp h' = hp_imp h1"
    using Cons.IH [of h1] Cons.prems s same_shape_length [of h h1] by auto
  then show ?case unfolding e h1_def [symmetric] using s same_shape_trans [of h h1 h'] by auto
qed simp

lemma clear_addresses_shape:
  assumes "set is \<subseteq> {..<length (hp_mvBufInfo h)}"
  shows "\<exists>h'. clear_addresses is usage h = Some h' \<and> same_shape h h' \<and> hp_imp h' = hp_imp h"
  using assms
proof (induction "is" arbitrary: h)
  case (Cons i "is")
  let ?b = "hp_mvBufInfo h ! i"
  define h1 where "h1 = (if usage AND eBUFFER_USAGE_HW_MASK \<noteq> 0 \<and> bi_pa ?b \<noteq> 0 then edit_buf i (\<lambda>b. b\<lparr>bi_pa := 0\<rparr>) h else h)"
  define h2 where "h2 = (if usage AND eBUFFER_USAGE_SW_MASK \<noteq> 0 \<and> bi_va ?b \<noteq> 0 then edit_buf i (\<lambda>b. b\<lparr>bi_va := 0\<rparr>) h1 else h1)"
  have 2: "same_shape h h2 \<and> hp_imp h2 = hp_imp h" by (auto simp: h2_def h1_def same_shape_address)
  obtain h3 where 3: "clear_addresses is usage h2 = Some h3" "same_shape h2 h3" "hp_imp h3 = hp_imp h2"
    using Cons.IH [of h2] Cons.prems 2 same_shape_length [of h h2] by auto
  have "buf_at i h = Some ?b" using Cons.prems by (simp add: list_at_Some buf_at_def)
  then have e: "clear_addresses (i # is) usage h = clear_addresses is usage h2"
    by (simp only: clear_addresses.simps Option.bind.simps h1_def [symmetric] h2_def [symmetric] Let_def)
  show ?case unfolding e using 2 3 same_shape_trans [of h h2 h3] by auto
qed simp

lemma set_planes: "set [0..<n] \<subseteq> {..<n}"
  by auto

interpretation dummy: heap_provider "dummy_ops :: (DummyHeap, 'k) heap_ops" sound_dummy fresh_dummy
proof unfold_locales
  fix h :: "DummyHeap Heap" and d :: "'k Ion" and ok h' d'
  assume "fresh_dummy (hp_imp h)" "length (hp_mvBufInfo h) = hp_mPlaneCount h" "impInit dummy_ops (h, d) = Some (ok, h', d')"
  then show "same_place h h' \<and> (ok \<longrightarrow> sound_dummy (hp_imp h') (length (hp_mvBufInfo h')))"
    using dummy_init_planes_frame [of "[0..<hp_mPlaneCount h]" h ok h']
    by (auto simp: dummy_ops_def dummy_impInit_def sound_dummy_def fresh_dummy_def same_place_def)
next
  fix h :: "DummyHeap Heap" and d :: "'k Ion" and usage
  assume a: "sound_dummy (hp_imp h) (length (hp_mvBufInfo h))"
  from dummy_lock_planes_shape [OF a set_planes, of usage]
  show "\<exists>ok h' d'. impLockBuf dummy_ops usage (h, d) = Some (ok, h', d') \<and> same_shape h h' \<and> sound_dummy (hp_imp h') (length (hp_mvBufInfo h'))"
    using a by (auto simp: dummy_ops_def dummy_impLockBuf_def same_shape_length)
  from clear_addresses_shape [OF set_planes, of h usage]
  show "\<exists>h' d'. impUnlockBuf dummy_ops usage (h, d) = Some (True, h', d') \<and> same_shape h h' \<and> sound_dummy (hp_imp h') (length (hp_mvBufInfo h'))"
    using a by (auto simp: dummy_ops_def dummy_impUnlockBuf_def same_shape_length)
qed

end
