(* ===== verification/IonProps.thy ===== *)
theory IonProps
  imports HeapProviders "HOL-Library.Multiset"
begin

text \<open>
  The heap of the driver's memory keeps the contract of the heaps and gives back to the driver
  everything it took: devices, handles, descriptors and mappings, on every path.
  \<open>ion_laws\<close> states what the driver does with them.
\<close>

unbundle bit_operations_syntax

section \<open>The resources of the driver\<close>

datatype ion_resource = R_device int | R_handle int | R_fd int | R_map size_t

text \<open>
  The accounts of the driver: what it has given out and not got back, and how many imports have failed,
  after which the code frees a handle that it has not been given.
\<close>

record 'k ledger =
  lg_live :: "'k \<Rightarrow> ion_resource multiset"
  lg_failed :: "'k \<Rightarrow> nat"

definition gives :: "'k ledger \<Rightarrow> 'k \<Rightarrow> ion_resource multiset \<Rightarrow> 'k \<Rightarrow> bool" where
  "gives L k C k' \<longleftrightarrow> lg_live L k' = lg_live L k + C \<and> lg_failed L k' = lg_failed L k"

definition takes :: "'k ledger \<Rightarrow> 'k \<Rightarrow> ion_resource multiset \<Rightarrow> 'k \<Rightarrow> bool" where
  "takes L k C k' \<longleftrightarrow> lg_live L k' = lg_live L k - C \<and> lg_failed L k' = lg_failed L k"

text \<open>
  Each call gives out or takes back what its documentation says; freeing a handle that is not given
  out changes nothing. A mapping is never at address 0, which \<open>mmap\<close> guarantees for a call that does
  not ask for a fixed address.
\<close>

definition ion_laws :: "'k ion_kernel \<Rightarrow> 'k ledger \<Rightarrow> bool" where
  "ion_laws K L \<longleftrightarrow>
     (\<forall>k fd k'. ion_open K k = (fd, k') \<longrightarrow> gives L k (if 0 \<le> fd then {#R_device fd#} else {#}) k') \<and>
     (\<forall>fd k. takes L k {#R_device fd#} (ion_close K fd k)) \<and>
     (\<forall>dev fd k ok x k'. ion_import K dev fd k = (ok, x, k') \<longrightarrow>
        (if ok then gives L k {#R_handle x#} k' else lg_live L k' = lg_live L k \<and> lg_failed L k' = Suc (lg_failed L k))) \<and>
     (\<forall>dev x s c k. gives L k {#} (ion_config K dev x s c k)) \<and>
     (\<forall>dev x k. gives L k {#} (snd (ion_phys K dev x k))) \<and>
     (\<forall>dev x k. gives L k {#} (ion_sync K dev x k)) \<and>
     (\<forall>dev n b c k r k'. ion_alloc_camera K dev n b c k = (r, k') \<longrightarrow>
        r \<noteq> Some 0 \<and> gives L k (case r of None \<Rightarrow> {#} | Some x \<Rightarrow> {#R_handle x#}) k') \<and>
     (\<forall>dev x k r k'. ion_share K dev x k = (r, k') \<longrightarrow>
        gives L k (case r of None \<Rightarrow> {#} | Some fd \<Rightarrow> {#R_fd fd#}) k' \<and> (r = None \<or> 0 \<le> the r)) \<and>
     (\<forall>dev n p fd k va k'. ion_mmap K dev n p fd k = (va, k') \<longrightarrow>
        va \<noteq> 0 \<and> gives L k (if va = - 1 then {#} else {#R_map va#}) k') \<and>
     (\<forall>dev va n k. takes L k (if va = - 1 then {#} else {#R_map va#}) (ion_munmap K dev va n k)) \<and>
     (\<forall>dev fd k. takes L k {#R_fd fd#} (ion_share_close K dev fd k)) \<and>
     (\<forall>dev x k. takes L k {#R_handle x#} (ion_free K dev x k))"

lemma ion_laws_D:
  assumes "ion_laws K L"
  shows ion_law_open: "ion_open K k = (fd, k') \<Longrightarrow> gives L k (if 0 \<le> fd then {#R_device fd#} else {#}) k'"
    and ion_law_close: "takes L k {#R_device fd#} (ion_close K fd k)"
    and ion_law_import: "ion_import K dev fd k = (ok, x, k') \<Longrightarrow>
        if ok then gives L k {#R_handle x#} k' else lg_live L k' = lg_live L k \<and> lg_failed L k' = Suc (lg_failed L k)"
    and ion_law_config: "gives L k {#} (ion_config K dev x s c k)"
    and ion_law_phys: "gives L k {#} (snd (ion_phys K dev x k))"
    and ion_law_sync: "gives L k {#} (ion_sync K dev x k)"
    and ion_law_alloc: "ion_alloc_camera K dev n b nc k = (r, k') \<Longrightarrow>
        r \<noteq> Some 0 \<and> gives L k (case r of None \<Rightarrow> {#} | Some x \<Rightarrow> {#R_handle x#}) k'"
    and ion_law_share: "ion_share K dev x k = (s', k') \<Longrightarrow>
        gives L k (case s' of None \<Rightarrow> {#} | Some fd \<Rightarrow> {#R_fd fd#}) k' \<and> (s' = None \<or> 0 \<le> the s')"
    and ion_law_mmap: "ion_mmap K dev n p fd k = (va, k') \<Longrightarrow>
        va \<noteq> 0 \<and> gives L k (if va = - 1 then {#} else {#R_map va#}) k'"
    and ion_law_munmap: "takes L k (if va = - 1 then {#} else {#R_map va#}) (ion_munmap K dev va n k)"
    and ion_law_share_close: "takes L k {#R_fd fd#} (ion_share_close K dev fd k)"
    and ion_law_free: "takes L k {#R_handle x#} (ion_free K dev x k)"
  using assms unfolding ion_laws_def by simp_all

text \<open>
  \<open>owes L n A k\<close>: the driver has given out nothing but \<open>A\<close>, and exactly \<open>A\<close> as long as no import has failed
  since the count of failures was \<open>n\<close>.
\<close>

definition owes :: "'k ledger \<Rightarrow> nat \<Rightarrow> ion_resource multiset \<Rightarrow> 'k \<Rightarrow> bool" where
  "owes L n A k \<longleftrightarrow> lg_live L k \<subseteq># A \<and> n \<le> lg_failed L k \<and> (lg_failed L k = n \<longrightarrow> lg_live L k = A)"

lemma owes_start: "owes L (lg_failed L k) (lg_live L k) k"
  by (simp add: owes_def)

lemma owes_gives: "gives L k C k' \<Longrightarrow> owes L n A k \<Longrightarrow> owes L n (A + C) k'"
  by (auto simp: owes_def gives_def)

lemma owes_gives_nothing: "gives L k {#} k' \<Longrightarrow> owes L n A k \<Longrightarrow> owes L n A k'"
  using owes_gives by fastforce

lemma owes_takes: "takes L k C k' \<Longrightarrow> owes L n (A + C) k \<Longrightarrow> owes L n A k'"
  by (auto simp: owes_def takes_def subset_eq_diff_conv)

lemma owes_takes_nothing: "takes L k {#} k' \<Longrightarrow> owes L n A k \<Longrightarrow> owes L n A k'"
  using owes_takes by fastforce

lemma gives_trans: "gives L k C k1 \<Longrightarrow> gives L k1 D k2 \<Longrightarrow> gives L k (C + D) k2"
  by (simp add: gives_def ac_simps)

text \<open>A descriptor is imported, its handle used and freed: balanced, also when the import fails.\<close>

lemma owes_import_free:
  assumes "ion_laws K L" "ion_import K dev fd k = (ok, x, k1)" "gives L k1 {#} k2" "owes L n A k"
  shows "owes L n A (ion_free K dev x k2)"
proof (cases ok)
  case True
  then have "owes L n (A + {#R_handle x#}) k2"
    using ion_law_import [OF assms(1,2)] by (intro owes_gives_nothing [OF assms(3)] owes_gives [OF _ assms(4)]) simp
  then show ?thesis by (rule owes_takes [OF ion_law_free [OF assms(1)]])
next
  case False
  then have "lg_live L k2 = lg_live L k" "lg_failed L k2 = Suc (lg_failed L k)"
    using ion_law_import [OF assms(1,2)] assms(3) by (simp_all add: gives_def)
  then show ?thesis
    using assms(4) ion_law_free [OF assms(1), of k2 x dev]
    by (auto simp: owes_def takes_def intro: subset_mset.order_trans [OF diff_subset_eq_self])
qed

lemma helpMapPhyAddr_owes:
  assumes "helpMapPhyAddr K memID s c p (h, d) = (ok, pa, h', d')" "ion_laws K L" "owes L n A (g_k d)"
  shows "owes L n A (g_k d')"
proof -
  obtain ok1 x k1 where i: "ion_import K (g_IonDevFD d) memID (g_k d) = (ok1, x, k1)" by (metis prod_cases3)
  define k2 where "k2 = ion_config K (g_IonDevFD d) x s c k1"
  define r where "r = ion_phys K (g_IonDevFD d) x k2"
  have "gives L k1 {#} (snd r)"
    using gives_trans [OF ion_law_config [OF assms(2), of k1] ion_law_phys [OF assms(2)]] by (simp add: r_def k2_def)
  note o = owes_import_free [OF assms(2) i this assms(3)]
  have "d' = d \<or> g_k d' = ion_free K (g_IonDevFD d) x (snd r)"
    using assms(1) i by (auto simp: helpMapPhyAddr_def r_def k2_def Let_def split: option.splits if_splits prod.splits)
  then show ?thesis using o assms(3) by auto
qed

lemma flush_one_owes:
  assumes "ion_laws K L" "owes L n A (g_k d)"
  shows "owes L n A (g_k (flush_one K memID d))"
proof -
  obtain ok x k1 where i: "ion_import K (g_IonDevFD d) memID (g_k d) = (ok, x, k1)" by (metis prod_cases3)
  from owes_import_free [OF assms(1) i ion_law_sync [OF assms(1)] assms(2)]
  show ?thesis using assms(2) i by (simp add: flush_one_def)
qed

definition held_info :: "MyHeapInfo \<Rightarrow> ion_resource multiset" where
  "held_info x = (if 0 \<le> mh_heapID x then {#R_fd (mh_heapID x)#} else {#}) +
     (if mh_pIonHandle x \<noteq> 0 then {#R_handle (mh_pIonHandle x)#} else {#})"

definition held_map :: "MyBufInfo \<Rightarrow> ion_resource multiset" where
  "held_map b = (if bi_va b = 0 \<or> bi_va b = - 1 then {#} else {#R_map (bi_va b)#})"

lemma unmap_owes:
  assumes "ion_laws K L" "owes L n (A + held_map b) k"
  shows "owes L n A (if bi_va b \<noteq> 0 then ion_munmap K dev (bi_va b) m k else k)"
proof (cases "bi_va b = 0")
  case False
  then have "held_map b = (if bi_va b = - 1 then {#} else {#R_map (bi_va b)#})" by (simp add: held_map_def)
  with assms(2) False show ?thesis by (simp only: owes_takes [OF ion_law_munmap [OF assms(1)]] if_True not_False_eq_True)
qed (use assms(2) in \<open>simp add: held_map_def\<close>)

definition held_device :: "int \<Rightarrow> ion_resource multiset" where
  "held_device fd = (if 0 \<le> fd then {#R_device fd#} else {#})"

definition held_by :: "IonHeap \<Rightarrow> ion_resource multiset" where
  "held_by i = held_device (nh_mIonDevFD i) + sum_list (map held_info (nh_mvHeapInfo i)) + sum_list (map held_map (nh_mvBufInfo i))"

lemma sum_list_update:
  fixes f :: "'a \<Rightarrow> 'b multiset"
  assumes "i < length xs"
  shows "sum_list (map f (xs[i := y])) + f (xs ! i) = sum_list (map f xs) + f y"
  using assms by (induction xs arbitrary: i) (auto simp: nth_Cons ac_simps split: nat.splits)

text \<open>What the heaps share of the driver's device stays as it is.\<close>

definition same_users :: "'k Ion \<Rightarrow> 'k Ion \<Rightarrow> bool" where
  "same_users d d' \<longleftrightarrow> g_IonDevFD d' = g_IonDevFD d \<and> g_IonCount d' = g_IonCount d"

lemma same_users_simps [simp]: "same_users d d" "same_users d (d\<lparr>g_k := k\<rparr>)"
  by (simp_all add: same_users_def)

lemma same_users_trans: "same_users d d1 \<Longrightarrow> same_users d1 d2 \<Longrightarrow> same_users d d2"
  by (simp add: same_users_def)

lemma sum_list_member:
  fixes f :: "'a \<Rightarrow> 'b multiset"
  assumes "i < length xs"
  shows "f (xs ! i) \<subseteq># sum_list (map f xs)"
proof -
  have "sum_list (map f xs) = sum_list (map f (take i xs)) + f (xs ! i) + sum_list (map f (drop (Suc i) xs))"
    by (subst id_take_nth_drop [OF assms]) (simp add: ac_simps)
  then show ?thesis by simp
qed

lemma doAllocIon_held:
  assumes "ion_laws K L" "doAllocIon K extra dev \<lparr>mh_heapID = - 1, mh_pIonHandle = 0\<rparr> b k = (ok, x, k')"
  shows "gives L k (held_info x) k'"
proof -
  obtain r k1 where a: "ion_alloc_camera K dev (bi_sizeInBytes b) (scast (mb_iBoundaryInBytesToAlloc b)) (ax_nocache extra \<noteq> 0) k = (r, k1)"
    by (metis surj_pair)
  have 1: "r \<noteq> Some 0 \<and> gives L k (case r of None \<Rightarrow> {#} | Some x \<Rightarrow> {#R_handle x#}) k1"
    by (rule ion_law_alloc [OF assms(1) a])
  show ?thesis
  proof (cases r)
    case None
    then show ?thesis using assms(2) a 1 by (auto simp: doAllocIon_def held_info_def)
  next
    case (Some y)
    obtain s k2 where b: "ion_share K dev y k1 = (s, k2)" by (metis surj_pair)
    from ion_law_share [OF assms(1) b] show ?thesis using assms(2) a b 1 Some
      by (cases s) (auto simp: doAllocIon_def held_info_def gives_def)
  qed
qed

lemma doDeallocIon_held:
  assumes "ion_laws K L" "doDeallocIon K dev x k = (x', k')"
  shows "takes L k (held_info x) k' \<and> held_info x' = {#}"
  using assms(2) ion_law_share_close [OF assms(1)] ion_law_free [OF assms(1)]
  by (auto simp: doDeallocIon_def held_info_def takes_def Let_def split: if_splits prod.splits)

lemma dealloc_planes_held:
  assumes "ion_laws K L" "dealloc_planes K dev xs k = (xs', k')" "owes L n (M + sum_list (map held_info xs)) k"
  shows "owes L n M k' \<and> sum_list (map held_info xs') = {#} \<and> length xs' = length xs"
  using assms(2,3)
proof (induction xs arbitrary: k xs' k')
  case (Cons x xs)
  obtain x1 k1 where 1: "doDeallocIon K dev x k = (x1, k1)" by (metis surj_pair)
  obtain xs1 k2 where 2: "dealloc_planes K dev xs k1 = (xs1, k2)" by (metis surj_pair)
  have "owes L n (M + sum_list (map held_info xs) + held_info x) k" using Cons.prems(2) by (simp add: ac_simps)
  then have "owes L n (M + sum_list (map held_info xs)) k1" "held_info x1 = {#}"
    using doDeallocIon_held [OF assms(1) 1] by (blast intro: owes_takes)+
  then show ?case using Cons.IH [OF 2] Cons.prems(1) 1 2 by auto
qed simp

lemma dealloc_planes_length: "length (fst (dealloc_planes K dev xs k)) = length xs"
  by (induction xs arbitrary: k) (simp_all add: Let_def split: prod.splits, metis fst_conv)

lemma close_device_shape:
  assumes "close_device K (h, d) = (h', d')"
  shows "nh_mIonDevFD (hp_imp h') < 0 \<and> nh_mvHeapInfo (hp_imp h') = nh_mvHeapInfo (hp_imp h) \<and>
    nh_mvBufInfo (hp_imp h') = nh_mvBufInfo (hp_imp h) \<and> same_shape h h' \<and> same_users d d'"
  using assms by (auto simp: close_device_def same_shape_imp split: if_splits)

lemma close_device_held:
  assumes "ion_laws K L" "owes L n (M + held_by (hp_imp h)) (g_k d)" "close_device K (h, d) = (h', d')"
  shows "owes L n (M + held_by (hp_imp h')) (g_k d')"
proof (cases "0 \<le> nh_mIonDevFD (hp_imp h)")
  case True
  let ?fd = "nh_mIonDevFD (hp_imp h)"
  have "h' = h\<lparr>hp_imp := (hp_imp h)\<lparr>nh_mIonDevFD := - 1\<rparr>\<rparr>" "d' = d\<lparr>g_k := ion_close K ?fd (g_k d)\<rparr>"
    using True assms(3) by (auto simp: close_device_def)
  moreover have "owes L n (M + held_by ((hp_imp h)\<lparr>nh_mIonDevFD := - 1\<rparr>) + {#R_device ?fd#}) (g_k d)"
    using True assms(2) by (simp add: held_by_def held_device_def ac_simps)
  ultimately show ?thesis using owes_takes [OF ion_law_close [OF assms(1)]] by simp
next
  case False
  then show ?thesis using assms(2,3) by (simp add: close_device_def)
qed

section \<open>Initialisation\<close>

definition sound_ion :: "IonHeap \<Rightarrow> nat \<Rightarrow> bool" where
  "sound_ion i n \<longleftrightarrow> length (nh_mvHeapInfo i) = n \<and> length (nh_mvBufInfo i) = n"

definition fresh_ion :: "IonHeap \<Rightarrow> bool" where
  "fresh_ion i \<longleftrightarrow> nh_mvHeapInfo i = [] \<and> nh_mvBufInfo i = [] \<and> nh_mIonDevFD i < 0"

text \<open>What one plane adds when its stride fits.\<close>

definition ion_init_plane :: "'k ion_kernel \<Rightarrow> nat \<Rightarrow> size_t \<Rightarrow> size_t \<Rightarrow> MUINT32 \<Rightarrow> IonHeap Heap \<times> 'k Ion \<Rightarrow> bool \<times> IonHeap Heap \<times> 'k Ion" where
  "ion_init_plane K i strides n boundary = (\<lambda>(h, d).
     let pBufInfo = \<lparr>bi_pa = 0, bi_va = 0, bi_stridesInBytes = strides, bi_sizeInBytes = n,
                     mb_iBoundaryInBytesToAlloc = boundary, mb_iProt_flag_va = 0\<rparr>;
         (allocated, pHeapInfo, k) = doAllocIon K (nh_mExtraParam (hp_imp h)) (nh_mIonDevFD (hp_imp h))
                                       \<lparr>mh_heapID = - 1, mh_pIonHandle = 0\<rparr> pBufInfo (g_k d)
     in (allocated, h\<lparr>hp_imp := (hp_imp h)\<lparr>nh_mvHeapInfo := nh_mvHeapInfo (hp_imp h) @ [pHeapInfo],
                                        nh_mvBufInfo := nh_mvBufInfo (hp_imp h) @ [pBufInfo]\<rparr>\<rparr>, d\<lparr>g_k := k\<rparr>))"

lemma ion_init_planes_Cons:
  assumes "list_at i (nh_mBufStridesInBytesToAlloc (hp_imp h)) = Some strides" "helpCheckBufStrides i strides h = Some True"
    "helpQueryBufSizeInBytes i strides h = Some n" "list_at i (nh_mBufBoundaryInBytesToAlloc (hp_imp h)) = Some boundary"
    "ion_init_plane K i strides n boundary (h, d) = (ok, h1, d1)"
  shows "ion_init_planes K (i # is) (h, d) =
    (if ok then ion_init_planes K is (edit_buf i (\<lambda>b. b\<lparr>bi_stridesInBytes := strides, bi_sizeInBytes := n\<rparr>) h1, d1) else Some (False, h1, d1))"
  using assms by (auto simp: ion_init_plane_def Let_def split: prod.splits)

lemma ion_init_plane_held:
  assumes "ion_init_plane K i strides n boundary (h, d) = (ok, h1, d1)"
  shows "same_shape h h1 \<and> same_users d d1 \<and>
    length (nh_mvHeapInfo (hp_imp h1)) = Suc (length (nh_mvHeapInfo (hp_imp h))) \<and>
    length (nh_mvBufInfo (hp_imp h1)) = Suc (length (nh_mvBufInfo (hp_imp h))) \<and>
    nh_mBufStridesInBytesToAlloc (hp_imp h1) = nh_mBufStridesInBytesToAlloc (hp_imp h) \<and>
    nh_mBufBoundaryInBytesToAlloc (hp_imp h1) = nh_mBufBoundaryInBytesToAlloc (hp_imp h) \<and>
    (\<forall>L m M. ion_laws K L \<longrightarrow> owes L m (M + held_by (hp_imp h)) (g_k d) \<longrightarrow> owes L m (M + held_by (hp_imp h1)) (g_k d1))"
proof -
  let ?b = "\<lparr>bi_pa = 0, bi_va = 0, bi_stridesInBytes = strides, bi_sizeInBytes = n,
    mb_iBoundaryInBytesToAlloc = boundary, mb_iProt_flag_va = 0\<rparr>"
  obtain a x k where x: "doAllocIon K (nh_mExtraParam (hp_imp h)) (nh_mIonDevFD (hp_imp h))
      \<lparr>mh_heapID = - 1, mh_pIonHandle = 0\<rparr> ?b (g_k d) = (a, x, k)"
    by (metis prod_cases3)
  have e: "h1 = h\<lparr>hp_imp := (hp_imp h)\<lparr>nh_mvHeapInfo := nh_mvHeapInfo (hp_imp h) @ [x],
      nh_mvBufInfo := nh_mvBufInfo (hp_imp h) @ [?b]\<rparr>\<rparr>" "d1 = d\<lparr>g_k := k\<rparr>"
    using assms x by (simp_all add: ion_init_plane_def)
  have "held_by (hp_imp h1) = held_by (hp_imp h) + held_info x"
    by (simp add: e held_by_def held_map_def ac_simps)
  then have "owes L m (M + held_by (hp_imp h1)) (g_k d1)" if "ion_laws K L" "owes L m (M + held_by (hp_imp h)) (g_k d)" for L m M
    using owes_gives [OF doAllocIon_held [OF that(1) x] that(2)] by (simp add: e ac_simps)
  then show ?thesis by (simp add: e same_shape_imp)
qed

lemma ion_init_planes_held:
  assumes "ion_init_planes K is (h, d) = Some (ok, h', d')"
  shows "same_place h h' \<and> same_users d d' \<and>
    (length (nh_mvHeapInfo (hp_imp h)) = length (nh_mvBufInfo (hp_imp h)) \<longrightarrow> length (nh_mvHeapInfo (hp_imp h')) = length (nh_mvBufInfo (hp_imp h'))) \<and>
    (ok \<longrightarrow> length (nh_mvBufInfo (hp_imp h')) = length (nh_mvBufInfo (hp_imp h)) + length is) \<and>
    (\<forall>L n M. ion_laws K L \<longrightarrow> owes L n (M + held_by (hp_imp h)) (g_k d) \<longrightarrow> owes L n (M + held_by (hp_imp h')) (g_k d'))"
  using assms
proof (induction "is" arbitrary: h d)
  case (Cons i "is")
  from Cons.prems obtain strides c where s: "list_at i (nh_mBufStridesInBytesToAlloc (hp_imp h)) = Some strides"
      "helpCheckBufStrides i strides h = Some c"
    by auto
  show ?case
  proof (cases c)
    case True
    then obtain n boundary where n: "helpQueryBufSizeInBytes i strides h = Some n"
        "list_at i (nh_mBufBoundaryInBytesToAlloc (hp_imp h)) = Some boundary"
      using Cons.prems s by auto
    obtain a h1 d1 where p: "ion_init_plane K i strides n boundary (h, d) = (a, h1, d1)" by (metis prod_cases3)
    note i = ion_init_plane_held [OF p]
    define h2 where "h2 = edit_buf i (\<lambda>b. b\<lparr>bi_stridesInBytes := strides, bi_sizeInBytes := n\<rparr>) h1"
    have "ion_init_planes K (i # is) (h, d) = (if a then ion_init_planes K is (h2, d1) else Some (False, h1, d1))"
      unfolding h2_def by (rule ion_init_planes_Cons [OF s(1) _ n p]) (use s True in simp)
    then have e: "(if a then ion_init_planes K is (h2, d1) else Some (False, h1, d1)) = Some (ok, h', d')"
      using Cons.prems by (simp only:)
    have f: "same_place h h2" "hp_imp h2 = hp_imp h1"
      using i same_place_trans [OF _ same_place_edit] by (auto simp: h2_def same_shape_def)
    show ?thesis
    proof (cases a)
      case True
      with e have "ion_init_planes K is (h2, d1) = Some (ok, h', d')" by simp
      from Cons.IH [OF this] show ?thesis using i f same_place_trans [of h h2 h'] same_users_trans [of d d1 d'] by auto
    next
      case False
      then show ?thesis using e i by (auto simp: same_shape_def)
    qed
  qed (use Cons.prems s in auto)
qed simp

lemma ion_impInit_held:
  assumes "ion_impInit K (h, d) = Some (ok, h', d')" "fresh_ion (hp_imp h)"
  shows "same_place h h' \<and> same_users d d' \<and>
    length (nh_mvHeapInfo (hp_imp h')) = length (nh_mvBufInfo (hp_imp h')) \<and>
    (ok \<longrightarrow> length (nh_mvBufInfo (hp_imp h')) = hp_mPlaneCount h) \<and>
    (\<forall>L n M. ion_laws K L \<longrightarrow> owes L n M (g_k d) \<longrightarrow> owes L n (M + held_by (hp_imp h')) (g_k d'))"
proof -
  obtain fd k where o: "ion_open K (g_k d) = (fd, k)" by (metis surj_pair)
  define h1 where "h1 = h\<lparr>hp_imp := (hp_imp h)\<lparr>nh_mIonDevFD := fd\<rparr>\<rparr>"
  define d1 where "d1 = d\<lparr>g_k := k\<rparr>"
  have 1: "same_place h h1" "length (nh_mvHeapInfo (hp_imp h1)) = 0" "length (nh_mvBufInfo (hp_imp h1)) = 0" "same_users d d1"
    using assms(2) same_shape_imp [of h] by (simp_all add: h1_def d1_def fresh_ion_def same_shape_def)
  have l1: "owes L n (M + held_by (hp_imp h1)) (g_k d1)" if "ion_laws K L" "owes L n M (g_k d)" for L n M
    using owes_gives [OF ion_law_open [OF that(1) o] that(2)] assms(2)
    by (simp add: h1_def d1_def held_by_def fresh_ion_def held_device_def)
  have u: "ion_impInit K (h, d) = do {
     (ret, h2, d2) \<leftarrow> (if fd < 0 then Some (False, h1, d1) else ion_init_planes K [0..<hp_mPlaneCount h1] (h1, d1));
     if ret then Some (True, h2, d2)
     else let (xs, k) = dealloc_planes K (nh_mIonDevFD (hp_imp h2)) (nh_mvHeapInfo (hp_imp h2)) (g_k d2)
       in Some (False, close_device K (h2\<lparr>hp_imp := (hp_imp h2)\<lparr>nh_mvHeapInfo := xs\<rparr>\<rparr>, d2\<lparr>g_k := k\<rparr>))
   }"
    by (simp add: ion_impInit_def o h1_def d1_def Let_def)
  obtain ret h2 d2 where r: "(if fd < 0 then Some (False, h1, d1) else ion_init_planes K [0..<hp_mPlaneCount h1] (h1, d1)) = Some (ret, h2, d2)"
    using assms(1) unfolding u by (auto split: if_splits)
  have 2: "same_place h h2" "same_users d d2" "length (nh_mvHeapInfo (hp_imp h2)) = length (nh_mvBufInfo (hp_imp h2))"
      "ret \<Longrightarrow> length (nh_mvBufInfo (hp_imp h2)) = hp_mPlaneCount h"
      "\<And>L n M. ion_laws K L \<Longrightarrow> owes L n M (g_k d) \<Longrightarrow> owes L n (M + held_by (hp_imp h2)) (g_k d2)"
    using r ion_init_planes_held [of K "[0..<hp_mPlaneCount h1]" h1 d1 ret h2 d2] 1 l1 same_place_trans [of h h1 h2] same_users_trans [of d d1 d2]
    by (auto simp: h1_def split: if_splits)
  show ?thesis
  proof (cases ret)
    case True
    then have "h' = h2 \<and> d' = d2 \<and> ok" using assms(1) unfolding u r by simp
    then show ?thesis using 2 True by auto
  next
    case False
    obtain xs k3 where x: "dealloc_planes K (nh_mIonDevFD (hp_imp h2)) (nh_mvHeapInfo (hp_imp h2)) (g_k d2) = (xs, k3)" by (metis surj_pair)
    define h3 where "h3 = h2\<lparr>hp_imp := (hp_imp h2)\<lparr>nh_mvHeapInfo := xs\<rparr>\<rparr>"
    define d3 where "d3 = d2\<lparr>g_k := k3\<rparr>"
    have e: "\<not> ok" "close_device K (h3, d3) = (h', d')"
      using assms(1) x False unfolding u r by (simp_all add: h3_def d3_def)
    have len: "length xs = length (nh_mvHeapInfo (hp_imp h2))"
      using dealloc_planes_length [of K "nh_mIonDevFD (hp_imp h2)" "nh_mvHeapInfo (hp_imp h2)" "g_k d2"] x by simp
    have 3: "same_shape h2 h3" "same_users d2 d3" "nh_mvHeapInfo (hp_imp h3) = xs" "nh_mvBufInfo (hp_imp h3) = nh_mvBufInfo (hp_imp h2)"
      by (simp_all add: h3_def d3_def same_shape_imp)
    have l3: "owes L n (M + held_by (hp_imp h3)) (g_k d3)" if "ion_laws K L" "owes L n M (g_k d)" for L n M
      using dealloc_planes_held [OF that(1) x, of n "M + held_device (nh_mIonDevFD (hp_imp h2)) + sum_list (map held_map (nh_mvBufInfo (hp_imp h2)))"]
        2(5) [OF that] by (simp add: h3_def d3_def held_by_def ac_simps)
    have "owes L n (M + held_by (hp_imp h')) (g_k d')" if "ion_laws K L" "owes L n M (g_k d)" for L n M
      by (rule close_device_held [OF that(1) l3 [OF that] e(2)])
    moreover have "same_place h h'"
      using 2(1) 3(1) close_device_shape [OF e(2)] same_place_trans [of h h2 h3] same_place_trans [of h h3 h'] by (simp add: same_shape_def)
    moreover have "same_users d d'" using close_device_shape [OF e(2)] 2(2) 3(2) by (simp add: same_users_def)
    ultimately show ?thesis using close_device_shape [OF e(2)] e(1) len 3 2(3) by simp
  qed
qed

section \<open>Release\<close>

definition held_planes :: "nat list \<Rightarrow> IonHeap \<Rightarrow> ion_resource multiset" where
  "held_planes is i = sum_list (map (\<lambda>n. held_info (nh_mvHeapInfo i ! n) + held_map (nh_mvBufInfo i ! n)) is)"

lemma helpUnmapPhyAddr_imp [simp]: "hp_imp (snd (helpUnmapPhyAddr heapID h)) = hp_imp h"
  by (rule helpUnmapPhyAddr_shape)

lemma held_map_pa [simp]: "held_map (b\<lparr>bi_pa := p\<rparr>) = held_map b"
  by (simp add: held_map_def)

lemma ion_doUnmapPhyAddr_imp:
  "hp_imp (snd (ion_doUnmapPhyAddr heapID i h)) =
     (hp_imp h)\<lparr>nh_mvBufInfo := (nh_mvBufInfo (hp_imp h))[i := (nh_mvBufInfo (hp_imp h) ! i)\<lparr>bi_pa := 0\<rparr>]\<rparr>"
  using helpUnmapPhyAddr_imp [of heapID h]
  by (auto simp: ion_doUnmapPhyAddr_def edit_stored_def helpUnmapPhyAddr_def split: prod.splits)

text \<open>One plane of the release: its entry holds nothing any more, the others are as before.\<close>

lemma ion_uninit_plane:
  assumes "i < length (nh_mvHeapInfo (hp_imp h))" "i < length (nh_mvBufInfo (hp_imp h))"
  shows "\<exists>h' d'. ion_uninit_planes K (i # is) (h, d) = ion_uninit_planes K is (h', d') \<and> same_users d d' \<and>
    nh_mIonDevFD (hp_imp h') = nh_mIonDevFD (hp_imp h) \<and>
    length (nh_mvHeapInfo (hp_imp h')) = length (nh_mvHeapInfo (hp_imp h)) \<and>
    length (nh_mvBufInfo (hp_imp h')) = length (nh_mvBufInfo (hp_imp h)) \<and>
    (\<forall>n. n \<noteq> i \<longrightarrow> nh_mvHeapInfo (hp_imp h') ! n = nh_mvHeapInfo (hp_imp h) ! n \<and> nh_mvBufInfo (hp_imp h') ! n = nh_mvBufInfo (hp_imp h) ! n) \<and>
    (\<forall>L n M. ion_laws K L \<longrightarrow> owes L n (M + held_planes [i] (hp_imp h)) (g_k d) \<longrightarrow> owes L n M (g_k d'))"
proof -
  define p where "p = nh_mvHeapInfo (hp_imp h) ! i"
  define b where "b = nh_mvBufInfo (hp_imp h) ! i"
  define dev where "dev = nh_mIonDevFD (hp_imp h)"
  define k1 where "k1 = (if bi_va b \<noteq> 0 then ion_munmap K dev (bi_va b) (bi_sizeInBytes b) (g_k d) else g_k d)"
  obtain x k where x: "doDeallocIon K dev p k1 = (x, k)" by (metis surj_pair)
  have l: "owes L n M k" if "ion_laws K L" "owes L n (M + held_planes [i] (hp_imp h)) (g_k d)" for L n M
  proof -
    have "owes L n (M + held_info p + held_map b) (g_k d)"
      using that(2) by (simp add: held_planes_def p_def b_def ac_simps)
    then have "owes L n (M + held_info p) k1"
      unfolding k1_def by (rule unmap_owes [OF that(1)])
    then show ?thesis using doDeallocIon_held [OF that(1) x] by (blast intro: owes_takes)
  qed
  define h1 where "h1 = (if bi_va b \<noteq> 0 then edit_stored i (\<lambda>b. b\<lparr>bi_va := 0, mb_iProt_flag_va := 0\<rparr>) h else h)"
  define h2 where "h2 = (if bi_pa b \<noteq> 0 then edit_stored i (\<lambda>b. b\<lparr>bi_pa := 0\<rparr>) (snd (ion_doUnmapPhyAddr (mh_heapID p) i h1)) else h1)"
  define h3 where "h3 = h2\<lparr>hp_imp := (hp_imp h2)\<lparr>nh_mvHeapInfo := (nh_mvHeapInfo (hp_imp h2))[i := x]\<rparr>\<rparr>"
  have at: "list_at i (nh_mvHeapInfo (hp_imp h)) = Some p" "list_at i (nh_mvBufInfo (hp_imp h)) = Some b"
    using assms by (simp_all add: list_at_Some p_def b_def)
  have "ion_uninit_planes K (i # is) (h, d) = ion_uninit_planes K is (h3, d\<lparr>g_k := k\<rparr>)"
    using x unfolding ion_uninit_planes.simps at Option.bind.simps h3_def h2_def h1_def k1_def dev_def
    by (cases "bi_va b = 0") (simp_all add: Let_def)
  moreover have "nh_mIonDevFD (hp_imp h3) = nh_mIonDevFD (hp_imp h) \<and>
    length (nh_mvHeapInfo (hp_imp h3)) = length (nh_mvHeapInfo (hp_imp h)) \<and>
    length (nh_mvBufInfo (hp_imp h3)) = length (nh_mvBufInfo (hp_imp h)) \<and>
    (\<forall>n. n \<noteq> i \<longrightarrow> nh_mvHeapInfo (hp_imp h3) ! n = nh_mvHeapInfo (hp_imp h) ! n \<and> nh_mvBufInfo (hp_imp h3) ! n = nh_mvBufInfo (hp_imp h) ! n)"
    by (simp add: h3_def h2_def h1_def edit_stored_def ion_doUnmapPhyAddr_imp)
  ultimately show ?thesis using l by (intro exI [of _ h3] exI [of _ "d\<lparr>g_k := k\<rparr>"]) simp
qed

lemma held_planes_Cons: "held_planes (i # is) x = held_planes [i] x + held_planes is x"
  by (simp add: held_planes_def)

lemma ion_uninit_planes_held:
  assumes "distinct is" "set is \<subseteq> {..<length (nh_mvHeapInfo (hp_imp h))}" "set is \<subseteq> {..<length (nh_mvBufInfo (hp_imp h))}"
  shows "\<exists>h' d'. ion_uninit_planes K is (h, d) = Some (h', d') \<and> same_users d d' \<and> nh_mIonDevFD (hp_imp h') = nh_mIonDevFD (hp_imp h) \<and>
    (\<forall>L n M. ion_laws K L \<longrightarrow> owes L n (M + held_planes is (hp_imp h)) (g_k d) \<longrightarrow> owes L n M (g_k d'))"
  using assms
proof (induction "is" arbitrary: h d)
  case (Cons i "is")
  have "i < length (nh_mvHeapInfo (hp_imp h))" "i < length (nh_mvBufInfo (hp_imp h))" using Cons.prems by auto
  from ion_uninit_plane [OF this, of K "is" d]
  obtain h1 d1 where 1: "ion_uninit_planes K (i # is) (h, d) = ion_uninit_planes K is (h1, d1)" "same_users d d1"
      "nh_mIonDevFD (hp_imp h1) = nh_mIonDevFD (hp_imp h)"
      "length (nh_mvHeapInfo (hp_imp h1)) = length (nh_mvHeapInfo (hp_imp h))"
      "length (nh_mvBufInfo (hp_imp h1)) = length (nh_mvBufInfo (hp_imp h))"
      "\<And>n. n \<noteq> i \<Longrightarrow> nh_mvHeapInfo (hp_imp h1) ! n = nh_mvHeapInfo (hp_imp h) ! n \<and> nh_mvBufInfo (hp_imp h1) ! n = nh_mvBufInfo (hp_imp h) ! n"
      "\<And>L n M. ion_laws K L \<Longrightarrow> owes L n (M + held_planes [i] (hp_imp h)) (g_k d) \<Longrightarrow> owes L n M (g_k d1)"
    by blast
  obtain h2 d2 where 2: "ion_uninit_planes K is (h1, d1) = Some (h2, d2)" "same_users d1 d2"
      "nh_mIonDevFD (hp_imp h2) = nh_mIonDevFD (hp_imp h1)"
      "\<And>L n M. ion_laws K L \<Longrightarrow> owes L n (M + held_planes is (hp_imp h1)) (g_k d1) \<Longrightarrow> owes L n M (g_k d2)"
    using Cons.IH [of h1 d1] Cons.prems 1(4,5) by auto
  have "x \<noteq> i" if "x \<in> set is" for x using Cons.prems that by auto
  then have "held_planes is (hp_imp h1) = held_planes is (hp_imp h)"
    unfolding held_planes_def by (intro arg_cong [where f = sum_list] map_cong refl) (simp add: 1(6))
  then have "owes L n M (g_k d2)" if "ion_laws K L" "owes L n (M + held_planes (i # is) (hp_imp h)) (g_k d)" for L n M
    using 2(4) [OF that(1), of n M] 1(7) [OF that(1), of n "M + held_planes is (hp_imp h)"] that(2)
    by (simp add: held_planes_Cons [of i "is"] ac_simps)
  then show ?case using 1(1-3) 2(1-3) same_users_trans [of d d1 d2] by auto
qed (simp add: held_planes_def)

lemma held_by_planes:
  assumes "length (nh_mvHeapInfo i) = length (nh_mvBufInfo i)"
  shows "held_by i = held_device (nh_mIonDevFD i) + held_planes [0..<length (nh_mvBufInfo i)] i"
proof -
  have "sum_list (map f xs) + sum_list (map g ys) = sum_list (map (\<lambda>n. f (xs ! n) + g (ys ! n)) [0..<length ys])"
    if "length xs = length ys" for f :: "MyHeapInfo \<Rightarrow> ion_resource multiset" and g :: "MyBufInfo \<Rightarrow> ion_resource multiset" and xs ys
    using that
  proof (induction xs ys rule: list_induct2)
    case (Cons x xs y ys)
    then show ?case by (simp add: upt_conv_Cons map_Suc_upt [symmetric] ac_simps comp_def del: upt_Suc map_Suc_upt)
  qed simp
  from this [OF assms] show ?thesis by (simp add: held_by_def held_planes_def ac_simps)
qed

definition held_shared :: "'k Ion \<Rightarrow> ion_resource multiset" where
  "held_shared d = (if 0 < g_IonCount d then held_device (g_IonDevFD d) else {#})"

lemma ion_impUninit_held:
  assumes "length (nh_mvHeapInfo (hp_imp h)) = length (nh_mvBufInfo (hp_imp h))"
  shows "\<exists>h' d'. ion_impUninit K (h, d) = Some (True, h', d') \<and> same_users d d' \<and>
    (\<forall>L n M. ion_laws K L \<longrightarrow> owes L n (M + held_by (hp_imp h)) (g_k d) \<longrightarrow> owes L n M (g_k d'))"
proof -
  let ?is = "[0..<length (nh_mvBufInfo (hp_imp h))]"
  obtain h1 d1 where 1: "ion_uninit_planes K ?is (h, d) = Some (h1, d1)" "same_users d d1"
      "nh_mIonDevFD (hp_imp h1) = nh_mIonDevFD (hp_imp h)"
      "\<And>L n M. ion_laws K L \<Longrightarrow> owes L n (M + held_planes ?is (hp_imp h)) (g_k d) \<Longrightarrow> owes L n M (g_k d1)"
  proof -
    have "set ?is \<subseteq> {..<length (nh_mvHeapInfo (hp_imp h))}" "set ?is \<subseteq> {..<length (nh_mvBufInfo (hp_imp h))}"
      using assms by auto
    from ion_uninit_planes_held [OF distinct_upt this, of K d] show ?thesis using that by blast
  qed
  obtain h2 d2 where 2: "close_device K (h1, d1) = (h2, d2)" by (metis surj_pair)
  have "owes L n M (g_k d2)" if l: "ion_laws K L" "owes L n (M + held_by (hp_imp h)) (g_k d)" for L n M
  proof -
    have "owes L n (M + held_device (nh_mIonDevFD (hp_imp h))) (g_k d1)"
      using 1(4) [OF l(1)] l(2) by (simp add: held_by_planes [OF assms] ac_simps)
    then show ?thesis using 2 1(3) owes_takes [OF ion_law_close [OF l(1)]]
      by (auto simp: close_device_def held_device_def split: if_splits)
  qed
  then show ?thesis using 1 2 close_device_shape [OF 2] same_users_trans [of d d1 d2] by (auto simp: ion_impUninit_def)
qed

lemma ion_uninitLocked_held:
  assumes "length (nh_mvHeapInfo (hp_imp h)) = length (nh_mvBufInfo (hp_imp h))"
  shows "\<exists>h' d'. uninitLocked K (ion_ops K) (h, d) = Some (True, h', d') \<and>
    g_IonCount d' = (if 0 < g_IonCount d then g_IonCount d - 1 else g_IonCount d) \<and>
    (\<forall>L n M. ion_laws K L \<longrightarrow> owes L n (M + held_by (hp_imp h) + held_shared d) (g_k d) \<longrightarrow> owes L n (M + held_shared d') (g_k d'))"
proof -
  obtain h1 d1 where 1: "ion_impUninit K (h, d) = Some (True, h1, d1)" "same_users d d1"
      "\<And>L n M. ion_laws K L \<Longrightarrow> owes L n (M + held_by (hp_imp h)) (g_k d) \<Longrightarrow> owes L n M (g_k d1)"
    using ion_impUninit_held [OF assms, of K d] by blast
  have l: "owes L n (M + held_shared d) (g_k d1)" if "ion_laws K L" "owes L n (M + held_by (hp_imp h) + held_shared d) (g_k d)" for L n M
    using 1(3) [OF that(1), of n "M + held_shared d"] that(2) by (simp add: ac_simps)
  define h2 where "h2 = h1\<lparr>hp_mvBufInfo := []\<rparr>"
  define d2 where "d2 = (if g_IonCount d1 \<le> 0 then d1
     else let d' = d1\<lparr>g_IonCount := g_IonCount d1 - 1\<rparr> in
       if g_IonCount d1 = 1 \<and> g_IonDevFD d1 \<ge> 0 then d'\<lparr>g_IonDevFD := - 1, g_k := ion_close K (g_IonDevFD d1) (g_k d')\<rparr> else d')"
  have e: "uninitLocked K (ion_ops K) (h, d) = Some (True, h2, d2)"
    using 1(1) by (auto simp: uninitLocked_def ion_ops_def h2_def d2_def Let_def)
  have "owes L n (M + held_shared d2) (g_k d2)" if m: "ion_laws K L" "owes L n (M + held_by (hp_imp h) + held_shared d) (g_k d)" for L n M
  proof (cases "g_IonCount d1 = 1 \<and> 0 \<le> g_IonDevFD d1")
    case True
    have "owes L n (M + {#R_device (g_IonDevFD d1)#}) (g_k d1)"
      using l [OF m] True 1(2) by (simp add: held_shared_def held_device_def same_users_def)
    from owes_takes [OF ion_law_close [OF m(1)] this] True show ?thesis
      by (simp add: d2_def held_shared_def Let_def)
  next
    case False
    have "g_k d2 = g_k d1" using False by (auto simp: d2_def Let_def)
    moreover have "held_shared d2 = held_shared d"
      using False 1(2) by (auto simp: d2_def Let_def held_shared_def held_device_def same_users_def)
    ultimately show ?thesis using l [OF m] by simp
  qed
  moreover have "g_IonCount d2 = (if 0 < g_IonCount d then g_IonCount d - 1 else g_IonCount d)"
    using 1(2) by (auto simp: d2_def same_users_def Let_def)
  ultimately show ?thesis using e by blast
qed

section \<open>Locking\<close>

text \<open>What a step of the locks keeps: shape, lengths, users and the account of the resources.\<close>

definition ion_keeps :: "'k ion_kernel \<Rightarrow> IonHeap Heap \<times> 'k Ion \<Rightarrow> IonHeap Heap \<times> 'k Ion \<Rightarrow> bool" where
  "ion_keeps K = (\<lambda>(h, d) (h', d'). same_shape h h' \<and> same_users d d' \<and>
     length (nh_mvHeapInfo (hp_imp h')) = length (nh_mvHeapInfo (hp_imp h)) \<and>
     length (nh_mvBufInfo (hp_imp h')) = length (nh_mvBufInfo (hp_imp h)) \<and>
     (\<forall>L n M. ion_laws K L \<longrightarrow> owes L n (M + held_by (hp_imp h)) (g_k d) \<longrightarrow> owes L n (M + held_by (hp_imp h')) (g_k d')))"

lemma ion_keeps_refl [simp]: "ion_keeps K st st"
  by (auto simp: ion_keeps_def split: prod.splits)

lemma ion_keeps_trans [trans]: "ion_keeps K a b \<Longrightarrow> ion_keeps K b c \<Longrightarrow> ion_keeps K a c"
  by (auto simp: ion_keeps_def intro: same_shape_trans same_users_trans split: prod.splits)

lemma ion_keeps_address:
  assumes "ion_keeps K st (h, d)"
  shows "ion_keeps K st (edit_buf i (bi_va_update f) h, d)" "ion_keeps K st (edit_buf i (bi_pa_update f) h, d)"
  using assms by (auto simp: ion_keeps_def same_shape_address split: prod.splits)

lemma held_by_stored:
  assumes "i < length (nh_mvBufInfo (hp_imp h))"
  shows "held_by (hp_imp (edit_stored i g h)) + held_map (nh_mvBufInfo (hp_imp h) ! i) =
    held_by (hp_imp h) + held_map (g (nh_mvBufInfo (hp_imp h) ! i))"
  using sum_list_update [OF assms, of held_map "g (nh_mvBufInfo (hp_imp h) ! i)"]
  by (simp add: held_by_def edit_stored_def ac_simps)

lemma edit_stored_shape: "same_shape h (edit_stored i g h)"
  by (simp add: edit_stored_def same_shape_imp)

lemma ion_map_plane_keeps:
  assumes "i < length (nh_mvBufInfo (hp_imp h))" "b = nh_mvBufInfo (hp_imp h) ! i"
  shows "ion_keeps K (h, d) (ion_map_plane K prot i p b (h, d))"
proof (cases "(mb_iProt_flag_va b XOR prot) AND prot = 0")
  case False
  define k where "k = (if bi_va b \<noteq> 0 then ion_munmap K (nh_mIonDevFD (hp_imp h)) (bi_va b) (bi_sizeInBytes b) (g_k d) else g_k d)"
  obtain va k1 where m: "ion_mmap K (nh_mIonDevFD (hp_imp h)) (bi_sizeInBytes b) prot (mh_heapID p) k = (va, k1)" by (metis surj_pair)
  let ?g = "\<lambda>b. b\<lparr>bi_va := va, mb_iProt_flag_va := prot\<rparr> :: MyBufInfo"
  have e: "ion_map_plane K prot i p b (h, d) = (edit_stored i ?g h, d\<lparr>g_k := k1\<rparr>)"
    using False m by (simp add: ion_map_plane_def k_def Let_def)
  have "owes L n (M + held_by (hp_imp (edit_stored i ?g h))) k1" if l: "ion_laws K L" "owes L n (M + held_by (hp_imp h)) (g_k d)" for L n M
  proof -
    define R where "R = held_by (hp_imp h) - held_map b"
    have "held_map b \<subseteq># held_by (hp_imp h)"
      using sum_list_member [OF assms(1), of held_map] assms(2)
      by (simp add: held_by_def subset_mset.add_increasing)
    then have R: "held_by (hp_imp h) = R + held_map b" by (simp add: R_def)
    then have "owes L n (M + R + held_map b) (g_k d)" using l(2) by (simp add: ac_simps)
    then have "owes L n (M + R) k"
      unfolding k_def by (rule unmap_owes [OF l(1)])
    then have "owes L n (M + R + held_map (?g b)) k1"
      using owes_gives ion_law_mmap [OF l(1) m] by (fastforce simp: held_map_def)
    moreover have "held_by (hp_imp (edit_stored i ?g h)) = R + held_map (?g b)"
      using held_by_stored [OF assms(1), of ?g] R assms(2) by (simp add: ac_simps)
    ultimately show ?thesis by (simp add: ac_simps)
  qed
  then show ?thesis unfolding e by (auto simp: ion_keeps_def edit_stored_shape) (simp_all add: edit_stored_def)
qed (simp add: ion_map_plane_def)

lemma ion_doMapPhyAddr_keeps:
  assumes "i < length (nh_mvBufInfo (hp_imp h))" "ion_doMapPhyAddr K heapID i (h, d) = (ok, h', d')"
  shows "ok \<and> ion_keeps K (h, d) (h', d')"
proof -
  obtain ok1 pa h1 d1 where m: "helpMapPhyAddr K heapID (ax_security (nh_mExtraParam (hp_imp h)))
      (ax_coherence (nh_mExtraParam (hp_imp h))) 0 (h, d) = (ok1, pa, h1, d1)"
    by (metis prod_cases4)
  have 1: "ok1 \<and> same_shape h h1 \<and> hp_imp h1 = hp_imp h" by (rule helpMapPhyAddr_shape [OF m])
  have u: "same_users d d1"
    using m by (auto simp: helpMapPhyAddr_def Let_def split: option.splits if_splits prod.splits)
  define h2 where "h2 = edit_stored i (\<lambda>b. b\<lparr>bi_pa := pa\<rparr>) h1"
  have e: "(ok, h', d') = (True, h2, d1)" using assms(2) m 1 by (simp add: ion_doMapPhyAddr_def h2_def)
  have h: "held_by (hp_imp h2) = held_by (hp_imp h)"
    using held_by_stored [of i h1 "\<lambda>b. b\<lparr>bi_pa := pa\<rparr>"] assms(1) 1 by (simp add: h2_def)
  have "same_shape h h2" using 1 edit_stored_shape [of h1] same_shape_trans [of h h1 h2] by (simp add: h2_def)
  moreover have "length (nh_mvHeapInfo (hp_imp h2)) = length (nh_mvHeapInfo (hp_imp h))"
      "length (nh_mvBufInfo (hp_imp h2)) = length (nh_mvBufInfo (hp_imp h))"
    using 1 by (simp_all add: h2_def edit_stored_def)
  moreover have "\<forall>L n M. ion_laws K L \<longrightarrow> owes L n (M + held_by (hp_imp h)) (g_k d) \<longrightarrow> owes L n (M + held_by (hp_imp h2)) (g_k d1)"
  proof (intro allI impI)
    fix L n M assume "ion_laws K L" "owes L n (M + held_by (hp_imp h)) (g_k d)"
    then show "owes L n (M + held_by (hp_imp h2)) (g_k d1)" using helpMapPhyAddr_owes [OF m, of L n] h by simp
  qed
  ultimately show ?thesis using e u by (simp add: ion_keeps_def)
qed

lemma ion_lock_plane:
  assumes "i < length (nh_mvHeapInfo (hp_imp h))" "i < length (nh_mvBufInfo (hp_imp h))"
  shows "\<exists>ok h' d'. ion_lock_planes K (i # is) usage (h, d) = (if ok then ion_lock_planes K is usage (h', d') else Some (False, h', d')) \<and>
    ion_keeps K (h, d) (h', d')"
proof -
  define p where "p = nh_mvHeapInfo (hp_imp h) ! i"
  define b where "b = nh_mvBufInfo (hp_imp h) ! i"
  have at: "list_at i (nh_mvHeapInfo (hp_imp h)) = Some p" "list_at i (nh_mvBufInfo (hp_imp h)) = Some b"
    using assms by (simp_all add: list_at_Some p_def b_def)
  obtain h0 d0 where m: "ion_map_plane K (prot_of_usage usage) i p b (h, d) = (h0, d0)" by (metis surj_pair)
  have k0: "ion_keeps K (h, d) (h0, d0)" using ion_map_plane_keeps [OF assms(2) b_def] m by metis
  define va where "va = bi_va (nh_mvBufInfo (hp_imp h0) ! i)"
  define sw where "sw = (if usage AND eBUFFER_USAGE_SW_MASK = 0 then (True, h, d)
    else (va \<noteq> 0 \<and> va \<noteq> - 1, edit_buf i (\<lambda>b. b\<lparr>bi_va := va\<rparr>) h0, d0))"
  obtain ok1 h1 d1 where s: "sw = (ok1, h1, d1)" by (metis prod_cases3)
  have k1: "ion_keeps K (h, d) (h1, d1)" using s k0 by (auto simp: sw_def ion_keeps_address split: if_splits)
  then have i1: "i < length (nh_mvBufInfo (hp_imp h1))" using assms(2) by (simp add: ion_keeps_def)
  define pa where "pa = (if bi_pa (nh_mvBufInfo (hp_imp h1) ! i) = 0 then ion_doMapPhyAddr K (mh_heapID p) i (h1, d1) else (True, h1, d1))"
  obtain ok2 h2 d2 where t: "pa = (ok2, h2, d2)" by (metis prod_cases3)
  have k2: "ok2 \<and> ion_keeps K (h, d) (h2, d2)"
    using t k1 ion_doMapPhyAddr_keeps [OF i1, of K "mh_heapID p" d1 ok2 h2 d2]
    by (auto simp: pa_def split: if_splits intro: ion_keeps_trans)
  let ?h3 = "edit_buf i (\<lambda>b. b\<lparr>bi_pa := bi_pa (nh_mvBufInfo (hp_imp h2) ! i)\<rparr>) h2"
  have k3: "ion_keeps K (h, d) (?h3, d2)" using k2 by (simp add: ion_keeps_address)
  have "ion_lock_planes K (i # is) usage (h, d) =
      (if \<not> ok1 then Some (False, h1, d1)
       else if usage AND eBUFFER_USAGE_HW_MASK = 0 then ion_lock_planes K is usage (h1, d1)
       else ion_lock_planes K is usage (?h3, d2))"
  proof -
    have "(if usage AND eBUFFER_USAGE_SW_MASK = 0 then (True, h, d)
        else let (h1, d1) = ion_map_plane K (prot_of_usage usage) i p b (h, d);
                 va = bi_va (nh_mvBufInfo (hp_imp h1) ! i)
             in (va \<noteq> 0 \<and> va \<noteq> - 1, edit_buf i (\<lambda>b. b\<lparr>bi_va := va\<rparr>) h1, d1)) = (ok1, h1, d1)"
      using s [unfolded sw_def va_def] m by (auto simp: Let_def split: if_splits)
    moreover have "(if usage AND eBUFFER_USAGE_HW_MASK = 0 then (True, h1, d1)
          else let (ok, h2, d2) = (if bi_pa (nh_mvBufInfo (hp_imp h1) ! i) = 0
                                   then ion_doMapPhyAddr K (mh_heapID p) i (h1, d1) else (True, h1, d1))
               in if \<not> ok then (False, h2, d2)
                  else (True, edit_buf i (\<lambda>b. b\<lparr>bi_pa := bi_pa (nh_mvBufInfo (hp_imp h2) ! i)\<rparr>) h2, d2)) =
        (if usage AND eBUFFER_USAGE_HW_MASK = 0 then (True, h1, d1) else (True, ?h3, d2))"
      unfolding pa_def [symmetric] t using k2 by simp
    ultimately show ?thesis
      unfolding ion_lock_planes.simps at Option.bind.simps by (simp only: Let_def prod.case) simp
  qed
  then show ?thesis using k1 k3 by (metis (full_types))
qed

lemma ion_lock_planes_keeps:
  assumes "set is \<subseteq> {..<length (nh_mvHeapInfo (hp_imp h))}" "set is \<subseteq> {..<length (nh_mvBufInfo (hp_imp h))}"
  shows "\<exists>ok h' d'. ion_lock_planes K is usage (h, d) = Some (ok, h', d') \<and> ion_keeps K (h, d) (h', d')"
  using assms
proof (induction "is" arbitrary: h d)
  case (Cons i "is")
  obtain ok h1 d1 where 1: "ion_lock_planes K (i # is) usage (h, d) = (if ok then ion_lock_planes K is usage (h1, d1) else Some (False, h1, d1))"
      "ion_keeps K (h, d) (h1, d1)"
    using ion_lock_plane [of i h K "is" usage d] Cons.prems by auto
  then have "length (nh_mvHeapInfo (hp_imp h1)) = length (nh_mvHeapInfo (hp_imp h))"
      "length (nh_mvBufInfo (hp_imp h1)) = length (nh_mvBufInfo (hp_imp h))"
    by (simp_all add: ion_keeps_def)
  then obtain ok2 h2 d2 where 2: "ion_lock_planes K is usage (h1, d1) = Some (ok2, h2, d2)" "ion_keeps K (h1, d1) (h2, d2)"
    using Cons.IH [of h1 d1] Cons.prems by auto
  show ?case unfolding 1(1) using 1(2) 2 ion_keeps_trans [OF 1(2) 2(2)] by (cases ok) auto
qed auto

lemma ion_unlock_planes_eq:
  "set is \<subseteq> {..<length (nh_mvHeapInfo (hp_imp h))} \<Longrightarrow> ion_unlock_planes is usage h = clear_addresses is usage h"
proof (induction "is" arbitrary: h)
  case (Cons i "is")
  then have "ion_unlock_planes is usage h1 = clear_addresses is usage h1" if "hp_imp h1 = hp_imp h" for h1
    using that by auto
  then show ?case using Cons.prems by (cases "buf_at i h") (auto simp: list_at_Some Let_def)
qed simp

lemma ion_impUnlockBuf_keeps:
  assumes "sound_ion (hp_imp h) (length (hp_mvBufInfo h))"
  shows "\<exists>h'. ion_impUnlockBuf usage (h, d) = Some (True, h', d) \<and> ion_keeps K (h, d) (h', d) \<and> sound_ion (hp_imp h') (length (hp_mvBufInfo h'))"
proof -
  let ?is = "[0..<length (hp_mvBufInfo h)]"
  obtain h' where "clear_addresses ?is usage h = Some h'" "same_shape h h'" "hp_imp h' = hp_imp h"
    using clear_addresses_shape [OF set_planes, of h usage] by blast
  moreover have "ion_unlock_planes ?is usage h = clear_addresses ?is usage h"
    by (rule ion_unlock_planes_eq) (use assms in \<open>auto simp: sound_ion_def\<close>)
  ultimately show ?thesis using assms same_shape_length [of h h']
    by (intro exI [of _ h']) (simp add: ion_impUnlockBuf_def ion_keeps_def sound_ion_def)
qed

lemma ion_impLockBuf_keeps:
  assumes "sound_ion (hp_imp h) (length (hp_mvBufInfo h))"
  shows "\<exists>ok h' d'. ion_impLockBuf K usage (h, d) = Some (ok, h', d') \<and> ion_keeps K (h, d) (h', d') \<and> sound_ion (hp_imp h') (length (hp_mvBufInfo h'))"
proof -
  let ?is = "[0..<length (hp_mvBufInfo h)]"
  have "set ?is \<subseteq> {..<length (nh_mvHeapInfo (hp_imp h))}" "set ?is \<subseteq> {..<length (nh_mvBufInfo (hp_imp h))}"
    using assms by (auto simp: sound_ion_def)
  from ion_lock_planes_keeps [OF this, of K usage d]
  obtain ok h1 d1 where 1: "ion_lock_planes K ?is usage (h, d) = Some (ok, h1, d1)" "ion_keeps K (h, d) (h1, d1)" by blast
  have s: "sound_ion (hp_imp h1) (length (hp_mvBufInfo h1))"
    using assms 1(2) same_shape_length [of h h1] by (simp add: sound_ion_def ion_keeps_def)
  obtain h2 where 2: "ion_impUnlockBuf usage (h1, d1) = Some (True, h2, d1)" "ion_keeps K (h1, d1) (h2, d1)"
      "sound_ion (hp_imp h2) (length (hp_mvBufInfo h2))"
    using ion_impUnlockBuf_keeps [OF s] by blast
  show ?thesis using 1 2 s ion_keeps_trans [OF 1(2) 2(2)] by (cases ok) (auto simp: ion_impLockBuf_def)
qed

interpretation ion: heap_provider "ion_ops K" sound_ion fresh_ion for K :: "'k ion_kernel"
proof unfold_locales
  fix h :: "IonHeap Heap" and d :: "'k Ion" and ok h' d'
  assume "fresh_ion (hp_imp h)" "length (hp_mvBufInfo h) = hp_mPlaneCount h" "impInit (ion_ops K) (h, d) = Some (ok, h', d')"
  then show "same_place h h' \<and> (ok \<longrightarrow> sound_ion (hp_imp h') (length (hp_mvBufInfo h')))"
    using ion_impInit_held [of K h d ok h' d'] by (auto simp: ion_ops_def sound_ion_def same_place_def)
next
  fix h :: "IonHeap Heap" and d :: "'k Ion" and usage
  assume a: "sound_ion (hp_imp h) (length (hp_mvBufInfo h))"
  show "\<exists>ok h' d'. impLockBuf (ion_ops K) usage (h, d) = Some (ok, h', d') \<and> same_shape h h' \<and> sound_ion (hp_imp h') (length (hp_mvBufInfo h'))"
    using ion_impLockBuf_keeps [OF a, of K usage d] by (fastforce simp: ion_ops_def ion_keeps_def)
  show "\<exists>h' d'. impUnlockBuf (ion_ops K) usage (h, d) = Some (True, h', d') \<and> same_shape h h' \<and> sound_ion (hp_imp h') (length (hp_mvBufInfo h'))"
    using ion_impUnlockBuf_keeps [OF a, of usage d K] by (fastforce simp: ion_ops_def ion_keeps_def)
qed

section \<open>The life of a heap\<close>

lemma helpCheckBufStrides_total:
  assumes "i < queryPlaneCount (hp_mImgFormat h)"
  shows "\<exists>c. helpCheckBufStrides i strides h = Some c"
proof -
  obtain b where "queryPlaneBitsPerPixel (hp_mImgFormat h) i = Some b" "8 \<le> b" "b \<le> 48"
    using queryPlaneBitsPerPixel_range [OF assms] .
  moreover have "word_of_nat b \<noteq> (0 :: size_t)" if "8 \<le> b" "b \<le> 48" for b
    using that by (simp add: word_of_nat_eq_0_iff) (auto dest: dvd_imp_le)
  ultimately show ?thesis by (simp add: helpCheckBufStrides_def heap_getPlaneBitsPerPixel_def Let_def)
qed

definition ion_ready :: "IonHeap Heap \<Rightarrow> bool" where
  "ion_ready h \<longleftrightarrow> hp_mPlaneCount h = queryPlaneCount (hp_mImgFormat h) \<and>
     hp_mPlaneCount h \<le> length (nh_mBufStridesInBytesToAlloc (hp_imp h)) \<and>
     hp_mPlaneCount h \<le> length (nh_mBufBoundaryInBytesToAlloc (hp_imp h))"

lemma ion_init_planes_total:
  assumes "ion_ready h" "set is \<subseteq> {..<hp_mPlaneCount h}"
  shows "\<exists>r. ion_init_planes K is (h, d) = Some r"
  using assms
proof (induction "is" arbitrary: h d)
  case (Cons i "is")
  have i: "i < hp_mPlaneCount h" using Cons.prems by simp
  obtain strides boundary where a: "list_at i (nh_mBufStridesInBytesToAlloc (hp_imp h)) = Some strides"
      "list_at i (nh_mBufBoundaryInBytesToAlloc (hp_imp h)) = Some boundary"
    using Cons.prems i by (simp add: ion_ready_def list_at_Some)
  obtain c where c: "helpCheckBufStrides i strides h = Some c"
    using helpCheckBufStrides_total [of i h strides] Cons.prems i by (auto simp: ion_ready_def)
  obtain n where n: "helpQueryBufSizeInBytes i strides h = Some n" using i by (simp add: helpQueryBufSizeInBytes_def)
  show ?case
  proof (cases c)
    case True
    obtain ok h1 d1 where p: "ion_init_plane K i strides n boundary (h, d) = (ok, h1, d1)" by (metis prod_cases3)
    let ?h = "edit_buf i (\<lambda>b. b\<lparr>bi_stridesInBytes := strides, bi_sizeInBytes := n\<rparr>) h1"
    have "ion_ready ?h" "hp_mPlaneCount ?h = hp_mPlaneCount h"
      using ion_init_plane_held [OF p] Cons.prems(1)
      by (simp_all add: ion_ready_def edit_buf_def same_shape_def same_place_def attributes_def)
    then obtain r where "ion_init_planes K is (?h, d1) = Some r" using Cons.IH [of ?h d1] Cons.prems(2) by auto
    moreover have "ion_init_planes K (i # is) (h, d) = (if ok then ion_init_planes K is (?h, d1) else Some (False, h1, d1))"
      by (rule ion_init_planes_Cons [OF a(1) _ n a(2) p]) (use c True in simp)
    ultimately show ?thesis by (cases ok) (metis)+
  next
    case False
    then have "ion_init_planes K (i # is) (h, d) = Some (False, h, d)" using a(1) c by simp
    then show ?thesis by blast
  qed
qed auto

lemma ion_impInit_total:
  assumes "ion_ready h"
  shows "\<exists>r. ion_impInit K (h, d) = Some r"
proof -
  obtain fd k where o: "ion_open K (g_k d) = (fd, k)" by (metis surj_pair)
  let ?h = "h\<lparr>hp_imp := (hp_imp h)\<lparr>nh_mIonDevFD := fd\<rparr>\<rparr>"
  have "ion_ready ?h" using assms by (simp add: ion_ready_def)
  moreover have "set [0..<hp_mPlaneCount h] \<subseteq> {..<hp_mPlaneCount ?h}" by auto
  ultimately obtain r where r: "ion_init_planes K [0..<hp_mPlaneCount h] (?h, d\<lparr>g_k := k\<rparr>) = Some r"
    using ion_init_planes_total by blast
  show ?thesis
    unfolding not_None_eq [symmetric] using o r
    by (cases "fd < 0"; cases r) (auto simp: ion_impInit_def Let_def split: prod.split)
qed

lemma ion_call_account:
  assumes "heap_ready sound_ion h" "heap_call (ion_ops K) c (h, d) = Some (ok, h', d')"
  shows "same_users d d' \<and>
    (\<forall>L n M. ion_laws K L \<longrightarrow> owes L n (M + held_by (hp_imp h)) (g_k d) \<longrightarrow> owes L n (M + held_by (hp_imp h')) (g_k d'))"
proof (cases c)
  case (LockBuf u)
  obtain ok1 h1 d1 where 1: "ion_impLockBuf K u (h, d) = Some (ok1, h1, d1)" "ion_keeps K (h, d) (h1, d1)"
    using ion_impLockBuf_keeps [of h K u d] assms(1) by (auto simp: heap_ready_def)
  show ?thesis using assms(2) LockBuf 1
    by (auto simp: heap_call_def heap_lockBuf_def ion_ops_def ion_keeps_def split: if_splits)
next
  case UnlockBuf
  obtain h1 where 1: "ion_impUnlockBuf (hp_mLockUsage h) (h, d) = Some (True, h1, d)" "ion_keeps K (h, d) (h1, d)"
    using ion_impUnlockBuf_keeps [of h "hp_mLockUsage h" d K] assms(1) by (auto simp: heap_ready_def)
  show ?thesis using assms(2) UnlockBuf 1
    by (auto simp: heap_call_def heap_unlockBuf_def ion_ops_def ion_keeps_def split: if_splits)
qed

text \<open>What a client does with a heap: the locks, and the synchronisation of the caches.\<close>

datatype heap_use = Call heap_call | SyncCache

fun ion_uses :: "'k ion_kernel \<Rightarrow> heap_use list \<Rightarrow> IonHeap Heap \<times> 'k Ion \<Rightarrow> (IonHeap Heap \<times> 'k Ion) option" where
  "ion_uses K [] st = Some st"
| "ion_uses K (Call c # us) st = do { (ok, st1) \<leftarrow> heap_call (ion_ops K) c st; ion_uses K us st1 }"
| "ion_uses K (SyncCache # us) st = do { (ok, d1) \<leftarrow> heap_syncCache K (ion_ops K) st; ion_uses K us (fst st, d1) }"

definition ion_usable :: "IonHeap Heap \<Rightarrow> bool" where
  "ion_usable h \<longleftrightarrow> heap_ready sound_ion h \<and> 0 < hp_mPlaneCount h"

lemma flush_all_owes:
  assumes "ion_laws K L" "owes L n A (g_k d)"
  shows "owes L n A (g_k (fold (flush_one K) fds d))"
  using assms(2) by (induction fds arbitrary: d) (simp_all add: flush_one_owes [OF assms(1)])

lemma flush_all_users: "same_users d (fold (flush_one K) fds d)"
proof (induction fds arbitrary: d)
  case (Cons fd fds)
  have "same_users d (flush_one K fd d)" by (simp add: flush_one_def split: prod.split)
  then show ?case using Cons.IH [of "flush_one K fd d"] same_users_trans by auto
qed simp

lemma ion_sync_account:
  assumes "ion_usable h"
  shows "\<exists>d'. heap_syncCache K (ion_ops K) (h, d) = Some (True, d') \<and> same_users d d' \<and>
    (\<forall>L n M. ion_laws K L \<longrightarrow> owes L n M (g_k d) \<longrightarrow> owes L n M (g_k d'))"
proof -
  let ?ids = "map mh_heapID (nh_mvHeapInfo (hp_imp h))"
  let ?n = "hp_mPlaneCount h"
  have l: "length ?ids = ?n" "length (hp_mvBufInfo h) = ?n" "0 < ?n"
    using assms by (simp_all add: ion_usable_def heap_ready_def sound_ion_def)
  define fds where "fds = map (\<lambda>i. if length ?ids > 1 then ?ids ! i else ?ids ! 0) [0..<?n]"
  have "fds \<noteq> []" using l(3) by (simp add: fds_def)
  moreover have "heap_syncCache K (ion_ops K) (h, d) = helpFlushCache K fds d"
    using l unfolding fds_def by (auto simp: heap_syncCache_def ion_ops_def Let_def)
  ultimately show ?thesis
    using flush_all_users [of d K fds] flush_all_owes [of K _ _ _ d fds] by (auto simp: helpFlushCache_def)
qed

lemma ion_uses_account:
  assumes "ion_usable h"
  shows "\<exists>h' d'. ion_uses K us (h, d) = Some (h', d') \<and> ion_usable h' \<and> same_users d d' \<and>
    (\<forall>L n M. ion_laws K L \<longrightarrow> owes L n (M + held_by (hp_imp h)) (g_k d) \<longrightarrow> owes L n (M + held_by (hp_imp h')) (g_k d'))"
  using assms
proof (induction us arbitrary: h d)
  case (Cons u us)
  obtain h1 d1 where 1: "ion_uses K (u # us) (h, d) = ion_uses K us (h1, d1)" "ion_usable h1" "same_users d d1"
      "\<And>L n M. ion_laws K L \<Longrightarrow> owes L n (M + held_by (hp_imp h)) (g_k d) \<Longrightarrow> owes L n (M + held_by (hp_imp h1)) (g_k d1)"
  proof (cases u)
    case (Call c)
    have r: "heap_ready sound_ion h" using Cons.prems by (simp add: ion_usable_def)
    obtain ok h1 d1 where c: "heap_call (ion_ops K) c (h, d) = Some (ok, h1, d1)" "heap_ready sound_ion h1" "attributes h1 = attributes h"
      using ion.call_step [OF r, of K c d] by blast
    have "ion_usable h1" using c(2,3) Cons.prems by (simp add: ion_usable_def attributes_def)
    then show ?thesis using that [of h1 d1] ion_call_account [OF r c(1)] c(1) Call by simp
  next
    case SyncCache
    then show ?thesis using that [of h] ion_sync_account [OF Cons.prems, of K d] Cons.prems by auto
  qed
  obtain h2 d2 where 2: "ion_uses K us (h1, d1) = Some (h2, d2)" "ion_usable h2" "same_users d1 d2"
      "\<And>L n M. ion_laws K L \<Longrightarrow> owes L n (M + held_by (hp_imp h1)) (g_k d1) \<Longrightarrow> owes L n (M + held_by (hp_imp h2)) (g_k d2)"
    using Cons.IH [OF 1(2), of d1] by blast
  show ?case
    by (rule exI [of _ h2], rule exI [of _ d2]) (use 1 2 same_users_trans [of d d1 d2] in simp)
qed simp

text \<open>A heap is created, used in any way, and released with its last reference.\<close>

definition ion_life ::
    "'k ion_kernel \<Rightarrow> ImgParam \<Rightarrow> AllocExtraParam \<Rightarrow> heap_use list \<Rightarrow> 'k Ion \<Rightarrow> 'k Ion option" where
  "ion_life K rImgParam rExtraParam us d = do {
     (p, d1) \<leftarrow> ion_create K rImgParam rExtraParam d;
     case p of
       None \<Rightarrow> Some d1
     | Some h \<Rightarrow> do {
         (h1, d2) \<leftarrow> ion_uses K us (h, d1);
         (ok, h2, d3) \<leftarrow> heap_onLastStrongRef K (ion_ops K) (h1, d2);
         Some d3
       }
   }"

lemma ion_get_account:
  assumes "ion_get K d = (ok, d1)" "0 \<le> g_IonCount d"
  shows "g_IonCount d1 = g_IonCount d + 1 \<and>
    (\<forall>L n M. ion_laws K L \<longrightarrow> owes L n (M + held_shared d) (g_k d) \<longrightarrow> owes L n (M + held_shared d1) (g_k d1))"
proof -
  obtain fd k where o: "ion_open K (g_k d) = (fd, k)" by (metis surj_pair)
  have "owes L n (M + held_shared d1) (g_k d1)" if "ion_laws K L" "owes L n (M + held_shared d) (g_k d)" for L n M
  proof (cases "g_IonCount d = 0")
    case True
    then have "g_k d1 = k" "held_shared d1 = held_device fd" "held_shared d = {#}"
      using assms o by (auto simp: ion_get_def held_shared_def Let_def)
    then show ?thesis using owes_gives [OF ion_law_open [OF that(1) o] that(2)] by (simp add: held_device_def)
  next
    case False
    then have "g_k d1 = g_k d" "held_shared d1 = held_shared d"
      using assms by (auto simp: ion_get_def held_shared_def Let_def)
    then show ?thesis using that(2) by simp
  qed
  then show ?thesis using assms(1) o by (auto simp: ion_get_def Let_def split: if_splits)
qed

lemma ion_ops_init: "impInit (ion_ops K) = ion_impInit K"
  by (simp add: ion_ops_def)

lemma ion_initLocked_account:
  assumes "fresh_ion (hp_imp h)" "ion_ready h" "0 \<le> g_IonCount d"
  shows "\<exists>ok h' d'. initLocked K (ion_ops K) (h, d) = Some (ok, h', d') \<and>
    (ok \<longrightarrow> g_IonCount d' = g_IonCount d + 1 \<and> length (nh_mvHeapInfo (hp_imp h')) = length (nh_mvBufInfo (hp_imp h'))) \<and>
    (\<not> ok \<longrightarrow> g_IonCount d' = g_IonCount d) \<and>
    (\<forall>L n M. ion_laws K L \<longrightarrow> owes L n (M + held_shared d) (g_k d) \<longrightarrow>
       owes L n (M + held_shared d' + (if ok then held_by (hp_imp h') else {#})) (g_k d'))"
proof -
  obtain opened d1 where g: "ion_get K d = (opened, d1)" by (metis surj_pair)
  note a = ion_get_account [OF g assms(3)]
  let ?h = "h\<lparr>hp_mBufMap := [], hp_mvBufInfo := replicate (hp_mPlaneCount h) BufInfo_new\<rparr>"
  have r: "ion_ready ?h" using assms(2) by (simp add: ion_ready_def)
  obtain ret h2 d2 where 2: "(if \<not> opened then Some (False, h, d1)
      else do { (ok, h2, d2) \<leftarrow> ion_impInit K (?h, d1); Some (ok \<and> list_all (\<lambda>b. bi_stridesInBytes b \<noteq> 0) (hp_mvBufInfo h2), h2, d2) }) =
      Some (ret, h2, d2)"
    using ion_impInit_total [OF r, of K d1] by (cases opened) auto
  have k: "same_users d1 d2" "length (nh_mvHeapInfo (hp_imp h2)) = length (nh_mvBufInfo (hp_imp h2))"
      "\<And>L n M. ion_laws K L \<Longrightarrow> owes L n M (g_k d1) \<Longrightarrow> owes L n (M + held_by (hp_imp h2)) (g_k d2)"
    using 2 ion_impInit_held [of K ?h d1 _ h2 d2] assms(1)
    by (auto simp: fresh_ion_def held_by_def held_device_def split: if_splits)
  have l: "owes L n (M + held_by (hp_imp h2) + held_shared d2) (g_k d2)" if "ion_laws K L" "owes L n (M + held_shared d) (g_k d)" for L n M
  proof -
    have "owes L n (M + held_shared d1) (g_k d1)" using a that by blast
    moreover have "held_shared d2 = held_shared d1" using k(1) by (simp add: held_shared_def same_users_def)
    ultimately show ?thesis using k(3) [OF that(1), of n "M + held_shared d1"] by (simp add: ac_simps)
  qed
  have c: "g_IonCount d2 = g_IonCount d + 1" using a k(1) by (simp add: same_users_def)
  have e: "initLocked K (ion_ops K) (h, d) = (if ret then Some (True, h2, d2)
      else do { (ok, st2) \<leftarrow> uninitLocked K (ion_ops K) (h2, d2); Some (False, st2) })"
    unfolding initLocked_def prod.case g Let_def ion_ops_init 2 Option.bind.simps by simp
  show ?thesis
  proof (cases ret)
    case True
    then show ?thesis unfolding e using l k(2) c by (intro exI [of _ True]) (simp add: ac_simps)
  next
    case False
    obtain h3 d3 where "uninitLocked K (ion_ops K) (h2, d2) = Some (True, h3, d3)"
        "g_IonCount d3 = (if 0 < g_IonCount d2 then g_IonCount d2 - 1 else g_IonCount d2)"
        "\<And>L n M. ion_laws K L \<Longrightarrow> owes L n (M + held_by (hp_imp h2) + held_shared d2) (g_k d2) \<Longrightarrow> owes L n (M + held_shared d3) (g_k d3)"
      using ion_uninitLocked_held [OF k(2), of K d2] by blast
    then show ?thesis unfolding e using l c False assms(3) by (intro exI [of _ False]) simp
  qed
qed

lemma MSize_ready_frame:
  assumes "ip_imgFormat p = f" "queryPlaneCount f \<le> length (ip_bufStridesInBytes p)" "queryPlaneCount f \<le> length (ip_bufBoundaryInBytes p)"
  shows "ion_ready ((IonImageBufferHeap_new p x)\<lparr>hp_mImgSize := s, hp_mImgFormat := f, hp_mBitstreamSize := n, hp_mPlaneCount := queryPlaneCount f\<rparr>)"
    and "fresh_ion (hp_imp (IonImageBufferHeap_new p x))"
proof -
  have "length (concat (map (\<lambda>b. [ucast b, ucast (drop_bit 32 b) :: MUINT32]) xs)) = 2 * length xs" for xs :: "size_t list"
    by (induction xs) auto
  then show "ion_ready ((IonImageBufferHeap_new p x)\<lparr>hp_mImgSize := s, hp_mImgFormat := f, hp_mBitstreamSize := n, hp_mPlaneCount := queryPlaneCount f\<rparr>)"
    using assms queryPlaneCount_le [of f]
    by (simp add: ion_ready_def IonImageBufferHeap_new_def BaseImageBufferHeap_new_def memcpy_boundaries_def)
qed (simp add: fresh_ion_def IonImageBufferHeap_new_def BaseImageBufferHeap_new_def)

lemma ion_create_account:
  assumes "queryPlaneCount (ip_imgFormat p) \<le> length (ip_bufStridesInBytes p)"
    "queryPlaneCount (ip_imgFormat p) \<le> length (ip_bufBoundaryInBytes p)" "0 \<le> g_IonCount d"
  shows "\<exists>r d'. ion_create K p x d = Some (r, d') \<and>
    (case r of None \<Rightarrow> g_IonCount d' = g_IonCount d
     | Some h \<Rightarrow> g_IonCount d' = g_IonCount d + 1 \<and> ion_usable h) \<and>
    (\<forall>L n M. ion_laws K L \<longrightarrow> owes L n (M + held_shared d) (g_k d) \<longrightarrow>
       owes L n (M + held_shared d' + (case r of None \<Rightarrow> {#} | Some h \<Rightarrow> held_by (hp_imp h))) (g_k d'))"
proof -
  let ?f = "ip_imgFormat p"
  let ?h = "(IonImageBufferHeap_new p x)\<lparr>hp_mImgSize := ip_imgSize p, hp_mImgFormat := ?f, hp_mBitstreamSize := ip_bufSize p,
            hp_mPlaneCount := queryPlaneCount ?f\<rparr>"
  let ?bad = "?f = eImgFmt_JPEG \<or> \<not> checkValidFormat ?f \<or> MSize_bad (ip_imgSize p)"
  have f: "fresh_ion (hp_imp (IonImageBufferHeap_new p x))" by (rule MSize_ready_frame(2) [OF refl assms(1,2)])
  then have f': "fresh_ion (hp_imp ?h)" by simp
  obtain ok h' d' where i: "initLocked K (ion_ops K) (?h, d) = Some (ok, h', d')"
      "ok \<Longrightarrow> g_IonCount d' = g_IonCount d + 1 \<and> length (nh_mvHeapInfo (hp_imp h')) = length (nh_mvBufInfo (hp_imp h'))"
      "\<not> ok \<Longrightarrow> g_IonCount d' = g_IonCount d"
      "\<And>L n M. ion_laws K L \<Longrightarrow> owes L n (M + held_shared d) (g_k d) \<Longrightarrow>
         owes L n (M + held_shared d' + (if ok then held_by (hp_imp h') else {#})) (g_k d')"
    using ion_initLocked_account [OF f' MSize_ready_frame(1) [OF refl assms(1,2)] assms(3), of K] by blast
  have c: "heap_onCreate K (ion_ops K) (ip_imgSize p) ?f (ip_bufSize p) (IonImageBufferHeap_new p x, d) =
      (if ?bad then Some (False, IonImageBufferHeap_new p x, d) else Some (ok, h', d'))"
    unfolding heap_onCreate_def prod.case i(1) by simp
  show ?thesis
  proof (cases "\<not> ?bad \<and> ok")
    case True
    then have "heap_onCreate K (ion_ops K) (ip_imgSize p) ?f (ip_bufSize p)
        (BaseImageBufferHeap_new (hp_imp (IonImageBufferHeap_new p x)), d) = Some (True, h', d')"
      using c by (simp add: IonImageBufferHeap_new_def BaseImageBufferHeap_new_def)
    from ion.create_ready [OF this f] have "heap_ready sound_ion h'" "attributes h' = (ip_imgSize p, ?f, queryPlaneCount ?f, ip_bufSize p)"
      by blast+
    then have "ion_usable h'" using True queryPlaneCount_pos [of ?f] by (auto simp: ion_usable_def attributes_def)
    moreover have "ion_create K p x d = Some (Some h', d')" using True by (simp add: ion_create_def c)
    ultimately show ?thesis using i True by simp
  next
    case False
    then have "ion_create K p x d = Some (None, if ?bad then d else d')" by (auto simp: ion_create_def c)
    then show ?thesis using i False by auto
  qed
qed

lemma ion_life_account:
  assumes "queryPlaneCount (ip_imgFormat p) \<le> length (ip_bufStridesInBytes p)"
    "queryPlaneCount (ip_imgFormat p) \<le> length (ip_bufBoundaryInBytes p)" "0 \<le> g_IonCount d"
    "ion_laws K L" "owes L n (M + held_shared d) (g_k d)"
  shows "\<exists>d'. ion_life K p x us d = Some d' \<and> g_IonCount d' = g_IonCount d \<and> owes L n (M + held_shared d') (g_k d')"
proof -
  obtain r d1 where 1: "ion_create K p x d = Some (r, d1)"
      "case r of None \<Rightarrow> g_IonCount d1 = g_IonCount d
       | Some h \<Rightarrow> g_IonCount d1 = g_IonCount d + 1 \<and> ion_usable h"
      "owes L n (M + held_shared d1 + (case r of None \<Rightarrow> {#} | Some h \<Rightarrow> held_by (hp_imp h))) (g_k d1)"
    using ion_create_account [OF assms(1-3), of K x] assms(4,5) by blast
  show ?thesis
  proof (cases r)
    case None
    then show ?thesis using 1 by (simp add: ion_life_def)
  next
    case (Some h)
    have h: "ion_usable h" "g_IonCount d1 = g_IonCount d + 1" using 1(2) Some by simp_all
    obtain h1 d2 where 2: "ion_uses K us (h, d1) = Some (h1, d2)" "ion_usable h1" "same_users d1 d2"
        "owes L n (M + held_shared d1 + held_by (hp_imp h1)) (g_k d2)"
    proof -
      have "owes L n (M + held_shared d1 + held_by (hp_imp h)) (g_k d1)" using 1(3) Some by simp
      then show ?thesis using ion_uses_account [OF h(1), of K us d1] assms(4) that by blast
    qed
    have l: "length (nh_mvHeapInfo (hp_imp h1)) = length (nh_mvBufInfo (hp_imp h1))"
      using 2(2) by (simp add: ion_usable_def heap_ready_def sound_ion_def)
    have s: "held_shared d1 = held_shared d2" using 2(3) by (simp add: held_shared_def same_users_def)
    obtain h2 d3 where 3: "uninitLocked K (ion_ops K) (h1, d2) = Some (True, h2, d3)"
        "g_IonCount d3 = (if 0 < g_IonCount d2 then g_IonCount d2 - 1 else g_IonCount d2)"
        "owes L n (M + held_by (hp_imp h1) + held_shared d2) (g_k d2) \<Longrightarrow> owes L n (M + held_shared d3) (g_k d3)"
      using ion_uninitLocked_held [OF l, of K d2] assms(4) by blast
    have "owes L n (M + held_shared d3) (g_k d3)" by (rule 3(3)) (use 2(4) s in \<open>simp add: ac_simps\<close>)
    moreover have "g_IonCount d3 = g_IonCount d" using 3(2) 2(3) h(2) assms(3) by (simp add: same_users_def)
    ultimately show ?thesis using 1(1) Some 2(1) 3(1) by (simp add: ion_life_def heap_onLastStrongRef_def)
  qed
qed

end
