(* ===== verification/ImageBuffer.thy ===== *)
theory ImageBuffer
  imports ImageHeap
begin

text \<open>
  An image in a heap (\<open>utils/imgbuf/BaseImageBuffer.cpp\<close>) and its creation by the heap
  (\<open>BaseImageBufferHeap::createImageBuffer\<close> and its variants): each plane of the image has an offset
  and a size within a plane of the heap, or the planes follow one another in a heap of bytes.

  The operations take the heap beside the image. The arithmetic is that of \<open>size_t\<close>; positions
  and sizes of the region go through 32 bits as the code's \<open>MPoint\<close> and \<open>MSize\<close> do.
\<close>

unbundle bit_operations_syntax

record ImgBufInfo = BufInfo +
  ib_offsetInBytes :: size_t
  ib_extOffsetInBytes :: size_t

definition ImgBufInfo_new :: ImgBufInfo where
  "ImgBufInfo_new = \<lparr>bi_pa = 0, bi_va = 0, bi_stridesInBytes = 0, bi_sizeInBytes = 0, ib_offsetInBytes = 0, ib_extOffsetInBytes = 0\<rparr>"

record ImgBuf =
  im_mLockCount :: int
  im_mLockUsage :: MUINT32
  im_mvImgBufInfo :: "ImgBufInfo list"
  im_mvBufHeapInfo :: "BufInfo list"
  im_mImgSize :: MSize
  im_mBufHeight :: MUINT32
  im_mImgFormat :: int
  im_mPlaneCount :: nat
  im_mBitstreamSize :: size_t
  im_mStrides :: "size_t list"
  im_mOffset :: size_t
  im_mTimestamp :: int
  im_mAcquireFence :: int
  im_mReleaseFence :: int

definition BaseImageBuffer_new :: "MSize \<Rightarrow> int \<Rightarrow> size_t \<Rightarrow> size_t list \<Rightarrow> size_t \<Rightarrow> ImgBuf" where
  "BaseImageBuffer_new imgSize imgFormat bufSize strides offset =
     \<lparr>im_mLockCount = 0, im_mLockUsage = 0, im_mvImgBufInfo = [], im_mvBufHeapInfo = [], im_mImgSize = imgSize,
      im_mBufHeight = ms_h imgSize, im_mImgFormat = imgFormat, im_mPlaneCount = queryPlaneCount imgFormat,
      im_mBitstreamSize = bufSize, im_mStrides = strides, im_mOffset = offset,
      im_mTimestamp = 0, im_mAcquireFence = 0, im_mReleaseFence = 0\<rparr>"

definition BYTE2PIXEL :: "size_t \<Rightarrow> size_t \<Rightarrow> size_t option" where
  "BYTE2PIXEL bpp b = (if bpp = 0 then None else Some (push_bit 3 b div bpp))"

definition PIXEL2BYTE :: "size_t \<Rightarrow> size_t \<Rightarrow> size_t" where
  "PIXEL2BYTE bpp p = drop_bit 3 (p * bpp)"

definition img_getPlaneBitsPerPixel :: "nat \<Rightarrow> ImgBuf \<Rightarrow> size_t option" where
  "img_getPlaneBitsPerPixel index m = map_option word_of_nat (queryPlaneBitsPerPixel (im_mImgFormat m) index)"

definition img_getImgBitsPerPixel :: "ImgBuf \<Rightarrow> nat" where
  "img_getImgBitsPerPixel m = queryImageBitsPerPixel (im_mImgFormat m)"

section \<open>Creation\<close>

text \<open>What the image keeps of its heap's planes.\<close>

fun heap_infos :: "nat list \<Rightarrow> 'i Heap \<Rightarrow> BufInfo list option" where
  "heap_infos [] h = Some []"
| "heap_infos (i # is) h = do {
     strides \<leftarrow> heap_getBufStridesInBytes i h;
     n \<leftarrow> heap_getBufSizeInBytes i h;
     bs \<leftarrow> heap_infos is h;
     Some (\<lparr>bi_pa = 0, bi_va = 0, bi_stridesInBytes = strides, bi_sizeInBytes = n\<rparr> # bs)
   }"

text \<open>The region of a plane within the plane of the heap, for a heap that is not one of bytes.\<close>

definition region_fits :: "nat \<Rightarrow> size_t \<Rightarrow> size_t \<Rightarrow> size_t \<Rightarrow> size_t \<Rightarrow> ImgBuf \<Rightarrow> 'i Heap \<Rightarrow> bool option" where
  "region_fits i bpp offset imgWidthInPixels imgHeightInPixels m h = do {
     strides \<leftarrow> heap_getBufStridesInBytes i h;
     if strides = 0 then None
     else do {
       planeStartXInPixels \<leftarrow> BYTE2PIXEL bpp (offset mod strides);
       planeStartYInPixels \<leftarrow> BYTE2PIXEL bpp (offset div strides);
       planeStridesInPixels \<leftarrow> BYTE2PIXEL bpp strides;
       let planeHeightInPixels = queryPlaneHeightInPixels (im_mImgFormat m) i (scast (ms_h (im_mImgSize m)));
       let x = (scast (ucast planeStartXInPixels :: MUINT32) :: size_t);
       let y = (scast (ucast planeStartYInPixels :: MUINT32) :: size_t);
       let w = (scast (ucast imgWidthInPixels :: MUINT32) :: size_t);
       let ht = (scast (ucast imgHeightInPixels :: MUINT32) :: size_t);
       Some (\<not> (x + w > planeStridesInPixels \<or> y + ht > planeHeightInPixels))
     }
   }"

definition create_plane :: "nat \<Rightarrow> ImgBuf \<Rightarrow> 'i Heap \<Rightarrow> (bool \<times> ImgBufInfo) option" where
  "create_plane i m h = do {
     let format = im_mImgFormat m;
     strides \<leftarrow> list_at i (im_mStrides m);
     bpp \<leftarrow> img_getPlaneBitsPerPixel i m;
     offsetInPixels \<leftarrow> BYTE2PIXEL bpp (im_mOffset m);
     let offset = PIXEL2BYTE bpp (queryPlaneWidthInPixels format i offsetInPixels);
     let imgWidthInPixels = queryPlaneWidthInPixels format i (scast (ms_w (im_mImgSize m)));
     let imgHeightInPixels = queryPlaneHeightInPixels format i (scast (ms_h (im_mImgSize m)));
     let roundUpValue = (if imgWidthInPixels * bpp mod 8 > 0 then 1 else 0);
     let imgWidthInBytes = imgWidthInPixels * bpp div 8 + roundUpValue;
     let info = ImgBufInfo_new\<lparr>bi_stridesInBytes := strides, ib_offsetInBytes := offset\<rparr>;
     if strides = 0 \<or> strides < imgWidthInBytes then Some (False, info)
     else do {
       let n = (if format = eImgFmt_JPEG \<or> format = eImgFmt_BLOB then strides
                else if offset = 0 then strides * imgHeightInPixels
                else strides * (imgHeightInPixels - 1) + imgWidthInBytes);
       let info = info\<lparr>bi_sizeInBytes := n\<rparr>;
       if hp_mImgFormat h \<noteq> eImgFmt_BLOB then do {
         fits \<leftarrow> region_fits i bpp offset imgWidthInPixels imgHeightInPixels m h;
         if \<not> fits then Some (False, info)
         else do { heapSize \<leftarrow> heap_getBufSizeInBytes i h; Some (\<not> offset + n > heapSize, info) }
       }
       else if format = eImgFmt_BLOB \<or> format = eImgFmt_JPEG then do {
         heapSize \<leftarrow> heap_getBufSizeInBytes i h;
         Some (\<not> offset + n > heapSize, info)
       }
       else Some (True, info)
     }
   }"

fun create_planes :: "nat list \<Rightarrow> size_t \<Rightarrow> ImgBuf \<Rightarrow> 'i Heap \<Rightarrow> (bool \<times> size_t \<times> ImgBuf) option" where
  "create_planes [] imgBufSize m h = Some (True, imgBufSize, m)"
| "create_planes (i # is) imgBufSize m h = do {
     (ok, info) \<leftarrow> create_plane i m h;
     let m1 = m\<lparr>im_mvImgBufInfo := (im_mvImgBufInfo m)[i := info]\<rparr>;
     if \<not> ok then Some (False, imgBufSize, m1)
     else create_planes is (imgBufSize + bi_sizeInBytes info) m1 h
   }"

definition img_onCreate :: "ImgBuf \<Rightarrow> 'i Heap \<Rightarrow> (bool \<times> ImgBuf) option" where
  "img_onCreate m h = do {
     bs \<leftarrow> heap_infos [0..<hp_mPlaneCount h] h;
     let m1 = m\<lparr>im_mvBufHeapInfo := bs, im_mvImgBufInfo := replicate (im_mPlaneCount m) ImgBufInfo_new\<rparr>;
     (ok, imgBufSize, m2) \<leftarrow> create_planes [0..<im_mPlaneCount m] 0 m1 h;
     if \<not> ok then Some (False, m2)
     else if hp_mImgFormat h = eImgFmt_BLOB \<and> im_mImgFormat m2 \<noteq> eImgFmt_BLOB then do {
       heapSize \<leftarrow> heap_getBufSizeInBytes 0 h;
       Some (\<not> imgBufSize > heapSize, m2)
     }
     else Some (True, m2)
   }"

definition created :: "ImgBuf \<Rightarrow> 'i Heap \<Rightarrow> ImgBuf option option" where
  "created m h = do { (ok, m1) \<leftarrow> img_onCreate m h; Some (if ok then Some m1 else None) }"

fun heap_strides :: "nat list \<Rightarrow> 'i Heap \<Rightarrow> size_t list option" where
  "heap_strides [] h = Some []"
| "heap_strides (i # is) h = do {
     s \<leftarrow> heap_getBufStridesInBytes i h;
     ss \<leftarrow> heap_strides is h;
     Some (s # ss)
   }"

definition createImageBuffer :: "'i Heap \<Rightarrow> ImgBuf option option" where
  "createImageBuffer h = do {
     ss \<leftarrow> heap_strides [0..<hp_mPlaneCount h] h;
     created (BaseImageBuffer_new (hp_mImgSize h) (hp_mImgFormat h) (hp_mBitstreamSize h)
                (ss @ replicate (3 - hp_mPlaneCount h) 0) 0) h
   }"

definition createImageBuffer_FromBlobHeap :: "size_t \<Rightarrow> size_t \<Rightarrow> 'i Heap \<Rightarrow> ImgBuf option option" where
  "createImageBuffer_FromBlobHeap offsetInBytes sizeInBytes h =
     (if hp_mImgFormat h \<noteq> eImgFmt_BLOB \<and> hp_mImgFormat h \<noteq> eImgFmt_CAMERA_OPAQUE then Some None
      else created (BaseImageBuffer_new \<lparr>ms_w = ucast sizeInBytes, ms_h = ms_h (hp_mImgSize h)\<rparr> (hp_mImgFormat h)
             (hp_mBitstreamSize h) [sizeInBytes, 0, 0] offsetInBytes) h)"

definition createImageBuffer_FromBlobHeap_format ::
    "size_t \<Rightarrow> int \<Rightarrow> MSize \<Rightarrow> size_t list \<Rightarrow> 'i Heap \<Rightarrow> ImgBuf option option" where
  "createImageBuffer_FromBlobHeap_format offsetInBytes imgFormat imgSize bufStridesInBytes h =
     (if hp_mImgFormat h \<noteq> eImgFmt_BLOB \<and> hp_mImgFormat h \<noteq> eImgFmt_CAMERA_OPAQUE then Some None
      else created (BaseImageBuffer_new imgSize imgFormat (hp_mBitstreamSize h) bufStridesInBytes offsetInBytes) h)"

definition createImageBuffer_SideBySide :: "bool \<Rightarrow> 'i Heap \<Rightarrow> ImgBuf option option" where
  "createImageBuffer_SideBySide isRightSide h = do {
     let imgWidth = (scast (signed_drop_bit 1 (ms_w (hp_mImgSize h))) :: size_t);
     let imgHeight = (scast (ms_h (hp_mImgSize h)) :: size_t);
     bpp \<leftarrow> heap_getPlaneBitsPerPixel 0 h;
     let offset = (if isRightSide then drop_bit 3 (imgWidth * word_of_nat bpp) else 0);
     ss \<leftarrow> heap_strides [0..<hp_mPlaneCount h] h;
     let ss = (if hp_mImgFormat h = eImgFmt_BLOB then map (drop_bit 1) ss else ss);
     created (BaseImageBuffer_new \<lparr>ms_w = ucast imgWidth, ms_h = ucast imgHeight\<rparr> (hp_mImgFormat h) (hp_mBitstreamSize h)
                (ss @ replicate (3 - hp_mPlaneCount h) 0) offset) h
   }"

section \<open>Attributes\<close>

definition img_info :: "nat \<Rightarrow> (ImgBufInfo \<Rightarrow> size_t) \<Rightarrow> ImgBuf \<Rightarrow> size_t option" where
  "img_info index f m = (if index \<ge> im_mPlaneCount m then Some 0 else map_option f (list_at index (im_mvImgBufInfo m)))"

definition img_getBufOffsetInBytes :: "nat \<Rightarrow> ImgBuf \<Rightarrow> size_t option" where
  "img_getBufOffsetInBytes index m = img_info index ib_offsetInBytes m"

definition img_getBufSizeInBytes :: "nat \<Rightarrow> ImgBuf \<Rightarrow> size_t option" where
  "img_getBufSizeInBytes index m = img_info index bi_sizeInBytes m"

definition img_getBufStridesInBytes :: "nat \<Rightarrow> ImgBuf \<Rightarrow> size_t option" where
  "img_getBufStridesInBytes index m = img_info index bi_stridesInBytes m"

definition img_getExtOffsetInBytes :: "nat \<Rightarrow> ImgBuf \<Rightarrow> size_t option" where
  "img_getExtOffsetInBytes index m = img_info index ib_extOffsetInBytes m"

text \<open>The offset of a physical address is kept in 32 bits, that of a virtual one is not.\<close>

definition img_getBufPA :: "nat \<Rightarrow> ImgBuf \<Rightarrow> size_t option" where
  "img_getBufPA index m =
     (if index \<ge> im_mPlaneCount m then Some 0
      else do {
        offset \<leftarrow> img_getBufOffsetInBytes index m;
        if im_mLockCount m = 0 \<or> im_mLockUsage m AND eBUFFER_USAGE_HW_MASK = 0 then Some 0
        else map_option (\<lambda>b. bi_pa b + ucast (ucast offset :: MUINT32)) (list_at index (im_mvImgBufInfo m))
      })"

definition img_getBufVA :: "nat \<Rightarrow> ImgBuf \<Rightarrow> size_t option" where
  "img_getBufVA index m =
     (if index \<ge> im_mPlaneCount m then Some 0
      else do {
        offset \<leftarrow> img_getBufOffsetInBytes index m;
        if im_mLockCount m = 0 \<or> im_mLockUsage m AND eBUFFER_USAGE_SW_MASK = 0 then Some 0
        else map_option (\<lambda>b. bi_va b + offset) (list_at index (im_mvImgBufInfo m))
      })"

definition img_setBitstreamSize :: "size_t \<Rightarrow> ImgBuf \<Rightarrow> 'i Heap \<Rightarrow> (bool \<times> ImgBuf) option" where
  "img_setBitstreamSize bitstreamsize m h =
     (if im_mImgFormat m \<noteq> eImgFmt_JPEG then Some (False, m)
      else do {
        n \<leftarrow> heap_getBufSizeInBytes 0 h;
        Some (if bitstreamsize > n then (False, m) else (True, m\<lparr>im_mBitstreamSize := bitstreamsize\<rparr>))
      })"

fun ext_offsets :: "nat list \<Rightarrow> size_t \<Rightarrow> ImgBuf \<Rightarrow> ImgBuf option" where
  "ext_offsets [] offsetInBytes m = Some m"
| "ext_offsets (i # is) offsetInBytes m = do {
     bpp \<leftarrow> img_getPlaneBitsPerPixel i m;
     pixels \<leftarrow> BYTE2PIXEL bpp offsetInBytes;
     b \<leftarrow> list_at i (im_mvImgBufInfo m);
     ext_offsets is offsetInBytes
       (m\<lparr>im_mvImgBufInfo := (im_mvImgBufInfo m)[i := b\<lparr>ib_extOffsetInBytes := queryPlaneWidthInPixels (im_mImgFormat m) i pixels\<rparr>]\<rparr>)
   }"

definition setExtParam :: "MSize \<Rightarrow> size_t \<Rightarrow> ImgBuf \<Rightarrow> (bool \<times> ImgBuf) option" where
  "setExtParam imgSize offsetInBytes m = do {
     n \<leftarrow> img_getBufSizeInBytes 0 m;
     offset \<leftarrow> img_getBufOffsetInBytes 0 m;
     let sizeInBytes = n + offset;
     bitsPerPixel \<leftarrow> img_getPlaneBitsPerPixel 0 m;
     strideInBytes \<leftarrow> img_getBufStridesInBytes 0 m;
     strideInPixels \<leftarrow> BYTE2PIXEL bitsPerPixel strideInBytes;
     let w = (scast (ms_w imgSize) :: size_t);
     let roundUpValue = (if w * bitsPerPixel mod 8 > 0 then 1 else 0);
     let imgWidthInBytes = w * bitsPerPixel div 8 + roundUpValue;
     let imgSizeInBytes = (if offsetInBytes = 0 then strideInBytes * scast (ms_h imgSize)
                           else strideInBytes * scast (ms_h imgSize - 1) + imgWidthInBytes);
     if w > strideInPixels \<or> sint (ms_h imgSize) > sint (im_mBufHeight m) then Some (False, m)
     else if imgSizeInBytes + offsetInBytes > sizeInBytes then Some (False, m)
     else do {
       b \<leftarrow> list_at 0 (im_mvImgBufInfo m);
       if im_mImgSize m = imgSize \<and> ib_extOffsetInBytes b = offsetInBytes then Some (True, m)
       else do {
         m1 \<leftarrow> ext_offsets [0..<im_mPlaneCount m] offsetInBytes (m\<lparr>im_mImgSize := imgSize\<rparr>);
         Some (True, m1)
       }
     }
   }"

definition setTimestamp :: "int \<Rightarrow> ImgBuf \<Rightarrow> ImgBuf" where
  "setTimestamp timestamp m = m\<lparr>im_mTimestamp := timestamp\<rparr>"

definition img_setAcquireFence :: "int \<Rightarrow> ImgBuf \<Rightarrow> ImgBuf" where
  "img_setAcquireFence fence m = m\<lparr>im_mAcquireFence := fence\<rparr>"

definition img_setReleaseFence :: "int \<Rightarrow> ImgBuf \<Rightarrow> ImgBuf" where
  "img_setReleaseFence fence m = m\<lparr>im_mReleaseFence := fence\<rparr>"

section \<open>Locking\<close>

text \<open>The addresses of the heap's planes, up to the first plane that lacks one it should have.\<close>

fun fetch_addresses :: "nat list \<Rightarrow> MUINT32 \<Rightarrow> 'i Heap \<Rightarrow> BufInfo list \<Rightarrow> (bool \<times> BufInfo list) option" where
  "fetch_addresses [] usage h bs = Some (True, bs)"
| "fetch_addresses (i # is) usage h bs = do {
     va \<leftarrow> (if usage AND eBUFFER_USAGE_SW_MASK \<noteq> 0 then heap_getBufVA i h else Some 0);
     pa \<leftarrow> (if usage AND eBUFFER_USAGE_HW_MASK \<noteq> 0 then heap_getBufPA i h else Some 0);
     let bs1 = bs[i := (bs ! i)\<lparr>bi_va := va, bi_pa := pa\<rparr>];
     if usage AND eBUFFER_USAGE_SW_MASK \<noteq> 0 \<and> va = 0 then Some (False, bs1)
     else if usage AND eBUFFER_USAGE_HW_MASK \<noteq> 0 \<and> pa = 0 then Some (False, bs1)
     else fetch_addresses is usage h bs1
   }"

definition img_lockBufLocked ::
    "('i, 'k) heap_ops \<Rightarrow> MUINT32 \<Rightarrow> ImgBuf \<Rightarrow> 'i Heap \<times> 'k Ion \<Rightarrow> (bool \<times> ImgBuf \<times> 'i Heap \<times> 'k Ion) option" where
  "img_lockBufLocked ops usage m st =
     (if 0 < im_mLockCount m then None
      else do {
        (ok, h, d) \<leftarrow> heap_lockBuf ops usage st;
        if \<not> ok then Some (False, m, h, d)
        else if hp_mPlaneCount h \<noteq> length (im_mvBufHeapInfo m) then Some (False, m, h, d)
        else do {
          (ok1, bs) \<leftarrow> fetch_addresses [0..<length (im_mvBufHeapInfo m)] usage h (im_mvBufHeapInfo m);
          let m1 = m\<lparr>im_mvBufHeapInfo := bs\<rparr>;
          Some (if \<not> ok1 then (False, m1, h, d)
                else (True, m1\<lparr>im_mLockUsage := usage, im_mLockCount := im_mLockCount m1 + 1\<rparr>, h, d))
        }
      })"

text \<open>The planes of the image take the addresses of the heap's planes of the same number.\<close>

fun same_addresses :: "nat list \<Rightarrow> ImgBuf \<Rightarrow> ImgBuf option" where
  "same_addresses [] m = Some m"
| "same_addresses (i # is) m = do {
     b \<leftarrow> list_at i (im_mvBufHeapInfo m);
     p \<leftarrow> list_at i (im_mvImgBufInfo m);
     same_addresses is (m\<lparr>im_mvImgBufInfo := (im_mvImgBufInfo m)[i := p\<lparr>bi_pa := bi_pa b, bi_va := bi_va b\<rparr>]\<rparr>)
   }"

text \<open>In a heap of one plane the planes of the image follow one another.\<close>

fun chained_addresses :: "nat list \<Rightarrow> ImgBuf \<Rightarrow> ImgBuf option" where
  "chained_addresses [] m = Some m"
| "chained_addresses (i # is) m = do {
     first \<leftarrow> list_at 0 (im_mvImgBufInfo m);
     prev \<leftarrow> list_at (i - 1) (im_mvImgBufInfo m);
     p \<leftarrow> list_at i (im_mvImgBufInfo m);
     let pa = (if bi_pa first = 0 then 0 else bi_pa prev + bi_sizeInBytes prev);
     let va = (if bi_va first = 0 then 0 else bi_va prev + bi_sizeInBytes prev);
     chained_addresses is (m\<lparr>im_mvImgBufInfo := (im_mvImgBufInfo m)[i := p\<lparr>bi_pa := pa, bi_va := va\<rparr>]\<rparr>)
   }"

definition img_lockBuf ::
    "('i, 'k) heap_ops \<Rightarrow> MUINT32 \<Rightarrow> ImgBuf \<Rightarrow> 'i Heap \<times> 'k Ion \<Rightarrow> (bool \<times> ImgBuf \<times> 'i Heap \<times> 'k Ion) option" where
  "img_lockBuf ops usage m st = do {
     (ok, m1, h, d) \<leftarrow> img_lockBufLocked ops usage m st;
     m2 \<leftarrow> (if im_mPlaneCount m1 = hp_mPlaneCount h then same_addresses [0..<length (im_mvImgBufInfo m1)] m1
            else do {
              m2 \<leftarrow> same_addresses [0] m1;
              chained_addresses [1..<length (im_mvImgBufInfo m2)] m2
            });
     Some (True, m2, h, d)
   }"

definition img_unlockBufLocked ::
    "('i, 'k) heap_ops \<Rightarrow> ImgBuf \<Rightarrow> 'i Heap \<times> 'k Ion \<Rightarrow> (bool \<times> ImgBuf \<times> 'i Heap \<times> 'k Ion) option" where
  "img_unlockBufLocked ops m st =
     (if im_mLockCount m = 0 then Some (False, m, st)
      else do {
        (ok, h, d) \<leftarrow> heap_unlockBuf ops st;
        Some (if \<not> ok then (False, m, h, d)
              else (True, m\<lparr>im_mvBufHeapInfo := map (\<lambda>b. b\<lparr>bi_va := 0, bi_pa := 0\<rparr>) (im_mvBufHeapInfo m),
                            im_mLockUsage := 0, im_mLockCount := im_mLockCount m - 1\<rparr>, h, d))
      })"

fun kept_addresses :: "nat list \<Rightarrow> ImgBuf \<Rightarrow> ImgBuf option" where
  "kept_addresses [] m = Some m"
| "kept_addresses (i # is) m = do {
     first \<leftarrow> list_at 0 (im_mvImgBufInfo m);
     p \<leftarrow> list_at i (im_mvImgBufInfo m);
     let pa = (if bi_pa first = 0 then 0 else bi_pa p);
     let va = (if bi_va first = 0 then 0 else bi_va p);
     kept_addresses is (m\<lparr>im_mvImgBufInfo := (im_mvImgBufInfo m)[i := p\<lparr>bi_pa := pa, bi_va := va\<rparr>]\<rparr>)
   }"

definition img_unlockBuf ::
    "('i, 'k) heap_ops \<Rightarrow> ImgBuf \<Rightarrow> 'i Heap \<times> 'k Ion \<Rightarrow> (bool \<times> ImgBuf \<times> 'i Heap \<times> 'k Ion) option" where
  "img_unlockBuf ops m st = do {
     (ok, m1, h, d) \<leftarrow> img_unlockBufLocked ops m st;
     m2 \<leftarrow> (if im_mPlaneCount m1 = hp_mPlaneCount h then same_addresses [0..<length (im_mvImgBufInfo m1)] m1
            else do {
              m2 \<leftarrow> same_addresses [0] m1;
              kept_addresses [1..<length (im_mvImgBufInfo m2)] m2
            });
     Some (True, m2, h, d)
   }"

text \<open>The last reference: the image forgets its planes, and its reference to the heap.\<close>

definition img_onLastStrongRef :: "ImgBuf \<Rightarrow> ImgBuf" where
  "img_onLastStrongRef m = m\<lparr>im_mvImgBufInfo := [], im_mvBufHeapInfo := []\<rparr>"

end
