(* ===== verification/ImageAllocator.thy ===== *)
theory ImageAllocator
  imports IonProps ImageBuffer
begin

text \<open>
  The allocator of images (\<open>utils/imgbuf/ImageBufferAllocator.cpp\<close>): a heap of the driver's memory
  and one image in it, which holds the only reference to the heap.
\<close>

definition alloc_ion ::
    "'k ion_kernel \<Rightarrow> ImgParam \<Rightarrow> int \<Rightarrow> 'k Ion \<Rightarrow> ((ImgBuf \<times> IonHeap Heap) option \<times> 'k Ion) option" where
  "alloc_ion K rImgParam nocache d =
     (let extraParam = \<lparr>ax_nocache = nocache, ax_security = 0, ax_coherence = 0\<rparr>;
          jpeg = (ip_imgFormat rImgParam = eImgFmt_JPEG) in
      if jpeg \<and> ip_bufSize rImgParam = 0 then Some (None, d)
      else do {
        (pHeap, d1) \<leftarrow> ion_create K (if jpeg then rImgParam\<lparr>ip_imgFormat := eImgFmt_BLOB\<rparr> else rImgParam) extraParam d;
        case pHeap of
          None \<Rightarrow> Some (None, d1)
        | Some h \<Rightarrow> do {
            pImgBuf \<leftarrow> (if jpeg then createImageBuffer_FromBlobHeap_format 0 (ip_imgFormat rImgParam) (ip_jpgSize rImgParam)
                                    (ip_bufStridesInBytes rImgParam) h
                        else createImageBuffer h);
            case pImgBuf of
              None \<Rightarrow> do { (ok, h1, d2) \<leftarrow> heap_onLastStrongRef K (ion_ops K) (h, d1); Some (None, d2) }
            | Some m \<Rightarrow> Some (Some (m, h), d1)
          }
      })"

definition IImageBufferAllocator_alloc ::
    "'k ion_kernel \<Rightarrow> ImgParam \<Rightarrow> int \<Rightarrow> 'k Ion \<Rightarrow> ((ImgBuf \<times> IonHeap Heap) option \<times> 'k Ion) option" where
  "IImageBufferAllocator_alloc K rImgParam nocache d = alloc_ion K rImgParam nocache d"

text \<open>The reference that is given back is the image's last one.\<close>

definition IImageBufferAllocator_free ::
    "'k ion_kernel \<Rightarrow> (ImgBuf \<times> IonHeap Heap) option \<Rightarrow> 'k Ion \<Rightarrow> 'k Ion option" where
  "IImageBufferAllocator_free K pImageBuffer d =
     (case pImageBuffer of
        None \<Rightarrow> Some d
      | Some (m, h) \<Rightarrow> do { (ok, h1, d1) \<leftarrow> heap_onLastStrongRef K (ion_ops K) (h, d); Some d1 })"

end
