(* ===== verification/ImageFit.thy ===== *)
theory ImageFit
  imports ImageAllocator
begin

text \<open>
  An image of the whole heap: when every plane's stride has room for a row of the plane, the
  image is created and each of its planes is the plane of the heap (\<open>createImageBuffer_whole\<close>).
  The arithmetic of the checks is that of 64 bits, which does not wrap for strides below \<open>2 ^ 61\<close>.
\<close>

section \<open>Words\<close>

lemma push_bit_3_unat:
  assumes "unat (s :: size_t) < 2 ^ 61"
  shows "unat (push_bit 3 s) = 8 * unat s"
  using assms by (simp add: push_bit_eq_mult unat_mult_lem [THEN iffD1] unat_word_ariths)

lemma drop_bit_1_le: "unat (drop_bit 1 (x :: size_t)) \<le> unat x"
  unfolding unat_drop_bit_eq by (simp add: drop_bit_eq_div)

lemma sint_pos_unat:
  assumes "0 < sint (x :: MUINT32)"
  shows "unat x < 2 ^ 31" "unat (scast x :: size_t) = unat x"
proof -
  have s: "sint x = signed_take_bit 31 (uint x)" by (simp add: sint_uint)
  then have n: "\<not> bit (uint x) 31" using assms signed_take_bit_negative_iff [of 31 "uint x"] by linarith
  have "uint x < 2 ^ 32" using uint_bounded [of x] by simp
  then have "take_bit 32 (uint x) = uint x" by (intro take_bit_int_eq_self) simp_all
  then have t: "take_bit 31 (uint x) = uint x"
    using take_bit_Suc_from_most [of 31 "uint x"] n by simp
  then have i: "sint x = int (unat x)" using s n by (simp add: signed_take_bit_eq_if_positive)
  have "uint x < 2 ^ 31" using t take_bit_int_less_exp [of 31 "uint x"] by simp
  then have "int (unat x) < int (2 ^ 31)" by (simp only: of_nat_unat) simp
  then show b: "unat x < 2 ^ 31" by (simp only: of_nat_less_iff)
  have "(scast x :: size_t) = ucast x" by (simp add: scast_eq i)
  moreover have "unat (ucast x :: size_t) = unat x"
    unfolding unsigned_ucast_eq by (rule take_bit_nat_eq_self) (use b in simp_all)
  ultimately show "unat (scast x :: size_t) = unat x" by simp
qed

lemma scast_small:
  assumes "unat (x :: size_t) < 2 ^ 31"
  shows "scast (ucast x :: MUINT32) = x"
proof -
  have "int (unat x) < int (2 ^ 31)" using assms by (simp only: of_nat_less_iff)
  then have u: "uint x < 2 ^ 31" by (simp only: of_nat_unat) simp
  have "uint (ucast x :: MUINT32) = uint x" unfolding unsigned_ucast_eq
    by (rule take_bit_int_eq_self) (use u in simp_all)
  moreover have "signed_take_bit 31 (uint x) = uint x" 
    by (rule signed_take_bit_int_eq_self, rule order_trans [OF _ uint_ge_0]) (use u in simp_all)
  ultimately have "sint (ucast x :: MUINT32) = uint x" by (simp only: sint_uint) simp
  then show ?thesis by (simp add: scast_eq)
qed

section \<open>One plane\<close>

lemma plane_width_le: "unat (queryPlaneWidthInPixels f i w) \<le> unat w"
proof -
  have "unat (getPlaneWidthInPixels s i w) \<le> unat w" for s
    using drop_bit_1_le [of w] by (cases s) simp_all
  then show ?thesis by (simp add: queryPlaneWidthInPixels_def split: option.split)
qed

lemma plane_height_le: "unat (queryPlaneHeightInPixels f i w) \<le> unat w"
proof -
  have "unat (getPlaneHeightInPixels s i w) \<le> unat w" for s
    using drop_bit_1_le [of w] by (cases s) simp_all
  then show ?thesis by (simp add: queryPlaneHeightInPixels_def split: option.split)
qed

lemma plane_width_0: "queryPlaneWidthInPixels f i 0 = 0"
proof -
  have "getPlaneWidthInPixels s i 0 = 0" for s by (cases s) simp_all
  then show ?thesis by (simp add: queryPlaneWidthInPixels_def split: option.split)
qed

text \<open>A stride has room for a row when its bits are at least those of the row's pixels.\<close>

definition row_fits :: "nat \<Rightarrow> size_t \<Rightarrow> size_t \<Rightarrow> bool" where
  "row_fits b pw strides \<longleftrightarrow> unat pw * b \<le> 8 * unat strides"

lemma ceil_div_8:
  fixes n t :: nat
  assumes "n \<le> 8 * t"
  shows "n div 8 + (if n mod 8 > 0 then 1 else 0) \<le> t"
  using assms by (split if_split) presburger

lemma ceil_div_8_le:
  fixes n t :: nat
  assumes "n div 8 + (if n mod 8 > 0 then 1 else 0) \<le> t"
  shows "n \<le> 8 * t"
proof -
  have "n = 8 * (n div 8) + n mod 8" "n mod 8 < 8" by simp_all
  moreover have "n div 8 + 1 \<le> t \<or> n mod 8 = 0 \<and> n div 8 \<le> t" using assms by (cases "n mod 8 = 0") simp_all
  ultimately show ?thesis by linarith
qed

lemma row_words:
  assumes "row_fits b pw s" "8 \<le> b" "b \<le> 48" "unat pw < 2 ^ 31" "unat s < 2 ^ 61"
  defines "B \<equiv> word_of_nat b :: size_t"
  shows "B \<noteq> 0" "pw * B div 8 + (if pw * B mod 8 > 0 then 1 else 0) \<le> s" "pw \<le> push_bit 3 s div B"
proof -
  have b: "unat B = b" using assms(3) by (simp add: B_def unat_of_nat)
  then show "B \<noteq> 0" using assms(2) by auto
  have "unat pw * b < 2 ^ 31 * 64" by (rule mult_less_le_imp_less) (use assms(2-4) in simp_all)
  then have p: "unat (pw * B) = unat pw * b" by (simp add: unat_word_ariths b)
  have q: "unat (pw * B div 8) = unat pw * b div 8" "unat (pw * B mod 8) = unat pw * b mod 8"
    by (simp_all only: unat_div_distrib unat_mod_distrib p) simp_all
  have k: "unat pw * b \<le> 8 * unat s" using assms(1) by (simp add: row_fits_def)
  have "unat (pw * B div 8 + (if pw * B mod 8 > 0 then 1 else 0)) \<le> unat pw * b div 8 + (if unat pw * b mod 8 > 0 then 1 else 0)"
  proof (cases "pw * B mod 8 > 0")
    case True
    then have "unat pw * b mod 8 > 0" using q(2) by (metis unat_gt_0 word_gt_0)
    then show ?thesis using True q(1) unat_word_ariths(1) [of "pw * B div 8" 1] by (simp add: mod_less_eq_dividend)
  qed (simp add: q)
  also have "\<dots> \<le> unat s" by (rule ceil_div_8 [OF k])
  finally show "pw * B div 8 + (if pw * B mod 8 > 0 then 1 else 0) \<le> s" by (simp add: word_le_nat_alt)
  have "unat (push_bit 3 s div B) = 8 * unat s div b"
    by (simp add: unat_div_distrib push_bit_3_unat [OF assms(5)] b)
  moreover have "unat pw \<le> 8 * unat s div b" using k assms(2) by (simp add: less_eq_div_iff_mult_less_eq)
  ultimately show "pw \<le> push_bit 3 s div B" by (simp add: word_le_nat_alt)
qed

text \<open>A heap whose planes have room for the image's rows.\<close>

definition plane_fits :: "'i Heap \<Rightarrow> nat \<Rightarrow> bool" where
  "plane_fits h i \<longleftrightarrow> (\<exists>b. queryPlaneBitsPerPixel (hp_mImgFormat h) i = Some b \<and>
     row_fits b (queryPlaneWidthInPixels (hp_mImgFormat h) i (scast (ms_w (hp_mImgSize h)))) (bi_stridesInBytes (hp_mvBufInfo h ! i))) \<and>
     bi_stridesInBytes (hp_mvBufInfo h ! i) \<noteq> 0 \<and> unat (bi_stridesInBytes (hp_mvBufInfo h ! i)) < 2 ^ 61 \<and>
     bi_sizeInBytes (hp_mvBufInfo h ! i) = bi_stridesInBytes (hp_mvBufInfo h ! i) *
       queryPlaneHeightInPixels (hp_mImgFormat h) i (scast (ms_h (hp_mImgSize h)))"

definition heap_fits :: "'i Heap \<Rightarrow> bool" where
  "heap_fits h \<longleftrightarrow> hp_mImgFormat h \<noteq> eImgFmt_BLOB \<and> hp_mImgFormat h \<noteq> eImgFmt_JPEG \<and> \<not> MSize_bad (hp_mImgSize h) \<and>
     hp_mPlaneCount h = queryPlaneCount (hp_mImgFormat h) \<and> length (hp_mvBufInfo h) = hp_mPlaneCount h \<and>
     (\<forall>i<hp_mPlaneCount h. plane_fits h i)"

definition whole_info :: "BufInfo \<Rightarrow> ImgBufInfo" where
  "whole_info b = ImgBufInfo_new\<lparr>bi_stridesInBytes := bi_stridesInBytes b, bi_sizeInBytes := bi_sizeInBytes b\<rparr>"

definition whole_image :: "ImgBuf \<Rightarrow> 'i Heap \<Rightarrow> bool" where
  "whole_image m h \<longleftrightarrow> im_mImgSize m = hp_mImgSize h \<and> im_mImgFormat m = hp_mImgFormat h \<and> im_mOffset m = 0 \<and>
     im_mPlaneCount m = hp_mPlaneCount h \<and> (\<forall>i<hp_mPlaneCount h. list_at i (im_mStrides m) = Some (bi_stridesInBytes (hp_mvBufInfo h ! i)))"

lemma create_plane_whole:
  assumes "heap_fits h" "whole_image m h" "i < hp_mPlaneCount h"
  shows "create_plane i m h = Some (True, whole_info (hp_mvBufInfo h ! i))"
proof -
  let ?f = "hp_mImgFormat h"
  define s where "s = bi_stridesInBytes (hp_mvBufInfo h ! i)"
  define pw where "pw = queryPlaneWidthInPixels ?f i (scast (ms_w (hp_mImgSize h)))"
  define ph where "ph = queryPlaneHeightInPixels ?f i (scast (ms_h (hp_mImgSize h)))"
  have wh: "0 < sint (ms_w (hp_mImgSize h))" "0 < sint (ms_h (hp_mImgSize h))"
    using assms(1) by (simp_all add: heap_fits_def MSize_bad_def)
  have pw31: "unat pw < 2 ^ 31" using plane_width_le [of ?f i] sint_pos_unat [OF wh(1)]
    unfolding pw_def by (metis le_less_trans)
  have ph31: "unat ph < 2 ^ 31" using plane_height_le [of ?f i] sint_pos_unat [OF wh(2)]
    unfolding ph_def by (metis le_less_trans)
  have fits: "plane_fits h i" using assms(1,3) by (simp add: heap_fits_def)
  obtain b where b: "queryPlaneBitsPerPixel ?f i = Some b" "row_fits b pw s" using fits by (auto simp: plane_fits_def pw_def s_def)
  have s: "s \<noteq> 0" "unat s < 2 ^ 61" "bi_sizeInBytes (hp_mvBufInfo h ! i) = s * ph"
    using fits by (simp_all add: plane_fits_def s_def ph_def)
  have "i < queryPlaneCount ?f" using assms(1,3) by (simp add: heap_fits_def)
  then have r: "8 \<le> b" "b \<le> 48" using b(1) by (auto elim: queryPlaneBitsPerPixel_range)
  define B where "B = (word_of_nat b :: size_t)"
  note w = row_words [OF b(2) r pw31 s(2), folded B_def]
  have h: "heap_getBufStridesInBytes i h = Some s" "heap_getBufSizeInBytes i h = Some (s * ph)"
    using assms s(3) by (simp_all add: heap_getBufStridesInBytes_def heap_getBufSizeInBytes_def buf_at_def list_at_Some s_def heap_fits_def)
  have z: "BYTE2PIXEL B 0 = Some 0" "PIXEL2BYTE B 0 = 0" using w(1) by (simp_all add: BYTE2PIXEL_def PIXEL2BYTE_def)
  have roi: "region_fits i B 0 pw ph m h = Some True"
    using assms(2) w s(1) scast_small [OF pw31] scast_small [OF ph31]
    by (simp add: region_fits_def h z BYTE2PIXEL_def Let_def whole_image_def ph_def [symmetric] not_less)
  have m: "list_at i (im_mStrides m) = Some s" "img_getPlaneBitsPerPixel i m = Some B" "im_mOffset m = 0"
      "im_mImgFormat m = ?f" "im_mImgSize m = hp_mImgSize h"
    using assms(2,3) b(1) by (simp_all add: whole_image_def s_def img_getPlaneBitsPerPixel_def B_def)
  have "?f \<noteq> eImgFmt_BLOB" "?f \<noteq> eImgFmt_JPEG" using assms(1) by (simp_all add: heap_fits_def)
  then show ?thesis
    using w(2) s(1) by (simp add: create_plane_def m z plane_width_0 Let_def pw_def [symmetric] ph_def [symmetric] h roi
        whole_info_def ImgBufInfo_new_def s(3) s_def [symmetric] not_less)
qed

lemma create_planes_whole:
  assumes "heap_fits h" "whole_image m h" "set is \<subseteq> {..<hp_mPlaneCount h}"
  shows "\<exists>n m'. create_planes is k m h = Some (True, n, m') \<and>
    m' = m\<lparr>im_mvImgBufInfo := fold (\<lambda>i xs. xs[i := whole_info (hp_mvBufInfo h ! i)]) is (im_mvImgBufInfo m)\<rparr>"
  using assms(2,3)
proof (induction "is" arbitrary: k m)
  case (Cons i "is")
  let ?x = "whole_info (hp_mvBufInfo h ! i)"
  let ?m = "m\<lparr>im_mvImgBufInfo := (im_mvImgBufInfo m)[i := ?x]\<rparr>"
  have "create_plane i m h = Some (True, ?x)" using create_plane_whole [OF assms(1) Cons.prems(1)] Cons.prems(2) by simp
  moreover have "whole_image ?m h" using Cons.prems(1) by (simp add: whole_image_def)
  ultimately show ?case using Cons.IH [of ?m "k + bi_sizeInBytes ?x"] Cons.prems(2) by simp
qed simp

lemma fold_update_all:
  "fold (\<lambda>i xs. xs[i := f i]) [0..<n] xs = map f [0..<n] @ drop n xs" if "n \<le> length xs"
  using that by (induction n) (simp_all add: list_update_append upd_conv_take_nth_drop Cons_nth_drop_Suc [symmetric])

lemma heap_infos_whole:
  assumes "length (hp_mvBufInfo h) = hp_mPlaneCount h" "set is \<subseteq> {..<hp_mPlaneCount h}"
  shows "heap_infos is h = Some (map (\<lambda>i. (hp_mvBufInfo h ! i)\<lparr>bi_pa := 0, bi_va := 0\<rparr>) is)"
    and "heap_strides is h = Some (map (\<lambda>i. bi_stridesInBytes (hp_mvBufInfo h ! i)) is)"
  using assms(2) assms(1)
  by (induction "is") (simp_all add: heap_getBufStridesInBytes_def heap_getBufSizeInBytes_def buf_at_def list_at_Some)

lemma createImageBuffer_fits:
  assumes "heap_fits h"
  shows "\<exists>m. createImageBuffer h = Some (Some m) \<and> im_mPlaneCount m = hp_mPlaneCount h \<and> im_mLockCount m = 0 \<and>
    im_mvImgBufInfo m = map whole_info (hp_mvBufInfo h) \<and> im_mvBufHeapInfo m = map (\<lambda>b. b\<lparr>bi_pa := 0, bi_va := 0\<rparr>) (hp_mvBufInfo h)"
proof -
  let ?n = "hp_mPlaneCount h"
  let ?ss = "map (\<lambda>i. bi_stridesInBytes (hp_mvBufInfo h ! i)) [0..<?n] @ replicate (3 - ?n) 0"
  let ?m = "BaseImageBuffer_new (hp_mImgSize h) (hp_mImgFormat h) (hp_mBitstreamSize h) ?ss 0"
  let ?bs = "map (\<lambda>i. (hp_mvBufInfo h ! i)\<lparr>bi_pa := 0, bi_va := 0\<rparr>) [0..<?n]"
  let ?m1 = "?m\<lparr>im_mvBufHeapInfo := ?bs, im_mvImgBufInfo := replicate (im_mPlaneCount ?m) ImgBufInfo_new\<rparr>"
  have l: "length (hp_mvBufInfo h) = ?n" "?n = queryPlaneCount (hp_mImgFormat h)" "hp_mImgFormat h \<noteq> eImgFmt_BLOB"
    using assms by (simp_all add: heap_fits_def)
  note i = heap_infos_whole [OF l(1) set_planes]
  have "whole_image ?m1 h"
    using l(2) by (simp add: whole_image_def BaseImageBuffer_new_def list_at_def nth_append)
  from create_planes_whole [OF assms this set_planes, of 0]
  obtain k where c: "create_planes [0..<?n] 0 ?m1 h = Some (True, k,
      ?m1\<lparr>im_mvImgBufInfo := fold (\<lambda>i xs. xs[i := whole_info (hp_mvBufInfo h ! i)]) [0..<?n] (im_mvImgBufInfo ?m1)\<rparr>)"
    by blast
  have n: "im_mPlaneCount ?m = ?n" using l(2) by (simp add: BaseImageBuffer_new_def)
  have m: "map (\<lambda>i. g (hp_mvBufInfo h ! i)) [0..<?n] = map g (hp_mvBufInfo h)" for g :: "BufInfo \<Rightarrow> 'x"
    using l(1) by (intro nth_equalityI) simp_all
  show ?thesis
    using c l(1,3) n by (simp add: createImageBuffer_def i created_def img_onCreate_def Let_def fold_update_all m
      m [of "\<lambda>b. b\<lparr>bi_pa := 0, bi_va := 0\<rparr>"] BaseImageBuffer_new_def)
qed

section \<open>A heap whose rows are too short\<close>

text \<open>What the creation of any heap leaves, whatever the strides.\<close>

definition heap_shaped :: "'i Heap \<Rightarrow> bool" where
  "heap_shaped h \<longleftrightarrow> \<not> MSize_bad (hp_mImgSize h) \<and> hp_mPlaneCount h = queryPlaneCount (hp_mImgFormat h) \<and>
     length (hp_mvBufInfo h) = hp_mPlaneCount h"

lemma row_width_bytes:
  assumes "8 \<le> b" "b \<le> 48" "unat (pw :: size_t) < 2 ^ 31"
  defines "B \<equiv> word_of_nat b :: size_t"
  assumes "pw * B div 8 + (if pw * B mod 8 > 0 then 1 else 0) \<le> s"
  shows "row_fits b pw s"
proof -
  have b: "unat B = b" using assms(2) by (simp add: B_def unat_of_nat)
  have l: "unat pw * b < 2 ^ 31 * 64" by (rule mult_less_le_imp_less) (use assms(1-3) in simp_all)
  then have p: "unat (pw * B) = unat pw * b" by (simp add: unat_word_ariths b)
  have q: "unat (pw * B div 8) = unat pw * b div 8" "unat (pw * B mod 8) = unat pw * b mod 8"
    by (simp_all only: unat_div_distrib unat_mod_distrib p) simp_all
  have g: "pw * B mod 8 > 0 \<longleftrightarrow> unat pw * b mod 8 > 0" using q(2) by (metis unat_gt_0 word_gt_0)
  have "unat (pw * B div 8 + (if pw * B mod 8 > 0 then 1 else 0)) = unat pw * b div 8 + (if unat pw * b mod 8 > 0 then 1 else 0)"
    using q(1) g l by (simp add: unat_word_ariths)
  then have "unat pw * b div 8 + (if unat pw * b mod 8 > 0 then 1 else 0) \<le> unat s"
    using assms(5) by (simp only: word_le_nat_alt)
  then show ?thesis unfolding row_fits_def by (rule ceil_div_8_le)
qed

lemma create_plane_shaped:
  assumes "heap_shaped h" "whole_image m h" "i < hp_mPlaneCount h" "queryPlaneBitsPerPixel (hp_mImgFormat h) i = Some b"
  shows "\<exists>ok info. create_plane i m h = Some (ok, info) \<and>
    (ok \<longrightarrow> row_fits b (queryPlaneWidthInPixels (hp_mImgFormat h) i (scast (ms_w (hp_mImgSize h)))) (bi_stridesInBytes (hp_mvBufInfo h ! i)))"
proof -
  let ?f = "hp_mImgFormat h"
  define s where "s = bi_stridesInBytes (hp_mvBufInfo h ! i)"
  define pw where "pw = queryPlaneWidthInPixels ?f i (scast (ms_w (hp_mImgSize h)))"
  have "i < queryPlaneCount ?f" using assms(1,3) by (simp add: heap_shaped_def)
  then have r: "8 \<le> b" "b \<le> 48" using assms(4) by (auto elim: queryPlaneBitsPerPixel_range)
  have "0 < sint (ms_w (hp_mImgSize h))" using assms(1) by (simp add: heap_shaped_def MSize_bad_def)
  then have pw31: "unat pw < 2 ^ 31" using plane_width_le [of ?f i] sint_pos_unat
    unfolding pw_def by (metis le_less_trans)
  define B where "B = (word_of_nat b :: size_t)"
  have B: "B \<noteq> 0" using r by (auto simp: B_def word_of_nat_eq_0_iff dest: dvd_imp_le)
  have h: "heap_getBufStridesInBytes i h = Some s" "\<exists>n. heap_getBufSizeInBytes i h = Some n"
    using assms by (simp_all add: heap_getBufStridesInBytes_def heap_getBufSizeInBytes_def buf_at_def list_at_Some s_def heap_shaped_def)
  have m: "list_at i (im_mStrides m) = Some s" "img_getPlaneBitsPerPixel i m = Some B" "im_mOffset m = 0"
      "im_mImgFormat m = ?f" "im_mImgSize m = hp_mImgSize h"
    using assms(2,3,4) by (simp_all add: whole_image_def s_def img_getPlaneBitsPerPixel_def B_def)
  obtain n where n: "heap_getBufSizeInBytes i h = Some n" using h(2) by blast
  obtain c where c: "s \<noteq> 0 \<Longrightarrow> region_fits i B 0 pw (queryPlaneHeightInPixels ?f i (scast (ms_h (hp_mImgSize h)))) m h = Some c"
    using B by (simp add: region_fits_def h BYTE2PIXEL_def Let_def)
  have fit: "row_fits b pw s" if "\<not> s < pw * B div 8 + (if pw * B mod 8 > 0 then 1 else 0)"
    using row_width_bytes [OF r pw31] that by (simp only: B_def not_less)
  have e: "create_plane i m h = Some (ok, info) \<Longrightarrow> ok \<Longrightarrow> row_fits b pw s" for ok info
    using fit by (auto simp: create_plane_def m BYTE2PIXEL_def B Let_def pw_def [symmetric] split: if_splits)
  have "create_plane i m h \<noteq> None"
    using n c B by (simp add: create_plane_def m BYTE2PIXEL_def PIXEL2BYTE_def plane_width_0 Let_def pw_def [symmetric] del: not_None_eq)
  then show ?thesis using e unfolding s_def pw_def by (metis not_None_eq surj_pair)
qed

lemma create_planes_shaped:
  assumes "heap_shaped h" "whole_image m h" "set is \<subseteq> {..<hp_mPlaneCount h}"
  shows "\<exists>ok n m'. create_planes is k m h = Some (ok, n, m') \<and>
    (ok \<longrightarrow> (\<forall>i\<in>set is. \<forall>b. queryPlaneBitsPerPixel (hp_mImgFormat h) i = Some b \<longrightarrow>
       row_fits b (queryPlaneWidthInPixels (hp_mImgFormat h) i (scast (ms_w (hp_mImgSize h)))) (bi_stridesInBytes (hp_mvBufInfo h ! i))))"
  using assms(2,3)
proof (induction "is" arbitrary: k m)
  case (Cons i "is")
  have i: "i < hp_mPlaneCount h" using Cons.prems(2) by simp
  then obtain b where b: "queryPlaneBitsPerPixel (hp_mImgFormat h) i = Some b"
    using assms(1) queryPlaneBitsPerPixel_range [of i "hp_mImgFormat h"] by (auto simp: heap_shaped_def)
  obtain ok info where c: "create_plane i m h = Some (ok, info)"
      "ok \<Longrightarrow> row_fits b (queryPlaneWidthInPixels (hp_mImgFormat h) i (scast (ms_w (hp_mImgSize h)))) (bi_stridesInBytes (hp_mvBufInfo h ! i))"
    using create_plane_shaped [OF assms(1) Cons.prems(1) i b] by blast
  have "whole_image (m\<lparr>im_mvImgBufInfo := (im_mvImgBufInfo m)[i := info]\<rparr>) h" using Cons.prems(1) by (simp add: whole_image_def)
  from Cons.IH [OF this, of "k + bi_sizeInBytes info"] Cons.prems(2) c b show ?case by (cases ok) auto
qed (rule exI [of _ True], simp)

lemma createImageBuffer_short:
  assumes "heap_shaped h" "i < hp_mPlaneCount h" "queryPlaneBitsPerPixel (hp_mImgFormat h) i = Some b"
    "\<not> row_fits b (queryPlaneWidthInPixels (hp_mImgFormat h) i (scast (ms_w (hp_mImgSize h)))) (bi_stridesInBytes (hp_mvBufInfo h ! i))"
  shows "createImageBuffer h = Some None"
proof -
  let ?n = "hp_mPlaneCount h"
  let ?ss = "map (\<lambda>i. bi_stridesInBytes (hp_mvBufInfo h ! i)) [0..<?n] @ replicate (3 - ?n) 0"
  let ?m = "BaseImageBuffer_new (hp_mImgSize h) (hp_mImgFormat h) (hp_mBitstreamSize h) ?ss 0"
  let ?m1 = "?m\<lparr>im_mvBufHeapInfo := map (\<lambda>i. (hp_mvBufInfo h ! i)\<lparr>bi_pa := 0, bi_va := 0\<rparr>) [0..<?n],
    im_mvImgBufInfo := replicate (im_mPlaneCount ?m) ImgBufInfo_new\<rparr>"
  have l: "length (hp_mvBufInfo h) = ?n" "?n = queryPlaneCount (hp_mImgFormat h)"
    using assms(1) by (simp_all add: heap_shaped_def)
  note w = heap_infos_whole [OF l(1) set_planes]
  have "whole_image ?m1 h"
    using l(2) by (simp add: whole_image_def BaseImageBuffer_new_def list_at_def nth_append)
  from create_planes_shaped [OF assms(1) this set_planes, of 0]
  obtain ok k m' where c: "create_planes [0..<?n] 0 ?m1 h = Some (ok, k, m')"
      "ok \<Longrightarrow> \<forall>i\<in>set [0..<?n]. \<forall>b. queryPlaneBitsPerPixel (hp_mImgFormat h) i = Some b \<longrightarrow>
         row_fits b (queryPlaneWidthInPixels (hp_mImgFormat h) i (scast (ms_w (hp_mImgSize h)))) (bi_stridesInBytes (hp_mvBufInfo h ! i))"
    by blast
  have "\<not> ok" using c(2) assms(2-4) by auto
  moreover have "im_mPlaneCount ?m = ?n" using l(2) by (simp add: BaseImageBuffer_new_def)
  ultimately show ?thesis using c(1) by (simp add: createImageBuffer_def w created_def img_onCreate_def Let_def)
qed

section \<open>The heap of the allocator\<close>

text \<open>What the initialisation leaves in the planes: the strides asked for and the sizes they give.\<close>

definition plane_geometry :: "IonHeap Heap \<Rightarrow> nat \<Rightarrow> size_t \<times> size_t" where
  "plane_geometry h i =
     (let s = nh_mBufStridesInBytesToAlloc (hp_imp h) ! i
      in (s, s * queryPlaneHeightInPixels (hp_mImgFormat h) i (scast (ms_h (hp_mImgSize h)))))"

lemma nth_geometry: "i < length (hp_mvBufInfo h) \<Longrightarrow> geometry h ! i = (bi_stridesInBytes (hp_mvBufInfo h ! i), bi_sizeInBytes (hp_mvBufInfo h ! i))"
  by (simp add: geometry_def)

lemma ion_init_planes_geometry:
  assumes "ion_init_planes K is (h, d) = Some (True, h', d')" "set is \<subseteq> {..<length (hp_mvBufInfo h)}" "distinct is"
  shows "nh_mBufStridesInBytesToAlloc (hp_imp h') = nh_mBufStridesInBytesToAlloc (hp_imp h) \<and>
    (\<forall>i<length (hp_mvBufInfo h). geometry h' ! i = (if i \<in> set is then plane_geometry h i else geometry h ! i))"
  using assms
proof (induction "is" arbitrary: h d)
  case (Cons i "is")
  have i: "i < length (hp_mvBufInfo h)" "i \<notin> set is" using Cons.prems(2,3) by simp_all
  from Cons.prems(1) obtain strides c where s: "list_at i (nh_mBufStridesInBytesToAlloc (hp_imp h)) = Some strides"
      "helpCheckBufStrides i strides h = Some c"
    by auto
  with Cons.prems(1) have c: "helpCheckBufStrides i strides h = Some True" by (cases c) auto
  then obtain n boundary where n: "helpQueryBufSizeInBytes i strides h = Some n"
      "list_at i (nh_mBufBoundaryInBytesToAlloc (hp_imp h)) = Some boundary"
    using Cons.prems(1) s by auto
  obtain a h1 d1 where p: "ion_init_plane K i strides n boundary (h, d) = (a, h1, d1)" by (metis prod_cases3)
  note q = ion_init_plane_held [OF p]
  define h2 where "h2 = edit_buf i (\<lambda>b. b\<lparr>bi_stridesInBytes := strides, bi_sizeInBytes := n\<rparr>) h1"
  have "ion_init_planes K (i # is) (h, d) = (if a then ion_init_planes K is (h2, d1) else Some (False, h1, d1))"
    unfolding h2_def by (rule ion_init_planes_Cons [OF s(1) c n p])
  then have e: "ion_init_planes K is (h2, d1) = Some (True, h', d')" using Cons.prems(1) by (cases a) (simp_all only: if_True if_False, simp)
  have g1: "geometry h1 = geometry h" "attributes h1 = attributes h" "length (hp_mvBufInfo h1) = length (hp_mvBufInfo h)"
    using q by (simp_all add: same_shape_def same_place_def)
  have g2: "geometry h2 = (geometry h)[i := (strides, n)]"
    using g1(1) by (simp add: h2_def geometry_def edit_buf_def map_update)
  have at: "attributes h2 = attributes h" "nh_mBufStridesInBytesToAlloc (hp_imp h2) = nh_mBufStridesInBytesToAlloc (hp_imp h)"
      "length (hp_mvBufInfo h2) = length (hp_mvBufInfo h)"
    using g1 q by (simp_all add: h2_def attributes_def edit_buf_def)
  have pg: "plane_geometry h2 = plane_geometry h" "plane_geometry h i = (strides, n)"
    using at s(1) n(1) by (auto simp: plane_geometry_def attributes_def list_at_def helpQueryBufSizeInBytes_def Let_def split: if_splits)
  have "set is \<subseteq> {..<length (hp_mvBufInfo h2)}" "distinct is" using Cons.prems(2,3) at(3) by auto
  from Cons.IH [OF e this] show ?case
    using at(2,3) pg g2 i by (auto simp: nth_list_update length_geometry)
qed simp

text \<open>The strides a client asks for have room for every row, and the buffer sizes do not wrap.\<close>

definition param_fits :: "ImgParam \<Rightarrow> bool" where
  "param_fits p \<longleftrightarrow> ip_imgFormat p \<noteq> eImgFmt_BLOB \<and> ip_imgFormat p \<noteq> eImgFmt_JPEG \<and>
     queryPlaneCount (ip_imgFormat p) \<le> length (ip_bufBoundaryInBytes p) \<and>
     queryPlaneCount (ip_imgFormat p) \<le> length (ip_bufStridesInBytes p) \<and>
     (\<forall>i<queryPlaneCount (ip_imgFormat p). unat (ip_bufStridesInBytes p ! i) < 2 ^ 61 \<and>
        (\<forall>b. queryPlaneBitsPerPixel (ip_imgFormat p) i = Some b \<longrightarrow>
           row_fits b (queryPlaneWidthInPixels (ip_imgFormat p) i (scast (ms_w (ip_imgSize p)))) (ip_bufStridesInBytes p ! i)))"

lemma ion_impInit_geometry:
  assumes "ion_impInit K (h, d) = Some (True, h', d')" "length (hp_mvBufInfo h) = hp_mPlaneCount h"
  shows "geometry h' = map (plane_geometry h) [0..<hp_mPlaneCount h]"
proof -
  obtain fd k where o: "ion_open K (g_k d) = (fd, k)" by (metis surj_pair)
  let ?h = "h\<lparr>hp_imp := (hp_imp h)\<lparr>nh_mIonDevFD := fd\<rparr>\<rparr>"
  have i: "ion_init_planes K [0..<hp_mPlaneCount h] (?h, d\<lparr>g_k := k\<rparr>) = Some (True, h', d')"
    using assms(1) o by (auto simp: ion_impInit_def Let_def split: if_splits prod.splits)
  have "set [0..<hp_mPlaneCount h] \<subseteq> {..<length (hp_mvBufInfo ?h)}" using assms(2) by auto
  from ion_init_planes_geometry [OF i this distinct_upt]
  have g: "\<forall>i<hp_mPlaneCount h. geometry h' ! i = plane_geometry ?h i" using assms(2) by simp
  have "length (geometry h') = hp_mPlaneCount h"
    using ion_init_planes_held [OF i] assms(2) by (simp add: length_geometry same_place_def)
  then show ?thesis using g by (intro nth_equalityI) (simp_all add: plane_geometry_def)
qed

lemma ion_create_fits:
  assumes "ion_create K p x d = Some (Some h, d')" "param_fits p"
  shows "heap_fits h \<and> heap_ready sound_ion h \<and> hp_mLockCount h = 0 \<and>
    attributes h = (ip_imgSize p, ip_imgFormat p, queryPlaneCount (ip_imgFormat p), ip_bufSize p)"
proof -
  let ?f = "ip_imgFormat p"
  let ?h = "(IonImageBufferHeap_new p x)\<lparr>hp_mImgSize := ip_imgSize p, hp_mImgFormat := ?f, hp_mBitstreamSize := ip_bufSize p,
            hp_mPlaneCount := queryPlaneCount ?f\<rparr>"
  let ?h1 = "?h\<lparr>hp_mBufMap := [], hp_mvBufInfo := replicate (queryPlaneCount ?f) BufInfo_new\<rparr>"
  have c: "heap_onCreate K (ion_ops K) (ip_imgSize p) ?f (ip_bufSize p) (IonImageBufferHeap_new p x, d) = Some (True, h, d')"
    using assms(1) by (auto simp: ion_create_def split: if_splits)
  have f: "fresh_ion (hp_imp (IonImageBufferHeap_new p x))"
    by (simp add: fresh_ion_def IonImageBufferHeap_new_def BaseImageBufferHeap_new_def)
  have n: "IonImageBufferHeap_new p x = BaseImageBufferHeap_new (hp_imp (IonImageBufferHeap_new p x))"
    by (simp add: IonImageBufferHeap_new_def BaseImageBufferHeap_new_def)
  have "heap_onCreate K (ion_ops K) (ip_imgSize p) ?f (ip_bufSize p)
      (BaseImageBufferHeap_new (hp_imp (IonImageBufferHeap_new p x)), d) = Some (True, h, d')"
    by (subst n [symmetric]) (rule c)
  note r = ion.create_ready [OF this f]
  have i: "\<not> MSize_bad (ip_imgSize p)" "initLocked K (ion_ops K) (?h, d) = Some (True, h, d')"
    using c by (simp_all add: heap_onCreate_def split: if_splits)
  from i(2) obtain d1 where "ion_impInit K (?h1, d1) = Some (True, h, d')"
    by (auto simp: initLocked_def ion_ops_init Let_def split: prod.splits if_splits option.splits)
  then have g: "geometry h = map (plane_geometry ?h1) [0..<queryPlaneCount ?f]"
    using ion_impInit_geometry [of K ?h1 d1 h d'] by simp
  have a: "hp_mImgSize h = ip_imgSize p" "hp_mImgFormat h = ?f" "hp_mPlaneCount h = queryPlaneCount ?f"
      "length (hp_mvBufInfo h) = queryPlaneCount ?f"
    using r by (simp_all add: attributes_def heap_ready_def)
  have "plane_fits h i" if j: "i < queryPlaneCount ?f" for i
  proof -
    have s: "nh_mBufStridesInBytesToAlloc (hp_imp ?h1) = ip_bufStridesInBytes p"
      by (simp add: IonImageBufferHeap_new_def BaseImageBufferHeap_new_def)
    have "geometry h ! i = plane_geometry ?h1 i" using g j by simp
    then have e: "bi_stridesInBytes (hp_mvBufInfo h ! i) = ip_bufStridesInBytes p ! i"
        "bi_sizeInBytes (hp_mvBufInfo h ! i) = ip_bufStridesInBytes p ! i * queryPlaneHeightInPixels ?f i (scast (ms_h (ip_imgSize p)))"
      using j a(4) s by (simp_all add: nth_geometry plane_geometry_def Let_def)
    have "fst (geometry h ! i) \<noteq> 0" using r j a(4) by (simp add: list_all_length length_geometry)
    then have "bi_stridesInBytes (hp_mvBufInfo h ! i) \<noteq> 0" using j a(4) by (simp add: nth_geometry)
    moreover obtain b where "queryPlaneBitsPerPixel ?f i = Some b" using queryPlaneBitsPerPixel_range [OF j] by blast
    ultimately show ?thesis using assms(2) j e a by (simp add: plane_fits_def param_fits_def)
  qed
  then show ?thesis using r i(1) a assms(2) by (simp add: heap_fits_def param_fits_def)
qed

end
