(* ===== verification/ImageLocks.thy ===== *)
theory ImageLocks
  imports ImageFit
begin

text \<open>
  Locking an image: the heap is locked once, and every plane of the image gets the address of the
  heap's plane, from which its own address is its offset away.
\<close>

unbundle bit_operations_syntax

definition img_ready :: "ImgBuf \<Rightarrow> 'i Heap \<Rightarrow> bool" where
  "img_ready m h \<longleftrightarrow> im_mPlaneCount m = hp_mPlaneCount h \<and> length (im_mvImgBufInfo m) = hp_mPlaneCount h \<and>
     length (im_mvBufHeapInfo m) = hp_mPlaneCount h"

text \<open>The addresses a lock for a usage provides.\<close>

definition va_for :: "MUINT32 \<Rightarrow> 'i Heap \<Rightarrow> nat \<Rightarrow> size_t" where
  "va_for usage h i = (if usage AND eBUFFER_USAGE_SW_MASK \<noteq> 0 then bi_va (hp_mvBufInfo h ! i) else 0)"

definition pa_for :: "MUINT32 \<Rightarrow> 'i Heap \<Rightarrow> nat \<Rightarrow> size_t" where
  "pa_for usage h i = (if usage AND eBUFFER_USAGE_HW_MASK \<noteq> 0 then bi_pa (hp_mvBufInfo h ! i) else 0)"

definition heap_locked_for :: "MUINT32 \<Rightarrow> 'i Heap \<Rightarrow> bool" where
  "heap_locked_for usage h \<longleftrightarrow> hp_mLockCount h \<noteq> 0 \<and> hp_mLockUsage h = usage \<and> addresses_ok usage (hp_mvBufInfo h) \<and>
     length (hp_mvBufInfo h) = hp_mPlaneCount h"

lemma heap_addresses:
  assumes "heap_locked_for usage h" "i < hp_mPlaneCount h"
  shows "usage AND eBUFFER_USAGE_SW_MASK \<noteq> 0 \<Longrightarrow> heap_getBufVA i h = Some (va_for usage h i) \<and> va_for usage h i \<noteq> 0"
    and "usage AND eBUFFER_USAGE_HW_MASK \<noteq> 0 \<Longrightarrow> heap_getBufPA i h = Some (pa_for usage h i) \<and> pa_for usage h i \<noteq> 0"
  using assms
  by (simp_all add: heap_locked_for_def heap_getBufVA_def heap_getBufPA_def buf_at_def list_at_Some addresses_ok_def
      list_all_length va_for_def pa_for_def)

lemma fetch_addresses_locked:
  assumes "heap_locked_for usage h" "set is \<subseteq> {..<hp_mPlaneCount h}" "length bs = hp_mPlaneCount h"
  shows "\<exists>bs'. fetch_addresses is usage h bs = Some (True, bs') \<and> length bs' = length bs \<and>
    (\<forall>i<hp_mPlaneCount h. i \<in> set is \<longrightarrow> bi_va (bs' ! i) = va_for usage h i \<and> bi_pa (bs' ! i) = pa_for usage h i) \<and>
    (\<forall>i<hp_mPlaneCount h. i \<notin> set is \<longrightarrow> bs' ! i = bs ! i)"
  using assms(2,3)
proof (induction "is" arbitrary: bs)
  case (Cons i "is")
  let ?b = "bs[i := (bs ! i)\<lparr>bi_va := va_for usage h i, bi_pa := pa_for usage h i\<rparr>]"
  have i: "i < hp_mPlaneCount h" using Cons.prems(1) by simp
  note a = heap_addresses [OF assms(1) i]
  have e: "fetch_addresses (i # is) usage h bs = fetch_addresses is usage h ?b"
    using a by (cases "usage AND eBUFFER_USAGE_SW_MASK = 0"; cases "usage AND eBUFFER_USAGE_HW_MASK = 0")
      (auto simp: Let_def va_for_def pa_for_def)
  obtain bs' where b: "fetch_addresses is usage h ?b = Some (True, bs')" "length bs' = length bs"
      "\<And>j. j < hp_mPlaneCount h \<Longrightarrow> j \<in> set is \<Longrightarrow> bi_va (bs' ! j) = va_for usage h j \<and> bi_pa (bs' ! j) = pa_for usage h j"
      "\<And>j. j < hp_mPlaneCount h \<Longrightarrow> j \<notin> set is \<Longrightarrow> bs' ! j = ?b ! j"
    using Cons.IH [of ?b] Cons.prems by auto
  have "bi_va (bs' ! j) = va_for usage h j \<and> bi_pa (bs' ! j) = pa_for usage h j"
    if "j < hp_mPlaneCount h" "j \<in> set (i # is)" for j
    using that b(3,4) [of j] Cons.prems(2) by (cases "j \<in> set is") auto
  moreover have "bs' ! j = bs ! j" if "j < hp_mPlaneCount h" "j \<notin> set (i # is)" for j
    using that b(4) [of j] by auto
  ultimately show ?case unfolding e using b(1,2) by blast
qed simp

lemma same_addresses_nth:
  assumes "set is \<subseteq> {..<length (im_mvImgBufInfo m)}" "set is \<subseteq> {..<length (im_mvBufHeapInfo m)}"
  shows "\<exists>xs. same_addresses is m = Some (m\<lparr>im_mvImgBufInfo := xs\<rparr>) \<and> length xs = length (im_mvImgBufInfo m) \<and>
    (\<forall>i<length xs. i \<in> set is \<longrightarrow> xs ! i = (im_mvImgBufInfo m ! i)\<lparr>bi_pa := bi_pa (im_mvBufHeapInfo m ! i), bi_va := bi_va (im_mvBufHeapInfo m ! i)\<rparr>) \<and>
    (\<forall>i<length xs. i \<notin> set is \<longrightarrow> xs ! i = im_mvImgBufInfo m ! i)"
  using assms
proof (induction "is" arbitrary: m)
  case Nil
  then show ?case by (intro exI [of _ "im_mvImgBufInfo m"]) simp
next
  case (Cons i "is")
  let ?b = "im_mvBufHeapInfo m ! i"
  let ?m = "m\<lparr>im_mvImgBufInfo := (im_mvImgBufInfo m)[i := (im_mvImgBufInfo m ! i)\<lparr>bi_pa := bi_pa ?b, bi_va := bi_va ?b\<rparr>]\<rparr>"
  have e: "same_addresses (i # is) m = same_addresses is ?m" using Cons.prems by (simp add: list_at_Some)
  obtain xs where x: "same_addresses is ?m = Some (?m\<lparr>im_mvImgBufInfo := xs\<rparr>)" "length xs = length (im_mvImgBufInfo m)"
      "\<And>j. j < length xs \<Longrightarrow> j \<in> set is \<Longrightarrow> xs ! j = (im_mvImgBufInfo ?m ! j)\<lparr>bi_pa := bi_pa (im_mvBufHeapInfo m ! j), bi_va := bi_va (im_mvBufHeapInfo m ! j)\<rparr>"
      "\<And>j. j < length xs \<Longrightarrow> j \<notin> set is \<Longrightarrow> xs ! j = im_mvImgBufInfo ?m ! j"
    using Cons.IH [of ?m] Cons.prems by auto
  have "xs ! j = (im_mvImgBufInfo m ! j)\<lparr>bi_pa := bi_pa (im_mvBufHeapInfo m ! j), bi_va := bi_va (im_mvBufHeapInfo m ! j)\<rparr>"
    if "j < length xs" "j \<in> set (i # is)" for j
    using that x(2) x(3,4) [of j] by (cases "j \<in> set is"; cases "i = j") (auto simp: nth_list_update)
  moreover have "xs ! j = im_mvImgBufInfo m ! j" if "j < length xs" "j \<notin> set (i # is)" for j
    using that x(4) [of j] by auto
  ultimately show ?case unfolding e using x(1,2) by (intro exI [of _ xs]) simp
qed

lemma same_addresses_all:
  assumes "img_ready m h"
  shows "\<exists>xs. same_addresses [0..<length (im_mvImgBufInfo m)] m = Some (m\<lparr>im_mvImgBufInfo := xs\<rparr>) \<and> length xs = hp_mPlaneCount h \<and>
    (\<forall>i<hp_mPlaneCount h. xs ! i = (im_mvImgBufInfo m ! i)\<lparr>bi_pa := bi_pa (im_mvBufHeapInfo m ! i), bi_va := bi_va (im_mvBufHeapInfo m ! i)\<rparr>)"
proof -
  have l: "length (im_mvImgBufInfo m) = hp_mPlaneCount h" "length (im_mvBufHeapInfo m) = hp_mPlaneCount h"
    using assms by (simp_all add: img_ready_def)
  have "set [0..<length (im_mvImgBufInfo m)] \<subseteq> {..<length (im_mvImgBufInfo m)}"
    "set [0..<length (im_mvImgBufInfo m)] \<subseteq> {..<length (im_mvBufHeapInfo m)}"
    using l by auto
  from same_addresses_nth [OF this]
  obtain xs where "same_addresses [0..<length (im_mvImgBufInfo m)] m = Some (m\<lparr>im_mvImgBufInfo := xs\<rparr>)" "length xs = hp_mPlaneCount h"
      "\<forall>i<length xs. i \<in> set [0..<length (im_mvImgBufInfo m)] \<longrightarrow>
         xs ! i = (im_mvImgBufInfo m ! i)\<lparr>bi_pa := bi_pa (im_mvBufHeapInfo m ! i), bi_va := bi_va (im_mvBufHeapInfo m ! i)\<rparr>"
    using l by metis
  then show ?thesis using l by (intro exI [of _ xs]) simp
qed

text \<open>What an image is locked with: the heap's addresses in its planes, which are otherwise as before.\<close>

definition img_locked_with :: "MUINT32 \<Rightarrow> 'i Heap \<Rightarrow> ImgBuf \<Rightarrow> ImgBuf \<Rightarrow> bool" where
  "img_locked_with usage h m m' \<longleftrightarrow> im_mLockCount m' = 1 \<and> im_mLockUsage m' = usage \<and> img_ready m' h \<and>
     (\<forall>i<hp_mPlaneCount h. im_mvImgBufInfo m' ! i = (im_mvImgBufInfo m ! i)\<lparr>bi_pa := pa_for usage h i, bi_va := va_for usage h i\<rparr>)"

lemma img_locked_addresses:
  assumes "heap_locked_for usage h" "img_locked_with usage h m m'" "i < hp_mPlaneCount h"
  shows "usage AND eBUFFER_USAGE_SW_MASK \<noteq> 0 \<Longrightarrow>
      \<exists>va. heap_getBufVA i h = Some va \<and> va \<noteq> 0 \<and> img_getBufVA i m' = Some (va + ib_offsetInBytes (im_mvImgBufInfo m ! i))"
    and "usage AND eBUFFER_USAGE_HW_MASK \<noteq> 0 \<Longrightarrow>
      \<exists>pa. heap_getBufPA i h = Some pa \<and> pa \<noteq> 0 \<and> img_getBufPA i m' = Some (pa + ucast (ucast (ib_offsetInBytes (im_mvImgBufInfo m ! i)) :: MUINT32))"
  using heap_addresses [OF assms(1,3)] assms(2,3)
  by (simp_all add: img_locked_with_def img_ready_def img_getBufVA_def img_getBufPA_def img_getBufOffsetInBytes_def img_info_def list_at_Some)

context heap_provider
begin

lemma img_lock_step:
  assumes "heap_ready sound h" "img_ready m h" "hp_mLockCount h = 0" "im_mLockCount m = 0"
  shows "\<exists>ok m' h' d'. img_lockBuf ops usage m (h, d) = Some (True, m', h', d') \<and> heap_ready sound h' \<and>
    attributes h' = attributes h \<and> geometry h' = geometry h \<and>
    (ok \<longrightarrow> hp_mLockCount h' = 1 \<and> heap_locked_for usage h' \<and> img_locked_with usage h' m m') \<and>
    (\<not> ok \<longrightarrow> hp_mLockCount h' = 0 \<and> im_mLockCount m' = 0)"
proof -
  obtain ok h1 d1 where 1: "heap_lockBuf ops usage (h, d) = Some (ok, h1, d1)" "heap_ready sound h1" "attributes h1 = attributes h"
      "geometry h1 = geometry h" "hp_mLockCount h1 = (if ok then 1 else 0)" "ok \<Longrightarrow> hp_mLockUsage h1 = usage"
    using lock_step [OF assms(1), of usage d] assms(3) by auto
  have n: "hp_mPlaneCount h1 = hp_mPlaneCount h" using 1(3) by (simp add: attributes_def)
  show ?thesis
  proof (cases ok)
    case True
    have l: "heap_locked_for usage h1" using 1 True by (simp add: heap_locked_for_def heap_ready_def lock_inv_def)
    have "length (im_mvBufHeapInfo m) = hp_mPlaneCount h1" "set [0..<length (im_mvBufHeapInfo m)] \<subseteq> {..<hp_mPlaneCount h1}"
      using assms(2) n by (auto simp: img_ready_def)
    from fetch_addresses_locked [OF l this(2,1)]
    obtain bs where b: "fetch_addresses [0..<length (im_mvBufHeapInfo m)] usage h1 (im_mvBufHeapInfo m) = Some (True, bs)"
        "length bs = hp_mPlaneCount h" "\<And>i. i < hp_mPlaneCount h \<Longrightarrow> bi_va (bs ! i) = va_for usage h1 i \<and> bi_pa (bs ! i) = pa_for usage h1 i"
      using assms(2) n by (auto simp: img_ready_def)
    define m1 where "m1 = m\<lparr>im_mvBufHeapInfo := bs, im_mLockUsage := usage, im_mLockCount := 1\<rparr>"
    have lk: "img_lockBufLocked ops usage m (h, d) = Some (True, m1, h1, d1)"
      using assms(2,4) 1(1) True b(1) n by (simp add: img_lockBufLocked_def img_ready_def m1_def Let_def)
    have r: "img_ready m1 h" using assms(2) b(2) by (simp add: img_ready_def m1_def)
    obtain xs where x: "same_addresses [0..<length (im_mvImgBufInfo m1)] m1 = Some (m1\<lparr>im_mvImgBufInfo := xs\<rparr>)" "length xs = hp_mPlaneCount h"
        "\<And>i. i < hp_mPlaneCount h \<Longrightarrow> xs ! i = (im_mvImgBufInfo m1 ! i)\<lparr>bi_pa := bi_pa (im_mvBufHeapInfo m1 ! i), bi_va := bi_va (im_mvBufHeapInfo m1 ! i)\<rparr>"
      using same_addresses_all [OF r] by blast
    have "img_lockBuf ops usage m (h, d) = Some (True, m1\<lparr>im_mvImgBufInfo := xs\<rparr>, h1, d1)"
      using lk r n x(1) by (simp add: img_lockBuf_def img_ready_def)
    moreover have "img_locked_with usage h1 m (m1\<lparr>im_mvImgBufInfo := xs\<rparr>)"
      using r x(2,3) b(3) n by (simp add: img_locked_with_def img_ready_def m1_def)
    ultimately show ?thesis using 1 l True by auto
  next
    case False
    have lk: "img_lockBufLocked ops usage m (h, d) = Some (False, m, h1, d1)"
      using assms(4) 1(1) False by (simp add: img_lockBufLocked_def)
    obtain xs where x: "same_addresses [0..<length (im_mvImgBufInfo m)] m = Some (m\<lparr>im_mvImgBufInfo := xs\<rparr>)"
      using same_addresses_all [OF assms(2)] by blast
    have "img_lockBuf ops usage m (h, d) = Some (True, m\<lparr>im_mvImgBufInfo := xs\<rparr>, h1, d1)"
      using lk assms(2) n x by (simp add: img_lockBuf_def img_ready_def)
    then show ?thesis using 1 False assms(4) by (intro exI [of _ False]) simp
  qed
qed

lemma img_unlock_step:
  assumes "heap_ready sound h" "img_ready m h" "hp_mLockCount h = 1" "im_mLockCount m = 1"
  shows "\<exists>m' h' d'. img_unlockBuf ops m (h, d) = Some (True, m', h', d') \<and> heap_ready sound h' \<and> img_ready m' h' \<and>
    attributes h' = attributes h \<and> geometry h' = geometry h \<and> hp_mLockCount h' = 0 \<and> im_mLockCount m' = 0 \<and>
    (\<forall>i<hp_mPlaneCount h. im_mvImgBufInfo m' ! i = (im_mvImgBufInfo m ! i)\<lparr>bi_pa := 0, bi_va := 0\<rparr>)"
proof -
  obtain ok h1 d1 where 1: "heap_unlockBuf ops (h, d) = Some (ok, h1, d1)" "heap_ready sound h1" "attributes h1 = attributes h"
      "geometry h1 = geometry h" "hp_mLockCount h1 = 0" "ok"
    using unlock_step [OF assms(1), of d] assms(3) by auto
  have n: "hp_mPlaneCount h1 = hp_mPlaneCount h" using 1(3) by (simp add: attributes_def)
  define m1 where "m1 = m\<lparr>im_mvBufHeapInfo := map (\<lambda>b. b\<lparr>bi_va := 0, bi_pa := 0\<rparr>) (im_mvBufHeapInfo m), im_mLockUsage := 0, im_mLockCount := 0\<rparr>"
  have lk: "img_unlockBufLocked ops m (h, d) = Some (True, m1, h1, d1)"
    using assms(4) 1(1,6) by (simp add: img_unlockBufLocked_def m1_def)
  have r: "img_ready m1 h" using assms(2) by (simp add: img_ready_def m1_def)
  obtain xs where x: "same_addresses [0..<length (im_mvImgBufInfo m1)] m1 = Some (m1\<lparr>im_mvImgBufInfo := xs\<rparr>)" "length xs = hp_mPlaneCount h"
      "\<forall>i<hp_mPlaneCount h. xs ! i = (im_mvImgBufInfo m1 ! i)\<lparr>bi_pa := bi_pa (im_mvBufHeapInfo m1 ! i), bi_va := bi_va (im_mvBufHeapInfo m1 ! i)\<rparr>"
    using same_addresses_all [OF r] by blast
  have "img_unlockBuf ops m (h, d) = Some (True, m1\<lparr>im_mvImgBufInfo := xs\<rparr>, h1, d1)"
    using lk r n x(1) by (simp add: img_unlockBuf_def img_ready_def)
  moreover have "xs ! i = (im_mvImgBufInfo m ! i)\<lparr>bi_pa := 0, bi_va := 0\<rparr>" if "i < hp_mPlaneCount h" for i
    using x(3) that assms(2) by (simp add: m1_def img_ready_def)
  ultimately show ?thesis using 1 r x(2) n by (auto simp: img_ready_def m1_def)
qed

end

end
