(* ===== verification/ImageProps.thy ===== *)
theory ImageProps
  imports ImageLocks
begin

text \<open>
  The properties of the image buffers: what the driver gives out comes back, locks are counted,
  the images of a heap lie in it and have its addresses; and where the checks fall short.
\<close>

unbundle bit_operations_syntax

section \<open>Formats\<close>

lemma even_half: "unat (drop_bit 1 (x :: size_t)) = unat x div 2"
  unfolding unat_drop_bit_eq by (simp add: drop_bit_eq_div)

text \<open>How many quarters of the pixels of an image a plane has.\<close>

definition plane_weight :: "plane_shape \<Rightarrow> nat \<Rightarrow> nat" where
  "plane_weight s i = (if i = 0 then 4 else case s of Shape_1Plane \<Rightarrow> 4 | Shape_YUV420 \<Rightarrow> 1 | Shape_YUV422 \<Rightarrow> 2)"

lemma plane_weights:
  assumes "format_ok p" "fm_mPlaneCount p \<in> {1, 2, 3}"
  shows "(\<Sum>i<fm_mPlaneCount p. plane_weight (fm_shape p) i * fm_mPlaneBitsPerPixel p ! i) = 4 * fm_mImageBitsPerPixel p"
proof -
  obtain x y z where d: "fm_mPlaneBitsPerPixel p = [x, y, z]"
    using assms(1) by (auto simp: format_ok_def numeral_3_eq_3 length_Suc_conv)
  show ?thesis using assms
    by (cases "fm_shape p") (auto simp: format_ok_def d plane_weight_def eval_nat_numeral)
qed

text \<open>C29: For even sizes the planes of an image of any format together have as many bits as the format's depth says.\<close>

theorem format_planes_total:
  assumes "checkValidFormat f" "even (unat w)" "even (unat h)"
  shows "(\<Sum>i<queryPlaneCount f. unat (queryPlaneWidthInPixels f i w) * unat (queryPlaneHeightInPixels f i h) *
      the (queryPlaneBitsPerPixel f i)) = unat w * unat h * queryImageBitsPerPixel f"
proof -
  obtain p where p: "mapper_valueFor f = Some p" using assms(1) by (auto simp: checkValidFormat_def)
  obtain a b where w: "unat w = 2 * a" and h: "unat h = 2 * b" using assms(2,3) by (metis evenE)
  have "unat (queryPlaneWidthInPixels f i w) * unat (queryPlaneHeightInPixels f i h) * the (queryPlaneBitsPerPixel f i) =
      a * b * (plane_weight (fm_shape p) i * fm_mPlaneBitsPerPixel p ! i)" if "i < fm_mPlaneCount p" for i
  proof -
    have "i < 3" using that mapper_count [OF p] by auto
    then show ?thesis
      by (cases "fm_shape p") (simp_all add: queryPlaneWidthInPixels_def queryPlaneHeightInPixels_def
        queryPlaneBitsPerPixel_def p even_half [unfolded One_nat_def] w h plane_weight_def)
  qed
  then have "(\<Sum>i<fm_mPlaneCount p. unat (queryPlaneWidthInPixels f i w) * unat (queryPlaneHeightInPixels f i h) *
      the (queryPlaneBitsPerPixel f i)) = a * b * (4 * fm_mImageBitsPerPixel p)"
    unfolding plane_weights [OF mapper_ok [OF p] mapper_count [OF p], symmetric] sum_distrib_left by (intro sum.cong) simp_all
  then show ?thesis
    by (simp add: queryPlaneCount_def queryImageBitsPerPixel_def p w h algebra_simps)
qed

theorem format_planes_total_witness:
  "(\<Sum>i<queryPlaneCount eImgFmt_NV21. unat (queryPlaneWidthInPixels eImgFmt_NV21 i 8) *
      unat (queryPlaneHeightInPixels eImgFmt_NV21 i 6) * the (queryPlaneBitsPerPixel eImgFmt_NV21 i)) =
    unat (8 :: size_t) * unat (6 :: size_t) * queryImageBitsPerPixel eImgFmt_NV21"
proof (rule format_planes_total)
  show "checkValidFormat eImgFmt_NV21" by code_simp
qed simp_all

section \<open>Strides\<close>




definition empty_ion :: "'k \<Rightarrow> 'k Ion" where
  "empty_ion k = \<lparr>g_IonDevFD = - 1, g_IonCount = 0, g_k = k\<rparr>"

text \<open>A driver that numbers what it gives out, counts the imports that fail and keeps a list of what it has given out.\<close>

type_synonym ion_log = "nat \<times> nat \<times> ion_resource list"

definition log_kernel :: "ion_log ion_kernel" where
  "log_kernel = \<lparr>ion_open = (\<lambda>(n, f, l). (int n, Suc n, f, R_device (int n) # l)),
     ion_close = (\<lambda>fd (n, f, l). (n, f, remove1 (R_device fd) l)),
     ion_import = (\<lambda>_ fd (n, f, l). if R_fd fd \<in> set l then (True, int n, Suc n, f, R_handle (int n) # l) else (False, 1, n, Suc f, l)),
     ion_config = (\<lambda>_ _ _ _ k. k), ion_phys = (\<lambda>_ _ k. (0x40000000, k)), ion_sync = (\<lambda>_ _ k. k),
     ion_alloc_camera = (\<lambda>_ _ _ _ (n, f, l). (Some (int n + 1), Suc n, f, R_handle (int n + 1) # l)),
     ion_share = (\<lambda>_ _ (n, f, l). (Some (int n), Suc n, f, R_fd (int n) # l)),
     ion_mmap = (\<lambda>_ _ _ _ (n, f, l). (0x1000, Suc n, f, R_map 0x1000 # l)),
     ion_munmap = (\<lambda>_ va _ (n, f, l). (n, f, if va = - 1 then l else remove1 (R_map va) l)),
     ion_share_close = (\<lambda>_ fd (n, f, l). (n, f, remove1 (R_fd fd) l)),
     ion_free = (\<lambda>_ x (n, f, l). (n, f, remove1 (R_handle x) l))\<rparr>"

definition log_ledger :: "ion_log ledger" where
  "log_ledger = \<lparr>lg_live = (\<lambda>k. mset (snd (snd k))), lg_failed = (\<lambda>k. fst (snd k))\<rparr>"

lemma log_kernel_laws: "ion_laws log_kernel log_ledger"
  unfolding ion_laws_def log_kernel_def log_ledger_def gives_def takes_def ion_kernel.simps ledger.simps
  by (intro conjI allI impI; simp split: prod.splits if_splits; auto)

definition nv21_param :: ImgParam where
  "nv21_param = ImgParam_image eImgFmt_NV21 \<lparr>ms_w = 16, ms_h = 8\<rparr> [16, 16] [64, 64] 2"




section \<open>The memory of the driver\<close>

text \<open>C7: Whatever becomes of a heap of the driver's memory - its creation fails at any point, or it is locked, unlocked
  and its caches synchronised in any order and then released - no call faults and nothing leaks: beside the device
  that all heaps share the driver has given out no more than before, and exactly what it had before unless
  an import of a descriptor failed on the way. After a failed import the code frees a handle that it
  was not given, so that less may be left.
\<close>

theorem ion_heap_returns_all:
  assumes "queryPlaneCount (ip_imgFormat p) \<le> length (ip_bufStridesInBytes p)"
    "queryPlaneCount (ip_imgFormat p) \<le> length (ip_bufBoundaryInBytes p)" "0 \<le> g_IonCount d"
    "ion_laws K L" "held_shared d \<subseteq># lg_live L (g_k d)"
  shows "\<exists>d'. ion_life K p x us d = Some d' \<and> g_IonCount d' = g_IonCount d \<and>
    lg_live L (g_k d') - held_shared d' \<subseteq># lg_live L (g_k d) - held_shared d \<and>
    lg_failed L (g_k d) \<le> lg_failed L (g_k d') \<and>
    (lg_failed L (g_k d') = lg_failed L (g_k d) \<longrightarrow> lg_live L (g_k d') - held_shared d' = lg_live L (g_k d) - held_shared d)"
proof -
  let ?M = "lg_live L (g_k d) - held_shared d"
  have "owes L (lg_failed L (g_k d)) (?M + held_shared d) (g_k d)" using owes_start [of L "g_k d"] assms(5) by simp
  from ion_life_account [OF assms(1-4) this]
  show ?thesis by (fastforce simp: owes_def subset_eq_diff_conv)
qed

text \<open>A heap of two planes, locked for the processor and for the hardware, and synchronised.\<close>

definition nv21_use :: "heap_use list" where
  "nv21_use = [Call (LockBuf 0x40033), Call (LockBuf 0x40033), SyncCache, Call UnlockBuf, Call (LockBuf 0x3)]"

theorem ion_heap_returns_all_witness:
  "(\<exists>d'. ion_life log_kernel nv21_param \<lparr>ax_nocache = 0, ax_security = 0, ax_coherence = 0\<rparr> nv21_use (empty_ion (0, 0, [])) = Some d' \<and>
     lg_live log_ledger (g_k d') - held_shared d' \<subseteq># {#}) \<and>
   map_option (\<lambda>d. (g_IonCount d, snd (g_k d)))
     (ion_life log_kernel nv21_param \<lparr>ax_nocache = 0, ax_security = 0, ax_coherence = 0\<rparr> nv21_use (empty_ion (0, 0, []))) = Some (0, 0, [])"
proof
  have "\<exists>d'. ion_life log_kernel nv21_param \<lparr>ax_nocache = 0, ax_security = 0, ax_coherence = 0\<rparr> nv21_use (empty_ion (0, 0, [])) = Some d' \<and>
      g_IonCount d' = g_IonCount (empty_ion (0 :: nat, 0 :: nat, [] :: ion_resource list)) \<and>
      lg_live log_ledger (g_k d') - held_shared d' \<subseteq># lg_live log_ledger (g_k (empty_ion (0, 0, []))) - held_shared (empty_ion (0 :: nat, 0 :: nat, [] :: ion_resource list)) \<and>
      lg_failed log_ledger (g_k (empty_ion (0, 0, []))) \<le> lg_failed log_ledger (g_k d') \<and>
      (lg_failed log_ledger (g_k d') = lg_failed log_ledger (g_k (empty_ion (0, 0, []))) \<longrightarrow>
        lg_live log_ledger (g_k d') - held_shared d' = lg_live log_ledger (g_k (empty_ion (0, 0, []))) - held_shared (empty_ion (0 :: nat, 0 :: nat, [] :: ion_resource list)))"
  proof (rule ion_heap_returns_all)
    show "queryPlaneCount (ip_imgFormat nv21_param) \<le> length (ip_bufStridesInBytes nv21_param)" by code_simp
    show "queryPlaneCount (ip_imgFormat nv21_param) \<le> length (ip_bufBoundaryInBytes nv21_param)" by code_simp
  qed (simp_all add: log_kernel_laws empty_ion_def held_shared_def)
  then show "\<exists>d'. ion_life log_kernel nv21_param \<lparr>ax_nocache = 0, ax_security = 0, ax_coherence = 0\<rparr> nv21_use (empty_ion (0, 0, [])) = Some d' \<and>
      lg_live log_ledger (g_k d') - held_shared d' \<subseteq># {#}"
    by (auto simp: empty_ion_def log_ledger_def)
  show "map_option (\<lambda>d. (g_IonCount d, snd (g_k d)))
     (ion_life log_kernel nv21_param \<lparr>ax_nocache = 0, ax_security = 0, ax_coherence = 0\<rparr> nv21_use (empty_ion (0, 0, []))) = Some (0, 0, [])"
    by code_simp
qed

section \<open>Locks\<close>

text \<open>C9: A heap of the driver's memory counts its locks: after any calls the count is that of the successful locks less
  that of the successful unlocks, more than one lock is held only by readers, a locked heap has an
  address for every plane and every kind of access, and the planes are what they were.
\<close>

theorem heap_locks_counted:
  assumes "ion_create K p x d = Some (Some h, d1)"
  shows "\<exists>oks h' d'. heap_calls (ion_ops K) cs (h, d1) = Some (oks, h', d') \<and> length oks = length cs \<and>
    hp_mLockCount h' = locks_held cs oks \<and> lock_inv h' \<and> attributes h' = attributes h \<and> geometry h' = geometry h"
proof -
  have n: "IonImageBufferHeap_new p x = BaseImageBufferHeap_new (hp_imp (IonImageBufferHeap_new p x))"
    and f: "fresh_ion (hp_imp (IonImageBufferHeap_new p x))"
    by (simp_all add: IonImageBufferHeap_new_def BaseImageBufferHeap_new_def fresh_ion_def)
  have "heap_onCreate K (ion_ops K) (ip_imgSize p) (ip_imgFormat p) (ip_bufSize p) (IonImageBufferHeap_new p x, d) = Some (True, h, d1)"
    using assms by (auto simp: ion_create_def split: if_splits)
  then have "heap_onCreate K (ion_ops K) (ip_imgSize p) (ip_imgFormat p) (ip_bufSize p)
      (BaseImageBufferHeap_new (hp_imp (IonImageBufferHeap_new p x)), d) = Some (True, h, d1)"
    by (subst n [symmetric])
  from ion.create_ready [OF this f] have "heap_ready sound_ion h" "hp_mLockCount h = 0" by simp_all
  then show ?thesis using ion.calls_ready [of h K cs d1] by (auto simp: heap_ready_def)
qed

definition nv21_heap :: "(IonHeap Heap \<times> ion_log Ion) option" where
  "nv21_heap = (case ion_create log_kernel nv21_param \<lparr>ax_nocache = 0, ax_security = 0, ax_coherence = 0\<rparr> (empty_ion (0, 0, [])) of
     Some (Some h, d) \<Rightarrow> Some (h, d) | _ \<Rightarrow> None)"

lemma nv21_heap_created:
  obtains h d where "nv21_heap = Some (h, d)"
    "ion_create log_kernel nv21_param \<lparr>ax_nocache = 0, ax_security = 0, ax_coherence = 0\<rparr> (empty_ion (0, 0, [])) = Some (Some h, d)"
proof -
  have "nv21_heap \<noteq> None" by code_simp
  then show ?thesis using that by (auto simp: nv21_heap_def split: option.splits)
qed

theorem heap_locks_counted_witness:
  "case nv21_heap of None \<Rightarrow> False | Some (h, d) \<Rightarrow>
     \<exists>oks h' d'. heap_calls (ion_ops log_kernel) [LockBuf 0x3, LockBuf 0x33, LockBuf 0x3, UnlockBuf] (h, d) = Some (oks, h', d') \<and>
       length oks = length [LockBuf 0x3, LockBuf 0x33, LockBuf 0x3, UnlockBuf] \<and>
       hp_mLockCount h' = locks_held [LockBuf 0x3, LockBuf 0x33, LockBuf 0x3, UnlockBuf] oks \<and> lock_inv h' \<and>
       attributes h' = attributes h \<and> geometry h' = geometry h"
proof (rule nv21_heap_created)
  fix h d
  assume h: "nv21_heap = Some (h, d)"
    "ion_create log_kernel nv21_param \<lparr>ax_nocache = 0, ax_security = 0, ax_coherence = 0\<rparr> (empty_ion (0, 0, [])) = Some (Some h, d)"
  show ?thesis unfolding h(1) option.case prod.case by (rule heap_locks_counted [OF h(2)])
qed

section \<open>Images\<close>

text \<open>C8: When the strides have room for the rows and the driver has the memory, the allocator makes an image
  whose planes are those of its heap. Locked, it has the heap's addresses, none of them zero, for every
  kind of access it is locked for; unlocked again, image and heap are as before the lock.
\<close>

theorem allocated_image:
  assumes "param_fits p" "ion_create K p \<lparr>ax_nocache = nocache, ax_security = 0, ax_coherence = 0\<rparr> d = Some (Some h, d1)"
  shows "\<exists>m. alloc_ion K p nocache d = Some (Some (m, h), d1) \<and> im_mvImgBufInfo m = map whole_info (hp_mvBufInfo h) \<and>
    (\<exists>ok m' h' d2. img_lockBuf (ion_ops K) usage m (h, d1) = Some (True, m', h', d2) \<and>
       (if ok then img_locked_with usage h' m m' \<and>
          (\<forall>i<hp_mPlaneCount h.
             (usage AND eBUFFER_USAGE_SW_MASK = 0 \<or> (\<exists>va. heap_getBufVA i h' = Some va \<and> va \<noteq> 0 \<and> img_getBufVA i m' = Some va)) \<and>
             (usage AND eBUFFER_USAGE_HW_MASK = 0 \<or> (\<exists>pa. heap_getBufPA i h' = Some pa \<and> pa \<noteq> 0 \<and> img_getBufPA i m' = Some pa))) \<and>
          (\<exists>m'' h'' d3. img_unlockBuf (ion_ops K) m' (h', d2) = Some (True, m'', h'', d3) \<and> hp_mLockCount h'' = 0 \<and>
             im_mLockCount m'' = 0 \<and> im_mvImgBufInfo m'' = im_mvImgBufInfo m \<and> geometry h'' = geometry h)
        else hp_mLockCount h' = 0 \<and> im_mLockCount m' = 0))"
proof -
  note c = ion_create_fits [OF assms(2,1)]
  have f: "heap_fits h" "heap_ready sound_ion h" "hp_mLockCount h = 0" using c by simp_all
  obtain m where m: "createImageBuffer h = Some (Some m)" "im_mPlaneCount m = hp_mPlaneCount h" "im_mLockCount m = 0"
      "im_mvImgBufInfo m = map whole_info (hp_mvBufInfo h)" "im_mvBufHeapInfo m = map (\<lambda>b. b\<lparr>bi_pa := 0, bi_va := 0\<rparr>) (hp_mvBufInfo h)"
    using createImageBuffer_fits [OF f(1)] by blast
  have len: "length (hp_mvBufInfo h) = hp_mPlaneCount h" using f(1) by (simp add: heap_fits_def)
  have a: "alloc_ion K p nocache d = Some (Some (m, h), d1)"
    using assms m(1) by (simp add: alloc_ion_def param_fits_def)
  have r: "img_ready m h" using m len by (simp add: img_ready_def)
  obtain ok m' h' d2 where l: "img_lockBuf (ion_ops K) usage m (h, d1) = Some (True, m', h', d2)" "heap_ready sound_ion h'"
      "attributes h' = attributes h" "geometry h' = geometry h"
      "ok \<Longrightarrow> hp_mLockCount h' = 1 \<and> heap_locked_for usage h' \<and> img_locked_with usage h' m m'"
      "\<not> ok \<Longrightarrow> hp_mLockCount h' = 0 \<and> im_mLockCount m' = 0"
    using ion.img_lock_step [OF f(2) r f(3) m(3), of K usage d1] by blast
  have n: "hp_mPlaneCount h' = hp_mPlaneCount h" using l(3) by (simp add: attributes_def)
  show ?thesis
  proof (cases ok)
    case False
    then show ?thesis using a m(4) l(1,6) by (intro exI [of _ m] conjI exI [of _ False] exI [of _ m'] exI [of _ h'] exI [of _ d2]) simp_all
  next
    case True
    note t = l(5) [OF True]
    have z: "ib_offsetInBytes (im_mvImgBufInfo m ! i) = 0" if "i < hp_mPlaneCount h" for i
      using that m(4) len by (simp add: whole_info_def ImgBufInfo_new_def)
    have addr: "(usage AND eBUFFER_USAGE_SW_MASK = 0 \<or> (\<exists>va. heap_getBufVA i h' = Some va \<and> va \<noteq> 0 \<and> img_getBufVA i m' = Some va)) \<and>
        (usage AND eBUFFER_USAGE_HW_MASK = 0 \<or> (\<exists>pa. heap_getBufPA i h' = Some pa \<and> pa \<noteq> 0 \<and> img_getBufPA i m' = Some pa))"
      if "i < hp_mPlaneCount h" for i
      using img_locked_addresses [of usage h' m m' i] t z [OF that] that n by auto
    have "img_ready m' h'" "im_mLockCount m' = 1" using t by (simp_all add: img_locked_with_def)
    then obtain m'' h'' d3 where u: "img_unlockBuf (ion_ops K) m' (h', d2) = Some (True, m'', h'', d3)" "img_ready m'' h''"
        "attributes h'' = attributes h'" "geometry h'' = geometry h'" "hp_mLockCount h'' = 0" "im_mLockCount m'' = 0"
        "\<forall>i<hp_mPlaneCount h'. im_mvImgBufInfo m'' ! i = (im_mvImgBufInfo m' ! i)\<lparr>bi_pa := 0, bi_va := 0\<rparr>"
      using ion.img_unlock_step [OF l(2), of m' K d2] t by blast
    have "im_mvImgBufInfo m'' ! i = im_mvImgBufInfo m ! i" if "i < hp_mPlaneCount h" for i
      using u(7) that n t m(4) len by (simp add: img_locked_with_def whole_info_def ImgBufInfo_new_def)
    then have "im_mvImgBufInfo m'' = im_mvImgBufInfo m"
      using u(2,3) n m(4) len by (intro nth_equalityI) (simp_all add: img_ready_def attributes_def)
    then show ?thesis using a m(4) l(1,4) t addr u(1,4-6)
      by (intro exI [of _ m] conjI exI [of _ True] exI [of _ m'] exI [of _ h'] exI [of _ d2]) auto
  qed
qed

theorem allocated_image_witness:
  "case nv21_heap of None \<Rightarrow> False | Some (h, d1) \<Rightarrow>
     (\<exists>m. alloc_ion log_kernel nv21_param 0 (empty_ion (0, 0, [])) = Some (Some (m, h), d1)) \<and>
     (case alloc_ion log_kernel nv21_param 0 (empty_ion (0, 0, [])) of
        Some (Some (m, h), d1) \<Rightarrow>
          (case img_lockBuf (ion_ops log_kernel) 0x33 m (h, d1) of
             Some (ok, m', h', d2) \<Rightarrow> hp_mLockCount h' = 1 \<and> img_getBufVA 0 m' = Some 0x1000 \<and> img_getBufVA 1 m' = Some 0x1000
           | None \<Rightarrow> False)
      | _ \<Rightarrow> False)"
proof (rule nv21_heap_created)
  fix h d
  assume h: "nv21_heap = Some (h, d)"
    "ion_create log_kernel nv21_param \<lparr>ax_nocache = 0, ax_security = 0, ax_coherence = 0\<rparr> (empty_ion (0, 0, [])) = Some (Some h, d)"
  have q: "queryPlaneCount eImgFmt_NV21 = 2" "queryPlaneBitsPerPixel eImgFmt_NV21 0 = Some 8" "queryPlaneBitsPerPixel eImgFmt_NV21 1 = Some 16"
      "queryPlaneWidthInPixels eImgFmt_NV21 0 16 = 16" "queryPlaneWidthInPixels eImgFmt_NV21 1 16 = 8"
    by code_simp+
  have two: "(\<forall>i<2. P i) \<longleftrightarrow> P 0 \<and> P 1" for P :: "nat \<Rightarrow> bool"
    by (auto simp: less_2_cases_iff)
  have "param_fits nv21_param"
    using q by (simp add: param_fits_def nv21_param_def ImgParam_image_def row_fits_def two)
  from allocated_image [OF this h(2), where usage = "0x33"]
  have a: "\<exists>m. alloc_ion log_kernel nv21_param 0 (empty_ion (0, 0, [])) = Some (Some (m, h), d)" by blast
  have b: "case alloc_ion log_kernel nv21_param 0 (empty_ion (0, 0, [])) of
        Some (Some (m, h), d1) \<Rightarrow>
          (case img_lockBuf (ion_ops log_kernel) 0x33 m (h, d1) of
             Some (ok, m', h', d2) \<Rightarrow> hp_mLockCount h' = 1 \<and> img_getBufVA 0 m' = Some 0x1000 \<and> img_getBufVA 1 m' = Some 0x1000
           | None \<Rightarrow> False)
      | _ \<Rightarrow> False"
    by code_simp
  show ?thesis unfolding h(1) option.case prod.case by (rule conjI [OF a b])
qed

section \<open>Where the checks fall short\<close>





end
