(* ===== verification/Spec2Isabelle.thy ===== *)
theory Spec2Isabelle
  imports PipelineDAG UsersProps StreamBuffers FrameRaces RequestProps MetadataProps AppRunProps ImageProps
begin

text \<open>
  A model of the camera pipeline framework of the MediaTek hardware abstraction layer, in
  \<open>src/mtkcam/pipeline\<close>, with the fences of \<open>src/mtkcam/utils/std/Sync.cpp\<close>, the metadata
  container of \<open>src/mtkcam/utils/metadata/metadata/Metadata.cpp\<close> that it passes around, the
  manager of the client's streams in \<open>src/mtkcam/middleware/v3/app\<close>, and the image buffers of
  \<open>src/mtkcam/utils/imgbuf\<close> with the formats of \<open>src/mtkcam/utils/std/Format.cpp\<close>.

  \<^bold>\<open>The program.\<close> A pipeline is a directed graph of processing nodes. Every frame walks through
  the graph with a set of stream buffers (images and metadata). Each stream buffer has a
  users manager, which knows the nodes that use the buffer, the order of their uses, what
  each has done with it so far, and the fences each must wait for. A buffer comes from a
  pool or a provider and goes back to it when no user holds it. A pipeline context is
  configured with streams, nodes and edges; a request names the nodes it needs, and the context
  builds a frame from it: the graph, the streams of each node, the buffers, and their users.
  The queue registers the frame as in flight and hands it to the root node; each node marks
  what it has done with its streams and applies the release; the frame tells its listeners
  when a node, and when the last node, has released everything. A metadata buffer holds a
  container of typed entries, which can be written as text into memory and read back.
  The stream manager stands between the client and the pipeline: it checks the streams the
  client configures, wraps the client's buffers in stream buffers, keeps every frame of the
  client until its results are complete, and on results from the pipeline decides which images
  and metadata to give back to the client, in which order, and which errors to report.
  Under the images of the stream buffers are heaps: memory of the memory driver, or memory and
  addresses that the caller has. A heap has a plane of memory for every plane of its format, maps
  it when it is locked and counts its locks; an image buffer is a region of a heap with a format
  and a size of its own, and its addresses follow from those of the heap.

  \<^bold>\<open>The theories, in the order of their imports.\<close>

  \<^item> \<open>Prelude\<close>: identifier types, the status codes of the Android base library, collections of
    rewrite rules, facts on paths and cycles of finite relations.

  \<^item> \<open>Containers\<close>: the containers of the Android base library that the code keeps its state
    in, as functions on lists and words: \<open>KeyedVector\<close> (the locale \<open>keyed_vector\<close> states
    what clients rely on), \<open>SortedVector\<close> and the 32-bit \<open>BitSet32\<close>.

  \<^item> \<open>Adjacency\<close>: nodes that keep the sorted lists of their in-edges and out-edges. The locale
    \<open>adj_node\<close> is proved once and used for both graphs of the program (\<open>dag\<close> in
    \<open>PipelineDAG\<close>, \<open>ug\<close> in \<open>UserGraph\<close>).

  \<^item> \<open>PipelineDAG\<close> (\<open>pipeline/PipelineDAGImp.cpp\<close>): the graph of nodes. Construction, cloning,
    topological sort by depth-first search with marks, the search for orphans, the search
    for paths. Properties: the sort is right on every acyclic graph and fails on every
    other; the two adjacency records agree in every graph that is built without adding a node
    twice; a clone is the induced subgraph, and asking for more ids than there are nodes is a
    fault; the recursion that looks for orphans does not return on a cycle; the
    cached sort goes stale; \<open>addNode\<close> of a present id and the function that makes a new graph
    from paths lose edges.

  \<^item> \<open>Sync\<close> (\<open>utils/std/Sync.cpp\<close>): fences and timelines, descriptors of the kernel's sync
    framework. The kernel is a parameter, a record \<open>sync_kernel\<close> of its calls on an abstract
    state; \<open>sync_laws\<close> says what the code relies on, where duplicating and merging may fail and
    failures are counted, and \<open>mk_kernel\<close> is a concrete kernel that satisfies it. Properties: a
    merged fence waits for the events of both parts and for no others, unless a call fails; then the
    code goes on with no fence.

  \<^item> \<open>UserGraph\<close>, \<open>UsersManager\<close>, \<open>UsersInv\<close>, \<open>UsersProps\<close>
    (\<open>utils/streambuf/UsersManagerImp.cpp\<close>): the users of a buffer, their order, their status
    words and fences; \<open>UsersInv\<close> holds the invariant and its preservation by every operation,
    \<open>UsersProps\<close> the properties: the bit sets that answer the queries in constant time say what the status words say, for at most 32 users of a kind (\<open>um_fits\<close>; the mark of a later one is a
    fault, as the shift in \<open>BitSet32\<close> is undefined) and managers from whose graphs no mapped user is
    removed (\<open>um_reach\<close>); a user may go on exactly when the users it transitively waits for have
    released; its acquire fence waits for nothing but their release fences, and for all of them
    unless a call of the kernel fails.

  \<^item> \<open>StreamBufferPool\<close> (\<open>utils/streambuf/StreamBufferPoolImpl.cpp\<close> and the class template in
    \<open>StreamBufferPool.h\<close>): the sections that run under the lock are functions, and a step
    relation interleaves clients with the allocation thread. The test of a commit and its start
    of the thread are two steps, and so are the wait and the clearing of an uninit. Properties: no
    buffer has two owners, in every interleaving; the capacity holds when a commit overlaps with
    no acquire that allocates, no other commit, no uninit and no running thread, and not in
    general.

  \<^item> \<open>StreamBuffers\<close> (\<open>utils/streambuf/StreamBuffers.cpp\<close>, \<open>StreamBufferProvider.cpp\<close>): the
    buffer with its reader/writer lock (the locale \<open>rw_lock\<close>, \<open>sbl\<close> on the model), its status
    word and its way back to a pool or provider. Properties: the lock excludes as it should;
    a producer that releases without using marks the content as an error, and the provider
    learns of it; a metadata buffer that comes back from its pool keeps its repeating mark.

  \<^item> \<open>FrameNodeMap\<close> (\<open>pipeline/PipelineFrameNodeMapControlImp.cpp\<close>,
    \<open>PipelineFrameNumberGenerator.cpp\<close>): the nodes of a frame with their streams.

  \<^item> \<open>InFlight\<close> (\<open>pipeline/InFlightRequest.cpp\<close>): the frames in flight, for everything and per
    node, and the threads that wait, as a step relation. Properties: no wake-up is lost as long
    as \<open>clear\<close> is not called.

  \<^item> \<open>BufferStore\<close>, \<open>FrameControl\<close> (\<open>pipeline/PipelineBufferSetFrameControlImp.cpp\<close> and its
    header): buffers and managers as shared objects in a store, and the buffer set of a frame,
    with the item maps, the collector of released buffers and the status of the nodes.
    \<open>FrameSteps\<close> says what each operation does to items, managers and nodes; \<open>FrameProps\<close> has
    the invariant \<open>frame_inv\<close> of a configured frame and shows that all nodes can finish in any
    order and the release is announced once; \<open>FrameRaces\<close> shows that a node that has not
    released stays in flight, and by example three orders of calls that go wrong.

  \<^item> \<open>ContextConfig\<close> (\<open>pipeline/PipelineContextImpl.cpp\<close>, its header, \<open>PipelineContext.cpp\<close>,
    \<open>PipelineNodeMapControlImp.cpp\<close>, \<open>IStreamInfoSetControl.h\<close>): the configured streams, nodes
    and edges, and how they become the graph and the map of nodes.

  \<^item> \<open>BufferUsers\<close> (\<open>evaluate_buffer_users\<close> in \<open>PipelineContextImpl.cpp\<close>): how the users of a
    buffer follow from the graph. Properties: the readiness query over them means what the
    paths of the graph say.

  \<^item> \<open>RequestBuild\<close>, \<open>PipelineContext\<close> (\<open>PipelineContextImpl.cpp\<close>, \<open>PipelineContext.cpp\<close>,
    \<open>PipelineContextBuilders.cpp\<close>): the request builder, the functions a request is constructed
    with, and the operations of a context: configuring, constructing, queueing, waiting,
    flushing and dispatching.

  \<^item> \<open>FrameBuild\<close>, \<open>FrameSetup\<close>, \<open>FrameReady\<close>, \<open>RequestProps\<close>: the construction of a frame
    step by step, up to the properties that a well-formed request gets a frame that satisfies
    \<open>frame_inv\<close>, and that the frame goes from registration to its release.

  \<^item> \<open>LibcText\<close>, \<open>Metadata\<close>, \<open>MetadataText\<close>, \<open>MetadataRead\<close>, \<open>MetadataProps\<close>
    (\<open>utils/metadata/metadata/Metadata.cpp\<close>): \<open>LibcText\<close> has what the C library does with
    numbers and memory (\<open>snprintf\<close>, \<open>atoi\<close>, \<open>memcpy\<close>), \<open>Metadata\<close> the entries, the container
    and its text form. \<open>MetadataText\<close> defines the text that should be written and shows that
    it is; \<open>MetadataRead\<close> describes the metadata that can be read back. Properties: the
    round trip, the bounds of the buffer, a loop that does not end at two consecutive zero bytes,
    the entries of a sum; and by example three ways the round trip loses data. \<open>libc_float\<close>, how floating-point numbers are
    printed and read, is a parameter, and so is \<open>ltr\<close>, the order in which the arguments of a
    call are evaluated. \<open>unflatten\<close> has fuel: every round of its loops moves by at least one
    character unless it stays for ever, so the length of the text and two is enough, as the
    round trip shows.

  \<^item> \<open>AppBuffers\<close>, \<open>AppFrames\<close>, \<open>AppManager\<close> (\<open>middleware/v3/app/Cam3ImageStreamInfo.cpp\<close>,
    \<open>AppStreamBuffers.cpp\<close>, \<open>AppStreamMgr.FrameHandler.cpp\<close>, \<open>AppStreamMgr.cpp\<close>, \<open>AppStreamMgr.h\<close>):
    the client's streams and buffers, the frames of the client with their items, and the
    manager with its queue of results. Frames, image items and buffers are shared objects,
    positions in the lists of the state \<open>App\<close>; a metadata item belongs to one set and is stored
    there. A round of the manager's thread gives the calls of the client as a list. \<open>app_env\<close>,
    a record of what the manager calls outside, is a parameter.
    \<open>AppFrameInv\<close> has the invariant of items, queues and counters, and its preservation by every
    step; \<open>AppFrameProps\<close> the histories \<open>app_reach\<close> of calls in any order, and runs to evaluate;
    \<open>AppManagerProps\<close> and \<open>AppRunProps\<close> the properties: which configurations are accepted,
    what requests, with which image buffers, are made of the client's, how results are collected, every image comes back
    once and a frame ends only when all have, and an order of events that makes the code use an
    item that is gone; and by example final metadata that overtakes that of an earlier frame.

  \<^item> \<open>ImageFormat\<close> (\<open>utils/std/Format.cpp\<close>): the table of formats and the queries on planes and depths.
    Property: the planes of an image make up the depth of its format.

  \<^item> \<open>ImageHeap\<close>, \<open>ImageHeaps\<close>, \<open>IonHeap\<close> (\<open>utils/imgbuf/BaseImageBufferHeap.cpp\<close>,
    \<open>ImageBufferHeap.cpp\<close>, \<open>DummyImageBufferHeap.cpp\<close>, \<open>IonImageBufferHeap.cpp\<close>): the base class of
    the heaps, which calls the functions \<open>heap_ops\<close> of the derived class, and three derived
    classes. The memory driver is a parameter, the record \<open>ion_kernel\<close> of its calls on an abstract
    state: importing a descriptor, configuring, asking for the address, synchronising the cache and
    freeing are calls of their own, and after a failed import the code goes on with the handle
    it was not given, any value. \<open>ion_laws\<close> says, with a \<open>ledger\<close> of what is given out and of the
    failed imports, what each call adds and takes away, and that a mapping is not at
    address 0; \<open>log_kernel\<close> is a concrete driver that satisfies it. Sizes and addresses are
    64-bit words.

  \<^item> \<open>HeapContract\<close>, \<open>HeapProviders\<close>, \<open>IonProps\<close>: the locale \<open>heap_provider\<close> states what the base class
    asks of a derived class, and the lemmas on creation, locks and unlocks are proved once in it;
    its interpretations \<open>port\<close>, \<open>dummy\<close> and \<open>ion\<close> are the three classes. \<open>IonProps\<close> also keeps account
    of what the driver has given out, call by call. Properties: everything comes back, also when
    a creation fails (when imports fail, no more is left than there was); locks are counted and
    exclude writers.

  \<^item> \<open>ImageBuffer\<close>, \<open>ImageAllocator\<close> (\<open>utils/imgbuf/BaseImageBuffer.cpp\<close>, \<open>ImageBufferAllocator.cpp\<close>,
    the functions of \<open>BaseImageBufferHeap.cpp\<close> that make images): images over a heap, and the
    allocator that makes both. \<open>ImageFit\<close> shows which heaps have an image, \<open>ImageLocks\<close> what locking
    an image does, \<open>ImageProps\<close> has the properties: an allocated image has the addresses of its
    heap, the strides the heap accepts and that no image is made of a heap whose strides are too
    short, and that an image of a BLOB heap is accepted at any offset.

  \<^bold>\<open>Bounds.\<close> A manager keeps its users in 32-bit sets, so the properties on readiness and on the
  life of a request ask for at most 32 users of a stream; the code has no check for more.

  \<^bold>\<open>Conventions.\<close> A class is a record, a derived class a record extension, an object shared by
  several owners a position in a store. A fault (a null pointer, an index past the end, the
  abort of \<open>KeyedVector::editValueFor\<close>) or a call that does not return is \<open>None\<close> of an option
  type. A recursion that need not end is a \<open>partial_function (option)\<close>; only \<open>unflatten\<close> uses fuel. A
  member function that runs under a mutex is one step. 32-bit values wrap; ids, descriptors
  and error codes are integers.

  \<^bold>\<open>Not modelled.\<close> Logging and dumps, memory allocation of containers, reference counts except
  where a weak pointer is promoted, names of fences; of the stream manager the counters and
  traces that only feed debug messages, its destruction, and the memory of a JPEG, whose
  writing is an event. The creation of a buffer pool at configuration
  (\<open>createHalStreamBufferPool\<close>) and the node actors are parameters, and so are the conversion of
  metadata to the platform's form and the graphics allocator. Of the image buffers the files they
  are saved to and loaded from, and the heaps of the graphics allocator beside their creation and
  their fences, are calls of the system. The destruction of a context, the
  older buffer set of \<open>utils/streambuf/StreamBufferSetControlImp.cpp\<close>, the drivers, the tuning
  algorithms, the hardware nodes and the other subsystems of the repository are not part of
  the model.
\<close>

end
